(* ===== verification/Shamu_Prelude.thy ===== *)
theory Shamu_Prelude
  imports Complex_Main "HOL-Library.Char_ord" "HOL-Library.List_Lexorder"
begin

text \<open>
  Shared vocabulary of the development: the model's view of JavaScript strings (splitting, joining,
  trimming, the wildcard regular expressions the sources build), results of fallible operations as
  sums, and SQLite tables with a primary key. JavaScript strings are modelled as lists of 8-bit
  characters; JavaScript numbers that hold times, counters and sequence numbers are modelled as
  \<open>int\<close> or \<open>nat\<close>.
\<close>

section \<open>Collections of rewrite rules\<close>

named_theorems shamu_defs "definitions that the component proofs unfold together"
named_theorems result_simps "rewriting of the result monad"

section \<open>Results of fallible operations\<close>

text \<open>A thrown error is \<open>Inl\<close>, a returned value \<open>Inr\<close>.\<close>

type_synonym ms = int

fun bind_result :: "'e + 'a \<Rightarrow> ('a \<Rightarrow> 'e + 'b) \<Rightarrow> 'e + 'b" where
  "bind_result (Inl e) f = Inl e"
| "bind_result (Inr a) f = f a"

definition guard_result :: "bool \<Rightarrow> 'e \<Rightarrow> 'e + unit" where
  "guard_result b e = (if b then Inr () else Inl e)"

lemma bind_result_Inr [result_simps]:
  "bind_result r f = Inr b \<longleftrightarrow> (\<exists>a. r = Inr a \<and> f a = Inr b)"
  by (cases r) auto

lemma bind_result_Inl [result_simps]:
  "bind_result r f = Inl e \<longleftrightarrow> r = Inl e \<or> (\<exists>a. r = Inr a \<and> f a = Inl e)"
  by (cases r) auto

lemma guard_result_Inr [result_simps]: "guard_result b e = Inr u \<longleftrightarrow> b"
  by (simp add: guard_result_def)

lemma guard_result_Inl [result_simps]: "guard_result b e = Inl e' \<longleftrightarrow> \<not> b \<and> e' = e"
  by (auto simp: guard_result_def)

section \<open>Strings\<close>

text \<open>\<open>String.prototype.split\<close> with a one-character separator; the empty string splits into one
  empty piece.\<close>

fun split_on :: "'a \<Rightarrow> 'a list \<Rightarrow> 'a list list" where
  "split_on c [] = [[]]"
| "split_on c (x # xs) =
     (if x = c then [] # split_on c xs
      else (case split_on c xs of [] \<Rightarrow> [[x]] | p # ps \<Rightarrow> (x # p) # ps))"

text \<open>\<open>Array.prototype.join\<close>.\<close>

fun join_with :: "'a list \<Rightarrow> 'a list list \<Rightarrow> 'a list" where
  "join_with sep [] = []"
| "join_with sep [x] = x"
| "join_with sep (x # y # ys) = x @ sep @ join_with sep (y # ys)"

lemma split_on_not_Nil [simp]: "split_on c xs \<noteq> []"
  by (induction xs) (auto split: list.splits)

lemma split_on_clean: "p \<in> set (split_on c xs) \<Longrightarrow> c \<notin> set p"
  by (induction xs arbitrary: p) (auto split: if_splits list.splits)

lemma split_on_no_sep: "c \<notin> set xs \<Longrightarrow> split_on c xs = [xs]"
  by (induction xs) auto

lemma split_on_append: "c \<notin> set p \<Longrightarrow> split_on c (p @ c # xs) = p # split_on c xs"
  by (induction p) auto

lemma split_join:
  "ps \<noteq> [] \<Longrightarrow> \<forall>p \<in> set ps. c \<notin> set p \<Longrightarrow> split_on c (join_with [c] ps) = ps"
  by (induction "[c]" ps rule: join_with.induct) (auto simp: split_on_no_sep split_on_append)

lemma join_split: "join_with [c] (split_on c xs) = xs"
proof (induction xs)
  case Nil
  show ?case by simp
next
  case (Cons x xs)
  obtain p ps where "split_on c xs = p # ps" by (cases "split_on c xs") auto
  with Cons show ?case by (cases ps) auto
qed

text \<open>\<open>String.prototype.trim\<close>: white space and line terminators at both ends.\<close>

definition js_space :: "char \<Rightarrow> bool" where
  "js_space c \<longleftrightarrow> of_char c \<in> {9, 10, 11, 12, 13, 32, 160 :: nat}"

definition trim :: "string \<Rightarrow> string" where
  "trim s = rev (dropWhile js_space (rev (dropWhile js_space s)))"

lemma dropWhile_Nil_rev: "(\<forall>x \<in> set (dropWhile P xs). P x) \<longleftrightarrow> (\<forall>x \<in> set xs. P x)"
  by (induction xs) auto

lemma trim_Nil_iff: "trim s = [] \<longleftrightarrow> list_all js_space s"
  by (simp add: trim_def list_all_iff dropWhile_Nil_rev)

lemma trim_idem: "trim (trim s) = trim s"
proof -
  have drop_idem: "dropWhile P (dropWhile P xs) = dropWhile P xs" for P and xs :: string
    by (induction xs) auto
  have keep: "dropWhile P (rev (dropWhile P (rev (dropWhile P xs)))) = rev (dropWhile P (rev (dropWhile P xs)))"
    for P and xs :: string
  proof (cases "dropWhile P xs")
    case Nil
    then show ?thesis by (simp only: rev.simps dropWhile.simps)
  next
    case (Cons y ys)
    then have y: "\<not> P y" by (simp add: dropWhile_eq_Cons_conv)
    then have "rev (dropWhile P (rev (y # ys))) = y # rev (dropWhile P (rev ys))"
      by (simp add: dropWhile_append)
    with Cons y show ?thesis by simp
  qed
  show ?thesis by (simp add: trim_def keep drop_idem)
qed

text \<open>\<open>startsWith\<close>, \<open>endsWith\<close>, \<open>includes\<close> and \<open>toLowerCase\<close> on strings of code units below 256.\<close>

definition starts_with :: "'a list \<Rightarrow> 'a list \<Rightarrow> bool" where
  "starts_with p s \<longleftrightarrow> take (length p) s = p"

definition ends_with :: "'a list \<Rightarrow> 'a list \<Rightarrow> bool" where
  "ends_with p s \<longleftrightarrow> starts_with (rev p) (rev s)"

fun has_substring :: "'a list \<Rightarrow> 'a list \<Rightarrow> bool" where
  "has_substring p [] = (p = [])"
| "has_substring p (c # cs) = (starts_with p (c # cs) \<or> has_substring p cs)"

definition lower_char :: "char \<Rightarrow> char" where
  "lower_char c =
     (let n = (of_char c :: nat)
      in if (65 \<le> n \<and> n \<le> 90) \<or> (192 \<le> n \<and> n \<le> 222 \<and> n \<noteq> 215) then char_of (n + 32) else c)"

definition to_lower :: "string \<Rightarrow> string" where
  "to_lower s = map lower_char s"

lemma starts_with_iff: "starts_with p s \<longleftrightarrow> (\<exists>t. s = p @ t)"
  by (metis append_eq_conv_conj starts_with_def)

lemma ends_with_iff: "ends_with p s \<longleftrightarrow> (\<exists>t. s = t @ p)"
proof
  assume "ends_with p s"
  then obtain t where "rev s = rev p @ t" by (auto simp: ends_with_def starts_with_iff)
  then have "s = rev t @ p" by (metis rev_append rev_rev_ident)
  then show "\<exists>t. s = t @ p" ..
next
  assume "\<exists>t. s = t @ p"
  then show "ends_with p s" by (auto simp: ends_with_def starts_with_iff)
qed

lemma has_substring_iff: "has_substring p s \<longleftrightarrow> (\<exists>a b. s = a @ p @ b)"
proof (induction s)
  case IH: (Cons c cs)
  show ?case
  proof
    assume "has_substring p (c # cs)"
    then consider t where "c # cs = p @ t" | a b where "cs = a @ p @ b" using IH by (auto simp: starts_with_iff)
    then show "\<exists>a b. c # cs = a @ p @ b" by cases (metis append_Nil, metis append_Cons)
  next
    assume "\<exists>a b. c # cs = a @ p @ b"
    then obtain a b where eq: "c # cs = a @ p @ b" by blast
    show "has_substring p (c # cs)"
    proof (cases a)
      case Nil
      then have "starts_with p (c # cs)" using eq by (auto simp: starts_with_iff)
      then show ?thesis by simp
    next
      case (Cons x xs)
      then show ?thesis using eq IH by auto
    qed
  qed
qed auto

lemma lower_char_idem [simp]: "lower_char (lower_char c) = lower_char c"
  by (auto simp: lower_char_def Let_def)

lemma to_lower_idem [simp]: "to_lower (to_lower s) = to_lower s"
  by (simp add: to_lower_def)

lemma split_on_at: "split_on c (xs @ c # ys) = split_on c xs @ split_on c ys"
  by (induction xs) (auto split: list.splits)

text \<open>The first choice of a backtracking regular expression that succeeds.\<close>

fun first_match :: "('a \<Rightarrow> 'b option) \<Rightarrow> 'a list \<Rightarrow> 'b option" where
  "first_match f [] = None"
| "first_match f (x # xs) = (case f x of None \<Rightarrow> first_match f xs | Some y \<Rightarrow> Some y)"

lemma first_match_Some: "first_match f xs = Some y \<Longrightarrow> \<exists>x \<in> set xs. f x = Some y"
  by (induction xs) (auto split: option.splits)

text \<open>How Node's \<^verbatim>\<open>path\<close> resolves empty, \<open>.\<close> and \<open>..\<close> segments, with the segments kept so far in reverse.\<close>

fun path_resolve :: "bool \<Rightarrow> string list \<Rightarrow> string list \<Rightarrow> string list" where
  "path_resolve absolute acc [] = rev acc"
| "path_resolve absolute acc (s # ss) =
     (if s = [] \<or> s = ''.'' then path_resolve absolute acc ss
      else if s = ''..'' then
        (case acc of
           [] \<Rightarrow> path_resolve absolute (if absolute then [] else [s]) ss
         | a # acc' \<Rightarrow> if a = ''..'' then path_resolve absolute (s # acc) ss
                       else path_resolve absolute acc' ss)
      else path_resolve absolute (s # acc) ss)"

lemma path_resolve_append: "path_resolve a acc (xs @ ys) = path_resolve a (rev (path_resolve a acc xs)) ys"
  by (induction a acc xs rule: path_resolve.induct) (auto split: list.splits)

lemma path_resolve_snoc:
  assumes "s \<noteq> []" and "s \<noteq> ''.''" and "s \<noteq> ''..''"
  shows "path_resolve absolute acc (ss @ [s]) = path_resolve absolute acc ss @ [s]"
  using assms by (induction absolute acc ss rule: path_resolve.induct) (auto split: list.splits)

lemma join_with_snoc: "join_with sep (xs @ [x]) = (if xs = [] then x else join_with sep xs @ sep @ x)"
  by (induction sep xs rule: join_with.induct) auto

lemma join_with_append:
  "xs \<noteq> [] \<Longrightarrow> ys \<noteq> [] \<Longrightarrow> join_with sep (xs @ ys) = join_with sep xs @ sep @ join_with sep ys"
  by (induction xs rule: list_nonempty_induct) (auto simp: neq_Nil_conv)

text \<open>Decimal text of integers, as template literals and \<open>JSON.stringify\<close> print them.\<close>

definition digit_char :: "nat \<Rightarrow> char" where
  "digit_char d = char_of (48 + d)"

fun show_nat :: "nat \<Rightarrow> string" where
  "show_nat n = (if n < 10 then [digit_char n] else show_nat (n div 10) @ [digit_char (n mod 10)])"

declare show_nat.simps [simp del]

definition show_int :: "int \<Rightarrow> string" where
  "show_int i = (if i < 0 then CHR ''-'' # show_nat (nat (- i)) else show_nat (nat i))"

fun read_nat :: "nat \<Rightarrow> string \<Rightarrow> nat" where
  "read_nat acc [] = acc"
| "read_nat acc (c # cs) = read_nat (10 * acc + (of_char c - 48)) cs"

lemma of_char_digit [simp]: "d < 10 \<Longrightarrow> of_char (digit_char d) = 48 + d"
  by (simp add: digit_char_def)

lemma read_nat_append: "read_nat acc (s @ [c]) = 10 * read_nat acc s + (of_char c - 48)"
  by (induction s arbitrary: acc) auto

lemma read_show_nat: "read_nat 0 (show_nat n) = n"
proof (induction n rule: show_nat.induct)
  case (1 n)
  then show ?case by (subst show_nat.simps) (auto simp: read_nat_append)
qed

lemma show_nat_digits: "c \<in> set (show_nat n) \<Longrightarrow> of_char c \<in> {48..57 :: nat}"
proof (induction n rule: show_nat.induct)
  case (1 n)
  then show ?case by (subst (asm) show_nat.simps) (auto split: if_splits)
qed

lemma show_nat_not_Nil [simp]: "show_nat n \<noteq> []"
  by (subst show_nat.simps) simp

lemma show_nat_inject [simp]: "show_nat m = show_nat n \<longleftrightarrow> m = n"
  by (metis read_show_nat)

lemma minus_not_digit: "CHR ''-'' \<notin> set (show_nat n)"
  using show_nat_digits [of "CHR ''-''" n] by auto

lemma show_int_no_newline: "CHR 0x0A \<notin> set (show_int n)"
  using show_nat_digits [of "CHR 0x0A"] by (auto simp: show_int_def)

lemma show_int_inject [simp]: "show_int i = show_int j \<longleftrightarrow> i = j"
proof -
  have "show_nat n \<noteq> CHR ''-'' # s" for n s
    using minus_not_digit [of n] by (metis list.set_intros(1))
  then show ?thesis by (auto simp: show_int_def dest: sym)
qed

text \<open>
  The sources turn a pattern with \<open>*\<close> into an anchored regular expression: every other character is
  escaped and stands for itself, \<open>*\<close> becomes \<open>.*\<close>, and a dot matches anything but a line terminator.
\<close>

definition re_dot :: "char \<Rightarrow> bool" where
  "re_dot c \<longleftrightarrow> of_char c \<notin> {10, 13 :: nat}"

fun star_match :: "string \<Rightarrow> string \<Rightarrow> bool" where
  "star_match [] s = (s = [])"
| "star_match (p # ps) [] = (p = CHR ''*'' \<and> star_match ps [])"
| "star_match (p # ps) (c # cs) =
     (if p = CHR ''*'' then star_match ps (c # cs) \<or> (re_dot c \<and> star_match (p # ps) cs)
      else c = p \<and> star_match ps cs)"

lemma star_match_literal: "CHR ''*'' \<notin> set p \<Longrightarrow> star_match p s \<longleftrightarrow> s = p"
proof (induction p arbitrary: s)
  case Nil
  show ?case by simp
next
  case (Cons a p)
  then show ?case by (cases s) auto
qed

section \<open>Tables with a primary key\<close>

text \<open>
  A SQLite table is the list of its rows in insertion order. An \<open>INSERT\<close> whose key is already there
  violates the primary key and raises; \<open>DELETE ... WHERE key = ?\<close> and \<open>UPDATE ... WHERE key = ?\<close>
  touch the rows with that key.
\<close>

definition tbl_get :: "('r \<Rightarrow> 'k) \<Rightarrow> 'k \<Rightarrow> 'r list \<Rightarrow> 'r option" where
  "tbl_get key k t = find (\<lambda>r. key r = k) t"

definition tbl_insert :: "('r \<Rightarrow> 'k) \<Rightarrow> 'r \<Rightarrow> 'r list \<Rightarrow> 'r list option" where
  "tbl_insert key r t = (if key r \<in> set (map key t) then None else Some (t @ [r]))"

definition tbl_delete :: "('r \<Rightarrow> 'k) \<Rightarrow> 'k \<Rightarrow> 'r list \<Rightarrow> 'r list" where
  "tbl_delete key k t = filter (\<lambda>r. key r \<noteq> k) t"

definition tbl_update :: "('r \<Rightarrow> 'k) \<Rightarrow> 'k \<Rightarrow> ('r \<Rightarrow> 'r) \<Rightarrow> 'r list \<Rightarrow> 'r list" where
  "tbl_update key k f t = map (\<lambda>r. if key r = k then f r else r) t"

definition tbl_wf :: "('r \<Rightarrow> 'k) \<Rightarrow> 'r list \<Rightarrow> bool" where
  "tbl_wf key t \<longleftrightarrow> distinct (map key t)"

lemma tbl_get_Some: "tbl_get key k t = Some r \<Longrightarrow> r \<in> set t \<and> key r = k"
  by (auto simp: tbl_get_def find_Some_iff)

lemma tbl_get_None: "tbl_get key k t = None \<longleftrightarrow> k \<notin> key ` set t"
  by (auto simp: tbl_get_def find_None_iff)

lemma find_SomeD: "find P xs = Some x \<Longrightarrow> x \<in> set xs \<and> P x"
  by (auto simp: find_Some_iff)

lemma tbl_get_snoc: "key r \<notin> key ` set t \<Longrightarrow> tbl_get key (key r) (t @ [r]) = Some r"
  by (induction t) (auto simp: tbl_get_def)

lemma tbl_delete_snoc: "key r \<notin> key ` set t \<Longrightarrow> tbl_delete key (key r) (t @ [r]) = t"
  by (induction t) (auto simp: tbl_delete_def)

lemma tbl_get_wf: "tbl_wf key t \<Longrightarrow> tbl_get key k t = Some r \<longleftrightarrow> r \<in> set t \<and> key r = k"
proof (induction t)
  case Nil
  then show ?case by (simp add: tbl_get_def)
next
  case (Cons x t)
  then have "tbl_wf key t" and fresh: "key x \<notin> key ` set t" by (auto simp: tbl_wf_def)
  with Cons.IH show ?case by (auto simp: tbl_get_def)
qed

lemma set_tbl_insert: "tbl_insert key r t = Some t' \<Longrightarrow> set t' = insert r (set t)"
  by (auto simp: tbl_insert_def split: if_splits)

lemma set_tbl_delete [simp]: "set (tbl_delete key k t) = {r \<in> set t. key r \<noteq> k}"
  by (auto simp: tbl_delete_def)

lemma tbl_wf_Nil [simp]: "tbl_wf key []"
  by (simp add: tbl_wf_def)

lemma tbl_wf_insert: "tbl_wf key t \<Longrightarrow> tbl_insert key r t = Some t' \<Longrightarrow> tbl_wf key t'"
  by (auto simp: tbl_wf_def tbl_insert_def split: if_splits)

lemma tbl_wf_delete: "tbl_wf key t \<Longrightarrow> tbl_wf key (tbl_delete key k t)"
  by (simp add: tbl_wf_def tbl_delete_def distinct_map_filter)

lemma tbl_wf_update: "tbl_wf key t \<Longrightarrow> (\<And>r. key (f r) = key r) \<Longrightarrow> tbl_wf key (tbl_update key k f t)"
  by (simp add: tbl_wf_def tbl_update_def comp_def if_distrib cong: if_cong)

text \<open>The laws a client of a keyed table relies on, as an interface.\<close>

locale keyed_table =
  fixes key :: "'r \<Rightarrow> 'k"
    and get :: "'k \<Rightarrow> 't \<Rightarrow> 'r option"
    and ins :: "'r \<Rightarrow> 't \<Rightarrow> 't option"
    and del :: "'k \<Rightarrow> 't \<Rightarrow> 't"
    and rows :: "'t \<Rightarrow> 'r set"
    and wf :: "'t \<Rightarrow> bool"
  assumes get_rows: "wf t \<Longrightarrow> get k t = Some r \<longleftrightarrow> r \<in> rows t \<and> key r = k"
    and ins_rows: "wf t \<Longrightarrow> ins r t = Some t' \<Longrightarrow> rows t' = insert r (rows t)"
    and ins_fails: "wf t \<Longrightarrow> ins r t = None \<longleftrightarrow> key r \<in> key ` rows t"
    and del_rows: "wf t \<Longrightarrow> rows (del k t) = {r \<in> rows t. key r \<noteq> k}"
    and wf_ins: "wf t \<Longrightarrow> ins r t = Some t' \<Longrightarrow> wf t'"
    and wf_del: "wf t \<Longrightarrow> wf (del k t)"
begin

lemma get_after_insert:
  assumes "wf t" and "ins r t = Some t'"
  shows "get (key r) t' = Some r"
  using assms ins_rows [OF assms] wf_ins [OF assms] by (simp add: get_rows)

lemma get_other_after_insert:
  assumes "wf t" and "ins r t = Some t'" and "k \<noteq> key r"
  shows "get k t' = get k t"
proof -
  have "get k t' = Some s \<longleftrightarrow> get k t = Some s" for s
    using assms ins_rows [OF assms(1,2)] wf_ins [OF assms(1,2)] by (auto simp: get_rows)
  then show ?thesis by (metis not_None_eq)
qed

lemma get_after_delete:
  assumes "wf t"
  shows "get k (del k t) = None"
proof -
  have "get k (del k t) \<noteq> Some r" for r
    using get_rows [OF wf_del [OF assms]] del_rows [OF assms] by simp
  then show ?thesis by (cases "get k (del k t)") auto
qed

lemma insert_delete_rows:
  assumes "wf t" and "ins r t = Some t'"
  shows "rows (del (key r) t') = rows t"
proof -
  have "key r \<notin> key ` rows t" using assms ins_fails [OF assms(1)] by (metis option.discI)
  then have "s \<in> rows t \<Longrightarrow> key s \<noteq> key r" for s by (metis imageI)
  then show ?thesis
    using del_rows [OF wf_ins [OF assms], of "key r"] ins_rows [OF assms] by auto
qed

end

interpretation tbl: keyed_table key "tbl_get key" "tbl_insert key" "tbl_delete key" set "tbl_wf key"
  for key :: "'r \<Rightarrow> 'k"
proof unfold_locales
  fix t :: "'r list" and r
  show "tbl_insert key r t = None \<longleftrightarrow> key r \<in> key ` set t"
    by (simp add: tbl_insert_def)
qed (auto simp: tbl_get_wf set_tbl_insert intro: tbl_wf_insert tbl_wf_delete)

section \<open>Sequences of steps\<close>

text \<open>Invariants of a transition function lift to every run of it.\<close>

locale stepping =
  fixes step :: "'c \<Rightarrow> 's \<Rightarrow> 's" and inv :: "'s \<Rightarrow> bool"
  assumes step_inv: "inv s \<Longrightarrow> inv (step c s)"
begin

lemma run_inv: "inv s \<Longrightarrow> inv (fold step cs s)"
  by (induction cs arbitrary: s) (auto intro: step_inv)

end

end
