(* ===== verification/Globs.thy ===== *)
theory Globs
  imports Shamu_Prelude
begin

text \<open>
  The glob predicates of \<^verbatim>\<open>packages/mailbox/src/globs.ts\<close>: when do two lease globs overlap, and
  when does a glob match a concrete path. The two loops walk segment lists by index; the model
  walks the remaining suffixes, which is the same recursion. The theorems relate the overlap
  predicate to the existence of a path that both globs match.
\<close>

section \<open>Definitions\<close>

definition segments :: "string \<Rightarrow> string list" where
  "segments glob = filter (\<lambda>s. s \<noteq> []) (split_on (CHR ''/'') glob)"

text \<open>Replacing every \<open>*\<close> by the placeholder \<open>X\<close>.\<close>

definition concretize :: "string \<Rightarrow> string" where
  "concretize pat = map (\<lambda>c. if c = CHR ''*'' then CHR ''X'' else c) pat"

definition segmentsCompatible :: "string \<Rightarrow> string \<Rightarrow> bool" where
  "segmentsCompatible a b =
     (if a = b then True
      else if CHR ''*'' \<notin> set a \<and> CHR ''*'' \<notin> set b then False
      else if a = ''*'' \<or> b = ''*'' then True
      else star_match b (concretize a) \<or> star_match a (concretize b))"

fun walk :: "string list \<Rightarrow> string list \<Rightarrow> bool" where
  "walk [] [] = True"
| "walk [] (b # bs) = list_all (\<lambda>s. s = ''**'') (b # bs)"
| "walk (a # as) [] = list_all (\<lambda>s. s = ''**'') (a # as)"
| "walk (a # as) (b # bs) =
     (if a = ''**'' then walk as (b # bs) \<or> walk (a # as) bs
      else if b = ''**'' then walk (a # as) bs \<or> walk as (b # bs)
      else segmentsCompatible a b \<and> walk as bs)"

definition globsOverlap :: "string \<Rightarrow> string \<Rightarrow> bool" where
  "globsOverlap a b = walk (segments a) (segments b)"

text \<open>One non-\<open>**\<close> glob segment against one path segment.\<close>

definition segment_match :: "string \<Rightarrow> string \<Rightarrow> bool" where
  "segment_match g p =
     (if g = ''*'' then True
      else if CHR ''*'' \<in> set g then star_match g p
      else g = p)"

fun glob_inner :: "string list \<Rightarrow> string list \<Rightarrow> bool" where
  "glob_inner [] [] = True"
| "glob_inner [] (p # ps) = False"
| "glob_inner (g # gs) [] = (if g = ''**'' then glob_inner gs [] else False)"
| "glob_inner (g # gs) (p # ps) =
     (if g = ''**'' then glob_inner gs (p # ps) \<or> glob_inner (g # gs) ps
      else segment_match g p \<and> glob_inner gs ps)"

definition globMatchesPath :: "string \<Rightarrow> string \<Rightarrow> bool" where
  "globMatchesPath glob path = glob_inner (segments glob) (segments path)"

section \<open>Paths and segments\<close>

definition path_of :: "string list \<Rightarrow> string" where
  "path_of ps = join_with ''/'' ps"

definition seg_ok :: "string \<Rightarrow> bool" where
  "seg_ok s \<longleftrightarrow> s \<noteq> [] \<and> CHR ''/'' \<notin> set s"

lemma segments_ok: "s \<in> set (segments g) \<Longrightarrow> seg_ok s"
  by (auto simp: segments_def seg_ok_def dest: split_on_clean)

lemma list_all_segments_ok: "list_all seg_ok (segments g)"
  by (auto simp: list_all_iff intro: segments_ok)

lemma segments_path_of: "list_all seg_ok ps \<Longrightarrow> segments (path_of ps) = ps"
  by (cases ps)
    (auto simp: segments_def path_of_def split_join list_all_iff seg_ok_def intro!: filter_True)

section \<open>Symmetry and reflexivity\<close>

lemma segmentsCompatible_sym: "segmentsCompatible a b = segmentsCompatible b a"
  by (auto simp: segmentsCompatible_def)

lemma walk_Nil2: "walk as [] = list_all (\<lambda>s. s = ''**'') as"
  by (cases as) auto

lemma walk_Nil1: "walk [] bs = list_all (\<lambda>s. s = ''**'') bs"
  by (cases bs) auto

lemma walk_sym: "walk as bs = walk bs as"
proof (induction as bs rule: walk.induct)
  case (4 a as b bs)
  then show ?case
    by (auto simp: segmentsCompatible_sym [of b a])
qed auto

lemma walk_refl: "walk as as"
proof (induction as)
  case Nil
  show ?case by simp
next
  case (Cons a as)
  then show ?case
    by (cases as) (auto simp: segmentsCompatible_def)
qed

lemma globsOverlap_sym: "globsOverlap a b = globsOverlap b a"
  by (simp add: globsOverlap_def walk_sym)

lemma globsOverlap_refl: "globsOverlap a a"
  by (simp add: globsOverlap_def walk_refl)

section \<open>Every reported overlap is a real one\<close>

lemma concretize_Nil [simp]: "concretize [] = []"
  by (simp add: concretize_def)

lemma concretize_Cons [simp]:
  "concretize (c # cs) = (if c = CHR ''*'' then CHR ''X'' else c) # concretize cs"
  by (simp add: concretize_def)

lemma concretize_literal: "CHR ''*'' \<notin> set s \<Longrightarrow> concretize s = s"
  by (induction s) auto

lemma star_match_star_skip: "star_match ps cs \<Longrightarrow> star_match (CHR ''*'' # ps) cs"
  by (cases cs) auto

lemma star_match_tail_star: "star_match ps cs \<Longrightarrow> star_match (CHR ''*'' # ps) (CHR ''X'' # cs)"
  by (simp add: re_dot_def star_match_star_skip)

lemma star_match_concretize: "star_match s (concretize s)"
  by (induction s) (simp_all add: re_dot_def star_match_star_skip)

lemma segment_match_concretize: "segment_match s (concretize s)"
  by (auto simp: segment_match_def star_match_concretize concretize_literal)

lemma seg_ok_concretize: "seg_ok s \<Longrightarrow> seg_ok (concretize s)"
  by (auto simp: seg_ok_def concretize_def)

lemma star_match_segment: "star_match g p \<Longrightarrow> segment_match g p"
  by (auto simp: segment_match_def star_match_literal)

lemma segmentsCompatible_common:
  assumes "segmentsCompatible a b" and "seg_ok a" and "seg_ok b"
  shows "\<exists>p. seg_ok p \<and> segment_match a p \<and> segment_match b p"
proof -
  consider "a = b" | "a = ''*''" | "b = ''*''" | "star_match b (concretize a)" | "star_match a (concretize b)"
    using assms(1) by (auto simp: segmentsCompatible_def split: if_splits)
  then show ?thesis
  proof cases
    case 1
    with assms show ?thesis using segment_match_concretize seg_ok_concretize by blast
  next
    case 2
    then have "segment_match a (concretize b)" by (simp add: segment_match_def)
    with assms show ?thesis using segment_match_concretize seg_ok_concretize by blast
  next
    case 3
    then have "segment_match b (concretize a)" by (simp add: segment_match_def)
    with assms show ?thesis using segment_match_concretize seg_ok_concretize by blast
  next
    case 4
    with assms show ?thesis using segment_match_concretize seg_ok_concretize star_match_segment by blast
  next
    case 5
    with assms show ?thesis using segment_match_concretize seg_ok_concretize star_match_segment by blast
  qed
qed

lemma glob_inner_all_star: "list_all (\<lambda>s. s = ''**'') gs \<Longrightarrow> glob_inner gs []"
  by (induction gs) auto

lemma glob_inner_star_skip: "glob_inner gs ps \<Longrightarrow> glob_inner (''**'' # gs) ps"
  by (cases ps) auto

lemma glob_inner_star_eat: "glob_inner (''**'' # gs) ps \<Longrightarrow> glob_inner (''**'' # gs) (p # ps)"
  by simp

lemma glob_inner_extend:
  assumes "glob_inner gs ps" and "seg_ok g" and "list_all seg_ok ps"
  shows "\<exists>ps'. list_all seg_ok ps' \<and> glob_inner (g # gs) ps' \<and> (ps' = ps \<or> (\<exists>p. ps' = p # ps))"
proof (cases "g = ''**''")
  case True
  with assms show ?thesis using glob_inner_star_skip by blast
next
  case False
  have "glob_inner (g # gs) (concretize g # ps)"
    using False assms(1) by (simp add: segment_match_concretize)
  moreover have "list_all seg_ok (concretize g # ps)"
    using assms by (simp add: seg_ok_concretize)
  ultimately show ?thesis by blast
qed

lemma walk_common_path:
  assumes "walk as bs" and "list_all seg_ok as" and "list_all seg_ok bs"
  shows "\<exists>ps. list_all seg_ok ps \<and> glob_inner as ps \<and> glob_inner bs ps"
  using assms
proof (induction as bs rule: walk.induct)
  case 1
  show ?case by (rule exI [of _ "[]"]) simp
next
  case (2 b bs)
  then show ?case by (intro exI [of _ "[]"]) (auto intro: glob_inner_all_star)
next
  case (3 a as)
  then show ?case by (intro exI [of _ "[]"]) (auto intro: glob_inner_all_star)
next
  case (4 a as b bs)
  have star: "\<exists>ps. list_all seg_ok ps \<and> glob_inner (''**'' # xs) ps \<and> glob_inner (y # ys) ps"
    if "\<exists>ps. list_all seg_ok ps \<and> glob_inner (''**'' # xs) ps \<and> glob_inner ys ps" and "seg_ok y"
    for xs y ys
    using that glob_inner_extend [of ys _ y] glob_inner_star_eat by metis
  have skip: "\<exists>ps. list_all seg_ok ps \<and> glob_inner (''**'' # xs) ps \<and> glob_inner ys ps"
    if "\<exists>ps. list_all seg_ok ps \<and> glob_inner xs ps \<and> glob_inner ys ps" for xs ys
    using that glob_inner_star_skip by blast
  consider "a = ''**''" "walk as (b # bs)" | "a = ''**''" "walk (a # as) bs"
    | "a \<noteq> ''**''" "b = ''**''" "walk (a # as) bs" | "a \<noteq> ''**''" "b = ''**''" "walk as (b # bs)"
    | "a \<noteq> ''**''" "b \<noteq> ''**''" "segmentsCompatible a b" "walk as bs"
    using "4.prems"(1) by (auto split: if_splits)
  then show ?case
  proof cases
    case 1
    with "4.IH"(1) "4.prems" show ?thesis by (auto intro: skip)
  next
    case 2
    with "4.IH"(2) "4.prems" show ?thesis by (auto intro!: star)
  next
    case 3
    with "4.IH"(3) "4.prems" show ?thesis using skip [of bs "a # as"] by auto
  next
    case 4
    with "4.IH"(4) "4.prems" show ?thesis using star [of bs as a] by auto
  next
    case 5
    then obtain p where "seg_ok p" "segment_match a p" "segment_match b p"
      using segmentsCompatible_common [of a b] "4.prems" by auto
    moreover obtain ps where "list_all seg_ok ps" "glob_inner as ps" "glob_inner bs ps"
      using 5 "4.IH"(5) "4.prems" by auto
    ultimately show ?thesis using 5 by (intro exI [of _ "p # ps"]) simp
  qed
qed

lemma globsOverlap_common_path:
  assumes "globsOverlap a b"
  shows "\<exists>p. globMatchesPath a p \<and> globMatchesPath b p"
proof -
  obtain ps where "list_all seg_ok ps" "glob_inner (segments a) ps" "glob_inner (segments b) ps"
    using walk_common_path [OF _ list_all_segments_ok list_all_segments_ok] assms
    unfolding globsOverlap_def by blast
  then show ?thesis by (intro exI [of _ "path_of ps"]) (simp add: globMatchesPath_def segments_path_of)
qed

section \<open>Plain globs: every shared path is reported\<close>

text \<open>A glob is plain when each segment is a literal, a lone \<open>*\<close> or \<open>**\<close>.\<close>

definition plain_seg :: "string \<Rightarrow> bool" where
  "plain_seg s \<longleftrightarrow> CHR ''*'' \<notin> set s \<or> s = ''*'' \<or> s = ''**''"

definition plain_glob :: "string \<Rightarrow> bool" where
  "plain_glob g \<longleftrightarrow> list_all plain_seg (segments g)"

lemma plain_compatible:
  assumes "segment_match a p" and "segment_match b p" and "plain_seg a" and "plain_seg b"
    and "a \<noteq> ''**''" and "b \<noteq> ''**''"
  shows "segmentsCompatible a b"
proof (cases "a = ''*'' \<or> b = ''*''")
  case True
  then show ?thesis by (auto simp: segmentsCompatible_def)
next
  case False
  with assms have "CHR ''*'' \<notin> set a" "CHR ''*'' \<notin> set b" by (simp_all add: plain_seg_def)
  with assms False have "a = p" "b = p" by (simp_all add: segment_match_def)
  then show ?thesis by (simp add: segmentsCompatible_def)
qed

lemma glob_inner_Nil: "glob_inner gs [] \<longleftrightarrow> list_all (\<lambda>s. s = ''**'') gs"
  by (induction gs) auto

definition compat_on :: "string list \<Rightarrow> string list \<Rightarrow> bool" where
  "compat_on as bs \<longleftrightarrow> (\<forall>a \<in> set as. \<forall>b \<in> set bs. \<forall>p. a \<noteq> ''**'' \<longrightarrow> b \<noteq> ''**'' \<longrightarrow>
     segment_match a p \<longrightarrow> segment_match b p \<longrightarrow> segmentsCompatible a b)"

lemma compat_on_Cons1: "compat_on (a # as) bs \<Longrightarrow> compat_on as bs"
  and compat_on_Cons2: "compat_on as (b # bs) \<Longrightarrow> compat_on as bs"
  by (auto simp: compat_on_def)

lemma walk_skip2: "walk as bs \<Longrightarrow> walk as (''**'' # bs)"
  by (cases as) (auto simp: walk_Nil1)

lemma walk_skip1: "walk as bs \<Longrightarrow> walk (''**'' # as) bs"
  using walk_skip2 walk_sym by metis

lemma walk_eat2: "walk (''**'' # as) bs \<Longrightarrow> walk (''**'' # as) (b # bs)"
  by simp

lemma walk_eat1: "walk as (''**'' # bs) \<Longrightarrow> walk (a # as) (''**'' # bs)"
  using walk_eat2 walk_sym by metis

text \<open>The walk follows any common path of two globs whose segments are judged correctly.\<close>

lemma walk_complete:
  assumes "compat_on as bs" and "glob_inner as ps" and "glob_inner bs ps"
  shows "walk as bs"
  using assms
proof (induction as ps arbitrary: bs rule: glob_inner.induct)
  case 1
  then show ?case by (simp add: glob_inner_Nil walk_Nil1)
next
  case (3 g gs)
  then show ?case by (auto intro: walk_skip1 compat_on_Cons1 split: if_splits)
next
  case (4 g gs p ps)
  show ?case
    using "4.prems"
  proof (induction bs)
    case Nil
    then show ?case by simp
  next
    case (Cons b bs)
    note rest = compat_on_Cons1 [OF Cons.prems(1)] compat_on_Cons2 [OF Cons.prems(1)]
    show ?case
    proof (cases "g = ''**''")
      case g: True
      then consider "glob_inner gs (p # ps)" | "glob_inner (g # gs) ps" using Cons.prems(2) by auto
      then show ?thesis
      proof cases
        case 1
        with g Cons.prems rest "4.IH"(1) [of "b # bs"] show ?thesis by (auto intro: walk_skip1)
      next
        case 2
        with g Cons rest "4.IH"(2) [of bs] "4.IH"(2) [of "b # bs"] show ?thesis
          by (cases "b = ''**''") (auto intro: walk_skip2)
      qed
    next
      case g: False
      show ?thesis
      proof (cases "b = ''**''")
        case True
        with g Cons rest "4.IH"(3) [of "b # bs"] show ?thesis
          by (auto intro: walk_skip2 walk_eat1)
      next
        case False
        with g Cons.prems rest "4.IH"(3) [of bs] show ?thesis
          by (auto simp: compat_on_def)
      qed
    qed
  qed
qed simp

lemma plain_compat_on: "list_all plain_seg as \<Longrightarrow> list_all plain_seg bs \<Longrightarrow> compat_on as bs"
  by (auto simp: compat_on_def list_all_iff intro: plain_compatible)

lemma literal_compat_on: "list_all (\<lambda>p. CHR ''*'' \<notin> set p) bs \<Longrightarrow> compat_on as bs"
  by (auto simp: compat_on_def list_all_iff segmentsCompatible_def segment_match_def concretize_literal
      split: if_splits)

lemma glob_inner_literal: "list_all (\<lambda>p. CHR ''*'' \<notin> set p) ps \<Longrightarrow> glob_inner ps ps"
  by (induction ps) (auto simp: segment_match_def)

lemma set_segments: "s \<in> set (segments g) \<Longrightarrow> set s \<subseteq> set g"
proof -
  have "q \<in> set (split_on c xs) \<Longrightarrow> set q \<subseteq> set xs" for q c and xs :: string
    by (induction xs arbitrary: q) (fastforce split: if_splits list.splits)+
  then show "s \<in> set (segments g) \<Longrightarrow> set s \<subseteq> set g" by (auto simp: segments_def)
qed

section \<open>Properties\<close>

text \<open>For globs whose segments are literals, \<open>*\<close> or \<open>**\<close>, the overlap predicate holds exactly
  when some path is matched by both globs, so a lease refused or granted on plain globs is decided
  exactly.\<close>

theorem globsOverlap_plain_exact:
  assumes "plain_glob a" and "plain_glob b"
  shows "globsOverlap a b \<longleftrightarrow> (\<exists>p. globMatchesPath a p \<and> globMatchesPath b p)"
proof
  assume "globsOverlap a b"
  then show "\<exists>p. globMatchesPath a p \<and> globMatchesPath b p" by (rule globsOverlap_common_path)
next
  assume "\<exists>p. globMatchesPath a p \<and> globMatchesPath b p"
  with assms show "globsOverlap a b"
    by (auto simp: globsOverlap_def globMatchesPath_def plain_glob_def intro: walk_complete plain_compat_on)
qed

theorem globsOverlap_plain_exact_witness:
  "plain_glob ''src/**'' \<and> plain_glob ''*/lib/x.ts'' \<and>
   globsOverlap ''src/**'' ''*/lib/x.ts'' \<and>
   (\<exists>p. globMatchesPath ''src/**'' p \<and> globMatchesPath ''*/lib/x.ts'' p)"
proof -
  have a: "plain_glob ''src/**''" by code_simp
  have b: "plain_glob ''*/lib/x.ts''" by code_simp
  have "globsOverlap ''src/**'' ''*/lib/x.ts''" by code_simp
  with a b globsOverlap_plain_exact [OF a b] show ?thesis by blast
qed

text \<open>A path without wildcards that a glob matches always overlaps that glob, whatever wildcards
  the glob's segments contain: locking a concrete file is never missed.\<close>

theorem globMatchesPath_overlap:
  assumes "globMatchesPath g p" and "CHR ''*'' \<notin> set p"
  shows "globsOverlap g p"
proof -
  have lit: "list_all (\<lambda>s. CHR ''*'' \<notin> set s) (segments p)"
    using assms(2) set_segments by (fastforce simp: list_all_iff)
  then show ?thesis
    using assms(1) walk_complete [OF literal_compat_on [OF lit]] glob_inner_literal [OF lit]
    by (auto simp: globsOverlap_def globMatchesPath_def)
qed

theorem globMatchesPath_overlap_witness: "globsOverlap ''src/**/*.test.ts'' ''src/a/b.test.ts''"
proof -
  have "globMatchesPath ''src/**/*.test.ts'' ''src/a/b.test.ts''" by code_simp
  moreover have "CHR ''*'' \<notin> set ''src/a/b.test.ts''" by code_simp
  ultimately show ?thesis by (rule globMatchesPath_overlap)
qed

text \<open>The overlap predicate misses overlaps between two segments that both contain a wildcard:
  \<open>src/*.ts\<close> and \<open>src/foo*\<close> both match \<open>src/foo.ts\<close> and are reported as disjoint, although the
  module promises that globs which might share a path overlap.\<close>

lemma globsOverlap_misses_shared_path:
  "globMatchesPath ''src/*.ts'' ''src/foo.ts'' \<and> globMatchesPath ''src/foo*'' ''src/foo.ts'' \<and>
   \<not> globsOverlap ''src/*.ts'' ''src/foo*''"
  by code_simp

end
