(* ===== verification/Leases.thy ===== *)
theory Leases
  imports Globs
begin

text \<open>
  Leases: the authenticated call context (\<^verbatim>\<open>packages/mailbox/src/auth.ts\<close>), the \<^verbatim>\<open>leases\<close> table
  (\<^verbatim>\<open>packages/persistence/src/queries/leases.ts\<close>), the lease primitives
  (\<^verbatim>\<open>packages/mailbox/src/leases.ts\<close>) and the pre-commit guard (\<^verbatim>\<open>packages/mailbox/src/pre-commit.ts\<close>).
  An operation that throws yields \<open>Inl\<close> and leaves the table to its caller unchanged, as the rolled
  back transaction does. Running git and probing a directory are parameters.
\<close>

section \<open>The authenticated context\<close>

record AuthContext =
  ctx_runId :: string
  ctx_swarmId :: string
  ctx_agent :: string

datatype mailbox_error =
    UnauthenticatedWriteError string
  | TypeErr string
  | LeaseConflictError string string
  | LeaseOwnershipError string
  | MessageOwnershipError string
  | SqliteConstraintError

definition assertAuthContext :: "AuthContext \<Rightarrow> mailbox_error + unit" where
  "assertAuthContext ctx =
     (if ctx_agent ctx = [] then
        Inl (UnauthenticatedWriteError ''AuthContext.agent must be a non-empty string'')
      else if ctx_runId ctx = [] then
        Inl (UnauthenticatedWriteError ''AuthContext.runId must be a non-empty string'')
      else if ctx_swarmId ctx = [] then
        Inl (UnauthenticatedWriteError ''AuthContext.swarmId must be a non-empty string'')
      else Inr ())"

section \<open>The leases table\<close>

record LeaseRow =
  leaseId :: string
  swarmId :: string
  agent :: string
  holderRunId :: string
  holderWorktreePath :: string
  glob :: string
  acquiredAt :: ms
  expiresAt :: ms

definition persistAcquire :: "LeaseRow \<Rightarrow> LeaseRow list \<Rightarrow> LeaseRow list option" where
  "persistAcquire input db = tbl_insert leaseId input db"

definition persistRelease :: "string \<Rightarrow> LeaseRow list \<Rightarrow> LeaseRow list" where
  "persistRelease i db = tbl_delete leaseId i db"

definition persistListActive :: "ms \<Rightarrow> LeaseRow list \<Rightarrow> LeaseRow list" where
  "persistListActive now db = sort_key acquiredAt (filter (\<lambda>l. expiresAt l > now) db)"

definition persistListStale :: "ms \<Rightarrow> LeaseRow list \<Rightarrow> LeaseRow list" where
  "persistListStale now db = sort_key acquiredAt (filter (\<lambda>l. expiresAt l \<le> now) db)"

definition persistMarkStale :: "string \<Rightarrow> ms \<Rightarrow> LeaseRow list \<Rightarrow> LeaseRow list" where
  "persistMarkStale i now db = tbl_update leaseId i (\<lambda>l. l\<lparr>expiresAt := now\<rparr>) db"

section \<open>Lease primitives\<close>

record AcquireLeaseOptions =
  opt_glob :: string
  opt_ttlMs :: ms
  opt_worktreePath :: string
  opt_now :: "ms option"

text \<open>\<open>newId\<close> is the identifier \<^verbatim>\<open>newLeaseId()\<close> mints, \<open>dateNow\<close> the reading of \<^verbatim>\<open>Date.now()\<close>.\<close>

definition acquireLease ::
  "string \<Rightarrow> ms \<Rightarrow> AuthContext \<Rightarrow> AcquireLeaseOptions \<Rightarrow> LeaseRow list \<Rightarrow>
     mailbox_error + LeaseRow \<times> LeaseRow list" where
  "acquireLease newId dateNow ctx opts db =
     bind_result (assertAuthContext ctx) (\<lambda>_.
     bind_result (guard_result (opt_glob opts \<noteq> [])
       (TypeErr ''acquireLease opts.glob must be a non-empty string'')) (\<lambda>_.
     bind_result (guard_result (opt_ttlMs opts > 0)
       (TypeErr ''acquireLease opts.ttlMs must be a positive number'')) (\<lambda>_.
     bind_result (guard_result (opt_worktreePath opts \<noteq> [])
       (TypeErr ''acquireLease opts.worktreePath must be a non-empty string'')) (\<lambda>_.
       let now = (case opt_now opts of None \<Rightarrow> dateNow | Some n \<Rightarrow> n)
       in (case find (\<lambda>ex. globsOverlap (glob ex) (opt_glob opts)) (persistListActive now db) of
            Some ex \<Rightarrow>
              Inl (LeaseConflictError
                (''Glob \"'' @ opt_glob opts @ ''\" overlaps live lease '' @ leaseId ex @
                 '' (glob=\"'' @ glob ex @ ''\")'') (leaseId ex))
          | None \<Rightarrow>
              let row = \<lparr>leaseId = newId, swarmId = ctx_swarmId ctx, agent = ctx_agent ctx,
                         holderRunId = ctx_runId ctx, holderWorktreePath = opt_worktreePath opts,
                         glob = opt_glob opts, acquiredAt = now, expiresAt = now + opt_ttlMs opts\<rparr>
              in (case persistAcquire row db of
                    None \<Rightarrow> Inl SqliteConstraintError
                  | Some db' \<Rightarrow> Inr (row, db')))))))"

definition releaseLease ::
  "AuthContext \<Rightarrow> string \<Rightarrow> LeaseRow list \<Rightarrow> mailbox_error + LeaseRow list" where
  "releaseLease ctx i db =
     bind_result (assertAuthContext ctx) (\<lambda>_.
       (case tbl_get leaseId i db of
          None \<Rightarrow> Inr db
        | Some row \<Rightarrow>
            if holderRunId row \<noteq> ctx_runId ctx then
              Inl (LeaseOwnershipError
                (''Lease '' @ i @ '' is held by run '' @ holderRunId row @ '', not '' @ ctx_runId ctx))
            else Inr (persistRelease i db)))"

definition listActive :: "AuthContext \<Rightarrow> ms \<Rightarrow> LeaseRow list \<Rightarrow> mailbox_error + LeaseRow list" where
  "listActive ctx now db =
     bind_result (assertAuthContext ctx) (\<lambda>_.
       Inr (filter (\<lambda>l. swarmId l = ctx_swarmId ctx) (persistListActive now db)))"

section \<open>Reclaiming stale leases\<close>

datatype escalation_target = ToRole | ToSwarm

datatype mailbox_escalation_cause =
    lease_reclaim_refused_dirty_holder
  | lease_reclaim_refused_holder_missing

record MailboxEscalationRaised =
  me_swarmId :: "string option"
  me_roleId :: "string option"
  me_childId :: string
  me_cause :: mailbox_escalation_cause
  me_reason :: string
  me_at :: ms
  me_restartsInWindow :: nat
  me_target :: escalation_target

datatype reclaim_refusal = dirty_holder | holder_worktree_missing | lease_not_found | lease_not_stale

datatype ReclaimResult = Reclaimed | NotReclaimed reclaim_refusal "string option"

text \<open>A command run in a directory: \<open>Inl\<close> the failure, \<open>Inr\<close> its standard output.\<close>

type_synonym exec_fn = "string \<Rightarrow> string list \<Rightarrow> string \<Rightarrow> string + string"

definition git_status_args :: "string \<Rightarrow> string list" where
  "git_status_args g =
     [''status'', ''--porcelain'', ''--untracked-files=all'', ''--ignored=no'', ''--'', g]"

definition reclaimIfStale ::
  "exec_fn \<Rightarrow> (string \<Rightarrow> bool) \<Rightarrow> ms \<Rightarrow> AuthContext \<Rightarrow> string \<Rightarrow> LeaseRow list \<Rightarrow>
     mailbox_error + ReclaimResult \<times> MailboxEscalationRaised list \<times> LeaseRow list" where
  "reclaimIfStale exec worktreeExists now ctx i db =
     bind_result (assertAuthContext ctx) (\<lambda>_.
       (case tbl_get leaseId i db of
          None \<Rightarrow> Inr (NotReclaimed lease_not_found None, [], db)
        | Some raw \<Rightarrow>
            let esc = (\<lambda>cause reason target.
                  \<lparr>me_swarmId = Some (swarmId raw), me_roleId = None, me_childId = agent raw,
                   me_cause = cause, me_reason = reason, me_at = now, me_restartsInWindow = 0,
                   me_target = target\<rparr>);
                wt = holderWorktreePath raw
            in if expiresAt raw > now then Inr (NotReclaimed lease_not_stale None, [], db)
               else if \<not> worktreeExists wt then
                 Inr (NotReclaimed holder_worktree_missing (Some wt),
                   [esc lease_reclaim_refused_holder_missing
                      (''Lease '' @ i @ '' holder worktree '' @ wt @ '' is missing'') ToSwarm], db)
               else (case exec ''git'' (git_status_args (glob raw)) wt of
                   Inl cause \<Rightarrow>
                     Inr (NotReclaimed holder_worktree_missing (Some cause),
                       [esc lease_reclaim_refused_holder_missing
                          (''git status failed in '' @ wt @ '': '' @ cause) ToSwarm], db)
                 | Inr stdout \<Rightarrow>
                     if trim stdout \<noteq> [] then
                       Inr (NotReclaimed dirty_holder (Some stdout),
                         [esc lease_reclaim_refused_dirty_holder
                            (''Lease '' @ i @ '' holder worktree has uncommitted changes inside glob ''
                             @ glob raw) ToRole], db)
                     else Inr (Reclaimed, [], persistRelease i db))))"

section \<open>The pre-commit guard\<close>

record PreCommitDecision =
  allowed :: bool
  blocked :: "string list"

definition checkStagedPaths :: "string list \<Rightarrow> LeaseRow list \<Rightarrow> string \<Rightarrow> PreCommitDecision" where
  "checkStagedPaths stagedPaths leases agt =
     (let ownedLeases = filter (\<lambda>l. agent l = agt) leases;
          bl = filter (\<lambda>path. \<not> list_ex (\<lambda>l. globMatchesPath (glob l) path) ownedLeases) stagedPaths
      in \<lparr>allowed = (bl = []), blocked = bl\<rparr>)"

record PreCommitGuardResult =
  exitCode :: nat
  message :: string
  decision :: PreCommitDecision

definition runPreCommitGuard ::
  "exec_fn \<Rightarrow> ms \<Rightarrow> string \<Rightarrow> string \<Rightarrow> LeaseRow list \<Rightarrow> PreCommitGuardResult" where
  "runPreCommitGuard exec now worktreePath agt db =
     (case exec ''git'' [''diff'', ''--cached'', ''--name-only''] worktreePath of
        Inl cause \<Rightarrow>
          \<lparr>exitCode = 2, message = ''pre-commit: failed to list staged paths: '' @ cause,
           decision = \<lparr>allowed = False, blocked = []\<rparr>\<rparr>
      | Inr stdout \<Rightarrow>
          let stagedPaths = filter (\<lambda>s. s \<noteq> []) (map trim (split_on (CHR 0x0A) stdout))
          in if stagedPaths = [] then
               \<lparr>exitCode = 0, message = ''pre-commit: nothing staged'',
                decision = \<lparr>allowed = True, blocked = []\<rparr>\<rparr>
             else let d = checkStagedPaths stagedPaths (persistListActive now db) agt
                  in if allowed d then
                       \<lparr>exitCode = 0,
                        message = ''pre-commit: '' @ show_nat (length stagedPaths) @
                          '' staged path(s) covered by live leases'',
                        decision = d\<rparr>
                     else
                       \<lparr>exitCode = 1,
                        message = ''pre-commit: '' @ show_nat (length (blocked d)) @
                          '' staged path(s) not covered by any live lease held by \"'' @ agt @ ''\":'' @
                          [CHR 0x0A] @ ''  '' @ join_with (CHR 0x0A # ''  '') (blocked d),
                        decision = d\<rparr>)"

section \<open>Exclusive claims\<close>

text \<open>
  The interface between the lease manager and the overlap predicate: claims that expire with time
  and an overlap relation between what they claim. What the manager does with a set of claims that
  is exclusive now keeps it exclusive.
\<close>

definition exclusive ::
  "('g \<Rightarrow> 'g \<Rightarrow> bool) \<Rightarrow> ('r \<Rightarrow> 'g) \<Rightarrow> (ms \<Rightarrow> 'r \<Rightarrow> bool) \<Rightarrow> ms \<Rightarrow> 'r set \<Rightarrow> bool" where
  "exclusive ov claim live t R \<longleftrightarrow>
     (\<forall>r \<in> R. \<forall>r' \<in> R. r \<noteq> r' \<longrightarrow> live t r \<longrightarrow> live t r' \<longrightarrow> \<not> ov (claim r) (claim r'))"

locale claims =
  fixes ov :: "'g \<Rightarrow> 'g \<Rightarrow> bool"
    and claim :: "'r \<Rightarrow> 'g"
    and live :: "ms \<Rightarrow> 'r \<Rightarrow> bool"
  assumes ov_sym: "ov a b \<Longrightarrow> ov b a"
    and live_earlier: "live t r \<Longrightarrow> t' \<le> t \<Longrightarrow> live t' r"
begin

lemma exclusive_subset: "exclusive ov claim live t R \<Longrightarrow> R' \<subseteq> R \<Longrightarrow> exclusive ov claim live t R'"
  by (auto simp: exclusive_def)

lemma exclusive_later:
  "exclusive ov claim live t R \<Longrightarrow> t \<le> t' \<Longrightarrow> exclusive ov claim live t' R"
  unfolding exclusive_def using live_earlier by blast

lemma exclusive_insert:
  assumes "exclusive ov claim live t R"
    and "\<And>r'. r' \<in> R \<Longrightarrow> live t r' \<Longrightarrow> \<not> ov (claim r') (claim r)"
  shows "exclusive ov claim live t (insert r R)"
  using assms ov_sym unfolding exclusive_def by blast

lemma exclusive_unique:
  assumes "exclusive ov claim live t R" and "r \<in> R" and "r' \<in> R" and "live t r" and "live t r'"
    and "ov (claim r) (claim r')"
  shows "r = r'"
  using assms by (auto simp: exclusive_def)

end

definition lease_live :: "ms \<Rightarrow> LeaseRow \<Rightarrow> bool" where
  "lease_live t l \<longleftrightarrow> expiresAt l > t"

interpretation lc: claims globsOverlap glob lease_live
  by unfold_locales (auto simp: globsOverlap_sym lease_live_def)

section \<open>Facts about the operations\<close>

lemma set_persistListActive [simp]: "set (persistListActive now db) = {l \<in> set db. lease_live now l}"
  by (auto simp: persistListActive_def lease_live_def)

lemma acquireLease_Inr:
  assumes "acquireLease newId dateNow ctx opts db = Inr (row, db')"
  shows "persistAcquire row db = Some db'" and "leaseId row = newId"
    and "acquiredAt row = (case opt_now opts of None \<Rightarrow> dateNow | Some n \<Rightarrow> n)"
    and "expiresAt row = acquiredAt row + opt_ttlMs opts" and "opt_ttlMs opts > 0"
    and "glob row = opt_glob opts" and "glob row \<noteq> []" and "agent row = ctx_agent ctx"
    and "holderRunId row = ctx_runId ctx" and "swarmId row = ctx_swarmId ctx"
    and "holderWorktreePath row = opt_worktreePath opts"
    and "\<And>l. l \<in> set db \<Longrightarrow> lease_live (acquiredAt row) l \<Longrightarrow> \<not> globsOverlap (glob l) (glob row)"
  using assms
  by (auto simp: acquireLease_def result_simps Let_def find_None_iff
      split: option.splits)

lemma releaseLease_Inr:
  assumes "releaseLease ctx i db = Inr db'"
  shows "db' = tbl_delete leaseId i db"
  using assms
  by (auto simp: releaseLease_def result_simps persistRelease_def tbl_get_None tbl_delete_def
      split: option.splits if_splits intro!: filter_True [symmetric])

lemma reclaimIfStale_db:
  assumes "reclaimIfStale exec we now ctx i db = Inr (res, evs, db')"
  shows "db' = db \<or> db' = tbl_delete leaseId i db"
  using assms
  by (auto simp: reclaimIfStale_def result_simps persistRelease_def Let_def
      split: option.splits if_splits sum.splits)

section \<open>The lease system\<close>

text \<open>Primitives run one after the other against the shared table, each at the current time; the
  clock of the machine does not go backwards.\<close>

record lease_sys =
  table :: "LeaseRow list"
  clock :: ms

inductive lease_step :: "lease_sys \<Rightarrow> lease_sys \<Rightarrow> bool" where
  tick: "clock s \<le> now \<Longrightarrow> lease_step s (s\<lparr>clock := now\<rparr>)"
| acquire: "opt_now opts = None \<Longrightarrow>
     acquireLease newId (clock s) ctx opts (table s) = Inr (row, db') \<Longrightarrow>
     lease_step s (s\<lparr>table := db'\<rparr>)"
| release: "releaseLease ctx i (table s) = Inr db' \<Longrightarrow> lease_step s (s\<lparr>table := db'\<rparr>)"
| reclaim: "reclaimIfStale exec we (clock s) ctx i (table s) = Inr (res, evs, db') \<Longrightarrow>
     lease_step s (s\<lparr>table := db'\<rparr>)"
| mark_stale: "lease_step s (s\<lparr>table := persistMarkStale i (clock s) (table s)\<rparr>)"

inductive lease_reachable :: "lease_sys \<Rightarrow> bool" where
  start: "lease_reachable \<lparr>table = [], clock = t\<rparr>"
| step: "lease_reachable s \<Longrightarrow> lease_step s s' \<Longrightarrow> lease_reachable s'"

inductive_cases lease_stepE: "lease_step s s'"

definition lease_inv :: "lease_sys \<Rightarrow> bool" where
  "lease_inv s \<longleftrightarrow> tbl_wf leaseId (table s) \<and>
     exclusive globsOverlap glob lease_live (clock s) (set (table s))"

lemma exclusive_mark_stale:
  assumes "exclusive globsOverlap glob lease_live now (set db)"
  shows "exclusive globsOverlap glob lease_live now (set (persistMarkStale i now db))"
proof -
  have "l \<in> set db" if "l \<in> set (persistMarkStale i now db)" and "lease_live now l" for l
    using that by (auto simp: persistMarkStale_def tbl_update_def lease_live_def split: if_splits)
  with assms show ?thesis by (auto simp: exclusive_def)
qed

lemma acquire_inv:
  assumes "tbl_wf leaseId db" and "exclusive globsOverlap glob lease_live now (set db)"
    and acq: "acquireLease newId now ctx opts db = Inr (row, db')" and "opt_now opts = None"
  shows "tbl_wf leaseId db' \<and> exclusive globsOverlap glob lease_live now (set db')"
proof -
  have ins: "tbl_insert leaseId row db = Some db'"
    using acquireLease_Inr(1) [OF acq] by (simp add: persistAcquire_def)
  have "acquiredAt row = now" using acquireLease_Inr(3) [OF acq] assms(4) by simp
  then have "exclusive globsOverlap glob lease_live now (insert row (set db))"
    using acquireLease_Inr(12) [OF acq] by (intro lc.exclusive_insert assms(2)) auto
  with ins assms(1) show ?thesis by (simp add: set_tbl_insert tbl_wf_insert)
qed

lemma delete_inv:
  assumes "tbl_wf leaseId db" and "exclusive globsOverlap glob lease_live now (set db)"
  shows "tbl_wf leaseId (tbl_delete leaseId i db) \<and>
    exclusive globsOverlap glob lease_live now (set (tbl_delete leaseId i db))"
  using assms by (auto intro: tbl_wf_delete lc.exclusive_subset)

lemma lease_step_inv: "lease_step s s' \<Longrightarrow> lease_inv s \<Longrightarrow> lease_inv s'"
proof (induction rule: lease_step.induct)
  case (tick s now)
  then show ?case by (auto simp: lease_inv_def intro: lc.exclusive_later)
next
  case (acquire opts newId s ctx row db')
  then show ?case
    using acquire_inv [of "table s" "clock s" newId ctx opts row db'] by (simp add: lease_inv_def)
next
  case (release ctx i s db')
  then show ?case using delete_inv releaseLease_Inr [OF release.hyps] by (auto simp: lease_inv_def)
next
  case (reclaim exec we s ctx i res evs db')
  then show ?case
    using delete_inv reclaimIfStale_db [OF reclaim.hyps] by (auto simp: lease_inv_def)
next
  case (mark_stale s i)
  then show ?case
    by (auto simp: lease_inv_def exclusive_mark_stale persistMarkStale_def [of i]
        intro!: tbl_wf_update exclusive_mark_stale [unfolded persistMarkStale_def])
qed

lemma lease_reachable_inv: "lease_reachable s \<Longrightarrow> lease_inv s"
proof (induction rule: lease_reachable.induct)
  case (start t)
  show ?case by (simp add: lease_inv_def exclusive_def)
next
  case (step s s')
  then show ?case by (blast intro: lease_step_inv)
qed

lemma plain_shared_path_overlap:
  assumes "plain_glob a" and "plain_glob b" and "globMatchesPath a p" and "globMatchesPath b p"
  shows "globsOverlap a b"
  using assms walk_complete [OF plain_compat_on]
  by (auto simp: plain_glob_def globMatchesPath_def globsOverlap_def)

lemma guard_pass_lease:
  assumes "allowed (checkStagedPaths ps (persistListActive now db) agt)" and "p \<in> set ps"
  shows "\<exists>l \<in> set db. lease_live now l \<and> agent l = agt \<and> globMatchesPath (glob l) p"
  using assms by (auto simp: checkStagedPaths_def Let_def filter_empty_conv list_ex_iff)

section \<open>Properties\<close>

text \<open>Two concrete callers and the rows their acquisitions create, for the witnesses.\<close>

definition ctx_a :: AuthContext where
  "ctx_a = \<lparr>ctx_runId = ''run-a'', ctx_swarmId = ''sw'', ctx_agent = ''alice''\<rparr>"

definition ctx_b :: AuthContext where
  "ctx_b = \<lparr>ctx_runId = ''run-b'', ctx_swarmId = ''sw'', ctx_agent = ''bob''\<rparr>"

definition opts_for :: "string \<Rightarrow> AcquireLeaseOptions" where
  "opts_for g = \<lparr>opt_glob = g, opt_ttlMs = 1000, opt_worktreePath = ''/wt'', opt_now = None\<rparr>"

definition row_for :: "string \<Rightarrow> AuthContext \<Rightarrow> string \<Rightarrow> LeaseRow" where
  "row_for i ctx g = \<lparr>leaseId = i, swarmId = ctx_swarmId ctx, agent = ctx_agent ctx,
     holderRunId = ctx_runId ctx, holderWorktreePath = ''/wt'', glob = g, acquiredAt = 0,
     expiresAt = 1000\<rparr>"

definition two_leases :: "string \<Rightarrow> string \<Rightarrow> lease_sys" where
  "two_leases g h = \<lparr>table = [row_for ''l1'' ctx_a g, row_for ''l2'' ctx_b h], clock = 0\<rparr>"

lemma two_leases_reachable:
  assumes "acquireLease ''l1'' 0 ctx_a (opts_for g) [] = Inr (row_for ''l1'' ctx_a g, [row_for ''l1'' ctx_a g])"
    and "acquireLease ''l2'' 0 ctx_b (opts_for h) [row_for ''l1'' ctx_a g] =
      Inr (row_for ''l2'' ctx_b h, [row_for ''l1'' ctx_a g, row_for ''l2'' ctx_b h])"
  shows "lease_reachable (two_leases g h)"
proof -
  let ?s0 = "\<lparr>table = [], clock = 0\<rparr> :: lease_sys"
  let ?s1 = "?s0\<lparr>table := [row_for ''l1'' ctx_a g]\<rparr>"
  have "lease_step ?s0 ?s1"
    using assms(1) by (intro lease_step.acquire [where opts = "opts_for g"]) (simp_all add: opts_for_def)
  then have "lease_reachable ?s1" using lease_reachable.intros by blast
  moreover have "lease_step ?s1 (?s1\<lparr>table := [row_for ''l1'' ctx_a g, row_for ''l2'' ctx_b h]\<rparr>)"
    using assms(2) by (intro lease_step.acquire [where opts = "opts_for h"]) (simp_all add: opts_for_def)
  ultimately have "lease_reachable (?s1\<lparr>table := [row_for ''l1'' ctx_a g, row_for ''l2'' ctx_b h]\<rparr>)"
    by (rule lease_reachable.step)
  then show ?thesis by (simp add: two_leases_def)
qed

lemma two_leases_src_lib: "lease_reachable (two_leases ''src/**'' ''lib/*'')"
  by (rule two_leases_reachable; code_simp)

lemma two_leases_race: "lease_reachable (two_leases ''src/*.ts'' ''src/foo*'')"
  by (rule two_leases_reachable; code_simp)

text \<open>C1: in every state the lease primitives can reach, the globs of two different live leases do
  not overlap, whichever runs acquired, released, reclaimed or expired leases in between.\<close>

theorem live_leases_exclusive:
  assumes "lease_reachable s" and "l \<in> set (table s)" and "l' \<in> set (table s)"
    and "expiresAt l > clock s" and "expiresAt l' > clock s" and "l \<noteq> l'"
  shows "\<not> globsOverlap (glob l) (glob l')"
  using lease_reachable_inv [OF assms(1)] assms(2-)
  by (auto simp: lease_inv_def exclusive_def lease_live_def)

theorem live_leases_exclusive_witness:
  "\<not> globsOverlap (glob (row_for ''l1'' ctx_a ''src/**'')) (glob (row_for ''l2'' ctx_b ''lib/*''))"
  by (rule live_leases_exclusive [OF two_leases_src_lib]) (simp_all add: two_leases_def row_for_def)

text \<open>C35: single writer. In a reachable state no path is matched by two different live leases whose
  globs are plain (literal segments, \<open>*\<close> and \<open>**\<close>).\<close>

theorem single_writer_plain:
  assumes "lease_reachable s" and "l \<in> set (table s)" and "l' \<in> set (table s)"
    and "expiresAt l > clock s" and "expiresAt l' > clock s"
    and "plain_glob (glob l)" and "plain_glob (glob l')"
    and "globMatchesPath (glob l) p" and "globMatchesPath (glob l') p"
  shows "l = l'"
proof (rule lc.exclusive_unique)
  show "exclusive globsOverlap glob lease_live (clock s) (set (table s))"
    using lease_reachable_inv [OF assms(1)] by (simp add: lease_inv_def)
  show "globsOverlap (glob l) (glob l')" using assms by (intro plain_shared_path_overlap)
qed (use assms in \<open>auto simp: lease_live_def\<close>)

theorem single_writer_plain_witness:
  "row_for ''l1'' ctx_a ''src/**'' = row_for ''l1'' ctx_a ''src/**''"
  by (rule single_writer_plain [OF two_leases_src_lib, where p = "''src/x''"])
    (simp_all add: two_leases_def row_for_def, code_simp+)

text \<open>Single writer fails for wildcard segments. There is a reachable state in which two different
  runs hold live leases whose globs both match one file, because the overlap test compares
  wildcard segments on one sample name only.\<close>

theorem single_writer_wildcard_race:
  "\<exists>s l l' p. lease_reachable s \<and> l \<in> set (table s) \<and> l' \<in> set (table s) \<and>
     expiresAt l > clock s \<and> expiresAt l' > clock s \<and> holderRunId l \<noteq> holderRunId l' \<and>
     globMatchesPath (glob l) p \<and> globMatchesPath (glob l') p"
proof -
  let ?l = "row_for ''l1'' ctx_a ''src/*.ts''" and ?l' = "row_for ''l2'' ctx_b ''src/foo*''"
  have "globMatchesPath (glob ?l) ''src/foo.ts''" "globMatchesPath (glob ?l') ''src/foo.ts''"
    using globsOverlap_misses_shared_path by (simp_all add: row_for_def)
  moreover have "?l \<in> set (table (two_leases ''src/*.ts'' ''src/foo*''))"
    "?l' \<in> set (table (two_leases ''src/*.ts'' ''src/foo*''))" by (simp_all add: two_leases_def)
  moreover have "holderRunId ?l \<noteq> holderRunId ?l'" by (simp add: row_for_def ctx_a_def ctx_b_def)
  moreover have "expiresAt ?l > clock (two_leases ''src/*.ts'' ''src/foo*'')"
    "expiresAt ?l' > clock (two_leases ''src/*.ts'' ''src/foo*'')"
    by (simp_all add: row_for_def two_leases_def)
  ultimately show ?thesis using two_leases_race by metis
qed

lemma assertAuthContext_ok:
  "assertAuthContext ctx = Inr () \<longleftrightarrow> ctx_agent ctx \<noteq> [] \<and> ctx_runId ctx \<noteq> [] \<and> ctx_swarmId ctx \<noteq> []"
  by (simp add: assertAuthContext_def)

text \<open>Acquiring a lease succeeds exactly when the context and the options are well formed, no live
  lease overlaps the requested glob and the minted identifier is fresh; the row carries the
  authenticated run, agent and swarm and is appended to the table.\<close>

theorem acquireLease_succeeds_iff:
  assumes "opt_now opts = None"
  shows "(\<exists>row. acquireLease newId now ctx opts db = Inr (row, db @ [row]) \<and>
       row = \<lparr>leaseId = newId, swarmId = ctx_swarmId ctx, agent = ctx_agent ctx,
              holderRunId = ctx_runId ctx, holderWorktreePath = opt_worktreePath opts,
              glob = opt_glob opts, acquiredAt = now, expiresAt = now + opt_ttlMs opts\<rparr>) \<longleftrightarrow>
     ctx_agent ctx \<noteq> [] \<and> ctx_runId ctx \<noteq> [] \<and> ctx_swarmId ctx \<noteq> [] \<and>
     opt_glob opts \<noteq> [] \<and> opt_ttlMs opts > 0 \<and> opt_worktreePath opts \<noteq> [] \<and>
     (\<forall>l \<in> set db. expiresAt l > now \<longrightarrow> \<not> globsOverlap (glob l) (opt_glob opts)) \<and>
     newId \<notin> leaseId ` set db"
  using assms assertAuthContext_ok [of ctx]
  by (auto simp: acquireLease_def result_simps Let_def find_None_iff persistAcquire_def
      tbl_insert_def lease_live_def split: option.splits dest!: find_SomeD)

theorem acquireLease_succeeds_iff_witness:
  "\<exists>row. acquireLease ''l2'' 0 ctx_b (opts_for ''lib/*'') [row_for ''l1'' ctx_a ''src/**''] =
     Inr (row, [row_for ''l1'' ctx_a ''src/**''] @ [row])"
proof -
  have "opt_now (opts_for ''lib/*'') = None" by (simp add: opts_for_def)
  moreover have "\<not> globsOverlap ''src/**'' ''lib/*''" by code_simp
  ultimately show ?thesis
    using acquireLease_succeeds_iff [of "opts_for ''lib/*''" "''l2''" 0 ctx_b "[row_for ''l1'' ctx_a ''src/**'']"]
    by (auto simp: ctx_b_def opts_for_def row_for_def)
qed

text \<open>A lease can be released only by the run that holds it. The holder's release undoes the
  acquisition exactly; any other run gets an ownership error; releasing an unknown lease does
  nothing.\<close>

theorem releaseLease_ownership:
  assumes "assertAuthContext ctx' = Inr ()"
    and "acquireLease newId now ctx opts db = Inr (row, db')"
  shows "releaseLease ctx' newId db' =
      (if ctx_runId ctx' = ctx_runId ctx then Inr db
       else Inl (LeaseOwnershipError (''Lease '' @ newId @ '' is held by run '' @ ctx_runId ctx @
              '', not '' @ ctx_runId ctx'))) \<and>
    (\<forall>i. i \<notin> leaseId ` set db' \<longrightarrow> releaseLease ctx' i db' = Inr db')"
proof (intro conjI allI impI)
  have ins: "newId \<notin> leaseId ` set db" "db' = db @ [row]" "leaseId row = newId"
    "holderRunId row = ctx_runId ctx"
    using acquireLease_Inr(1,2,9) [OF assms(2)]
    by (auto simp: persistAcquire_def tbl_insert_def split: if_splits)
  then have get: "tbl_get leaseId newId db' = Some row" and del: "tbl_delete leaseId newId db' = db"
    using tbl_get_snoc [of leaseId row db] tbl_delete_snoc [of leaseId row db] by simp_all
  show "releaseLease ctx' newId db' =
      (if ctx_runId ctx' = ctx_runId ctx then Inr db
       else Inl (LeaseOwnershipError (''Lease '' @ newId @ '' is held by run '' @ ctx_runId ctx @
              '', not '' @ ctx_runId ctx')))"
    using assms(1) get del ins(4) by (simp add: releaseLease_def persistRelease_def)
  fix i assume "i \<notin> leaseId ` set db'"
  then show "releaseLease ctx' i db' = Inr db'"
    using assms(1) by (simp add: releaseLease_def tbl_get_None [THEN iffD2])
qed

theorem releaseLease_ownership_witness:
  "releaseLease ctx_b ''l1'' [row_for ''l1'' ctx_a ''src/**''] =
     Inl (LeaseOwnershipError ''Lease l1 is held by run run-a, not run-b'')"
proof -
  have "assertAuthContext ctx_b = Inr ()" by code_simp
  moreover have "acquireLease ''l1'' 0 ctx_a (opts_for ''src/**'') [] =
      Inr (row_for ''l1'' ctx_a ''src/**'', [row_for ''l1'' ctx_a ''src/**''])" by code_simp
  ultimately show ?thesis using releaseLease_ownership [of ctx_b "''l1''" 0 ctx_a] by (simp add: ctx_a_def ctx_b_def)
qed

text \<open>A stale lease is reclaimed exactly when it exists, has expired, its worktree exists and
  \<open>git status\<close> scoped to its glob succeeds with blank output; then the lease and nothing else is
  deleted and no escalation is raised. In every other case the table is left alone, and an
  escalation is raised exactly for a stale lease whose holder cannot be proved clean.\<close>

theorem reclaimIfStale_spec:
  assumes "assertAuthContext ctx = Inr ()"
  shows "\<exists>res evs db'. reclaimIfStale exec we now ctx i db = Inr (res, evs, db') \<and>
     (res = Reclaimed \<longleftrightarrow>
        (\<exists>raw out. tbl_get leaseId i db = Some raw \<and> expiresAt raw \<le> now \<and> we (holderWorktreePath raw) \<and>
           exec ''git'' (git_status_args (glob raw)) (holderWorktreePath raw) = Inr out \<and> trim out = [])) \<and>
     db' = (if res = Reclaimed then tbl_delete leaseId i db else db) \<and>
     length evs = (if (\<exists>raw. tbl_get leaseId i db = Some raw \<and> expiresAt raw \<le> now) \<and> res \<noteq> Reclaimed
                   then 1 else 0)"
proof (cases "tbl_get leaseId i db")
  case None
  with assms show ?thesis by (simp add: reclaimIfStale_def)
next
  case (Some raw)
  show ?thesis
  proof (cases "expiresAt raw > now \<or> \<not> we (holderWorktreePath raw)")
    case True
    with assms Some show ?thesis by (auto simp: reclaimIfStale_def Let_def)
  next
    case False
    with assms Some show ?thesis
      by (cases "exec ''git'' (git_status_args (glob raw)) (holderWorktreePath raw)")
        (auto simp: reclaimIfStale_def Let_def persistRelease_def)
  qed
qed

theorem reclaimIfStale_spec_witness:
  "\<exists>res evs db'. reclaimIfStale (\<lambda>_ _ _. Inr ''M src/x'') (\<lambda>_. True) 2000 ctx_b ''l1''
      [row_for ''l1'' ctx_a ''src/**''] = Inr (res, evs, db') \<and> length evs = 1 \<and>
      db' = [row_for ''l1'' ctx_a ''src/**'']"
proof -
  have ok: "assertAuthContext ctx_b = Inr ()" by code_simp
  have "trim ''M src/x'' \<noteq> []" by code_simp
  with reclaimIfStale_spec [OF ok, of "\<lambda>_ _ _. Inr ''M src/x''" "\<lambda>_. True" 2000 "''l1''"
      "[row_for ''l1'' ctx_a ''src/**'']"] show ?thesis
    by (auto simp: tbl_get_def row_for_def)
qed

text \<open>C36: two agents that both pass the pre-commit guard never have the same path staged, in any
  reachable lease state whose live leases have plain globs.\<close>

theorem pre_commit_guard_exclusive:
  assumes "lease_reachable s"
    and "\<forall>l \<in> set (table s). plain_glob (glob l)"
    and "exec ''git'' [''diff'', ''--cached'', ''--name-only''] wa = Inr outa"
    and "exec ''git'' [''diff'', ''--cached'', ''--name-only''] wb = Inr outb"
    and "exitCode (runPreCommitGuard exec (clock s) wa agent_a (table s)) = 0"
    and "exitCode (runPreCommitGuard exec (clock s) wb agent_b (table s)) = 0"
    and "p \<noteq> []" and "p \<in> set (map trim (split_on (CHR 0x0A) outa))"
    and "p \<in> set (map trim (split_on (CHR 0x0A) outb))"
  shows "agent_a = agent_b"
proof -
  have held: "\<exists>l \<in> set (table s). lease_live (clock s) l \<and> agent l = a \<and> globMatchesPath (glob l) p"
    if "exec ''git'' [''diff'', ''--cached'', ''--name-only''] w = Inr out"
      and "exitCode (runPreCommitGuard exec (clock s) w a (table s)) = 0"
      and "p \<in> set (map trim (split_on (CHR 0x0A) out))" for w a out
  proof -
    let ?ps = "filter (\<lambda>s. s \<noteq> []) (map trim (split_on (CHR 0x0A) out))"
    have "p \<in> set ?ps" using that(3) assms(7) by simp
    then have "?ps \<noteq> []" by (metis empty_iff list.set(1))
    with that(1,2) have "allowed (checkStagedPaths ?ps (persistListActive (clock s) (table s)) a)"
      by (simp add: runPreCommitGuard_def Let_def split: if_splits)
    then show ?thesis using \<open>p \<in> set ?ps\<close> by (rule guard_pass_lease)
  qed
  obtain l where "l \<in> set (table s)" "lease_live (clock s) l" "agent l = agent_a" "globMatchesPath (glob l) p"
    using held [OF assms(3,5,8)] by blast
  moreover obtain l' where "l' \<in> set (table s)" "lease_live (clock s) l'" "agent l' = agent_b"
    "globMatchesPath (glob l') p"
    using held [OF assms(4,6,9)] by blast
  moreover have "globsOverlap (glob l) (glob l')"
    using calculation assms(2) by (intro plain_shared_path_overlap) auto
  ultimately show ?thesis
    using lc.exclusive_unique lease_reachable_inv [OF assms(1)] by (metis lease_inv_def)
qed

theorem pre_commit_guard_exclusive_witness:
  "runPreCommitGuard (\<lambda>_ _ _. Inr (''src/x'' @ [CHR 0x0A])) 0 ''/wt'' ''alice''
     (table (two_leases ''src/**'' ''lib/*'')) =
     \<lparr>exitCode = 0, message = ''pre-commit: 1 staged path(s) covered by live leases'',
      decision = \<lparr>allowed = True, blocked = []\<rparr>\<rparr> \<and> ''alice'' = ''alice''"
proof -
  let ?exec = "\<lambda>_ _ _. Inr (''src/x'' @ [CHR 0x0A]) :: string + string"
  have run: "runPreCommitGuard ?exec 0 ''/wt'' ''alice'' (table (two_leases ''src/**'' ''lib/*'')) =
     \<lparr>exitCode = 0, message = ''pre-commit: 1 staged path(s) covered by live leases'',
      decision = \<lparr>allowed = True, blocked = []\<rparr>\<rparr>" by code_simp
  have clk: "clock (two_leases ''src/**'' ''lib/*'') = 0" by (simp add: two_leases_def)
  have plain: "\<forall>l \<in> set (table (two_leases ''src/**'' ''lib/*'')). plain_glob (glob l)" by code_simp
  have staged: "''src/x'' \<in> set (map trim (split_on (CHR 0x0A) (''src/x'' @ [CHR 0x0A])))" by code_simp
  have "exitCode (runPreCommitGuard ?exec (clock (two_leases ''src/**'' ''lib/*'')) ''/wt'' ''alice''
      (table (two_leases ''src/**'' ''lib/*''))) = 0"
    by (simp only: run clk PreCommitGuardResult.simps)
  then have "''alice'' = ''alice''"
    by (intro pre_commit_guard_exclusive [where exec = ?exec and wa = "''/wt''" and wb = "''/wt''",
          OF two_leases_src_lib plain refl refl _ _ _ staged staged]) (assumption | simp)+
  with run show ?thesis by blast
qed

end
