(* ===== verification/Json_Text.thy ===== *)
theory Json_Text
  imports Shamu_Prelude
begin

text \<open>
  JSON text as the sources produce it: string quoting by \<open>JSON.stringify\<close> and the canonical encoder
  of \<^verbatim>\<open>packages/core/flow/src/hash.ts\<close>. The encoder's text determines the encoded value up to the
  order of object keys and to properties that are undefined, which is what makes it usable as the
  preimage of a content hash. The text of a number is a parameter of the encoder: a locale states
  what the proofs need of it, and integers provide it.
\<close>

section \<open>String quoting\<close>

definition hex_char :: "nat \<Rightarrow> char" where
  "hex_char d = char_of (if d < 10 then 48 + d else 87 + d)"

definition json_escape :: "char \<Rightarrow> string" where
  "json_escape c =
     (if c = CHR 0x22 then [CHR 0x5C, CHR 0x22]
      else if c = CHR 0x5C then [CHR 0x5C, CHR 0x5C]
      else if c = CHR 0x08 then [CHR 0x5C, CHR ''b'']
      else if c = CHR 0x0C then [CHR 0x5C, CHR ''f'']
      else if c = CHR 0x0A then [CHR 0x5C, CHR ''n'']
      else if c = CHR 0x0D then [CHR 0x5C, CHR ''r'']
      else if c = CHR 0x09 then [CHR 0x5C, CHR ''t'']
      else if of_char c < (32 :: nat) then
        [CHR 0x5C, CHR ''u'', CHR ''0'', CHR ''0'', hex_char (of_char c div 16), hex_char (of_char c mod 16)]
      else [c])"

definition json_quote :: "string \<Rightarrow> string" where
  "json_quote s = CHR 0x22 # concat (map json_escape s) @ [CHR 0x22]"

section \<open>Values\<close>

text \<open>The JavaScript values the encoder can meet. Objects are lists of own enumerable properties.
  A cyclic object is not a tree and so not a value here; the encoder rejects it with an error.\<close>

datatype 'n jsval =
    JNull
  | JBool bool
  | JNum 'n
  | JStr string
  | JUndefined
  | JFunction
  | JSymbol
  | JBigInt
  | JDate
  | JMapSet
  | JArr "'n jsval list"
  | JObj "(string \<times> 'n jsval) list"

text \<open>Values whose numbers are integers, and objects with such values.\<close>

type_synonym js_value = "int jsval"

type_synonym js_record = "(string \<times> js_value) list"

definition map_result :: "('a \<Rightarrow> 'b) \<Rightarrow> 'e + 'a \<Rightarrow> 'e + 'b" where
  "map_result f r = bind_result r (\<lambda>a. Inr (f a))"

text \<open>The first error in order, or all values.\<close>

fun seq_results :: "('e + 'a) list \<Rightarrow> 'e + 'a list" where
  "seq_results [] = Inr []"
| "seq_results (r # rs) = bind_result r (\<lambda>a. map_result (\<lambda>as. a # as) (seq_results rs))"

lemma map_result_Inr [result_simps]: "map_result f r = Inr b \<longleftrightarrow> (\<exists>a. r = Inr a \<and> b = f a)"
  by (auto simp: map_result_def result_simps)

lemma map_result_Inl [result_simps]: "map_result f r = Inl e \<longleftrightarrow> r = Inl e"
  by (auto simp: map_result_def result_simps)

lemma seq_results_Inr [result_simps]: "seq_results rs = Inr as \<longleftrightarrow> rs = map Inr as"
  by (induction rs arbitrary: as) (auto simp: result_simps)

section \<open>The canonical encoder\<close>

lemma jsval_size_arr: "v \<in> set vs \<Longrightarrow> size v < size (JArr vs)"
  by (induction vs) auto

lemma jsval_size_obj: "kv \<in> set kvs \<Longrightarrow> size (snd kv) < size (JObj kvs)"
  by (induction kvs) auto

function encodeValue :: "('n \<Rightarrow> bool) \<Rightarrow> ('n \<Rightarrow> string) \<Rightarrow> 'n jsval \<Rightarrow> string + string" where
  "encodeValue isFinite numStr JNull = Inr ''null''"
| "encodeValue isFinite numStr (JBool b) = Inr (if b then ''true'' else ''false'')"
| "encodeValue isFinite numStr (JNum n) =
     (if \<not> isFinite n
      then Inl (''contentHash: non-finite number not representable (got '' @ numStr n @ '')'')
      else Inr (numStr n))"
| "encodeValue isFinite numStr (JStr s) = Inr (json_quote s)"
| "encodeValue isFinite numStr JUndefined = Inl ''contentHash: undefined is not serializable''"
| "encodeValue isFinite numStr JFunction = Inl ''contentHash: function values are not serializable''"
| "encodeValue isFinite numStr JSymbol = Inl ''contentHash: symbol values are not serializable''"
| "encodeValue isFinite numStr JBigInt = Inl ''contentHash: bigint values are not serializable''"
| "encodeValue isFinite numStr JDate = Inl ''contentHash: Date values are not serializable''"
| "encodeValue isFinite numStr JMapSet = Inl ''contentHash: Map/Set values are not serializable''"
| "encodeValue isFinite numStr (JArr vs) =
     map_result (\<lambda>parts. ''['' @ join_with '','' parts @ '']'')
       (seq_results (map (\<lambda>v. encodeValue isFinite numStr v) vs))"
| "encodeValue isFinite numStr (JObj kvs) =
     map_result (\<lambda>parts. ''{'' @ join_with '','' parts @ ''}'')
       (seq_results (map (\<lambda>kr. map_result (\<lambda>t. json_quote (fst kr) @ '':'' @ t) (snd kr))
         (sort_key fst (map (\<lambda>kv. (fst kv, encodeValue isFinite numStr (snd kv)))
           (filter (\<lambda>kv. snd kv \<noteq> JUndefined) kvs)))))"
  by pat_completeness auto
termination
  by (relation "measure (\<lambda>(_, _, v). size v)")
    (auto dest: jsval_size_arr jsval_size_obj simp del: jsval.size)

definition canonicalize :: "('n \<Rightarrow> bool) \<Rightarrow> ('n \<Rightarrow> string) \<Rightarrow> 'n jsval \<Rightarrow> string + string" where
  "canonicalize isFinite numStr v = encodeValue isFinite numStr v"

text \<open>The digest is \<^verbatim>\<open>node:crypto\<close>'s SHA-256 in hexadecimal, a parameter.\<close>

definition contentHash ::
  "(string \<Rightarrow> string) \<Rightarrow> ('n \<Rightarrow> bool) \<Rightarrow> ('n \<Rightarrow> string) \<Rightarrow> 'n jsval \<Rightarrow> string + string" where
  "contentHash sha256 isFinite numStr v = map_result sha256 (canonicalize isFinite numStr v)"

text \<open>Values that are JSON: what parsing can yield.\<close>

function plain_json :: "'n jsval \<Rightarrow> bool" where
  "plain_json (JArr vs) = (\<forall>v \<in> set vs. plain_json v)"
| "plain_json (JObj kvs) = (\<forall>kv \<in> set kvs. plain_json (snd kv))"
| "plain_json JNull = True"
| "plain_json (JBool b) = True"
| "plain_json (JNum n) = True"
| "plain_json (JStr s) = True"
| "plain_json JUndefined = False"
| "plain_json JFunction = False"
| "plain_json JSymbol = False"
| "plain_json JBigInt = False"
| "plain_json JDate = False"
| "plain_json JMapSet = False"
  by pat_completeness auto
termination
  by (relation "measure size") (auto dest: jsval_size_arr jsval_size_obj simp del: jsval.size)

section \<open>Quoted strings are self-delimiting\<close>

definition hex_val :: "char \<Rightarrow> nat" where
  "hex_val c = (if of_char c < (58 :: nat) then of_char c - 48 else of_char c - 87)"

lemma hex_val_char: "d < 16 \<Longrightarrow> hex_val (hex_char d) = d"
  by (simp add: hex_val_def hex_char_def)

text \<open>Reading one escaped character back.\<close>

fun unescape1 :: "string \<Rightarrow> char \<times> string" where
  "unescape1 (c # r) =
     (if c = CHR 0x5C then
        (case r of
           k # r' \<Rightarrow>
             if k = CHR ''b'' then (CHR 0x08, r')
             else if k = CHR ''f'' then (CHR 0x0C, r')
             else if k = CHR ''n'' then (CHR 0x0A, r')
             else if k = CHR ''r'' then (CHR 0x0D, r')
             else if k = CHR ''t'' then (CHR 0x09, r')
             else if k = CHR ''u'' then (char_of (16 * hex_val (r' ! 2) + hex_val (r' ! 3)), drop 4 r')
             else (k, r')
         | [] \<Rightarrow> (c, []))
      else (c, r))"
| "unescape1 [] = (CHR 0x00, [])"

lemma unescape1_escape: "unescape1 (json_escape c @ r) = (c, r)"
proof -
  let ?n = "of_char c :: nat"
  consider "c \<in> {CHR 0x22, CHR 0x5C, CHR 0x08, CHR 0x0C, CHR 0x0A, CHR 0x0D, CHR 0x09}"
    | (ctl) "c \<notin> {CHR 0x22, CHR 0x5C, CHR 0x08, CHR 0x0C, CHR 0x0A, CHR 0x0D, CHR 0x09}" "?n < 32"
    | (plain) "c \<notin> {CHR 0x22, CHR 0x5C, CHR 0x08, CHR 0x0C, CHR 0x0A, CHR 0x0D, CHR 0x09}" "\<not> ?n < 32"
    by blast
  then show ?thesis
  proof cases
    case 1
    then show ?thesis by (elim insertE emptyE) (simp_all add: json_escape_def)
  next
    case ctl
    then have "json_escape c = [CHR 0x5C, CHR ''u'', CHR ''0'', CHR ''0'', hex_char (?n div 16), hex_char (?n mod 16)]"
      by (simp add: json_escape_def)
    moreover have "hex_val (hex_char (?n div 16)) = ?n div 16" "hex_val (hex_char (?n mod 16)) = ?n mod 16"
      using ctl by (auto intro!: hex_val_char)
    ultimately show ?thesis by simp
  next
    case plain
    then show ?thesis by (simp add: json_escape_def)
  qed
qed

lemma json_escape_Cons: "\<exists>e es. json_escape c = e # es \<and> e \<noteq> CHR 0x22"
  by (simp add: json_escape_def)

lemma json_body_inject:
  "concat (map json_escape s) @ CHR 0x22 # x = concat (map json_escape t) @ CHR 0x22 # y \<Longrightarrow> s = t \<and> x = y"
proof (induction s arbitrary: t)
  case Nil
  then show ?case
  proof (cases t)
    case (Cons d t')
    with Nil json_escape_Cons [of d] show ?thesis by auto
  qed simp
next
  case (Cons c s)
  show ?case
  proof (cases t)
    case Nil
    with Cons.prems json_escape_Cons [of c] show ?thesis by auto
  next
    case t: (Cons d t')
    with Cons.prems have "unescape1 (json_escape c @ concat (map json_escape s) @ CHR 0x22 # x) =
        unescape1 (json_escape d @ concat (map json_escape t') @ CHR 0x22 # y)" by simp
    with t Cons.IH [of t'] show ?thesis by (simp add: unescape1_escape)
  qed
qed

lemma json_quote_inject: "json_quote s @ x = json_quote t @ y \<Longrightarrow> s = t \<and> x = y"
  by (auto simp: json_quote_def dest: json_body_inject)

text \<open>No line feed survives in quoted text, so one quoted record is one line.\<close>

lemma json_quote_no_newline: "CHR 0x0A \<notin> set (json_quote s)"
proof -
  have hex: "hex_char d \<noteq> CHR 0x0A" if "d < 16" for d
  proof
    assume "hex_char d = CHR 0x0A"
    then have "of_char (hex_char d) = (10 :: nat)" by simp
    moreover have "of_char (hex_char d) = (if d < 10 then 48 + d else 87 + d)"
      using that by (simp add: hex_char_def)
    ultimately show False by (simp split: if_splits)
  qed
  have "CHR 0x0A \<notin> set (json_escape c)" for c
  proof (cases "of_char c < (32 :: nat)")
    case True
    then have "hex_char (of_char c div 16) \<noteq> CHR 0x0A" by (intro hex) arith
    with hex [of "of_char c mod 16"] show ?thesis by (auto simp: json_escape_def)
  next
    case False
    then show ?thesis by (auto simp: json_escape_def)
  qed
  then show ?thesis by (auto simp: json_quote_def)
qed

section \<open>The canonical text determines the value\<close>

text \<open>Values up to key order and undefined properties.\<close>

function norm_js :: "'n jsval \<Rightarrow> 'n jsval" where
  "norm_js (JArr vs) = JArr (map (\<lambda>v. norm_js v) vs)"
| "norm_js (JObj kvs) =
     JObj (sort_key fst (map (\<lambda>kv. (fst kv, norm_js (snd kv))) (filter (\<lambda>kv. snd kv \<noteq> JUndefined) kvs)))"
| "norm_js JNull = JNull"
| "norm_js (JBool b) = JBool b"
| "norm_js (JNum n) = JNum n"
| "norm_js (JStr s) = JStr s"
| "norm_js JUndefined = JUndefined"
| "norm_js JFunction = JFunction"
| "norm_js JSymbol = JSymbol"
| "norm_js JBigInt = JBigInt"
| "norm_js JDate = JDate"
| "norm_js JMapSet = JMapSet"
  by pat_completeness auto
termination
  by (relation "measure size") (auto dest: jsval_size_arr jsval_size_obj simp del: jsval.size)

definition num_alphabet :: "char \<Rightarrow> bool" where
  "num_alphabet c \<longleftrightarrow> of_char c \<in> {48..57 :: nat} \<or> c \<in> set ''+-.eE''"

definition stops :: "string \<Rightarrow> bool" where
  "stops x \<longleftrightarrow> x = [] \<or> hd x \<in> {CHR '','', CHR '']'', CHR ''}''}"

text \<open>Text is self-delimiting relative to a normal form: what follows a separator can be told apart.\<close>

definition delimited :: "('a \<Rightarrow> string) \<Rightarrow> ('a \<Rightarrow> 'b) \<Rightarrow> 'a set \<Rightarrow> 'a set \<Rightarrow> bool" where
  "delimited txt nf A B \<longleftrightarrow>
     (\<forall>a \<in> A. \<forall>b \<in> B. \<forall>x y. stops x \<longrightarrow> stops y \<longrightarrow> txt a @ x = txt b @ y \<longrightarrow> nf a = nf b \<and> x = y)"

lemma delimitedD:
  "delimited txt nf A B \<Longrightarrow> a \<in> A \<Longrightarrow> b \<in> B \<Longrightarrow> txt a @ x = txt b @ y \<Longrightarrow> stops x \<Longrightarrow> stops y \<Longrightarrow>
     nf a = nf b \<and> x = y"
  unfolding delimited_def by blast

lemma join_as_concat: "join_with '','' (a # as) = a @ concat (map (\<lambda>t. CHR '','' # t) as)"
  by (induction as arbitrary: a) auto

definition tail_text :: "('a \<Rightarrow> string) \<Rightarrow> 'a list \<Rightarrow> string" where
  "tail_text txt as = concat (map (\<lambda>a. CHR '','' # txt a) as)"

lemma stops_tail: "cl \<in> {CHR '']'', CHR ''}''} \<Longrightarrow> stops (tail_text txt as @ cl # x)"
  by (cases as) (auto simp: stops_def tail_text_def)

lemma tail_inject:
  assumes "delimited txt nf (set as) (set bs)" and "cl \<in> {CHR '']'', CHR ''}''}"
    and "tail_text txt as @ cl # x = tail_text txt bs @ cl # y"
  shows "map nf as = map nf bs \<and> x = y"
  using assms(1,3)
proof (induction as arbitrary: bs)
  case Nil
  then show ?case using assms(2) by (cases bs) (auto simp: tail_text_def)
next
  case (Cons a as)
  show ?case
  proof (cases bs)
    case Nil
    with Cons.prems assms(2) show ?thesis by (auto simp: tail_text_def)
  next
    case (Cons b bs')
    with Cons.prems have eq: "txt a @ tail_text txt as @ cl # x = txt b @ tail_text txt bs' @ cl # y"
      by (simp add: tail_text_def)
    have step: "nf a = nf b \<and> tail_text txt as @ cl # x = tail_text txt bs' @ cl # y"
      using Cons by (intro delimitedD [OF Cons.prems(1) _ _ eq] stops_tail assms(2)) auto
    moreover have "delimited txt nf (set as) (set bs')"
      using Cons.prems(1) Cons by (simp add: delimited_def)
    ultimately show ?thesis using Cons.IH [of bs'] Cons by simp
  qed
qed

lemma join_inject:
  assumes "delimited txt nf (set as) (set bs)" and "cl \<in> {CHR '']'', CHR ''}''}"
    and "\<And>a. a \<in> set as \<union> set bs \<Longrightarrow> \<exists>c cs. txt a = c # cs \<and> c \<noteq> cl"
    and eq: "join_with '','' (map txt as) @ cl # x = join_with '','' (map txt bs) @ cl # y"
  shows "map nf as = map nf bs \<and> x = y"
proof (cases as; cases bs)
  fix a as' b bs' assume l: "as = a # as'" "bs = b # bs'"
  then have "tail_text txt as @ cl # x = tail_text txt bs @ cl # y"
    using eq by (simp add: join_as_concat tail_text_def comp_def)
  with assms(1,2) show ?thesis by (rule tail_inject)
next
  fix a as' assume "as = a # as'" "bs = []"
  with eq assms(3) [of a] show ?thesis by (auto simp: join_as_concat)
next
  fix b bs' assume "as = []" "bs = b # bs'"
  with eq assms(3) [of b] show ?thesis by (auto simp: join_as_concat)
qed (use eq in auto)

locale number_text =
  fixes isFinite :: "'n \<Rightarrow> bool" and numStr :: "'n \<Rightarrow> string"
  assumes num_inject: "isFinite a \<Longrightarrow> isFinite b \<Longrightarrow> numStr a = numStr b \<Longrightarrow> a = b"
    and num_chars: "isFinite a \<Longrightarrow> list_all num_alphabet (numStr a)"
    and num_nonempty: "isFinite a \<Longrightarrow> numStr a \<noteq> []"
begin

lemma num_delimited:
  assumes "isFinite a" and "isFinite b" and "numStr a @ x = numStr b @ y" and "stops x" and "stops y"
  shows "a = b \<and> x = y"
proof -
  have take: "takeWhile num_alphabet (numStr n @ z) = numStr n" if "isFinite n" "stops z" for n z
  proof -
    have "takeWhile num_alphabet z = []"
      using that(2) by (cases z) (auto simp: stops_def num_alphabet_def)
    with num_chars [OF that(1)] show ?thesis by (simp add: takeWhile_append list_all_iff)
  qed
  have "numStr a = numStr b" using assms take by metis
  with assms show ?thesis using num_inject by auto
qed

text \<open>Which character a text starts with tells the kind of value.\<close>

fun starts_ok :: "'n jsval \<Rightarrow> char \<Rightarrow> bool" where
  "starts_ok JNull c = (c = CHR ''n'')"
| "starts_ok (JBool b) c = (c = (if b then CHR ''t'' else CHR ''f''))"
| "starts_ok (JNum n) c = num_alphabet c"
| "starts_ok (JStr s) c = (c = CHR 0x22)"
| "starts_ok (JArr vs) c = (c = CHR ''['')"
| "starts_ok (JObj kvs) c = (c = CHR ''{'')"
| "starts_ok _ c = False"

lemma encode_starts: "encodeValue isFinite numStr v = Inr s \<Longrightarrow> \<exists>c cs. s = c # cs \<and> starts_ok v c"
proof (cases v)
  case (JNum n)
  assume "encodeValue isFinite numStr v = Inr s"
  with JNum have "isFinite n" "s = numStr n" by (auto split: if_splits)
  moreover obtain c cs where "numStr n = c # cs"
    using num_nonempty [OF \<open>isFinite n\<close>] by (cases "numStr n") auto
  ultimately show ?thesis using JNum num_chars [of n] by simp
qed (auto simp: result_simps json_quote_def)

end

interpretation intnum: number_text "\<lambda>_ :: int. True" show_int
proof unfold_locales
  fix a :: int
  have "list_all num_alphabet (show_nat n)" for n
    using show_nat_digits [of _ n] by (auto simp: list_all_iff num_alphabet_def)
  then show "list_all num_alphabet (show_int a)" by (simp add: show_int_def num_alphabet_def)
  show "show_int a \<noteq> []" by (simp add: show_int_def)
qed simp

lemma sort_key_map_pair:
  fixes f :: "'v \<Rightarrow> 'w" and kvs :: "('k :: linorder \<times> 'v) list"
  shows "sort_key fst (map (\<lambda>kv. (fst kv, f (snd kv))) kvs) = map (\<lambda>kv. (fst kv, f (snd kv))) (sort_key fst kvs)"
proof -
  have "insort_key fst (fst kv, f (snd kv)) (map (\<lambda>kv. (fst kv, f (snd kv))) xs) =
      map (\<lambda>kv. (fst kv, f (snd kv))) (insort_key fst kv xs)" for kv and xs :: "('k \<times> 'v) list"
    by (induction xs) auto
  then show ?thesis by (induction kvs) auto
qed

lemma seq_results_map:
  "seq_results (map f xs) = Inr ts \<longleftrightarrow> (\<forall>x \<in> set xs. \<exists>t. f x = Inr t) \<and> ts = map (\<lambda>x. projr (f x)) xs"
  by (induction xs arbitrary: ts) (auto simp: result_simps)

text \<open>The properties the encoder visits, in its order, and the text of one of them.\<close>

definition props :: "(string \<times> 'n jsval) list \<Rightarrow> (string \<times> 'n jsval) list" where
  "props kvs = sort_key fst (filter (\<lambda>kv. snd kv \<noteq> JUndefined) kvs)"

lemma set_props: "set (props kvs) = {kv \<in> set kvs. snd kv \<noteq> JUndefined}"
  by (auto simp: props_def)

definition prop_result ::
  "('n \<Rightarrow> bool) \<Rightarrow> ('n \<Rightarrow> string) \<Rightarrow> string \<times> 'n jsval \<Rightarrow> string + string" where
  "prop_result isFinite numStr kv =
     map_result (\<lambda>t. json_quote (fst kv) @ '':'' @ t) (encodeValue isFinite numStr (snd kv))"

lemma encode_visits:
  "encodeValue isFinite numStr (JObj kvs) =
     map_result (\<lambda>parts. ''{'' @ join_with '','' parts @ ''}'')
       (seq_results (map (prop_result isFinite numStr) (props kvs)))"
  by (simp add: props_def sort_key_map_pair comp_def prop_result_def [abs_def])

lemma encode_plain_ok: "plain_json v \<Longrightarrow> \<exists>s. encodeValue (\<lambda>_. True) numStr v = Inr s"
proof (induction v rule: measure_induct_rule [where f = size])
  case (less v)
  show ?case
  proof (cases v)
    case (JArr vs)
    then have "\<forall>x \<in> set vs. \<exists>s. encodeValue (\<lambda>_. True) numStr x = Inr s" using less jsval_size_arr [of _ vs] by auto
    with JArr show ?thesis by (simp add: map_result_Inr seq_results_map)
  next
    case (JObj kvs)
    then have "\<forall>kv \<in> set (props kvs). \<exists>t. prop_result (\<lambda>_. True) numStr kv = Inr t"
      using less jsval_size_obj [of _ kvs] by (auto simp: set_props prop_result_def map_result_Inr)
    with JObj show ?thesis unfolding JObj encode_visits map_result_Inr seq_results_map by blast
  qed (use less.prems in simp_all)
qed

lemma norm_js_Obj: "norm_js (JObj kvs) = JObj (map (\<lambda>kv. (fst kv, norm_js (snd kv))) (props kvs))"
  by (simp add: props_def sort_key_map_pair)

text \<open>The converse: values with the same normal form have the same text.\<close>

lemma norm_js_undefined: "norm_js v = JUndefined \<longleftrightarrow> v = JUndefined"
  by (cases v) auto

lemma props_norm:
  "props (map (\<lambda>kv. (fst kv, norm_js (snd kv))) (props kvs)) = map (\<lambda>kv. (fst kv, norm_js (snd kv))) (props kvs)"
proof -
  let ?g = "\<lambda>kv. (fst kv, norm_js (snd kv))"
  have id: "filter (\<lambda>kv. snd kv \<noteq> JUndefined) (props kvs) = props kvs"
    by (simp add: filter_id_conv set_props)
  have "filter (\<lambda>kv. snd kv \<noteq> JUndefined) (map ?g (props kvs)) = map ?g (props kvs)"
    by (simp add: filter_map comp_def norm_js_undefined id)
  then have "props (map ?g (props kvs)) = sort_key fst (map ?g (props kvs))"
    unfolding props_def [of "map ?g (props kvs)"] by (rule arg_cong)
  also have "\<dots> = map ?g (sort_key fst (props kvs))" by (rule sort_key_map_pair)
  also have "sort_key fst (props kvs) = props kvs"
    unfolding props_def by (rule sort_key_id_if_sorted) simp
  finally show ?thesis .
qed

lemma encode_norm: "encodeValue isFinite numStr (norm_js v) = encodeValue isFinite numStr v"
proof (induction v rule: measure_induct_rule [where f = size])
  case (less v)
  show ?case
  proof (cases v)
    case (JArr vs)
    then have "map (encodeValue isFinite numStr) (map norm_js vs) = map (encodeValue isFinite numStr) vs"
      using less.IH by (auto dest: jsval_size_arr)
    with JArr show ?thesis by (simp del: map_map)
  next
    case (JObj kvs)
    have "prop_result isFinite numStr (fst kv, norm_js (snd kv)) = prop_result isFinite numStr kv"
      if "kv \<in> set (props kvs)" for kv
      using that JObj less.IH jsval_size_obj [of kv kvs] by (simp add: prop_result_def set_props)
    then have "map (prop_result isFinite numStr) (map (\<lambda>kv. (fst kv, norm_js (snd kv))) (props kvs)) =
        map (prop_result isFinite numStr) (props kvs)" by simp
    then show ?thesis unfolding JObj norm_js_Obj encode_visits props_norm by (rule arg_cong)
  qed simp_all
qed

context number_text
begin

definition enc :: "'n jsval \<Rightarrow> string" where
  "enc v = projr (encodeValue isFinite numStr v)"

definition prop_text :: "string \<times> 'n jsval \<Rightarrow> string" where
  "prop_text kv = json_quote (fst kv) @ '':'' @ enc (snd kv)"

lemma encode_Arr:
  "encodeValue isFinite numStr (JArr vs) = Inr s \<longleftrightarrow>
     (\<forall>v \<in> set vs. \<exists>t. encodeValue isFinite numStr v = Inr t) \<and>
     s = ''['' @ join_with '','' (map enc vs) @ '']''"
  by (auto simp: map_result_Inr seq_results_map enc_def [abs_def])

lemma encode_Obj:
  "encodeValue isFinite numStr (JObj kvs) = Inr s \<longleftrightarrow>
     (\<forall>kv \<in> set (props kvs). \<exists>t. encodeValue isFinite numStr (snd kv) = Inr t) \<and>
     s = ''{'' @ join_with '','' (map prop_text (props kvs)) @ ''}''"
proof -
  let ?f = "prop_result isFinite numStr"
  have ok: "(\<exists>t. ?f kv = Inr t) \<longleftrightarrow> (\<exists>t. encodeValue isFinite numStr (snd kv) = Inr t)" for kv
    by (simp add: prop_result_def result_simps)
  have part: "projr (?f kv) = prop_text kv" if "\<exists>t. encodeValue isFinite numStr (snd kv) = Inr t" for kv
    using that by (auto simp: prop_result_def prop_text_def enc_def map_result_def)
  show ?thesis
  proof (cases "\<forall>kv \<in> set (props kvs). \<exists>t. encodeValue isFinite numStr (snd kv) = Inr t")
    case True
    then have parts: "map (\<lambda>kv. projr (?f kv)) (props kvs) = map prop_text (props kvs)" using part by simp
    show ?thesis unfolding encode_visits map_result_Inr seq_results_map ok parts using True by auto
  next
    case False
    then show ?thesis unfolding encode_visits map_result_Inr seq_results_map ok by auto
  qed
qed

lemma same_start:
  assumes "encodeValue isFinite numStr v = Inr s" and "encodeValue isFinite numStr w = Inr t"
    and "s @ x = t @ y"
  shows "\<exists>c. starts_ok v c \<and> starts_ok w c"
  using encode_starts [OF assms(1)] encode_starts [OF assms(2)] assms(3) by auto

lemma prop_delimited:
  assumes "\<And>kv kv'. kv \<in> A \<Longrightarrow> kv' \<in> B \<Longrightarrow> delimited enc norm_js {snd kv} {snd kv'}"
  shows "delimited prop_text (\<lambda>kv. (fst kv, norm_js (snd kv))) A B"
proof (unfold delimited_def, intro ballI allI impI)
  fix kv kv' x y
  assume k: "kv \<in> A" "kv' \<in> B" and st: "stops x" "stops y" and "prop_text kv @ x = prop_text kv' @ y"
  then have "json_quote (fst kv) @ CHR '':'' # enc (snd kv) @ x = json_quote (fst kv') @ CHR '':'' # enc (snd kv') @ y"
    by (simp add: prop_text_def)
  then have "fst kv = fst kv'" "enc (snd kv) @ x = enc (snd kv') @ y"
    by (auto dest: json_quote_inject)
  with delimitedD [OF assms [OF k] _ _ _ st] show
    "(fst kv, norm_js (snd kv)) = (fst kv', norm_js (snd kv')) \<and> x = y" by simp
qed

definition encodable :: "'n jsval \<Rightarrow> bool" where
  "encodable v \<longleftrightarrow> (\<exists>s. encodeValue isFinite numStr v = Inr s)"

lemma encodable_enc: "encodable v \<Longrightarrow> encodeValue isFinite numStr v = Inr (enc v)"
  by (auto simp: encodable_def enc_def)

lemma encodable_Arr: "encodable (JArr vs) \<longleftrightarrow> (\<forall>v \<in> set vs. encodable v)"
  unfolding encodable_def encode_Arr by blast

lemma encodable_Obj: "encodable (JObj kvs) \<longleftrightarrow> (\<forall>kv \<in> set (props kvs). encodable (snd kv))"
  unfolding encodable_def encode_Obj by blast

lemma enc_Arr: "encodable (JArr vs) \<Longrightarrow> enc (JArr vs) = ''['' @ join_with '','' (map enc vs) @ '']''"
  using encodable_enc [of "JArr vs"] by (simp only: encode_Arr)

lemma enc_Obj:
  "encodable (JObj kvs) \<Longrightarrow> enc (JObj kvs) = ''{'' @ join_with '','' (map prop_text (props kvs)) @ ''}''"
  using encodable_enc [of "JObj kvs"] by (simp only: encode_Obj)

lemma enc_starts: "encodable v \<Longrightarrow> \<exists>c cs. enc v = c # cs \<and> c \<noteq> CHR '']''"
  using encode_starts [OF encodable_enc [of v]]
  by (cases v) (auto simp: num_alphabet_def encodable_def)

lemma arr_delimited:
  assumes "delimited enc norm_js (set vs) (set ws)" and v: "encodable (JArr vs)" and w: "encodable (JArr ws)"
  shows "delimited enc norm_js {JArr vs} {JArr ws}"
proof -
  have "map norm_js vs = map norm_js ws \<and> x = y" if "enc (JArr vs) @ x = enc (JArr ws) @ y" for x y
    using that v w
    by (intro join_inject [OF assms(1), of "CHR '']''"] enc_starts) (auto simp: enc_Arr encodable_Arr)
  then show ?thesis by (auto simp: delimited_def)
qed

lemma obj_delimited:
  assumes "delimited prop_text (\<lambda>kv. (fst kv, norm_js (snd kv))) (set (props kvs)) (set (props lvs))"
    and v: "encodable (JObj kvs)" and w: "encodable (JObj lvs)"
  shows "delimited enc norm_js {JObj kvs} {JObj lvs}"
proof -
  have "map (\<lambda>kv. (fst kv, norm_js (snd kv))) (props kvs) = map (\<lambda>kv. (fst kv, norm_js (snd kv))) (props lvs) \<and> x = y"
    if "enc (JObj kvs) @ x = enc (JObj lvs) @ y" for x y
    using that v w
    by (intro join_inject [OF assms(1), of "CHR ''}''"]) (auto simp: enc_Obj prop_text_def json_quote_def)
  then show ?thesis unfolding delimited_def by (auto simp: norm_js_Obj simp del: norm_js.simps)
qed

fun kind :: "'n jsval \<Rightarrow> nat" where
  "kind JNull = 0"
| "kind (JBool b) = (if b then 1 else 2)"
| "kind (JNum n) = 3"
| "kind (JStr s) = 4"
| "kind (JArr vs) = 5"
| "kind (JObj kvs) = 6"
| "kind _ = 7"

lemma starts_ok_kind: "starts_ok v c \<Longrightarrow> starts_ok w c \<Longrightarrow> kind v = kind w"
  by (cases v; cases w) (simp_all add: num_alphabet_def split: if_splits)

lemma scalar_delimited:
  assumes "encodable v" and "encodable w"
    and "\<nexists>vs ws. v = JArr vs \<and> w = JArr ws" and "\<nexists>kvs lvs. v = JObj kvs \<and> w = JObj lvs"
  shows "delimited enc norm_js {v} {w}"
proof (unfold delimited_def, intro ballI allI impI)
  fix a b x y
  assume "a \<in> {v}" "b \<in> {w}" and st: "stops x" "stops y" and eq: "enc a @ x = enc b @ y"
  then have ab: "a = v" "b = w" by auto
  obtain c where "starts_ok v c" "starts_ok w c"
    using same_start [OF encodable_enc [OF assms(1)] encodable_enc [OF assms(2)] eq [unfolded ab]] by blast
  then have k: "kind v = kind w" by (rule starts_ok_kind)
  show "norm_js a = norm_js b \<and> x = y"
  proof (cases v)
    case (JNum m)
    with k obtain n where "w = JNum n" by (cases w) (auto split: if_splits)
    with JNum show ?thesis
      using assms eq st ab num_delimited [of m n x y] by (auto simp: encodable_def enc_def split: if_splits)
  next
    case (JStr s)
    with k obtain t where "w = JStr t" by (cases w) (auto split: if_splits)
    with JStr show ?thesis using eq ab json_quote_inject [of s x t y] by (auto simp: enc_def)
  next
    case JNull
    with k have "w = JNull" by (cases w) (auto split: if_splits)
    with JNull show ?thesis using eq ab by simp
  next
    case (JBool p)
    with k have "w = JBool p" by (cases w) (auto split: if_splits)
    with JBool show ?thesis using eq ab by simp
  next
    case (JArr vs)
    with k assms(3) show ?thesis by (cases w) (auto split: if_splits)
  next
    case (JObj kvs)
    with k assms(4) show ?thesis by (cases w) (auto split: if_splits)
  qed (use assms(1) in \<open>auto simp: encodable_def\<close>)
qed

lemma enc_delimited:
  assumes "encodable v" and "encodable w"
  shows "delimited enc norm_js {v} {w}"
  using assms
proof (induction v arbitrary: w rule: measure_induct_rule [where f = size])
  case (less v)
  consider (arr) vs ws where "v = JArr vs" "w = JArr ws" | (obj) kvs lvs where "v = JObj kvs" "w = JObj lvs"
    | (other) "\<nexists>vs ws. v = JArr vs \<and> w = JArr ws" "\<nexists>kvs lvs. v = JObj kvs \<and> w = JObj lvs" by blast
  then show ?case
  proof cases
    case arr
    then have "delimited enc norm_js {a} {b}" if "a \<in> set vs" "b \<in> set ws" for a b
      using that less.prems by (intro less.IH) (auto simp: encodable_Arr dest: jsval_size_arr)
    then have "delimited enc norm_js (set vs) (set ws)" by (simp add: delimited_def)
    with arr less.prems show ?thesis by (simp add: arr_delimited)
  next
    case obj
    then have "delimited enc norm_js {snd kv} {snd lv}" if "kv \<in> set (props kvs)" "lv \<in> set (props lvs)" for kv lv
    proof (intro less.IH)
      show "size (snd kv) < size v" using that obj jsval_size_obj [of kv kvs] by (simp add: set_props)
      show "encodable (snd kv)" "encodable (snd lv)"
        using that obj less.prems encodable_Obj by blast+
    qed
    then have "delimited prop_text (\<lambda>kv. (fst kv, norm_js (snd kv))) (set (props kvs)) (set (props lvs))"
      by (rule prop_delimited)
    with obj less.prems show ?thesis by (simp add: obj_delimited)
  next
    case other
    with less.prems show ?thesis by (rule scalar_delimited)
  qed
qed

end

section \<open>Properties\<close>

text \<open>C34: the canonical text determines content: two values that both canonicalize have the same
  canonical text exactly when they are equal up to the order of object keys and to properties set to
  undefined. With a digest that does not collide on the two texts, equal content hashes mean equal
  content.\<close>

theorem canonicalize_exact:
  assumes "canonicalize (\<lambda>_. True) show_int v = Inr s" and "canonicalize (\<lambda>_. True) show_int w = Inr t"
    and "sha256 s = sha256 t \<Longrightarrow> s = t"
  shows "contentHash sha256 (\<lambda>_. True) show_int v = contentHash sha256 (\<lambda>_. True) show_int w \<longleftrightarrow>
    norm_js v = norm_js w"
proof
  assume "contentHash sha256 (\<lambda>_. True) show_int v = contentHash sha256 (\<lambda>_. True) show_int w"
  with assms have "s = t" by (simp add: contentHash_def map_result_def)
  moreover have "intnum.encodable v" "intnum.encodable w" "intnum.enc v = s" "intnum.enc w = t"
    using assms by (auto simp: canonicalize_def intnum.encodable_def intnum.enc_def)
  ultimately show "norm_js v = norm_js w"
    using delimitedD [OF intnum.enc_delimited, of v w v w "[]" "[]"] by (simp add: stops_def)
next
  assume "norm_js v = norm_js w"
  then show "contentHash sha256 (\<lambda>_. True) show_int v = contentHash sha256 (\<lambda>_. True) show_int w"
    unfolding contentHash_def canonicalize_def by (metis encode_norm)
qed

theorem canonicalize_exact_witness:
  "contentHash (\<lambda>s. s) (\<lambda>_. True) show_int (JObj [(''b'', JNum 2), (''a'', JArr [JStr ''x''])]) =
   contentHash (\<lambda>s. s) (\<lambda>_. True) show_int (JObj [(''a'', JArr [JStr ''x'']), (''u'', JUndefined), (''b'', JNum 2)])"
proof -
  let ?t = "[CHR ''{'', CHR 0x22, CHR ''a'', CHR 0x22, CHR '':'', CHR ''['', CHR 0x22, CHR ''x'', CHR 0x22, CHR '']'',
     CHR '','', CHR 0x22, CHR ''b'', CHR 0x22, CHR '':'', CHR ''2'', CHR ''}'']"
  have a: "canonicalize (\<lambda>_. True) show_int (JObj [(''b'', JNum 2), (''a'', JArr [JStr ''x''])]) = Inr ?t"
    by code_simp
  have b: "canonicalize (\<lambda>_. True) show_int
      (JObj [(''a'', JArr [JStr ''x'']), (''u'', JUndefined), (''b'', JNum 2)]) = Inr ?t"
    by code_simp
  have "norm_js (JObj [(''b'', JNum (2 :: int)), (''a'', JArr [JStr ''x''])]) =
      norm_js (JObj [(''a'', JArr [JStr ''x'']), (''u'', JUndefined), (''b'', JNum 2)])"
    by code_simp
  then show ?thesis using canonicalize_exact [OF a b, of "\<lambda>s. s"] by simp
qed

end
