(* ===== verification/Mailbox.thy ===== *)
theory Mailbox
  imports Leases Json_Text "HOL-Library.Multiset"
begin

text \<open>
  The mailbox: the \<^verbatim>\<open>mailbox\<close> table (\<^verbatim>\<open>packages/persistence/src/queries/mailbox.ts\<close>), the primitives
  over it (\<^verbatim>\<open>packages/mailbox/src/mailbox.ts\<close>) and the JSONL files materialized from it
  (\<^verbatim>\<open>packages/mailbox/src/materialize.ts\<close>). The file system is a map from paths to contents; writing
  a temporary file and renaming it is one update of that map. Minted message identifiers and clock
  readings are arguments.
\<close>

section \<open>The mailbox table\<close>

record MailboxRow =
  msgId :: string
  msgSwarmId :: string
  fromAgent :: string
  toAgent :: string
  body :: string
  deliveredAt :: ms
  readAt :: "ms option"

definition insertMessage ::
  "string \<Rightarrow> ms \<Rightarrow> string \<Rightarrow> string \<Rightarrow> string \<Rightarrow> string \<Rightarrow> MailboxRow list \<Rightarrow>
     mailbox_error + MailboxRow \<times> MailboxRow list" where
  "insertMessage newId now swarm frm to txt db =
     (let row = \<lparr>msgId = newId, msgSwarmId = swarm, fromAgent = frm, toAgent = to, body = txt,
                 deliveredAt = now, readAt = None\<rparr>
      in (case tbl_insert msgId row db of
            None \<Rightarrow> Inl SqliteConstraintError
          | Some db' \<Rightarrow> Inr (row, db')))"

text \<open>\<^verbatim>\<open>ORDER BY delivered_at DESC\<close>; rows delivered at the same time come newest insertion first, as the
  descending scan of the table's index yields them.\<close>

definition listInbox :: "string \<Rightarrow> bool \<Rightarrow> MailboxRow list \<Rightarrow> MailboxRow list" where
  "listInbox to unreadOnly db =
     rev (sort_key deliveredAt
       (filter (\<lambda>r. toAgent r = to \<and> (unreadOnly \<longrightarrow> readAt r = None)) db))"

definition persistMarkRead :: "string \<Rightarrow> ms \<Rightarrow> MailboxRow list \<Rightarrow> MailboxRow list" where
  "persistMarkRead i now db = tbl_update msgId i (\<lambda>r. r\<lparr>readAt := Some now\<rparr>) db"

section \<open>Primitives\<close>

text \<open>\<open>mint k\<close> is the identifier and the time of the \<open>k\<close>-th insertion of a call.\<close>

fun broadcast_loop ::
  "(nat \<Rightarrow> string \<times> ms) \<Rightarrow> string \<Rightarrow> string \<Rightarrow> string \<Rightarrow> nat \<Rightarrow> string list \<Rightarrow>
     MailboxRow list \<Rightarrow> MailboxRow list \<Rightarrow> mailbox_error + MailboxRow list \<times> MailboxRow list" where
  "broadcast_loop mint swarm frm txt k [] rows db = Inr (rows, db)"
| "broadcast_loop mint swarm frm txt k (to # tos) rows db =
     (if to = [] then Inl (TypeErr ''broadcast recipient must be a non-empty string'')
      else bind_result (insertMessage (fst (mint k)) (snd (mint k)) swarm frm to txt db)
        (\<lambda>(row, db'). broadcast_loop mint swarm frm txt (Suc k) tos (rows @ [row]) db'))"

definition broadcast ::
  "(nat \<Rightarrow> string \<times> ms) \<Rightarrow> AuthContext \<Rightarrow> string \<Rightarrow> string list \<Rightarrow> string option \<Rightarrow> MailboxRow list \<Rightarrow>
     mailbox_error + MailboxRow list \<times> MailboxRow list" where
  "broadcast mint ctx txt toAgents swarmOverride db =
     bind_result (assertAuthContext ctx) (\<lambda>_.
       if toAgents = [] then Inr ([], db)
       else broadcast_loop mint (case swarmOverride of None \<Rightarrow> ctx_swarmId ctx | Some s \<Rightarrow> s)
              (ctx_agent ctx) txt 0 toAgents [] db)"

definition whisper ::
  "string \<Rightarrow> ms \<Rightarrow> AuthContext \<Rightarrow> string \<Rightarrow> string \<Rightarrow> MailboxRow list \<Rightarrow>
     mailbox_error + MailboxRow \<times> MailboxRow list" where
  "whisper newId now ctx to txt db =
     bind_result (assertAuthContext ctx) (\<lambda>_.
     bind_result (guard_result (to \<noteq> []) (TypeErr ''whisper toAgent must be a non-empty string'')) (\<lambda>_.
       insertMessage newId now (ctx_swarmId ctx) (ctx_agent ctx) to txt db))"

definition read :: "AuthContext \<Rightarrow> bool \<Rightarrow> MailboxRow list \<Rightarrow> mailbox_error + MailboxRow list" where
  "read ctx unreadOnly db =
     bind_result (assertAuthContext ctx) (\<lambda>_. Inr (listInbox (ctx_agent ctx) unreadOnly db))"

definition markRead ::
  "ms \<Rightarrow> AuthContext \<Rightarrow> string \<Rightarrow> MailboxRow list \<Rightarrow> mailbox_error + MailboxRow list" where
  "markRead now ctx i db =
     bind_result (assertAuthContext ctx) (\<lambda>_.
     bind_result (guard_result (i \<noteq> []) (TypeErr ''markRead msgId must be a non-empty string'')) (\<lambda>_.
       let refuse = Inl (MessageOwnershipError
             (''Message '' @ i @ '' is not addressed to '' @ ctx_agent ctx @ '' (or does not exist)''))
       in (case tbl_get msgId i db of
             None \<Rightarrow> refuse
           | Some row \<Rightarrow> if toAgent row \<noteq> ctx_agent ctx then refuse else Inr (persistMarkRead i now db))))"

section \<open>Materialized files\<close>

text \<open>Node's \<^verbatim>\<open>path.join\<close> on POSIX: join with slashes, then resolve empty, \<open>.\<close> and \<open>..\<close> segments.\<close>

definition path_join :: "string list \<Rightarrow> string" where
  "path_join parts =
     (let joined = join_with ''/'' (filter (\<lambda>p. p \<noteq> []) parts);
          absolute = (joined \<noteq> [] \<and> hd joined = CHR ''/'');
          trailing = (joined \<noteq> [] \<and> last joined = CHR ''/'');
          inside = join_with ''/'' (path_resolve absolute [] (split_on (CHR ''/'') joined))
      in if joined = [] then ''.''
         else if inside = [] then (if absolute then ''/'' else if trailing then ''./'' else ''.'')
         else (if absolute then ''/'' else []) @ inside @ (if trailing then ''/'' else []))"

definition materializePath :: "string \<Rightarrow> string \<Rightarrow> string" where
  "materializePath baseDir agt = path_join [baseDir, ''.shamu'', ''mailbox'', agt @ ''.jsonl'']"

definition json_field :: "string \<Rightarrow> string \<Rightarrow> string" where
  "json_field k t = json_quote k @ '':'' @ t"

definition serializeRow :: "MailboxRow \<Rightarrow> string" where
  "serializeRow row =
     ''{'' @ json_field ''msgId'' (json_quote (msgId row)) @ '','' @
     json_field ''swarmId'' (json_quote (msgSwarmId row)) @ '','' @
     json_field ''fromAgent'' (json_quote (fromAgent row)) @ '','' @
     json_field ''toAgent'' (json_quote (toAgent row)) @ '','' @
     json_field ''body'' (json_quote (body row)) @ '','' @
     json_field ''deliveredAt'' (show_int (deliveredAt row)) @ '','' @
     json_field ''readAt'' (case readAt row of None \<Rightarrow> ''null'' | Some t \<Rightarrow> show_int t) @ ''}'' @
     [CHR 0x0A]"

type_synonym file_system = "string \<Rightarrow> string option"

definition appendToMaterializedLog :: "string \<Rightarrow> MailboxRow \<Rightarrow> file_system \<Rightarrow> file_system" where
  "appendToMaterializedLog baseDir row fs =
     (let path = materializePath baseDir (toAgent row);
          existing = (case fs path of None \<Rightarrow> [] | Some c \<Rightarrow> c)
      in fs(path \<mapsto> existing @ serializeRow row))"

text \<open>\<^verbatim>\<open>ORDER BY delivered_at, msg_id\<close>.\<close>

definition delivery_order :: "MailboxRow list \<Rightarrow> MailboxRow list" where
  "delivery_order rows = sort_key deliveredAt (sort_key msgId rows)"

text \<open>Grouping into a JavaScript Map: keys in order of first appearance.\<close>

fun group_by_agent :: "MailboxRow list \<Rightarrow> (string \<times> MailboxRow list) list \<Rightarrow> (string \<times> MailboxRow list) list" where
  "group_by_agent [] m = m"
| "group_by_agent (r # rs) m =
     group_by_agent rs
       (case map_of m (toAgent r) of
          None \<Rightarrow> m @ [(toAgent r, [r])]
        | Some rows \<Rightarrow> map (\<lambda>e. if fst e = toAgent r then (fst e, snd e @ [r]) else e) m)"

definition reconcile :: "string \<Rightarrow> MailboxRow list \<Rightarrow> file_system \<Rightarrow> file_system" where
  "reconcile baseDir db fs =
     fold (\<lambda>(agt, rows) f. f(materializePath baseDir agt \<mapsto> concat (map serializeRow rows)))
       (group_by_agent (delivery_order db) []) fs"

definition fileMatchesDb :: "string \<Rightarrow> string \<Rightarrow> MailboxRow list \<Rightarrow> file_system \<Rightarrow> bool" where
  "fileMatchesDb baseDir agt db fs =
     ((case fs (materializePath baseDir agt) of None \<Rightarrow> [] | Some c \<Rightarrow> c) =
      concat (map serializeRow (delivery_order (filter (\<lambda>r. toAgent r = agt) db))))"

section \<open>Facts about the primitives\<close>

lemma insertMessage_Inr:
  assumes "insertMessage newId now swarm frm to txt db = Inr (row, db')"
  shows "db' = db @ [row]" and "msgId row = newId" and "fromAgent row = frm" and "toAgent row = to"
    and "body row = txt" and "readAt row = None" and "deliveredAt row = now" and "msgSwarmId row = swarm"
    and "newId \<notin> msgId ` set db"
  using assms by (auto simp: insertMessage_def Let_def tbl_insert_def split: if_splits)

text \<open>What one call of \<^const>\<open>broadcast\<close> inserts.\<close>

definition message_row ::
  "(nat \<Rightarrow> string \<times> ms) \<Rightarrow> string \<Rightarrow> string \<Rightarrow> string \<Rightarrow> string list \<Rightarrow> nat \<Rightarrow> MailboxRow" where
  "message_row mint swarm frm txt tos i =
     \<lparr>msgId = fst (mint i), msgSwarmId = swarm, fromAgent = frm, toAgent = tos ! i, body = txt,
      deliveredAt = snd (mint i), readAt = None\<rparr>"

lemma broadcast_loop_iff:
  "broadcast_loop mint swarm frm txt k tos rows db = Inr (rows', db') \<longleftrightarrow>
     [] \<notin> set tos \<and> distinct (map (\<lambda>i. fst (mint (k + i))) [0..<length tos]) \<and>
     (\<forall>i < length tos. fst (mint (k + i)) \<notin> msgId ` set db) \<and>
     rows' = rows @ map (message_row (\<lambda>i. mint (k + i)) swarm frm txt tos) [0..<length tos] \<and>
     db' = db @ map (message_row (\<lambda>i. mint (k + i)) swarm frm txt tos) [0..<length tos]"
proof (induction tos arbitrary: k rows db)
  case Nil
  show ?case by auto
next
  case (Cons to tos)
  let ?row = "message_row (\<lambda>i. mint (k + i)) swarm frm txt (to # tos) 0"
  have shift: "[0..<length (to # tos)] = 0 # map Suc [0..<length tos]"
    by (simp add: upt_conv_Cons map_Suc_upt del: upt_Suc)
  have rows: "map (message_row (\<lambda>i. mint (k + i)) swarm frm txt (to # tos)) [0..<length (to # tos)] =
      ?row # map (message_row (\<lambda>i. mint (Suc k + i)) swarm frm txt tos) [0..<length tos]"
    unfolding shift by (simp add: message_row_def)
  have ids: "map (\<lambda>i. fst (mint (k + i))) [0..<length (to # tos)] =
      fst (mint k) # map (\<lambda>i. fst (mint (Suc k + i))) [0..<length tos]"
    unfolding shift by simp
  have step: "broadcast_loop mint swarm frm txt k (to # tos) rows db = Inr (rows', db') \<longleftrightarrow>
      to \<noteq> [] \<and> fst (mint k) \<notin> msgId ` set db \<and>
      broadcast_loop mint swarm frm txt (Suc k) tos (rows @ [?row]) (db @ [?row]) = Inr (rows', db')"
    by (auto simp: insertMessage_def tbl_insert_def message_row_def Let_def)
  have all: "(\<forall>i < length (to # tos). P i) \<longleftrightarrow> P 0 \<and> (\<forall>i < length tos. P (Suc i))" for P
    by (auto simp: less_Suc_eq_0_disj)
  have fresh: "(\<forall>i < length tos. fst (mint (Suc k + i)) \<notin> msgId ` set (db @ [?row])) \<longleftrightarrow>
      (\<forall>i < length tos. fst (mint (Suc k + i)) \<notin> msgId ` set db) \<and>
      fst (mint k) \<notin> set (map (\<lambda>i. fst (mint (Suc k + i))) [0..<length tos])"
  proof -
    have "msgId ` set (db @ [?row]) = insert (fst (mint k)) (msgId ` set db)" by (simp add: message_row_def)
    then show ?thesis by (simp only: insert_iff de_Morgan_disj) (auto simp: image_iff Ball_def)
  qed
  have at0: "(\<forall>i < length tos. fst (mint (k + Suc i)) \<notin> A) \<longleftrightarrow> (\<forall>i < length tos. fst (mint (Suc k + i)) \<notin> A)" for A
    by simp
  show ?case unfolding step rows ids all Cons.IH fresh at0 append_assoc append_Cons append_Nil
    by (simp only: list.set distinct.simps insert_iff de_Morgan_disj add_0_right conj_ac) metis
qed

lemma filter_mark:
  assumes "\<And>r. P (f r) \<Longrightarrow> f r = r"
  shows "filter P (map f xs) = filter (\<lambda>r. P (f r)) xs"
  using assms by (induction xs) auto

lemma listInbox_marked:
  "listInbox a True (persistMarkRead i now db) = filter (\<lambda>r. msgId r \<noteq> i) (listInbox a True db)"
proof -
  let ?f = "\<lambda>r. if msgId r = i then r\<lparr>readAt := Some now\<rparr> else r"
  let ?P = "\<lambda>r. toAgent r = a \<and> readAt r = None"
  have "filter ?P (map ?f db) = filter (\<lambda>r. ?P (?f r)) db" by (rule filter_mark) (auto split: if_splits)
  also have "\<dots> = filter (\<lambda>r. msgId r \<noteq> i) (filter ?P db)" by (auto intro: filter_cong)
  finally show ?thesis
    by (simp add: listInbox_def persistMarkRead_def tbl_update_def rev_filter [symmetric] filter_sort del: filter_filter)
qed

lemma filter_map_other:
  "(\<And>x. x \<in> set xs \<Longrightarrow> f x = x \<or> \<not> P x \<and> \<not> P (f x)) \<Longrightarrow> filter P (map f xs) = filter P xs"
proof (induction xs)
  case (Cons x xs)
  then have "filter P (map f xs) = filter P xs" by simp
  moreover have "f x = x \<or> \<not> P x \<and> \<not> P (f x)" using Cons.prems by simp
  ultimately show ?case by auto
qed simp

lemma listInbox_other:
  assumes "tbl_wf msgId db" and "r \<in> set db" and "toAgent r \<noteq> b"
  shows "listInbox b u (persistMarkRead (msgId r) now db) = listInbox b u db"
proof -
  have same: "s = r" if "s \<in> set db" "msgId s = msgId r" for s
    using assms(1,2) that unfolding tbl_wf_def distinct_map by (blast dest: inj_onD)
  have "filter (\<lambda>s. toAgent s = b \<and> (u \<longrightarrow> readAt s = None)) (persistMarkRead (msgId r) now db) =
      filter (\<lambda>s. toAgent s = b \<and> (u \<longrightarrow> readAt s = None)) db"
    unfolding persistMarkRead_def tbl_update_def
  proof (rule filter_map_other)
    fix x assume "x \<in> set db"
    with same [of x] assms(3) show "(if msgId x = msgId r then x\<lparr>readAt := Some now\<rparr> else x) = x \<or>
        \<not> (toAgent x = b \<and> (u \<longrightarrow> readAt x = None)) \<and>
        \<not> (toAgent (if msgId x = msgId r then x\<lparr>readAt := Some now\<rparr> else x) = b \<and>
           (u \<longrightarrow> readAt (if msgId x = msgId r then x\<lparr>readAt := Some now\<rparr> else x) = None))"
      by (cases "msgId x = msgId r") simp_all
  qed
  then show ?thesis by (simp add: listInbox_def)
qed

section \<open>Facts about the files\<close>

lemma split_on_snoc: "c \<notin> set s \<Longrightarrow> split_on c (xs @ c # s) = split_on c xs @ [s]"
proof (induction xs)
  case Nil
  then show ?case by (simp add: split_on_no_sep)
next
  case (Cons x xs)
  then show ?case by (auto split: list.splits)
qed

text \<open>Every agent name without a slash has a file of its own.\<close>

definition clean_agent :: "string \<Rightarrow> bool" where
  "clean_agent a \<longleftrightarrow> CHR ''/'' \<notin> set a"

lemma materializePath_split:
  obtains pre where "\<And>a. clean_agent a \<Longrightarrow> materializePath baseDir a = pre @ a @ ''.jsonl''"
proof
  let ?dirs = "filter (\<lambda>p. p \<noteq> []) [baseDir, ''.shamu'', ''mailbox'']"
  let ?P = "join_with ''/'' ?dirs"
  let ?R = "path_resolve (hd ?P = CHR ''/'') [] (split_on (CHR ''/'') ?P)"
  fix a assume a: "clean_agent a"
  let ?seg = "a @ ''.jsonl''"
  have P: "?P \<noteq> []" by simp
  have joined: "join_with ''/'' (filter (\<lambda>p. p \<noteq> []) [baseDir, ''.shamu'', ''mailbox'', ?seg]) = ?P @ ''/'' @ ?seg"
    by simp
  have hd: "hd (?P @ ''/'' @ ?seg) = hd ?P" using P by (rule hd_append2)
  have last: "last (?P @ ''/'' @ ?seg) = CHR ''l''" by simp
  have "split_on (CHR ''/'') (?P @ ''/'' @ ?seg) = split_on (CHR ''/'') ?P @ [?seg]"
    using a split_on_snoc [of "CHR ''/''" ?seg ?P] by (simp add: clean_agent_def)
  moreover have "?seg \<noteq> []" "?seg \<noteq> ''.''" "?seg \<noteq> ''..''"
    by (auto dest: arg_cong [where f = length])
  ultimately have "path_resolve (hd ?P = CHR ''/'') [] (split_on (CHR ''/'') (?P @ ''/'' @ ?seg)) = ?R @ [?seg]"
    by (simp only: path_resolve_snoc not_False_eq_True)
  then show "materializePath baseDir a =
      ((if hd ?P = CHR ''/'' then ''/'' else []) @ (if ?R = [] then [] else join_with ''/'' ?R @ ''/'')) @ ?seg"
    unfolding materializePath_def path_join_def joined Let_def hd last
    by (simp add: join_with_snoc del: filter.simps)
qed

lemma materializePath_inject:
  assumes "clean_agent a" and "clean_agent b"
  shows "materializePath baseDir a = materializePath baseDir b \<longleftrightarrow> a = b"
proof -
  obtain pre where "\<And>a. clean_agent a \<Longrightarrow> materializePath baseDir a = pre @ a @ ''.jsonl''"
    by (rule materializePath_split) blast
  with assms show ?thesis by simp
qed

lemma map_of_append_key:
  "map_of (map (\<lambda>e. if fst e = k then (fst e, snd e @ [r]) else e) m) a =
     (if a = k then map_option (\<lambda>rows. rows @ [r]) (map_of m a) else map_of m a)"
  by (induction m) auto

lemma keys_append_key: "map fst (map (\<lambda>e. if fst e = k then (fst e, snd e @ [r]) else e) m) = map fst m"
  by simp

lemma map_of_group:
  "map_of (group_by_agent rs m) a =
     (case map_of m a of
        None \<Rightarrow> (if filter (\<lambda>r. toAgent r = a) rs = [] then None else Some (filter (\<lambda>r. toAgent r = a) rs))
      | Some rows \<Rightarrow> Some (rows @ filter (\<lambda>r. toAgent r = a) rs))"
  by (induction rs arbitrary: m) (auto simp: map_of_append_key split: option.splits)

lemma distinct_group: "distinct (map fst m) \<Longrightarrow> distinct (map fst (group_by_agent rs m))"
proof (induction rs arbitrary: m)
  case (Cons r rs)
  then show ?case by (auto simp: map_of_eq_None_iff keys_append_key simp del: map_map split: option.splits)
qed simp

lemma keys_group: "fst ` set (group_by_agent rs m) = fst ` set m \<union> toAgent ` set rs"
proof (intro set_eqI)
  fix a
  have "a \<in> fst ` set (group_by_agent rs m) \<longleftrightarrow> map_of (group_by_agent rs m) a \<noteq> None"
    by (simp add: map_of_eq_None_iff)
  also have "\<dots> \<longleftrightarrow> a \<in> fst ` set m \<union> toAgent ` set rs"
    by (auto simp: map_of_group filter_empty_conv map_of_eq_None_iff [symmetric] split: option.splits)
  finally show "a \<in> fst ` set (group_by_agent rs m) \<longleftrightarrow> a \<in> fst ` set m \<union> toAgent ` set rs" .
qed

lemma fold_write:
  assumes "distinct (map fst al)" and "inj_on path (insert a (fst ` set al))"
  shows "fold (\<lambda>(k, v) f. f(path k \<mapsto> text v)) al fs (path a) =
    (case map_of al a of None \<Rightarrow> fs (path a) | Some v \<Rightarrow> Some (text v))"
  using assms
proof (induction al arbitrary: fs)
  case (Cons e al)
  obtain k v where e: "e = (k, v)" by (cases e)
  have "inj_on path (insert a (fst ` set al))" using Cons.prems(2) by (rule inj_on_subset) auto
  moreover have "path a = path k \<longleftrightarrow> a = k" using Cons.prems(2) e by (auto dest: inj_onD)
  moreover have "map_of al k = None" using Cons.prems(1) e by (simp add: map_of_eq_None_iff)
  ultimately show ?case using Cons.IH Cons.prems(1) e by (auto split: option.splits)
qed simp


lemma set_delivery_order [simp]: "set (delivery_order rows) = set rows"
  by (simp add: delivery_order_def)

lemma filter_delivery_order: "filter P (delivery_order rows) = delivery_order (filter P rows)"
  by (simp add: delivery_order_def filter_sort)

lemma reconcile_file:
  assumes "\<And>r. r \<in> set db \<Longrightarrow> clean_agent (toAgent r)" and "clean_agent a"
  shows "reconcile baseDir db fs (materializePath baseDir a) =
    (if a \<in> toAgent ` set db
     then Some (concat (map serializeRow (delivery_order (filter (\<lambda>r. toAgent r = a) db))))
     else fs (materializePath baseDir a))"
proof -
  let ?al = "group_by_agent (delivery_order db) []"
  have "inj_on (materializePath baseDir) (insert a (fst ` set ?al))"
    using assms by (auto simp: inj_on_def keys_group materializePath_inject)
  then have "reconcile baseDir db fs (materializePath baseDir a) =
      (case map_of ?al a of None \<Rightarrow> fs (materializePath baseDir a)
       | Some v \<Rightarrow> Some (concat (map serializeRow v)))"
    unfolding reconcile_def by (intro fold_write distinct_group) simp_all
  moreover have "filter (\<lambda>r. toAgent r = a) (delivery_order db) = [] \<longleftrightarrow> a \<notin> toAgent ` set db"
    by (auto simp: filter_empty_conv)
  ultimately show ?thesis by (simp add: map_of_group filter_delivery_order)
qed


text \<open>The text of a row is self-delimiting, so a file determines the rows it was written from.\<close>

lemma show_int_inject_before:
  assumes "show_int i @ CHR '','' # x = show_int j @ CHR '','' # y"
  shows "i = j \<and> x = y"
  using intnum.num_delimited [where a = i and b = j and x = "CHR '','' # x" and y = "CHR '','' # y"] assms by (auto simp: stops_def)

lemma readAt_inject:
  assumes "(case s of None \<Rightarrow> ''null'' | Some t \<Rightarrow> show_int t) @ CHR ''}'' # x =
    (case s' of None \<Rightarrow> ''null'' | Some t \<Rightarrow> show_int t) @ CHR ''}'' # y"
  shows "s = s' \<and> x = y"
proof -
  have "show_int i @ u \<noteq> CHR ''n'' # v" for i u v
  proof
    assume eq: "show_int i @ u = CHR ''n'' # v"
    have "show_int i \<noteq> []" by (simp add: show_int_def)
    then have "hd (show_int i) = CHR ''n''" using eq by (metis hd_append2 list.sel(1))
    moreover have "hd (show_nat n) \<noteq> CHR ''n''" for n
      using show_nat_digits [of "hd (show_nat n)" n] by auto
    ultimately show False by (simp add: show_int_def split: if_splits)
  qed
  moreover from this have "CHR ''n'' # v \<noteq> show_int i @ u" for i u v by metis
  moreover have "i = j \<and> x = y" if "show_int i @ CHR ''}'' # x = show_int j @ CHR ''}'' # y" for i j
    using intnum.num_delimited [where a = i and b = j and x = "CHR ''}'' # x" and y = "CHR ''}'' # y"] that by (auto simp: stops_def)
  ultimately show ?thesis using assms by (auto split: option.splits)
qed

lemma serializeRow_inject:
  assumes "serializeRow r @ x = serializeRow s @ y"
  shows "r = s \<and> x = y"
proof -
  have fld: "t @ u = t' @ u'" if "json_field k t @ u = json_field k t' @ u'" for k t u t' u'
    using that by (simp add: json_field_def)
  show ?thesis
    using assms unfolding serializeRow_def append_assoc
    by (cases r; cases s) (simp, drule fld, drule json_quote_inject, elim conjE, simp,
        drule fld, drule json_quote_inject, elim conjE, simp, drule fld, drule json_quote_inject, elim conjE, simp,
        drule fld, drule json_quote_inject, elim conjE, simp, drule fld, drule json_quote_inject, elim conjE, simp,
        drule fld, drule show_int_inject_before, elim conjE, simp, drule fld, drule readAt_inject, simp)
qed

lemma serialized_inject:
  assumes "concat (map serializeRow rs) @ x = concat (map serializeRow ss)" and "length rs = length ss"
  shows "rs = ss \<and> x = []"
  using assms(2,1)
proof (induction rs ss rule: list_induct2)
  case (Cons r rs s ss)
  from Cons.prems have "serializeRow r @ concat (map serializeRow rs) @ x = serializeRow s @ concat (map serializeRow ss)"
    by simp
  then show ?case using Cons.IH by (auto dest: serializeRow_inject)
qed simp

lemma sort_key_snoc:
  assumes "\<And>x. x \<in> set xs \<Longrightarrow> f x \<le> f r"
  shows "sort_key f (xs @ [r]) = sort_key f xs @ [r]"
proof (rule properties_for_sort_key)
  fix k
  show "filter (\<lambda>x. f k = f x) (sort_key f xs @ [r]) = filter (\<lambda>x. f k = f x) (xs @ [r])"
    using sort_key_stable [of f "f k" xs] by (simp add: eq_commute)
qed (use assms in \<open>auto simp: sorted_append\<close>)

lemma delivery_order_snoc:
  assumes "\<And>x. x \<in> set xs \<Longrightarrow>
    deliveredAt x < deliveredAt r \<or> deliveredAt x = deliveredAt r \<and> msgId x \<le> msgId r"
  shows "delivery_order (xs @ [r]) = delivery_order xs @ [r]"
  unfolding delivery_order_def
proof (rule properties_for_sort_key)
  fix k :: MailboxRow
  let ?P = "\<lambda>x. deliveredAt k = deliveredAt x"
  have le: "deliveredAt x \<le> deliveredAt r" if "x \<in> set xs" for x using assms [OF that] by auto
  have "sort_key msgId (filter ?P (xs @ [r])) =
      (if ?P r then sort_key msgId (filter ?P xs) @ [r] else sort_key msgId (filter ?P xs))"
  proof (cases "?P r")
    case True
    have "sort_key msgId (filter ?P xs @ [r]) = sort_key msgId (filter ?P xs) @ [r]"
    proof (rule sort_key_snoc)
      fix x assume "x \<in> set (filter ?P xs)"
      then show "msgId x \<le> msgId r" using assms [of x] True by auto
    qed
    with True show ?thesis by simp
  qed simp
  then show "filter ?P (sort_key deliveredAt (sort_key msgId xs) @ [r]) = filter ?P (sort_key msgId (xs @ [r]))"
  proof -
    have stable: "filter ?P (sort_key deliveredAt ys) = filter ?P ys" for ys
      using sort_key_stable [of deliveredAt "deliveredAt k" ys] by (simp only: eq_commute)
    assume "sort_key msgId (filter ?P (xs @ [r])) =
      (if ?P r then sort_key msgId (filter ?P xs) @ [r] else sort_key msgId (filter ?P xs))"
    then show ?thesis
      by (simp only: filter_append stable) (simp add: filter_sort split: if_splits)
  qed
next
  show "sorted (map deliveredAt (sort_key deliveredAt (sort_key msgId xs) @ [r]))"
    using assms by (auto simp: sorted_append le_less)
qed simp

section \<open>Properties\<close>

text \<open>A broadcast succeeds exactly when the caller is authenticated, no recipient is empty and the
  minted identifiers are new; it then inserts one unread row per recipient, in order, whose sender is
  the authenticated agent, and returns those rows. In every other case it inserts nothing.\<close>

theorem broadcast_exact:
  "broadcast mint ctx txt tos ov db = Inr (rows, db') \<longleftrightarrow>
     assertAuthContext ctx = Inr () \<and> [] \<notin> set tos \<and>
     distinct (map (\<lambda>i. fst (mint i)) [0..<length tos]) \<and>
     (\<forall>i < length tos. fst (mint i) \<notin> msgId ` set db) \<and>
     rows = map (message_row mint (case ov of None \<Rightarrow> ctx_swarmId ctx | Some s \<Rightarrow> s) (ctx_agent ctx) txt tos) [0..<length tos] \<and>
     db' = db @ rows"
proof -
  have "broadcast mint ctx txt tos ov db = Inr (rows, db') \<longleftrightarrow> assertAuthContext ctx = Inr () \<and>
      broadcast_loop mint (case ov of None \<Rightarrow> ctx_swarmId ctx | Some s \<Rightarrow> s) (ctx_agent ctx) txt 0 tos [] db = Inr (rows, db')"
    by (auto simp: broadcast_def result_simps)
  then show ?thesis by (auto simp: broadcast_loop_iff)
qed

theorem broadcast_exact_witness:
  "\<exists>rows db'. broadcast (\<lambda>i. (''m'' @ show_nat i, 5)) ctx_a ''hi'' [''bob'', ''carol''] None [] = Inr (rows, db') \<and>
     map toAgent db' = [''bob'', ''carol'']"
proof -
  have "show_nat 0 \<noteq> show_nat 1" by simp
  then show ?thesis
    by (intro exI conjI, subst broadcast_exact)
      (auto simp: ctx_a_def assertAuthContext_def message_row_def upt_rec less_Suc_eq)
qed

text \<open>Only the addressee can mark a message as read; the message then leaves the addressee's
  unread inbox, the order of the others is kept, and no other inbox changes. A message addressed to
  someone else and a message that does not exist are refused with the same error.\<close>

theorem markRead_inbox:
  assumes "tbl_wf msgId db" and "assertAuthContext ctx = Inr ()" and "i \<noteq> []"
  shows "case markRead now ctx i db of
      Inl e \<Rightarrow> (\<forall>r \<in> set db. msgId r = i \<longrightarrow> toAgent r \<noteq> ctx_agent ctx) \<and>
        e = MessageOwnershipError
          (''Message '' @ i @ '' is not addressed to '' @ ctx_agent ctx @ '' (or does not exist)'')
    | Inr db' \<Rightarrow> (\<exists>r \<in> set db. msgId r = i \<and> toAgent r = ctx_agent ctx) \<and> tbl_wf msgId db' \<and>
        read ctx True db' = Inr (filter (\<lambda>r. msgId r \<noteq> i) (listInbox (ctx_agent ctx) True db)) \<and>
        (\<forall>b u. b \<noteq> ctx_agent ctx \<longrightarrow> listInbox b u db' = listInbox b u db)"
proof (cases "\<exists>r \<in> set db. msgId r = i \<and> toAgent r = ctx_agent ctx")
  case True
  then obtain r where r: "r \<in> set db" "msgId r = i" "toAgent r = ctx_agent ctx" by blast
  then have "markRead now ctx i db = Inr (persistMarkRead i now db)"
    using assms tbl_get_wf [OF assms(1), of i r] by (simp add: markRead_def guard_result_def Let_def)
  moreover have "tbl_wf msgId (persistMarkRead i now db)"
    using assms(1) by (simp add: persistMarkRead_def tbl_wf_update)
  ultimately show ?thesis
    using r assms(2) listInbox_marked [of "ctx_agent ctx" i now db] listInbox_other [OF assms(1) r(1)]
    by (auto simp: read_def)
next
  case False
  then have "tbl_get msgId i db = None \<or> (\<exists>r. tbl_get msgId i db = Some r \<and> toAgent r \<noteq> ctx_agent ctx)"
    using tbl_get_Some [of msgId i db] by (cases "tbl_get msgId i db") blast+
  with assms have "markRead now ctx i db = Inl (MessageOwnershipError
      (''Message '' @ i @ '' is not addressed to '' @ ctx_agent ctx @ '' (or does not exist)''))"
    by (auto simp: markRead_def guard_result_def Let_def)
  with False show ?thesis by simp
qed

text \<open>Two messages to bob, for the witnesses.\<close>

definition two_messages :: "MailboxRow list" where
  "two_messages =
     [\<lparr>msgId = ''m1'', msgSwarmId = ''sw'', fromAgent = ''alice'', toAgent = ''bob'', body = ''one'',
       deliveredAt = 1, readAt = None\<rparr>,
      \<lparr>msgId = ''m2'', msgSwarmId = ''sw'', fromAgent = ''alice'', toAgent = ''bob'', body = ''two'',
       deliveredAt = 2, readAt = None\<rparr>]"

lemma two_messages_file:
  "reconcile ''/repo'' two_messages fs (materializePath ''/repo'' ''bob'') =
     Some (concat (map serializeRow (delivery_order (filter (\<lambda>r. toAgent r = ''bob'') two_messages))))"
  by (subst reconcile_file) (auto simp: two_messages_def clean_agent_def)

lemma two_messages_match: "fileMatchesDb ''/repo'' ''bob'' two_messages (reconcile ''/repo'' two_messages fs)"
  by (simp add: fileMatchesDb_def two_messages_file)

theorem markRead_inbox_witness:
  "\<exists>db'. markRead 9 ctx_b ''m1'' two_messages = Inr db' \<and> read ctx_b True db' = Inr [two_messages ! 1]"
proof -
  have ok: "tbl_wf msgId two_messages" "assertAuthContext ctx_b = Inr ()" "''m1'' \<noteq> []"
    by (simp_all add: tbl_wf_def two_messages_def assertAuthContext_def ctx_b_def)
  have "filter (\<lambda>r. msgId r \<noteq> ''m1'') (listInbox (ctx_agent ctx_b) True two_messages) = [two_messages ! 1]"
    by (simp add: listInbox_def two_messages_def ctx_b_def)
  moreover have "\<exists>r \<in> set two_messages. msgId r = ''m1'' \<and> toAgent r = ctx_agent ctx_b"
    by (simp add: two_messages_def ctx_b_def)
  ultimately show ?thesis using markRead_inbox [OF ok, of 9] by (auto split: sum.splits)
qed



text \<open>Appending a freshly whispered message keeps the recipient's file equal to the recipient's
  rows, provided no stored message of the recipient is ordered after it (a later clock reading, or the
  same one and a larger identifier); the files of the other agents keep matching too.\<close>

theorem append_keeps_match:
  assumes "whisper newId now ctx a txt db = Inr (row, db')"
    and "\<forall>r \<in> set db. toAgent r = a \<longrightarrow> deliveredAt r < now \<or> deliveredAt r = now \<and> msgId r \<le> newId"
    and "clean_agent a" and "clean_agent b" and "fileMatchesDb baseDir b db fs"
  shows "fileMatchesDb baseDir b db' (appendToMaterializedLog baseDir row fs)"
proof -
  have ins: "insertMessage newId now (ctx_swarmId ctx) (ctx_agent ctx) a txt db = Inr (row, db')"
    using assms(1) by (simp add: whisper_def result_simps)
  note row = insertMessage_Inr [OF ins]
  show ?thesis
  proof (cases "b = a")
    case True
    have "delivery_order (filter (\<lambda>r. toAgent r = a) db @ [row]) = delivery_order (filter (\<lambda>r. toAgent r = a) db) @ [row]"
      using assms(2) row by (intro delivery_order_snoc) auto
    with True assms(5) row show ?thesis
      by (simp add: fileMatchesDb_def appendToMaterializedLog_def Let_def)
  next
    case False
    with assms row show ?thesis
      by (simp add: fileMatchesDb_def appendToMaterializedLog_def Let_def materializePath_inject)
  qed
qed

theorem append_keeps_match_witness:
  "\<exists>row db'. whisper ''m3'' 7 ctx_a ''bob'' ''three'' two_messages = Inr (row, db') \<and>
     fileMatchesDb ''/repo'' ''bob'' db'
       (appendToMaterializedLog ''/repo'' row (reconcile ''/repo'' two_messages Map.empty))"
proof -
  obtain row db' where w: "whisper ''m3'' 7 ctx_a ''bob'' ''three'' two_messages = Inr (row, db')"
    by (auto simp: whisper_def insertMessage_def tbl_insert_def two_messages_def ctx_a_def
        assertAuthContext_def guard_result_def Let_def)
  have "\<forall>r \<in> set two_messages. toAgent r = ''bob'' \<longrightarrow>
      deliveredAt r < 7 \<or> deliveredAt r = 7 \<and> msgId r \<le> ''m3''" by (simp add: two_messages_def)
  moreover have "clean_agent ''bob''" by (simp add: clean_agent_def)
  ultimately show ?thesis using w append_keeps_match [OF w _ _ _ two_messages_match] by blast
qed

text \<open>Marking an unread message as read makes the recipient's matching file diverge from the table:
  the file is no longer even a prefix of the serialized rows, because the line of the message still
  says it is unread and nothing rewrites it before the next reconciliation.\<close>

theorem markRead_diverges:
  assumes "markRead now ctx i db = Inr db'" and "r \<in> set db" and "msgId r = i" and "readAt r = None"
    and "toAgent r = ctx_agent ctx" and "fs (materializePath baseDir (ctx_agent ctx)) = Some content"
    and "fileMatchesDb baseDir (ctx_agent ctx) db fs"
  shows "\<nexists>rest. content @ rest =
    concat (map serializeRow (delivery_order (filter (\<lambda>r. toAgent r = ctx_agent ctx) db')))"
proof
  let ?Q = "\<lambda>r. toAgent r = ctx_agent ctx"
  assume "\<exists>rest. content @ rest = concat (map serializeRow (delivery_order (filter ?Q db')))"
  then obtain rest where eq: "concat (map serializeRow (delivery_order (filter ?Q db))) @ rest =
      concat (map serializeRow (delivery_order (filter ?Q db')))"
    using assms(6,7) by (auto simp: fileMatchesDb_def)
  have db': "db' = map (\<lambda>r. if msgId r = i then r\<lparr>readAt := Some now\<rparr> else r) db"
    using assms(1)
    by (auto simp: markRead_def result_simps persistMarkRead_def tbl_update_def Let_def split: option.splits if_splits)
  then have "length (filter ?Q db') = length (filter ?Q db)"
    by (simp add: filter_map comp_def if_distrib cong: if_cong)
  then have "delivery_order (filter ?Q db) = delivery_order (filter ?Q db')"
    using serialized_inject [OF eq] by (simp add: delivery_order_def)
  then have "set (filter ?Q db) = set (filter ?Q db')" by (metis set_delivery_order)
  moreover have "r \<in> set (filter ?Q db)" using assms(2,5) by simp
  ultimately have "r \<in> set db'" by simp
  then obtain s where "r = (if msgId s = i then s\<lparr>readAt := Some now\<rparr> else s)"
    unfolding db' set_map by (elim imageE)
  then show False using assms(3,4) by (cases "msgId s = i") simp_all
qed

theorem markRead_diverges_witness:
  "\<exists>db' content. markRead 9 ctx_b ''m1'' two_messages = Inr db' \<and>
     reconcile ''/repo'' two_messages Map.empty (materializePath ''/repo'' ''bob'') = Some content \<and>
     \<not> (\<exists>rest. content @ rest = concat (map serializeRow (delivery_order (filter (\<lambda>r. toAgent r = ''bob'') db'))))"
proof -
  have bob: "ctx_agent ctx_b = ''bob''" by (simp add: ctx_b_def)
  obtain db' where m: "markRead 9 ctx_b ''m1'' two_messages = Inr db'"
    by (simp add: markRead_def two_messages_def ctx_b_def assertAuthContext_def guard_result_def tbl_get_def)
  have r: "hd two_messages \<in> set two_messages" "msgId (hd two_messages) = ''m1''"
    "readAt (hd two_messages) = None" "toAgent (hd two_messages) = ctx_agent ctx_b"
    by (simp_all add: two_messages_def bob)
  show ?thesis
    by (intro exI conjI, rule m, rule two_messages_file)
      (rule markRead_diverges [OF m r _ two_messages_match [folded bob], unfolded bob, OF two_messages_file])
qed

end
