(* ===== verification/Event_Bus.thy ===== *)
theory Event_Bus
  imports Shamu_Prelude
begin

text \<open>
  The in-memory publish/subscribe bus (\<^verbatim>\<open>packages/core/supervisor/src/bus.ts\<close>). A listener is known by
  a number; the JavaScript Set of listeners is the list of its elements in insertion order. What a
  listener receives is recorded in \<open>delivered\<close>; a listener that throws is isolated, so every listener
  of the snapshot receives the event. \<open>published\<close> is a ghost: the events handed to \<^verbatim>\<open>publish\<close> so far.
\<close>

record 'e EventBus =
  listeners :: "nat list"
  delivered :: "(nat \<times> 'e) list"
  published :: "'e list"

definition new_bus :: "'e EventBus" where
  "new_bus = \<lparr>listeners = [], delivered = [], published = []\<rparr>"

definition subscribe :: "nat \<Rightarrow> 'e EventBus \<Rightarrow> 'e EventBus" where
  "subscribe l b = b\<lparr>listeners := (if l \<in> set (listeners b) then listeners b else listeners b @ [l])\<rparr>"

definition unsubscribe :: "nat \<Rightarrow> 'e EventBus \<Rightarrow> 'e EventBus" where
  "unsubscribe l b = b\<lparr>listeners := removeAll l (listeners b)\<rparr>"

definition publish :: "'e \<Rightarrow> 'e EventBus \<Rightarrow> 'e EventBus" where
  "publish e b =
     b\<lparr>delivered := delivered b @ map (\<lambda>l. (l, e)) (listeners b), published := published b @ [e]\<rparr>"

definition clear :: "'e EventBus \<Rightarrow> 'e EventBus" where
  "clear b = b\<lparr>listeners := []\<rparr>"

lemmas bus_defs = subscribe_def unsubscribe_def publish_def clear_def

declare bus_defs [shamu_defs]

lemma published_publish [simp]: "published (publish e b) = published b @ [e]"
  by (simp add: publish_def)

lemma published_clear [simp]: "published (clear b) = published b"
  by (simp add: clear_def)

lemma listeners_publish [simp]: "listeners (publish e b) = listeners b"
  by (simp add: publish_def)

lemma listeners_clear [simp]: "listeners (clear b) = []"
  by (simp add: clear_def)

section \<open>What a subscriber sees\<close>

datatype 'e bus_op = Subscribe nat | Unsubscribe nat | Publish 'e | ClearBus

fun bus_exec :: "'e bus_op \<Rightarrow> 'e EventBus \<Rightarrow> 'e EventBus" where
  "bus_exec (Subscribe l) b = subscribe l b"
| "bus_exec (Unsubscribe l) b = unsubscribe l b"
| "bus_exec (Publish e) b = publish e b"
| "bus_exec ClearBus b = clear b"

text \<open>The specification: a listener hears the events published while it is subscribed.\<close>

fun heard :: "nat \<Rightarrow> bool \<Rightarrow> 'e bus_op list \<Rightarrow> 'e list" where
  "heard l on [] = []"
| "heard l on (Subscribe m # ops) = heard l (on \<or> m = l) ops"
| "heard l on (Unsubscribe m # ops) = heard l (on \<and> m \<noteq> l) ops"
| "heard l on (Publish e # ops) = (if on then e # heard l on ops else heard l on ops)"
| "heard l on (ClearBus # ops) = heard l False ops"

definition received :: "nat \<Rightarrow> 'e EventBus \<Rightarrow> 'e list" where
  "received l b = map snd (filter (\<lambda>d. fst d = l) (delivered b))"

lemma received_publish:
  assumes "distinct (listeners b)"
  shows "received l (publish e b) = received l b @ (if l \<in> set (listeners b) then [e] else [])"
proof -
  have "distinct ls \<Longrightarrow> map snd (filter (\<lambda>d. fst d = l) (map (\<lambda>k. (k, e)) ls)) = (if l \<in> set ls then [e] else [])"
    for ls by (induction ls) auto
  with assms show ?thesis by (simp add: received_def publish_def)
qed

text \<open>Invariant of the bus under every operation: a Set has no duplicates.\<close>

interpretation bus_steps: stepping bus_exec "\<lambda>b. distinct (listeners b)"
proof unfold_locales
  fix b :: "'e EventBus" and c
  assume "distinct (listeners b)"
  then show "distinct (listeners (bus_exec c b))"
    by (cases c) (auto simp: bus_defs distinct_removeAll)
qed

lemma received_other [simp]:
  "received l (subscribe m b) = received l b" "received l (unsubscribe m b) = received l b"
  "received l (clear b) = received l b"
  by (simp_all add: bus_defs received_def)

lemma on_subscribe: "l \<in> set (listeners (subscribe m b)) \<longleftrightarrow> l \<in> set (listeners b) \<or> m = l"
  by (auto simp: subscribe_def)

lemma on_unsubscribe: "l \<in> set (listeners (unsubscribe m b)) \<longleftrightarrow> l \<in> set (listeners b) \<and> m \<noteq> l"
  by (auto simp: unsubscribe_def)

lemma received_run:
  "distinct (listeners b) \<Longrightarrow>
     received l (fold bus_exec ops b) = received l b @ heard l (l \<in> set (listeners b)) ops"
proof (induction ops arbitrary: b)
  case (Cons op ops)
  from Cons.prems have "distinct (listeners (bus_exec op b))" by (rule bus_steps.step_inv)
  from Cons.IH [OF this] Cons.prems show ?case
    by (cases op)
      (simp_all add: received_publish received_other on_subscribe on_unsubscribe cong: conj_cong)
qed simp

text \<open>Over any sequence of subscriptions, disposals, publications and clears, a subscriber receives
  exactly the events published while it was subscribed, each once and in publication order.\<close>

theorem bus_delivers: "received l (fold bus_exec ops new_bus) = heard l False ops"
  by (simp add: received_run new_bus_def) (simp add: received_def)

end
