(* ===== verification/Restart_Policy.thy ===== *)
theory Restart_Policy
  imports Shamu_Prelude
begin

text \<open>
  Restart policies (\<^verbatim>\<open>packages/core/supervisor/src/policy.ts\<close>) and the sliding-window restart counter
  (\<^verbatim>\<open>packages/core/supervisor/src/intensity.ts\<close>). The string unions of \<^verbatim>\<open>types.ts\<close> are strings, because
  the code validates them at run time. The tracker is the list of its stamps; the clock reading is an
  argument.
\<close>

section \<open>Policies\<close>

record RestartPolicy =
  strategy :: string
  intensity :: int
  withinMs :: ms
  escalate :: string

record RestartPolicyOverrides =
  o_strategy :: "string option"
  o_intensity :: "int option"
  o_withinMs :: "ms option"
  o_escalate :: "string option"

datatype sup_error = InvalidPolicyError string | SupervisorError string

definition VALID_STRATEGIES :: "string list" where
  "VALID_STRATEGIES = [''one_for_one'', ''rest_for_one'']"

definition VALID_ESCALATE :: "string list" where
  "VALID_ESCALATE = [''role'', ''swarm'']"

definition DEFAULT_ROLE_POLICIES :: "(string \<times> RestartPolicy) list" where
  "DEFAULT_ROLE_POLICIES =
     [(''planner'', \<lparr>strategy = ''one_for_one'', intensity = 3, withinMs = 60000, escalate = ''swarm''\<rparr>),
      (''executor'', \<lparr>strategy = ''one_for_one'', intensity = 5, withinMs = 300000, escalate = ''role''\<rparr>),
      (''reviewer'', \<lparr>strategy = ''one_for_one'', intensity = 2, withinMs = 120000, escalate = ''swarm''\<rparr>)]"

definition validateRestartPolicy :: "RestartPolicy \<Rightarrow> sup_error + RestartPolicy" where
  "validateRestartPolicy p =
     (if strategy p \<notin> set VALID_STRATEGIES then
        Inl (InvalidPolicyError (''unknown restart strategy: '' @ strategy p))
      else if escalate p \<notin> set VALID_ESCALATE then
        Inl (InvalidPolicyError (''unknown escalate target: '' @ escalate p))
      else if intensity p < 0 then
        Inl (InvalidPolicyError (''intensity must be a non-negative integer: '' @ show_int (intensity p)))
      else if withinMs p \<le> 0 then
        Inl (InvalidPolicyError (''withinMs must be a positive number of ms: '' @ show_int (withinMs p)))
      else Inr p)"

text \<open>\<open>nullish a b\<close> is \<^verbatim>\<open>a ?? b\<close>.\<close>

definition nullish :: "'a option \<Rightarrow> 'a \<Rightarrow> 'a" where
  "nullish a b = (case a of None \<Rightarrow> b | Some x \<Rightarrow> x)"

definition resolvePolicy ::
  "RestartPolicy \<Rightarrow> RestartPolicyOverrides option \<Rightarrow> sup_error + RestartPolicy" where
  "resolvePolicy base overrides =
     validateRestartPolicy
       \<lparr>strategy = nullish (Option.bind overrides o_strategy) (strategy base),
        intensity = nullish (Option.bind overrides o_intensity) (intensity base),
        withinMs = nullish (Option.bind overrides o_withinMs) (withinMs base),
        escalate = nullish (Option.bind overrides o_escalate) (escalate base)\<rparr>"

definition defaultPolicyForRole :: "string \<Rightarrow> sup_error + RestartPolicy" where
  "defaultPolicyForRole role =
     (case map_of DEFAULT_ROLE_POLICIES role of
        None \<Rightarrow> Inl (InvalidPolicyError (''no default policy registered for role: '' @ role))
      | Some p \<Rightarrow> Inr p)"

definition valid_policy :: "RestartPolicy \<Rightarrow> bool" where
  "valid_policy p \<longleftrightarrow> strategy p \<in> {''one_for_one'', ''rest_for_one''} \<and> escalate p \<in> {''role'', ''swarm''} \<and>
     0 \<le> intensity p \<and> 0 < withinMs p"

lemma validate_Inr: "validateRestartPolicy p = Inr q \<longleftrightarrow> q = p \<and> valid_policy p"
  by (auto simp: validateRestartPolicy_def valid_policy_def VALID_STRATEGIES_def VALID_ESCALATE_def)

lemma resolve_valid: "resolvePolicy base ov = Inr p \<Longrightarrow> valid_policy p"
  by (auto simp: resolvePolicy_def validate_Inr)

section \<open>The intensity tracker\<close>

type_synonym IntensityTracker = "ms list"

definition evict :: "ms \<Rightarrow> ms \<Rightarrow> IntensityTracker \<Rightarrow> IntensityTracker" where
  "evict now win stamps = dropWhile (\<lambda>ts. \<not> ts \<ge> now - win) stamps"

definition record_stamp :: "ms \<Rightarrow> IntensityTracker \<Rightarrow> IntensityTracker" where
  "record_stamp now stamps = stamps @ [now]"

definition count :: "ms \<Rightarrow> ms \<Rightarrow> IntensityTracker \<Rightarrow> nat \<times> IntensityTracker" where
  "count now win stamps = (let s = evict now win stamps in (length s, s))"

definition shouldEscalate :: "ms \<Rightarrow> int \<Rightarrow> ms \<Rightarrow> IntensityTracker \<Rightarrow> bool \<times> IntensityTracker" where
  "shouldEscalate now limit win stamps =
     (let (inWindow, s) = count now win stamps in (int inWindow \<ge> limit, s))"

definition reset :: "IntensityTracker \<Rightarrow> IntensityTracker" where
  "reset stamps = []"

definition snapshot :: "ms \<Rightarrow> ms \<Rightarrow> IntensityTracker \<Rightarrow> ms list \<times> IntensityTracker" where
  "snapshot now win stamps = (let s = evict now win stamps in (s, s))"

lemmas tracker_defs = count_def shouldEscalate_def reset_def snapshot_def record_stamp_def

lemma evict_sorted: "sorted stamps \<Longrightarrow> evict now win stamps = filter (\<lambda>ts. now - win \<le> ts) stamps"
  unfolding evict_def
proof (induction stamps)
  case (Cons t ts)
  then show ?case by (auto intro!: filter_True [symmetric])
qed simp

lemma evict_suffix: "\<exists>dropped. stamps = dropped @ evict now win stamps \<and> (\<forall>t \<in> set dropped. t < now - win)"
proof (intro exI conjI)
  show "stamps = takeWhile (\<lambda>ts. \<not> ts \<ge> now - win) stamps @ evict now win stamps"
    by (simp add: evict_def)
qed (auto dest: set_takeWhileD)

lemma evict_idem [simp]: "evict now win (evict now win stamps) = evict now win stamps"
  unfolding evict_def by (induction stamps) auto

lemma length_evict: "length (evict now win stamps) \<le> length stamps"
  by (simp add: evict_def length_dropWhile_le)

lemma sorted_evict: "sorted stamps \<Longrightarrow> sorted (evict now win stamps)"
  unfolding evict_def by (induction stamps) auto

lemma set_evict: "set (evict now win stamps) \<subseteq> set stamps"
  unfolding evict_def by (auto dest: set_dropWhileD)

section \<open>Properties\<close>

text \<open>A policy that validates has a known strategy and target, a non-negative budget and a positive
  window; resolving takes each field from the override when there is one and from the role policy
  otherwise, and fails exactly when the merged policy is not valid. The built-in role policies are
  valid.\<close>

theorem resolvePolicy_correct:
  "(resolvePolicy base ov = Inr p \<longleftrightarrow>
      valid_policy p \<and>
      strategy p = nullish (Option.bind ov o_strategy) (strategy base) \<and>
      intensity p = nullish (Option.bind ov o_intensity) (intensity base) \<and>
      withinMs p = nullish (Option.bind ov o_withinMs) (withinMs base) \<and>
      escalate p = nullish (Option.bind ov o_escalate) (escalate base)) \<and>
   ((\<exists>q. defaultPolicyForRole role = Inr q \<and> valid_policy q) \<longleftrightarrow> role \<in> {''planner'', ''executor'', ''reviewer''})"
proof
  show "resolvePolicy base ov = Inr p \<longleftrightarrow>
      valid_policy p \<and>
      strategy p = nullish (Option.bind ov o_strategy) (strategy base) \<and>
      intensity p = nullish (Option.bind ov o_intensity) (intensity base) \<and>
      withinMs p = nullish (Option.bind ov o_withinMs) (withinMs base) \<and>
      escalate p = nullish (Option.bind ov o_escalate) (escalate base)"
    unfolding resolvePolicy_def validate_Inr by (cases p) auto
  show "(\<exists>q. defaultPolicyForRole role = Inr q \<and> valid_policy q) \<longleftrightarrow> role \<in> {''planner'', ''executor'', ''reviewer''}"
    by (auto simp: defaultPolicyForRole_def DEFAULT_ROLE_POLICIES_def valid_policy_def)
qed

text \<open>When stamps were recorded in order, the tracker counts exactly the restarts inside the window
  that ends now, and asks for an escalation exactly when the budget is already used up, so that the
  restart after \<open>intensity\<close> restarts is the one that escalates.\<close>

theorem tracker_counts_window:
  assumes "sorted stamps"
  shows "fst (count now win stamps) = length (filter (\<lambda>ts. now - win \<le> ts) stamps) \<and>
    (fst (shouldEscalate now limit win stamps) \<longleftrightarrow>
       limit \<le> int (length (filter (\<lambda>ts. now - win \<le> ts) stamps))) \<and>
    (0 \<le> win \<longrightarrow> fst (snapshot now win (record_stamp now stamps)) =
      filter (\<lambda>ts. now - win \<le> ts) stamps @ [now])"
proof -
  have snoc: "evict now win (stamps @ [now]) = filter (\<lambda>ts. now - win \<le> ts) stamps @ [now]" if "0 \<le> win"
    using that assms evict_sorted [OF assms, of now win]
    by (auto simp: evict_def dropWhile_append)
  then show ?thesis by (simp add: tracker_defs Let_def evict_sorted [OF assms])
qed

theorem tracker_counts_window_witness:
  "fst (shouldEscalate 70000 2 60000 [1000, 20000, 65000])"
  using tracker_counts_window [of "[1000, 20000, 65000]" 70000 60000 2] by simp

end
