(* ===== verification/Supervisor.thy ===== *)
theory Supervisor
  imports Event_Bus Restart_Policy
begin

text \<open>
  The role supervisor (\<^verbatim>\<open>packages/core/supervisor/src/supervisor.ts\<close>, with the types of \<^verbatim>\<open>types.ts\<close> and
  the events of \<^verbatim>\<open>events.ts\<close>). What the supervisor acts on outside itself is a \<open>world\<close>: the event bus,
  the clock, the number of factory calls so far and the workers that are running. A worker is named by
  the number of the factory call that created it. How the \<open>n\<close>-th factory call turns out (the factory
  rejects, the handle's \<^verbatim>\<open>start()\<close> rejects, or the child boots) is a parameter \<open>env\<close> of every operation
  that boots children. One operation runs to its end before the next one begins, at one clock reading.
\<close>

section \<open>Data\<close>

datatype ExitReason = Normal | Crashed | Killed

datatype SupervisorState = Idle | Starting | Running | Stopping | Stopped

record ChildSpec =
  childId :: string
  restartOverrides :: "RestartPolicyOverrides option"

datatype EscalationCause =
    intensity_exceeded
  | start_failed
  | policy_violation
  | watchdog_agreement
  | lease_reclaim_refused
  | ci_tripwire

record EscalationRaised =
  er_swarmId :: "string option"
  er_roleId :: "string option"
  er_childId :: string
  er_cause :: EscalationCause
  er_reason :: string
  er_at :: ms
  er_restartsInWindow :: nat
  er_target :: string

text \<open>Every event carries the swarm, the role, the child and the time.\<close>

datatype SupervisorEvent =
    EscalationEvent EscalationRaised
  | ChildStarted "string option" "string option" string ms nat
  | ChildStopped "string option" "string option" string ms string
  | ChildRestarted "string option" "string option" string ms ExitReason

record ChildRecord =
  spec :: ChildSpec
  policy :: RestartPolicy
  tracker :: IntensityTracker
  handle :: "nat option"
  unsubscribeExit :: "nat option"
  startCount :: nat
  stopping :: bool

record Supervisor =
  roleId :: "string option"
  sup_swarmId :: "string option"
  ownsBus :: bool
  records :: "ChildRecord list"
  sup_state :: SupervisorState

datatype boot_outcome = FactoryRejects string | StartRejects string | Boots

record world =
  bus :: "SupervisorEvent EventBus"
  now :: ms
  factoryCalls :: nat
  live :: "nat set"

type_synonym env = "nat \<Rightarrow> boot_outcome"

section \<open>Construction\<close>

definition new_record :: "ChildSpec \<Rightarrow> RestartPolicy \<Rightarrow> ChildRecord" where
  "new_record sp p = \<lparr>spec = sp, policy = p, tracker = [], handle = None, unsubscribeExit = None,
     startCount = 0, stopping = False\<rparr>"

fun check_duplicates :: "string list \<Rightarrow> ChildSpec list \<Rightarrow> sup_error + unit" where
  "check_duplicates seen [] = Inr ()"
| "check_duplicates seen (sp # sps) =
     (if childId sp \<in> set seen then
        Inl (SupervisorError (''duplicate childId in supervisor specs: '' @ childId sp))
      else check_duplicates (childId sp # seen) sps)"

fun resolve_records :: "RestartPolicy \<Rightarrow> ChildSpec list \<Rightarrow> sup_error + ChildRecord list" where
  "resolve_records base [] = Inr []"
| "resolve_records base (sp # sps) =
     bind_result (resolvePolicy base (restartOverrides sp)) (\<lambda>p.
     bind_result (resolve_records base sps) (\<lambda>rs. Inr (new_record sp p # rs)))"

definition new_supervisor ::
  "RestartPolicy \<Rightarrow> ChildSpec list \<Rightarrow> string option \<Rightarrow> string option \<Rightarrow> bool \<Rightarrow> sup_error + Supervisor" where
  "new_supervisor base specs role swarm owns =
     bind_result (validateRestartPolicy base) (\<lambda>_.
     bind_result (check_duplicates [] specs) (\<lambda>_.
     bind_result (resolve_records base specs) (\<lambda>rs.
       Inr \<lparr>roleId = role, sup_swarmId = swarm, ownsBus = owns, records = rs, sup_state = Idle\<rparr>)))"

section \<open>Events\<close>

definition emit :: "SupervisorEvent \<Rightarrow> world \<Rightarrow> world" where
  "emit e w = w\<lparr>bus := publish e (bus w)\<rparr>"

definition emitEscalation ::
  "Supervisor \<Rightarrow> ChildRecord \<Rightarrow> EscalationCause \<Rightarrow> string \<Rightarrow> world \<Rightarrow> ChildRecord \<times> world" where
  "emitEscalation s r cause reason w =
     (let (n, t) = count (now w) (withinMs (policy r)) (tracker r)
      in (r\<lparr>tracker := t\<rparr>,
          emit (EscalationEvent
            \<lparr>er_swarmId = sup_swarmId s, er_roleId = roleId s, er_childId = childId (spec r),
             er_cause = cause, er_reason = reason, er_at = now w, er_restartsInWindow = n,
             er_target = escalate (policy r)\<rparr>) w))"

definition makeChildStarted :: "Supervisor \<Rightarrow> ChildRecord \<Rightarrow> world \<Rightarrow> SupervisorEvent" where
  "makeChildStarted s r w =
     ChildStarted (sup_swarmId s) (roleId s) (childId (spec r)) (now w) (startCount r)"

definition makeChildStopped :: "Supervisor \<Rightarrow> ChildRecord \<Rightarrow> string \<Rightarrow> world \<Rightarrow> SupervisorEvent" where
  "makeChildStopped s r reason w =
     ChildStopped (sup_swarmId s) (roleId s) (childId (spec r)) (now w) reason"

definition makeChildRestarted :: "Supervisor \<Rightarrow> ChildRecord \<Rightarrow> ExitReason \<Rightarrow> world \<Rightarrow> SupervisorEvent" where
  "makeChildRestarted s r reason w =
     ChildRestarted (sup_swarmId s) (roleId s) (childId (spec r)) (now w) reason"

section \<open>Booting and stopping children\<close>

text \<open>The result of a boot: the error it threw, if any, the record and the world.\<close>

definition bootRecord ::
  "env \<Rightarrow> Supervisor \<Rightarrow> ChildRecord \<Rightarrow> world \<Rightarrow> string option \<times> ChildRecord \<times> world" where
  "bootRecord env s r w =
     (let h = factoryCalls w; w1 = w\<lparr>factoryCalls := Suc h\<rparr>
      in (case env h of
            FactoryRejects msg \<Rightarrow> (Some msg, r, w1)
          | outcome \<Rightarrow>
              let r1 = r\<lparr>handle := Some h, stopping := False, unsubscribeExit := Some h\<rparr>;
                  w2 = w1\<lparr>live := insert h (live w1)\<rparr>
              in (case outcome of
                    StartRejects msg \<Rightarrow> (Some msg, r1, w2)
                  | _ \<Rightarrow> (None, r1, emit (makeChildStarted s r1 w2) w2))))"

definition stopRecord :: "Supervisor \<Rightarrow> string \<Rightarrow> ChildRecord \<Rightarrow> world \<Rightarrow> ChildRecord \<times> world" where
  "stopRecord s reason r w =
     (case handle r of
        None \<Rightarrow> (r, w)
      | Some h \<Rightarrow>
          let r1 = r\<lparr>stopping := True, unsubscribeExit := None, handle := None\<rparr>;
              w1 = w\<lparr>live := live w - {h}\<rparr>
          in (r1, emit (makeChildStopped s r1 reason w1) w1))"

text \<open>From the last record to the first.\<close>

fun stop_reverse :: "Supervisor \<Rightarrow> string \<Rightarrow> ChildRecord list \<Rightarrow> world \<Rightarrow> ChildRecord list \<times> world" where
  "stop_reverse s reason [] w = ([], w)"
| "stop_reverse s reason (r # rs) w =
     (let (rs', w1) = stop_reverse s reason rs w; (r', w2) = stopRecord s reason r w1
      in (r' # rs', w2))"

definition teardownRunningChildren :: "string \<Rightarrow> Supervisor \<Rightarrow> world \<Rightarrow> Supervisor \<times> world" where
  "teardownRunningChildren reason s w =
     (let (rs, w1) = stop_reverse s reason (records s) w in (s\<lparr>records := rs\<rparr>, w1))"

text \<open>Boots the records in order up to the first failure, which is returned with the index of the
  record it hit.\<close>

fun boot_all ::
  "env \<Rightarrow> Supervisor \<Rightarrow> ChildRecord list \<Rightarrow> world \<Rightarrow> (nat \<times> string) option \<times> ChildRecord list \<times> world" where
  "boot_all env s [] w = (None, [], w)"
| "boot_all env s (r # rs) w =
     (let (e, r1, w1) = bootRecord env s r w
      in (case e of
            Some msg \<Rightarrow> (Some (0, msg), r1 # rs, w1)
          | None \<Rightarrow>
              let (e2, rs1, w2) = boot_all env s rs w1
              in (map_option (\<lambda>(i, msg). (Suc i, msg)) e2, r1 # rs1, w2)))"

section \<open>Public operations\<close>

definition clear_own_bus :: "Supervisor \<Rightarrow> world \<Rightarrow> world" where
  "clear_own_bus s w = (if ownsBus s then w\<lparr>bus := clear (bus w)\<rparr> else w)"

text \<open>The text of a state in an error message.\<close>

fun state_text :: "SupervisorState \<Rightarrow> string" where
  "state_text Idle = ''idle''"
| "state_text Starting = ''starting''"
| "state_text Running = ''running''"
| "state_text Stopping = ''stopping''"
| "state_text Stopped = ''stopped''"

definition start :: "env \<Rightarrow> Supervisor \<Rightarrow> world \<Rightarrow> sup_error + Supervisor \<times> world" where
  "start env s w =
     (if sup_state s \<noteq> Idle then
        Inl (SupervisorError (''Supervisor.start: expected idle, got '' @ state_text (sup_state s)))
      else
        let s1 = s\<lparr>sup_state := Starting\<rparr>;
            (e, rs, w1) = boot_all env s1 (records s1) w
        in (case e of
              None \<Rightarrow> Inr (s1\<lparr>records := rs, sup_state := Running\<rparr>, w1)
            | Some (i, msg) \<Rightarrow>
                let (r, w2) = emitEscalation s1 (rs ! i) start_failed msg w1;
                    (s2, w3) = teardownRunningChildren ''supervisor_start_failed'' (s1\<lparr>records := rs[i := r]\<rparr>) w2
                in Inr (s2\<lparr>sup_state := Stopped\<rparr>, w3)))"

definition stop :: "string \<Rightarrow> Supervisor \<Rightarrow> world \<Rightarrow> Supervisor \<times> world" where
  "stop reason s w =
     (if sup_state s = Stopped \<or> sup_state s = Idle then (s\<lparr>sup_state := Stopped\<rparr>, clear_own_bus s w)
      else if sup_state s = Stopping then (s, w)
      else
        let (s1, w1) = teardownRunningChildren reason (s\<lparr>sup_state := Stopping\<rparr>) w
        in (s1\<lparr>sup_state := Stopped\<rparr>, clear_own_bus s1 w1))"

definition addChild ::
  "env \<Rightarrow> ChildSpec \<Rightarrow> RestartPolicy option \<Rightarrow> Supervisor \<Rightarrow> world \<Rightarrow> sup_error + Supervisor \<times> world" where
  "addChild env sp policyOverride s w =
     bind_result (guard_result (sup_state s = Idle \<or> sup_state s = Running)
       (SupervisorError (''Supervisor.addChild: disallowed in state '' @ state_text (sup_state s)))) (\<lambda>_.
     bind_result (guard_result (\<not> list_ex (\<lambda>r. childId (spec r) = childId sp) (records s))
       (SupervisorError (''duplicate childId: '' @ childId sp))) (\<lambda>_.
     bind_result
       (case policyOverride of
          Some p \<Rightarrow> validateRestartPolicy p
        | None \<Rightarrow>
            (case records s of
               [] \<Rightarrow> Inl (SupervisorError ''Supervisor.addChild: no policy available; supply policyOverride'')
             | r # _ \<Rightarrow> Inr (policy r))) (\<lambda>basePolicy.
     bind_result (resolvePolicy basePolicy (restartOverrides sp)) (\<lambda>p.
       let r = new_record sp p
       in if sup_state s = Running then
            (case bootRecord env s r w of
               (None, r1, w1) \<Rightarrow> Inr (s\<lparr>records := records s @ [r1]\<rparr>, w1)
             | (Some msg, r1, w1) \<Rightarrow>
                 let (r2, w2) = emitEscalation s r1 start_failed msg w1
                 in Inr (s\<lparr>records := records s @ [r2]\<rparr>, w2))
          else Inr (s\<lparr>records := records s @ [r]\<rparr>, w)))))"

fun remove_first :: "('a \<Rightarrow> bool) \<Rightarrow> 'a list \<Rightarrow> 'a list" where
  "remove_first P [] = []"
| "remove_first P (x # xs) = (if P x then xs else x # remove_first P xs)"

definition removeChild :: "string \<Rightarrow> string \<Rightarrow> Supervisor \<Rightarrow> world \<Rightarrow> Supervisor \<times> world" where
  "removeChild c reason s w =
     (case find (\<lambda>r. childId (spec r) = c) (records s) of
        None \<Rightarrow> (s, w)
      | Some r \<Rightarrow>
          let (_, w1) = stopRecord s reason r w
          in (s\<lparr>records := remove_first (\<lambda>r. childId (spec r) = c) (records s)\<rparr>, w1))"

text \<open>The inspection view; reading it evicts stale stamps.\<close>

record ChildView =
  v_childId :: string
  v_startCount :: nat
  v_restartsInWindow :: nat
  v_policy :: RestartPolicy

definition children :: "Supervisor \<Rightarrow> world \<Rightarrow> ChildView list \<times> Supervisor" where
  "children s w =
     (let counted = (\<lambda>r. count (now w) (withinMs (policy r)) (tracker r))
      in (map (\<lambda>r. \<lparr>v_childId = childId (spec r), v_startCount = startCount r,
                    v_restartsInWindow = fst (counted r), v_policy = policy r\<rparr>) (records s),
          s\<lparr>records := map (\<lambda>r. r\<lparr>tracker := snd (counted r)\<rparr>) (records s)\<rparr>))"

section \<open>Exits\<close>

text \<open>The failed record is the one at index \<open>i\<close>. A boot that throws leaves the later ones stopped.\<close>

definition restartRestForOne ::
  "env \<Rightarrow> nat \<Rightarrow> Supervisor \<Rightarrow> world \<Rightarrow> string option \<times> Supervisor \<times> world" where
  "restartRestForOne env i s w =
     (let (later, w1) = stop_reverse s ''rest_for_one'' (drop (Suc i) (records s)) w;
          (e, rs, w2) = boot_all env s (records s ! i # later) w1
      in (map_option snd e, s\<lparr>records := take i (records s) @ rs\<rparr>, w2))"

definition restartOrEscalate ::
  "env \<Rightarrow> nat \<Rightarrow> ExitReason \<Rightarrow> Supervisor \<Rightarrow> world \<Rightarrow> string option \<times> Supervisor \<times> world" where
  "restartOrEscalate env i reason s w =
     (let r = records s ! i; p = policy r;
          (esc, t) = shouldEscalate (now w) (intensity p) (withinMs p) (tracker r)
      in if esc then
           let (n, t1) = count (now w) (withinMs p) t;
               (r1, w1) = emitEscalation s (r\<lparr>tracker := t1\<rparr>) intensity_exceeded
                 (''restart budget exceeded: '' @ show_nat n @ '' restarts within '' @ show_int (withinMs p) @ ''ms'') w;
               s1 = s\<lparr>records := (records s)[i := r1]\<rparr>
           in if sup_state s1 \<noteq> Stopping \<and> sup_state s1 \<noteq> Stopped then
                let (s2, w2) = teardownRunningChildren ''intensity_exceeded'' s1 w1
                in (None, s2\<lparr>sup_state := Stopped\<rparr>, clear_own_bus s2 w2)
              else (None, s1, w1)
         else
           let r1 = r\<lparr>tracker := record_stamp (now w) t, startCount := Suc (startCount r)\<rparr>;
               w1 = emit (makeChildRestarted s r1 reason w) w;
               s1 = s\<lparr>records := (records s)[i := r1]\<rparr>
           in if strategy p = ''rest_for_one'' then restartRestForOne env i s1 w1
              else (let (e, r2, w2) = bootRecord env s1 r1 w1
                    in (e, s1\<lparr>records := (records s1)[i := r2]\<rparr>, w2)))"

text \<open>The listener of the record at index \<open>i\<close>.\<close>

definition handleExit ::
  "env \<Rightarrow> nat \<Rightarrow> ExitReason \<Rightarrow> Supervisor \<Rightarrow> world \<Rightarrow> Supervisor \<times> world" where
  "handleExit env i reason s w =
     (let r = records s ! i
      in if stopping r then (s, w)
         else
           let r1 = r\<lparr>unsubscribeExit := None, handle := None\<rparr>;
               s1 = s\<lparr>records := (records s)[i := r1]\<rparr>
           in if reason = Normal then (s1, emit (makeChildStopped s1 r1 ''normal'' w) w)
              else (case restartOrEscalate env i reason s1 w of
                      (None, s2, w2) \<Rightarrow> (s2, w2)
                    | (Some msg, s2, w2) \<Rightarrow>
                        let (r2, w3) = emitEscalation s2 (records s2 ! i) start_failed msg w2
                        in (s2\<lparr>records := (records s2)[i := r2]\<rparr>, w3)))"

text \<open>Worker \<open>h\<close> exits; the listener of the record subscribed to it, if there is one, runs.\<close>

fun find_index :: "('a \<Rightarrow> bool) \<Rightarrow> 'a list \<Rightarrow> nat option" where
  "find_index P [] = None"
| "find_index P (x # xs) = (if P x then Some 0 else map_option Suc (find_index P xs))"

definition worker_exits ::
  "env \<Rightarrow> nat \<Rightarrow> ExitReason \<Rightarrow> Supervisor \<Rightarrow> world \<Rightarrow> Supervisor \<times> world" where
  "worker_exits env h reason s w =
     (let w1 = w\<lparr>live := live w - {h}\<rparr>
      in (case find_index (\<lambda>r. unsubscribeExit r = Some h) (records s) of
            None \<Rightarrow> (s, w1)
          | Some i \<Rightarrow> handleExit env i reason s w1))"

section \<open>Workers and their owners\<close>

definition hlist :: "ChildRecord list \<Rightarrow> nat list" where
  "hlist rs = concat (map (\<lambda>r. case handle r of None \<Rightarrow> [] | Some h \<Rightarrow> [h]) rs)"

lemma hlist_simps [simp]:
  "hlist [] = []"
  "hlist (r # rs) = (case handle r of None \<Rightarrow> [] | Some h \<Rightarrow> [h]) @ hlist rs"
  "hlist (rs @ ss) = hlist rs @ hlist ss"
  by (simp_all add: hlist_def)

lemma hlist_Nil_iff: "hlist rs = [] \<longleftrightarrow> (\<forall>r \<in> set rs. handle r = None)"
  by (induction rs) (auto split: option.splits)

definition attached :: "ChildRecord \<Rightarrow> bool" where
  "attached r \<longleftrightarrow> unsubscribeExit r = handle r \<and> (stopping r \<longrightarrow> handle r = None)"

text \<open>Every handle a record holds is a running worker of an earlier factory call, held once.\<close>

definition wired :: "ChildRecord list \<Rightarrow> world \<Rightarrow> bool" where
  "wired rs w \<longleftrightarrow> distinct (hlist rs) \<and> set (hlist rs) \<subseteq> live w \<and> live w \<subseteq> {..<factoryCalls w} \<and>
     list_all attached rs"

text \<open>What an operation that turns \<open>rs\<close> into \<open>rs'\<close> may do to the running workers.\<close>

definition moved :: "ChildRecord list \<Rightarrow> world \<Rightarrow> ChildRecord list \<Rightarrow> world \<Rightarrow> bool" where
  "moved rs w rs' w' \<longleftrightarrow>
     now w' = now w \<and> factoryCalls w \<le> factoryCalls w' \<and>
     live w' = (live w - set (hlist rs)) \<union> set (hlist rs') \<and>
     set (hlist rs') \<subseteq> set (hlist rs) \<union> {factoryCalls w..<factoryCalls w'} \<and>
     distinct (hlist rs') \<and> list_all attached rs'"

lemma moved_refl: "wired rs w \<Longrightarrow> moved rs w rs w"
  by (auto simp: wired_def moved_def)

lemma moved_trans:
  assumes "moved rs w rs1 w1" and "moved rs1 w1 rs2 w2" and "wired rs w"
  shows "moved rs w rs2 w2"
proof -
  note m = assms(1,2) [unfolded moved_def]
  have l: "live w \<subseteq> {..<factoryCalls w}" using assms(3) by (simp add: wired_def)
  then have "(live w - set (hlist rs)) \<inter> set (hlist rs1) = {}" using m(1) by fastforce
  then have "live w2 = live w - set (hlist rs) \<union> set (hlist rs2)" using m by blast
  moreover have "set (hlist rs2) \<subseteq> set (hlist rs) \<union> {factoryCalls w..<factoryCalls w2}"
  proof
    fix h assume "h \<in> set (hlist rs2)"
    then consider "h \<in> set (hlist rs1)" | "factoryCalls w1 \<le> h" "h < factoryCalls w2" using m(2) by auto
    then show "h \<in> set (hlist rs) \<union> {factoryCalls w..<factoryCalls w2}"
    proof cases
      case 1
      with m(1) have "h \<in> set (hlist rs) \<or> h \<in> {factoryCalls w..<factoryCalls w1}" by blast
      with m(2) show ?thesis by auto
    next
      case 2
      with m(1) show ?thesis by auto
    qed
  qed
  ultimately show ?thesis using m by (auto simp: moved_def)
qed

lemma moved_wired:
  assumes "moved rs w rs' w'" and "wired rs w"
  shows "wired rs' w'"
proof -
  note m = assms(1) [unfolded moved_def] and l = assms(2) [unfolded wired_def]
  have "live w' \<subseteq> {..<factoryCalls w'}" 
  proof
    fix h assume "h \<in> live w'"
    then have "h \<in> live w \<or> h \<in> {factoryCalls w..<factoryCalls w'}" using m l by blast
    then show "h \<in> {..<factoryCalls w'}" using m l by auto
  qed
  with m show ?thesis by (auto simp: wired_def)
qed

lemma moved_context:
  assumes "moved rs w rs' w'" and "wired (pre @ rs @ post) w"
  shows "moved (pre @ rs @ post) w (pre @ rs' @ post) w'"
proof -
  have fresh: "set (hlist rs') \<inter> (set (hlist pre) \<union> set (hlist post)) = {}"
  proof -
    have "set (hlist rs) \<inter> (set (hlist pre) \<union> set (hlist post)) = {}"
      using assms(2) by (auto simp: wired_def)
    moreover have "set (hlist pre) \<union> set (hlist post) \<subseteq> {..<factoryCalls w}"
      using assms(2) by (auto simp: wired_def)
    moreover have "set (hlist rs') \<subseteq> set (hlist rs) \<union> {factoryCalls w..<factoryCalls w'}"
      using assms(1) by (simp add: moved_def)
    ultimately show ?thesis by fastforce
  qed
  have outside: "set (hlist pre) \<union> set (hlist post) \<subseteq> live w - set (hlist rs)"
    using assms(2) by (auto simp: wired_def)
  have "live w' = live w - set (hlist (pre @ rs @ post)) \<union> set (hlist (pre @ rs' @ post))"
    using outside assms(1) by (auto simp: moved_def)
  with fresh assms show ?thesis unfolding moved_def wired_def by auto
qed

text \<open>The record part an orchestrated stop or a boot leaves alone.\<close>

definition core :: "ChildRecord \<Rightarrow> ChildSpec \<times> RestartPolicy \<times> IntensityTracker \<times> nat" where
  "core r = (spec r, policy r, tracker r, startCount r)"

definition stopped_record :: "ChildRecord \<Rightarrow> ChildRecord" where
  "stopped_record r =
     (case handle r of None \<Rightarrow> r | Some h \<Rightarrow> r\<lparr>stopping := True, unsubscribeExit := None, handle := None\<rparr>)"

definition stop_events :: "Supervisor \<Rightarrow> string \<Rightarrow> ms \<Rightarrow> ChildRecord list \<Rightarrow> SupervisorEvent list" where
  "stop_events s reason t rs =
     map (\<lambda>r. ChildStopped (sup_swarmId s) (roleId s) (childId (spec r)) t reason)
       (filter (\<lambda>r. handle r \<noteq> None) (rev rs))"

definition publish_all :: "'e list \<Rightarrow> 'e EventBus \<Rightarrow> 'e EventBus" where
  "publish_all es b = fold publish es b"

lemma publish_all_simps [simp]:
  "publish_all [] b = b"
  "publish_all (es @ [e]) b = publish e (publish_all es b)"
  "published (publish_all es b) = published b @ es"
proof -
  show "published (publish_all es b) = published b @ es"
    unfolding publish_all_def by (induction es arbitrary: b) auto
qed (simp_all add: publish_all_def)

lemma stop_reverse_closed:
  "stop_reverse s reason rs w =
     (map stopped_record rs,
      w\<lparr>live := live w - set (hlist rs), bus := publish_all (stop_events s reason (now w) rs) (bus w)\<rparr>)"
proof (induction rs)
  case (Cons r rs)
  show ?case
  proof (cases "handle r")
    case None
    with Cons show ?thesis by (simp add: stopRecord_def stopped_record_def stop_events_def)
  next
    case (Some h)
    then have "stop_events s reason (now w) (r # rs) = stop_events s reason (now w) rs @
        [ChildStopped (sup_swarmId s) (roleId s) (childId (spec r)) (now w) reason]"
      by (simp add: stop_events_def)
    moreover have "live w - insert h (set (hlist rs)) = live w - set (hlist rs) - {h}" by blast
    ultimately show ?thesis using Cons Some
      by (simp add: stopRecord_def stopped_record_def emit_def makeChildStopped_def Let_def)
  qed
qed (simp add: stop_events_def)

lemma stopped_record_simps [simp]:
  "handle (stopped_record r) = None" "core (stopped_record r) = core r"
  "attached r \<Longrightarrow> attached (stopped_record r)"
  by (auto simp: stopped_record_def core_def attached_def split: option.splits)

lemma hlist_stopped [simp]: "hlist (map stopped_record rs) = []"
  by (simp add: hlist_Nil_iff)

lemma stop_reverse_moved:
  assumes "wired rs w" and "stop_reverse s reason rs w = (rs', w')"
  shows "moved rs w rs' w' \<and> hlist rs' = [] \<and> map core rs' = map core rs"
  using assms by (auto simp: stop_reverse_closed moved_def wired_def list_all_iff)

lemma wired_sub: "wired (pre @ rs @ post) w \<Longrightarrow> wired rs w"
  by (auto simp: wired_def)

definition start_events :: "Supervisor \<Rightarrow> ms \<Rightarrow> ChildRecord list \<Rightarrow> SupervisorEvent list" where
  "start_events s t rs =
     map (\<lambda>r. ChildStarted (sup_swarmId s) (roleId s) (childId (spec r)) t (startCount r)) rs"

text \<open>Events that are no restarts.\<close>

definition no_restart :: "SupervisorEvent list \<Rightarrow> bool" where
  "no_restart es \<longleftrightarrow> (\<forall>e \<in> set es. \<nexists>a b c t x. e = ChildRestarted a b c t x)"

lemma no_restart_simps [simp]:
  "no_restart []" "no_restart (es @ fs) \<longleftrightarrow> no_restart es \<and> no_restart fs"
  "no_restart (start_events s t rs)" "no_restart (stop_events s reason t rs)"
  "no_restart (EscalationEvent x # es) \<longleftrightarrow> no_restart es"
  by (simp_all add: no_restart_def start_events_def stop_events_def ball_Un)

lemma bootRecord_moved:
  assumes "wired [r] w" and "handle r = None" and "bootRecord env s r w = (e, r', w')"
  shows "moved [r] w [r'] w'" and "core r' = core r" and "factoryCalls w' = Suc (factoryCalls w)"
    and "e = None \<Longrightarrow> handle r' = Some (factoryCalls w)"
    and "published (bus w') = published (bus w) @ (if e = None then start_events s (now w) [r] else [])"
  using assms
  by (auto simp: bootRecord_def moved_def wired_def attached_def core_def Let_def emit_def
      makeChildStarted_def start_events_def split: boot_outcome.splits)

lemma boot_all_moved:
  assumes "wired rs w" and "hlist rs = []" and "boot_all env s rs w = (e, rs', w')"
  shows "moved rs w rs' w' \<and> map core rs' = map core rs \<and>
    published (bus w') = published (bus w) @
      start_events s (now w) (take (case e of None \<Rightarrow> length rs | Some (i, _) \<Rightarrow> i) rs) \<and>
    (case e of
       None \<Rightarrow> hlist rs' = [factoryCalls w..<factoryCalls w + length rs]
     | Some (i, msg) \<Rightarrow> i < length rs)"
  using assms
proof (induction rs arbitrary: w e rs' w')
  case Nil
  then show ?case by (simp add: moved_refl start_events_def)
next
  case (Cons r rs)
  obtain e1 r1 w1 where b: "bootRecord env s r w = (e1, r1, w1)" by (metis prod_cases3)
  have r: "wired [r] w" "handle r = None"
    using Cons.prems(1,2) wired_sub [of "[]" "[r]" rs] by (auto simp: hlist_Nil_iff split: option.splits)
  note boot = bootRecord_moved [OF r b]
  have m1: "moved (r # rs) w (r1 # rs) w1"
    using moved_context [OF boot(1), of "[]" rs] Cons.prems(1) by simp
  show ?case
  proof (cases e1)
    case (Some msg)
    with Cons.prems(3) b have "e = Some (0, msg)" "rs' = r1 # rs" "w' = w1" by auto
    with m1 boot Some show ?thesis by (simp add: start_events_def)
  next
    case None
    obtain e2 rs2 w2 where all: "boot_all env s rs w1 = (e2, rs2, w2)" by (metis prod_cases3)
    with Cons.prems(3) b None have res: "e = map_option (\<lambda>(i, msg). (Suc i, msg)) e2" "rs' = r1 # rs2" "w' = w2"
      by auto
    have wired1: "wired (r1 # rs) w1" using m1 Cons.prems(1) by (rule moved_wired)
    then have "wired rs w1" using wired_sub [of "[r1]" rs "[]"] by simp
    note ih = Cons.IH [OF this _ all]
    have hs: "hlist rs = []" using Cons.prems(2) by simp
    have "moved (r1 # rs) w1 (r1 # rs2) w2"
      using moved_context [of rs w1 rs2 w2 "[r1]" "[]"] ih hs wired1 by simp
    with m1 Cons.prems(1) have "moved (r # rs) w (r1 # rs2) w2" by (blast intro: moved_trans)
    moreover have "now w1 = now w" using boot(1) by (simp add: moved_def)
    moreover have "[factoryCalls w..<factoryCalls w + length (r # rs)] =
        factoryCalls w # [Suc (factoryCalls w)..<Suc (factoryCalls w) + length rs]"
      by (simp add: upt_conv_Cons del: upt_Suc)
    ultimately show ?thesis using res ih hs boot None
      by (auto simp: start_events_def split: option.splits)
  qed
qed

section \<open>Operations on workers\<close>

text \<open>Replacing a record by one with the same wiring changes no worker.\<close>

definition wiring :: "ChildRecord \<Rightarrow> nat option \<times> nat option \<times> bool" where
  "wiring r = (handle r, unsubscribeExit r, stopping r)"

lemma hlist_wiring: "map wiring rs = map wiring rs' \<Longrightarrow> hlist rs = hlist rs'"
  unfolding hlist_def wiring_def
  by (rule arg_cong [where f = concat]) (induction rs rs' rule: list_induct2', auto)

lemma attached_wiring: "map wiring rs = map wiring rs' \<Longrightarrow> list_all attached rs = list_all attached rs'"
  by (induction rs rs' rule: list_induct2') (auto simp: attached_def wiring_def)

lemma moved_same_wiring:
  assumes "moved rs w rs1 w1" and "map wiring rs2 = map wiring rs1"
    and "now w2 = now w1" and "factoryCalls w2 = factoryCalls w1" and "live w2 = live w1"
  shows "moved rs w rs2 w2"
  using assms hlist_wiring [OF assms(2)] attached_wiring [OF assms(2)] by (simp add: moved_def)

lemma map_update_same: "i < length rs \<Longrightarrow> f r = f (rs ! i) \<Longrightarrow> map f (rs[i := r]) = map f rs"
  by (induction rs arbitrary: i) (auto split: nat.splits)

lemma emit_fields [simp]:
  "now (emit e w) = now w" "factoryCalls (emit e w) = factoryCalls w" "live (emit e w) = live w"
  "published (bus (emit e w)) = published (bus w) @ [e]"
  by (simp_all add: emit_def)

lemma clear_own_bus_fields [simp]:
  "now (clear_own_bus s w) = now w" "factoryCalls (clear_own_bus s w) = factoryCalls w"
  "live (clear_own_bus s w) = live w" "published (bus (clear_own_bus s w)) = published (bus w)"
  by (simp_all add: clear_own_bus_def)

lemma emitEscalation_fields:
  assumes "emitEscalation s r cause reason w = (r', w')"
  shows "r' = r\<lparr>tracker := evict (now w) (withinMs (policy r)) (tracker r)\<rparr>" and "wiring r' = wiring r"
    and "now w' = now w" and "factoryCalls w' = factoryCalls w" and "live w' = live w"
    and "published (bus w') = published (bus w) @
      [EscalationEvent \<lparr>er_swarmId = sup_swarmId s, er_roleId = roleId s, er_childId = childId (spec r),
        er_cause = cause, er_reason = reason, er_at = now w,
        er_restartsInWindow = length (evict (now w) (withinMs (policy r)) (tracker r)),
        er_target = escalate (policy r)\<rparr>]"
  using assms by (auto simp: emitEscalation_def tracker_defs Let_def wiring_def)

text \<open>What identifies the children: their specifications and policies.\<close>

definition roster :: "Supervisor \<Rightarrow> (ChildSpec \<times> RestartPolicy) list" where
  "roster s = map (\<lambda>r. (spec r, policy r)) (records s)"

lemma core_roster: "map core rs = map core rs' \<Longrightarrow> map (\<lambda>r. (spec r, policy r)) rs = map (\<lambda>r. (spec r, policy r)) rs'"
  by (induction rs rs' rule: list_induct2') (auto simp: core_def)

lemma teardown_moved:
  assumes "wired (records s) w" and "teardownRunningChildren reason s w = (s', w')"
  shows "moved (records s) w (records s') w'" and "hlist (records s') = []"
    and "map core (records s') = map core (records s)" and "sup_state s' = sup_state s"
    and "ownsBus s' = ownsBus s" and "roster s' = roster s"
    and "published (bus w') = published (bus w) @ stop_events s reason (now w) (records s)"
    and "records s' = map stopped_record (records s)"
proof -
  obtain rs w1 where stop: "stop_reverse s reason (records s) w = (rs, w1)" by (metis prod.exhaust)
  then have res: "s' = s\<lparr>records := rs\<rparr>" "w' = w1" using assms(2) by (auto simp: teardownRunningChildren_def)
  note m = stop_reverse_moved [OF assms(1) stop]
  show "moved (records s) w (records s') w'" "hlist (records s') = []"
    "map core (records s') = map core (records s)" "sup_state s' = sup_state s" "ownsBus s' = ownsBus s"
    using m res by auto
  show "roster s' = roster s" unfolding roster_def by (rule core_roster) (use m res in simp)
  show "published (bus w') = published (bus w) @ stop_events s reason (now w) (records s)"
    "records s' = map stopped_record (records s)"
    using res stop by (auto simp: stop_reverse_closed)
qed

lemma start_moved:
  assumes "wired (records s) w" and "hlist (records s) = []" and "start env s w = Inr (s', w')"
  shows "moved (records s) w (records s') w' \<and> roster s' = roster s \<and>
    (sup_state s' = Running \<or> sup_state s' = Stopped \<and> hlist (records s') = [])"
proof -
  let ?s1 = "s\<lparr>sup_state := Starting\<rparr>"
  obtain e rs w1 where b: "boot_all env ?s1 (records s) w = (e, rs, w1)" by (metis prod_cases3)
  note m = boot_all_moved [OF assms(1,2) b]
  have r1: "map (\<lambda>r. (spec r, policy r)) rs = roster s"
    unfolding roster_def by (rule core_roster) (use m in simp)
  show ?thesis
  proof (cases e)
    case None
    with assms(3) b have "s' = ?s1\<lparr>records := rs, sup_state := Running\<rparr>" "w' = w1"
      by (auto simp: start_def Let_def split: if_splits)
    with m r1 show ?thesis by (simp add: roster_def)
  next
    case (Some im)
    then obtain i msg where e: "e = Some (i, msg)" by (cases im) auto
    obtain r w2 where esc: "emitEscalation ?s1 (rs ! i) start_failed msg w1 = (r, w2)" by (metis prod.exhaust)
    let ?s2 = "?s1\<lparr>records := rs[i := r]\<rparr>"
    obtain s3 w3 where td: "teardownRunningChildren ''supervisor_start_failed'' ?s2 w2 = (s3, w3)"
      by (metis prod.exhaust)
    have res: "s' = s3\<lparr>sup_state := Stopped\<rparr>" "w' = w3"
      using assms(3) b e esc td by (auto simp: start_def Let_def split: if_splits)
    have "length rs = length (records s)" using r1 by (metis roster_def length_map)
    then have i: "i < length rs" using m e by simp
    note ef = emitEscalation_fields [OF esc]
    have m2: "moved (records s) w (rs[i := r]) w2"
      using conjunct1 [OF m] map_update_same [OF i ef(2)] ef(3,4,5) by (rule moved_same_wiring)
    then have "wired (rs[i := r]) w2" using assms(1) by (rule moved_wired)
    then have t: "moved (rs[i := r]) w2 (records s3) w3" "hlist (records s3) = []" "roster s3 = roster ?s2"
      using teardown_moved [OF _ td] by simp_all
    have "roster ?s2 = roster s" using r1 i ef(1) by (simp add: roster_def map_update_same)
    moreover have "moved (records s) w (records s3) w3" using m2 t(1) assms(1) by (rule moved_trans)
    ultimately show ?thesis using t res by (simp add: roster_def)
  qed
qed

lemma stop_moved:
  assumes "wired (records s) w" and "sup_state s \<in> {Idle, Running, Stopped}"
    and "sup_state s \<noteq> Running \<Longrightarrow> hlist (records s) = []" and "stop reason s w = (s', w')"
  shows "moved (records s) w (records s') w'" and "roster s' = roster s" and "sup_state s' = Stopped"
    and "hlist (records s') = []"
proof -
  have "moved (records s) w (records s') w' \<and> roster s' = roster s \<and> sup_state s' = Stopped \<and> hlist (records s') = []"
  proof (cases "sup_state s = Running")
    case False
    then show ?thesis using assms
      by (auto simp: stop_def roster_def intro!: moved_same_wiring [OF moved_refl])
  next
    case True
    obtain s1 w1 where td: "teardownRunningChildren reason (s\<lparr>sup_state := Stopping\<rparr>) w = (s1, w1)"
      by (metis prod.exhaust)
    have "s' = s1\<lparr>sup_state := Stopped\<rparr>" "w' = clear_own_bus s1 w1"
      using True assms(4) td by (auto simp: stop_def Let_def)
    then show ?thesis using teardown_moved [OF _ td] assms(1)
      by (auto simp: roster_def intro: moved_same_wiring)
  qed
  then show "moved (records s) w (records s') w'" and "roster s' = roster s" and "sup_state s' = Stopped"
    and "hlist (records s') = []" by auto
qed

lemma addChild_moved:
  assumes "wired (records s) w" and "addChild env sp po s w = Inr (s', w')"
  shows "\<exists>r. records s' = records s @ [r] \<and> spec r = sp \<and> valid_policy (policy r) \<and> tracker r = [] \<and>
    moved (records s) w (records s') w' \<and> sup_state s' = sup_state s \<and>
    (sup_state s \<noteq> Running \<longrightarrow> handle r = None) \<and> (\<forall>r \<in> set (records s). childId (spec r) \<noteq> childId sp) \<and>
    (\<exists>es. published (bus w') = published (bus w) @ es \<and> no_restart es)"
proof -
  obtain base p where p: "resolvePolicy base (restartOverrides sp) = Inr p"
    and fresh: "\<forall>r \<in> set (records s). childId (spec r) \<noteq> childId sp"
    and res: "(let r = new_record sp p
       in if sup_state s = Running then
            (case bootRecord env s r w of
               (None, r1, w1) \<Rightarrow> Inr (s\<lparr>records := records s @ [r1]\<rparr>, w1)
             | (Some msg, r1, w1) \<Rightarrow>
                 let (r2, w2) = emitEscalation s r1 start_failed msg w1
                 in Inr (s\<lparr>records := records s @ [r2]\<rparr>, w2))
          else Inr (s\<lparr>records := records s @ [r]\<rparr>, w)) = (Inr (s', w') :: sup_error + Supervisor \<times> world)"
    using assms(2) unfolding addChild_def by (auto simp: result_simps list_ex_iff)
  let ?r = "new_record sp p"
  have new: "wired [?r] w" "handle ?r = None"
    using assms(1) by (auto simp: wired_def new_record_def attached_def)
  have ext: "wired (records s @ [?r] @ []) w" 
    using assms(1) by (auto simp: wired_def new_record_def attached_def)
  have grow: "moved (records s) w (records s @ [r']) w'" if "moved [?r] w [r'] w'" for r' w'
    using moved_context [OF that ext] by (simp add: moved_def new_record_def)
  show ?thesis
  proof (cases "sup_state s = Running")
    case False
    with res have "s' = s\<lparr>records := records s @ [?r]\<rparr>" "w' = w" by (auto simp: Let_def)
    with p fresh new grow [OF moved_refl [OF new(1)]] show ?thesis
      by (auto simp: new_record_def dest: resolve_valid)
  next
    case True
    obtain e r1 w1 where b: "bootRecord env s ?r w = (e, r1, w1)" by (metis prod_cases3)
    note boot = bootRecord_moved [OF new b]
    have c: "spec r1 = sp" "policy r1 = p" "tracker r1 = []" using boot(2) by (simp_all add: core_def new_record_def)
    show ?thesis
    proof (cases e)
      case None
      with res b True have "s' = s\<lparr>records := records s @ [r1]\<rparr>" "w' = w1" by (auto simp: Let_def)
      with p fresh c grow [OF boot(1)] boot(5) True show ?thesis
        by (auto simp: start_events_def no_restart_def dest: resolve_valid)
    next
      case (Some msg)
      obtain r2 w2 where esc: "emitEscalation s r1 start_failed msg w1 = (r2, w2)" by (metis prod.exhaust)
      note ef = emitEscalation_fields [OF esc]
      have "s' = s\<lparr>records := records s @ [r2]\<rparr>" "w' = w2" using res b True Some esc by (auto simp: Let_def)
      moreover have "moved [?r] w [r2] w2"
        using boot(1) _ ef(3,4,5) by (rule moved_same_wiring) (simp add: ef(2))
      moreover have "tracker r2 = []" "spec r2 = sp" "policy r2 = p" using ef(1) c by (simp_all add: evict_def)
      ultimately show ?thesis using p fresh grow boot(5) ef(6) True
        by (auto simp: Some dest: resolve_valid)
    qed
  qed
qed

lemma remove_first_find:
  assumes "find P rs = Some r"
  obtains pre post where "rs = pre @ r # post" and "remove_first P rs = pre @ post" and "P r"
    and "\<forall>x \<in> set pre. \<not> P x"
  using assms
proof (induction rs arbitrary: thesis)
  case (Cons x xs)
  show ?case
  proof (cases "P x")
    case True
    with Cons.prems show ?thesis by (intro Cons.prems(1) [of "[]" xs]) auto
  next
    case False
    with Cons.prems(2) have "find P xs = Some r" by simp
    then obtain pre post where "xs = pre @ r # post" "remove_first P xs = pre @ post" "P r" "\<forall>x \<in> set pre. \<not> P x"
      by (rule Cons.IH [rotated]) blast
    with False show ?thesis by (intro Cons.prems(1) [of "x # pre" post]) auto
  qed
qed simp

lemma removeChild_moved:
  assumes "wired (records s) w" and "removeChild c reason s w = (s', w')"
  shows "moved (records s) w (records s') w'" and "sup_state s' = sup_state s"
    and "records s' = remove_first (\<lambda>r. childId (spec r) = c) (records s)"
    and "\<exists>es. published (bus w') = published (bus w) @ es \<and> no_restart es"
proof -
  have none: "remove_first P rs = rs" if "find P rs = None" for P and rs :: "ChildRecord list"
    using that by (induction rs) (auto split: if_splits)
  have "moved (records s) w (records s') w' \<and> sup_state s' = sup_state s \<and>
    records s' = remove_first (\<lambda>r. childId (spec r) = c) (records s) \<and>
    (\<exists>es. published (bus w') = published (bus w) @ es \<and> no_restart es)"
  proof (cases "find (\<lambda>r. childId (spec r) = c) (records s)")
    case None
    with assms show ?thesis by (auto simp: removeChild_def none moved_refl)
  next
    case (Some r)
    obtain r' w1 where st: "stopRecord s reason r w = (r', w1)" by (metis prod.exhaust)
    from Some obtain pre post where rs: "records s = pre @ [r] @ post"
      and rem: "remove_first (\<lambda>r. childId (spec r) = c) (records s) = pre @ [] @ post"
      by (rule remove_first_find) auto
    have s': "s' = s\<lparr>records := remove_first (\<lambda>r. childId (spec r) = c) (records s)\<rparr>" "w' = w1"
      using assms(2) Some st by (auto simp: removeChild_def)
    have "moved [r] w [] w1"
      using st by (auto simp: stopRecord_def moved_def Let_def emit_def split: option.splits)
    then have "moved (records s) w (pre @ [] @ post) w1"
      unfolding rs by (rule moved_context) (use assms(1) rs in simp)
    moreover have "\<exists>es. published (bus w1) = published (bus w) @ es \<and>
        no_restart es"
      using st by (auto simp: stopRecord_def makeChildStopped_def Let_def no_restart_def split: option.splits)
    ultimately show ?thesis using s' rem by simp
  qed
  then show "moved (records s) w (records s') w'" and "sup_state s' = sup_state s"
    and "records s' = remove_first (\<lambda>r. childId (spec r) = c) (records s)"
    and "\<exists>es. published (bus w') = published (bus w) @ es \<and> no_restart es"
    by blast+
qed

section \<open>Restart or escalate\<close>

text \<open>The stamps in the window of a record, and whether its budget is used up.\<close>

definition fresh_stamps :: "ChildRecord \<Rightarrow> world \<Rightarrow> IntensityTracker" where
  "fresh_stamps r w = evict (now w) (withinMs (policy r)) (tracker r)"

definition exhausted :: "ChildRecord \<Rightarrow> world \<Rightarrow> bool" where
  "exhausted r w \<longleftrightarrow> intensity (policy r) \<le> int (length (fresh_stamps r w))"

lemma shouldEscalate_exhausted:
  "shouldEscalate (now w) (intensity (policy r)) (withinMs (policy r)) (tracker r) = (exhausted r w, fresh_stamps r w)"
  by (simp add: exhausted_def fresh_stamps_def tracker_defs Let_def)

definition budget_escalation :: "Supervisor \<Rightarrow> ChildRecord \<Rightarrow> world \<Rightarrow> SupervisorEvent" where
  "budget_escalation s r w =
     EscalationEvent \<lparr>er_swarmId = sup_swarmId s, er_roleId = roleId s, er_childId = childId (spec r),
       er_cause = intensity_exceeded,
       er_reason = ''restart budget exceeded: '' @ show_nat (length (fresh_stamps r w)) @ '' restarts within '' @
         show_int (withinMs (policy r)) @ ''ms'',
       er_at = now w, er_restartsInWindow = length (fresh_stamps r w), er_target = escalate (policy r)\<rparr>"

lemma stop_events_wiring:
  assumes "map (\<lambda>r. (spec r, handle r)) rs = map (\<lambda>r. (spec r, handle r)) rs'"
  shows "stop_events s reason t rs = stop_events s reason t rs'"
  using assms unfolding stop_events_def
  by (induction rs rs' rule: list_induct2') auto

lemma restartOrEscalate_escalates:
  assumes "wired (records s) w" and "i < length (records s)" and "exhausted (records s ! i) w"
    and "sup_state s = Running"
  obtains s' w' where "restartOrEscalate env i reason s w = (None, s', w')"
    and "moved (records s) w (records s') w'" and "hlist (records s') = []" and "sup_state s' = Stopped"
    and "factoryCalls w' = factoryCalls w" and "roster s' = roster s"
    and "map tracker (records s') = (map tracker (records s))[i := fresh_stamps (records s ! i) w]"
    and "published (bus w') = published (bus w) @ budget_escalation s (records s ! i) w #
      stop_events s ''intensity_exceeded'' (now w) (records s)"
proof -
  let ?r = "records s ! i"
  let ?msg = "''restart budget exceeded: '' @ show_nat (length (fresh_stamps ?r w)) @ '' restarts within '' @
         show_int (withinMs (policy ?r)) @ ''ms''"
  have cnt: "count (now w) (withinMs (policy ?r)) (fresh_stamps ?r w) = (length (fresh_stamps ?r w), fresh_stamps ?r w)"
    by (simp add: fresh_stamps_def tracker_defs Let_def)
  obtain r1 w1 where esc: "emitEscalation s (?r\<lparr>tracker := fresh_stamps ?r w\<rparr>) intensity_exceeded ?msg w = (r1, w1)"
    by (metis prod.exhaust)
  note ef = emitEscalation_fields [OF esc]
  let ?s1 = "s\<lparr>records := (records s)[i := r1]\<rparr>"
  obtain s2 w2 where td: "teardownRunningChildren ''intensity_exceeded'' ?s1 w1 = (s2, w2)" by (metis prod.exhaust)
  have "restartOrEscalate env i reason s w = (None, s2\<lparr>sup_state := Stopped\<rparr>, clear_own_bus s2 w2)"
    using assms(3,4) esc td by (simp add: restartOrEscalate_def shouldEscalate_exhausted cnt Let_def)
  moreover have r1: "r1 = ?r\<lparr>tracker := fresh_stamps ?r w\<rparr>" using ef(1) by (simp add: fresh_stamps_def)
  have w1: "wiring r1 = wiring ?r" by (simp add: r1 wiring_def)
  have m1: "moved (records s) w ((records s)[i := r1]) w1"
    using moved_refl [OF assms(1)] map_update_same [OF assms(2) w1] ef(3,4,5) by (rule moved_same_wiring)
  have wd: "wired (records ?s1) w1" using moved_wired [OF m1 assms(1)] by simp
  note t = teardown_moved [OF wd td]
  have m2: "moved (records s) w (records s2) w2" using m1 _ assms(1) by (rule moved_trans) (use t(1) in simp)
  have "moved (records s) w (records (s2\<lparr>sup_state := Stopped\<rparr>)) (clear_own_bus s2 w2)"
    using m2 by (rule moved_same_wiring) simp_all
  moreover have "map (\<lambda>r. (spec r, handle r)) ((records s)[i := r1]) = map (\<lambda>r. (spec r, handle r)) (records s)"
    using assms(2) by (rule map_update_same) (simp add: r1)
  then have "stop_events ?s1 ''intensity_exceeded'' (now w1) (records ?s1) =
      stop_events s ''intensity_exceeded'' (now w) (records s)"
    using ef(3) stop_events_wiring [of "(records s)[i := r1]" "records s" s] by (simp add: stop_events_def)
  then have "published (bus (clear_own_bus s2 w2)) = published (bus w) @ budget_escalation s ?r w #
      stop_events s ''intensity_exceeded'' (now w) (records s)"
    using t(7) ef(6) by (simp add: budget_escalation_def fresh_stamps_def)
  moreover have "roster ?s1 = roster s" using assms(2) by (simp add: roster_def r1 map_update_same)
  moreover have "map tracker (records s2) = map tracker ((records s)[i := r1])"
    using arg_cong [OF t(3), of "map (fst \<circ> snd \<circ> snd)"] by (simp add: core_def comp_def)
  moreover have "factoryCalls w2 = factoryCalls w"
    using td ef(4) by (auto simp: teardownRunningChildren_def stop_reverse_closed)
  ultimately show ?thesis using t(2,6) ef(4)
    by (intro that [of "s2\<lparr>sup_state := Stopped\<rparr>" "clear_own_bus s2 w2"])
      (simp_all add: roster_def map_update r1)
qed

lemma split_at: "i < length rs \<Longrightarrow> rs = take i rs @ [rs ! i] @ drop (Suc i) rs"
  by (simp add: id_take_nth_drop)

lemma update_split: "i < length rs \<Longrightarrow> rs[i := r] = take i rs @ [r] @ drop (Suc i) rs"
  by (simp add: upd_conv_take_nth_drop)

lemma core_start: "map core rs = map core rs' \<Longrightarrow> start_events s t rs = start_events s t rs'"
  unfolding start_events_def by (induction rs rs' rule: list_induct2') (auto simp: core_def)

lemma core_tracker: "map core rs = map core rs' \<Longrightarrow> map tracker rs = map tracker rs'"
  by (induction rs rs' rule: list_induct2') (auto simp: core_def)

lemma boot_in_place:
  assumes "wired (records s) w" and "i < length (records s)" and "handle (records s ! i) = None"
    and "bootRecord env s0 (records s ! i) w = (e, r', w')"
  shows "moved (records s) w ((records s)[i := r']) w'"
    and "map core ((records s)[i := r']) = map core (records s)"
proof -
  let ?r = "records s ! i"
  have wd: "wired (take i (records s) @ [?r] @ drop (Suc i) (records s)) w"
    using assms(1) split_at [OF assms(2)] by simp
  have r: "wired [?r] w" using wd by (rule wired_sub)
  note boot = bootRecord_moved [OF r assms(3,4)]
  show "moved (records s) w ((records s)[i := r']) w'"
    using moved_context [OF boot(1) wd] split_at [OF assms(2)] update_split [OF assms(2)] by simp
  show "map core ((records s)[i := r']) = map core (records s)"
    using assms(2) boot(2) by (rule map_update_same)
qed

lemma restartRestForOne_moved:
  assumes "wired (records s) w" and "i < length (records s)" and "handle (records s ! i) = None"
    and "restartRestForOne env i s w = (e, s', w')"
  shows "moved (records s) w (records s') w'" and "map core (records s') = map core (records s)"
    and "sup_state s' = sup_state s" and "take i (records s') = take i (records s)"
    and "\<exists>n. published (bus w') = published (bus w) @
      stop_events s ''rest_for_one'' (now w) (drop (Suc i) (records s)) @
      start_events s (now w) (take n (drop i (records s))) \<and> (e = None \<longrightarrow> n = length (drop i (records s)))"
    and "e = None \<Longrightarrow>
      hlist (drop i (records s')) = [factoryCalls w..<factoryCalls w + length (drop i (records s))]"
proof -
  let ?r = "records s ! i" and ?later = "drop (Suc i) (records s)"
  let ?stopped = "map stopped_record ?later"
  let ?w1 = "w\<lparr>live := live w - set (hlist ?later),
      bus := publish_all (stop_events s ''rest_for_one'' (now w) ?later) (bus w)\<rparr>"
  obtain b rs w2 where boot: "boot_all env s (?r # ?stopped) ?w1 = (b, rs, w2)" by (metis prod_cases3)
  have res: "e = map_option snd b" "s' = s\<lparr>records := take i (records s) @ rs\<rparr>" "w' = w2"
    using assms(4) boot by (auto simp: restartRestForOne_def stop_reverse_closed)
  have rs: "records s = take i (records s) @ (?r # ?later)" using split_at [OF assms(2)] by simp
  then have tail: "?r # ?later = drop i (records s)" using assms(2) by (metis Cons_nth_drop_Suc)
  have wd: "wired (take i (records s) @ (?r # ?later) @ []) w" using assms(1) rs by simp
  then have wl: "wired (?r # ?later) w" by (rule wired_sub)
  have m1: "moved (?r # ?later) w (?r # ?stopped) ?w1"
    using wl assms(3) by (auto simp: moved_def wired_def list_all_iff)
  then have wd1: "wired (?r # ?stopped) ?w1" using wl by (rule moved_wired)
  have "hlist (?r # ?stopped) = []" using assms(3) by simp
  note bm = boot_all_moved [OF wd1 this boot]
  have m: "moved (?r # ?later) w rs w2" using m1 conjunct1 [OF bm] wl by (rule moved_trans)
  show "moved (records s) w (records s') w'"
    using moved_context [OF m wd] rs res by simp
  have cores: "map core rs = map core (drop i (records s))"
    using bm by (simp add: comp_def tail [symmetric])
  show "map core (records s') = map core (records s)"
    using cores by (simp add: res) (metis append_take_drop_id map_append)
  show "sup_state s' = sup_state s" by (simp add: res)
  show "take i (records s') = take i (records s)" using assms(2) by (simp add: res)
  have ev: "start_events s t (take n (?r # ?stopped)) = start_events s t (take n (drop i (records s)))" for t n
  proof -
    have "map core (?r # ?stopped) = map core (drop i (records s))" by (simp add: comp_def tail [symmetric])
    then have "map core (take n (?r # ?stopped)) = map core (take n (drop i (records s)))" by (metis take_map)
    then show ?thesis by (rule core_start)
  qed
  show "\<exists>n. published (bus w') = published (bus w) @
      stop_events s ''rest_for_one'' (now w) (drop (Suc i) (records s)) @
      start_events s (now w) (take n (drop i (records s))) \<and> (e = None \<longrightarrow> n = length (drop i (records s)))"
    using bm ev tail [THEN arg_cong [where f = length]]
    by (intro exI [of _ "case b of None \<Rightarrow> length (?r # ?stopped) | Some (i, _) \<Rightarrow> i"]) (simp add: res)
  show "e = None \<Longrightarrow> hlist (drop i (records s')) = [factoryCalls w..<factoryCalls w + length (drop i (records s))]"
    using bm tail [THEN arg_cong [where f = length]] assms(2) by (simp add: res Suc_diff_Suc del: upt_Suc)
qed

lemma restartOrEscalate_restarts:
  assumes "wired (records s) w" and "i < length (records s)" and "handle (records s ! i) = None"
    and "\<not> exhausted (records s ! i) w" and "restartOrEscalate env i reason s w = (e, s', w')"
  shows "moved (records s) w (records s') w'" and "sup_state s' = sup_state s" and "roster s' = roster s"
    and "map tracker (records s') = (map tracker (records s))[i := fresh_stamps (records s ! i) w @ [now w]]"
    and "\<exists>es. published (bus w') = published (bus w) @
      ChildRestarted (sup_swarmId s) (roleId s) (childId (spec (records s ! i))) (now w) reason # es \<and> no_restart es"
proof -
  let ?r = "records s ! i"
  define r1 where "r1 = ?r\<lparr>tracker := record_stamp (now w) (fresh_stamps ?r w), startCount := Suc (startCount ?r)\<rparr>"
  define s1 where "s1 = s\<lparr>records := (records s)[i := r1]\<rparr>"
  define w1 where "w1 = emit (makeChildRestarted s r1 reason w) w"
  have at: "i < length (records s1)" "records s1 ! i = r1" using assms(2) by (simp_all add: s1_def)
  have h1: "handle (records s1 ! i) = None" using assms(3) at by (simp add: r1_def)
  have m1: "moved (records s) w (records s1) w1"
    using moved_refl [OF assms(1)]
    by (rule moved_same_wiring) (use assms(2) in \<open>simp_all add: w1_def s1_def r1_def wiring_def map_update_same\<close>)
  then have wd1: "wired (records s1) w1" using assms(1) by (rule moved_wired)
  have ros: "roster s1 = roster s" using assms(2) by (simp add: roster_def s1_def r1_def map_update_same)
  have tr: "map tracker (records s1) = (map tracker (records s))[i := fresh_stamps ?r w @ [now w]]"
    by (simp add: s1_def r1_def map_update record_stamp_def)
  have pub: "published (bus w1) = published (bus w) @
      [ChildRestarted (sup_swarmId s) (roleId s) (childId (spec ?r)) (now w) reason]"
    by (simp add: w1_def makeChildRestarted_def r1_def)
  have step: "moved (records s1) w1 (records s') w' \<and> sup_state s' = sup_state s1 \<and>
    map core (records s') = map core (records s1) \<and>
    (\<exists>es. published (bus w') = published (bus w1) @ es \<and> no_restart es)"
  proof (cases "strategy (policy ?r) = ''rest_for_one''")
    case True
    with assms(4,5) have "restartRestForOne env i s1 w1 = (e, s', w')"
      by (simp add: restartOrEscalate_def shouldEscalate_exhausted Let_def r1_def s1_def w1_def)
    from restartRestForOne_moved [OF wd1 at(1) h1 this] show ?thesis by fastforce
  next
    case False
    obtain e2 r2 w2 where b: "bootRecord env s1 r1 w1 = (e2, r2, w2)" by (metis prod_cases3)
    with assms(4,5) False have res: "s' = s1\<lparr>records := (records s1)[i := r2]\<rparr>" "w' = w2"
      by (auto simp: restartOrEscalate_def shouldEscalate_exhausted Let_def r1_def s1_def w1_def)
    have b': "bootRecord env s1 (records s1 ! i) w1 = (e2, r2, w2)" using b at by simp
    have "wired [records s1 ! i] w1"
      using wd1 split_at [OF at(1)] wired_sub by metis
    from bootRecord_moved(5) [OF this h1 b'] boot_in_place [OF wd1 at(1) h1 b'] res
    show ?thesis by auto
  qed
  show "moved (records s) w (records s') w'" using m1 _ assms(1) by (rule moved_trans) (use step in blast)
  show "sup_state s' = sup_state s" using step by (simp add: s1_def)
  show "roster s' = roster s" using step core_roster [of "records s'" "records s1"] ros by (simp add: roster_def)
  show "map tracker (records s') = (map tracker (records s))[i := fresh_stamps ?r w @ [now w]]"
    using step core_tracker [of "records s'" "records s1"] tr by simp
  show "\<exists>es. published (bus w') = published (bus w) @
      ChildRestarted (sup_swarmId s) (roleId s) (childId (spec ?r)) (now w) reason # es \<and> no_restart es"
    using step pub by auto
qed

text \<open>A tracker from which only stamps older than the window were dropped.\<close>

definition aged :: "ms \<Rightarrow> ms \<Rightarrow> IntensityTracker \<Rightarrow> IntensityTracker \<Rightarrow> bool" where
  "aged t win tr tr' \<longleftrightarrow> (\<exists>d. tr = d @ tr' \<and> (\<forall>x \<in> set d. x < t - win))"

lemma aged_refl [simp]: "aged t win tr tr"
  by (simp add: aged_def)

lemma aged_evict [simp]: "aged t win tr (evict t win tr)"
  using evict_suffix by (auto simp: aged_def)

lemma aged_trans: "aged t win a b \<Longrightarrow> aged t win b c \<Longrightarrow> aged t win a c"
  unfolding aged_def by (metis Un_iff append.assoc set_append)

text \<open>What the exit of a supervised worker may do to the trackers and the event log: nothing but
  aging, or one restart of a child whose budget was not used up.\<close>

definition exit_effect :: "nat \<Rightarrow> Supervisor \<Rightarrow> world \<Rightarrow> Supervisor \<Rightarrow> world \<Rightarrow> bool" where
  "exit_effect i s w s' w' \<longleftrightarrow>
     ((\<exists>es. published (bus w') = published (bus w) @ es \<and> no_restart es) \<and>
      (\<exists>t. map tracker (records s') = (map tracker (records s))[i := t] \<and>
        aged (now w) (withinMs (policy (records s ! i))) (tracker (records s ! i)) t)) \<or>
     (\<not> exhausted (records s ! i) w \<and>
      (\<exists>x es. published (bus w') = published (bus w) @
         ChildRestarted (sup_swarmId s) (roleId s) (childId (spec (records s ! i))) (now w) x # es \<and> no_restart es) \<and>
      (\<exists>t. map tracker (records s') = (map tracker (records s))[i := t] \<and>
        aged (now w) (withinMs (policy (records s ! i))) (fresh_stamps (records s ! i) w @ [now w]) t))"

lemma roster_nth:
  assumes "roster s' = roster s" and "i < length (records s)"
  shows "i < length (records s')" and "policy (records s' ! i) = policy (records s ! i)"
    and "spec (records s' ! i) = spec (records s ! i)"
proof -
  show len: "i < length (records s')" using assms map_eq_imp_length_eq unfolding roster_def by metis
  have "roster s' ! i = roster s ! i" using assms(1) by simp
  then show "policy (records s' ! i) = policy (records s ! i)" "spec (records s' ! i) = spec (records s ! i)"
    using len assms(2) by (simp_all add: roster_def)
qed

lemma exit_effect_then:
  assumes "exit_effect i s w s2 w2" and len: "i < length (records s)" "i < length (records s2)"
    and tr: "map tracker (records s') = (map tracker (records s2))[i := t']"
    and ag: "aged (now w) (withinMs (policy (records s ! i))) (tracker (records s2 ! i)) t'"
    and es: "published (bus w') = published (bus w2) @ es" "no_restart es"
  shows "exit_effect i s w s' w'"
proof -
  let ?W = "withinMs (policy (records s ! i))"
  have trackers: "\<exists>t. map tracker (records s') = (map tracker (records s))[i := t] \<and> aged (now w) ?W t0 t"
    if "map tracker (records s2) = (map tracker (records s))[i := t]" "aged (now w) ?W t0 t" for t t0
  proof -
    have "tracker (records s2 ! i) = t" using that(1) len by (metis length_map nth_list_update_eq nth_map)
    then have "aged (now w) ?W t0 t'" using that(2) ag by (metis aged_trans)
    then show ?thesis using tr that(1) by (intro exI [of _ t']) simp
  qed
  from assms(1) consider (quiet) "\<exists>es. published (bus w2) = published (bus w) @ es \<and> no_restart es"
      "\<exists>t. map tracker (records s2) = (map tracker (records s))[i := t] \<and> aged (now w) ?W (tracker (records s ! i)) t"
    | (restart) "\<not> exhausted (records s ! i) w"
      "\<exists>x es. published (bus w2) = published (bus w) @
         ChildRestarted (sup_swarmId s) (roleId s) (childId (spec (records s ! i))) (now w) x # es \<and> no_restart es"
      "\<exists>t. map tracker (records s2) = (map tracker (records s))[i := t] \<and>
         aged (now w) ?W (fresh_stamps (records s ! i) w @ [now w]) t"
    unfolding exit_effect_def by blast
  then show ?thesis
  proof cases
    case quiet
    obtain fs where "published (bus w2) = published (bus w) @ fs" "no_restart fs" using quiet(1) by blast
    then have "published (bus w') = published (bus w) @ (fs @ es)" "no_restart (fs @ es)" using es by simp_all
    moreover note quiet(2)
    ultimately show ?thesis unfolding exit_effect_def using trackers by blast
  next
    case restart
    obtain x fs where "published (bus w2) = published (bus w) @
         ChildRestarted (sup_swarmId s) (roleId s) (childId (spec (records s ! i))) (now w) x # fs" "no_restart fs"
      using restart(2) by blast
    then have "published (bus w') = published (bus w) @
         ChildRestarted (sup_swarmId s) (roleId s) (childId (spec (records s ! i))) (now w) x # (fs @ es)"
      "no_restart (fs @ es)" using es by simp_all
    moreover note restart(1,3)
    ultimately show ?thesis unfolding exit_effect_def using trackers by blast
  qed
qed

lemma restartOrEscalate_effect:
  assumes "wired (records s) w" and "i < length (records s)" and "handle (records s ! i) = None"
    and "sup_state s = Running" and "restartOrEscalate env i reason s w = (e, s', w')"
  shows "moved (records s) w (records s') w' \<and> roster s' = roster s \<and> exit_effect i s w s' w' \<and>
    (sup_state s' = Running \<or> sup_state s' = Stopped \<and> hlist (records s') = [])"
proof (cases "exhausted (records s ! i) w")
  case True
  have tr: "aged (now w) (withinMs (policy (records s ! i))) (tracker (records s ! i)) (fresh_stamps (records s ! i) w)"
    by (simp add: fresh_stamps_def)
  show ?thesis
  proof (rule restartOrEscalate_escalates [OF assms(1,2) True assms(4), of env reason])
    fix s2 w2 assume r: "restartOrEscalate env i reason s w = (None, s2, w2)"
      and m: "moved (records s) w (records s2) w2" "hlist (records s2) = []" "sup_state s2 = Stopped" "roster s2 = roster s"
      and t: "map tracker (records s2) = (map tracker (records s))[i := fresh_stamps (records s ! i) w]"
      and p: "published (bus w2) = published (bus w) @ budget_escalation s (records s ! i) w #
        stop_events s ''intensity_exceeded'' (now w) (records s)"
    have "no_restart (budget_escalation s (records s ! i) w # stop_events s ''intensity_exceeded'' (now w) (records s))"
      by (simp add: no_restart_def budget_escalation_def stop_events_def)
    with m t p tr r assms(5) show ?thesis by (auto simp: exit_effect_def)
  qed
next
  case False
  note r = restartOrEscalate_restarts [OF assms(1,2,3) False assms(5)]
  have "exit_effect i s w s' w'"
    unfolding exit_effect_def using False r(4,5) by (intro disjI2 conjI) (blast intro: aged_refl)+
  with r assms(4) show ?thesis by simp
qed

lemma handleExit_effect:
  assumes "wired (records s) w" and "i < length (records s)" and "handle (records s ! i) = None"
    and "sup_state s = Running" and "reason \<noteq> Normal"
    and "(case restartOrEscalate env i reason s w of
            (None, s2, w2) \<Rightarrow> (s2, w2)
          | (Some msg, s2, w2) \<Rightarrow>
              let (r2, w3) = emitEscalation s2 (records s2 ! i) start_failed msg w2
              in (s2\<lparr>records := (records s2)[i := r2]\<rparr>, w3)) = (s', w')"
  shows "moved (records s) w (records s') w' \<and> roster s' = roster s \<and> exit_effect i s w s' w' \<and>
    (sup_state s' = Running \<or> sup_state s' = Stopped \<and> hlist (records s') = [])"
proof -
  obtain e s2 w2 where r: "restartOrEscalate env i reason s w = (e, s2, w2)" by (metis prod_cases3)
  note eff = restartOrEscalate_effect [OF assms(1-4) r]
  show ?thesis
  proof (cases e)
    case None
    with r assms(6) have "s' = s2" "w' = w2" by auto
    with eff show ?thesis by simp
  next
    case (Some msg)
    obtain r2 w3 where esc: "emitEscalation s2 (records s2 ! i) start_failed msg w2 = (r2, w3)" by (metis prod.exhaust)
    note ef = emitEscalation_fields [OF esc]
    have res: "s' = s2\<lparr>records := (records s2)[i := r2]\<rparr>" "w' = w3" using assms(6) r Some esc by auto
    have ros: "roster s2 = roster s" using eff by blast
    note len = roster_nth(1) [OF ros assms(2)]
    have wir: "map wiring (records s') = map wiring (records s2)" using res map_update_same [OF len ef(2)] by simp
    have pol: "policy (records s2 ! i) = policy (records s ! i)"
      using ros assms(2) by (rule roster_nth)
    have n: "now w2 = now w" using eff by (simp add: moved_def)
    have tr: "map tracker (records s') = (map tracker (records s2))[i := tracker r2]"
      and ag: "aged (now w) (withinMs (policy (records s ! i))) (tracker (records s2 ! i)) (tracker r2)"
      using ef(1) res pol n by (simp_all add: map_update)
    have "exit_effect i s w s2 w2" using eff by blast
    then have "exit_effect i s w s' w'"
      using assms(2) len tr ag ef(6) unfolding res(2) by (rule exit_effect_then) simp
    moreover have "moved (records s) w (records s') w'"
      using conjunct1 [OF eff] wir ef(3,4,5) unfolding res(2) by (rule moved_same_wiring)
    moreover have "roster s' = roster s" using eff ef(1) len by (simp add: res roster_def map_update_same)
    moreover have "hlist (records s') = hlist (records s2)" using wir by (rule hlist_wiring)
    ultimately show ?thesis using eff res(1) by auto
  qed
qed

end
