(* ===== verification/Supervision.thy ===== *)
theory Supervision
  imports Supervisor
begin

text \<open>
  Runs of a role supervisor: any sequence of its public operations and of worker exits, each some time
  after the one before. The invariants every run keeps and the properties of the restart budget, of
  escalation and of the restart strategies.
\<close>

section \<open>Exits of supervised workers\<close>

lemma find_index_Some: "find_index P xs = Some i \<Longrightarrow> i < length xs \<and> P (xs ! i)"
  by (induction xs arbitrary: i) (auto split: if_splits)

lemma find_index_None: "find_index P xs = None \<longleftrightarrow> (\<forall>x \<in> set xs. \<not> P x)"
  by (induction xs) auto

lemma find_index_unique:
  assumes "i < length xs" and "P (xs ! i)" and "\<And>j. j < length xs \<Longrightarrow> P (xs ! j) \<Longrightarrow> j = i"
  shows "find_index P xs = Some i"
proof (cases "find_index P xs")
  case None
  with assms(1,2) show ?thesis by (metis find_index_None nth_mem)
next
  case (Some j)
  have "j = i" using find_index_Some [OF Some] assms(3) by blast
  with Some show ?thesis by simp
qed

definition detached :: "ChildRecord \<Rightarrow> ChildRecord" where
  "detached r = r\<lparr>unsubscribeExit := None, handle := None\<rparr>"

lemma detach_moved:
  assumes "wired (records s) w" and "i < length (records s)" and "unsubscribeExit (records s ! i) = Some h"
  shows "moved (records s) w ((records s)[i := detached (records s ! i)]) (w\<lparr>live := live w - {h}\<rparr>)"
    and "\<not> stopping (records s ! i)"
proof -
  let ?r = "records s ! i"
  have "attached ?r" using assms(1,2) by (auto simp: wired_def list_all_length)
  then have r: "handle ?r = Some h" "\<not> stopping ?r" using assms(3) by (auto simp: attached_def)
  have "wired (take i (records s) @ [?r] @ drop (Suc i) (records s)) w"
    using assms(1) split_at [OF assms(2)] by simp
  moreover have "moved [?r] w [detached ?r] (w\<lparr>live := live w - {h}\<rparr>)"
    using r by (auto simp: moved_def detached_def attached_def)
  ultimately show "moved (records s) w ((records s)[i := detached ?r]) (w\<lparr>live := live w - {h}\<rparr>)"
    using moved_context split_at [OF assms(2)] update_split [OF assms(2)] by metis
  show "\<not> stopping ?r" by (fact r)
qed

lemma worker_exits_effect:
  assumes "wired (records s) w" and "sup_state s = Running"
    and "find_index (\<lambda>r. unsubscribeExit r = Some h) (records s) = Some i"
    and "worker_exits env h reason s w = (s', w')"
  shows "moved (records s) w (records s') w' \<and> roster s' = roster s \<and> exit_effect i s w s' w' \<and>
    (sup_state s' = Running \<or> sup_state s' = Stopped \<and> hlist (records s') = [])"
proof -
  have i: "i < length (records s)" "unsubscribeExit (records s ! i) = Some h"
    using find_index_Some [OF assms(3)] by auto
  let ?w1 = "w\<lparr>live := live w - {h}\<rparr>" and ?r1 = "detached (records s ! i)"
  let ?s1 = "s\<lparr>records := (records s)[i := ?r1]\<rparr>"
  note det = detach_moved [OF assms(1) i]
  have wd: "wired (records ?s1) ?w1" using moved_wired [OF det(1) assms(1)] by simp
  have ros: "roster ?s1 = roster s" using i by (simp add: roster_def detached_def map_update_same)
  have trs: "map tracker (records ?s1) = map tracker (records s)" using i by (simp add: detached_def map_update_same)
  have r1: "records ?s1 ! i = ?r1" using i by simp
  show ?thesis
  proof (cases "reason = Normal")
    case True
    have res: "s' = ?s1" "w' = emit (makeChildStopped ?s1 ?r1 ''normal'' ?w1) ?w1"
      using assms(3,4) det(2) True by (auto simp: worker_exits_def handleExit_def Let_def detached_def)
    have "moved (records s) w (records s') w'"
      using det(1) by (rule moved_same_wiring) (simp_all add: res)
    moreover have "exit_effect i s w s' w'"
    proof -
      have "map tracker (records s') = (map tracker (records s))[i := tracker (records s ! i)]"
        using trs unfolding res by (metis list_update_id map_update)
      then show ?thesis unfolding exit_effect_def
        by (intro disjI1 conjI exI [of _ "[makeChildStopped ?s1 ?r1 ''normal'' ?w1]"] exI [of _ "tracker (records s ! i)"])
          (simp_all add: res no_restart_def makeChildStopped_def)
    qed
    ultimately show ?thesis using ros assms(2) by (simp add: res)
  next
    case False
    have "(case restartOrEscalate env i reason ?s1 ?w1 of
            (None, s2, w2) \<Rightarrow> (s2, w2)
          | (Some msg, s2, w2) \<Rightarrow>
              let (r2, w3) = emitEscalation s2 (records s2 ! i) start_failed msg w2
              in (s2\<lparr>records := (records s2)[i := r2]\<rparr>, w3)) = (s', w')"
      using assms(3,4) det(2) False by (simp add: worker_exits_def handleExit_def Let_def detached_def)
    from handleExit_effect [OF wd _ _ _ False this] i assms(2)
    have eff: "moved (records ?s1) ?w1 (records s') w'" "roster s' = roster ?s1" "exit_effect i ?s1 ?w1 s' w'"
      "sup_state s' = Running \<or> sup_state s' = Stopped \<and> hlist (records s') = []"
      by (auto simp: detached_def)
    have "moved (records s) w (records s') w'"
      using det(1) _ assms(1) by (rule moved_trans) (use eff(1) in simp)
    moreover have "exit_effect i s w s' w'"
      using eff(3) i unfolding exit_effect_def trs
      by (simp add: detached_def exhausted_def fresh_stamps_def)
    ultimately show ?thesis using eff ros by simp
  qed
qed

section \<open>Runs\<close>

datatype sup_op =
    OpStart
  | OpStop string
  | OpAdd ChildSpec "RestartPolicy option"
  | OpRemove string string
  | OpExit nat ExitReason

text \<open>An operation that throws changes nothing.\<close>

fun sup_apply :: "env \<Rightarrow> sup_op \<Rightarrow> Supervisor \<times> world \<Rightarrow> Supervisor \<times> world" where
  "sup_apply env OpStart (s, w) = (case start env s w of Inl _ \<Rightarrow> (s, w) | Inr sw \<Rightarrow> sw)"
| "sup_apply env (OpStop reason) (s, w) = stop reason s w"
| "sup_apply env (OpAdd sp po) (s, w) = (case addChild env sp po s w of Inl _ \<Rightarrow> (s, w) | Inr sw \<Rightarrow> sw)"
| "sup_apply env (OpRemove c reason) (s, w) = removeChild c reason s w"
| "sup_apply env (OpExit h reason) (s, w) = worker_exits env h reason s w"

text \<open>A step: some milliseconds pass, then an operation runs.\<close>

fun sup_exec :: "env \<Rightarrow> nat \<times> sup_op \<Rightarrow> Supervisor \<times> world \<Rightarrow> Supervisor \<times> world" where
  "sup_exec env (d, op) (s, w) = sup_apply env op (s, w\<lparr>now := now w + int d\<rparr>)"

definition new_world :: "ms \<Rightarrow> world" where
  "new_world t = \<lparr>bus = new_bus, now = t, factoryCalls = 0, live = {}\<rparr>"

definition sup_inv :: "Supervisor \<times> world \<Rightarrow> bool" where
  "sup_inv sw = (case sw of (s, w) \<Rightarrow>
     distinct (map (\<lambda>r. childId (spec r)) (records s)) \<and> (\<forall>r \<in> set (records s). valid_policy (policy r)) \<and>
     wired (records s) w \<and> live w = set (hlist (records s)) \<and>
     sup_state s \<in> {Idle, Running, Stopped} \<and> (sup_state s \<noteq> Running \<longrightarrow> hlist (records s) = []))"

lemma roster_ids: "roster s' = roster s \<Longrightarrow> map (\<lambda>r. childId (spec r)) (records s') = map (\<lambda>r. childId (spec r)) (records s)"
  by (drule arg_cong [where f = "map (childId \<circ> fst)"]) (simp add: roster_def comp_def)

lemma roster_policies: "roster s' = roster s \<Longrightarrow> policy ` set (records s') = policy ` set (records s)"
  by (drule arg_cong [where f = "\<lambda>x. snd ` set x"]) (simp add: roster_def image_image)

lemma sup_inv_moved:
  assumes "sup_inv (s, w)" and "moved (records s) w (records s') w'" and "roster s' = roster s"
    and "sup_state s' = Running \<or> sup_state s' = Stopped \<and> hlist (records s') = []"
  shows "sup_inv (s', w')"
proof -
  have "live w' = set (hlist (records s'))" using assms(1,2) by (auto simp: sup_inv_def moved_def)
  moreover have "\<forall>r \<in> set (records s'). valid_policy (policy r)"
  proof -
    have "\<forall>p \<in> policy ` set (records s'). valid_policy p"
      using assms(1) unfolding roster_policies [OF assms(3)] by (simp add: sup_inv_def)
    then show ?thesis by simp
  qed
  ultimately show ?thesis
    using assms moved_wired [OF assms(2)] roster_ids [OF assms(3)] by (auto simp: sup_inv_def)
qed

lemma sup_inv_time: "sup_inv (s, w) \<Longrightarrow> sup_inv (s, w\<lparr>now := t\<rparr>)"
  by (auto simp: sup_inv_def wired_def)

lemma set_remove_first: "set (remove_first P xs) \<subseteq> set xs"
  by (induction xs) auto

lemma distinct_remove_first: "distinct (map f xs) \<Longrightarrow> distinct (map f (remove_first P xs))"
  using set_remove_first by (induction xs) (auto simp: image_iff, fastforce)

lemma subscribed_iff:
  assumes "wired rs w"
  shows "h \<in> set (hlist rs) \<longleftrightarrow> (\<exists>r \<in> set rs. unsubscribeExit r = Some h)"
proof -
  have "h \<in> set (hlist rs) \<longleftrightarrow> (\<exists>r \<in> set rs. handle r = Some h)"
    by (induction rs) (auto split: option.splits)
  moreover have "\<forall>r \<in> set rs. unsubscribeExit r = handle r"
    using assms by (auto simp: wired_def list_all_iff attached_def)
  ultimately show ?thesis by auto
qed

lemma sup_apply_inv:
  assumes "sup_inv (s, w)" and "sup_apply env op (s, w) = (s', w')"
  shows "sup_inv (s', w')"
proof -
  note inv = assms(1) [unfolded sup_inv_def, simplified]
  show ?thesis
  proof (cases op)
    case OpStart
    show ?thesis
    proof (cases "start env s w")
      case (Inl e)
      with OpStart assms show ?thesis by simp
    next
      case (Inr sw)
      with OpStart assms(2) have st: "start env s w = Inr (s', w')" by simp
      then have "hlist (records s) = []" using inv by (auto simp: start_def split: if_splits)
      from start_moved [OF _ this st] inv show ?thesis by (intro sup_inv_moved [OF assms(1)]) auto
    qed
  next
    case (OpStop reason)
    with assms(2) have "stop reason s w = (s', w')" by simp
    from stop_moved [OF _ _ _ this] inv show ?thesis by (intro sup_inv_moved [OF assms(1)]) auto
  next
    case (OpAdd sp po)
    show ?thesis
    proof (cases "addChild env sp po s w")
      case (Inl e)
      with OpAdd assms show ?thesis by simp
    next
      case (Inr sw)
      with OpAdd assms(2) have ad: "addChild env sp po s w = Inr (s', w')" by simp
      have wd: "wired (records s) w" using inv by blast
      from addChild_moved [OF wd ad] obtain r where r: "records s' = records s @ [r]" "spec r = sp"
        "valid_policy (policy r)" "moved (records s) w (records s') w'" "sup_state s' = sup_state s"
        "sup_state s \<noteq> Running \<longrightarrow> handle r = None" "\<forall>r \<in> set (records s). childId (spec r) \<noteq> childId sp" by blast
      then have "live w' = set (hlist (records s'))" using inv by (auto simp: moved_def)
      moreover have "wired (records s') w'" using r(4) wd by (rule moved_wired)
      ultimately show ?thesis using r inv by (auto simp: sup_inv_def)
    qed
  next
    case (OpRemove c reason)
    with assms(2) have "removeChild c reason s w = (s', w')" by simp
    note rm = removeChild_moved [OF _ this]
    have wd: "wired (records s) w" using inv by blast
    have sub: "set (records s') \<subseteq> set (records s)" unfolding rm(3) [OF wd] by (rule set_remove_first)
    have "live w' = set (hlist (records s'))" using inv rm(1) [OF wd] by (auto simp: moved_def)
    moreover have "sup_state s' \<noteq> Running \<longrightarrow> hlist (records s') = []"
      using inv rm(2) [OF wd] sub by (auto simp: hlist_Nil_iff)
    moreover have "wired (records s') w'" using rm(1) [OF wd] wd by (rule moved_wired)
    moreover have "distinct (map (\<lambda>r. childId (spec r)) (records s'))"
      unfolding rm(3) [OF wd] by (rule distinct_remove_first) (use inv in blast)
    moreover have "\<forall>r \<in> set (records s'). valid_policy (policy r)" using sub inv by blast
    ultimately show ?thesis using inv rm(2) [OF wd] by (simp add: sup_inv_def)
  next
    case (OpExit h reason)
    with assms(2) have ex: "worker_exits env h reason s w = (s', w')" by simp
    show ?thesis
    proof (cases "find_index (\<lambda>r. unsubscribeExit r = Some h) (records s)")
      case None
      then have "h \<notin> live w" using inv subscribed_iff by (auto simp: find_index_None)
      with None ex assms(1) show ?thesis by (simp add: worker_exits_def)
    next
      case (Some i)
      then have "h \<in> set (hlist (records s))"
        using find_index_Some [OF Some] inv subscribed_iff [of "records s" w h] nth_mem by blast
      then have "sup_state s = Running" using inv by (metis empty_iff empty_set)
      from worker_exits_effect [OF _ this Some ex] inv show ?thesis
        by (intro sup_inv_moved [OF assms(1)]) auto
    qed
  qed
qed

text \<open>The invariant holds in every state of every run.\<close>

interpretation sup_runs: stepping "sup_exec env" sup_inv
  for env
proof unfold_locales
  fix sw :: "Supervisor \<times> world" and c :: "nat \<times> sup_op"
  assume inv: "sup_inv sw"
  obtain s w d op where sw: "sw = (s, w)" "c = (d, op)" by (metis prod.exhaust)
  then have "sup_inv (s, w\<lparr>now := now w + int d\<rparr>)" using inv sup_inv_time by simp
  from sup_apply_inv [OF this] show "sup_inv (sup_exec env c sw)"
    unfolding sw sup_exec.simps by (metis prod.exhaust)
qed

lemma check_duplicates_Inr:
  "check_duplicates seen sps = Inr u \<longleftrightarrow> distinct (map childId sps) \<and> set (map childId sps) \<inter> set seen = {}"
  by (induction sps arbitrary: seen) auto

lemma resolve_records_Inr:
  assumes "resolve_records base sps = Inr rs"
  shows "map spec rs = sps"
    and "\<forall>r \<in> set rs. valid_policy (policy r) \<and> handle r = None \<and> unsubscribeExit r = None \<and> tracker r = []"
  using assms by (induction sps arbitrary: rs) (auto simp: result_simps new_record_def, metis resolve_valid)

lemma new_supervisor_inv:
  assumes "new_supervisor base specs role swarm owns = Inr s"
  shows "sup_inv (s, new_world t)" and "map spec (records s) = specs" and "sup_state s = Idle"
    and "\<forall>r \<in> set (records s). tracker r = []"
proof -
  obtain rs where rs: "resolve_records base specs = Inr rs" and d: "distinct (map childId specs)"
    and s: "s = \<lparr>roleId = role, sup_swarmId = swarm, ownsBus = owns, records = rs, sup_state = Idle\<rparr>"
    using assms by (auto simp: new_supervisor_def result_simps check_duplicates_Inr)
  note r = resolve_records_Inr [OF rs]
  have fresh: "\<forall>r \<in> set rs. handle r = None \<and> unsubscribeExit r = None \<and> tracker r = []"
    using r(2) by blast
  then have "hlist rs = []" by (simp add: hlist_Nil_iff)
  moreover have "map (\<lambda>r. childId (spec r)) rs = map childId specs" by (simp flip: r(1))
  ultimately show "sup_inv (s, new_world t)" using d r(2) fresh
    by (auto simp: sup_inv_def s wired_def new_world_def attached_def list_all_iff)
  show "map spec (records s) = specs" "sup_state s = Idle" "\<forall>r \<in> set (records s). tracker r = []"
    using r fresh by (simp_all add: s)
qed

section \<open>The restart budget\<close>

definition restart_times :: "string \<Rightarrow> SupervisorEvent list \<Rightarrow> ms list" where
  "restart_times c es =
     concat (map (\<lambda>e. case e of ChildRestarted _ _ c' t _ \<Rightarrow> if c' = c then [t] else [] | _ \<Rightarrow> []) es)"

lemma restart_times_append [simp]: "restart_times c (es @ fs) = restart_times c es @ restart_times c fs"
  by (simp add: restart_times_def)

lemma restart_times_none [simp]: "no_restart es \<Longrightarrow> restart_times c es = []"
  by (induction es) (auto simp: restart_times_def no_restart_def split: SupervisorEvent.splits)














section \<open>Properties of runs\<close>

text \<open>A supervisor with two children, for the witnesses.\<close>

definition demo_policy :: "string \<Rightarrow> RestartPolicy" where
  "demo_policy st = \<lparr>strategy = st, intensity = 1, withinMs = 1000, escalate = ''role''\<rparr>"

definition demo_specs :: "ChildSpec list" where
  "demo_specs = map (\<lambda>c. \<lparr>childId = c, restartOverrides = None\<rparr>) [''a'', ''b'', ''c'']"

definition demo :: "string \<Rightarrow> Supervisor" where
  "demo st = \<lparr>roleId = None, sup_swarmId = None, ownsBus = True,
     records = map (\<lambda>sp. new_record sp (demo_policy st)) demo_specs, sup_state = Idle\<rparr>"

lemma demo_new:
  "new_supervisor (demo_policy ''one_for_one'') demo_specs None None True = Inr (demo ''one_for_one'')"
  "new_supervisor (demo_policy ''rest_for_one'') demo_specs None None True = Inr (demo ''rest_for_one'')"
  by code_simp+





text \<open>A supervisor never loses a worker: at every moment of every run the running workers are
  exactly those its records hold, each held by one record; a stopped supervisor leaves no worker
  running; child identifiers stay unique and policies valid.\<close>

theorem workers_owned:
  assumes "new_supervisor base specs role swarm owns = Inr s0"
    and "fold (sup_exec env) ops (s0, new_world t0) = (s, w)"
  shows "live w = set (hlist (records s)) \<and> distinct (hlist (records s)) \<and>
    (sup_state s = Stopped \<longrightarrow> live w = {}) \<and> sup_state s \<in> {Idle, Running, Stopped} \<and>
    distinct (map (\<lambda>r. childId (spec r)) (records s)) \<and> (\<forall>r \<in> set (records s). valid_policy (policy r))"
proof -
  have "sup_inv (s, w)"
    using sup_runs.run_inv [OF new_supervisor_inv(1) [OF assms(1)], of env ops] assms(2) by metis
  then show ?thesis by (auto simp: sup_inv_def wired_def)
qed

theorem workers_owned_witness:
  "live (snd (fold (sup_exec (\<lambda>_. Boots)) [(0, OpStart), (5, OpStop ''bye'')] (demo ''one_for_one'', new_world 0))) = {}"
proof -
  let ?final = "fold (sup_exec (\<lambda>_. Boots)) [(0, OpStart), (5, OpStop ''bye'')] (demo ''one_for_one'', new_world 0)"
  have "sup_state (fst ?final) = Stopped" by code_simp
  with workers_owned [OF demo_new(1) prod.collapse [symmetric]] show ?thesis by blast
qed

section \<open>Properties of exits\<close>

text \<open>A supervised exit: the record at index \<open>i\<close> holds worker \<open>h\<close> of a running supervisor.\<close>

definition supervised :: "nat \<Rightarrow> nat \<Rightarrow> Supervisor \<Rightarrow> world \<Rightarrow> bool" where
  "supervised h i s w \<longleftrightarrow> wired (records s) w \<and> sup_state s = Running \<and> i < length (records s) \<and>
     handle (records s ! i) = Some h"

lemma hlist_nth: "i < length rs \<Longrightarrow> handle (rs ! i) = Some h \<Longrightarrow> hlist rs = hlist (take i rs) @ h # hlist (drop (Suc i) rs)"
  by (subst split_at [of i rs]) simp_all

lemma supervised_index:
  assumes "supervised h i s w"
  shows "find_index (\<lambda>r. unsubscribeExit r = Some h) (records s) = Some i" and "wired (records s) w"
    and "unsubscribeExit (records s ! i) = Some h"
proof -
  have wd: "wired (records s) w" and i: "i < length (records s)" "handle (records s ! i) = Some h"
    using assms by (auto simp: supervised_def)
  then have att: "unsubscribeExit r = handle r" if "r \<in> set (records s)" for r
    using that by (auto simp: wired_def list_all_iff attached_def)
  have d: "distinct (hlist (take i (records s)) @ h # hlist (drop (Suc i) (records s)))"
    using wd hlist_nth [OF i] by (simp add: wired_def)
  have uniq: "j = i" if j: "j < length (records s)" "handle (records s ! j) = Some h" for j
  proof (rule ccontr)
    have mem: "h \<in> set (hlist rs)" if "r \<in> set rs" "handle r = Some h" for r rs
      using that by (induction rs) auto
    assume "j \<noteq> i"
    then consider "j < i" | "i < j" by linarith
    then have "records s ! j \<in> set (take i (records s)) \<or> records s ! j \<in> set (drop (Suc i) (records s))"
    proof cases
      case 1
      then show ?thesis using i(1) by (auto simp: in_set_conv_nth)
    next
      case 2
      then show ?thesis using j(1) by (auto simp: in_set_conv_nth intro!: exI [of _ "j - Suc i"])
    qed
    with mem j(2) d show False by auto
  qed
  show "wired (records s) w" "unsubscribeExit (records s ! i) = Some h" using wd att i by auto
  show "find_index (\<lambda>r. unsubscribeExit r = Some h) (records s) = Some i"
  proof (rule find_index_unique)
    fix j assume j: "j < length (records s)" "unsubscribeExit (records s ! j) = Some h"
    then have "handle (records s ! j) = Some h" using att [OF nth_mem] by simp
    with j(1) show "j = i" by (rule uniq)
  qed (use att i in auto)
qed

lemma worker_exits_restarts:
  assumes "supervised h i s w" and "reason \<noteq> Normal"
  shows "worker_exits env h reason s w =
    (case restartOrEscalate env i reason (s\<lparr>records := (records s)[i := detached (records s ! i)]\<rparr>)
        (w\<lparr>live := live w - {h}\<rparr>) of
       (None, s2, w2) \<Rightarrow> (s2, w2)
     | (Some msg, s2, w2) \<Rightarrow>
         let (r2, w3) = emitEscalation s2 (records s2 ! i) start_failed msg w2
         in (s2\<lparr>records := (records s2)[i := r2]\<rparr>, w3))"
  using supervised_index [OF assms(1)] detach_moved(2) [of s w i h] assms
  by (simp add: worker_exits_def handleExit_def Let_def detached_def supervised_def)

lemma exhausted_exit:
  assumes "supervised h i s w" and "reason \<noteq> Normal" and "exhausted (records s ! i) w"
    and "worker_exits env h reason s w = (s', w')"
  shows "sup_state s' = Stopped \<and> moved (records s) w (records s') w' \<and> hlist (records s') = [] \<and>
    roster s' = roster s \<and> factoryCalls w' = factoryCalls w \<and>
    published (bus w') = published (bus w) @ budget_escalation s (records s ! i) w #
      stop_events s ''intensity_exceeded'' (now w) ((records s)[i := detached (records s ! i)])"
proof -
  let ?s1 = "s\<lparr>records := (records s)[i := detached (records s ! i)]\<rparr>" and ?w1 = "w\<lparr>live := live w - {h}\<rparr>"
  have inv: "sup_state s = Running" "i < length (records s)" using assms(1) by (simp_all add: supervised_def)
  note ix = supervised_index [OF assms(1)]
  note det = detach_moved(1) [OF ix(2) inv(2) ix(3)]
  have wd: "wired (records ?s1) ?w1" using moved_wired [OF det ix(2)] by simp
  have ex: "exhausted (records ?s1 ! i) ?w1" using assms(3) inv(2) by (simp add: exhausted_def fresh_stamps_def detached_def)
  have len: "i < length (records ?s1)" and run: "sup_state ?s1 = Running" using inv by simp_all
  have same: "budget_escalation ?s1 (records ?s1 ! i) ?w1 = budget_escalation s (records s ! i) w"
    "stop_events ?s1 x y z = stop_events s x y z" for x y z
    using inv(2) by (simp_all add: budget_escalation_def fresh_stamps_def detached_def stop_events_def)
  show ?thesis
  proof (rule restartOrEscalate_escalates [OF wd len ex run, of env reason])
    fix s2 w2
    assume r: "restartOrEscalate env i reason ?s1 ?w1 = (None, s2, w2)" "sup_state s2 = Stopped"
      "factoryCalls w2 = factoryCalls ?w1"
      and m: "moved (records ?s1) ?w1 (records s2) w2" "hlist (records s2) = []" "roster s2 = roster ?s1"
      and p: "published (bus w2) = published (bus ?w1) @ budget_escalation ?s1 (records ?s1 ! i) ?w1 #
        stop_events ?s1 ''intensity_exceeded'' (now ?w1) (records ?s1)"
    have eq: "s' = s2" "w' = w2" using assms(4) worker_exits_restarts [OF assms(1,2)] r(1) by simp_all
    have "moved (records s) w (records s2) w2" using det _ ix(2) by (rule moved_trans) (use m in simp)
    moreover have "roster ?s1 = roster s" using inv(2) by (simp add: roster_def detached_def map_update_same)
    ultimately show ?thesis using r m p [unfolded same] eq by simp
  qed
qed

text \<open>When a worker crashes or is killed and its child has used up the budget, the supervisor
  publishes one escalation for it, with the restart count and the target of its policy, stops every
  other worker from the last child to the first, ends stopped with none of its workers running and
  calls no factory.\<close>

theorem exhausted_exit_escalates:
  assumes "supervised h i s w" and "reason \<noteq> Normal" and "exhausted (records s ! i) w"
    and "worker_exits env h reason s w = (s', w')"
  shows "sup_state s' = Stopped \<and> live w' = live w - set (hlist (records s)) \<and> factoryCalls w' = factoryCalls w \<and>
    published (bus w') = published (bus w) @ budget_escalation s (records s ! i) w #
      stop_events s ''intensity_exceeded'' (now w) ((records s)[i := detached (records s ! i)])"
  using exhausted_exit [OF assms] by (simp add: moved_def)

text \<open>The demo supervisor after its start and, in the second state, after one restart of \<open>a\<close>.\<close>

definition demo_started :: "string \<Rightarrow> Supervisor \<times> world" where
  "demo_started st = sup_exec (\<lambda>_. Boots) (0, OpStart) (demo st, new_world 0)"

definition demo_restarted :: "string \<Rightarrow> Supervisor \<times> world" where
  "demo_restarted st = sup_exec (\<lambda>_. Boots) (10, OpExit 0 Crashed) (demo_started st)"

theorem exhausted_exit_escalates_witness:
  "\<exists>s' w'. worker_exits (\<lambda>_. Boots) 3 Killed (fst (demo_restarted ''one_for_one'')) (snd (demo_restarted ''one_for_one'')) = (s', w') \<and>
     sup_state s' = Stopped \<and> live w' = {}"
proof -
  let ?s = "fst (demo_restarted ''one_for_one'')" and ?w = "snd (demo_restarted ''one_for_one'')"
  have h: "supervised 3 0 ?s ?w" "exhausted (records ?s ! 0) ?w" "live ?w - set (hlist (records ?s)) = {}" by code_simp+
  obtain s' w' where r: "worker_exits (\<lambda>_. Boots) 3 Killed ?s ?w = (s', w')" by (metis prod.exhaust)
  show ?thesis using r exhausted_exit_escalates [OF h(1) _ h(2) r] h(3) by simp
qed

text \<open>With budget left and the strategy rest-for-one, a crash stops the children after the crashed
  one from the last to the first, then boots the crashed one and every later child in order; the
  earlier children are untouched. Every child from the crashed one on runs afterwards on a new worker,
  including a later sibling that had exited normally before.\<close>

theorem rest_for_one_restarts:
  assumes "supervised h i s w" and "reason \<noteq> Normal" and "\<not> exhausted (records s ! i) w"
    and "strategy (policy (records s ! i)) = ''rest_for_one''" and "env = (\<lambda>_. Boots)"
    and "worker_exits env h reason s w = (s', w')"
  shows "sup_state s' = Running \<and> take i (records s') = take i (records s) \<and>
    hlist (drop i (records s')) = [factoryCalls w..<factoryCalls w + length (drop i (records s))] \<and>
    (\<exists>starts. published (bus w') = published (bus w) @
      ChildRestarted (sup_swarmId s) (roleId s) (childId (spec (records s ! i))) (now w) reason #
      stop_events s ''rest_for_one'' (now w) (drop (Suc i) (records s)) @ starts \<and>
      map (\<lambda>e. case e of ChildStarted _ _ c _ _ \<Rightarrow> c | _ \<Rightarrow> []) starts = map (\<lambda>r. childId (spec r)) (drop i (records s)))"
proof -
  let ?r = "records s ! i" and ?w1 = "w\<lparr>live := live w - {h}\<rparr>"
  let ?s1 = "s\<lparr>records := (records s)[i := detached ?r]\<rparr>"
  define r2 where "r2 = (detached ?r)\<lparr>tracker := record_stamp (now w) (fresh_stamps ?r w), startCount := Suc (startCount ?r)\<rparr>"
  define s2 where "s2 = s\<lparr>records := (records s)[i := r2]\<rparr>"
  define w2 where "w2 = emit (ChildRestarted (sup_swarmId s) (roleId s) (childId (spec ?r)) (now w) reason) ?w1"
  have inv: "wired (records s) w" "sup_state s = Running" "i < length (records s)" using assms(1) by (simp_all add: supervised_def)
  note ix = supervised_index [OF assms(1)]
  have m2: "moved (records s) w (records s2) w2"
    using detach_moved(1) [OF ix(2) inv(3) ix(3)]
    by (rule moved_same_wiring) (simp_all add: s2_def w2_def r2_def wiring_def map_update)
  then have wd: "wired (records s2) w2" using ix(2) by (rule moved_wired)
  have at: "i < length (records s2)" "handle (records s2 ! i) = None" using inv(3) by (simp_all add: s2_def r2_def detached_def)
  obtain e s3 w3 where rr: "restartRestForOne env i s2 w2 = (e, s3, w3)" by (metis prod_cases3)
  have never: "fst (boot_all env s rs w) = None" for s rs w
    unfolding assms(5)
    by (induction rs arbitrary: w) (simp_all add: bootRecord_def Let_def split_beta)
  have "fst (restartRestForOne env i s2 w2) = None"
    by (simp add: restartRestForOne_def Let_def split_beta never del: boot_all.simps)
  then have e: "e = None" using rr by simp
  have "restartOrEscalate env i reason ?s1 ?w1 = restartRestForOne env i s2 w2"
    using assms(3,4) inv(3)
    by (simp add: restartOrEscalate_def tracker_defs exhausted_def fresh_stamps_def detached_def Let_def
        s2_def w2_def r2_def makeChildRestarted_def)
  then have res: "s' = s3" "w' = w3" using assms(6) worker_exits_restarts [OF assms(1,2)] rr e by simp_all
  note rm = restartRestForOne_moved [OF wd at rr]
  have drops: "map (\<lambda>r. childId (spec r)) (drop i (records s2)) = map (\<lambda>r. childId (spec r)) (drop i (records s))"
    "drop (Suc i) (records s2) = drop (Suc i) (records s)" "take i (records s2) = take i (records s)"
    using inv(3) by (simp_all add: s2_def r2_def detached_def drop_map [symmetric] map_update_same)
  have "length (drop i (records s2)) = length (drop i (records s))" by (simp add: s2_def)
  moreover from rm(5) e have "published (bus w3) = published (bus w2) @
      stop_events s2 ''rest_for_one'' (now w2) (drop (Suc i) (records s2)) @ start_events s2 (now w2) (drop i (records s2))"
    by auto
  ultimately show ?thesis
    using rm(3,4) rm(6) [OF e] inv(2) drops
    by (auto simp: res s2_def [of] w2_def stop_events_def start_events_def comp_def)
qed

theorem rest_for_one_restarts_witness:
  "hlist (drop 1 (records (fst (worker_exits (\<lambda>_. Boots) 1 Crashed
      (fst (worker_exits (\<lambda>_. Boots) 2 Normal (fst (demo_started ''rest_for_one'')) (snd (demo_started ''rest_for_one''))))
      (snd (worker_exits (\<lambda>_. Boots) 2 Normal (fst (demo_started ''rest_for_one'')) (snd (demo_started ''rest_for_one''))))))))
   = [3, 4]"
proof -
  let ?sw = "worker_exits (\<lambda>_. Boots) 2 Normal (fst (demo_started ''rest_for_one'')) (snd (demo_started ''rest_for_one''))"
  have h: "supervised 1 1 (fst ?sw) (snd ?sw)" "\<not> exhausted (records (fst ?sw) ! 1) (snd ?sw)"
    "strategy (policy (records (fst ?sw) ! 1)) = ''rest_for_one''" by code_simp+
  have "[factoryCalls (snd ?sw)..<factoryCalls (snd ?sw) + length (drop 1 (records (fst ?sw)))] = [3, 4]" by code_simp
  with rest_for_one_restarts [OF h(1) ExitReason.distinct(2) h(2,3) refl prod.collapse [symmetric]] show ?thesis by simp
qed

text \<open>With budget left and the strategy one-for-one, a crash touches no other child. If the factory
  rejects, the supervisor publishes a start-failed escalation and goes on running with that child
  down: no worker is subscribed for it any more, so no later exit ever restarts it.\<close>

theorem one_for_one_restarts:
  assumes "supervised h i s w" and "reason \<noteq> Normal" and "\<not> exhausted (records s ! i) w"
    and "strategy (policy (records s ! i)) = ''one_for_one''" and "worker_exits env h reason s w = (s', w')"
  shows "sup_state s' = Running \<and> factoryCalls w' = Suc (factoryCalls w) \<and> length (records s') = length (records s) \<and>
    (\<forall>j < length (records s). j \<noteq> i \<longrightarrow> records s' ! j = records s ! j) \<and>
    (case env (factoryCalls w) of
       FactoryRejects msg \<Rightarrow> handle (records s' ! i) = None \<and> unsubscribeExit (records s' ! i) = None \<and>
         (\<exists>e. last (published (bus w')) = EscalationEvent e \<and> er_cause e = start_failed \<and> er_reason e = msg)
     | _ \<Rightarrow> handle (records s' ! i) = Some (factoryCalls w))"
proof -
  let ?r = "records s ! i"
  have inv: "sup_state s = Running" "i < length (records s)" using assms(1) by (simp_all add: supervised_def)
  have ne: "shouldEscalate (now w) (intensity (policy ?r)) (withinMs (policy ?r)) (tracker ?r) = (False, fresh_stamps ?r w)"
    using assms(3) by (simp add: shouldEscalate_exhausted)
  show ?thesis
    using assms(5) inv ne assms(4) unfolding worker_exits_restarts [OF assms(1,2)]
    by (auto simp: restartOrEscalate_def detached_def Let_def bootRecord_def emitEscalation_def tracker_defs emit_def
        split: boot_outcome.splits)
qed

theorem one_for_one_restarts_witness:
  "\<exists>s' w'. worker_exits (\<lambda>_. FactoryRejects ''boom'') 0 Crashed (fst (demo_started ''one_for_one'')) (snd (demo_started ''one_for_one'')) = (s', w') \<and>
     sup_state s' = Running \<and> handle (records s' ! 0) = None"
proof -
  let ?s = "fst (demo_started ''one_for_one'')" and ?w = "snd (demo_started ''one_for_one'')"
  have h: "supervised 0 0 ?s ?w" "\<not> exhausted (records ?s ! 0) ?w"
    "strategy (policy (records ?s ! 0)) = ''one_for_one''" by code_simp+
  obtain s' w' where r: "worker_exits (\<lambda>_. FactoryRejects ''boom'') 0 Crashed ?s ?w = (s', w')"
    by (metis prod.exhaust)
  show ?thesis using r one_for_one_restarts [OF h(1) ExitReason.distinct(2) h(2,3) r] by simp
qed

lemma boot_all_ok:
  "fst (boot_all env s rs w) = None \<longleftrightarrow> (\<forall>k < length rs. env (factoryCalls w + k) = Boots)"
proof (induction rs arbitrary: w)
  case (Cons r rs)
  obtain e r1 w1 where b: "bootRecord env s r w = (e, r1, w1)" by (metis prod_cases3)
  have "factoryCalls w1 = Suc (factoryCalls w)" and "e = None \<longleftrightarrow> env (factoryCalls w) = Boots"
    using b by (auto simp: bootRecord_def Let_def split: boot_outcome.splits)
  moreover have "(\<forall>k < length (r # rs). env (factoryCalls w + k) = Boots) \<longleftrightarrow>
      env (factoryCalls w) = Boots \<and> (\<forall>k < length rs. env (Suc (factoryCalls w) + k) = Boots)"
    by (auto simp: less_Suc_eq_0_disj)
  ultimately show ?case using b Cons.IH [of w1] by (auto simp: split_beta Let_def split: option.splits)
qed simp

text \<open>Starting an idle supervisor boots its children in order. If all boot, it runs with one worker
  per child and one started event per child, in order. If one fails, the children before it are
  stopped, a start-failed escalation names the failing child, and the supervisor ends stopped with no
  worker running.\<close>

theorem start_all_or_nothing:
  assumes "sup_inv (s, w)" and "sup_state s = Idle"
  shows "\<exists>s' w'. start env s w = Inr (s', w') \<and>
    (if \<forall>k < length (records s). env (factoryCalls w + k) = Boots
     then sup_state s' = Running \<and> hlist (records s') = [factoryCalls w..<factoryCalls w + length (records s)] \<and>
       published (bus w') = published (bus w) @ start_events s (now w) (records s)
     else sup_state s' = Stopped \<and> live w' = {} \<and>
       (\<exists>i e stops. i < length (records s) \<and> er_cause e = start_failed \<and> er_childId e = childId (spec (records s ! i)) \<and>
         published (bus w') = published (bus w) @ start_events s (now w) (take i (records s)) @ EscalationEvent e # stops))"
proof -
  let ?s1 = "s\<lparr>sup_state := Starting\<rparr>"
  have wd: "wired (records s) w" and h: "hlist (records s) = []" using assms by (auto simp: sup_inv_def)
  obtain e rs w1 where b: "boot_all env ?s1 (records s) w = (e, rs, w1)" by (metis prod_cases3)
  note m = boot_all_moved [OF wd h b]
  have ev: "start_events ?s1 t xs = start_events s t xs" for t xs by (simp add: start_events_def)
  have ok: "e = None \<longleftrightarrow> (\<forall>k < length (records s). env (factoryCalls w + k) = Boots)"
    using boot_all_ok [of env ?s1 "records s" w] b by simp
  obtain s' w' where st: "start env s w = Inr (s', w')"
    using assms(2) by (cases "start env s w") (auto simp: start_def split_beta Let_def split: option.splits)
  show ?thesis
  proof (cases e)
    case None
    with st b assms(2) have "s' = ?s1\<lparr>records := rs, sup_state := Running\<rparr>" "w' = w1"
      by (auto simp: start_def Let_def)
    with None m ok st ev show ?thesis by auto
  next
    case (Some im)
    then obtain i msg where e: "e = Some (i, msg)" by (cases im) auto
    have i: "i < length (records s)" using m e by simp
    obtain r w2 where esc: "emitEscalation ?s1 (rs ! i) start_failed msg w1 = (r, w2)" by (metis prod.exhaust)
    have stp: "sup_state s' = Stopped" "published (bus w') = published (bus w2) @
        stop_events (?s1\<lparr>records := rs[i := r]\<rparr>) ''supervisor_start_failed'' (now w2) (rs[i := r])"
      using st b e esc assms(2)
      by (auto simp: start_def teardownRunningChildren_def stop_reverse_closed Let_def)
    have "sup_inv (s', w')" using sup_apply_inv [OF assms(1), of env OpStart] st by simp
    then have "live w' = {}" using stp(1) by (simp add: sup_inv_def)
    moreover have "spec (rs ! i) = spec (records s ! i)"
    proof -
      have c: "map core rs = map core (records s)" using m by blast
      then have "length rs = length (records s)" using map_eq_imp_length_eq by metis
      then show ?thesis using arg_cong [OF c, of "\<lambda>x. x ! i"] i by (simp add: core_def)
    qed
    ultimately show ?thesis
      using st stp ok e i m emitEscalation_fields(6) [OF esc] ev by auto
  qed
qed

theorem start_all_or_nothing_witness:
  "\<exists>s' w'. start (\<lambda>n. if n = 1 then StartRejects ''no'' else Boots) (demo ''one_for_one'') (new_world 0) = Inr (s', w') \<and>
     sup_state s' = Stopped \<and> live w' = {}"
proof -
  have h: "sup_inv (demo ''one_for_one'', new_world 0)" "sup_state (demo ''one_for_one'') = Idle" by code_simp+
  have fails: "\<not> (\<forall>k < length (records (demo ''one_for_one'')).
      (if factoryCalls (new_world 0) + k = 1 then StartRejects ''no'' else Boots) = Boots)" by code_simp
  show ?thesis
    using start_all_or_nothing [OF h, of "\<lambda>n. if n = 1 then StartRejects ''no'' else Boots", unfolded if_not_P [OF fails]]
    by blast
qed

end
