(* ===== verification/Swarm.thy ===== *)
theory Swarm
  imports Supervision
begin

text \<open>
  The swarm (\<^verbatim>\<open>packages/core/supervisor/src/swarm.ts\<close>): role supervisors on one bus. The swarm's own
  listener, number 0 on the bus, reacts to an escalation whose target is the swarm by stopping every
  role in a microtask; that microtask is modelled as running right after the role operation that
  published the escalation.
\<close>

record RoleEntry =
  entry_roleId :: string
  supervisor :: Supervisor

record Swarm =
  swarm_id :: "string option"
  roles :: "RoleEntry list"
  swarm_state :: SupervisorState

definition new_swarm :: "string option \<Rightarrow> world \<Rightarrow> Swarm \<times> world" where
  "new_swarm swid w =
     (\<lparr>swarm_id = swid, roles = [], swarm_state = Idle\<rparr>, w\<lparr>bus := subscribe 0 (bus w)\<rparr>)"

definition addRole :: "string \<Rightarrow> RestartPolicy \<Rightarrow> ChildSpec list \<Rightarrow> Swarm \<Rightarrow> sup_error + Swarm" where
  "addRole rid p specs sw =
     bind_result (guard_result (swarm_state sw = Idle)
       (SupervisorError (''Swarm.addRole: disallowed in state '' @ state_text (swarm_state sw)))) (\<lambda>_.
     bind_result (guard_result (\<not> list_ex (\<lambda>e. entry_roleId e = rid) (roles sw))
       (SupervisorError (''duplicate roleId: '' @ rid))) (\<lambda>_.
     bind_result (new_supervisor p specs (Some rid) (swarm_id sw) False) (\<lambda>s.
       Inr (sw\<lparr>roles := roles sw @ [\<lparr>entry_roleId = rid, supervisor = s\<rparr>]\<rparr>))))"

definition role :: "string \<Rightarrow> Swarm \<Rightarrow> Supervisor option" where
  "role rid sw = map_option supervisor (find (\<lambda>e. entry_roleId e = rid) (roles sw))"

text \<open>Stop the entries that satisfy \<open>P\<close>, from the last to the first.\<close>

fun stop_roles :: "(RoleEntry \<Rightarrow> bool) \<Rightarrow> string \<Rightarrow> RoleEntry list \<Rightarrow> world \<Rightarrow> RoleEntry list \<times> world" where
  "stop_roles P reason [] w = ([], w)"
| "stop_roles P reason (e # es) w =
     (let (es', w1) = stop_roles P reason es w
      in if P e then (let (s, w2) = stop reason (supervisor e) w1 in (e\<lparr>supervisor := s\<rparr> # es', w2))
         else (e # es', w1))"

definition teardownStartedRoles :: "string \<Rightarrow> string \<Rightarrow> RoleEntry list \<Rightarrow> world \<Rightarrow> RoleEntry list \<times> world" where
  "teardownStartedRoles failingRoleId reason es w =
     stop_roles (\<lambda>e. entry_roleId e \<noteq> failingRoleId \<and> sup_state (supervisor e) = Running) reason es w"

definition drop_listeners :: "world \<Rightarrow> world" where
  "drop_listeners w = w\<lparr>bus := clear (unsubscribe 0 (bus w))\<rparr>"

text \<open>Start the entries in order. The result says which entry ended \<^verbatim>\<open>start()\<close> not running, or which
  error \<^verbatim>\<open>start()\<close> threw.\<close>

fun start_roles ::
  "env \<Rightarrow> RoleEntry list \<Rightarrow> world \<Rightarrow> (sup_error + string) option \<times> RoleEntry list \<times> world" where
  "start_roles env [] w = (None, [], w)"
| "start_roles env (e # es) w =
     (case start env (supervisor e) w of
        Inl err \<Rightarrow> (Some (Inl err), e # es, w)
      | Inr (s, w1) \<Rightarrow>
          if sup_state s \<noteq> Running then (Some (Inr (entry_roleId e)), e\<lparr>supervisor := s\<rparr> # es, w1)
          else (let (res, es', w2) = start_roles env es w1 in (res, e\<lparr>supervisor := s\<rparr> # es', w2)))"

definition swarm_start :: "env \<Rightarrow> Swarm \<Rightarrow> world \<Rightarrow> sup_error option \<times> Swarm \<times> world" where
  "swarm_start env sw w =
     (if swarm_state sw \<noteq> Idle then
        (Some (SupervisorError (''Swarm.start: expected idle, got '' @ state_text (swarm_state sw))), sw, w)
      else
        let sw1 = sw\<lparr>swarm_state := Starting\<rparr>;
            (res, es, w1) = start_roles env (roles sw1) w
        in (case res of
              None \<Rightarrow> (None, sw1\<lparr>roles := es, swarm_state := Running\<rparr>, w1)
            | Some (Inl err) \<Rightarrow> (Some err, sw1\<lparr>roles := es\<rparr>, w1)
            | Some (Inr failing) \<Rightarrow>
                let (es2, w2) = teardownStartedRoles failing ''swarm_start_failed'' es w1
                in (None, sw1\<lparr>roles := es2, swarm_state := Stopped\<rparr>, drop_listeners w2)))"

definition swarm_stop :: "string \<Rightarrow> Swarm \<Rightarrow> world \<Rightarrow> Swarm \<times> world" where
  "swarm_stop reason sw w =
     (if swarm_state sw = Stopped \<or> swarm_state sw = Stopping then (sw, w)
      else
        let (es, w1) = stop_roles (\<lambda>_. True) reason (roles sw) w
        in (sw\<lparr>roles := es, swarm_state := Stopped\<rparr>, drop_listeners w1))"

text \<open>The internal listener.\<close>

definition swarm_escalation :: "SupervisorEvent \<Rightarrow> bool" where
  "swarm_escalation ev = (case ev of EscalationEvent e \<Rightarrow> er_target e = ''swarm'' | _ \<Rightarrow> False)"

definition on_events :: "SupervisorEvent list \<Rightarrow> Swarm \<Rightarrow> world \<Rightarrow> Swarm \<times> world" where
  "on_events evs sw w =
     (if swarm_state sw = Running \<and> list_ex swarm_escalation evs then swarm_stop ''swarm_escalation'' sw w else (sw, w))"

text \<open>Worker \<open>h\<close> exits: the listener of the record of role \<open>k\<close> that holds it runs, then the swarm reacts
  to what was published.\<close>

definition swarm_worker_exits :: "env \<Rightarrow> nat \<Rightarrow> nat \<Rightarrow> ExitReason \<Rightarrow> Swarm \<Rightarrow> world \<Rightarrow> Swarm \<times> world" where
  "swarm_worker_exits env k h reason sw w =
     (let e = roles sw ! k;
          (s, w1) = worker_exits env h reason (supervisor e) w;
          sw1 = sw\<lparr>roles := (roles sw)[k := e\<lparr>supervisor := s\<rparr>]\<rparr>
      in on_events (drop (length (published (bus w))) (published (bus w1))) sw1 w1)"

section \<open>The workers of a swarm\<close>

definition role_ok :: "Supervisor \<Rightarrow> bool" where
  "role_ok s \<longleftrightarrow> distinct (map (\<lambda>r. childId (spec r)) (records s)) \<and> (\<forall>r \<in> set (records s). valid_policy (policy r)) \<and>
     sup_state s \<in> {Idle, Running, Stopped} \<and> (sup_state s \<noteq> Running \<longrightarrow> hlist (records s) = [])"

definition all_records :: "RoleEntry list \<Rightarrow> ChildRecord list" where
  "all_records es = concat (map (\<lambda>e. records (supervisor e)) es)"

definition swarm_inv :: "RoleEntry list \<Rightarrow> world \<Rightarrow> bool" where
  "swarm_inv es w \<longleftrightarrow> (\<forall>e \<in> set es. role_ok (supervisor e)) \<and> wired (all_records es) w \<and>
     live w = set (hlist (all_records es))"

lemma all_records_simps [simp]:
  "all_records [] = []" "all_records (e # es) = records (supervisor e) @ all_records es"
  "all_records (es @ fs) = all_records es @ all_records fs"
  by (simp_all add: all_records_def)

text \<open>Changing one role within the swarm.\<close>

lemma swarm_inv_role:
  assumes "swarm_inv (pre @ e # post) w" and "moved (records (supervisor e)) w (records s') w'" and "role_ok s'"
  shows "swarm_inv (pre @ e\<lparr>supervisor := s'\<rparr> # post) w'"
proof -
  have wd: "wired (all_records pre @ records (supervisor e) @ all_records post) w"
    using assms(1) by (simp add: swarm_inv_def)
  note m = moved_context [OF assms(2) wd]
  have "wired (all_records pre @ records s' @ all_records post) w'" using m wd by (rule moved_wired)
  moreover have "live w' = set (hlist (all_records pre @ records s' @ all_records post))"
    using m assms(1) by (auto simp: moved_def swarm_inv_def)
  ultimately show ?thesis using assms(1,3) by (simp add: swarm_inv_def)
qed

lemma role_wired: "swarm_inv (pre @ e # post) w \<Longrightarrow> wired (records (supervisor e)) w"
  using wired_sub [of "all_records pre" "records (supervisor e)" "all_records post" w] by (simp add: swarm_inv_def)

lemma role_ok_roster:
  assumes "role_ok s" and "roster s' = roster s"
    and "sup_state s' = Running \<or> sup_state s' = Stopped \<and> hlist (records s') = []"
  shows "role_ok s'"
proof -
  have "\<forall>p \<in> policy ` set (records s'). valid_policy p"
    using assms(1) unfolding roster_policies [OF assms(2)] by (simp add: role_ok_def)
  then show ?thesis using assms roster_ids [OF assms(2)] by (auto simp: role_ok_def)
qed

lemma stop_role_inv:
  assumes "swarm_inv (pre @ e # post) w" and "stop reason (supervisor e) w = (s, w1)"
  shows "swarm_inv (pre @ e\<lparr>supervisor := s\<rparr> # post) w1" and "sup_state s = Stopped" and "hlist (records s) = []"
proof -
  have ok: "role_ok (supervisor e)" using assms(1) by (simp add: swarm_inv_def)
  note st = stop_moved [OF role_wired [OF assms(1)] _ _ assms(2)]
  have m: "moved (records (supervisor e)) w (records s) w1" "roster s = roster (supervisor e)"
    "sup_state s = Stopped" "hlist (records s) = []" using st ok by (auto simp: role_ok_def)
  then show "swarm_inv (pre @ e\<lparr>supervisor := s\<rparr> # post) w1" "sup_state s = Stopped" "hlist (records s) = []"
    using swarm_inv_role [OF assms(1)] role_ok_roster [OF ok] by auto
qed

lemma stop_roles_inv:
  assumes "swarm_inv (pre @ es) w" and "stop_roles P reason es w = (es', w')"
  shows "swarm_inv (pre @ es') w' \<and> map entry_roleId es' = map entry_roleId es \<and>
    (\<forall>i < length es. if P (es ! i) then sup_state (supervisor (es' ! i)) = Stopped \<and> hlist (records (supervisor (es' ! i))) = []
      else es' ! i = es ! i)"
  using assms
proof (induction es arbitrary: pre es' w')
  case (Cons e es)
  obtain fs w1 where r: "stop_roles P reason es w = (fs, w1)" by (metis prod.exhaust)
  have ih: "swarm_inv ((pre @ [e]) @ fs) w1 \<and> map entry_roleId fs = map entry_roleId es \<and>
    (\<forall>i < length es. if P (es ! i) then sup_state (supervisor (fs ! i)) = Stopped \<and> hlist (records (supervisor (fs ! i))) = []
      else fs ! i = es ! i)"
    by (rule Cons.IH [OF _ r]) (use Cons.prems(1) in simp)
  show ?case
  proof (cases "P e")
    case False
    with Cons.prems(2) r have "es' = e # fs" "w' = w1" by auto
    with ih False show ?thesis by (auto simp: nth_Cons split: nat.splits)
  next
    case True
    obtain s w2 where st: "stop reason (supervisor e) w1 = (s, w2)" by (metis prod.exhaust)
    with Cons.prems(2) r True have res: "es' = e\<lparr>supervisor := s\<rparr> # fs" "w' = w2" by auto
    note sr = stop_role_inv [OF _ st, of pre fs]
    show ?thesis using ih sr True by (auto simp: res nth_Cons split: nat.splits)
  qed
qed simp

lemma live_empty:
  assumes "swarm_inv es w" and "\<forall>e \<in> set es. sup_state (supervisor e) \<noteq> Running"
  shows "live w = {}"
proof -
  have "\<forall>e \<in> set es. hlist (records (supervisor e)) = []" using assms by (auto simp: swarm_inv_def role_ok_def)
  then have "hlist (all_records es) = []" by (induction es) auto
  with assms(1) show ?thesis by (simp add: swarm_inv_def)
qed

lemma start_roles_inv:
  assumes "swarm_inv (pre @ es) w" and "\<forall>e \<in> set es. sup_state (supervisor e) = Idle"
    and "start_roles env es w = (res, es', w')"
  shows "swarm_inv (pre @ es') w' \<and> map entry_roleId es' = map entry_roleId es \<and>
    (case res of
       None \<Rightarrow> \<forall>e \<in> set es'. sup_state (supervisor e) = Running
     | Some (Inl err) \<Rightarrow> False
     | Some (Inr rid) \<Rightarrow> \<exists>e \<in> set es'. entry_roleId e = rid \<and> sup_state (supervisor e) = Stopped)"
  using assms
proof (induction es arbitrary: pre w res es' w')
  case (Cons e es)
  have idle: "sup_state (supervisor e) = Idle" using Cons.prems(2) by simp
  have ok: "role_ok (supervisor e)" using Cons.prems(1) by (simp add: swarm_inv_def)
  then have h: "hlist (records (supervisor e)) = []" using idle by (simp add: role_ok_def)
  obtain s w1 where st: "start env (supervisor e) w = Inr (s, w1)"
    using idle by (cases "start env (supervisor e) w") (auto simp: start_def split_beta Let_def split: option.splits)
  note mv = start_moved [OF role_wired [OF Cons.prems(1)] h st]
  have inv1: "swarm_inv (pre @ e\<lparr>supervisor := s\<rparr> # es) w1"
    using mv role_ok_roster [OF ok] by (intro swarm_inv_role [OF Cons.prems(1)]) auto
  show ?case
  proof (cases "sup_state s = Running")
    case False
    with Cons.prems(3) st have res: "res = Some (Inr (entry_roleId e))" "es' = e\<lparr>supervisor := s\<rparr> # es" "w' = w1" by auto
    with mv inv1 False show ?thesis by simp
  next
    case True
    obtain r2 fs w2 where rest: "start_roles env es w1 = (r2, fs, w2)" by (metis prod_cases3)
    with Cons.prems(3) st True have res: "res = r2" "es' = e\<lparr>supervisor := s\<rparr> # fs" "w' = w2" by auto
    have "swarm_inv ((pre @ [e\<lparr>supervisor := s\<rparr>]) @ es) w1" using inv1 by simp
    note ih = Cons.IH [OF this _ rest]
    show ?thesis using ih Cons.prems(2) True by (auto simp: res split: option.splits sum.splits)
  qed
qed simp

section \<open>Properties\<close>

text \<open>A swarm starts all its roles or none: when every role reaches running the swarm runs; when
  one does not, every role that had started is stopped, no worker of the swarm is left running, and
  the swarm ends stopped.\<close>

theorem swarm_start_all_or_nothing:
  assumes "swarm_inv (roles sw) w" and "swarm_state sw = Idle" and "distinct (map entry_roleId (roles sw))"
    and "\<forall>e \<in> set (roles sw). sup_state (supervisor e) = Idle" and "swarm_start env sw w = (err, sw', w')"
  shows "err = None \<and> swarm_inv (roles sw') w' \<and>
    (if swarm_state sw' = Running then \<forall>e \<in> set (roles sw'). sup_state (supervisor e) = Running
     else swarm_state sw' = Stopped \<and> live w' = {} \<and> (\<forall>e \<in> set (roles sw'). sup_state (supervisor e) \<noteq> Running))"
proof -
  obtain res es w1 where st: "start_roles env (roles sw) w = (res, es, w1)" by (metis prod_cases3)
  have m: "swarm_inv ([] @ es) w1 \<and> map entry_roleId es = map entry_roleId (roles sw) \<and>
    (case res of
       None \<Rightarrow> \<forall>e \<in> set es. sup_state (supervisor e) = Running
     | Some (Inl err) \<Rightarrow> False
     | Some (Inr rid) \<Rightarrow> \<exists>e \<in> set es. entry_roleId e = rid \<and> sup_state (supervisor e) = Stopped)"
    using start_roles_inv [of "[]", OF _ assms(4) st] assms(1) by simp
  show ?thesis
  proof (cases res)
    case None
    with assms(2,5) st m show ?thesis by (auto simp: swarm_start_def Let_def)
  next
    case (Some x)
    with m obtain rid where x: "x = Inr rid" by (cases x) auto
    from m Some x obtain e0 where e0: "e0 \<in> set es" "entry_roleId e0 = rid" "sup_state (supervisor e0) = Stopped" by auto
    obtain es2 w2 where td: "teardownStartedRoles rid ''swarm_start_failed'' es w1 = (es2, w2)" by (metis prod.exhaust)
    with assms(2,5) st Some x have res: "err = None" "roles sw' = es2" "swarm_state sw' = Stopped" "w' = drop_listeners w2"
      by (auto simp: swarm_start_def Let_def)
    note sr = stop_roles_inv [of "[]" es w1, OF _ td [unfolded teardownStartedRoles_def]]
    have stopped: "sup_state (supervisor e) \<noteq> Running" if e: "e \<in> set es2" for e
    proof -
      have len: "length es2 = length es" using sr m map_eq_imp_length_eq by (metis append_Nil)
      then obtain i where i: "i < length es" "e = es2 ! i" using e by (auto simp: in_set_conv_nth)
      show ?thesis
      proof (cases "entry_roleId (es ! i) \<noteq> rid \<and> sup_state (supervisor (es ! i)) = Running")
        case True
        then show ?thesis using sr m i by auto
      next
        case False
        then have same: "e = es ! i" using sr m i by auto
        have "es ! i = e0" if "entry_roleId (es ! i) = rid"
        proof (rule inj_onD)
          show "inj_on entry_roleId (set es)" using m assms(3) by (metis distinct_map)
        qed (use that e0 i in auto)
        then show ?thesis using False e0(3) same by auto
      qed
    qed
    have inv: "swarm_inv es2 w2" using sr m by simp
    then have "live w2 = {}" using stopped by (intro live_empty) auto
    moreover have "swarm_inv es2 (drop_listeners w2)"
      using inv unfolding swarm_inv_def drop_listeners_def wired_def by auto
    ultimately show ?thesis using res stopped by (simp add: drop_listeners_def)
  qed
qed

text \<open>A swarm of two roles; the escalation target of the first is a parameter.\<close>

definition demo_swarm :: "string \<Rightarrow> Swarm" where
  "demo_swarm target = \<lparr>swarm_id = Some ''sw'',
     roles = [\<lparr>entry_roleId = ''planner'',
        supervisor = \<lparr>roleId = Some ''planner'', sup_swarmId = Some ''sw'', ownsBus = False,
          records = [new_record \<lparr>childId = ''p'', restartOverrides = None\<rparr>
            ((demo_policy ''one_for_one'')\<lparr>intensity := 0, escalate := target\<rparr>)], sup_state = Idle\<rparr>\<rparr>,
       \<lparr>entry_roleId = ''executor'',
        supervisor = \<lparr>roleId = Some ''executor'', sup_swarmId = Some ''sw'', ownsBus = False,
          records = [new_record \<lparr>childId = ''x'', restartOverrides = None\<rparr> (demo_policy ''one_for_one'')],
          sup_state = Idle\<rparr>\<rparr>],
     swarm_state = Idle\<rparr>"

theorem swarm_start_all_or_nothing_witness:
  "\<exists>sw' w'. swarm_start (\<lambda>n. if n = 1 then FactoryRejects ''no'' else Boots) (demo_swarm ''role'') (new_world 0) = (None, sw', w') \<and>
     swarm_state sw' = Stopped \<and> live w' = {}"
proof -
  let ?env = "\<lambda>n. if n = 1 then FactoryRejects ''no'' else Boots"
  have h: "swarm_inv (roles (demo_swarm ''role'')) (new_world 0)" "swarm_state (demo_swarm ''role'') = Idle"
    "distinct (map entry_roleId (roles (demo_swarm ''role'')))"
    "\<forall>e \<in> set (roles (demo_swarm ''role'')). sup_state (supervisor e) = Idle" by code_simp+
  obtain err sw' w' where r: "swarm_start ?env (demo_swarm ''role'') (new_world 0) = (err, sw', w')"
    by (metis prod_cases3)
  have "swarm_state (fst (snd (swarm_start ?env (demo_swarm ''role'') (new_world 0)))) \<noteq> Running" by code_simp
  then show ?thesis using r swarm_start_all_or_nothing [OF h r] by simp
qed

text \<open>Stopping a swarm that has not stopped stops every role, leaves no worker of the swarm running
  and detaches every listener from the bus; stopping it again changes nothing.\<close>

theorem swarm_stop_stops_all:
  assumes "swarm_inv (roles sw) w" and "swarm_state sw \<in> {Idle, Starting, Running}"
    and "swarm_stop reason sw w = (sw', w')"
  shows "swarm_state sw' = Stopped \<and> live w' = {} \<and> listeners (bus w') = [] \<and>
    (\<forall>e \<in> set (roles sw'). sup_state (supervisor e) = Stopped) \<and> swarm_stop again sw' w' = (sw', w')"
proof -
  obtain es w1 where st: "stop_roles (\<lambda>_. True) reason (roles sw) w = (es, w1)" by (metis prod.exhaust)
  have m: "swarm_inv es w1" "map entry_roleId es = map entry_roleId (roles sw)"
    "\<forall>i < length (roles sw). sup_state (supervisor (es ! i)) = Stopped"
    using stop_roles_inv [of "[]", OF _ st] assms(1) by auto
  have len: "length es = length (roles sw)" using m(2) map_eq_imp_length_eq by metis
  then have all: "\<forall>e \<in> set es. sup_state (supervisor e) = Stopped" using m(3) by (auto simp: in_set_conv_nth)
  then have "live w1 = {}" using m(1) by (intro live_empty) auto
  moreover have "sw' = sw\<lparr>roles := es, swarm_state := Stopped\<rparr>" "w' = drop_listeners w1"
    using assms(2,3) st by (auto simp: swarm_stop_def)
  ultimately show ?thesis using all by (simp add: drop_listeners_def swarm_stop_def)
qed

theorem swarm_stop_stops_all_witness:
  "\<exists>sw' w'. swarm_stop ''bye'' (demo_swarm ''role'') (new_world 0) = (sw', w') \<and> swarm_state sw' = Stopped"
proof -
  have h: "swarm_inv (roles (demo_swarm ''role'')) (new_world 0)"
    "swarm_state (demo_swarm ''role'') \<in> {Idle, Starting, Running}" by code_simp+
  obtain sw' w' where r: "swarm_stop ''bye'' (demo_swarm ''role'') (new_world 0) = (sw', w')" by (metis prod.exhaust)
  show ?thesis using r swarm_stop_stops_all [OF h r] by blast
qed

text \<open>When a child of one role has used up its budget, an escalation whose target is the swarm halts
  every role and leaves no worker running; an escalation whose target is the role stops that role alone
  and leaves the swarm running and every other role as it was.\<close>

theorem escalation_reaches_target:
  assumes "swarm_inv (roles sw) w" and "swarm_state sw = Running" and "k < length (roles sw)"
    and "supervised h i (supervisor (roles sw ! k)) w" and "reason \<noteq> Normal"
    and "exhausted (records (supervisor (roles sw ! k)) ! i) w"
    and "swarm_worker_exits env k h reason sw w = (sw', w')"
  shows "if escalate (policy (records (supervisor (roles sw ! k)) ! i)) = ''swarm''
    then swarm_state sw' = Stopped \<and> live w' = {} \<and> (\<forall>e \<in> set (roles sw'). sup_state (supervisor e) = Stopped)
    else swarm_state sw' = Running \<and> sup_state (supervisor (roles sw' ! k)) = Stopped \<and>
      live w' = live w - set (hlist (records (supervisor (roles sw ! k)))) \<and>
      (\<forall>j < length (roles sw). j \<noteq> k \<longrightarrow> roles sw' ! j = roles sw ! j)"
proof -
  let ?e = "roles sw ! k"
  obtain s w1 where ex: "worker_exits env h reason (supervisor ?e) w = (s, w1)" by (metis prod.exhaust)
  note esc = exhausted_exit [OF assms(4,5,6) ex]
  let ?sw1 = "sw\<lparr>roles := (roles sw)[k := ?e\<lparr>supervisor := s\<rparr>]\<rparr>"
  have split: "roles sw = take k (roles sw) @ ?e # drop (Suc k) (roles sw)" using assms(3) by (rule id_take_nth_drop)
  have ok: "role_ok (supervisor ?e)" using assms(1,3) by (simp add: swarm_inv_def)
  have "roster s = roster (supervisor ?e)" "sup_state s = Running \<or> sup_state s = Stopped \<and> hlist (records s) = []"
    using esc by blast+
  with ok have "role_ok s" by (rule role_ok_roster)
  then have inv1: "swarm_inv (roles ?sw1) w1"
    using swarm_inv_role [of "take k (roles sw)" ?e "drop (Suc k) (roles sw)" w s w1, folded split] assms(1) esc
    by (simp add: upd_conv_take_nth_drop [OF assms(3)])
  have evs: "list_ex swarm_escalation (drop (length (published (bus w))) (published (bus w1))) \<longleftrightarrow>
      escalate (policy (records (supervisor ?e) ! i)) = ''swarm''"
    using esc by (auto simp: swarm_escalation_def budget_escalation_def stop_events_def list_ex_iff)
  have run: "(sw', w') = on_events (drop (length (published (bus w))) (published (bus w1))) ?sw1 w1"
    using assms(7) ex by (simp add: swarm_worker_exits_def Let_def)
  show ?thesis
  proof (cases "escalate (policy (records (supervisor ?e) ! i)) = ''swarm''")
    case True
    then have st: "swarm_stop ''swarm_escalation'' ?sw1 w1 = (sw', w')"
      using run evs assms(2) by (simp add: on_events_def)
    obtain es w2 where sr: "stop_roles (\<lambda>_. True) ''swarm_escalation'' (roles ?sw1) w1 = (es, w2)" by (metis prod.exhaust)
    have m: "swarm_inv es w2" "map entry_roleId es = map entry_roleId (roles ?sw1)"
      "\<forall>i < length (roles ?sw1). sup_state (supervisor (es ! i)) = Stopped"
      using stop_roles_inv [of "[]", OF _ sr] inv1 by auto
    have all: "\<forall>e \<in> set es. sup_state (supervisor e) = Stopped"
      using m(3) map_eq_imp_length_eq [OF m(2)] by (auto simp: in_set_conv_nth)
    then have "live w2 = {}" using m(1) by (intro live_empty) auto
    then show ?thesis using True st sr all assms(2) by (auto simp: swarm_stop_def drop_listeners_def)
  next
    case False
    then have "sw' = ?sw1" "w' = w1" using run evs by (simp_all add: on_events_def)
    then show ?thesis using False esc assms(2,3) by (simp add: moved_def)
  qed
qed

theorem escalation_reaches_target_witness:
  "\<exists>sw w sw' w'. swarm_start (\<lambda>_. Boots) (demo_swarm ''swarm'') (new_world 0) = (None, sw, w) \<and>
     swarm_worker_exits (\<lambda>_. Boots) 0 0 Crashed sw w = (sw', w') \<and> swarm_state sw' = Stopped \<and> live w' = {}"
proof -
  let ?st = "swarm_start (\<lambda>_. Boots) (demo_swarm ''swarm'') (new_world 0)"
  let ?sw = "fst (snd ?st)" and ?w = "snd (snd ?st)"
  have h: "swarm_inv (roles ?sw) ?w" "swarm_state ?sw = Running" "0 < length (roles ?sw)"
    "supervised 0 0 (supervisor (roles ?sw ! 0)) ?w" "exhausted (records (supervisor (roles ?sw ! 0)) ! 0) ?w"
    "escalate (policy (records (supervisor (roles ?sw ! 0)) ! 0)) = ''swarm''" "fst ?st = None" by code_simp+
  obtain sw' w' where r: "swarm_worker_exits (\<lambda>_. Boots) 0 0 Crashed ?sw ?w = (sw', w')" by (metis prod.exhaust)
  have "swarm_state sw' = Stopped \<and> live w' = {}"
    using escalation_reaches_target [OF h(1-4) _ h(5) r] h(6) by simp
  then show ?thesis using r h(7) by (metis prod.collapse)
qed

end
