(* ===== verification/Flow_Graph.thy ===== *)
theory Flow_Graph
  imports Json_Text "HOL-Library.Multiset"
begin

text \<open>
  Flow definitions (\<^verbatim>\<open>packages/core/flow/src/types.ts\<close>) and their topological order (\<^verbatim>\<open>topologicalOrder\<close>
  and \<^verbatim>\<open>lowerBound\<close> of \<^verbatim>\<open>packages/core/flow/src/engine.ts\<close>). Values of type \<^verbatim>\<open>unknown\<close> are JavaScript
  values over integers; costs are rational numbers. The Map of in-degrees is a function, the Map of
  children is computed from the definition in the order in which the code fills it.
\<close>

section \<open>Flow definitions\<close>

datatype FlowNode =
    AgentStep (node_id: string) (node_role: string) (node_runner: string) (node_inputs: js_record)
      (dependsOn: "string list") (maxRetries: "nat option")
  | Conditional (node_id: string) (predicate: string) (trueBranch: string) (falseBranch: string)
      (dependsOn: "string list")
  | Loop (node_id: string) (loop_body: "string list") (loop_until: string) (maxIterations: nat)
      (dependsOn: "string list")
  | HumanGate (node_id: string) (prompt: string) (resumeToken: string) (dependsOn: "string list")

record FlowDefinition =
  def_id :: string
  def_version :: nat
  def_nodes :: "FlowNode list"
  def_entry :: string

section \<open>Topological order\<close>

function lower_bound_loop :: "string list \<Rightarrow> string \<Rightarrow> nat \<Rightarrow> nat \<Rightarrow> nat" where
  "lower_bound_loop arr target lo hi =
     (if lo < hi then
        let mid = (lo + hi) div 2
        in if mid < length arr \<and> arr ! mid < target then lower_bound_loop arr target (mid + 1) hi
           else lower_bound_loop arr target lo mid
      else lo)"
  by pat_completeness auto
termination
  by (relation "measure (\<lambda>(_, _, lo, hi). hi - lo)") auto

declare lower_bound_loop.simps [simp del]

definition lowerBound :: "string list \<Rightarrow> string \<Rightarrow> nat" where
  "lowerBound arr target = lower_bound_loop arr target 0 (length arr)"

fun first_duplicate :: "string list \<Rightarrow> string list \<Rightarrow> string option" where
  "first_duplicate seen [] = None"
| "first_duplicate seen (x # xs) = (if x \<in> set seen then Some x else first_duplicate (x # seen) xs)"

definition children_of :: "FlowNode list \<Rightarrow> string \<Rightarrow> string list" where
  "children_of nodes dep =
     concat (map (\<lambda>n. map (\<lambda>_. node_id n) (filter (\<lambda>d. d = dep) (dependsOn n))) nodes)"

definition in_degree :: "FlowNode list \<Rightarrow> string \<Rightarrow> int" where
  "in_degree nodes i = (case find (\<lambda>n. node_id n = i) nodes of None \<Rightarrow> 0 | Some n \<Rightarrow> int (length (dependsOn n)))"

definition splice_in :: "nat \<Rightarrow> 'a \<Rightarrow> 'a list \<Rightarrow> 'a list" where
  "splice_in k x xs = take k xs @ x # drop k xs"

text \<open>The inner loop over the children of an emitted node.\<close>

fun relax :: "string list \<Rightarrow> string list \<Rightarrow> (string \<Rightarrow> int) \<Rightarrow> string list \<times> (string \<Rightarrow> int)" where
  "relax [] ready deg = (ready, deg)"
| "relax (c # cs) ready deg =
     (let next = deg c - 1
      in relax cs (if next = 0 then splice_in (lowerBound ready c) c ready else ready) (deg(c := next)))"

definition degree_sum :: "FlowNode list \<Rightarrow> (string \<Rightarrow> int) \<Rightarrow> nat" where
  "degree_sum nodes deg = (\<Sum>i \<in> node_id ` set nodes. nat (deg i))"

lemma length_splice [simp]: "length (splice_in k x xs) = Suc (length xs)"
  by (simp add: splice_in_def)

lemma degree_sum_dec:
  assumes "c \<in> node_id ` set nodes"
  shows "degree_sum nodes (deg(c := deg c - 1)) + (if deg c - 1 = 0 then 1 else 0) \<le> degree_sum nodes deg"
proof -
  let ?A = "node_id ` set nodes - {c}"
  have split: "degree_sum nodes f = nat (f c) + (\<Sum>i \<in> ?A. nat (f i))" for f
    unfolding degree_sum_def using assms by (intro sum.remove) auto
  have same: "(\<Sum>i \<in> ?A. nat ((deg(c := deg c - 1)) i)) = (\<Sum>i \<in> ?A. nat (deg i))"
    by (rule sum.cong) auto
  show ?thesis unfolding split same by auto
qed

lemma relax_measure:
  "relax cs ready deg = (ready', deg') \<Longrightarrow> set cs \<subseteq> node_id ` set nodes \<Longrightarrow>
     length ready' + degree_sum nodes deg' \<le> length ready + degree_sum nodes deg"
proof (induction cs arbitrary: ready deg)
  case (Cons c cs)
  let ?ready = "if deg c - 1 = 0 then splice_in (lowerBound ready c) c ready else ready"
  have "relax cs ?ready (deg(c := deg c - 1)) = (ready', deg')" using Cons.prems(1) by (simp add: Let_def)
  then have "length ready' + degree_sum nodes deg' \<le> length ?ready + degree_sum nodes (deg(c := deg c - 1))"
    by (rule Cons.IH) (use Cons.prems(2) in simp)
  moreover have "c \<in> node_id ` set nodes" using Cons.prems(2) by simp
  ultimately show ?case using degree_sum_dec [of c nodes deg] by (auto split: if_splits)
qed simp

lemma children_nodes: "set (children_of nodes i) \<subseteq> node_id ` set nodes"
  by (auto simp: children_of_def)

function kahn :: "FlowNode list \<Rightarrow> string list \<Rightarrow> (string \<Rightarrow> int) \<Rightarrow> FlowNode list" where
  "kahn nodes [] deg = []"
| "kahn nodes (i # ready) deg =
     (case find (\<lambda>n. node_id n = i) nodes of
        None \<Rightarrow> kahn nodes ready deg
      | Some n \<Rightarrow>
          (case relax (children_of nodes i) ready deg of
             (ready', deg') \<Rightarrow> n # kahn nodes ready' deg'))"
  by pat_completeness auto
termination
proof (relation "measure (\<lambda>(nodes, ready, deg). length ready + degree_sum nodes deg)", goal_cases)
  case (3 nodes i ready deg n ready' deg')
  then have "relax (children_of nodes i) ready deg = (ready', deg')" by simp
  then show ?case using relax_measure [OF _ children_nodes, of nodes i ready deg ready' deg'] by simp
qed auto

definition unknown_dep :: "FlowNode list \<Rightarrow> (string \<times> string) option" where
  "unknown_dep nodes =
     find (\<lambda>(i, d). d \<notin> set (map node_id nodes))
       (concat (map (\<lambda>n. map (\<lambda>d. (node_id n, d)) (dependsOn n)) nodes))"

definition topologicalOrder :: "FlowDefinition \<Rightarrow> string + FlowNode list" where
  "topologicalOrder def =
     (let nodes = def_nodes def; ids = map node_id nodes
      in (case first_duplicate [] ids of
            Some i \<Rightarrow> Inl (''FlowDefinition: duplicate node id '' @ [CHR 0x27] @ i @ [CHR 0x27])
          | None \<Rightarrow>
              if def_entry def \<notin> set ids then
                Inl (''FlowDefinition: entry '' @ [CHR 0x27] @ def_entry def @ [CHR 0x27] @ '' is not a node'')
              else (case unknown_dep nodes of
                  Some (i, d) \<Rightarrow>
                    Inl (''FlowDefinition: node '' @ [CHR 0x27] @ i @ [CHR 0x27] @ '' depends on unknown node '' @
                      [CHR 0x27] @ d @ [CHR 0x27])
                | None \<Rightarrow>
                    let ready = sort (filter (\<lambda>i. in_degree nodes i = 0) ids);
                        emitted = kahn nodes ready (in_degree nodes)
                    in if length emitted \<noteq> length nodes then
                         Inl ''FlowDefinition: cycle detected in dependsOn graph''
                       else Inr emitted)))"

section \<open>Binary insertion\<close>

lemma sorted_less_prefix:
  assumes "sorted (xs :: 'a :: linorder list)" and "i < length xs"
  shows "xs ! i < x \<longleftrightarrow> i < length (takeWhile (\<lambda>y. y < x) xs)"
proof
  assume less: "xs ! i < x"
  show "i < length (takeWhile (\<lambda>y. y < x) xs)"
  proof (rule ccontr)
    assume "\<not> i < length (takeWhile (\<lambda>y. y < x) xs)"
    then have le: "length (takeWhile (\<lambda>y. y < x) xs) \<le> i" by simp
    then have len: "length (takeWhile (\<lambda>y. y < x) xs) < length xs" using assms(2) by simp
    then have "\<not> xs ! length (takeWhile (\<lambda>y. y < x) xs) < x" by (rule nth_length_takeWhile)
    moreover have "xs ! length (takeWhile (\<lambda>y. y < x) xs) \<le> xs ! i" using assms le by (simp add: sorted_nth_mono)
    ultimately show False using less by simp
  qed
next
  assume "i < length (takeWhile (\<lambda>y. y < x) xs)"
  then show "xs ! i < x" by (metis nth_mem set_takeWhileD takeWhile_nth)
qed

lemma lower_bound_loop_correct:
  assumes "sorted arr" and "lo \<le> length (takeWhile (\<lambda>y. y < target) arr)"
    and "length (takeWhile (\<lambda>y. y < target) arr) \<le> hi" and "hi \<le> length arr"
  shows "lower_bound_loop arr target lo hi = length (takeWhile (\<lambda>y. y < target) arr)"
  using assms
proof (induction arr target lo hi rule: lower_bound_loop.induct)
  case (1 arr target lo hi)
  let ?n = "length (takeWhile (\<lambda>y. y < target) arr)" and ?mid = "(lo + hi) div 2"
  show ?case
  proof (cases "lo < hi")
    case False
    with "1.prems" show ?thesis by (subst lower_bound_loop.simps) simp
  next
    case True
    then have mid: "?mid < length arr" using "1.prems"(4) by linarith
    have cmp: "arr ! ?mid < target \<longleftrightarrow> ?mid < ?n" using "1.prems"(1) mid by (rule sorted_less_prefix)
    show ?thesis
    proof (cases "arr ! ?mid < target")
      case less: True
      then have "lower_bound_loop arr target (?mid + 1) hi = ?n"
        using "1.IH"(1) [OF True refl] "1.prems" mid cmp by auto
      with True less mid show ?thesis by (subst lower_bound_loop.simps) (simp add: Let_def)
    next
      case geq: False
      then have "lower_bound_loop arr target lo ?mid = ?n"
        using "1.IH"(2) [OF True refl] "1.prems" mid cmp by auto
      with True geq show ?thesis by (subst lower_bound_loop.simps) (simp add: Let_def)
    qed
  qed
qed

lemma lowerBound_sorted: "sorted arr \<Longrightarrow> lowerBound arr x = length (takeWhile (\<lambda>y. y < x) arr)"
  unfolding lowerBound_def by (rule lower_bound_loop_correct) (auto simp: length_takeWhile_le)

lemma splice_insort:
  assumes "sorted (xs :: 'a :: linorder list)"
  shows "splice_in (length (takeWhile (\<lambda>y. y < x) xs)) x xs = insort x xs"
proof -
  have "take (length (takeWhile P xs)) xs = takeWhile P xs" "drop (length (takeWhile P xs)) xs = dropWhile P xs"
    for P and xs :: "'a list" by (simp_all flip: takeWhile_eq_take dropWhile_eq_drop)
  moreover have "takeWhile (\<lambda>y. y < x) xs @ x # dropWhile (\<lambda>y. y < x) xs = insort x xs"
    using assms by (induction xs) (auto simp: not_less not_le)
  ultimately show ?thesis by (simp add: splice_in_def)
qed

lemma binary_insert: "sorted ready \<Longrightarrow> splice_in (lowerBound ready c) c ready = insort c ready"
  by (simp add: lowerBound_sorted splice_insort)

section \<open>The ready queue\<close>

lemma relax_spec:
  assumes "relax cs ready deg = (ready', deg')" and "sorted ready" and "distinct ready"
    and "\<And>c. c \<in> set cs \<Longrightarrow> int (count_list cs c) \<le> deg c" and "set cs \<inter> set ready = {}"
  shows "sorted ready'" and "distinct ready'" and "deg' = (\<lambda>c. deg c - int (count_list cs c))"
    and "set ready' = set ready \<union> {c \<in> set cs. deg c = int (count_list cs c)}"
proof -
  have "sorted ready' \<and> distinct ready' \<and> deg' = (\<lambda>c. deg c - int (count_list cs c)) \<and>
    set ready' = set ready \<union> {c \<in> set cs. deg c = int (count_list cs c)}"
    using assms
  proof (induction cs arbitrary: ready deg)
    case (Cons c cs)
    let ?deg = "deg(c := deg c - 1)"
    let ?ready = "if deg c - 1 = 0 then insort c ready else ready"
    have step: "relax cs ?ready ?deg = (ready', deg')"
      using Cons.prems(1,2) by (simp add: Let_def binary_insert split: if_splits)
    have c: "int (count_list cs c) + 1 \<le> deg c" using Cons.prems(4) [of c] by simp
    have "sorted ready' \<and> distinct ready' \<and> deg' = (\<lambda>x. ?deg x - int (count_list cs x)) \<and>
      set ready' = set ?ready \<union> {x \<in> set cs. ?deg x = int (count_list cs x)}"
    proof (rule Cons.IH [OF step])
      show "sorted ?ready" "distinct ?ready"
        using Cons.prems(2,3,5) by (auto simp: sorted_insort distinct_insort)
      show "int (count_list cs x) \<le> ?deg x" if "x \<in> set cs" for x
        using Cons.prems(4) [of x] that c by (auto split: if_splits)
      have "c \<notin> set cs" if "deg c - 1 = 0"
      proof -
        have "count_list cs c = 0" using c that by linarith
        then show ?thesis by (simp add: count_list_0_iff)
      qed
      then show "set cs \<inter> set ?ready = {}" using Cons.prems(5) by (auto simp: set_insort_key)
    qed
    moreover have "set ?ready \<union> {x \<in> set cs. ?deg x = int (count_list cs x)} =
        set ready \<union> {x \<in> set (c # cs). deg x = int (count_list (c # cs) x)}"
      using c by (auto simp: set_insort_key count_list_0_iff split: if_splits)
    ultimately show ?case by (auto simp: fun_eq_iff)
  qed simp
  then show "sorted ready'" and "distinct ready'" and "deg' = (\<lambda>c. deg c - int (count_list cs c))"
    and "set ready' = set ready \<union> {c \<in> set cs. deg c = int (count_list cs c)}" by auto
qed

section \<open>Kahn's algorithm\<close>

definition well_formed :: "FlowNode list \<Rightarrow> bool" where
  "well_formed nodes \<longleftrightarrow> distinct (map node_id nodes) \<and>
     (\<forall>n \<in> set nodes. set (dependsOn n) \<subseteq> node_id ` set nodes)"

text \<open>Every node comes after the nodes it depends on; \<open>done\<close> has been emitted before.\<close>

fun deps_first :: "string set \<Rightarrow> FlowNode list \<Rightarrow> bool" where
  "deps_first done [] = True"
| "deps_first done (n # ns) = (set (dependsOn n) \<subseteq> done \<and> deps_first (insert (node_id n) done) ns)"

definition kahn_inv :: "FlowNode list \<Rightarrow> string set \<Rightarrow> string list \<Rightarrow> (string \<Rightarrow> int) \<Rightarrow> bool" where
  "kahn_inv nodes done ready deg \<longleftrightarrow>
     sorted ready \<and> distinct ready \<and>
     (\<forall>n \<in> set nodes. deg (node_id n) = int (length (filter (\<lambda>d. d \<notin> done) (dependsOn n)))) \<and>
     set ready \<subseteq> node_id ` set nodes \<and>
     (\<forall>n \<in> set nodes. node_id n \<in> set ready \<longleftrightarrow> set (dependsOn n) \<subseteq> done \<and> node_id n \<notin> done) \<and>
     (\<forall>n \<in> set nodes. node_id n \<in> done \<longrightarrow> set (dependsOn n) \<subseteq> done)"

lemma find_node:
  assumes "distinct (map node_id nodes)" and "n \<in> set nodes"
  shows "find (\<lambda>m. node_id m = node_id n) nodes = Some n"
  using assms by (induction nodes) (auto simp: rev_image_eqI)

lemma count_children:
  assumes "distinct (map node_id nodes)" and "n \<in> set nodes"
  shows "count_list (children_of nodes i) (node_id n) = length (filter (\<lambda>d. d = i) (dependsOn n))"
  using assms
proof (induction nodes)
  case (Cons m nodes)
  have const: "count_list (map (\<lambda>_. x) ds) y = (if x = y then length ds else 0)" for x y :: string and ds :: "string list"
    by (induction ds) auto
  have none: "count_list (children_of nodes i) y = 0" if "y \<notin> node_id ` set nodes" for y
    using that children_nodes [of nodes i] by (auto simp: count_list_0_iff)
  have cons: "children_of (m # nodes) i = map (\<lambda>_. node_id m) (filter (\<lambda>d. d = i) (dependsOn m)) @ children_of nodes i"
    by (simp add: children_of_def)
  show ?case
  proof (cases "n = m")
    case True
    with Cons.prems none show ?thesis by (simp add: cons const)
  next
    case False
    with Cons.prems have "n \<in> set nodes" "node_id m \<noteq> node_id n" by (auto simp: rev_image_eqI)
    with Cons show ?thesis by (simp add: cons const)
  qed
qed simp

lemma children_iff:
  assumes "distinct (map node_id nodes)" and "n \<in> set nodes"
  shows "node_id n \<in> set (children_of nodes i) \<longleftrightarrow> i \<in> set (dependsOn n)"
proof -
  have "node_id n \<in> set (children_of nodes i) \<longleftrightarrow> count_list (children_of nodes i) (node_id n) \<noteq> 0"
    by (simp add: count_list_0_iff)
  then show ?thesis unfolding count_children [OF assms] by (auto simp: filter_empty_conv)
qed

lemma filter_insert_split:
  "length (filter (\<lambda>d. d \<notin> insert i A) ds) + length (filter (\<lambda>d. d = i) ds) = length (filter (\<lambda>d. d \<notin> A) ds)"
  if "i \<notin> A"
  using that by (induction ds) auto

lemma kahn_step:
  assumes wf: "well_formed nodes" and inv: "kahn_inv nodes done (i # ready) deg"
    and n: "n \<in> set nodes" "node_id n = i" and r: "relax (children_of nodes i) ready deg = (ready', deg')"
  shows "kahn_inv nodes (insert i done) ready' deg'" and "set (dependsOn n) \<subseteq> done" and "i \<notin> done"
proof -
  have d: "distinct (map node_id nodes)" using wf by (simp add: well_formed_def)
  have on: "node_id k \<in> set (i # ready) \<longleftrightarrow> set (dependsOn k) \<subseteq> done \<and> node_id k \<notin> done" if "k \<in> set nodes" for k
    using inv that unfolding kahn_inv_def by blast
  show nd: "set (dependsOn n) \<subseteq> done" and fresh: "i \<notin> done" using on [OF n(1)] n(2) by auto
  have ready: "sorted ready" "distinct ready" "i \<notin> set ready" using inv by (auto simp: kahn_inv_def)
  have deg: "deg (node_id k) = int (length (filter (\<lambda>d. d \<notin> done) (dependsOn k)))" if "k \<in> set nodes" for k
    using inv that by (simp add: kahn_inv_def)
  have split: "int (length (filter (\<lambda>d. d \<notin> done) (dependsOn k))) =
      int (length (filter (\<lambda>d. d \<notin> insert i done) (dependsOn k))) + int (count_list (children_of nodes i) (node_id k))"
    if "k \<in> set nodes" for k
    using filter_insert_split [OF fresh, of "dependsOn k"] count_children [OF d that, of i] by simp
  have le: "int (count_list (children_of nodes i) c) \<le> deg c" if c: "c \<in> set (children_of nodes i)" for c
  proof -
    obtain k where "k \<in> set nodes" "c = node_id k" using c children_nodes by blast
    then show ?thesis using deg [of k] split [of k] by simp
  qed
  have disj: "set (children_of nodes i) \<inter> set ready = {}"
    using on children_iff [OF d] fresh children_nodes [of nodes i] by fastforce
  note spec = relax_spec [OF r ready(1,2) le disj]
  have deg': "deg' (node_id k) = int (length (filter (\<lambda>d. d \<notin> insert i done) (dependsOn k)))" if "k \<in> set nodes" for k
    using deg [OF that] split [OF that] by (simp add: spec(3))
  have mem: "node_id k \<in> set ready' \<longleftrightarrow> set (dependsOn k) \<subseteq> insert i done \<and> node_id k \<notin> insert i done"
    if k: "k \<in> set nodes" for k
  proof -
    have eq: "deg (node_id k) = int (count_list (children_of nodes i) (node_id k)) \<longleftrightarrow> set (dependsOn k) \<subseteq> insert i done"
      using deg [OF k] split [OF k] by (auto simp: filter_empty_conv)
    have "node_id k \<notin> done" if "i \<in> set (dependsOn k)"
      using that inv fresh k unfolding kahn_inv_def by blast
    moreover have "node_id k \<noteq> i" if "i \<in> set (dependsOn k)"
      using that fresh nd n k d by (metis find_node option.inject subsetD)
    moreover have "node_id k \<in> set ready' \<longleftrightarrow> node_id k \<in> set ready \<or> i \<in> set (dependsOn k) \<and>
        deg (node_id k) = int (count_list (children_of nodes i) (node_id k))"
      using children_iff [OF d k, of i] by (simp add: spec(4))
    moreover have "node_id k \<noteq> i \<Longrightarrow> node_id k \<in> set ready \<longleftrightarrow> set (dependsOn k) \<subseteq> done \<and> node_id k \<notin> done"
      using on [OF k] by simp
    moreover have "node_id k = i \<Longrightarrow> node_id k \<notin> set ready" using ready(3) by simp
    moreover have "i \<notin> set (dependsOn k) \<Longrightarrow> set (dependsOn k) \<subseteq> insert i done \<longleftrightarrow> set (dependsOn k) \<subseteq> done"
      by (rule subset_insert)
    moreover have "i \<in> set (dependsOn k) \<Longrightarrow> \<not> set (dependsOn k) \<subseteq> done" using fresh by blast
    ultimately show ?thesis using eq by (metis insert_iff)
  qed
  have sub: "set ready' \<subseteq> node_id ` set nodes"
    using inv children_nodes [of nodes i] by (auto simp: spec(4) kahn_inv_def)
  have closed: "set (dependsOn k) \<subseteq> insert i done" if "k \<in> set nodes" "node_id k \<in> insert i done" for k
  proof (cases "node_id k = i")
    case True
    then have "k = n" using that(1) n d by (metis find_node option.inject)
    with nd show ?thesis by blast
  next
    case False
    then show ?thesis using that inv unfolding kahn_inv_def by blast
  qed
  show "kahn_inv nodes (insert i done) ready' deg'"
    unfolding kahn_inv_def using spec(1,2) deg' mem sub closed by blast
qed

text \<open>What a run of the loop emits.\<close>

lemma kahn_correct:
  assumes "well_formed nodes" and "kahn_inv nodes done ready deg"
  shows "deps_first done (kahn nodes ready deg)" and "set (kahn nodes ready deg) \<subseteq> set nodes"
    and "distinct (map node_id (kahn nodes ready deg))" and "node_id ` set (kahn nodes ready deg) \<inter> done = {}"
    and "\<forall>n \<in> set nodes. node_id n \<notin> done \<union> node_id ` set (kahn nodes ready deg) \<longrightarrow>
      \<not> set (dependsOn n) \<subseteq> done \<union> node_id ` set (kahn nodes ready deg)"
proof -
  have "deps_first done (kahn nodes ready deg) \<and> set (kahn nodes ready deg) \<subseteq> set nodes \<and>
    distinct (map node_id (kahn nodes ready deg)) \<and> node_id ` set (kahn nodes ready deg) \<inter> done = {} \<and>
    (\<forall>n \<in> set nodes. node_id n \<notin> done \<union> node_id ` set (kahn nodes ready deg) \<longrightarrow>
      \<not> set (dependsOn n) \<subseteq> done \<union> node_id ` set (kahn nodes ready deg))"
    using assms
  proof (induction nodes ready deg arbitrary: "done" rule: kahn.induct)
    case (1 nodes deg)
    then show ?case by (auto simp: kahn_inv_def)
  next
    case (2 nodes i ready deg)
    then obtain n where n: "n \<in> set nodes" "node_id n = i" by (auto simp: kahn_inv_def)
    then have f: "find (\<lambda>m. node_id m = i) nodes = Some n"
      using "2.prems"(1) find_node by (auto simp: well_formed_def)
    obtain ready' deg' where r: "relax (children_of nodes i) ready deg = (ready', deg')" by (metis prod.exhaust)
    note st = kahn_step [OF "2.prems" n r]
    have k: "kahn nodes (i # ready) deg = n # kahn nodes ready' deg'" using f r by simp
    note ih = "2.IH"(2) [OF f r [symmetric] "2.prems"(1) st(1)]
    show ?case unfolding k using ih st(2,3) n by auto
  qed
  then show "deps_first done (kahn nodes ready deg)" and "set (kahn nodes ready deg) \<subseteq> set nodes"
    and "distinct (map node_id (kahn nodes ready deg))" and "node_id ` set (kahn nodes ready deg) \<inter> done = {}"
    and "\<forall>n \<in> set nodes. node_id n \<notin> done \<union> node_id ` set (kahn nodes ready deg) \<longrightarrow>
      \<not> set (dependsOn n) \<subseteq> done \<union> node_id ` set (kahn nodes ready deg)" by auto
qed

lemma first_duplicate_None: "first_duplicate seen xs = None \<longleftrightarrow> distinct xs \<and> set xs \<inter> set seen = {}"
  by (induction xs arbitrary: seen) auto

lemma unknown_dep_None: "unknown_dep nodes = None \<longleftrightarrow> (\<forall>n \<in> set nodes. set (dependsOn n) \<subseteq> node_id ` set nodes)"
proof -
  have "unknown_dep nodes = None \<longleftrightarrow>
      (\<forall>p \<in> set (concat (map (\<lambda>n. map (\<lambda>d. (node_id n, d)) (dependsOn n)) nodes)). snd p \<in> node_id ` set nodes)"
  proof -
    have "find P xs = None \<longleftrightarrow> (\<forall>p \<in> set xs. \<not> P p)" for P and xs :: "(string \<times> string) list"
      by (auto simp: find_None_iff)
    then show ?thesis unfolding unknown_dep_def by (simp add: split_beta)
  qed
  then show ?thesis by auto
qed

lemma in_degree_node:
  "distinct (map node_id nodes) \<Longrightarrow> n \<in> set nodes \<Longrightarrow> in_degree nodes (node_id n) = int (length (dependsOn n))"
  by (simp add: in_degree_def find_node)

lemma kahn_init:
  assumes "well_formed nodes"
  shows "kahn_inv nodes {} (sort (filter (\<lambda>i. in_degree nodes i = 0) (map node_id nodes))) (in_degree nodes)"
  using assms in_degree_node [of nodes] by (auto simp: kahn_inv_def well_formed_def)

definition valid_definition :: "FlowDefinition \<Rightarrow> bool" where
  "valid_definition def \<longleftrightarrow> well_formed (def_nodes def) \<and> def_entry def \<in> node_id ` set (def_nodes def)"

lemma topologicalOrder_Inr:
  "topologicalOrder def = Inr order \<longleftrightarrow> valid_definition def \<and>
     order = kahn (def_nodes def)
       (sort (filter (\<lambda>i. in_degree (def_nodes def) i = 0) (map node_id (def_nodes def)))) (in_degree (def_nodes def)) \<and>
     length order = length (def_nodes def)"
proof -
  let ?ids = "map node_id (def_nodes def)"
  have wf: "valid_definition def \<longleftrightarrow> first_duplicate [] ?ids = None \<and> def_entry def \<in> set ?ids \<and>
      unknown_dep (def_nodes def) = None"
    by (auto simp: valid_definition_def well_formed_def first_duplicate_None unknown_dep_None)
  show ?thesis
    unfolding wf topologicalOrder_def Let_def
    by (cases "first_duplicate [] ?ids"; cases "unknown_dep (def_nodes def)") (auto simp: split_beta)
qed

lemma deps_first_Cons_dep:
  assumes "deps_first done ns" and "i < length ns" and "d \<in> set (dependsOn (ns ! i))"
  shows "d \<in> done \<or> (\<exists>j < i. node_id (ns ! j) = d)"
  using assms
proof (induction ns arbitrary: "done" i)
  case (Cons n ns)
  show ?case
  proof (cases i)
    case (Suc k)
    with Cons.IH [of "insert (node_id n) done" k] Cons.prems
    consider "d \<in> insert (node_id n) done" | j where "j < k" "node_id (ns ! j) = d" by auto
    then show ?thesis
    proof cases
      case 1
      then show ?thesis using Suc by (auto intro: exI [of _ 0])
    next
      case (2 j)
      then show ?thesis using Suc by (intro disjI2 exI [of _ "Suc j"]) simp
    qed
  qed (use Cons.prems in auto)
qed simp

text \<open>The edges of the dependency graph, from a node to what it depends on.\<close>

definition dep_edges :: "FlowNode list \<Rightarrow> (string \<times> string) set" where
  "dep_edges nodes = {(node_id n, d) | n d. n \<in> set nodes \<and> d \<in> set (dependsOn n)}"

lemma topologicalOrder_mset:
  assumes "topologicalOrder def = Inr order"
  shows "mset order = mset (def_nodes def)"
proof -
  let ?nodes = "def_nodes def"
  have wf: "well_formed ?nodes" and order: "order = kahn ?nodes
       (sort (filter (\<lambda>i. in_degree ?nodes i = 0) (map node_id ?nodes))) (in_degree ?nodes)"
    and len: "length order = length ?nodes"
    using assms by (auto simp: topologicalOrder_Inr valid_definition_def)
  note k = kahn_correct [OF wf kahn_init [OF wf], folded order]
  have dn: "distinct ?nodes" "distinct order" using wf k(3) by (auto simp: well_formed_def distinct_map)
  have "set order = set ?nodes" using k(2) dn len by (metis card_subset_eq distinct_card finite_set)
  then show ?thesis using dn by (simp add: set_eq_iff_mset_eq_distinct)
qed

lemma deps_first_acyclic:
  assumes "deps_first {} ns" and "distinct (map node_id ns)"
  shows "acyclic (dep_edges ns)"
proof -
  define pos where "pos i = length (takeWhile (\<lambda>n. node_id n \<noteq> i) ns)" for i
  have upper: "pos (node_id (ns ! j)) \<le> j" if "j < length ns" for j
  proof (rule ccontr)
    assume "\<not> pos (node_id (ns ! j)) \<le> j"
    then have "j < length (takeWhile (\<lambda>n. node_id n \<noteq> node_id (ns ! j)) ns)" by (simp add: pos_def)
    then show False by (metis (mono_tags, lifting) nth_mem set_takeWhileD takeWhile_nth)
  qed
  have lower: "pos (node_id (ns ! i)) = i" if i: "i < length ns" for i
  proof (rule antisym [OF upper [OF i]], rule ccontr)
    let ?p = "pos (node_id (ns ! i))"
    assume "\<not> i \<le> ?p"
    then have p: "?p < i" by simp
    then have "?p < length ns" using i by simp
    then have "node_id (ns ! ?p) = node_id (ns ! i)" using nth_length_takeWhile unfolding pos_def by blast
    then show False using assms(2) p i by (simp add: distinct_conv_nth)
  qed
  have "pos d < pos x" if e: "(x, d) \<in> dep_edges ns" for x d
  proof -
    obtain i where i: "i < length ns" "x = node_id (ns ! i)" "d \<in> set (dependsOn (ns ! i))"
      using e by (auto simp: dep_edges_def in_set_conv_nth)
    obtain j where "j < i" "node_id (ns ! j) = d" using deps_first_Cons_dep [OF assms(1) i(1,3)] by auto
    then show ?thesis using upper [of j] lower [of i] i by auto
  qed
  then show ?thesis by (rule acyclicI_order)
qed

lemma acyclic_emits_all:
  assumes "well_formed nodes" and "acyclic (dep_edges nodes)"
    and stuck: "\<forall>n \<in> set nodes. node_id n \<notin> E \<longrightarrow> \<not> set (dependsOn n) \<subseteq> E" and "n \<in> set nodes"
  shows "node_id n \<in> E"
proof -
  have "dep_edges nodes = (\<Union>n \<in> set nodes. {node_id n} \<times> set (dependsOn n))" by (auto simp: dep_edges_def)
  then have "finite (dep_edges nodes)" by simp
  then have "wf ((dep_edges nodes)\<inverse>)" using assms(2) by (rule finite_acyclic_wf_converse)
  then have "\<forall>n \<in> set nodes. node_id n = x \<longrightarrow> x \<in> E" for x
  proof (induction x rule: wf_induct_rule)
    case (less x)
    show ?case
    proof (intro ballI impI)
      fix n assume n: "n \<in> set nodes" "node_id n = x"
      have "d \<in> E" if d: "d \<in> set (dependsOn n)" for d
      proof -
        have "(d, x) \<in> (dep_edges nodes)\<inverse>" using n d by (auto simp: dep_edges_def)
        moreover obtain m where "m \<in> set nodes" "node_id m = d"
          using assms(1) n(1) d unfolding well_formed_def by blast
        ultimately show ?thesis using less.IH by blast
      qed
      then show "x \<in> E" using stuck n by blast
    qed
  qed
  then show ?thesis using assms(4) by blast
qed

section \<open>Properties\<close>

text \<open>C4: a successful topological order is a rearrangement of the definition's nodes in which every
  node comes after all the nodes it depends on.\<close>

theorem topologicalOrder_sound:
  assumes "topologicalOrder def = Inr order"
  shows "mset order = mset (def_nodes def) \<and> distinct (map node_id order) \<and>
    (\<forall>i < length order. \<forall>d \<in> set (dependsOn (order ! i)). \<exists>j < i. node_id (order ! j) = d)"
proof -
  have wf: "well_formed (def_nodes def)" using assms by (auto simp: topologicalOrder_Inr valid_definition_def)
  have k: "deps_first {} order" "distinct (map node_id order)"
    using kahn_correct [OF wf kahn_init [OF wf]] assms by (auto simp: topologicalOrder_Inr)
  then show ?thesis using topologicalOrder_mset [OF assms] deps_first_Cons_dep [OF k(1)] by blast
qed

text \<open>A diamond and a cycle, for the witnesses.\<close>

definition step_node :: "string \<Rightarrow> string list \<Rightarrow> FlowNode" where
  "step_node i ds = AgentStep i ''executor'' ''run'' [] ds None"

definition diamond :: FlowDefinition where
  "diamond = \<lparr>def_id = ''f'', def_version = 1,
     def_nodes = [step_node ''d'' [''c'', ''b''], step_node ''c'' [''a''], step_node ''b'' [''a''], step_node ''a'' []],
     def_entry = ''a''\<rparr>"

theorem topologicalOrder_sound_witness:
  "\<exists>order. topologicalOrder diamond = Inr order \<and> map node_id order = [''a'', ''b'', ''c'', ''d''] \<and>
     mset order = mset (def_nodes diamond)"
proof -
  let ?order = "[step_node ''a'' [], step_node ''b'' [''a''], step_node ''c'' [''a''], step_node ''d'' [''c'', ''b'']]"
  have o: "topologicalOrder diamond = Inr ?order" by code_simp
  have m: "mset ?order = mset (def_nodes diamond)" using topologicalOrder_sound [OF o] by blast
  show ?thesis by (intro exI [of _ ?order] conjI o m) (simp add: step_node_def)
qed

text \<open>C38: the order exists exactly for the definitions the code accepts: identifiers are unique, the
  entry is a node, every dependency is a node, and the dependency graph has no cycle.\<close>

theorem topologicalOrder_complete:
  "(\<exists>order. topologicalOrder def = Inr order) \<longleftrightarrow>
     valid_definition def \<and> acyclic (dep_edges (def_nodes def))"
proof
  assume "\<exists>order. topologicalOrder def = Inr order"
  then obtain order where o: "topologicalOrder def = Inr order" by blast
  let ?nodes = "def_nodes def"
  have v: "valid_definition def" and wf: "well_formed ?nodes"
    using o by (auto simp: topologicalOrder_Inr valid_definition_def)
  have k: "deps_first {} order" "distinct (map node_id order)" "mset order = mset ?nodes"
    using kahn_correct [OF wf kahn_init [OF wf]] o topologicalOrder_mset [OF o] by (auto simp: topologicalOrder_Inr)
  have "acyclic (dep_edges order)" using k(1,2) by (rule deps_first_acyclic)
  moreover have "dep_edges order = dep_edges ?nodes" using k(3) by (auto simp: dep_edges_def dest: mset_eq_setD)
  ultimately show "valid_definition def \<and> acyclic (dep_edges ?nodes)" using v by simp
next
  assume a: "valid_definition def \<and> acyclic (dep_edges (def_nodes def))"
  let ?nodes = "def_nodes def"
  define order where "order = kahn ?nodes (sort (filter (\<lambda>i. in_degree ?nodes i = 0) (map node_id ?nodes))) (in_degree ?nodes)"
  have wf: "well_formed ?nodes" using a by (simp add: valid_definition_def)
  note k = kahn_correct [OF wf kahn_init [OF wf], folded order_def]
  have inj: "inj_on node_id (set ?nodes)" using wf by (simp add: well_formed_def distinct_map)
  have "set ?nodes \<subseteq> set order"
  proof
    fix n assume n: "n \<in> set ?nodes"
    have "node_id n \<in> node_id ` set order"
      using acyclic_emits_all [OF wf, of "node_id ` set order" n] k(5) a n by simp
    then obtain m where m: "node_id n = node_id m" "m \<in> set order" by (rule imageE)
    moreover have "m \<in> set ?nodes" using m(2) k(2) by blast
    ultimately show "n \<in> set order" using inj_onD [OF inj _ n] by metis
  qed
  then have "set order = set ?nodes" using k(2) by blast
  moreover have "distinct order" "distinct ?nodes" using k(3) wf by (auto simp: well_formed_def distinct_map)
  ultimately have "length order = length ?nodes" by (metis distinct_card)
  then show "\<exists>order. topologicalOrder def = Inr order" using a by (auto simp: topologicalOrder_Inr order_def)
qed

lemma kahn_inv_ready:
  assumes "kahn_inv nodes done ready deg" and "kahn_inv nodes' done ready' deg'" and "set nodes = set nodes'"
  shows "ready = ready'"
proof -
  have "set ready = set ready'"
    using assms unfolding kahn_inv_def by (auto; metis imageE subsetD)
  then show ?thesis using assms by (auto simp: kahn_inv_def intro: sorted_distinct_set_unique)
qed

lemma kahn_stable:
  assumes "well_formed nodes" and "well_formed nodes'" and "set nodes = set nodes'"
    and "kahn_inv nodes done ready deg" and "kahn_inv nodes' done ready' deg'"
  shows "kahn nodes ready deg = kahn nodes' ready' deg'"
  using assms
proof (induction nodes ready deg arbitrary: "done" ready' deg' rule: kahn.induct)
  case (1 nodes deg)
  have "ready' = []" using kahn_inv_ready [OF "1.prems"(4,5,3)] by simp
  then show ?case by simp
next
  case (2 nodes i ready deg)
  have ready': "ready' = i # ready" using kahn_inv_ready [OF "2.prems"(4,5,3)] by simp
  obtain n where n: "n \<in> set nodes" "node_id n = i" using "2.prems"(4) by (auto simp: kahn_inv_def)
  have f: "find (\<lambda>m. node_id m = i) nodes = Some n" "find (\<lambda>m. node_id m = i) nodes' = Some n"
    using n "2.prems"(1-3) find_node by (auto simp: well_formed_def)
  obtain r1 d1 where r: "relax (children_of nodes i) ready deg = (r1, d1)" by (metis prod.exhaust)
  obtain r2 d2 where r': "relax (children_of nodes' i) ready deg' = (r2, d2)" by (metis prod.exhaust)
  have s: "kahn_inv nodes (insert i done) r1 d1" using kahn_step(1) [OF "2.prems"(1,4) n r] .
  have s': "kahn_inv nodes' (insert i done) r2 d2"
    using kahn_step(1) [OF "2.prems"(2) _ _ n(2) r'] "2.prems"(3,5) n(1) ready' by simp
  from "2.IH"(2) [OF f(1) r [symmetric] "2.prems"(1-3) s s'] show ?case using f r r' ready' by simp
qed

text \<open>The order does not depend on how the definition lists its nodes: two definitions with the same
  entry and the same nodes in any order have the same topological order.\<close>

theorem topologicalOrder_stable:
  assumes "mset (def_nodes def) = mset (def_nodes def')" and "def_entry def = def_entry def'"
  shows "topologicalOrder def = Inr order \<longleftrightarrow> topologicalOrder def' = Inr order"
proof -
  let ?n = "def_nodes def" and ?n' = "def_nodes def'"
  have set: "set ?n = set ?n'" using assms(1) by (rule mset_eq_setD)
  have "distinct (map node_id ?n) \<longleftrightarrow> distinct (map node_id ?n')"
    using assms(1) by (metis mset_eq_imp_distinct_iff mset_map)
  then have wf: "well_formed ?n \<longleftrightarrow> well_formed ?n'" by (simp add: well_formed_def set)
  then have valid: "valid_definition def \<longleftrightarrow> valid_definition def'" by (simp add: valid_definition_def set assms(2))
  have "kahn ?n (sort (filter (\<lambda>i. in_degree ?n i = 0) (map node_id ?n))) (in_degree ?n) =
      kahn ?n' (sort (filter (\<lambda>i. in_degree ?n' i = 0) (map node_id ?n'))) (in_degree ?n')" if "well_formed ?n"
    using that wf set kahn_init [of ?n] kahn_init [of ?n'] by (intro kahn_stable) auto
  moreover have "length ?n = length ?n'" using assms(1) by (rule mset_eq_length)
  ultimately show ?thesis using valid by (auto simp: topologicalOrder_Inr valid_definition_def)
qed

theorem topologicalOrder_stable_witness:
  "topologicalOrder (diamond\<lparr>def_nodes := rev (def_nodes diamond)\<rparr>) =
   Inr [step_node ''a'' [], step_node ''b'' [''a''], step_node ''c'' [''a''], step_node ''d'' [''c'', ''b'']]"
proof -
  have "topologicalOrder diamond =
      Inr [step_node ''a'' [], step_node ''b'' [''a''], step_node ''c'' [''a''], step_node ''d'' [''c'', ''b'']]"
    by code_simp
  then show ?thesis
    using topologicalOrder_stable [of diamond "diamond\<lparr>def_nodes := rev (def_nodes diamond)\<rparr>"] by simp
qed

end
