(* ===== verification/Flow_Engine.thy ===== *)
theory Flow_Engine
  imports Flow_Graph Complex_Main
begin

text \<open>
  The flow engine (\<^verbatim>\<open>FlowEngine\<close> of \<^verbatim>\<open>packages/core/flow/src/engine.ts\<close>, with the state of \<^verbatim>\<open>state.ts\<close>, the
  events of \<^verbatim>\<open>events.ts\<close> and the runner contract of \<^verbatim>\<open>runners.ts\<close>). What lies outside the engine is an
  environment: the registered runners, whose answer may depend on how many runner calls came before;
  the readings of the clock, numbered; whether the caller's signal is aborted at a reading; and the
  digest. The mutable state of a run is threaded through explicitly, with the number of runner calls,
  the number of clock readings and the published events. A thrown error is a value that carries the
  state reached so far.
\<close>

section \<open>Data\<close>

datatype NodeCostConfidence = Exact | Estimate | Unknown

datatype FlowCostConfidence = Known NodeCostConfidence | Mixed

record NodeError =
  err_message :: string
  retriable :: bool

record NodeOutput =
  ok :: bool
  out_value :: js_value
  costUsd :: "rat option"
  costConfidence :: NodeCostConfidence
  costSource :: string
  out_error :: "NodeError option"

datatype NodeRuntimeStatus = NodePending | NodeRunning | NodeSucceeded | NodeFailed | NodePaused

record PersistedNodeOutput =
  p_hash :: string
  p_output :: NodeOutput
  completedAt :: ms

record CostSample =
  usd :: "rat option"
  confidence :: NodeCostConfidence
  cost_source :: string

record PendingGate =
  gate_nodeId :: string
  gate_resumeToken :: string

record FlowRunState =
  flowRunId :: string
  flowId :: string
  flow_version :: nat
  flow_entry :: string
  nodeStatus :: "string \<Rightarrow> NodeRuntimeStatus option"
  nodeOutputs :: "string \<Rightarrow> PersistedNodeOutput option"
  pendingGate :: "PendingGate option"
  startedAt :: ms
  updatedAt :: ms
  totalCostUsd :: "rat option"
  costSamples :: "CostSample list"

datatype flow_status = FlowSucceeded | FlowFailed | FlowPaused

datatype FlowEvent =
    FlowStarted string string nat ms "string option"
  | NodeStartedEv string string "string option" ms nat
  | NodeCompletedEv string string ms ms NodeOutput bool
  | NodeFailedEv string string ms NodeError bool
  | HumanGateReached string string ms string string
  | FlowCompleted string ms flow_status "rat option" FlowCostConfidence nat

record RunnerContext =
  ctx_flowRunId :: string
  ctx_node :: FlowNode
  ctx_inputs :: js_record
  ctx_priorOutputs :: "string \<Rightarrow> NodeOutput option"

text \<open>A runner either throws (\<open>Inl\<close>) or resolves; its first argument is the number of earlier calls.\<close>

type_synonym runner = "nat \<Rightarrow> RunnerContext \<Rightarrow> string + NodeOutput"

record flow_env =
  registry :: "string \<Rightarrow> runner option"
  clock_at :: "nat \<Rightarrow> ms"
  aborted_at :: "nat \<Rightarrow> bool"
  digest :: "string \<Rightarrow> string"

record run =
  flow_state :: FlowRunState
  calls :: nat
  readings :: nat
  events :: "FlowEvent list"

section \<open>State\<close>

definition emptyState :: "string \<Rightarrow> string \<Rightarrow> nat \<Rightarrow> string \<Rightarrow> ms \<Rightarrow> FlowRunState" where
  "emptyState rid fid ver ent started =
     \<lparr>flowRunId = rid, flowId = fid, flow_version = ver, flow_entry = ent, nodeStatus = (\<lambda>_. None),
      nodeOutputs = (\<lambda>_. None), pendingGate = None, startedAt = started, updatedAt = started,
      totalCostUsd = None, costSamples = []\<rparr>"

definition read_now :: "flow_env \<Rightarrow> run \<Rightarrow> ms \<times> run" where
  "read_now env u = (clock_at env (readings u), u\<lparr>readings := Suc (readings u)\<rparr>)"

definition publish_event :: "FlowEvent \<Rightarrow> run \<Rightarrow> run" where
  "publish_event e u = u\<lparr>events := events u @ [e]\<rparr>"

definition set_status :: "string \<Rightarrow> NodeRuntimeStatus \<Rightarrow> run \<Rightarrow> run" where
  "set_status i x u = u\<lparr>flow_state := (flow_state u)\<lparr>nodeStatus := (nodeStatus (flow_state u))(i := Some x)\<rparr>\<rparr>"

definition set_output :: "string \<Rightarrow> PersistedNodeOutput \<Rightarrow> run \<Rightarrow> run" where
  "set_output i p u = u\<lparr>flow_state := (flow_state u)\<lparr>nodeOutputs := (nodeOutputs (flow_state u))(i := Some p)\<rparr>\<rparr>"

definition set_gate :: "PendingGate option \<Rightarrow> run \<Rightarrow> run" where
  "set_gate g u = u\<lparr>flow_state := (flow_state u)\<lparr>pendingGate := g\<rparr>\<rparr>"

definition recordCostSample :: "NodeOutput \<Rightarrow> run \<Rightarrow> run" where
  "recordCostSample out u =
     (let st = flow_state u
      in u\<lparr>flow_state := st\<lparr>
             costSamples := costSamples st @
               [\<lparr>usd = costUsd out, confidence = costConfidence out, cost_source = costSource out\<rparr>],
             totalCostUsd :=
               (case costUsd out of
                  None \<Rightarrow> totalCostUsd st
                | Some c \<Rightarrow> Some ((case totalCostUsd st of None \<Rightarrow> 0 | Some t \<Rightarrow> t) + c))\<rparr>\<rparr>)"

definition rollupConfidence :: "CostSample list \<Rightarrow> FlowCostConfidence" where
  "rollupConfidence samples =
     (let known = filter (\<lambda>s. \<not> (usd s = None \<and> confidence s = Unknown)) samples;
          sawExact = list_ex (\<lambda>s. confidence s = Exact) known;
          sawEstimate = list_ex (\<lambda>s. confidence s = Estimate) known
      in if samples = [] then Known Unknown
         else if known = [] then Known Unknown
         else if sawExact \<and> sawEstimate then Mixed
         else if sawExact then Known Exact
         else if sawEstimate then Known Estimate
         else Known Unknown)"

section \<open>Inputs and content hashes\<close>

text \<open>Assigning one property per dependency: a repeated dependency assigns the same property again.\<close>

definition dep_inputs :: "FlowNode \<Rightarrow> FlowRunState \<Rightarrow> js_record" where
  "dep_inputs node st =
     concat (map (\<lambda>d. case nodeOutputs st d of None \<Rightarrow> [] | Some p \<Rightarrow> [(d, out_value (p_output p))])
       (rev (remdups (rev (dependsOn node)))))"

definition resolveInputs :: "FlowNode \<Rightarrow> FlowRunState \<Rightarrow> js_record \<Rightarrow> js_record" where
  "resolveInputs node st initialInputs =
     [(''initial'', JObj initialInputs), (''deps'', JObj (dep_inputs node st)),
      (''node'', JObj (case node of AgentStep _ _ _ ins _ _ \<Rightarrow> ins | _ \<Rightarrow> []))]"

definition priorOutputsView :: "FlowRunState \<Rightarrow> string \<Rightarrow> NodeOutput option" where
  "priorOutputsView st i = map_option p_output (nodeOutputs st i)"

fun node_kind :: "FlowNode \<Rightarrow> string" where
  "node_kind (AgentStep _ _ _ _ _ _) = ''agent_step''"
| "node_kind (Conditional _ _ _ _ _) = ''conditional''"
| "node_kind (Loop _ _ _ _ _) = ''loop''"
| "node_kind (HumanGate _ _ _ _) = ''human_gate''"

definition flow_hash :: "flow_env \<Rightarrow> js_record \<Rightarrow> string + string" where
  "flow_hash env flds = contentHash (digest env) (\<lambda>_. True) show_int (JObj flds)"

definition node_hash :: "flow_env \<Rightarrow> FlowNode \<Rightarrow> js_record \<Rightarrow> FlowRunState \<Rightarrow> string + string" where
  "node_hash env node initialInputs st =
     flow_hash env [(''nodeId'', JStr (node_id node)), (''kind'', JStr (node_kind node)),
       (''inputs'', JObj (resolveInputs node st initialInputs))]"

section \<open>Executing one node\<close>

record node_outcome =
  executed :: bool
  cached :: bool
  terminal :: "flow_status option"

definition done_fresh :: "flow_status option \<Rightarrow> node_outcome" where
  "done_fresh t = \<lparr>executed = True, cached = False, terminal = t\<rparr>"

definition done_cached :: "flow_status option \<Rightarrow> node_outcome" where
  "done_cached t = \<lparr>executed = False, cached = True, terminal = t\<rparr>"

text \<open>What a node execution yields: a thrown message or an outcome, and the run.\<close>

type_synonym node_result = "(string + node_outcome) \<times> run"

definition call_runner ::
  "runner \<Rightarrow> FlowNode \<Rightarrow> js_record \<Rightarrow> (string \<Rightarrow> NodeOutput option) \<Rightarrow> run \<Rightarrow> (string + NodeOutput) \<times> run" where
  "call_runner r node ins prior u =
     (r (calls u) \<lparr>ctx_flowRunId = flowRunId (flow_state u), ctx_node = node, ctx_inputs = ins,
        ctx_priorOutputs = prior\<rparr>,
      u\<lparr>calls := Suc (calls u)\<rparr>)"

text \<open>The branch of a runner that threw.\<close>

definition runner_threw :: "flow_env \<Rightarrow> FlowNode \<Rightarrow> string \<Rightarrow> run \<Rightarrow> node_result" where
  "runner_threw env node msg u =
     (let u1 = set_status (node_id node) NodeFailed u; (t, u2) = read_now env u1
      in (Inr (done_fresh (Some FlowFailed)),
          publish_event (NodeFailedEv (flowRunId (flow_state u)) (node_id node) t
            \<lparr>err_message = msg, retriable = False\<rparr> False) u2))"

definition replay_cached :: "flow_env \<Rightarrow> FlowNode \<Rightarrow> PersistedNodeOutput \<Rightarrow> run \<Rightarrow> node_outcome \<times> run" where
  "replay_cached env node p u =
     (let u1 = set_status (node_id node) (if ok (p_output p) then NodeSucceeded else NodeFailed) u;
          (t, u2) = read_now env u1
      in (done_cached (if ok (p_output p) then None else Some FlowFailed),
          publish_event (NodeCompletedEv (flowRunId (flow_state u)) (node_id node) t 0 (p_output p) True) u2))"

definition cache_hit :: "FlowNode \<Rightarrow> string \<Rightarrow> run \<Rightarrow> PersistedNodeOutput option" where
  "cache_hit node h u =
     (case nodeOutputs (flow_state u) (node_id node) of
        None \<Rightarrow> None
      | Some p \<Rightarrow> if p_hash p = h then Some p else None)"

text \<open>The retry loop: \<open>left\<close> attempts are left, the next one is number \<open>attempt\<close>.\<close>

fun agent_attempts ::
  "flow_env \<Rightarrow> FlowNode \<Rightarrow> runner \<Rightarrow> js_record \<Rightarrow> (string \<Rightarrow> NodeOutput option) \<Rightarrow> string \<Rightarrow> nat \<Rightarrow> nat \<Rightarrow> nat \<Rightarrow> run \<Rightarrow>
     node_result" where
  "agent_attempts env node r ins prior h retries 0 attempt u =
     (Inl ''FlowEngine: retry loop fell off end (should be unreachable)'', u)"
| "agent_attempts env node r ins prior h retries (Suc left) attempt u =
     (let i = node_id node; rid = flowRunId (flow_state u);
          u1 = set_status i NodeRunning u;
          (started, u2) = read_now env u1;
          u3 = publish_event (NodeStartedEv rid i (Some (node_role node)) started attempt) u2;
          (res, u4) = call_runner r node ins prior u3
      in (case res of
            Inl msg \<Rightarrow> runner_threw env node msg u4
          | Inr out \<Rightarrow>
              let (completed, u5) = read_now env u4;
                  p = \<lparr>p_hash = h, p_output = out, completedAt = completed\<rparr>
              in if ok out then
                   (Inr (done_fresh None),
                    publish_event (NodeCompletedEv rid i completed (completed - started) out False)
                      (recordCostSample out (set_output i p (set_status i NodeSucceeded u5))))
                 else
                   let e = (case out_error out of
                              None \<Rightarrow> \<lparr>err_message = ''runner reported ok=false'', retriable = False\<rparr>
                            | Some e \<Rightarrow> e);
                       willRetry = (retriable e \<and> attempt \<le> retries);
                       u6 = publish_event (NodeFailedEv rid i completed e willRetry) u5
                   in if willRetry then agent_attempts env node r ins prior h retries left (Suc attempt) u6
                      else (Inr (done_fresh (Some FlowFailed)),
                            recordCostSample out (set_output i p (set_status i NodeFailed u6)))))"

definition retries_of :: "FlowNode \<Rightarrow> nat" where
  "retries_of node = (case node of AgentStep _ _ _ _ _ (Some n) \<Rightarrow> n | _ \<Rightarrow> 0)"

definition runAgentStep :: "flow_env \<Rightarrow> FlowNode \<Rightarrow> js_record \<Rightarrow> run \<Rightarrow> node_result" where
  "runAgentStep env node initialInputs u =
     (case registry env (node_runner node) of
        None \<Rightarrow> (Inl (''FlowEngine: no runner registered for key '' @ [CHR 0x27] @ node_runner node @ [CHR 0x27]), u)
      | Some r \<Rightarrow>
          (case node_hash env node initialInputs (flow_state u) of
             Inl msg \<Rightarrow> (Inl msg, u)
           | Inr h \<Rightarrow>
               (case cache_hit node h u of
                  Some p \<Rightarrow> (let (out, u1) = replay_cached env node p u in (Inr out, u1))
                | None \<Rightarrow>
                    agent_attempts env node r (resolveInputs node (flow_state u) initialInputs)
                      (priorOutputsView (flow_state u)) h (retries_of node) (1 + retries_of node) 1 u)))"

definition unpicked :: "FlowNode \<Rightarrow> js_value \<Rightarrow> string" where
  "unpicked node v =
     (let picked = (if v = JBool True then trueBranch node else falseBranch node)
      in if picked = trueBranch node then falseBranch node else trueBranch node)"

text \<open>Nodes with branches also extend the set of skipped nodes.\<close>

definition runConditional ::
  "flow_env \<Rightarrow> FlowNode \<Rightarrow> js_record \<Rightarrow> string set \<Rightarrow> run \<Rightarrow> node_result \<times> string set" where
  "runConditional env node initialInputs skipped u =
     (case registry env (predicate node) of
        None \<Rightarrow> ((Inl (''FlowEngine: no predicate runner registered for key '' @ [CHR 0x27] @ predicate node @
                  [CHR 0x27] @ '' (conditional '' @ node_id node @ '')''), u), skipped)
      | Some r \<Rightarrow>
          (case node_hash env node initialInputs (flow_state u) of
             Inl msg \<Rightarrow> ((Inl msg, u), skipped)
           | Inr h \<Rightarrow>
               (case cache_hit node h u of
                  Some p \<Rightarrow>
                    let (out, u1) = replay_cached env node p u
                    in ((Inr out, u1),
                        if ok (p_output p) then insert (unpicked node (out_value (p_output p))) skipped else skipped)
                | None \<Rightarrow>
                    let i = node_id node; rid = flowRunId (flow_state u);
                        ins = resolveInputs node (flow_state u) initialInputs;
                        (started, u1) = read_now env u;
                        u2 = set_status i NodeRunning u1;
                        u3 = publish_event (NodeStartedEv rid i None started 1) u2;
                        (res, u4) = call_runner r node ins (priorOutputsView (flow_state u3)) u3
                    in (case res of
                          Inl msg \<Rightarrow> (runner_threw env node msg u4, skipped)
                        | Inr out \<Rightarrow>
                            let (completed, u5) = read_now env u4;
                                u6 = recordCostSample out u5;
                                p = \<lparr>p_hash = h, p_output = out, completedAt = completed\<rparr>
                            in if \<not> ok out then
                                 let e = (case out_error out of
                                            None \<Rightarrow> \<lparr>err_message = ''predicate reported ok=false'', retriable = False\<rparr>
                                          | Some e \<Rightarrow> e)
                                 in ((Inr (done_fresh (Some FlowFailed)),
                                      publish_event (NodeFailedEv rid i completed e False)
                                        (set_output i p (set_status i NodeFailed u6))), skipped)
                               else
                                 ((Inr (done_fresh None),
                                   publish_event (NodeCompletedEv rid i completed (completed - started) out False)
                                     (set_output i p (set_status i NodeSucceeded u6))),
                                  insert (unpicked node (out_value out)) skipped)))))"

text \<open>The iterations of a loop node: \<open>left\<close> are left, \<open>done\<close> were made, the last output was \<open>last\<close>.
  \<open>Inl\<close> is the early return of a failure.\<close>

fun loop_iterations ::
  "flow_env \<Rightarrow> FlowNode \<Rightarrow> runner \<Rightarrow> js_record \<Rightarrow> nat \<Rightarrow> nat \<Rightarrow> NodeOutput option \<Rightarrow> run \<Rightarrow>
     node_result + nat \<times> NodeOutput option \<times> run" where
  "loop_iterations env node r initialInputs 0 n lastOut u = Inr (n, lastOut, u)"
| "loop_iterations env node r initialInputs (Suc left) n lastOut u =
     (let ins = resolveInputs node (flow_state u) initialInputs @ [(''__loop_iteration'', JNum (int (Suc n)))];
          (res, u1) = call_runner r node ins (priorOutputsView (flow_state u)) u
      in (case res of
            Inl msg \<Rightarrow> Inl (runner_threw env node msg u1)
          | Inr out \<Rightarrow>
              let u2 = recordCostSample out u1
              in if \<not> ok out then
                   let u3 = set_status (node_id node) NodeFailed u2; (t, u4) = read_now env u3;
                       e = (case out_error out of
                              None \<Rightarrow> \<lparr>err_message = ''loop predicate reported ok=false'', retriable = False\<rparr>
                            | Some e \<Rightarrow> e)
                   in Inl (Inr (done_fresh (Some FlowFailed)),
                           publish_event (NodeFailedEv (flowRunId (flow_state u)) (node_id node) t e False) u4)
                 else if out_value out = JBool True then Inr (Suc n, Some out, u2)
                 else loop_iterations env node r initialInputs left (Suc n) (Some out) u2))"

definition runLoop :: "flow_env \<Rightarrow> FlowNode \<Rightarrow> js_record \<Rightarrow> run \<Rightarrow> node_result" where
  "runLoop env node initialInputs u =
     (case registry env (loop_until node) of
        None \<Rightarrow> (Inl (''FlowEngine: no until-predicate runner registered for key '' @ [CHR 0x27] @ loop_until node @
                  [CHR 0x27] @ '' (loop '' @ node_id node @ '')''), u)
      | Some r \<Rightarrow>
          let i = node_id node; rid = flowRunId (flow_state u);
              u1 = set_status i NodeRunning u;
              (started, u2) = read_now env u1;
              u3 = publish_event (NodeStartedEv rid i None started 1) u2
          in (case loop_iterations env node r initialInputs (maxIterations node) 0 None u3 of
                Inl res \<Rightarrow> res
              | Inr (n, lastOut, u4) \<Rightarrow>
                  let (completed, u5) = read_now env u4;
                      u6 = set_status i NodeSucceeded u5;
                      persisted = (case lastOut of
                        Some out \<Rightarrow> out
                      | None \<Rightarrow> \<lparr>ok = True, out_value = JBool False, costUsd = None, costConfidence = Unknown,
                                 costSource = ''loop'', out_error = None\<rparr>)
                  in (case flow_hash env [(''nodeId'', JStr i), (''kind'', JStr (node_kind node)),
                          (''inputs'', JObj (resolveInputs node (flow_state u6) initialInputs)),
                          (''iterations'', JNum (int n))] of
                        Inl msg \<Rightarrow> (Inl msg, u6)
                      | Inr h \<Rightarrow>
                          (Inr (done_fresh None),
                           publish_event (NodeCompletedEv rid i completed (completed - started) persisted False)
                             (set_output i \<lparr>p_hash = h, p_output = persisted, completedAt = completed\<rparr> u6)))))"

definition human_input :: "FlowNode \<Rightarrow> js_record \<Rightarrow> js_value option" where
  "human_input node initialInputs =
     (case map_of initialInputs (resumeToken node) of
        Some v \<Rightarrow> if v = JUndefined then None else Some v
      | None \<Rightarrow> None)"

definition runHumanGate :: "flow_env \<Rightarrow> FlowNode \<Rightarrow> js_record \<Rightarrow> run \<Rightarrow> node_result" where
  "runHumanGate env node initialInputs u =
     (let i = node_id node; rid = flowRunId (flow_state u); (t, u1) = read_now env u
      in (case human_input node initialInputs of
            Some v \<Rightarrow>
              let out = \<lparr>ok = True, out_value = v, costUsd = None, costConfidence = Unknown,
                         costSource = ''human_gate'', out_error = None\<rparr>
              in (case flow_hash env [(''nodeId'', JStr i), (''kind'', JStr (node_kind node)),
                      (''resumeToken'', JStr (resumeToken node))] of
                    Inl msg \<Rightarrow> (Inl msg, u1)
                  | Inr h \<Rightarrow>
                      let u2 = set_output i \<lparr>p_hash = h, p_output = out, completedAt = t\<rparr> (set_status i NodeSucceeded u1);
                          u3 = (case pendingGate (flow_state u2) of
                                  Some g \<Rightarrow> if gate_nodeId g = i then set_gate None u2 else u2
                                | None \<Rightarrow> u2)
                      in (Inr (done_fresh None),
                          publish_event (NodeCompletedEv rid i t 0 out False)
                            (publish_event (NodeStartedEv rid i None t 1) u3)))
          | None \<Rightarrow>
              (Inr (done_fresh (Some FlowPaused)),
               publish_event (HumanGateReached rid i t (prompt node) (resumeToken node))
                 (publish_event (NodeStartedEv rid i None t 1)
                   (set_gate (Some \<lparr>gate_nodeId = i, gate_resumeToken = resumeToken node\<rparr>)
                     (set_status i NodePaused u1))))))"

definition executeNode ::
  "flow_env \<Rightarrow> FlowNode \<Rightarrow> js_record \<Rightarrow> string set \<Rightarrow> run \<Rightarrow> node_result \<times> string set" where
  "executeNode env node initialInputs skipped u =
     (case node of
        AgentStep _ _ _ _ _ _ \<Rightarrow> (runAgentStep env node initialInputs u, skipped)
      | Conditional _ _ _ _ _ \<Rightarrow> runConditional env node initialInputs skipped u
      | Loop _ _ _ _ _ \<Rightarrow> (runLoop env node initialInputs u, skipped)
      | HumanGate _ _ _ _ \<Rightarrow> (runHumanGate env node initialInputs u, skipped))"

section \<open>Running a flow\<close>

text \<open>How the walk over the order ends: the status, and the numbers of executed and cached nodes.\<close>

definition node_threw :: "flow_env \<Rightarrow> FlowNode \<Rightarrow> string \<Rightarrow> run \<Rightarrow> run" where
  "node_threw env node msg u =
     (let u1 = set_status (node_id node) NodeFailed u; (t, u2) = read_now env u1
      in publish_event (NodeFailedEv (flowRunId (flow_state u)) (node_id node) t
           \<lparr>err_message = msg, retriable = False\<rparr> False) u2)"

fun walk_nodes ::
  "flow_env \<Rightarrow> js_record \<Rightarrow> FlowNode list \<Rightarrow> string set \<Rightarrow> nat \<Rightarrow> nat \<Rightarrow> nat \<Rightarrow> run \<Rightarrow> flow_status \<times> nat \<times> nat \<times> run" where
  "walk_nodes env ini [] skipped guard nodes hits u = (FlowSucceeded, nodes, hits, u)"
| "walk_nodes env ini (node # rest) skipped guard nodes hits u =
     (if aborted_at env (readings u) then
        (FlowFailed, nodes, hits,
         (case nodeStatus (flow_state u) (node_id node) of
            None \<Rightarrow> set_status (node_id node) NodePending u
          | Some _ \<Rightarrow> u))
      else if node_id node \<in> skipped then walk_nodes env ini rest skipped guard nodes hits u
      else if list_ex (\<lambda>d. d \<in> skipped \<or> nodeStatus (flow_state u) d = Some NodeFailed) (dependsOn node) then
        walk_nodes env ini rest (insert (node_id node) skipped) guard nodes hits u
      else if Suc guard > 100000 then (FlowFailed, nodes, hits, u)
      else
        (case executeNode env node ini skipped u of
           ((Inl msg, u1), _) \<Rightarrow> (FlowFailed, nodes, hits, node_threw env node msg u1)
         | ((Inr out, u1), skipped') \<Rightarrow>
             let hits' = (if cached out then Suc hits else hits);
                 nodes' = (if \<not> cached out \<and> executed out then Suc nodes else nodes)
             in (case terminal out of
                   Some st \<Rightarrow> (st, nodes', hits', u1)
                 | None \<Rightarrow> walk_nodes env ini rest skipped' (Suc guard) nodes' hits' u1)))"

definition freeze :: "flow_env \<Rightarrow> run \<Rightarrow> FlowRunState \<times> run" where
  "freeze env u = (let (t, u1) = read_now env u in ((flow_state u)\<lparr>updatedAt := t\<rparr>, u1))"

definition finish :: "flow_env \<Rightarrow> flow_status \<times> nat \<times> nat \<times> run \<Rightarrow> FlowRunState \<times> run" where
  "finish env r =
     (case r of (status, nodes, hits, u) \<Rightarrow>
        let (frozen, u1) = freeze env u; (t, u2) = read_now env u1
        in (frozen,
            publish_event (FlowCompleted (flowRunId (flow_state u)) t status (totalCostUsd (flow_state u))
              (rollupConfidence (costSamples (flow_state u))) (nodes + hits)) u2))"

definition initState :: "flow_env \<Rightarrow> FlowDefinition \<Rightarrow> string \<Rightarrow> FlowRunState option \<Rightarrow> run" where
  "initState env def rid resumeFrom =
     (let started = clock_at env 0
      in \<lparr>flow_state =
            (case resumeFrom of
               Some st \<Rightarrow> st\<lparr>flowRunId := rid, flowId := def_id def, flow_version := def_version def,
                 flow_entry := def_entry def, updatedAt := started\<rparr>
             | None \<Rightarrow> emptyState rid (def_id def) (def_version def) (def_entry def) started),
          calls = 0, readings = 1, events = []\<rparr>)"

definition run_flow ::
  "flow_env \<Rightarrow> FlowDefinition \<Rightarrow> string \<Rightarrow> js_record \<Rightarrow> FlowRunState option \<Rightarrow> string + FlowRunState \<times> run" where
  "run_flow env def rid ini resumeFrom =
     bind_result (topologicalOrder def) (\<lambda>order.
       let u = initState env def rid resumeFrom;
           (t, u1) = read_now env u;
           resumed = (case resumeFrom of
                        Some st \<Rightarrow> if flowRunId st \<noteq> rid then Some (flowRunId st) else None
                      | None \<Rightarrow> None);
           u2 = publish_event (FlowStarted rid (def_id def) (def_version def) t resumed) u1
       in Inr (finish env (walk_nodes env ini order {} 0 0 0 (set_gate None u2))))"

end
