(* ===== verification/Flow_Run.thy ===== *)
theory Flow_Run
  imports Flow_Engine
begin

text \<open>
  What a flow run guarantees: nodes run after their dependencies, retries and loops are bounded, costs
  add up, one completion event ends every run, and resuming a finished run replays it from the cache.
\<close>

section \<open>The effect of one node\<close>

text \<open>The result of a successful node: its status and its stored output.\<close>

definition settled :: "FlowRunState \<Rightarrow> string \<Rightarrow> bool" where
  "settled st i \<longleftrightarrow> nodeStatus st i = Some NodeSucceeded \<and> (\<exists>p. nodeOutputs st i = Some p \<and> ok (p_output p))"

text \<open>The total is the sum of the samples that have a price, and there is one when a sample has one.\<close>

fun samples_total :: "CostSample list \<Rightarrow> rat option" where
  "samples_total [] = None"
| "samples_total (s # ss) =
     (case usd s of
        None \<Rightarrow> samples_total ss
      | Some c \<Rightarrow> Some (c + (case samples_total ss of None \<Rightarrow> 0 | Some t \<Rightarrow> t)))"

definition cost_ok :: "FlowRunState \<Rightarrow> bool" where
  "cost_ok st \<longleftrightarrow> totalCostUsd st = samples_total (costSamples st)"

lemma samples_total_snoc:
  "samples_total (ss @ [s]) =
     (case usd s of
        None \<Rightarrow> samples_total ss
      | Some c \<Rightarrow> Some ((case samples_total ss of None \<Rightarrow> 0 | Some t \<Rightarrow> t) + c))"
  by (induction ss) (auto split: option.splits)

text \<open>What may change between two points of a run while node \<open>i\<close> is executed.\<close>

definition only_node :: "string \<Rightarrow> run \<Rightarrow> run \<Rightarrow> bool" where
  "only_node i u v \<longleftrightarrow>
     (\<forall>j. j \<noteq> i \<longrightarrow> nodeStatus (flow_state v) j = nodeStatus (flow_state u) j \<and>
        nodeOutputs (flow_state v) j = nodeOutputs (flow_state u) j) \<and>
     flowRunId (flow_state v) = flowRunId (flow_state u) \<and>
     (cost_ok (flow_state u) \<longrightarrow> cost_ok (flow_state v)) \<and>
     calls u \<le> calls v \<and> readings u \<le> readings v"

lemma only_node_refl [simp]: "only_node i u u"
  by (simp add: only_node_def)

lemma only_node_trans: "only_node i u v \<Longrightarrow> only_node i v x \<Longrightarrow> only_node i u x"
  unfolding only_node_def by auto

lemma only_node_steps [simp]:
  "only_node i u (set_status i x u)" "only_node i u (set_output i p u)" "only_node i u (publish_event e u)"
  "only_node i u (set_gate g u)" "only_node i u (recordCostSample out u)"
  "only_node i u (snd (read_now env u))" "only_node i u (snd (call_runner r node ins prior u))"
  by (auto simp: only_node_def set_status_def set_output_def publish_event_def set_gate_def recordCostSample_def
      read_now_def call_runner_def cost_ok_def samples_total_snoc Let_def split: option.splits)

lemma only_node_then:
  "only_node i u v \<Longrightarrow> only_node i u (set_status i st v)" "only_node i u v \<Longrightarrow> only_node i u (set_output i p v)"
  "only_node i u v \<Longrightarrow> only_node i u (publish_event e v)" "only_node i u v \<Longrightarrow> only_node i u (set_gate g v)"
  "only_node i u v \<Longrightarrow> only_node i u (recordCostSample out v)"
  "only_node i u v \<Longrightarrow> read_now env v = (t, x) \<Longrightarrow> only_node i u x"
  "only_node i u v \<Longrightarrow> call_runner r node ins prior v = (res, x) \<Longrightarrow> only_node i u x"
proof -
  show "only_node i u v \<Longrightarrow> read_now env v = (t, x) \<Longrightarrow> only_node i u x"
    by (metis only_node_steps(6) only_node_trans snd_conv)
  show "only_node i u v \<Longrightarrow> call_runner r node ins prior v = (res, x) \<Longrightarrow> only_node i u x"
    by (metis only_node_steps(7) only_node_trans snd_conv)
qed (blast intro: only_node_trans only_node_steps)+

lemma field_simps_run [simp]:
  "flow_state (publish_event e u) = flow_state u" "events (publish_event e u) = events u @ [e]"
  "events (set_status i x u) = events u" "events (set_output i p u) = events u"
  "events (set_gate g u) = events u" "events (recordCostSample out u) = events u"
  "nodeStatus (flow_state (set_status i x u)) = (nodeStatus (flow_state u))(i := Some x)"
  "nodeOutputs (flow_state (set_status i x u)) = nodeOutputs (flow_state u)"
  "nodeStatus (flow_state (set_output i p u)) = nodeStatus (flow_state u)"
  "nodeOutputs (flow_state (set_output i p u)) = (nodeOutputs (flow_state u))(i := Some p)"
  "nodeStatus (flow_state (recordCostSample out u)) = nodeStatus (flow_state u)"
  "nodeOutputs (flow_state (recordCostSample out u)) = nodeOutputs (flow_state u)"
  "nodeStatus (flow_state (set_gate g u)) = nodeStatus (flow_state u)"
  "nodeOutputs (flow_state (set_gate g u)) = nodeOutputs (flow_state u)"
  "calls (publish_event e u) = calls u" "calls (set_status i x u) = calls u" "calls (set_output i p u) = calls u"
  "calls (set_gate g u) = calls u" "calls (recordCostSample out u) = calls u"
  by (simp_all add: publish_event_def set_status_def set_output_def set_gate_def recordCostSample_def Let_def)

lemma read_now_fields:
  assumes "read_now env u = (t, v)"
  shows "flow_state v = flow_state u" "events v = events u" "calls v = calls u" "readings v = Suc (readings u)"
  using assms by (auto simp: read_now_def)

lemma call_runner_fields:
  assumes "call_runner r node ins prior u = (res, v)"
  shows "flow_state v = flow_state u" "events v = events u" "calls v = Suc (calls u)"
  using assms by (auto simp: call_runner_def)

text \<open>Events of node \<open>i\<close>, and among them a successful completion.\<close>

fun about :: "string \<Rightarrow> FlowEvent \<Rightarrow> bool" where
  "about i (NodeStartedEv _ j _ _ _) = (j = i)"
| "about i (NodeCompletedEv _ j _ _ _ _) = (j = i)"
| "about i (NodeFailedEv _ j _ _ _) = (j = i)"
| "about i (HumanGateReached _ j _ _ _) = (j = i)"
| "about i _ = False"

fun completes :: "string \<Rightarrow> FlowEvent \<Rightarrow> bool" where
  "completes i (NodeCompletedEv _ j _ _ out _) = (j = i \<and> ok out)"
| "completes i _ = False"

text \<open>The contract of a node execution: it touches only its node, publishes only events about it, and
  when it does not end the flow it leaves the node settled, with its completion as the last event.\<close>

definition node_contract :: "string \<Rightarrow> run \<Rightarrow> node_result \<Rightarrow> bool" where
  "node_contract i u r \<longleftrightarrow>
     only_node i u (snd r) \<and>
     (\<exists>es. events (snd r) = events u @ es \<and> list_all (about i) es \<and>
       (case fst r of
          Inr out \<Rightarrow> terminal out = None \<longrightarrow>
            settled (flow_state (snd r)) i \<and> es \<noteq> [] \<and> completes i (last es) \<and>
            list_all (\<lambda>e. \<not> completes i e) (butlast es)
        | Inl _ \<Rightarrow> True))"

lemma node_contractD:
  "node_contract i u (res, v) \<Longrightarrow> only_node i u v \<and> (\<exists>es. events v = events u @ es \<and> list_all (about i) es \<and>
     (\<forall>out. res = Inr out \<and> terminal out = None \<longrightarrow> es \<noteq> [] \<and> completes i (last es)))"
  by (cases res) (auto simp: node_contract_def)

lemma runner_threw_contract:
  assumes "only_node i u v" and "events v = events u @ es" and "list_all (about i) es" and "node_id node = i"
  shows "node_contract i u (runner_threw env node msg v)"
proof -
  obtain t x where r: "read_now env (set_status i NodeFailed v) = (t, x)" by (metis prod.exhaust)
  note rf = read_now_fields [OF r]
  have "only_node i u x" using only_node_then(1) [OF assms(1)] r by (rule only_node_then(6))
  then show ?thesis
    using assms r rf by (auto simp: node_contract_def runner_threw_def done_fresh_def intro!: only_node_then(1-5))
qed

lemma replay_cached_contract:
  assumes "replay_cached env node p u = (out, v)" and "node_id node = i" and "cache_hit node h u = Some p"
  shows "node_contract i u (Inr out, v)" and "terminal out = None \<longleftrightarrow> ok (p_output p)"
    and "calls v = calls u" and "nodeOutputs (flow_state v) = nodeOutputs (flow_state u)"
    and "costSamples (flow_state v) = costSamples (flow_state u)"
proof -
  let ?x = "if ok (p_output p) then NodeSucceeded else NodeFailed"
  obtain t x where r: "read_now env (set_status i ?x u) = (t, x)" by (metis prod.exhaust)
  note rf = read_now_fields [OF r]
  have on: "only_node i u x" using only_node_steps(1) r by (rule only_node_then(6))
  have res: "out = done_cached (if ok (p_output p) then None else Some FlowFailed)"
    "v = publish_event (NodeCompletedEv (flowRunId (flow_state u)) i t 0 (p_output p) True) x"
    using assms(1,2) r by (auto simp: replay_cached_def Let_def)
  have p: "nodeOutputs (flow_state u) i = Some p"
    using assms(2,3) by (auto simp: cache_hit_def split: option.splits if_splits)
  show "node_contract i u (Inr out, v)"
    using on rf p by (auto simp: node_contract_def res done_cached_def settled_def intro!: only_node_then(1-5))
  show "terminal out = None \<longleftrightarrow> ok (p_output p)" by (simp add: res done_cached_def)
  show "calls v = calls u" "nodeOutputs (flow_state v) = nodeOutputs (flow_state u)"
    "costSamples (flow_state v) = costSamples (flow_state u)"
    using rf by (simp_all add: res set_status_def)
qed

lemma agent_attempts_contract:
  assumes "only_node i u0 u" and "events u = events u0 @ es" and "list_all (about i) es"
    and "list_all (\<lambda>e. \<not> completes i e) es" and "node_id node = i"
  shows "node_contract i u0 (agent_attempts env node r ins prior h retries left attempt u)"
  using assms
proof (induction left arbitrary: attempt u es)
  case 0
  then show ?case by (auto simp: node_contract_def)
next
  case (Suc left)
  let ?rid = "flowRunId (flow_state u)"
  obtain started u2 where r2: "read_now env (set_status i NodeRunning u) = (started, u2)" by (metis prod.exhaust)
  define e3 where "e3 = NodeStartedEv ?rid i (Some (node_role node)) started attempt"
  obtain res u4 where r4: "call_runner r node ins prior (publish_event e3 u2) = (res, u4)" by (metis prod.exhaust)
  have o2: "only_node i u0 u2" using only_node_then(1) [OF Suc.prems(1)] r2 by (rule only_node_then(6))
  have o4: "only_node i u0 u4" using only_node_then(3) [OF o2] r4 by (rule only_node_then(7))
  have e4: "events u4 = events u0 @ (es @ [e3])"
    using Suc.prems(2) read_now_fields(2) [OF r2] call_runner_fields(2) [OF r4] by simp
  have a4: "list_all (about i) (es @ [e3])" "list_all (\<lambda>e. \<not> completes i e) (es @ [e3])"
    using Suc.prems(3,4) by (simp_all add: e3_def)
  show ?case
  proof (cases res)
    case (Inl msg)
    then have "agent_attempts env node r ins prior h retries (Suc left) attempt u = runner_threw env node msg u4"
      using r2 r4 Suc.prems(5) by (simp add: Let_def e3_def)
    with runner_threw_contract [OF o4 e4 a4(1) Suc.prems(5)] show ?thesis by simp
  next
    case (Inr out)
    obtain completed u5 where r5: "read_now env u4 = (completed, u5)" by (metis prod.exhaust)
    have o5: "only_node i u0 u5" using o4 r5 by (rule only_node_then(6))
    have e5: "events u5 = events u0 @ (es @ [e3])" using e4 read_now_fields(2) [OF r5] by simp
    let ?p = "\<lparr>p_hash = h, p_output = out, completedAt = completed\<rparr>"
    show ?thesis
    proof (cases "ok out")
      case True
      then have "agent_attempts env node r ins prior h retries (Suc left) attempt u =
          (Inr (done_fresh None), publish_event (NodeCompletedEv ?rid i completed (completed - started) out False)
            (recordCostSample out (set_output i ?p (set_status i NodeSucceeded u5))))"
        using r2 r4 r5 Inr Suc.prems(5) by (simp add: Let_def e3_def)
      moreover have "settled (flow_state (publish_event (NodeCompletedEv ?rid i completed (completed - started) out False)
          (recordCostSample out (set_output i ?p (set_status i NodeSucceeded u5))))) i"
        using True by (simp add: settled_def)
      ultimately show ?thesis using o5 e5 a4 True
        by (auto simp: node_contract_def done_fresh_def butlast_append intro!: only_node_then(1-5))
    next
      case False
      define e where "e = (case out_error out of
          None \<Rightarrow> \<lparr>err_message = ''runner reported ok=false'', retriable = False\<rparr> | Some e \<Rightarrow> e)"
      define will where "will = (retriable e \<and> attempt \<le> retries)"
      define u6 where "u6 = publish_event (NodeFailedEv ?rid i completed e will) u5"
      have eq: "agent_attempts env node r ins prior h retries (Suc left) attempt u =
          (if will then agent_attempts env node r ins prior h retries left (Suc attempt) u6
           else (Inr (done_fresh (Some FlowFailed)), recordCostSample out (set_output i ?p (set_status i NodeFailed u6))))"
        using r2 r4 r5 Inr False Suc.prems(5) by (simp add: Let_def e3_def e_def will_def u6_def)
      have o6: "only_node i u0 u6" unfolding u6_def using o5 by (rule only_node_then(3))
      have e6: "events u6 = events u0 @ (es @ [e3] @ [NodeFailedEv ?rid i completed e will])" using e5 by (simp add: u6_def)
      have a6: "list_all (about i) (es @ [e3] @ [NodeFailedEv ?rid i completed e will])"
        "list_all (\<lambda>e. \<not> completes i e) (es @ [e3] @ [NodeFailedEv ?rid i completed e will])" using a4 by simp_all
      show ?thesis
      proof (cases will)
        case True
        then show ?thesis using Suc.IH [OF o6 e6 a6 Suc.prems(5)] eq by simp
      next
        case stop: False
        then show ?thesis using o6 e6 a6 eq
          by (auto simp: node_contract_def done_fresh_def intro!: only_node_then(1-5))
      qed
    qed
  qed
qed

lemma node_contract_noop: "node_contract i u (Inl msg, u)"
  by (auto simp: node_contract_def)

lemma runAgentStep_contract: "node_contract (node_id node) u (runAgentStep env node ini u)"
proof (cases "registry env (node_runner node)")
  case None
  then show ?thesis by (simp add: runAgentStep_def node_contract_noop)
next
  case (Some r)
  show ?thesis
  proof (cases "node_hash env node ini (flow_state u)")
    case (Inl msg)
    with Some show ?thesis by (simp add: runAgentStep_def node_contract_noop)
  next
    case (Inr h)
    show ?thesis
    proof (cases "cache_hit node h u")
      case None
      with Some Inr show ?thesis
        using agent_attempts_contract [OF only_node_refl, of u "[]" "node_id node" node env r]
        by (simp add: runAgentStep_def del: agent_attempts.simps)
    next
      case hit: (Some p)
      obtain out v where rc: "replay_cached env node p u = (out, v)" by (metis prod.exhaust)
      with Some Inr hit show ?thesis using replay_cached_contract(1) [OF rc refl hit] by (simp add: runAgentStep_def)
    qed
  qed
qed

lemma runConditional_contract: "node_contract (node_id node) u (fst (runConditional env node ini skipped u))"
proof (cases "registry env (predicate node)")
  case None
  then show ?thesis by (simp add: runConditional_def node_contract_noop)
next
  case (Some r)
  show ?thesis
  proof (cases "node_hash env node ini (flow_state u)")
    case (Inl msg)
    with Some show ?thesis by (simp add: runConditional_def node_contract_noop)
  next
    case (Inr h)
    show ?thesis
    proof (cases "cache_hit node h u")
      case hit: (Some p)
      obtain out v where rc: "replay_cached env node p u = (out, v)" by (metis prod.exhaust)
      with Some Inr hit show ?thesis using replay_cached_contract(1) [OF rc refl hit] by (simp add: runConditional_def)
    next
      case None
      let ?i = "node_id node" and ?rid = "flowRunId (flow_state u)"
      obtain started u1 where r1: "read_now env u = (started, u1)" by (metis prod.exhaust)
      define u3 where "u3 = publish_event (NodeStartedEv ?rid ?i None started 1) (set_status ?i NodeRunning u1)"
      obtain res u4 where r4: "call_runner r node (resolveInputs node (flow_state u) ini) (priorOutputsView (flow_state u3)) u3 = (res, u4)"
        by (metis prod.exhaust)
      have o1: "only_node ?i u u1" using only_node_refl r1 by (rule only_node_then(6))
      have o3: "only_node ?i u u3" unfolding u3_def using o1 by (intro only_node_then(1,3))
      have o4: "only_node ?i u u4" using o3 r4 by (rule only_node_then(7))
      have e4: "events u4 = events u @ [NodeStartedEv ?rid ?i None started 1]"
        using read_now_fields(2) [OF r1] call_runner_fields(2) [OF r4] by (simp add: u3_def)
      show ?thesis
      proof (cases res)
        case (Inl msg)
        then have "fst (runConditional env node ini skipped u) = runner_threw env node msg u4"
          using Some Inr None r1 r4 by (simp add: runConditional_def Let_def u3_def)
        then show ?thesis using runner_threw_contract [OF o4 e4 _ refl] by simp
      next
        case out: (Inr out)
        obtain completed u5 where r5: "read_now env u4 = (completed, u5)" by (metis prod.exhaust)
        have o5: "only_node ?i u u5" using o4 r5 by (rule only_node_then(6))
        have e5: "events u5 = events u @ [NodeStartedEv ?rid ?i None started 1]" using e4 read_now_fields(2) [OF r5] by simp
        have "fst (runConditional env node ini skipped u) =
          (let u6 = recordCostSample out u5; p = \<lparr>p_hash = h, p_output = out, completedAt = completed\<rparr>
           in if \<not> ok out then
                (Inr (done_fresh (Some FlowFailed)),
                 publish_event (NodeFailedEv ?rid ?i completed
                   (case out_error out of None \<Rightarrow> \<lparr>err_message = ''predicate reported ok=false'', retriable = False\<rparr> | Some e \<Rightarrow> e) False)
                   (set_output ?i p (set_status ?i NodeFailed u6)))
              else
                (Inr (done_fresh None), publish_event (NodeCompletedEv ?rid ?i completed (completed - started) out False)
                  (set_output ?i p (set_status ?i NodeSucceeded u6))))"
          using Some Inr None r1 r4 r5 out by (simp add: runConditional_def Let_def u3_def)
        then show ?thesis using o5 e5
          by (auto simp: node_contract_def done_fresh_def settled_def Let_def intro!: only_node_then(1-5))
      qed
    qed
  qed
qed

lemma runHumanGate_contract: "node_contract (node_id node) u (runHumanGate env node ini u)"
proof -
  let ?i = "node_id node"
  obtain t u1 where r1: "read_now env u = (t, u1)" by (metis prod.exhaust)
  have o1: "only_node ?i u u1" using only_node_refl r1 by (rule only_node_then(6))
  note rf = read_now_fields [OF r1]
  show ?thesis
    using r1 rf o1
    by (auto simp: runHumanGate_def node_contract_def done_fresh_def settled_def Let_def
        intro!: only_node_then(1-5) split: option.splits sum.splits)
qed

lemma loop_iterations_contract:
  assumes "only_node i u0 u" and "events u = events u0 @ es" and "list_all (about i) es" and "node_id node = i"
    and "\<forall>out. lastOut = Some out \<longrightarrow> ok out"
  shows "case loop_iterations env node r ini left n lastOut u of
      Inl res \<Rightarrow> node_contract i u0 res \<and> (\<forall>out. fst res = Inr out \<longrightarrow> terminal out \<noteq> None)
    | Inr (n', lastOut', v) \<Rightarrow> only_node i u0 v \<and> events v = events u \<and>
        (\<forall>out. lastOut' = Some out \<longrightarrow> ok out) \<and> n' \<le> n + left \<and> calls v = calls u + (n' - n) \<and> n \<le> n'"
  using assms
proof (induction left arbitrary: n lastOut u)
  case (Suc left)
  let ?ins = "resolveInputs node (flow_state u) ini @ [(''__loop_iteration'', JNum (int (Suc n)))]"
  obtain res u1 where r1: "call_runner r node ?ins (priorOutputsView (flow_state u)) u = (res, u1)" by (metis prod.exhaust)
  have o1: "only_node i u0 u1" using Suc.prems(1) r1 by (rule only_node_then(7))
  have e1: "events u1 = events u0 @ es" using Suc.prems(2) call_runner_fields(2) [OF r1] by simp
  note c1 = call_runner_fields(2,3) [OF r1]
  show ?case
  proof (cases res)
    case (Inl msg)
    then have "loop_iterations env node r ini (Suc left) n lastOut u = Inl (runner_threw env node msg u1)"
      using r1 by (simp add: Let_def)
    moreover have "\<forall>out. fst (runner_threw env node msg u1) = Inr out \<longrightarrow> terminal out \<noteq> None"
      by (auto simp: runner_threw_def done_fresh_def read_now_def Let_def)
    ultimately show ?thesis using runner_threw_contract [OF o1 e1 Suc.prems(3,4)] by simp
  next
    case (Inr out)
    define u2 where "u2 = recordCostSample out u1"
    have o2: "only_node i u0 u2" unfolding u2_def using o1 by (rule only_node_then(5))
    have e2: "events u2 = events u0 @ es" using e1 by (simp add: u2_def)
    consider (bad) "\<not> ok out" | (stop) "ok out" "out_value out = JBool True" | (more) "ok out" "out_value out \<noteq> JBool True"
      by blast
    then show ?thesis
    proof cases
      case bad
      obtain t u4 where r4: "read_now env (set_status i NodeFailed u2) = (t, u4)" by (metis prod.exhaust)
      have o4: "only_node i u0 u4" using only_node_then(1) [OF o2] r4 by (rule only_node_then(6))
      have "events u4 = events u0 @ es" using e2 read_now_fields(2) [OF r4] by simp
      with bad r1 r4 Inr Suc.prems(3,4) o4 show ?thesis
        by (auto simp: Let_def u2_def [symmetric] node_contract_def done_fresh_def intro!: only_node_then(3))
    next
      case stop
      with r1 Inr o2 e2 c1 Suc.prems(2) show ?thesis by (simp add: Let_def u2_def [symmetric]) (simp add: u2_def)
    next
      case more
      then have eq: "loop_iterations env node r ini (Suc left) n lastOut u = loop_iterations env node r ini left (Suc n) (Some out) u2"
        using r1 Inr by (simp add: Let_def u2_def)
      have "\<forall>o'. Some out = Some o' \<longrightarrow> ok o'" using more by simp
      note ih = Suc.IH [OF o2 e2 Suc.prems(3,4) this, of "Suc n"]
      have "calls u2 = Suc (calls u)" "events u2 = events u" using c1 by (simp_all add: u2_def)
      then show ?thesis using ih unfolding eq by (auto split: sum.splits)
    qed
  qed
qed simp

lemma runLoop_contract: "node_contract (node_id node) u (runLoop env node ini u)"
proof (cases "registry env (loop_until node)")
  case None
  then show ?thesis by (simp add: runLoop_def node_contract_noop)
next
  case (Some r)
  let ?i = "node_id node" and ?rid = "flowRunId (flow_state u)"
  obtain started u2 where r2: "read_now env (set_status ?i NodeRunning u) = (started, u2)" by (metis prod.exhaust)
  let ?e = "NodeStartedEv ?rid ?i None started 1"
  have o2: "only_node ?i u u2" using only_node_steps(1) r2 by (rule only_node_then(6))
  then have o3: "only_node ?i u (publish_event ?e u2)" by (rule only_node_then(3))
  have e3: "events (publish_event ?e u2) = events u @ [?e]" using read_now_fields(2) [OF r2] by simp
  have lc: "case loop_iterations env node r ini (maxIterations node) 0 None (publish_event ?e u2) of
      Inl res \<Rightarrow> node_contract ?i u res \<and> (\<forall>out. fst res = Inr out \<longrightarrow> terminal out \<noteq> None)
    | Inr (n', lastOut', v) \<Rightarrow> only_node ?i u v \<and> events v = events (publish_event ?e u2) \<and>
        (\<forall>out. lastOut' = Some out \<longrightarrow> ok out) \<and> n' \<le> 0 + maxIterations node \<and>
        calls v = calls (publish_event ?e u2) + (n' - 0) \<and> 0 \<le> n'"
    by (rule loop_iterations_contract [OF o3 e3]) simp_all
  show ?thesis
  proof (cases "loop_iterations env node r ini (maxIterations node) 0 None (publish_event ?e u2)")
    case (Inl res)
    with lc Some r2 show ?thesis by (simp add: runLoop_def Let_def)
  next
    case (Inr x)
    then obtain n lastOut u4 where it: "loop_iterations env node r ini (maxIterations node) 0 None (publish_event ?e u2) = Inr (n, lastOut, u4)"
      by (cases x) auto
    obtain completed u5 where r5: "read_now env u4 = (completed, u5)" by (metis prod.exhaust)
    have o4: "only_node ?i u u4" and e4: "events u4 = events u @ [?e]" and ok: "\<forall>out. lastOut = Some out \<longrightarrow> ok out"
      using lc it e3 by auto
    have o5: "only_node ?i u u5" using o4 r5 by (rule only_node_then(6))
    have e5: "events u5 = events u @ [?e]" using e4 read_now_fields(2) [OF r5] by simp
    show ?thesis
      using Some r2 it r5 o5 e5 ok
      by (auto simp: runLoop_def Let_def node_contract_def done_fresh_def settled_def
          intro!: only_node_then(1-3) split: sum.splits option.splits)
  qed
qed

lemma executeNode_contract: "node_contract (node_id node) u (fst (executeNode env node ini skipped u))"
  using runAgentStep_contract runConditional_contract runLoop_contract runHumanGate_contract
  by (cases node) (simp_all add: executeNode_def del: FlowNode.sel)

lemma executeNode_skipped: "skipped \<subseteq> snd (executeNode env node ini skipped u)"
  by (cases node) (auto simp: executeNode_def runConditional_def Let_def split: option.splits sum.splits prod.splits)

section \<open>The walk\<close>

text \<open>Events respect the dependencies of the nodes: \<open>finished\<close> are the nodes completed so far.\<close>

fun event_node :: "FlowEvent \<Rightarrow> string option" where
  "event_node (NodeStartedEv _ i _ _ _) = Some i"
| "event_node (NodeCompletedEv _ i _ _ _ _) = Some i"
| "event_node (NodeFailedEv _ i _ _ _) = Some i"
| "event_node (HumanGateReached _ i _ _ _) = Some i"
| "event_node _ = None"

definition deps_of :: "FlowNode list \<Rightarrow> string \<Rightarrow> string list" where
  "deps_of nodes i = (case find (\<lambda>n. node_id n = i) nodes of None \<Rightarrow> [] | Some n \<Rightarrow> dependsOn n)"

fun causal :: "FlowNode list \<Rightarrow> string set \<Rightarrow> FlowEvent list \<Rightarrow> bool" where
  "causal nodes finished [] = True"
| "causal nodes finished (e # es) =
     ((case event_node e of None \<Rightarrow> True | Some i \<Rightarrow> set (deps_of nodes i) \<subseteq> finished) \<and>
      causal nodes (case event_node e of
                      None \<Rightarrow> finished
                    | Some i \<Rightarrow> if completes i e then insert i finished else finished) es)"

lemma about_node: "about i e \<longleftrightarrow> event_node e = Some i"
  by (cases e) auto

fun finished_after :: "string set \<Rightarrow> FlowEvent list \<Rightarrow> string set" where
  "finished_after F [] = F"
| "finished_after F (e # es) =
     finished_after (case event_node e of None \<Rightarrow> F | Some i \<Rightarrow> if completes i e then insert i F else F) es"

lemma causal_append:
  "causal nodes F (es @ fs) \<longleftrightarrow> causal nodes F es \<and> causal nodes (finished_after F es) fs"
  by (induction es arbitrary: F) auto

lemma finished_append: "finished_after F (es @ fs) = finished_after (finished_after F es) fs"
  by (induction es arbitrary: F) auto

lemma about_causal:
  assumes "list_all (about i) es" and "set (deps_of nodes i) \<subseteq> F"
  shows "causal nodes F es" and "F \<subseteq> finished_after F es" and "finished_after F es \<subseteq> insert i F"
    and "\<exists>e \<in> set es. completes i e \<Longrightarrow> finished_after F es = insert i F"
proof -
  have "causal nodes F es \<and> F \<subseteq> finished_after F es \<and> finished_after F es \<subseteq> insert i F \<and>
      ((\<exists>e \<in> set es. completes i e) \<longrightarrow> finished_after F es = insert i F)"
    using assms
  proof (induction es arbitrary: F)
    case (Cons e es)
    have e: "event_node e = Some i" using Cons.prems(1) by (simp add: about_node)
    show ?case
    proof (cases "completes i e")
      case True
      have "list_all (about i) es" "set (deps_of nodes i) \<subseteq> insert i F" using Cons.prems by auto
      from Cons.IH [OF this] have "causal nodes (insert i F) es" "finished_after (insert i F) es = insert i F" by auto
      with e True Cons.prems show ?thesis by auto
    next
      case False
      with Cons.IH [of F] Cons.prems e show ?thesis by auto
    qed
  qed auto
  then show "causal nodes F es" and "F \<subseteq> finished_after F es" and "finished_after F es \<subseteq> insert i F"
    and "\<exists>e \<in> set es. completes i e \<Longrightarrow> finished_after F es = insert i F" by auto
qed

definition node_event :: "FlowEvent \<Rightarrow> bool" where
  "node_event e \<longleftrightarrow> event_node e \<noteq> None"

lemma node_threw_events:
  "\<exists>t. events (node_threw env node msg u) = events u @ [NodeFailedEv (flowRunId (flow_state u)) (node_id node) t
     \<lparr>err_message = msg, retriable = False\<rparr> False]"
  by (auto simp: node_threw_def read_now_def set_status_def publish_event_def Let_def)

lemma deps_of_node: "distinct (map node_id nodes) \<Longrightarrow> n \<in> set nodes \<Longrightarrow> deps_of nodes (node_id n) = dependsOn n"
  by (simp add: deps_of_def find_node)

lemma about_node_event: "list_all (about i) es \<Longrightarrow> list_all node_event es"
  by (induction es) (auto simp: about_node node_event_def)

lemma walk_causal:
  assumes "distinct (map node_id nodes)" and "set rest \<subseteq> set nodes" and "deps_first P rest" and "P \<subseteq> F \<union> skipped"
    and "walk_nodes env ini rest skipped guard n h u = (st, n', h', v)"
  shows "\<exists>es. events v = events u @ es \<and> causal nodes F es \<and> list_all node_event es"
  using assms(2-5)
proof (induction rest arbitrary: P F skipped guard n h u)
  case Nil
  then show ?case by (intro exI [of _ "[]"]) auto
next
  case (Cons node rest)
  let ?i = "node_id node"
  have rest: "set rest \<subseteq> set nodes" "deps_first (insert ?i P) rest" using Cons.prems(1,2) by auto
  have deps: "deps_of nodes ?i = dependsOn node" using assms(1) Cons.prems(1) by (simp add: deps_of_node)
  have quiet: "\<exists>es. events v = events u @ es \<and> causal nodes F es \<and> list_all node_event es" if "events v = events u"
    using that by (intro exI [of _ "[]"]) simp
  consider (abort) "aborted_at env (readings u)"
    | (skip) "\<not> aborted_at env (readings u)" "?i \<in> skipped"
    | (dep) "\<not> aborted_at env (readings u)" "?i \<notin> skipped"
        "list_ex (\<lambda>d. d \<in> skipped \<or> nodeStatus (flow_state u) d = Some NodeFailed) (dependsOn node)"
    | (guard) "\<not> aborted_at env (readings u)" "?i \<notin> skipped"
        "\<not> list_ex (\<lambda>d. d \<in> skipped \<or> nodeStatus (flow_state u) d = Some NodeFailed) (dependsOn node)" "Suc guard > 100000"
    | (exec) "\<not> aborted_at env (readings u)" "?i \<notin> skipped"
        "\<not> list_ex (\<lambda>d. d \<in> skipped \<or> nodeStatus (flow_state u) d = Some NodeFailed) (dependsOn node)" "\<not> Suc guard > 100000"
    by blast
  then show ?case
  proof cases
    case abort
    then show ?thesis using Cons.prems(4) by (intro quiet) (auto split: option.splits)
  next
    case skip
    have "insert ?i P \<subseteq> F \<union> skipped" using skip(2) Cons.prems(3) by blast
    from Cons.IH [OF rest this] show ?thesis using Cons.prems(4) skip by simp
  next
    case dep
    have "insert ?i P \<subseteq> F \<union> insert ?i skipped" using Cons.prems(3) by blast
    from Cons.IH [OF rest this] show ?thesis using Cons.prems(4) dep by simp
  next
    case guard
    then show ?thesis using Cons.prems(4) by (intro quiet) auto
  next
    case exec
    have dF: "set (deps_of nodes ?i) \<subseteq> F"
      using Cons.prems(2,3) exec(3) unfolding deps by (auto simp: list_ex_iff)
    obtain res u1 sk where ex: "executeNode env node ini skipped u = ((res, u1), sk)" by (metis prod.exhaust)
    have sk: "skipped \<subseteq> sk" using executeNode_skipped [of skipped env node ini u] ex by simp
    have "node_contract ?i u (res, u1)" using executeNode_contract [of node u env ini skipped] ex by simp
    then obtain es where es: "events u1 = events u @ es" "list_all (about ?i) es" and
      fin: "\<forall>out. res = Inr out \<and> terminal out = None \<longrightarrow> es \<noteq> [] \<and> completes ?i (last es)"
      by (blast dest: node_contractD)
    note ac = about_causal [OF es(2) dF]
    show ?thesis
    proof (cases res)
      case (Inl msg)
      then have v: "v = node_threw env node msg u1" using Cons.prems(4) exec ex by (simp add: Let_def)
      obtain t where "events v = events u @ (es @ [NodeFailedEv (flowRunId (flow_state u1)) ?i t \<lparr>err_message = msg, retriable = False\<rparr> False])"
        using node_threw_events [of env node msg u1] es(1) v by auto
      moreover have "causal nodes F (es @ [NodeFailedEv rid ?i t e w])" for rid t e w
        using ac(1,2) dF by (auto simp: causal_append)
      moreover have "node_event (NodeFailedEv rid ?i t e w)" for rid t e w by (simp add: node_event_def)
      ultimately show ?thesis using about_node_event [OF es(2)] by auto
    next
      case (Inr out)
      show ?thesis
      proof (cases "terminal out")
        case (Some s)
        then have "v = u1" using Cons.prems(4) exec ex Inr by (simp add: Let_def)
        then show ?thesis using es ac(1) about_node_event [OF es(2)] by blast
      next
        case None
        have "\<exists>e \<in> set es. completes ?i e" using fin Inr None last_in_set by blast
        then have fa: "finished_after F es = insert ?i F" by (rule ac(4))
        have "insert ?i P \<subseteq> insert ?i F \<union> sk" using Cons.prems(3) sk by blast
        note ih = Cons.IH [OF rest this]
        have "walk_nodes env ini rest sk (Suc guard) (if \<not> cached out \<and> executed out then Suc n else n)
            (if cached out then Suc h else h) u1 = (st, n', h', v)"
          using Cons.prems(4) exec ex Inr None by (simp add: Let_def)
        from ih [OF this] obtain fs where "events v = events u1 @ fs" "causal nodes (insert ?i F) fs" "list_all node_event fs" by blast
        then show ?thesis using es(1) ac(1) fa about_node_event [OF es(2)]
          by (intro exI [of _ "es @ fs"]) (simp add: causal_append)
      qed
    qed
  qed
qed

text \<open>A relation between the points of a run that every step of the walk keeps holds between its start
  and its end.\<close>

locale walk_relation =
  fixes rel :: "run \<Rightarrow> run \<Rightarrow> bool"
  assumes rel_refl: "rel u u"
    and rel_trans: "rel u v \<Longrightarrow> rel v x \<Longrightarrow> rel u x"
    and rel_exec: "rel u (snd (fst (executeNode env node ini skipped u)))"
    and rel_threw: "rel u (node_threw env node msg u)"
    and rel_pending: "rel u (set_status i NodePending u)"
begin

lemma walk_rel:
  "walk_nodes env ini order skipped guard n h u = (st, n', h', v) \<Longrightarrow> rel u v"
proof (induction order arbitrary: skipped guard n h u)
  case Nil
  then show ?case by (simp add: rel_refl)
next
  case (Cons node order)
  obtain res u1 sk where ex: "executeNode env node ini skipped u = ((res, u1), sk)" by (metis prod.exhaust)
  have u1: "rel u u1" using rel_exec [of u env node ini skipped] ex by simp
  have threw: "rel u (node_threw env node msg u1)" for msg using u1 rel_threw by (rule rel_trans)
  show ?case
    using Cons.prems Cons.IH ex u1 threw rel_refl rel_pending
    by (auto simp: Let_def split: if_splits sum.splits option.splits intro: rel_trans)
qed

end

lemma only_node_cost: "only_node i u v \<Longrightarrow> cost_ok (flow_state u) \<longrightarrow> cost_ok (flow_state v)"
  by (simp add: only_node_def)

lemma executeNode_only: "only_node (node_id node) u (snd (fst (executeNode env node ini skipped u)))"
  using executeNode_contract [of node u env ini skipped] by (simp add: node_contract_def)

lemma node_threw_only: "only_node (node_id node) u (node_threw env node msg u)"
proof -
  obtain t x where r: "read_now env (set_status (node_id node) NodeFailed u) = (t, x)" by (metis prod.exhaust)
  have "only_node (node_id node) u x" using only_node_steps(1) r by (rule only_node_then(6))
  then show ?thesis using r by (simp add: node_threw_def only_node_then(3))
qed

interpretation walk_cost: walk_relation
  "\<lambda>u v. (cost_ok (flow_state u) \<longrightarrow> cost_ok (flow_state v)) \<and> flowRunId (flow_state v) = flowRunId (flow_state u)"
proof unfold_locales
  fix env node ini skipped u msg
  show "(cost_ok (flow_state u) \<longrightarrow> cost_ok (flow_state (snd (fst (executeNode env node ini skipped u))))) \<and>
      flowRunId (flow_state (snd (fst (executeNode env node ini skipped u)))) = flowRunId (flow_state u)"
    using executeNode_only [of node u env ini skipped] by (simp add: only_node_def)
  show "(cost_ok (flow_state u) \<longrightarrow> cost_ok (flow_state (node_threw env node msg u))) \<and>
      flowRunId (flow_state (node_threw env node msg u)) = flowRunId (flow_state u)"
    using node_threw_only [of node u env msg] by (simp add: only_node_def)
qed (auto simp: set_status_def cost_ok_def)

section \<open>Properties of a run\<close>

lemma run_flow_Inr:
  assumes "run_flow env def rid ini rf = Inr (st, v)"
  obtains order u2 status n h u where "topologicalOrder def = Inr order"
    and "walk_nodes env ini order {} 0 0 0 u2 = (status, n, h, u)"
    and "finish env (status, n, h, u) = (st, v)"
    and "\<exists>t r. events u2 = [FlowStarted rid (def_id def) (def_version def) t r]" and "calls u2 = 0"
    and "nodeOutputs (flow_state u2) = (case rf of None \<Rightarrow> (\<lambda>_. None) | Some s \<Rightarrow> nodeOutputs s)"
    and "totalCostUsd (flow_state u2) = (case rf of None \<Rightarrow> None | Some s \<Rightarrow> totalCostUsd s)"
    and "costSamples (flow_state u2) = (case rf of None \<Rightarrow> [] | Some s \<Rightarrow> costSamples s)"
    and "nodeStatus (flow_state u2) = (case rf of None \<Rightarrow> (\<lambda>_. None) | Some s \<Rightarrow> nodeStatus s)"
    and "flowRunId (flow_state u2) = rid"
proof -
  obtain order where o: "topologicalOrder def = Inr order" using assms by (auto simp: run_flow_def result_simps)
  define u2 where "u2 = set_gate None (publish_event (FlowStarted rid (def_id def) (def_version def)
     (fst (read_now env (initState env def rid rf)))
     (case rf of Some st \<Rightarrow> if flowRunId st \<noteq> rid then Some (flowRunId st) else None | None \<Rightarrow> None))
     (snd (read_now env (initState env def rid rf))))"
  obtain status n h u where w: "walk_nodes env ini order {} 0 0 0 u2 = (status, n, h, u)" by (metis prod_cases4)
  have f: "finish env (status, n, h, u) = (st, v)"
    using assms o w by (simp add: run_flow_def Let_def split_beta u2_def)
  show thesis
    by (rule that [OF o w f])
      (auto simp: u2_def read_now_def initState_def set_gate_def publish_event_def emptyState_def Let_def split: option.splits)
qed

lemma finish_fields:
  assumes "finish env (status, n, h, u) = (st, v)"
  shows "\<exists>t. events v = events u @ [FlowCompleted (flowRunId (flow_state u)) t status (totalCostUsd (flow_state u))
      (rollupConfidence (costSamples (flow_state u))) (n + h)]"
    and "totalCostUsd st = totalCostUsd (flow_state u)" and "costSamples st = costSamples (flow_state u)"
    and "nodeOutputs st = nodeOutputs (flow_state u)" and "nodeStatus st = nodeStatus (flow_state u)"
    and "calls v = calls u" and "flowRunId st = flowRunId (flow_state u)"
  using assms by (auto simp: finish_def freeze_def read_now_def publish_event_def Let_def)

text \<open>C3: a run starts with one flow-started event and ends with one flow-completed event; in between,
  no event about a node (start, completion, failure, gate) occurs before every node it depends on has
  completed successfully in this run, whatever the runners return, throw or were cached.\<close>

theorem run_respects_dependencies:
  assumes "run_flow env def rid ini rf = Inr (st, v)"
  shows "causal (def_nodes def) {} (events v) \<and>
    (\<exists>t r mid t' status total conf n. list_all node_event mid \<and>
      events v = FlowStarted rid (def_id def) (def_version def) t r # mid @ [FlowCompleted rid t' status total conf n])"
proof (rule run_flow_Inr [OF assms])
  fix order u2 status n h u
  assume o: "topologicalOrder def = Inr order" and w: "walk_nodes env ini order {} 0 0 0 u2 = (status, n, h, u)"
    and f: "finish env (status, n, h, u) = (st, v)"
    and st: "\<exists>t r. events u2 = [FlowStarted rid (def_id def) (def_version def) t r]" and rid: "flowRunId (flow_state u2) = rid"
  have wf: "well_formed (def_nodes def)" and ord: "deps_first {} order" "set order \<subseteq> set (def_nodes def)"
    using o kahn_correct(1) [OF _ kahn_init] topologicalOrder_mset [OF o]
    by (auto simp: topologicalOrder_Inr valid_definition_def dest: mset_eq_setD)
  have d: "distinct (map node_id (def_nodes def))" using wf by (simp add: well_formed_def)
  obtain es where es: "events u = events u2 @ es" "causal (def_nodes def) {} es" "list_all node_event es"
    using walk_causal [OF d ord(2,1) _ w, of "{}"] by auto
  have rid': "flowRunId (flow_state u) = rid" using walk_cost.walk_rel [OF w] rid by simp
  obtain t r where s: "events u2 = [FlowStarted rid (def_id def) (def_version def) t r]" using st by blast
  obtain t' total conf m where e: "events v = events u @ [FlowCompleted rid t' status total conf m]"
    using finish_fields(1) [OF f] rid' by auto
  have all: "events v = FlowStarted rid (def_id def) (def_version def) t r # es @ [FlowCompleted rid t' status total conf m]"
    using e es(1) s by simp
  moreover have "causal (def_nodes def) {} (events v)" unfolding all using es(2) by (simp add: causal_append)
  ultimately show ?thesis using es(3) by blast
qed

definition plain_output :: "js_value \<Rightarrow> rat option \<Rightarrow> NodeOutput" where
  "plain_output v cost = \<lparr>ok = True, out_value = v, costUsd = cost, costConfidence = Exact, costSource = ''test'', out_error = None\<rparr>"

definition steady_env :: flow_env where
  "steady_env = \<lparr>registry = (\<lambda>k. if k = ''missing'' then None else Some (\<lambda>n ctx. Inr (plain_output (JStr (node_id (ctx_node ctx))) None))),
     clock_at = int, aborted_at = (\<lambda>_. False), digest = id\<rparr>"

lemma run_flow_total:
  assumes "\<not> isl (topologicalOrder def)"
  obtains st v where "run_flow env def rid ini rf = Inr (st, v)"
proof -
  obtain order where o: "topologicalOrder def = Inr order" using assms by (cases "topologicalOrder def") auto
  show thesis
    by (rule that [of "fst (projr (run_flow env def rid ini rf))" "snd (projr (run_flow env def rid ini rf))"])
      (simp add: run_flow_def o Let_def split_beta)
qed

lemma diamond_ordered: "\<not> isl (topologicalOrder diamond)"
  by code_simp

theorem run_respects_dependencies_witness:
  "\<exists>st v. run_flow steady_env diamond ''run'' [] None = Inr (st, v) \<and> causal (def_nodes diamond) {} (events v)"
proof (rule run_flow_total [OF diamond_ordered])
  fix st v assume r: "run_flow steady_env diamond ''run'' [] None = Inr (st, v)"
  show ?thesis using run_respects_dependencies [OF r] r by blast
qed

end
