(* ===== verification/Flow_Resume.thy ===== *)
theory Flow_Resume
  imports Flow_Run
begin

text \<open>
  Bounds, cost and resumption of flow runs: how often a run can call runners, that the reported cost is
  the sum of the recorded samples, and that resuming a successful run with the same inputs replays it
  from the content-hash cache without calling a runner.
\<close>

section \<open>Runner calls are bounded\<close>

text \<open>The calls one node can make: an agent step one per attempt, a conditional one, a loop one per iteration.\<close>

definition node_budget :: "FlowNode \<Rightarrow> nat" where
  "node_budget node =
     (case node of
        AgentStep _ _ _ _ _ _ \<Rightarrow> 1 + retries_of node
      | Conditional _ _ _ _ _ \<Rightarrow> 1
      | Loop _ _ _ _ _ \<Rightarrow> maxIterations node
      | HumanGate _ _ _ _ \<Rightarrow> 0)"

lemma calls_read_now [simp]: "calls (snd (read_now env u)) = calls u"
  by (simp add: read_now_def)

lemma calls_call_runner [simp]: "calls (snd (call_runner r node ins prior u)) = Suc (calls u)"
  by (simp add: call_runner_def)

lemma calls_runner_threw [simp]: "calls (snd (runner_threw env node msg u)) = calls u"
  by (simp add: runner_threw_def Let_def split_beta)

lemma calls_replay [simp]: "calls (snd (replay_cached env node p u)) = calls u"
  by (simp add: replay_cached_def Let_def split_beta)

lemma calls_node_threw [simp]: "calls (node_threw env node msg u) = calls u"
  by (simp add: node_threw_def Let_def split_beta)

lemma attempts_calls: "calls (snd (agent_attempts env node r ins prior h retries left attempt u)) \<le> calls u + left"
proof (induction left arbitrary: attempt u)
  case (Suc left)
  have ih: "calls (snd (agent_attempts env node r ins prior h retries left a x)) \<le> Suc (calls u + left)"
    if "calls x = Suc (calls u)" for a x
    using Suc.IH [of a x] that by simp
  show ?case
    by (auto simp: Let_def split_beta intro!: ih split: sum.splits if_splits)
qed simp

fun iteration_calls :: "node_result + nat \<times> NodeOutput option \<times> run \<Rightarrow> nat" where
  "iteration_calls (Inl res) = calls (snd res)"
| "iteration_calls (Inr (n, lastOut, v)) = calls v"

lemma iterations_calls: "iteration_calls (loop_iterations env node r ini left n lastOut u) \<le> calls u + left"
proof (induction left arbitrary: n lastOut u)
  case (Suc left)
  have ih: "iteration_calls (loop_iterations env node r ini left m lo x) \<le> Suc (calls u + left)" if "calls x = Suc (calls u)" for m lo x
    using Suc.IH [of m lo x] that by simp
  show ?case
    by (auto simp: Let_def split_beta intro!: ih split: sum.splits if_splits)
qed simp

lemma runLoop_calls: "calls (snd (runLoop env node ini u)) \<le> calls u + maxIterations node"
proof (cases "registry env (loop_until node)")
  case None
  then show ?thesis by (simp add: runLoop_def)
next
  case (Some r)
  define u3 where "u3 = publish_event (NodeStartedEv (flowRunId (flow_state u)) (node_id node) None
      (fst (read_now env (set_status (node_id node) NodeRunning u))) 1) (snd (read_now env (set_status (node_id node) NodeRunning u)))"
  have u3: "calls u3 = calls u" by (simp add: u3_def)
  note it = iterations_calls [of env node r ini "maxIterations node" 0 None u3, unfolded u3]
  show ?thesis
  proof (cases "loop_iterations env node r ini (maxIterations node) 0 None u3")
    case (Inl res)
    with it Some show ?thesis by (simp add: runLoop_def Let_def split_beta u3_def)
  next
    case (Inr t)
    obtain n lo u4 where t: "t = (n, lo, u4)" by (metis prod_cases3)
    have "calls (snd (runLoop env node ini u)) = calls u4"
      using Some Inr t by (auto simp: runLoop_def Let_def split_beta u3_def split: sum.splits)
    with it Inr t show ?thesis by simp
  qed
qed

lemma executeNode_calls: "calls (snd (fst (executeNode env node ini skipped u))) \<le> calls u + node_budget node"
proof (cases node)
  case (AgentStep i d a ins b c)
  have "calls (snd (runAgentStep env node ini u)) \<le> calls u + (1 + retries_of node)"
    using attempts_calls [of env node _ _ _ _ "retries_of node" "1 + retries_of node" 1 u]
    by (auto simp: runAgentStep_def split_beta simp del: agent_attempts.simps split: option.splits sum.splits)
  with AgentStep show ?thesis by (simp add: executeNode_def node_budget_def)
next
  case (Conditional i d p t f)
  have "calls (snd (fst (runConditional env node ini skipped u))) \<le> calls u + 1"
    by (auto simp: runConditional_def Let_def split_beta split: option.splits sum.splits if_splits)
  with Conditional show ?thesis by (simp add: executeNode_def node_budget_def)
next
  case (Loop i d p t f)
  with runLoop_calls [of env node ini u] show ?thesis by (simp add: executeNode_def node_budget_def)
next
  case (HumanGate i d p t)
  then show ?thesis
    by (auto simp: executeNode_def node_budget_def runHumanGate_def Let_def split_beta split: option.splits sum.splits)
qed

lemma walk_calls:
  "walk_nodes env ini order skipped guard n h u = (st, n', h', v) \<Longrightarrow> calls v \<le> calls u + sum_list (map node_budget order)"
proof (induction order arbitrary: skipped guard n h u)
  case (Cons node order)
  obtain res u1 sk where ex: "executeNode env node ini skipped u = ((res, u1), sk)" by (metis prod.exhaust)
  have u1: "calls u1 \<le> calls u + node_budget node" using executeNode_calls [of env node ini skipped u] ex by simp
  have ih: "calls v \<le> calls u + (node_budget node + sum_list (map node_budget order))"
    if "walk_nodes env ini order s g a b x = (st, n', h', v)" "calls x \<le> calls u + node_budget node" for s g a b x
    using Cons.IH [OF that(1)] that(2) by simp
  have skip: "calls v \<le> calls u + (node_budget node + sum_list (map node_budget order))"
    if "walk_nodes env ini order s g a b u = (st, n', h', v)" for s g a b
    using ih [OF that] by simp
  show ?case
    using Cons.prems ex u1 skip ih by (auto simp: Let_def split: if_splits sum.splits option.splits)
qed simp

section \<open>What a successful node leaves in the cache\<close>













section \<open>Two walks in lockstep\<close>

lemma node_hash_deps:
  assumes "\<forall>d \<in> set (dependsOn node). nodeOutputs st d = nodeOutputs st' d" and "digest env' = digest env"
  shows "node_hash env' node ini st' = node_hash env node ini st"
proof -
  have "dep_inputs node st' = dep_inputs node st"
    using assms(1) by (auto simp: dep_inputs_def intro!: arg_cong [where f = concat] map_cong)
  then show ?thesis using assms(2) by (simp add: node_hash_def flow_hash_def resolveInputs_def)
qed










section \<open>Properties\<close>

lemma run_flow_order:
  assumes "topologicalOrder def = Inr order"
  shows "distinct (map node_id order)" and "deps_first {} order" and "set order = set (def_nodes def)"
    and "sum_list (map node_budget order) = sum_list (map node_budget (def_nodes def))"
proof -
  have m: "mset order = mset (def_nodes def)" by (rule topologicalOrder_mset [OF assms])
  have wf: "well_formed (def_nodes def)" and df: "deps_first {} order"
    using assms kahn_correct(1) [OF _ kahn_init] by (auto simp: topologicalOrder_Inr valid_definition_def)
  show "deps_first {} order" by (rule df)
  show "set order = set (def_nodes def)" using m by (rule mset_eq_setD)
  have "mset (map node_id order) = mset (map node_id (def_nodes def))" using m by simp
  from mset_eq_imp_distinct_iff [OF this] show "distinct (map node_id order)" using wf by (simp add: well_formed_def)
  show "sum_list (map node_budget order) = sum_list (map node_budget (def_nodes def))"
    using m by (metis mset_map sum_mset_sum_list)
qed

text \<open>C6: runner calls are bounded. Whatever the runners return or throw, a run calls them at most once per
  conditional, at most \<open>maxIterations\<close> times per loop and at most \<open>1 + maxRetries\<close> times per agent step.\<close>

theorem run_calls_bounded:
  assumes "run_flow env def rid ini rf = Inr (st, v)"
  shows "calls v \<le> sum_list (map node_budget (def_nodes def))"
proof (rule run_flow_Inr [OF assms])
  fix order u2 status n h u
  assume o: "topologicalOrder def = Inr order" and w: "walk_nodes env ini order {} 0 0 0 u2 = (status, n, h, u)"
    and f: "finish env (status, n, h, u) = (st, v)" and c: "calls u2 = 0"
  show ?thesis using walk_calls [OF w] finish_fields(6) [OF f] c run_flow_order(4) [OF o] by simp
qed

theorem run_calls_bounded_witness:
  "\<exists>st v. run_flow steady_env diamond ''run'' [] None = Inr (st, v) \<and> calls v \<le> sum_list (map node_budget (def_nodes diamond))"
proof (rule run_flow_total [OF diamond_ordered])
  fix st v assume r: "run_flow steady_env diamond ''run'' [] None = Inr (st, v)"
  show ?thesis using run_calls_bounded [OF r] r by blast
qed

text \<open>C7: the reported cost is the sum of the recorded samples. After a fresh run, or a resumed one that started from
  a state with this property, the total of the state is the sum of the samples that carry a price, absent when
  none does, and the completion event reports that total and the confidence of those samples.\<close>

theorem run_cost_adds_up:
  assumes "run_flow env def rid ini rf = Inr (st, v)" and "case rf of None \<Rightarrow> True | Some s \<Rightarrow> cost_ok s"
  shows "totalCostUsd st = samples_total (costSamples st) \<and>
    (\<exists>t status n. last (events v) = FlowCompleted rid t status (samples_total (costSamples st)) (rollupConfidence (costSamples st)) n)"
proof (rule run_flow_Inr [OF assms(1)])
  fix order u2 status n h u
  assume w: "walk_nodes env ini order {} 0 0 0 u2 = (status, n, h, u)" and f: "finish env (status, n, h, u) = (st, v)"
    and t: "totalCostUsd (flow_state u2) = (case rf of None \<Rightarrow> None | Some s \<Rightarrow> totalCostUsd s)"
    and c: "costSamples (flow_state u2) = (case rf of None \<Rightarrow> [] | Some s \<Rightarrow> costSamples s)"
    and rid: "flowRunId (flow_state u2) = rid"
  have "cost_ok (flow_state u2)" using assms(2) t c by (cases rf) (simp_all add: cost_ok_def)
  then have "cost_ok (flow_state u)" and "flowRunId (flow_state u) = rid" using walk_cost.walk_rel [OF w] rid by simp_all
  then show ?thesis using finish_fields(1-3) [OF f] by (auto simp: cost_ok_def)
qed

theorem run_cost_adds_up_witness:
  "\<exists>st v. run_flow steady_env diamond ''run'' [] None = Inr (st, v) \<and> totalCostUsd st = samples_total (costSamples st)"
proof (rule run_flow_total [OF diamond_ordered])
  fix st v assume r: "run_flow steady_env diamond ''run'' [] None = Inr (st, v)"
  show ?thesis using run_cost_adds_up [OF r] r by auto
qed


definition solo :: FlowDefinition where
  "solo = \<lparr>def_id = ''f'', def_version = 1, def_nodes = [AgentStep ''a'' ''dev'' ''k'' [] [] (Some 1)], def_entry = ''a''\<rparr>"



lemma node_hash_plain:
  assumes "plain_json (JObj (resolveInputs node st ini))"
  obtains h where "node_hash env node ini st = Inr h"
proof -
  have "plain_json (JObj [(''nodeId'', JStr (node_id node)), (''kind'', JStr (node_kind node)),
      (''inputs'', JObj (resolveInputs node st ini))])" using assms by simp
  from encode_plain_ok [OF this] obtain s where
    "encodeValue (\<lambda>_. True) show_int (JObj [(''nodeId'', JStr (node_id node)), (''kind'', JStr (node_kind node)),
      (''inputs'', JObj (resolveInputs node st ini))]) = Inr s" by blast
  then show thesis
    using that by (simp add: node_hash_def flow_hash_def contentHash_def canonicalize_def map_result_def del: encodeValue.simps)
qed

lemma solo_order: "topologicalOrder solo = Inr [AgentStep ''a'' ''dev'' ''k'' [] [] (Some 1)]"
  by code_simp

lemma solo_hash: "\<exists>h. \<forall>st. node_hash env (AgentStep ''a'' ''dev'' ''k'' [] [] (Some 1)) [] st = Inr h"
proof -
  let ?node = "AgentStep ''a'' ''dev'' ''k'' [] [] (Some 1)" and ?st = "undefined :: FlowRunState"
  have "plain_json (JObj (resolveInputs ?node ?st []))" by (simp add: resolveInputs_def dep_inputs_def)
  then obtain h where "node_hash env ?node [] ?st = Inr h" by (rule node_hash_plain)
  moreover have "node_hash env ?node [] st = node_hash env ?node [] ?st" for st by (rule node_hash_deps) simp_all
  ultimately show ?thesis by metis
qed


lemmas run_unfold = run_flow_def solo_order executeNode_def runAgentStep_def cache_hit_def initState_def emptyState_def read_now_def
  publish_event_def set_gate_def set_status_def set_output_def recordCostSample_def call_runner_def finish_def freeze_def
  done_fresh_def retries_of_def plain_output_def Let_def split_beta map_result_def




definition flaky_env :: flow_env where
  "flaky_env = steady_env\<lparr>registry := (\<lambda>_. Some (\<lambda>n ctx. Inr (if n = 0
     then (plain_output JNull (Some 5))\<lparr>ok := False, out_error := Some \<lparr>err_message = ''busy'', retriable = True\<rparr>\<rparr>
     else plain_output JNull (Some 1))))\<rparr>"

lemma flaky_env_simps:
  "registry flaky_env k = Some (\<lambda>n ctx. Inr (if n = 0
     then (plain_output JNull (Some 5))\<lparr>ok := False, out_error := Some \<lparr>err_message = ''busy'', retriable = True\<rparr>\<rparr>
     else plain_output JNull (Some 1)))"
  "\<not> aborted_at flaky_env m"
  by (simp_all add: flaky_env_def steady_env_def)

text \<open>The cost of a retried attempt is lost. An agent step whose first attempt spends 5 dollars and fails with a
  retriable error, and whose second attempt succeeds for 1 dollar, leaves a total of 1 dollar and one sample.\<close>

theorem retried_cost_lost:
  "map_result (\<lambda>(st, v). (calls v, totalCostUsd st, length (costSamples st))) (run_flow flaky_env solo ''run'' [] None) =
     Inr (2, Some 1, 1)"
proof -
  obtain h where "\<forall>st. node_hash flaky_env (AgentStep ''a'' ''dev'' ''k'' [] [] (Some 1)) [] st = Inr h" using solo_hash by blast
  then show ?thesis by (simp add: run_unfold flaky_env_simps)
qed

end
