(* ===== verification/Path_Scope.thy ===== *)
theory Path_Scope
  imports Shamu_Prelude
begin

text \<open>
  The path gate of the adapters (\<^verbatim>\<open>packages/adapters/base/src/path-scope.ts\<close>): a path is resolved against
  the worktree, checked lexically, and checked again after symbolic links of its deepest existing
  ancestor are resolved. The file system is a parameter: \<open>existsSync\<close> and \<open>realpathSync\<close>, which may
  throw. Paths are POSIX paths.
\<close>

section \<open>Paths\<close>

definition abs_text :: "string list \<Rightarrow> string" where
  "abs_text segs = ''/'' @ join_with ''/'' segs"

definition resolve_segs :: "string \<Rightarrow> string list" where
  "resolve_segs p = path_resolve True [] (split_on (CHR ''/'') p)"

definition isAbsolute :: "string \<Rightarrow> bool" where
  "isAbsolute p \<longleftrightarrow> starts_with ''/'' p"

section \<open>The gate\<close>

datatype path_reason = absolute_outside_worktree | parent_traversal_escapes_worktree | symlink_escapes_worktree
  | not_under_worktree | worktree_root_invalid

datatype PathScopeError =
  PathScopeError (path_reason: path_reason) (attemptedPath: string) (scope_worktreeRoot: string) (path_cause: "string option")

text \<open>The walk to the deepest existing ancestor: the segments of the cursor in reverse, and the parts
  already cut off.\<close>

fun deepest_ancestor ::
  "(string \<Rightarrow> bool) \<Rightarrow> (string \<Rightarrow> string + string) \<Rightarrow> string \<Rightarrow> string list \<Rightarrow> string list \<Rightarrow> string + string" where
  "deepest_ancestor existsSync realpathSync target rsegs parts =
     (let cursor = abs_text (rev rsegs)
      in if existsSync cursor then
           bind_result (realpathSync cursor) (\<lambda>resolvedBase.
             Inr (if parts = [] then resolvedBase else resolvedBase @ ''/'' @ join_with ''/'' parts))
         else (case rsegs of
                 [] \<Rightarrow> Inr target
               | s # rest \<Rightarrow> deepest_ancestor existsSync realpathSync target rest (s # parts)))"

declare deepest_ancestor.simps [simp del]

definition realpathOfDeepestExistingAncestor ::
  "(string \<Rightarrow> bool) \<Rightarrow> (string \<Rightarrow> string + string) \<Rightarrow> string list \<Rightarrow> string + string" where
  "realpathOfDeepestExistingAncestor existsSync realpathSync segs =
     deepest_ancestor existsSync realpathSync (abs_text segs) (rev segs) []"

definition isUnder :: "string \<Rightarrow> string \<Rightarrow> bool" where
  "isUnder rootDir candidate \<longleftrightarrow>
     candidate = rootDir \<or> starts_with (if ends_with ''/'' rootDir then rootDir else rootDir @ ''/'') candidate"

definition validatePathInWorktree ::
  "(string \<Rightarrow> bool) \<Rightarrow> (string \<Rightarrow> string + string) \<Rightarrow> string \<Rightarrow> string \<Rightarrow> bool \<Rightarrow> PathScopeError + string" where
  "validatePathInWorktree existsSync realpathSync worktreeRoot candidate acceptWorktreeRoot =
     (if \<not> isAbsolute worktreeRoot then Inl (PathScopeError worktree_root_invalid candidate worktreeRoot None)
      else if candidate = [] then Inl (PathScopeError not_under_worktree candidate worktreeRoot None)
      else (case (if existsSync worktreeRoot then realpathSync worktreeRoot else Inr (abs_text (resolve_segs worktreeRoot))) of
          Inl cause \<Rightarrow> Inl (PathScopeError worktree_root_invalid candidate worktreeRoot (Some cause))
        | Inr resolvedRoot \<Rightarrow>
            let hadAbsoluteInput = isAbsolute candidate;
                preResolved = resolve_segs (if hadAbsoluteInput then candidate else resolvedRoot @ ''/'' @ candidate)
            in if hadAbsoluteInput \<and> \<not> isUnder resolvedRoot (abs_text preResolved) then
                 Inl (PathScopeError absolute_outside_worktree candidate resolvedRoot None)
               else if \<not> hadAbsoluteInput \<and> \<not> isUnder resolvedRoot (abs_text preResolved) then
                 Inl (PathScopeError parent_traversal_escapes_worktree candidate resolvedRoot None)
               else (case realpathOfDeepestExistingAncestor existsSync realpathSync preResolved of
                   Inl cause \<Rightarrow> Inl (PathScopeError not_under_worktree candidate resolvedRoot (Some cause))
                 | Inr finalPath \<Rightarrow>
                     if \<not> isUnder resolvedRoot finalPath then
                       Inl (PathScopeError symlink_escapes_worktree candidate resolvedRoot None)
                     else if finalPath = resolvedRoot \<and> \<not> acceptWorktreeRoot then
                       Inl (PathScopeError not_under_worktree candidate resolvedRoot None)
                     else Inr finalPath)))"

section \<open>Segments and texts\<close>

text \<open>A proper segment, and the text of a normal absolute path.\<close>

definition proper_seg :: "string \<Rightarrow> bool" where
  "proper_seg s \<longleftrightarrow> s \<noteq> [] \<and> s \<noteq> ''.'' \<and> s \<noteq> ''..'' \<and> CHR ''/'' \<notin> set s"

definition normal_path :: "string \<Rightarrow> bool" where
  "normal_path p \<longleftrightarrow> (\<exists>segs. p = abs_text segs \<and> list_all proper_seg segs)"

lemma path_resolve_proper:
  "list_all proper_seg acc \<Longrightarrow> list_all (\<lambda>s. CHR ''/'' \<notin> set s) ss \<Longrightarrow> list_all proper_seg (path_resolve True acc ss)"
proof (induction True acc ss rule: path_resolve.induct)
  case (1 acc)
  then show ?case by (simp add: list_all_iff)
next
  case (2 acc s ss)
  then show ?case by (auto simp: proper_seg_def split: list.splits)
qed

lemma resolve_segs_proper: "list_all proper_seg (resolve_segs p)"
  unfolding resolve_segs_def by (rule path_resolve_proper) (auto simp: list_all_iff split_on_clean)

lemma path_resolve_clean:
  "list_all (\<lambda>s. s \<noteq> ''.'' \<and> s \<noteq> ''..'') ss \<Longrightarrow> path_resolve a acc ss = rev acc @ filter (\<lambda>s. s \<noteq> []) ss"
  by (induction a acc ss rule: path_resolve.induct) auto

lemma split_abs_text:
  "list_all proper_seg segs \<Longrightarrow> split_on (CHR ''/'') (abs_text segs) = [] # (if segs = [] then [[]] else segs)"
  by (auto simp: abs_text_def proper_seg_def list_all_iff split_join)

lemma resolve_abs_text [simp]: "list_all proper_seg segs \<Longrightarrow> resolve_segs (abs_text segs) = segs"
  by (auto simp: resolve_segs_def split_abs_text path_resolve_clean list_all_iff proper_seg_def filter_id_conv
      simp del: path_resolve.simps)

lemma normal_pathD: "normal_path p \<Longrightarrow> p = abs_text (resolve_segs p) \<and> list_all proper_seg (resolve_segs p)"
  by (auto simp: normal_path_def)

lemma abs_text_snoc: "abs_text (xs @ [x]) = (if xs = [] then ''/'' @ x else abs_text xs @ ''/'' @ x)"
  by (simp add: abs_text_def join_with_snoc)


lemma resolve_relative:
  assumes "normal_path rootDir"
  shows "resolve_segs (rootDir @ ''/'' @ candidate) = path_resolve True (rev (resolve_segs rootDir)) (split_on (CHR ''/'') candidate)"
  using split_on_at [of "CHR ''/''" rootDir candidate] by (simp add: resolve_segs_def path_resolve_append)

section \<open>Containment\<close>

lemma ends_slash_abs: "list_all proper_seg segs \<Longrightarrow> ends_with ''/'' (abs_text segs) \<longleftrightarrow> segs = []"
proof (cases segs rule: rev_cases)
  case Nil
  then show ?thesis by (simp add: abs_text_def ends_with_iff)
next
  case (snoc xs x)
  moreover assume "list_all proper_seg segs"
  ultimately have "x \<noteq> []" "CHR ''/'' \<notin> set x" by (auto simp: proper_seg_def)
  then have "last x \<noteq> CHR ''/''" by (metis last_in_set)
  then have "\<not> ends_with ''/'' (abs_text (xs @ [x]))"
    using \<open>x \<noteq> []\<close> by (auto simp: ends_with_iff abs_text_snoc dest!: arg_cong [where f = last] split: if_splits)
  with snoc show ?thesis by simp
qed

text \<open>Being under a normal root means, segment by segment, being below it, for every path whose text has
  no dot segments.\<close>

lemma isUnder_segments:
  assumes "list_all proper_seg rs" and "list_all (\<lambda>s. s \<noteq> ''.'' \<and> s \<noteq> ''..'') (split_on (CHR ''/'') p)"
    and "isUnder (abs_text rs) p"
  shows "\<exists>rest. resolve_segs p = rs @ rest"
proof -
  consider "p = abs_text rs" | "rs = []" | t where "rs \<noteq> []" "p = abs_text rs @ ''/'' @ t"
    using assms(1,3) by (auto simp: isUnder_def starts_with_iff ends_slash_abs split: if_splits)
  then show ?thesis
  proof cases
    case 1
    then show ?thesis using assms(1) by simp
  next
    case 2
    then show ?thesis by simp
  next
    case 3
    have "split_on (CHR ''/'') p = ([] # rs) @ split_on (CHR ''/'') t"
      using split_on_at [of "CHR ''/''" "abs_text rs" t] 3 assms(1) by (simp add: split_abs_text)
    then have "resolve_segs p = filter (\<lambda>s. s \<noteq> []) (([] # rs) @ split_on (CHR ''/'') t)"
      using assms(2) by (simp add: resolve_segs_def path_resolve_clean del: path_resolve.simps)
    moreover have "filter (\<lambda>s. s \<noteq> []) rs = rs" using assms(1) by (auto simp: filter_id_conv list_all_iff proper_seg_def)
    ultimately show ?thesis by simp
  qed
qed

lemma isUnder_abs_text:
  assumes "list_all proper_seg rs" and "list_all proper_seg ps"
  shows "isUnder (abs_text rs) (abs_text ps) \<longleftrightarrow> (\<exists>rest. ps = rs @ rest)"
proof
  assume u: "isUnder (abs_text rs) (abs_text ps)"
  have "list_all (\<lambda>s. s \<noteq> ''.'' \<and> s \<noteq> ''..'') (split_on (CHR ''/'') (abs_text ps))"
    using assms(2) by (auto simp: split_abs_text list_all_iff proper_seg_def)
  from isUnder_segments [OF assms(1) this u] show "\<exists>rest. ps = rs @ rest" using assms(2) by simp
next
  assume "\<exists>rest. ps = rs @ rest"
  then obtain rest where ps: "ps = rs @ rest" by blast
  have "abs_text (rs @ rest) = abs_text rs @ ''/'' @ join_with ''/'' rest" if "rs \<noteq> []" "rest \<noteq> []"
    using that by (induction rs rule: list_nonempty_induct) (auto simp: abs_text_def neq_Nil_conv)
  then show "isUnder (abs_text rs) (abs_text ps)"
    using ps assms(1) by (cases "rs = []"; cases "rest = []")
      (auto simp: isUnder_def starts_with_iff ends_slash_abs, auto simp: abs_text_def)
qed

section \<open>The deepest existing ancestor\<close>







text \<open>Without links the walk gives the path back, once an ancestor below the root directory exists.\<close>

lemma deepest_link_free:
  assumes links: "\<forall>p. normal_path p \<and> existsSync p \<longrightarrow> realpathSync p = Inr p"
    and segs: "list_all proper_seg segs"
    and m: "0 < m" "m \<le> length segs" "existsSync (abs_text (take m segs))"
  shows "realpathOfDeepestExistingAncestor existsSync realpathSync segs = Inr (abs_text segs)"
proof -
  have "deepest_ancestor existsSync realpathSync (abs_text segs) (rev (take n segs)) (drop n segs) = Inr (abs_text segs)"
    if "m \<le> n" "n \<le> length segs" for n
    using that
  proof (induction n)
    case 0
    then show ?case using m(1) by simp
  next
    case (Suc n)
    have n: "n < length segs" using Suc.prems(2) by simp
    let ?c = "abs_text (take (Suc n) segs)"
    show ?case
    proof (cases "existsSync ?c")
      case True
      have "list_all proper_seg (take (Suc n) segs)" using segs by (auto simp: list_all_iff dest: in_set_takeD)
      then have "realpathSync ?c = Inr ?c" using links True by (auto simp: normal_path_def)
      moreover have "abs_text segs = ?c @ ''/'' @ join_with ''/'' (drop (Suc n) segs)" if "drop (Suc n) segs \<noteq> []"
        using that join_with_append [of "take (Suc n) segs" "drop (Suc n) segs" "''/''"] n
        by (cases "segs = []") (auto simp: abs_text_def)
      ultimately show ?thesis
        using True by (auto simp: deepest_ancestor.simps [of _ _ _ "rev (take (Suc n) segs)"] Let_def)
    next
      case False
      then have "m \<le> n" using m(3) Suc.prems(1) by (metis le_SucE)
      then have "deepest_ancestor existsSync realpathSync (abs_text segs) (rev (take n segs)) (drop n segs) = Inr (abs_text segs)"
        using Suc.IH n by simp
      then show ?thesis
        using False n by (simp add: deepest_ancestor.simps [of _ _ _ "_ # _"] take_Suc_conv_app_nth Cons_nth_drop_Suc)
    qed
  qed
  from this [of "length segs"] m(2) show ?thesis by (simp add: realpathOfDeepestExistingAncestor_def)
qed

section \<open>Properties\<close>

text \<open>The root and the candidate as the gate resolves them.\<close>

definition resolved_root :: "(string \<Rightarrow> bool) \<Rightarrow> (string \<Rightarrow> string + string) \<Rightarrow> string \<Rightarrow> string + string" where
  "resolved_root existsSync realpathSync worktreeRoot =
     (if existsSync worktreeRoot then realpathSync worktreeRoot else Inr (abs_text (resolve_segs worktreeRoot)))"

definition lexical_segs :: "string \<Rightarrow> string \<Rightarrow> string list" where
  "lexical_segs rootDir candidate = resolve_segs (if isAbsolute candidate then candidate else rootDir @ ''/'' @ candidate)"

lemma validate_resolved:
  assumes "isAbsolute worktreeRoot" and "candidate \<noteq> []" and "resolved_root existsSync realpathSync worktreeRoot = Inr rt"
  shows "validatePathInWorktree existsSync realpathSync worktreeRoot candidate accept =
    (if \<not> isUnder rt (abs_text (lexical_segs rt candidate)) then
       Inl (PathScopeError (if isAbsolute candidate then absolute_outside_worktree else parent_traversal_escapes_worktree)
         candidate rt None)
     else (case realpathOfDeepestExistingAncestor existsSync realpathSync (lexical_segs rt candidate) of
         Inl cause \<Rightarrow> Inl (PathScopeError not_under_worktree candidate rt (Some cause))
       | Inr finalPath \<Rightarrow>
           if \<not> isUnder rt finalPath then Inl (PathScopeError symlink_escapes_worktree candidate rt None)
           else if finalPath = rt \<and> \<not> accept then Inl (PathScopeError not_under_worktree candidate rt None)
           else Inr finalPath))"
  using assms by (cases "isAbsolute candidate")
    (simp_all add: validatePathInWorktree_def resolved_root_def [symmetric] lexical_segs_def Let_def)





text \<open>In a tree without symbolic links the gate is exact. Under a normal root it returns the lexical
  resolution of the requested path when that lies at or below the root (the root itself only when
  accepted), and otherwise reports an absolute path outside or an escape by parent segments.\<close>

theorem path_scope_link_free:
  assumes links: "\<forall>p. normal_path p \<and> existsSync p \<longrightarrow> realpathSync p = Inr p"
    and rt: "normal_path rootDir" "existsSync rootDir" "rootDir \<noteq> ''/''" and "candidate \<noteq> []"
  shows "validatePathInWorktree existsSync realpathSync rootDir candidate accept =
    (let segs = lexical_segs rootDir candidate
     in if \<nexists>rest. segs = resolve_segs rootDir @ rest then
          Inl (PathScopeError (if isAbsolute candidate then absolute_outside_worktree else parent_traversal_escapes_worktree)
            candidate rootDir None)
        else if segs = resolve_segs rootDir \<and> \<not> accept then Inl (PathScopeError not_under_worktree candidate rootDir None)
        else Inr (abs_text segs))"
proof -
  let ?segs = "lexical_segs rootDir candidate"
  have segs: "list_all proper_seg ?segs" unfolding lexical_segs_def by (rule resolve_segs_proper)
  have rr: "rootDir = abs_text (resolve_segs rootDir)" "list_all proper_seg (resolve_segs rootDir)"
    using normal_pathD [OF rt(1)] by blast+
  have ne: "resolve_segs rootDir \<noteq> []" using rt(3) rr(1) by (metis abs_text_def append.right_neutral join_with.simps(1))
  have abs: "isAbsolute rootDir" by (subst rr(1)) (simp add: isAbsolute_def abs_text_def starts_with_def)
  have res: "resolved_root existsSync realpathSync rootDir = Inr rootDir"
    using links rt(1,2) by (simp add: resolved_root_def)
  have under: "isUnder rootDir (abs_text ?segs) \<longleftrightarrow> (\<exists>rest. ?segs = resolve_segs rootDir @ rest)"
    using isUnder_abs_text [OF rr(2) segs] rr(1) by metis
  have same: "abs_text ?segs = rootDir \<longleftrightarrow> ?segs = resolve_segs rootDir"
    using rr(1) resolve_abs_text [OF segs] by metis
  have deep: "realpathOfDeepestExistingAncestor existsSync realpathSync ?segs = Inr (abs_text ?segs)"
    if "?segs = resolve_segs rootDir @ rest" for rest
    by (rule deepest_link_free [OF links segs, of "length (resolve_segs rootDir)"])
      (use that ne rr(1) rt(2) in auto)
  show ?thesis
  proof (cases "\<exists>rest. ?segs = resolve_segs rootDir @ rest")
    case True
    then have u: "isUnder rootDir (abs_text ?segs)" "realpathOfDeepestExistingAncestor existsSync realpathSync ?segs = Inr (abs_text ?segs)"
      using under deep by blast+
    show ?thesis
      using True u same by (simp add: validate_resolved [OF abs assms(5) res] Let_def)
  next
    case False
    then show ?thesis
      using under by (simp add: validate_resolved [OF abs assms(5) res] Let_def)
  qed
qed

theorem path_scope_link_free_witness:
  "validatePathInWorktree (\<lambda>p. p \<in> {''/'', ''/w''}) Inr ''/w'' ''a/../../etc'' True =
     Inl (PathScopeError parent_traversal_escapes_worktree ''a/../../etc'' ''/w'' None)"
proof -
  have n: "normal_path ''/w''" unfolding normal_path_def by (rule exI [of _ "[''w'']"]) code_simp
  have segs: "lexical_segs ''/w'' ''a/../../etc'' = [''etc'']" "resolve_segs ''/w'' = [''w'']" "\<not> isAbsolute ''a/../../etc''"
    by code_simp+
  show ?thesis
    using path_scope_link_free [of "\<lambda>p. p \<in> {''/'', ''/w''}" Inr "''/w''" "''a/../../etc''" True] n
    by (simp add: segs)
qed

text \<open>A file system with symbolic links as last components: existing paths, and links with their targets.\<close>

record link_fs =
  fs_files :: "string list"
  fs_links :: "(string \<times> string) list"

definition fs_target :: "link_fs \<Rightarrow> string \<Rightarrow> string" where
  "fs_target fs p = (case map_of (fs_links fs) p of None \<Rightarrow> p | Some t \<Rightarrow> t)"

definition fs_exists :: "link_fs \<Rightarrow> string \<Rightarrow> bool" where
  "fs_exists fs p \<longleftrightarrow> fs_target fs p \<in> set (fs_files fs)"

definition fs_realpath :: "link_fs \<Rightarrow> string \<Rightarrow> string + string" where
  "fs_realpath fs p = (if fs_exists fs p then Inr (fs_target fs p) else Inl ''ENOENT'')"

definition dangling_fs :: "string list \<Rightarrow> link_fs" where
  "dangling_fs extra = \<lparr>fs_files = [''/'', ''/w''] @ extra, fs_links = [(''/w/link'', ''/etc/cron.d/job'')]\<rparr>"

text \<open>A dangling symbolic link defeats the gate. \<open>existsSync\<close> follows links, so a link in the worktree
  whose target outside does not exist yet counts as a new file: the gate accepts it, and writing to the
  accepted path creates the target outside the worktree. With an existing target the same link is
  rejected.\<close>

theorem dangling_link_escapes:
  "validatePathInWorktree (fs_exists (dangling_fs [])) (fs_realpath (dangling_fs [])) ''/w'' ''link'' True = Inr ''/w/link'' \<and>
   fs_target (dangling_fs []) ''/w/link'' = ''/etc/cron.d/job'' \<and> \<not> isUnder ''/w'' ''/etc/cron.d/job'' \<and>
   validatePathInWorktree (fs_exists (dangling_fs [''/etc/cron.d/job''])) (fs_realpath (dangling_fs [''/etc/cron.d/job'']))
     ''/w'' ''link'' True = Inl (PathScopeError symlink_escapes_worktree ''link'' ''/w'' None)"
  by code_simp

end
