(* ===== verification/Permission.thy ===== *)
theory Permission
  imports Shell_Gate Path_Scope Json_Text
begin

text \<open>
  The permission handlers of the adapters (\<^verbatim>\<open>permission-handler.ts\<close> of Amp, OpenCode, Pi, Cursor, Gemini and
  Claude under \<^verbatim>\<open>packages/adapters\<close>): a tool call is classified by its name, a shell tool's command goes
  through the shell gate and every path argument of a file tool through the path gate. The parser and
  the file system of the gates are one environment. Each vendor's handler interprets one contract.
\<close>

section \<open>Data\<close>

record gate_env =
  shell_parse :: "string \<Rightarrow> string + ShellToken list"
  file_exists :: "string \<Rightarrow> bool"
  real_path :: "string \<Rightarrow> string + string"

record PermissionHandlerOptions =
  worktreeRoot :: string
  shellPolicy :: "ShellGatePolicy option"

datatype gate_error = PathDenied PathScopeError | ShellDenied ShellGateError



record AcpOption =
  optionId :: string
  option_kind :: "string option"

record AcpPermissionRequest =
  req_name :: "string option"
  req_kind :: "string option"
  req_input :: "js_record option"
  req_rawInput :: "js_record option"
  req_options :: "AcpOption list"

datatype AcpPermissionDecision = Selected string | Cancelled

datatype AcpPolicyDecision = AcpAllowed AcpPermissionDecision | AcpDenied AcpPermissionDecision gate_error
  | AcpUnknown AcpPermissionDecision


section \<open>Arguments of a call\<close>

fun js_string :: "js_value \<Rightarrow> string option" where
  "js_string (JStr s) = (if s \<noteq> [] then Some s else None)"
| "js_string _ = None"

definition string_prop :: "js_record \<Rightarrow> string \<Rightarrow> string option" where
  "string_prop ins k = Option.bind (map_of ins k) js_string"

fun pickString :: "js_record \<Rightarrow> string list \<Rightarrow> string option" where
  "pickString ins [] = None"
| "pickString ins (k # ks) = (case string_prop ins k of Some v \<Rightarrow> Some v | None \<Rightarrow> pickString ins ks)"

fun entry_paths :: "js_value \<Rightarrow> string list" where
  "entry_paths (JStr s) = (if s \<noteq> [] then [s] else [])"
| "entry_paths (JObj fs) = (case map_of fs ''path'' of Some (JStr p) \<Rightarrow> [p] | _ \<Rightarrow> [])"
| "entry_paths _ = []"

definition gatherPaths :: "string list \<Rightarrow> js_record \<Rightarrow> string list" where
  "gatherPaths singleKeys ins =
     concat (map (\<lambda>k. case string_prop ins k of Some v \<Rightarrow> [v] | None \<Rightarrow> []) singleKeys) @
     concat (map (\<lambda>k. case map_of ins k of Some (JArr es) \<Rightarrow> concat (map entry_paths es) | _ \<Rightarrow> [])
       [''files'', ''paths'', ''patches''])"

definition short_keys :: "string list" where
  "short_keys = [''file_path'', ''path'', ''filename'', ''target'', ''destination'']"

definition long_keys :: "string list" where
  "long_keys = short_keys @ [''abs_path'', ''absolutePath'']"

section \<open>The gates of one call\<close>

definition gate_shell :: "gate_env \<Rightarrow> PermissionHandlerOptions \<Rightarrow> string \<Rightarrow> ShellGateError + ParsedCommand" where
  "gate_shell env opts cmd =
     validateShellCommand (shell_parse env) cmd (case shellPolicy opts of None \<Rightarrow> DEFAULT_POLICY | Some p \<Rightarrow> p)"

definition gate_path :: "gate_env \<Rightarrow> PermissionHandlerOptions \<Rightarrow> string \<Rightarrow> PathScopeError + string" where
  "gate_path env opts p = validatePathInWorktree (file_exists env) (real_path env) (worktreeRoot opts) p True"

fun gate_paths :: "gate_env \<Rightarrow> PermissionHandlerOptions \<Rightarrow> string list \<Rightarrow> PathScopeError option" where
  "gate_paths env opts [] = None"
| "gate_paths env opts (p # ps) =
     (case gate_path env opts p of Inl e \<Rightarrow> Some e | Inr _ \<Rightarrow> gate_paths env opts ps)"

definition command_of :: "js_record \<Rightarrow> string" where
  "command_of ins = (case pickString ins [''command'', ''cmd'', ''script''] of Some c \<Rightarrow> c | None \<Rightarrow> [])"

section \<open>Amp, OpenCode and Pi\<close>











section \<open>Cursor and Gemini\<close>

fun first_option :: "string list \<Rightarrow> AcpOption list \<Rightarrow> AcpPermissionDecision" where
  "first_option [] os = Cancelled"
| "first_option (k # ks) os =
     (case find (\<lambda>o1. option_kind o1 = Some k) os of
        Some o1 \<Rightarrow> Selected (optionId o1)
      | None \<Rightarrow> first_option ks os)"

definition pickDecisionFor :: "bool \<Rightarrow> AcpPermissionRequest \<Rightarrow> AcpPermissionDecision" where
  "pickDecisionFor allow req =
     first_option (if allow then [''allow_once'', ''allow_always''] else [''reject_once'', ''reject_always'']) (req_options req)"

definition req_tool :: "AcpPermissionRequest \<Rightarrow> string" where
  "req_tool req = (case req_name req of Some n \<Rightarrow> n | None \<Rightarrow> (case req_kind req of Some k \<Rightarrow> k | None \<Rightarrow> []))"

definition req_args :: "AcpPermissionRequest \<Rightarrow> js_record" where
  "req_args req = (case req_input req of Some i \<Rightarrow> i | None \<Rightarrow> (case req_rawInput req of Some i \<Rightarrow> i | None \<Rightarrow> []))"

definition decide_acp ::
  "string list \<Rightarrow> string list \<Rightarrow> gate_env \<Rightarrow> AcpPermissionRequest \<Rightarrow> PermissionHandlerOptions \<Rightarrow> AcpPolicyDecision" where
  "decide_acp shellNames pathNames env req opts =
     (let toolName = to_lower (req_tool req); ins = req_args req
      in if toolName \<in> set shellNames then
           (case gate_shell env opts (command_of ins) of
              Inl e \<Rightarrow> AcpDenied (pickDecisionFor False req) (ShellDenied e)
            | Inr _ \<Rightarrow> AcpAllowed (pickDecisionFor True req))
         else if toolName \<in> set pathNames then
           (let paths = gatherPaths long_keys ins
            in if paths = [] then AcpAllowed (pickDecisionFor True req)
               else (case gate_paths env opts paths of
                   Some e \<Rightarrow> AcpDenied (pickDecisionFor False req) (PathDenied e)
                 | None \<Rightarrow> AcpAllowed (pickDecisionFor True req)))
         else AcpUnknown (pickDecisionFor True req))"




definition gemini_shell_tools :: "string list" where
  "gemini_shell_tools = [''shell'', ''bash'', ''run'', ''exec'', ''sh'', ''terminal'', ''run_shell_command'']"

definition gemini_path_tools :: "string list" where
  "gemini_path_tools = [''write'', ''edit'', ''read'', ''create'', ''delete'', ''patch'', ''apply_patch'', ''update'', ''rename'',
     ''write_file'', ''edit_file'', ''read_file'', ''replaceinfile'', ''replace_in_file'']"

definition decideGeminiPermission :: "gate_env \<Rightarrow> AcpPermissionRequest \<Rightarrow> PermissionHandlerOptions \<Rightarrow> AcpPolicyDecision" where
  "decideGeminiPermission = decide_acp gemini_shell_tools gemini_path_tools"

section \<open>Claude\<close>










section \<open>The contract of a handler\<close>




















section \<open>Properties\<close>









definition plain_env :: gate_env where
  "plain_env = \<lparr>shell_parse = (\<lambda>c. Inr (map TWord (filter (\<lambda>s. s \<noteq> []) (split_on (CHR '' '') c)))),
     file_exists = (\<lambda>p. p \<in> {''/'', ''/w''}),
     real_path = (\<lambda>p. if p \<in> {''/'', ''/w''} then Inr p else Inl ''ENOENT'')\<rparr>"

definition plain_opts :: PermissionHandlerOptions where
  "plain_opts = \<lparr>worktreeRoot = ''/w'', shellPolicy = None\<rparr>"



text \<open>The Gemini handler does not gate the tool it names as Gemini's file writer. \<open>WriteFile\<close> lowers to
  \<open>writefile\<close>, which is not in the list of file tools, so a write outside the worktree is allowed, while the
  same call under the name \<open>write_file\<close> is denied.\<close>

theorem gemini_writefile_ungated:
  "(let req = \<lparr>req_name = Some ''WriteFile'', req_kind = None, req_input = Some [(''file_path'', JStr ''/etc/passwd'')],
      req_rawInput = None, req_options = [\<lparr>optionId = ''ok'', option_kind = Some ''allow_once''\<rparr>,
      \<lparr>optionId = ''no'', option_kind = Some ''reject_once''\<rparr>]\<rparr>
    in decideGeminiPermission plain_env req plain_opts = AcpUnknown (Selected ''ok'') \<and>
       decideGeminiPermission plain_env (req\<lparr>req_name := Some ''write_file''\<rparr>) plain_opts =
         AcpDenied (Selected ''no'') (PathDenied (PathScopeError absolute_outside_worktree ''/etc/passwd'' ''/w'' None)))"
  by code_simp

end
