(* ===== verification/Audit_Chain.thy ===== *)
theory Audit_Chain
  imports Json_Text
begin

text \<open>
  The audit chain (\<^verbatim>\<open>packages/persistence/src/queries/audit.ts\<close>): control-plane actions are appended to a
  table, each row with an HMAC over its number, the HMAC of the row before and the canonical JSON of its
  content. The keyed HMAC and the SHA-256 used for comparison are parameters. The payload column holds
  JSON text that is parsed when read; a row here holds the parsed value, and \<open>json_stored\<close> is what
  printing and parsing make of a value.
\<close>

section \<open>Data\<close>

record AuditEvent =
  ev_actor :: string
  ev_action :: string
  ev_entity :: string
  ev_reason :: string
  ev_ts :: int
  ev_payload :: "js_record option"

record AuditRow =
  auditEventId :: string
  seq :: int
  actor :: string
  action :: string
  entity :: string
  reason :: string
  ts :: int
  payload :: js_record
  prevHmac :: string
  rowHmac :: string

datatype AuditChainError = AuditChainError string int

definition GENESIS_HMAC :: string where
  "GENESIS_HMAC = replicate 64 (CHR ''0'')"

section \<open>Canonical JSON\<close>

text \<open>\<^verbatim>\<open>JSON.stringify\<close> has no text for undefined, functions and symbols (\<open>None\<close>), which prints as \<open>undefined\<close>
  in a template and as nothing in a joined array; a BigInt throws. Dates, Maps and Sets are objects
  without own properties.\<close>

function canonicalJson :: "js_value \<Rightarrow> string + string option" where
  "canonicalJson JNull = Inr (Some ''null'')"
| "canonicalJson (JBool b) = Inr (Some (if b then ''true'' else ''false''))"
| "canonicalJson (JNum n) = Inr (Some (show_int n))"
| "canonicalJson (JStr s) = Inr (Some (json_quote s))"
| "canonicalJson JUndefined = Inr None"
| "canonicalJson JFunction = Inr None"
| "canonicalJson JSymbol = Inr None"
| "canonicalJson JBigInt = Inl ''Do not know how to serialize a BigInt''"
| "canonicalJson JDate = Inr (Some ''{}'')"
| "canonicalJson JMapSet = Inr (Some ''{}'')"
| "canonicalJson (JArr vs) =
     map_result (\<lambda>parts. Some (''['' @ join_with '','' (map (\<lambda>t. case t of None \<Rightarrow> [] | Some s \<Rightarrow> s) parts) @ '']''))
       (seq_results (map (\<lambda>v. canonicalJson v) vs))"
| "canonicalJson (JObj kvs) =
     map_result (\<lambda>parts. Some (''{'' @ join_with '','' parts @ ''}''))
       (seq_results (map (\<lambda>kr. map_result (\<lambda>t. json_quote (fst kr) @ '':'' @ (case t of None \<Rightarrow> ''undefined'' | Some s \<Rightarrow> s)) (snd kr))
         (sort_key fst (map (\<lambda>kv. (fst kv, canonicalJson (snd kv))) kvs))))"
  by pat_completeness auto
termination
  by (relation "measure size") (auto dest: jsval_size_arr jsval_size_obj simp del: jsval.size)

definition canonicalEntryJson ::
  "string \<Rightarrow> string \<Rightarrow> string \<Rightarrow> string \<Rightarrow> int \<Rightarrow> js_record \<Rightarrow> string + string option" where
  "canonicalEntryJson actr act ent rsn t pay =
     canonicalJson (JObj [(''actor'', JStr actr), (''action'', JStr act), (''entity'', JStr ent), (''payload'', JObj pay),
       (''reason'', JStr rsn), (''ts'', JNum t)])"

text \<open>Printing a value as JSON and parsing it again; \<open>isoText\<close> is what a date prints as.\<close>

fun omitted :: "js_value \<Rightarrow> bool" where
  "omitted JUndefined = True"
| "omitted JFunction = True"
| "omitted JSymbol = True"
| "omitted _ = False"

function json_stored :: "string \<Rightarrow> js_value \<Rightarrow> js_value" where
  "json_stored isoText (JArr vs) = JArr (map (\<lambda>v. if omitted v then JNull else json_stored isoText v) vs)"
| "json_stored isoText (JObj kvs) =
     JObj (map (\<lambda>kv. (fst kv, json_stored isoText (snd kv))) (filter (\<lambda>kv. \<not> omitted (snd kv)) kvs))"
| "json_stored isoText JDate = JStr isoText"
| "json_stored isoText JMapSet = JObj []"
| "json_stored isoText JNull = JNull"
| "json_stored isoText (JBool b) = JBool b"
| "json_stored isoText (JNum n) = JNum n"
| "json_stored isoText (JStr s) = JStr s"
| "json_stored isoText JUndefined = JUndefined"
| "json_stored isoText JFunction = JFunction"
| "json_stored isoText JSymbol = JSymbol"
| "json_stored isoText JBigInt = JBigInt"
  by pat_completeness auto
termination
  by (relation "measure (\<lambda>(_, v). size v)") (auto dest: jsval_size_arr jsval_size_obj simp del: jsval.size)

fun stored_record :: "string \<Rightarrow> js_record \<Rightarrow> js_record" where
  "stored_record isoText pay = (case json_stored isoText (JObj pay) of JObj kvs \<Rightarrow> kvs | _ \<Rightarrow> [])"

section \<open>Operations\<close>

definition hmacRow :: "(string \<Rightarrow> string) \<Rightarrow> int \<Rightarrow> string \<Rightarrow> string \<Rightarrow> string" where
  "hmacRow mac n prev entryJson = mac (show_int n @ [CHR 0x0A] @ prev @ [CHR 0x0A] @ entryJson)"

definition hexEqual :: "(string \<Rightarrow> string) \<Rightarrow> string \<Rightarrow> string \<Rightarrow> bool" where
  "hexEqual sha256 a b \<longleftrightarrow> length a = length b \<and> sha256 a = sha256 b"

definition tail_row :: "AuditRow list \<Rightarrow> AuditRow option" where
  "tail_row db = (case rev (sort_key seq db) of [] \<Rightarrow> None | r # _ \<Rightarrow> Some r)"

definition insert_audit :: "AuditRow \<Rightarrow> AuditRow list \<Rightarrow> string + AuditRow list" where
  "insert_audit row db =
     (if auditEventId row \<in> auditEventId ` set db \<or> seq row \<in> seq ` set db then Inl ''UNIQUE constraint failed''
      else Inr (db @ [row]))"

definition appendAudit ::
  "(string \<Rightarrow> string) \<Rightarrow> string \<Rightarrow> string \<Rightarrow> AuditEvent \<Rightarrow> AuditRow list \<Rightarrow> string + AuditRow \<times> AuditRow list" where
  "appendAudit mac isoText newId e db =
     (let nextSeq = (case tail_row db of None \<Rightarrow> - 1 | Some r \<Rightarrow> seq r) + 1;
          prev = (case tail_row db of None \<Rightarrow> GENESIS_HMAC | Some r \<Rightarrow> rowHmac r);
          pay = (case ev_payload e of None \<Rightarrow> [] | Some p \<Rightarrow> p)
      in bind_result (canonicalEntryJson (ev_actor e) (ev_action e) (ev_entity e) (ev_reason e) (ev_ts e) pay) (\<lambda>canonical.
           let row = \<lparr>auditEventId = newId, seq = nextSeq, actor = ev_actor e, action = ev_action e, entity = ev_entity e,
                      reason = ev_reason e, ts = ev_ts e, payload = pay, prevHmac = prev,
                      rowHmac = hmacRow mac nextSeq prev (case canonical of None \<Rightarrow> ''undefined'' | Some s \<Rightarrow> s)\<rparr>
           in map_result (\<lambda>db'. (row, db')) (insert_audit (row\<lparr>payload := stored_record isoText pay\<rparr>) db)))"

definition MAX_SAFE_INTEGER :: int where
  "MAX_SAFE_INTEGER = 9007199254740991"

definition select_chain :: "int option \<Rightarrow> int option \<Rightarrow> AuditRow list \<Rightarrow> AuditRow list" where
  "select_chain fromSeq toSeq db =
     (if fromSeq = None \<and> toSeq = None then sort_key seq db
      else sort_key seq (filter (\<lambda>r. (case fromSeq of None \<Rightarrow> 0 | Some n \<Rightarrow> n) \<le> seq r \<and>
             seq r \<le> (case toSeq of None \<Rightarrow> MAX_SAFE_INTEGER | Some n \<Rightarrow> n)) db))"

fun verify_rows ::
  "(string \<Rightarrow> string) \<Rightarrow> (string \<Rightarrow> string) \<Rightarrow> string \<Rightarrow> int \<Rightarrow> AuditRow list \<Rightarrow> AuditChainError + unit" where
  "verify_rows sha256 mac expectedPrev lastSeq [] = Inr ()"
| "verify_rows sha256 mac expectedPrev lastSeq (raw # rows) =
     (if seq raw \<noteq> lastSeq + 1 then
        Inl (AuditChainError (''Seq gap: expected '' @ show_int (lastSeq + 1) @ '', got '' @ show_int (seq raw)) (seq raw))
      else if \<not> hexEqual sha256 (prevHmac raw) expectedPrev then
        Inl (AuditChainError (''prev_hmac mismatch at seq '' @ show_int (seq raw) @ '': expected '' @ expectedPrev @
          '', stored '' @ prevHmac raw) (seq raw))
      else (case canonicalEntryJson (actor raw) (action raw) (entity raw) (reason raw) (ts raw) (payload raw) of
          Inl msg \<Rightarrow> Inl (AuditChainError msg (seq raw))
        | Inr canonical \<Rightarrow>
            if \<not> hexEqual sha256
                 (hmacRow mac (seq raw) (prevHmac raw) (case canonical of None \<Rightarrow> ''undefined'' | Some s \<Rightarrow> s)) (rowHmac raw) then
              Inl (AuditChainError (''row_hmac mismatch at seq '' @ show_int (seq raw) @ ''; content may have been tampered'') (seq raw))
            else verify_rows sha256 mac (rowHmac raw) (seq raw) rows))"

definition verifyAuditChain ::
  "(string \<Rightarrow> string) \<Rightarrow> (string \<Rightarrow> string) \<Rightarrow> int option \<Rightarrow> int option \<Rightarrow> AuditRow list \<Rightarrow> AuditChainError + unit" where
  "verifyAuditChain sha256 mac fromSeq toSeq db =
     (case select_chain fromSeq toSeq db of
        [] \<Rightarrow> Inr ()
      | first # rest \<Rightarrow>
          if seq first = 0 then verify_rows sha256 mac GENESIS_HMAC (seq first - 1) (first # rest)
          else (case find (\<lambda>r. seq r = seq first - 1) db of
              None \<Rightarrow> Inl (AuditChainError (''Anchor row at seq '' @ show_int (seq first - 1) @
                 '' missing; cannot verify chain starting at '' @ show_int (seq first)) (seq first))
            | Some anchor \<Rightarrow> verify_rows sha256 mac (rowHmac anchor) (seq first - 1) (first # rest)))"

definition listAudit :: "int option \<Rightarrow> int option \<Rightarrow> AuditRow list \<Rightarrow> AuditRow list" where
  "listAudit fromSeq toSeq db = select_chain fromSeq toSeq db"

section \<open>JSON data\<close>



lemma plain_no_undefined: "plain_json (JObj kvs) \<Longrightarrow> filter (\<lambda>kv. snd kv \<noteq> JUndefined) kvs = kvs"
  by (auto simp: filter_id_conv)

text \<open>On JSON data the audit encoder agrees with the canonical encoder of content hashes.\<close>

definition json_text :: "js_value \<Rightarrow> string" where
  "json_text v = projr (encodeValue (\<lambda>_. True) show_int v)"

lemma encode_plain:
  "plain_json v \<Longrightarrow> encodeValue (\<lambda>_. True) show_int v = Inr (json_text v) \<and> canonicalJson v = Inr (Some (json_text v))"
proof (induction v rule: measure_induct_rule [where f = size])
  case (less v)
  show ?case
  proof (cases v)
    case (JArr vs)
    then have "\<forall>x \<in> set vs. encodeValue (\<lambda>_. True) show_int x = Inr (json_text x) \<and> canonicalJson x = Inr (Some (json_text x))"
      using less JArr jsval_size_arr [of _ vs] by auto
    then have "map (\<lambda>x. encodeValue (\<lambda>_. True) show_int x) vs = map Inr (map json_text vs)"
      "map canonicalJson vs = map Inr (map (\<lambda>x. Some (json_text x)) vs)" by simp_all
    then have "seq_results (map (\<lambda>x. encodeValue (\<lambda>_. True) show_int x) vs) = Inr (map json_text vs)"
      "seq_results (map canonicalJson vs) = Inr (map (\<lambda>x. Some (json_text x)) vs)" by (simp_all only: seq_results_Inr)
    with JArr show ?thesis by (simp add: json_text_def [of "JArr vs"] map_result_def comp_def)
  next
    case (JObj kvs)
    have all: "encodeValue (\<lambda>_. True) show_int (snd kv) = Inr (json_text (snd kv)) \<and>
        canonicalJson (snd kv) = Inr (Some (json_text (snd kv)))" if "kv \<in> set kvs" for kv
      using that less JObj jsval_size_obj [of kv kvs] by auto
    have flt: "filter (\<lambda>kv. snd kv \<noteq> JUndefined) kvs = kvs" using plain_no_undefined less.prems JObj by simp
    let ?row = "\<lambda>kv. json_quote (fst kv) @ '':'' @ json_text (snd kv)"
    have e: "seq_results (map (\<lambda>kr. map_result (\<lambda>t. json_quote (fst kr) @ '':'' @ t) (snd kr))
        (sort_key fst (map (\<lambda>kv. (fst kv, encodeValue (\<lambda>_. True) show_int (snd kv))) kvs))) = Inr (map ?row (sort_key fst kvs))"
      unfolding sort_key_map_pair seq_results_Inr using all by (simp add: map_result_def)
    have c: "seq_results (map (\<lambda>kr. map_result (\<lambda>t. json_quote (fst kr) @ '':'' @ (case t of None \<Rightarrow> ''undefined'' | Some s \<Rightarrow> s)) (snd kr))
        (sort_key fst (map (\<lambda>kv. (fst kv, canonicalJson (snd kv))) kvs))) = Inr (map ?row (sort_key fst kvs))"
      unfolding sort_key_map_pair seq_results_Inr using all by (simp add: map_result_def)
    have "json_text (JObj kvs) = ''{'' @ join_with '','' (map ?row (sort_key fst kvs)) @ ''}''"
      unfolding json_text_def [of "JObj kvs"] encodeValue.simps flt e by (simp add: map_result_def)
    then show ?thesis
      unfolding JObj encodeValue.simps canonicalJson.simps flt e c by (simp add: map_result_def)
  qed (use less.prems in \<open>simp_all add: json_text_def\<close>)
qed

section \<open>Links of the chain\<close>

definition entry_value :: "AuditRow \<Rightarrow> js_value" where
  "entry_value r = JObj [(''actor'', JStr (actor r)), (''action'', JStr (action r)), (''entity'', JStr (entity r)),
     (''payload'', JObj (payload r)), (''reason'', JStr (reason r)), (''ts'', JNum (ts r))]"

definition row_text :: "AuditRow \<Rightarrow> string" where
  "row_text r = show_int (seq r) @ [CHR 0x0A] @ prevHmac r @ [CHR 0x0A] @ json_text (entry_value r)"

definition plain_row :: "AuditRow \<Rightarrow> bool" where
  "plain_row r \<longleftrightarrow> plain_json (JObj (payload r))"

lemma canonical_entry:
  assumes "plain_row r"
  shows "canonicalEntryJson (actor r) (action r) (entity r) (reason r) (ts r) (payload r) = Inr (Some (json_text (entry_value r)))"
    and "hmacRow mac (seq r) (prevHmac r) (json_text (entry_value r)) = mac (row_text r)"
  using encode_plain [of "entry_value r"] assms
  by (simp_all add: canonicalEntryJson_def entry_value_def plain_row_def hmacRow_def row_text_def)

fun linked :: "(string \<Rightarrow> string) \<Rightarrow> (string \<Rightarrow> string) \<Rightarrow> string \<Rightarrow> int \<Rightarrow> AuditRow list \<Rightarrow> bool" where
  "linked sha256 mac p n [] = True"
| "linked sha256 mac p n (r # rs) =
     (seq r = n + 1 \<and> hexEqual sha256 (prevHmac r) p \<and> hexEqual sha256 (mac (row_text r)) (rowHmac r) \<and>
      linked sha256 mac (rowHmac r) (seq r) rs)"

lemma verify_linked:
  "\<forall>r \<in> set rows. plain_row r \<Longrightarrow> verify_rows sha256 mac p n rows = Inr () \<longleftrightarrow> linked sha256 mac p n rows"
  by (induction rows arbitrary: p n) (auto simp: canonical_entry(1) hmacRow_def row_text_def split: if_splits)

lemma linked_seqs: "linked sha256 mac p n rows \<Longrightarrow> map seq rows = map (\<lambda>i. n + 1 + int i) [0..<length rows]"
proof (induction rows arbitrary: p n)
  case (Cons r rows)
  then have "map seq rows = map (\<lambda>i. n + 1 + int (Suc i)) [0..<length rows]" by (force simp: algebra_simps)
  with Cons.prems show ?case by (simp add: upt_conv_Cons map_Suc_upt [symmetric] del: upt_Suc) 
qed simp

lemma last_seq:
  assumes "map seq rows = map (\<lambda>i. n + 1 + int i) [0..<length rows]" and "rows \<noteq> []"
  shows "seq (last rows) = n + int (length rows)"
  using assms by (cases rows rule: rev_cases) auto

text \<open>A chain in which every comparison is an equality.\<close>

abbreviation chained :: "(string \<Rightarrow> string) \<Rightarrow> string \<Rightarrow> int \<Rightarrow> AuditRow list \<Rightarrow> bool" where
  "chained \<equiv> linked (\<lambda>s. s)"

lemma hexEqual_id [simp]: "hexEqual (\<lambda>s. s) a b \<longleftrightarrow> a = b"
  by (auto simp: hexEqual_def)

lemma hexEqual_refl [simp]: "hexEqual sha256 a a"
  by (simp add: hexEqual_def)

lemma chained_linked: "chained mac p n rows \<Longrightarrow> linked sha256 mac p n rows"
  by (induction rows arbitrary: p n) auto

lemma linked_chained:
  assumes "inj_on sha256 S" and "p \<in> S" and "\<forall>r \<in> set rows. {prevHmac r, rowHmac r, mac (row_text r)} \<subseteq> S"
    and "linked sha256 mac p n rows"
  shows "chained mac p n rows"
  using assms(2-4)
proof (induction rows arbitrary: p n)
  case (Cons r rows)
  have "prevHmac r = p" "mac (row_text r) = rowHmac r"
    using Cons.prems inj_onD [OF assms(1)] by (auto simp: hexEqual_def)
  with Cons show ?case by auto
qed simp

lemma linked_append:
  "linked sha256 mac p n (xs @ ys) \<longleftrightarrow> linked sha256 mac p n xs \<and>
     linked sha256 mac (if xs = [] then p else rowHmac (last xs)) (if xs = [] then n else seq (last xs)) ys"
  by (induction xs arbitrary: p n) auto

text \<open>The numbers of a chain ascend, so a range of them is a segment of the chain.\<close>

lemma verify_rows_append:
  "verify_rows sha256 mac p n (xs @ ys) = Inr () \<longleftrightarrow>
     verify_rows sha256 mac p n xs = Inr () \<and>
     verify_rows sha256 mac (if xs = [] then p else rowHmac (last xs)) (if xs = [] then n else seq (last xs)) ys = Inr ()"
  by (induction xs arbitrary: p n) (auto split: if_splits sum.splits)

lemma verify_rows_after: "verify_rows sha256 mac p n rows = Inr () \<Longrightarrow> sorted_wrt (<) (map seq rows) \<and> (\<forall>r \<in> set rows. n < seq r)"
proof (induction rows arbitrary: p n)
  case (Cons r rows)
  then have "seq r = n + 1" and "verify_rows sha256 mac (rowHmac r) (n + 1) rows = Inr ()"
    by (auto split: if_splits sum.splits)
  with Cons.IH [of "rowHmac r" "n + 1"] show ?case by force
qed simp

lemma filter_interval:
  fixes f :: "'a \<Rightarrow> int"
  shows "sorted (map f xs) \<Longrightarrow> filter (\<lambda>x. a \<le> f x \<and> f x \<le> b) xs = takeWhile (\<lambda>x. f x \<le> b) (dropWhile (\<lambda>x. f x < a) xs)"
proof (induction xs)
  case (Cons x xs)
  show ?case
  proof (cases "f x < a")
    case True
    with Cons show ?thesis by simp
  next
    case False
    then have "dropWhile (\<lambda>x. f x < a) xs = xs"
      using Cons.prems by (cases xs) auto
    moreover have "filter (\<lambda>x. a \<le> f x \<and> f x \<le> b) xs = []" if "b < f x"
      using that Cons.prems by (auto simp: filter_empty_conv)
    ultimately show ?thesis using False Cons by auto
  qed
qed simp

lemma verify_first:
  assumes "verifyAuditChain sha256 mac None None db = Inr ()"
  shows "verify_rows sha256 mac GENESIS_HMAC (- 1) (sort_key seq db) = Inr ()"
proof (cases "sort_key seq db")
  case (Cons r rs)
  have "\<forall>x \<in> set db. seq r \<le> seq x"
    using Cons sorted_sort_key [of seq db] by (auto simp flip: set_sort [of seq db])
  then have "find (\<lambda>x. seq x = seq r - 1) db = None" by (force simp: find_None_iff)
  with assms Cons show ?thesis by (simp add: verifyAuditChain_def select_chain_def split: if_splits)
qed simp


section \<open>Appending\<close>









section \<open>What the hashes determine\<close>

lemma entry_value_plain: "plain_row r \<Longrightarrow> plain_json (entry_value r)"
  by (simp add: plain_row_def entry_value_def)

lemma json_text_inject:
  assumes "plain_json v" and "plain_json w" and "json_text v = json_text w"
  shows "norm_js v = norm_js w"
proof -
  have "intnum.encodable v" "intnum.encodable w" "intnum.enc v = intnum.enc w"
    using encode_plain assms by (auto simp: intnum.encodable_def intnum.enc_def json_text_def)
  then show ?thesis
    using delimitedD [OF intnum.enc_delimited, of v w v w "[]" "[]"] by (simp add: stops_def)
qed

definition same_content :: "AuditRow \<Rightarrow> AuditRow \<Rightarrow> bool" where
  "same_content r s \<longleftrightarrow> seq r = seq s \<and> actor r = actor s \<and> action r = action s \<and> entity r = entity s \<and>
     reason r = reason s \<and> ts r = ts s \<and> norm_js (JObj (payload r)) = norm_js (JObj (payload s))"

lemma entry_value_inject:
  assumes "norm_js (entry_value r) = norm_js (entry_value s)"
  shows "actor r = actor s \<and> action r = action s \<and> entity r = entity s \<and> reason r = reason s \<and> ts r = ts s \<and>
    norm_js (JObj (payload r)) = norm_js (JObj (payload s))"
proof -
  let ?ps = "\<lambda>r. {(''actor'', JStr (actor r)), (''action'', JStr (action r)), (''entity'', JStr (entity r)),
     (''payload'', norm_js (JObj (payload r))), (''reason'', JStr (reason r)), (''ts'', JNum (ts r))}"
  have set: "set kvs = ?ps r" if "norm_js (entry_value r) = JObj kvs" for r kvs
    using that by (auto simp: entry_value_def norm_js_Obj set_props)
  obtain kvs where k: "norm_js (entry_value r) = JObj kvs" by (simp add: entry_value_def)
  then have eq: "?ps r = ?ps s" using set [of r kvs] set [of s kvs] assms by simp
  have "p \<in> ?ps s" if "p \<in> ?ps r" for p using that unfolding eq .
  from this [of "(''actor'', JStr (actor r))"] this [of "(''action'', JStr (action r))"] this [of "(''entity'', JStr (entity r))"]
    this [of "(''payload'', norm_js (JObj (payload r)))"] this [of "(''reason'', JStr (reason r))"] this [of "(''ts'', JNum (ts r))"]
  show ?thesis by (simp del: norm_js.simps)
qed

lemma row_text_inject:
  assumes "row_text r = row_text s" and "plain_row r" and "plain_row s" and "length (prevHmac r) = length (prevHmac s)"
  shows "prevHmac r = prevHmac s \<and> same_content r s"
proof -
  let ?rest = "\<lambda>r. prevHmac r @ [CHR 0x0A] @ json_text (entry_value r)"
  have "takeWhile (\<lambda>c. c \<noteq> CHR 0x0A) (row_text r) = show_int (seq r)" for r
    using show_int_no_newline [of "seq r"] by (auto simp: row_text_def takeWhile_append)
  from this [of r] this [of s] have "show_int (seq r) = show_int (seq s)" using assms(1) by simp
  then have "seq r = seq s" by simp
  with assms(1) have "?rest r = ?rest s" by (simp add: row_text_def)
  with assms(4) have "prevHmac r = prevHmac s" "json_text (entry_value r) = json_text (entry_value s)" by auto
  with entry_value_inject [OF json_text_inject [OF entry_value_plain [OF assms(2)] entry_value_plain [OF assms(3)]]]
  show ?thesis using \<open>seq r = seq s\<close> by (simp add: same_content_def)
qed

definition tail_hmac :: "AuditRow list \<Rightarrow> string" where
  "tail_hmac rows = (if rows = [] then GENESIS_HMAC else rowHmac (last rows))"

lemma tail_hmac_snoc [simp]: "tail_hmac (rows @ [r]) = rowHmac r"
  by (simp add: tail_hmac_def)

lemma chained_snoc:
  "chained mac GENESIS_HMAC (- 1) (rows @ [r]) \<Longrightarrow>
     chained mac GENESIS_HMAC (- 1) rows \<and> prevHmac r = tail_hmac rows \<and> rowHmac r = mac (row_text r)"
  by (simp add: linked_append tail_hmac_def split: if_splits)

lemma tail_hmac_length:
  assumes "\<And>x. length (mac x) = 64" and "chained mac GENESIS_HMAC (- 1) rows"
  shows "length (tail_hmac rows) = 64"
proof (cases rows rule: rev_cases)
  case Nil
  then show ?thesis by (simp add: tail_hmac_def GENESIS_HMAC_def)
next
  case (snoc rs r)
  with chained_snoc [of mac rs r] assms show ?thesis by simp
qed

lemma chained_last:
  assumes "\<And>x. length (mac x) = 64" and "chained mac GENESIS_HMAC (- 1) rows" and "rows \<noteq> []"
  shows "tail_hmac rows = mac (row_text (last rows)) \<and> length (prevHmac (last rows)) = 64 \<and>
    seq (last rows) = int (length rows) - 1"
proof -
  obtain rs r where rows: "rows = rs @ [r]" using assms(3) by (cases rows rule: rev_cases) auto
  note r = chained_snoc [OF assms(2) [unfolded rows]]
  have "seq (last rows) = - 1 + int (length rows)" by (rule last_seq [OF linked_seqs [OF assms(2)] assms(3)])
  with r tail_hmac_length [of mac rs] assms(1) rows show ?thesis by simp
qed

lemma chained_same:
  assumes "\<And>x. length (mac x) = 64"
  shows "chained mac GENESIS_HMAC (- 1) xs \<Longrightarrow> chained mac GENESIS_HMAC (- 1) ys \<Longrightarrow> length xs = length ys \<Longrightarrow>
    \<forall>r \<in> set xs \<union> set ys. plain_row r \<Longrightarrow> inj_on mac (row_text ` (set xs \<union> set ys)) \<Longrightarrow> tail_hmac xs = tail_hmac ys \<Longrightarrow>
    list_all2 same_content xs ys"
proof (induction xs arbitrary: ys rule: rev_induct)
  case (snoc x xs)
  obtain ys' y where ys: "ys = ys' @ [y]" using snoc.prems(3) by (cases ys rule: rev_cases) auto
  note x = chained_snoc [OF snoc.prems(1)] and y = chained_snoc [OF snoc.prems(2) [unfolded ys]]
  have "mac (row_text x) = mac (row_text y)" using snoc.prems(6) x y ys by simp
  then have "row_text x = row_text y" by (rule inj_onD [OF snoc.prems(5)]) (simp_all add: ys)
  moreover have "plain_row x" "plain_row y" using snoc.prems(4) ys by auto
  moreover have "length (prevHmac x) = length (prevHmac y)" using x y tail_hmac_length [of mac, OF assms] by simp
  ultimately have same: "prevHmac x = prevHmac y \<and> same_content x y" by (rule row_text_inject)
  have "inj_on mac (row_text ` (set xs \<union> set ys'))" by (rule inj_on_subset [OF snoc.prems(5)]) (auto simp: ys)
  then have "list_all2 same_content xs ys'"
    using x y snoc.IH [of ys'] snoc.prems(3,4) ys same by simp
  with ys same show ?case by (simp add: list_all2_appendI)
qed simp

text \<open>The strings the verifier compares on a table.\<close>

definition chain_hashes :: "(string \<Rightarrow> string) \<Rightarrow> AuditRow list \<Rightarrow> string set" where
  "chain_hashes mac db = insert GENESIS_HMAC (\<Union>r \<in> set db. {prevHmac r, rowHmac r, mac (row_text r)})"

lemma verified_chained:
  assumes "verifyAuditChain sha256 mac None None db = Inr ()" and "\<forall>r \<in> set db. plain_row r"
    and "inj_on sha256 (chain_hashes mac db)"
  shows "chained mac GENESIS_HMAC (- 1) (listAudit None None db)"
proof -
  have "linked sha256 mac GENESIS_HMAC (- 1) (sort_key seq db)"
    using verify_first [OF assms(1)] assms(2) by (simp add: verify_linked)
  then show ?thesis
    unfolding listAudit_def select_chain_def using assms(3)
    by (simp, intro linked_chained [of sha256 "chain_hashes mac db"]) (auto simp: chain_hashes_def)
qed

lemma verified_truncated:
  assumes "verifyAuditChain sha256 mac None None db = Inr ()"
  shows "verify_rows sha256 mac GENESIS_HMAC (- 1) (sort_key seq (filter (\<lambda>r. seq r < k) db)) = Inr ()"
proof -
  note ok = verify_first [OF assms]
  then have sorted: "sorted (map seq (sort_key seq db))" by simp
  have "sort_key seq (filter (\<lambda>r. seq r < k) db) = filter (\<lambda>r. - 1 \<le> seq r \<and> seq r \<le> k - 1) (sort_key seq db)"
    using verify_rows_after [OF ok] unfolding filter_sort [symmetric] by (intro filter_cong) auto
  also have "\<dots> = takeWhile (\<lambda>r. seq r \<le> k - 1) (dropWhile (\<lambda>r. seq r < - 1) (sort_key seq db))"
    by (rule filter_interval [OF sorted])
  also have "dropWhile (\<lambda>r. seq r < - 1) (sort_key seq db) = sort_key seq db"
    using verify_rows_after [OF ok] by (cases "sort_key seq db") auto
  finally show ?thesis
    using ok verify_rows_append [of sha256 mac GENESIS_HMAC "- 1" "takeWhile (\<lambda>r. seq r \<le> k - 1) (sort_key seq db)"
      "dropWhile (\<lambda>r. seq r \<le> k - 1) (sort_key seq db)"] by simp
qed

lemma verify_sorted: "verify_rows sha256 mac GENESIS_HMAC (- 1) (sort_key seq db) = Inr () \<Longrightarrow>
    verifyAuditChain sha256 mac None None db = Inr ()"
  by (cases "sort_key seq db") (auto simp: verifyAuditChain_def select_chain_def split: if_splits)

section \<open>Properties\<close>



text \<open>C30: the log is tamper evident. Two tables that both verify and end in the same \<open>row_hmac\<close> hold the same
  events: the same number of rows with, at every number, the same actor, action, entity, reason, time and (up to
  key order) payload. The hypotheses on the hashes are what the code relies on: the keyed digest is 64 hex digits
  long, and neither it nor SHA-256 collides on the texts of these two tables.\<close>

theorem audit_tamper_evident:
  assumes "verifyAuditChain sha256 mac None None db1 = Inr ()" and "verifyAuditChain sha256 mac None None db2 = Inr ()"
    and "\<forall>r \<in> set db1 \<union> set db2. plain_row r"
    and "\<And>x. length (mac x) = 64" and "inj_on mac (row_text ` (set db1 \<union> set db2))"
    and "inj_on sha256 (chain_hashes mac db1)" and "inj_on sha256 (chain_hashes mac db2)"
    and "db1 \<noteq> []" and "db2 \<noteq> []" and "map_option rowHmac (tail_row db1) = map_option rowHmac (tail_row db2)"
  shows "list_all2 same_content (listAudit None None db1) (listAudit None None db2)"
proof -
  let ?xs = "listAudit None None db1" and ?ys = "listAudit None None db2"
  have set: "set ?xs = set db1" "set ?ys = set db2" by (simp_all add: listAudit_def select_chain_def)
  have ne: "?xs \<noteq> []" "?ys \<noteq> []" using assms(8,9) set by auto
  have tail: "map_option rowHmac (tail_row db) = Some (tail_hmac (listAudit None None db))" if "listAudit None None db \<noteq> []" for db
    using that by (cases "listAudit None None db" rule: rev_cases) (auto simp: tail_row_def listAudit_def select_chain_def)
  have same: "tail_hmac ?xs = tail_hmac ?ys" using tail [OF ne(1)] tail [OF ne(2)] assms(10) by simp
  have chained: "chained mac GENESIS_HMAC (- 1) ?xs" "chained mac GENESIS_HMAC (- 1) ?ys"
    using assms by (simp_all add: verified_chained)
  note x = chained_last [of mac, OF assms(4) chained(1) ne(1)] and y = chained_last [of mac, OF assms(4) chained(2) ne(2)]
  have mem: "last ?xs \<in> set db1 \<union> set db2" "last ?ys \<in> set db1 \<union> set db2"
    using ne set last_in_set by (metis UnI1, metis UnI2)
  have "row_text (last ?xs) = row_text (last ?ys)"
    by (rule inj_onD [OF assms(5)]) (use same x y mem in simp_all)
  then have "same_content (last ?xs) (last ?ys)" using row_text_inject x y mem assms(3) by simp
  then have "length ?xs = length ?ys" using x y by (simp add: same_content_def)
  then show ?thesis using chained_same [of mac, OF assms(4) chained] assms(3,5) same set by simp
qed

definition sample_mac :: "string \<Rightarrow> string" where
  "sample_mac x = take 64 (rev x @ replicate 64 (CHR ''0''))"

definition sample_row :: "js_record \<Rightarrow> AuditRow" where
  "sample_row p =
     (let r = \<lparr>auditEventId = ''a'', seq = 0, actor = ''u'', action = ''x'', entity = ''r1'', reason = ''why'', ts = 1,
        payload = p, prevHmac = GENESIS_HMAC, rowHmac = []\<rparr>
      in r\<lparr>rowHmac := sample_mac (row_text r)\<rparr>)"

theorem audit_tamper_evident_witness:
  "list_all2 same_content (listAudit None None [sample_row [(''k'', JNum 1), (''l'', JNull)]])
     (listAudit None None [sample_row [(''l'', JNull), (''k'', JNum 1)]])"
proof -
  let ?r = "sample_row [(''k'', JNum 1), (''l'', JNull)]" and ?s = "sample_row [(''l'', JNull), (''k'', JNum 1)]"
  have a: "verifyAuditChain (\<lambda>s. s) sample_mac None None [?r] = Inr ()" by code_simp
  have b: "verifyAuditChain (\<lambda>s. s) sample_mac None None [?s] = Inr ()" by code_simp
  have t: "row_text ?r = row_text ?s" by code_simp
  have h: "rowHmac ?r = rowHmac ?s" by code_simp
  show ?thesis
  proof (rule audit_tamper_evident [OF a b])
    show "\<forall>r \<in> set [?r] \<union> set [?s]. plain_row r" by (simp add: plain_row_def sample_row_def Let_def)
    show "map_option rowHmac (tail_row [?r]) = map_option rowHmac (tail_row [?s])" by (simp add: tail_row_def h)
  qed (simp_all add: sample_mac_def t inj_on_def)
qed

text \<open>What the chain cannot show is that its tail was cut: a table that verifies still verifies after every
  row from a number on has been deleted.\<close>

theorem audit_truncation_undetected:
  assumes "verifyAuditChain sha256 mac None None db = Inr ()"
  shows "verifyAuditChain sha256 mac None None (filter (\<lambda>r. seq r < k) db) = Inr ()"
  by (rule verify_sorted [OF verified_truncated [OF assms]])

theorem audit_truncation_undetected_witness:
  "verifyAuditChain (\<lambda>s. s) sample_mac None None (filter (\<lambda>r. seq r < 1) [sample_row []]) = Inr ()"
  by (rule audit_truncation_undetected) code_simp

text \<open>The encoder writes a payload property whose value is undefined into the hashed text, and the stored
  JSON drops it, so a log to which such an event was appended no longer verifies (with the identity as keyed
  hash, which has no collisions): the append succeeds and every later verification fails at that row.\<close>

theorem audit_undefined_breaks_chain:
  "(case appendAudit (\<lambda>s. s) [] ''a'' \<lparr>ev_actor = ''u'', ev_action = ''x'', ev_entity = ''r1'', ev_reason = ''why'',
       ev_ts = 1, ev_payload = Some [(''k'', JUndefined)]\<rparr> [] of
      Inl _ \<Rightarrow> False
    | Inr (row, db) \<Rightarrow> verifyAuditChain (\<lambda>s. s) (\<lambda>s. s) None None db =
        Inl (AuditChainError ''row_hmac mismatch at seq 0; content may have been tampered'' 0))"
  by code_simp

end
