(* ===== verification/Egress.thy ===== *)
theory Egress
  imports Json_Text
begin

text \<open>
  The egress broker (\<^verbatim>\<open>packages/egress-broker\<close>): a policy of allowed hosts and host suffixes is loaded from
  untrusted JSON (\<^verbatim>\<open>policy.ts\<close>), vendors have default allow-lists (\<^verbatim>\<open>allowlists.ts\<close>), and a local proxy
  (\<^verbatim>\<open>broker.ts\<close>) decides every CONNECT and plain HTTP request by it. Sockets are numbers; the URL parser is a
  parameter. The lemmas relate the textual suffix test to DNS labels, and the last section states what
  the proxy can reach.
\<close>

section \<open>Policies\<close>

record EgressPolicy =
  allowedHosts :: "string list"
  allowedHostSuffixes :: "string list"
  egressLogPath :: "string option"

datatype EgressPolicyViolation =
    NotAnObject
  | BadDefaultPolicy "js_value option"
  | HostsNotAnArray
  | HostNotAString js_value
  | InvalidHost string
  | SuffixesNotAnArray
  | SuffixNotAString js_value
  | InvalidSuffix string
  | BadLogPath
  | UnreadableFile string string
  | NotJson string string

definition dns_char :: "char \<Rightarrow> bool" where
  "dns_char c \<longleftrightarrow> of_char c \<in> {97..122 :: nat} \<union> {48..57}"

definition DNS_LABEL :: "string \<Rightarrow> bool" where
  "DNS_LABEL l \<longleftrightarrow> l \<noteq> [] \<and> dns_char (hd l) \<and> dns_char (last l) \<and> list_all (\<lambda>c. dns_char c \<or> c = CHR ''-'') l"

definition isValidHostname :: "string \<Rightarrow> bool" where
  "isValidHostname h \<longleftrightarrow>
     (if h = [] \<or> length h > 253 then False
      else if starts_with ''.'' h \<or> ends_with ''.'' h then False
      else list_all (\<lambda>label. label \<noteq> [] \<and> length label \<le> 63 \<and> DNS_LABEL label) (split_on (CHR ''.'') h))"

definition isValidSuffix :: "string \<Rightarrow> bool" where
  "isValidSuffix s \<longleftrightarrow> (if \<not> starts_with ''.'' s then False else isValidHostname (tl s))"

text \<open>One loop of the loader: entries are checked, lower-cased and kept once.\<close>

fun load_entries ::
  "(string \<Rightarrow> bool) \<Rightarrow> (js_value \<Rightarrow> EgressPolicyViolation) \<Rightarrow> (string \<Rightarrow> EgressPolicyViolation) \<Rightarrow>
    string list \<Rightarrow> js_value list \<Rightarrow> EgressPolicyViolation + string list" where
  "load_entries valid notString invalid acc [] = Inr acc"
| "load_entries valid notString invalid acc (v # vs) =
     (case v of
        JStr h \<Rightarrow>
          let normalized = to_lower h
          in if \<not> valid normalized then Inl (invalid h)
             else if normalized \<in> set acc then load_entries valid notString invalid acc vs
             else load_entries valid notString invalid (acc @ [normalized]) vs
      | _ \<Rightarrow> Inl (notString v))"

definition array_or_empty :: "EgressPolicyViolation \<Rightarrow> js_value option \<Rightarrow> EgressPolicyViolation + js_value list" where
  "array_or_empty notArray v =
     (case v of None \<Rightarrow> Inr [] | Some JNull \<Rightarrow> Inr [] | Some JUndefined \<Rightarrow> Inr []
      | Some (JArr vs) \<Rightarrow> Inr vs | Some _ \<Rightarrow> Inl notArray)"

definition load_log_path :: "js_value option \<Rightarrow> EgressPolicyViolation + string option" where
  "load_log_path v =
     (case v of None \<Rightarrow> Inr None | Some JNull \<Rightarrow> Inr None | Some JUndefined \<Rightarrow> Inr None
      | Some (JStr s) \<Rightarrow> if s = [] then Inl BadLogPath else Inr (Some s)
      | Some _ \<Rightarrow> Inl BadLogPath)"

definition own_props :: "js_value \<Rightarrow> js_record option" where
  "own_props raw = (case raw of JObj kvs \<Rightarrow> Some kvs | JDate \<Rightarrow> Some [] | JMapSet \<Rightarrow> Some [] | _ \<Rightarrow> None)"

definition loadEgressPolicy :: "js_value \<Rightarrow> EgressPolicyViolation + EgressPolicy" where
  "loadEgressPolicy raw =
     (case own_props raw of
        None \<Rightarrow> Inl NotAnObject
      | Some obj \<Rightarrow>
          if map_of obj ''defaultPolicy'' \<noteq> Some (JStr ''deny'') then Inl (BadDefaultPolicy (map_of obj ''defaultPolicy''))
          else bind_result (array_or_empty HostsNotAnArray (map_of obj ''allowedHosts'')) (\<lambda>rawHosts.
               bind_result (load_entries isValidHostname HostNotAString InvalidHost [] rawHosts) (\<lambda>hosts.
               bind_result (array_or_empty SuffixesNotAnArray (map_of obj ''allowedHostSuffixes'')) (\<lambda>rawSuffixes.
               bind_result (load_entries isValidSuffix SuffixNotAString InvalidSuffix [] rawSuffixes) (\<lambda>suffixes.
               map_result (\<lambda>logPath. \<lparr>allowedHosts = hosts, allowedHostSuffixes = suffixes, egressLogPath = logPath\<rparr>)
                 (load_log_path (map_of obj ''egressLogPath'')))))))"

text \<open>Reading the file and parsing its text are parameters.\<close>

definition loadEgressPolicyFromFile ::
  "(string \<Rightarrow> string + string) \<Rightarrow> (string \<Rightarrow> string + js_value) \<Rightarrow> string \<Rightarrow> EgressPolicyViolation + EgressPolicy" where
  "loadEgressPolicyFromFile readFileSync parseJson path =
     (case readFileSync path of
        Inl cause \<Rightarrow> Inl (UnreadableFile path cause)
      | Inr txt \<Rightarrow> (case parseJson txt of Inl cause \<Rightarrow> Inl (NotJson path cause) | Inr parsed \<Rightarrow> loadEgressPolicy parsed))"

definition policyFromAllowlist :: "string list \<Rightarrow> string list \<Rightarrow> EgressPolicyViolation + EgressPolicy" where
  "policyFromAllowlist hosts suffixes =
     loadEgressPolicy (JObj [(''defaultPolicy'', JStr ''deny''), (''allowedHosts'', JArr (map JStr hosts)),
       (''allowedHostSuffixes'', JArr (map JStr suffixes))])"

definition normalizeHost :: "string \<Rightarrow> string" where
  "normalizeHost host =
     (if host = [] then []
      else let out1 = to_lower (trim host);
               out2 = (if starts_with ''['' out1 \<and> ends_with '']'' out1 then tl (butlast out1) else out1)
           in if ends_with ''.'' out2 then butlast out2 else out2)"

definition matchHost :: "EgressPolicy \<Rightarrow> string \<Rightarrow> bool" where
  "matchHost policy host =
     (let target = normalizeHost host
      in if target = [] then False
         else list_ex (\<lambda>allowed. allowed = target) (allowedHosts policy) \<or>
              list_ex (\<lambda>suffix. ends_with suffix target \<or> target = tl suffix) (allowedHostSuffixes policy))"

section \<open>Default allow-lists\<close>

datatype VendorId = anthropic | openai | cursor | gemini | amp | pi | opencode

record VendorAllowlist =
  vendorHosts :: "string list"
  vendorSuffixes :: "string list"

definition ANTHROPIC :: VendorAllowlist where
  "ANTHROPIC = \<lparr>vendorHosts = [''api.anthropic.com''], vendorSuffixes = []\<rparr>"

definition OPENAI :: VendorAllowlist where
  "OPENAI = \<lparr>vendorHosts = [''api.openai.com''], vendorSuffixes = []\<rparr>"

definition CURSOR :: VendorAllowlist where
  "CURSOR = \<lparr>vendorHosts = [''cursor.com'', ''api.cursor.com'', ''api2.cursor.sh''], vendorSuffixes = []\<rparr>"

definition GEMINI :: VendorAllowlist where
  "GEMINI = \<lparr>vendorHosts = [''generativelanguage.googleapis.com'', ''oauth2.googleapis.com'', ''accounts.google.com''],
     vendorSuffixes = []\<rparr>"

definition AMP :: VendorAllowlist where
  "AMP = \<lparr>vendorHosts = [''ampcode.com''], vendorSuffixes = [''.ampcode.com'']\<rparr>"

definition FIREWORKS :: VendorAllowlist where
  "FIREWORKS = \<lparr>vendorHosts = [], vendorSuffixes = [''.fireworks.ai'']\<rparr>"

fun add_unseen :: "string list \<Rightarrow> string list \<Rightarrow> string list" where
  "add_unseen acc [] = acc"
| "add_unseen acc (h # hs) = add_unseen (if to_lower h \<in> to_lower ` set acc then acc else acc @ [h]) hs"

definition union_lists :: "VendorAllowlist list \<Rightarrow> VendorAllowlist" where
  "union_lists ls =
     fold (\<lambda>l acc. \<lparr>vendorHosts = add_unseen (vendorHosts acc) (vendorHosts l),
                     vendorSuffixes = add_unseen (vendorSuffixes acc) (vendorSuffixes l)\<rparr>)
       ls \<lparr>vendorHosts = [], vendorSuffixes = []\<rparr>"

fun DEFAULT_ALLOWLISTS :: "VendorId \<Rightarrow> VendorAllowlist" where
  "DEFAULT_ALLOWLISTS anthropic = ANTHROPIC"
| "DEFAULT_ALLOWLISTS openai = OPENAI"
| "DEFAULT_ALLOWLISTS cursor = CURSOR"
| "DEFAULT_ALLOWLISTS gemini = GEMINI"
| "DEFAULT_ALLOWLISTS amp = AMP"
| "DEFAULT_ALLOWLISTS pi = union_lists [ANTHROPIC, OPENAI, GEMINI, FIREWORKS]"
| "DEFAULT_ALLOWLISTS opencode = union_lists [ANTHROPIC, OPENAI, GEMINI]"

section \<open>Targets of a request\<close>

text \<open>\<open>Number.parseInt\<close> with radix 10: leading space, a sign, and the longest run of digits.\<close>

definition js_digit :: "char \<Rightarrow> bool" where
  "js_digit c \<longleftrightarrow> of_char c \<in> {48..57 :: nat}"

definition digits_value :: "string \<Rightarrow> int option" where
  "digits_value s = (let ds = takeWhile js_digit s in if ds = [] then None else Some (int (read_nat 0 ds)))"

definition parseInt :: "string \<Rightarrow> int option" where
  "parseInt s =
     (case dropWhile js_space s of
        [] \<Rightarrow> None
      | c # cs \<Rightarrow> if c = CHR ''-'' then map_option uminus (digits_value cs)
                   else if c = CHR ''+'' then digits_value cs
                   else digits_value (c # cs))"

definition port_of :: "string \<Rightarrow> int option" where
  "port_of s = (case parseInt s of None \<Rightarrow> None | Some p \<Rightarrow> if p \<le> 0 \<or> p > 65535 then None else Some p)"

definition parseConnectTarget :: "string \<Rightarrow> (string \<times> int) option" where
  "parseConnectTarget raw =
     (if raw = [] then None
      else if starts_with ''['' raw then
        (if CHR '']'' \<notin> set raw then None
         else let host = takeWhile (\<lambda>c. c \<noteq> CHR '']'') (tl raw);
                  rest = tl (dropWhile (\<lambda>c. c \<noteq> CHR '']'') raw)
              in if \<not> starts_with '':'' rest then None
                 else map_option (\<lambda>p. (host, p)) (port_of (tl rest)))
      else if CHR '':'' \<notin> set raw then None
      else let portRaw = rev (takeWhile (\<lambda>c. c \<noteq> CHR '':'') (rev raw));
               host = take (length raw - length portRaw - 1) raw
           in case port_of portRaw of None \<Rightarrow> None | Some p \<Rightarrow> if host = [] then None else Some (host, p))"

record parsed_url =
  protocol :: string
  hostname :: string
  url_port :: string
  pathname :: string
  search :: string

definition parseProxyRequestUrl ::
  "(string \<Rightarrow> parsed_url option) \<Rightarrow> string \<Rightarrow> (string \<times> int option \<times> string \<times> string) option" where
  "parseProxyRequestUrl parseUrl raw =
     (if raw = [] then None
      else case parseUrl raw of
          None \<Rightarrow> None
        | Some url \<Rightarrow>
            if protocol url \<noteq> ''http:'' \<and> protocol url \<noteq> ''https:'' then None
            else let path = (if pathname url = [] then ''/'' else pathname url)
                 in if url_port url = [] then Some (hostname url, None, path, search url)
                    else (case port_of (url_port url) of
                        None \<Rightarrow> None
                      | Some p \<Rightarrow> Some (hostname url, Some p, path, search url)))"

section \<open>The broker\<close>

datatype proxy_method = CONNECT | HTTP

datatype EgressDenyReason = host_not_allowlisted | invalid_target | method_rejected

datatype EgressEvent =
    EgressDenied (ev_ts: int) (ev_method: proxy_method) (ev_target: string) (ev_host: string) (ev_port: "int option")
      EgressDenyReason (ev_addr: "string option")
  | EgressAllowed (ev_ts: int) (ev_method: proxy_method) (ev_host: string) (ev_port: "int option") (ev_addr: "string option")

text \<open>What leaves the machine: a tunnel to a host, or a request forwarded with its headers.\<close>

datatype upstream =
    Tunnel (up_host: string) (up_port: int)
  | Forward (up_host: string) (up_port: int) string string "(string \<times> string) list"

datatype reply = Forbidden EgressDenyReason | Proxied

type_synonym socket = nat

record Broker =
  policy :: EgressPolicy
  boundPort :: int
  listening :: bool
  activeTunnels :: "socket list"
  destroyed :: "socket list"
  emitted :: "EgressEvent list"
  audit :: "EgressEvent list"
  contacted :: "upstream list"
  replies :: "reply list"

definition createEgressBroker :: "EgressPolicy \<Rightarrow> Broker" where
  "createEgressBroker p = \<lparr>policy = p, boundPort = 0, listening = False, activeTunnels = [], destroyed = [], emitted = [],
     audit = [], contacted = [], replies = []\<rparr>"

definition emit :: "EgressEvent \<Rightarrow> Broker \<Rightarrow> Broker" where
  "emit ev b = b\<lparr>emitted := emitted b @ [ev], audit := audit b @ (if egressLogPath (policy b) = None then [] else [ev])\<rparr>"

definition deny :: "EgressEvent \<Rightarrow> EgressDenyReason \<Rightarrow> Broker \<Rightarrow> Broker" where
  "deny ev why b = (emit ev b)\<lparr>replies := replies b @ [Forbidden why]\<rparr>"

definition onConnect :: "int \<Rightarrow> string \<Rightarrow> string option \<Rightarrow> socket \<Rightarrow> socket \<Rightarrow> Broker \<Rightarrow> Broker" where
  "onConnect now rawTarget clientAddr clientSocket upstreamSocket b =
     (case parseConnectTarget rawTarget of
        None \<Rightarrow> deny (EgressDenied now CONNECT rawTarget [] None invalid_target clientAddr) invalid_target b
      | Some (host, port) \<Rightarrow>
          if \<not> matchHost (policy b) host then
            deny (EgressDenied now CONNECT rawTarget host (Some port) host_not_allowlisted clientAddr) host_not_allowlisted b
          else (emit (EgressAllowed now CONNECT host (Some port) clientAddr) b)
            \<lparr>contacted := contacted b @ [Tunnel host port], replies := replies b @ [Proxied],
             activeTunnels := List.insert clientSocket (List.insert upstreamSocket (activeTunnels b))\<rparr>)"

definition forward_headers :: "(string \<times> string option) list \<Rightarrow> (string \<times> string) list" where
  "forward_headers hs =
     concat (map (\<lambda>(k, v). case v of None \<Rightarrow> []
       | Some x \<Rightarrow> if to_lower k \<in> {''proxy-connection'', ''proxy-authorization''} then [] else [(k, x)]) hs)"

definition onRequest ::
  "(string \<Rightarrow> parsed_url option) \<Rightarrow> int \<Rightarrow> string \<Rightarrow> string \<Rightarrow> (string \<times> string option) list \<Rightarrow> string option \<Rightarrow> Broker \<Rightarrow> Broker" where
  "onRequest parseUrl now meth rawTarget headers clientAddr b =
     (case parseProxyRequestUrl parseUrl rawTarget of
        None \<Rightarrow> deny (EgressDenied now HTTP rawTarget [] None invalid_target clientAddr) invalid_target b
      | Some (host, port, path, query) \<Rightarrow>
          if \<not> matchHost (policy b) host then
            deny (EgressDenied now HTTP rawTarget host port host_not_allowlisted clientAddr) host_not_allowlisted b
          else (emit (EgressAllowed now HTTP host port clientAddr) b)
            \<lparr>contacted := contacted b @
               [Forward host (case port of None \<Rightarrow> 80 | Some p \<Rightarrow> p) meth (path @ query) (forward_headers headers)],
             replies := replies b @ [Proxied]\<rparr>)"

text \<open>A tunnel's sockets stop being tracked when one of them closes.\<close>

definition tunnel_cleanup :: "socket \<Rightarrow> socket \<Rightarrow> Broker \<Rightarrow> Broker" where
  "tunnel_cleanup upstreamSocket clientSocket b =
     b\<lparr>activeTunnels := filter (\<lambda>s. s \<noteq> upstreamSocket \<and> s \<noteq> clientSocket) (activeTunnels b)\<rparr>"

definition start :: "string + int \<Rightarrow> Broker \<Rightarrow> string + Broker" where
  "start listenResult b =
     (if listening b \<and> boundPort b > 0 then Inr b
      else map_result (\<lambda>p. b\<lparr>boundPort := p, listening := True\<rparr>) listenResult)"

definition shutdown :: "Broker \<Rightarrow> Broker" where
  "shutdown b =
     (if \<not> listening b then b
      else b\<lparr>destroyed := destroyed b @ activeTunnels b, activeTunnels := [], listening := False, boundPort := 0\<rparr>)"

section \<open>Loaded policies\<close>

definition keep_new :: "string list \<Rightarrow> string list \<Rightarrow> string list" where
  "keep_new acc xs = fold (\<lambda>x a. if x \<in> set a then a else a @ [x]) xs acc"

lemma keep_new_simps [simp]:
  "keep_new acc [] = acc" "keep_new acc (x # xs) = keep_new (if x \<in> set acc then acc else acc @ [x]) xs"
  by (simp_all add: keep_new_def)

lemma set_keep_new: "set (keep_new acc xs) = set acc \<union> set xs"
  by (induction xs arbitrary: acc) auto

lemma distinct_keep_new: "distinct acc \<Longrightarrow> distinct (keep_new acc xs)"
  by (induction xs arbitrary: acc) auto

lemma keep_new_distinct: "distinct (acc @ xs) \<Longrightarrow> keep_new acc xs = acc @ xs"
  by (induction xs arbitrary: acc) auto

lemma load_entries_Inr [result_simps]:
  "load_entries valid notString invalid acc vs = Inr out \<longleftrightarrow>
     (\<exists>hs. vs = map JStr hs \<and> (\<forall>h \<in> set hs. valid (to_lower h)) \<and> out = keep_new acc (map to_lower hs))"
proof (induction vs arbitrary: acc)
  case (Cons v vs)
  have not_str: "v # vs \<noteq> map JStr hs" if "\<nexists>h. v = JStr h" for hs using that by (cases hs) auto
  show ?case
  proof (cases "\<exists>h. v = JStr h")
    case False
    with not_str show ?thesis by (cases v) auto
  next
    case True
    then obtain h where v: "v = JStr h" by blast
    have "(\<exists>hs. v # vs = map JStr hs \<and> Q hs) \<longleftrightarrow> (\<exists>hs. vs = map JStr hs \<and> Q (h # hs))" for Q
      using v by (metis (no_types, opaque_lifting) Cons_eq_map_conv jsval.inject(3) list.simps(9))
    with v Cons.IH show ?thesis by (simp add: Let_def)
  qed
qed auto

definition loaded_wf :: "EgressPolicy \<Rightarrow> bool" where
  "loaded_wf p \<longleftrightarrow>
     distinct (allowedHosts p) \<and> (\<forall>h \<in> set (allowedHosts p). isValidHostname h \<and> to_lower h = h) \<and>
     distinct (allowedHostSuffixes p) \<and> (\<forall>s \<in> set (allowedHostSuffixes p). isValidSuffix s \<and> to_lower s = s) \<and>
     egressLogPath p \<noteq> Some []"

definition policy_json :: "EgressPolicy \<Rightarrow> js_value" where
  "policy_json p = JObj ([(''defaultPolicy'', JStr ''deny''), (''allowedHosts'', JArr (map JStr (allowedHosts p))),
     (''allowedHostSuffixes'', JArr (map JStr (allowedHostSuffixes p)))] @
     (case egressLogPath p of None \<Rightarrow> [] | Some path \<Rightarrow> [(''egressLogPath'', JStr path)]))"

text \<open>The strings an entry of the raw policy lists.\<close>

definition listed :: "js_value \<Rightarrow> string \<Rightarrow> string set" where
  "listed raw k = (case own_props raw of None \<Rightarrow> {} | Some obj \<Rightarrow>
     (case map_of obj k of Some (JArr vs) \<Rightarrow> {h. JStr h \<in> set vs} | _ \<Rightarrow> {}))"

lemma array_or_empty_Inr [result_simps]:
  "array_or_empty e v = Inr vs \<longleftrightarrow> v = Some (JArr vs) \<or> (v \<in> {None, Some JNull, Some JUndefined} \<and> vs = [])"
  by (auto simp: array_or_empty_def split: option.splits jsval.splits)

lemma load_log_path_Inr [result_simps]:
  "load_log_path v = Inr q \<longleftrightarrow>
     (\<exists>s. v = Some (JStr s) \<and> s \<noteq> [] \<and> q = Some s) \<or> (v \<in> {None, Some JNull, Some JUndefined} \<and> q = None)"
  by (auto simp: load_log_path_def split: option.splits jsval.splits if_splits)

lemma load_parts:
  assumes "loadEgressPolicy raw = Inr p"
  obtains obj hs ss where "own_props raw = Some obj"
    "array_or_empty HostsNotAnArray (map_of obj ''allowedHosts'') = Inr (map JStr hs)"
    "\<forall>h \<in> set hs. isValidHostname (to_lower h)" "allowedHosts p = keep_new [] (map to_lower hs)"
    "array_or_empty SuffixesNotAnArray (map_of obj ''allowedHostSuffixes'') = Inr (map JStr ss)"
    "\<forall>s \<in> set ss. isValidSuffix (to_lower s)" "allowedHostSuffixes p = keep_new [] (map to_lower ss)"
    "load_log_path (map_of obj ''egressLogPath'') = Inr (egressLogPath p)"
proof -
  obtain obj where obj: "own_props raw = Some obj" using assms by (cases "own_props raw") (auto simp: loadEgressPolicy_def)
  with assms obtain vs ws hosts suffixes q where
      "array_or_empty HostsNotAnArray (map_of obj ''allowedHosts'') = Inr vs"
      "load_entries isValidHostname HostNotAString InvalidHost [] vs = Inr hosts"
      "array_or_empty SuffixesNotAnArray (map_of obj ''allowedHostSuffixes'') = Inr ws"
      "load_entries isValidSuffix SuffixNotAString InvalidSuffix [] ws = Inr suffixes"
      "load_log_path (map_of obj ''egressLogPath'') = Inr q"
      "p = \<lparr>allowedHosts = hosts, allowedHostSuffixes = suffixes, egressLogPath = q\<rparr>"
    by (auto simp: loadEgressPolicy_def bind_result_Inr map_result_Inr split: if_splits)
  then show ?thesis using obj that by (auto simp: load_entries_Inr)
qed

lemma loaded_is_wf:
  assumes "loadEgressPolicy raw = Inr p"
  shows "loaded_wf p"
  by (rule load_parts [OF assms]) (auto simp: loaded_wf_def set_keep_new distinct_keep_new load_log_path_Inr)

lemma load_listed:
  assumes "loadEgressPolicy raw = Inr p"
  shows "set (allowedHosts p) = to_lower ` listed raw ''allowedHosts'' \<and>
    set (allowedHostSuffixes p) = to_lower ` listed raw ''allowedHostSuffixes''"
proof (rule load_parts [OF assms])
  fix obj hs ss
  assume obj: "own_props raw = Some obj"
    and h: "array_or_empty HostsNotAnArray (map_of obj ''allowedHosts'') = Inr (map JStr hs)" "allowedHosts p = keep_new [] (map to_lower hs)"
    and s: "array_or_empty SuffixesNotAnArray (map_of obj ''allowedHostSuffixes'') = Inr (map JStr ss)"
      "allowedHostSuffixes p = keep_new [] (map to_lower ss)"
  have "listed raw k = set xs" if "array_or_empty e (map_of obj k) = Inr (map JStr xs)" for k e xs
    using that obj by (auto simp: listed_def array_or_empty_Inr)
  from this [OF h(1)] this [OF s(1)] show ?thesis by (simp add: h(2) s(2) set_keep_new)
qed

lemma reload:
  assumes "loaded_wf p"
  shows "loadEgressPolicy (policy_json p) = Inr p"
proof -
  have entries: "load_entries valid notString invalid [] (map JStr hs) = Inr hs"
    if "distinct hs" "\<forall>h \<in> set hs. valid h \<and> to_lower h = h" for valid notString invalid hs
  proof -
    have "map to_lower hs = hs" using that(2) by (simp add: map_idI)
    with that keep_new_distinct [of "[]" hs] show ?thesis by (auto simp: load_entries_Inr)
  qed
  show ?thesis
    using assms unfolding loaded_wf_def
    by (cases "egressLogPath p") (simp_all add: loadEgressPolicy_def policy_json_def own_props_def array_or_empty_def entries
      load_log_path_def map_result_def)
qed

section \<open>Zones\<close>

text \<open>A host lies in a zone when its labels end in the labels of the zone.\<close>

definition in_zone :: "string \<Rightarrow> string \<Rightarrow> bool" where
  "in_zone z t \<longleftrightarrow> (\<exists>ls. split_on (CHR ''.'') t = ls @ split_on (CHR ''.'') z)"

lemma in_zone_text: "in_zone z t \<longleftrightarrow> ends_with (CHR ''.'' # z) t \<or> t = z"
proof
  assume "in_zone z t"
  then obtain ls where ls: "split_on (CHR ''.'') t = ls @ split_on (CHR ''.'') z" by (auto simp: in_zone_def)
  then have "t = join_with ''.'' (ls @ split_on (CHR ''.'') z)" by (metis join_split)
  then show "ends_with (CHR ''.'' # z) t \<or> t = z"
    by (cases "ls = []") (auto simp: join_with_append join_split ends_with_iff)
next
  assume "ends_with (CHR ''.'' # z) t \<or> t = z"
  then consider a where "t = a @ CHR ''.'' # z" | "t = z" by (auto simp: ends_with_iff)
  then show "in_zone z t" by cases (auto simp: in_zone_def split_on_at)
qed

definition permitted :: "EgressPolicy \<Rightarrow> string \<Rightarrow> bool" where
  "permitted p t \<longleftrightarrow> t \<in> set (allowedHosts p) \<or> (\<exists>z. CHR ''.'' # z \<in> set (allowedHostSuffixes p) \<and> in_zone z t)"

lemma valid_not_empty: "\<not> isValidHostname []"
  by (simp add: isValidHostname_def)

lemma matchHost_permitted:
  assumes "loaded_wf p"
  shows "matchHost p host \<longleftrightarrow> permitted p (normalizeHost host)"
proof -
  let ?t = "normalizeHost host"
  have suffix: "\<exists>z. s = CHR ''.'' # z \<and> z \<noteq> []" if "s \<in> set (allowedHostSuffixes p)" for s
  proof -
    have "starts_with ''.'' s" "isValidHostname (tl s)"
      using that assms by (auto simp: loaded_wf_def isValidSuffix_def split: if_splits)
    then obtain z where z: "s = CHR ''.'' # z" by (auto simp: starts_with_iff)
    with \<open>isValidHostname (tl s)\<close> have "z \<noteq> []" using valid_not_empty by (cases z) simp_all
    with z show ?thesis by blast
  qed
  have "\<not> permitted p []"
  proof
    assume "permitted p []"
    then consider "[] \<in> set (allowedHosts p)" | z where "CHR ''.'' # z \<in> set (allowedHostSuffixes p)" "in_zone z []"
      by (auto simp: permitted_def)
    then show False
    proof cases
      case 1
      then show ?thesis using assms valid_not_empty by (auto simp: loaded_wf_def)
    next
      case 2
      then show ?thesis using suffix [OF 2(1)] by (auto simp: in_zone_text ends_with_iff)
    qed
  qed
  moreover have "list_ex (\<lambda>s. ends_with s ?t \<or> ?t = tl s) (allowedHostSuffixes p) \<longleftrightarrow>
      (\<exists>z. CHR ''.'' # z \<in> set (allowedHostSuffixes p) \<and> in_zone z ?t)"
    unfolding list_ex_iff in_zone_text using suffix by (metis list.sel(3))
  ultimately show ?thesis by (auto simp: matchHost_def permitted_def list_ex_iff Let_def)
qed

section \<open>Runs of the broker\<close>

datatype broker_op =
    Connect int string "string option" socket socket
  | Request int string string "(string \<times> string option) list" "string option"
  | TunnelClosed socket socket
  | Start "string + int"
  | Shutdown

fun broker_step :: "(string \<Rightarrow> parsed_url option) \<Rightarrow> broker_op \<Rightarrow> Broker \<Rightarrow> Broker" where
  "broker_step parseUrl (Connect now rawTarget addr c u) b = onConnect now rawTarget addr c u b"
| "broker_step parseUrl (Request now meth rawTarget headers addr) b = onRequest parseUrl now meth rawTarget headers addr b"
| "broker_step parseUrl (TunnelClosed u c) b = tunnel_cleanup u c b"
| "broker_step parseUrl (Start r) b = (case start r b of Inl _ \<Rightarrow> b | Inr b' \<Rightarrow> b')"
| "broker_step parseUrl Shutdown b = shutdown b"

fun is_request :: "broker_op \<Rightarrow> bool" where
  "is_request (Connect _ _ _ _ _) = True"
| "is_request (Request _ _ _ _ _) = True"
| "is_request _ = False"

fun event_reply :: "EgressEvent \<Rightarrow> reply" where
  "event_reply (EgressDenied _ _ _ _ _ why _) = Forbidden why"
| "event_reply (EgressAllowed _ _ _ _ _) = Proxied"

fun allowed_host :: "EgressEvent \<Rightarrow> string list" where
  "allowed_host (EgressDenied _ _ _ _ _ _ _) = []"
| "allowed_host (EgressAllowed _ _ host _ _) = [host]"

fun clean_forward :: "upstream \<Rightarrow> bool" where
  "clean_forward (Tunnel _ _) = True"
| "clean_forward (Forward _ _ _ _ headers) = (\<forall>kv \<in> set headers. to_lower (fst kv) \<notin> {''proxy-connection'', ''proxy-authorization''})"

definition broker_inv :: "EgressPolicy \<Rightarrow> Broker \<Rightarrow> bool" where
  "broker_inv p b \<longleftrightarrow> policy b = p \<and>
     (\<forall>u \<in> set (contacted b). matchHost p (up_host u) \<and> clean_forward u) \<and>
     map up_host (contacted b) = concat (map allowed_host (emitted b)) \<and>
     replies b = map event_reply (emitted b) \<and> audit b = (if egressLogPath p = None then [] else emitted b)"

lemma forward_headers_clean:
  "kv \<in> set (forward_headers hs) \<Longrightarrow> to_lower (fst kv) \<notin> {''proxy-connection'', ''proxy-authorization''}"
  by (induction hs) (auto simp: forward_headers_def split: option.splits if_splits)

lemma onConnect_inv: "broker_inv p b \<Longrightarrow> broker_inv p (onConnect now rawTarget addr c u b)"
  by (auto simp: broker_inv_def onConnect_def deny_def emit_def split: option.splits)

lemma onRequest_inv: "broker_inv p b \<Longrightarrow> broker_inv p (onRequest parseUrl now meth rawTarget headers addr b)"
  by (auto simp: broker_inv_def onRequest_def deny_def emit_def dest: forward_headers_clean split: option.splits)

lemma broker_step_inv: "broker_inv p b \<Longrightarrow> broker_inv p (broker_step parseUrl op b)"
proof (cases op)
  case (Start r)
  assume "broker_inv p b"
  with Start show ?thesis by (cases r) (auto simp: broker_inv_def start_def map_result_def)
qed (auto simp: onConnect_inv onRequest_inv, auto simp: broker_inv_def tunnel_cleanup_def shutdown_def)

interpretation broker_run: stepping "broker_step parseUrl" "broker_inv p"
  for parseUrl p
  by unfold_locales (rule broker_step_inv)

lemma emitted_step: "length (emitted (broker_step parseUrl op b)) = length (emitted b) + (if is_request op then 1 else 0)"
proof (cases op)
  case (Start r)
  then show ?thesis by (cases r) (auto simp: start_def map_result_def)
qed (auto simp: onConnect_def onRequest_def deny_def emit_def tunnel_cleanup_def shutdown_def split: option.splits)

lemma emitted_run: "length (emitted (fold (broker_step parseUrl) ops b)) = length (emitted b) + length (filter is_request ops)"
  by (induction ops arbitrary: b) (simp_all add: emitted_step)

section \<open>Properties\<close>

text \<open>C32: the broker reaches only what its policy lists. Over every run of a broker whose policy was loaded from
  JSON, whatever requests arrive, the normalized name of every host it opens a tunnel to or forwards a
  request to is listed literally, or its DNS labels end in the labels of a listed suffix; no forwarded
  request carries a proxy header. Every request is answered by exactly one decision, in order, refusals
  reach no host, and with a log path the audit log holds exactly these decisions.\<close>

theorem broker_confines:
  assumes "loadEgressPolicy raw = Inr p" and "b = fold (broker_step parseUrl) ops (createEgressBroker p)"
  shows "(\<forall>u \<in> set (contacted b). permitted p (normalizeHost (up_host u)) \<and> clean_forward u) \<and>
    length (emitted b) = length (filter is_request ops) \<and> replies b = map event_reply (emitted b) \<and>
    map up_host (contacted b) = concat (map allowed_host (emitted b)) \<and>
    audit b = (if egressLogPath p = None then [] else emitted b)"
proof -
  have "broker_inv p (createEgressBroker p)" by (simp add: broker_inv_def createEgressBroker_def)
  then have "broker_inv p b" unfolding assms(2) by (rule broker_run.run_inv)
  moreover have "length (emitted b) = length (filter is_request ops)"
    unfolding assms(2) emitted_run by (simp add: createEgressBroker_def)
  ultimately show ?thesis
    using matchHost_permitted [OF loaded_is_wf [OF assms(1)]] by (simp add: broker_inv_def)
qed

definition sample_policy :: js_value where
  "sample_policy = JObj [(''defaultPolicy'', JStr ''deny''), (''allowedHosts'', JArr [JStr ''API.a.com'']),
     (''allowedHostSuffixes'', JArr [JStr ''.b.ai''])]"

lemma sample_policy_loads:
  "loadEgressPolicy sample_policy =
     Inr \<lparr>allowedHosts = [''api.a.com''], allowedHostSuffixes = [''.b.ai''], egressLogPath = None\<rparr>"
  by code_simp

theorem broker_confines_witness:
  "let b = fold (broker_step (\<lambda>_. None)) [Connect 1 ''x.B.ai:443'' None 7 8, Connect 2 ''evilb.ai:443'' None 9 10]
       (createEgressBroker \<lparr>allowedHosts = [''api.a.com''], allowedHostSuffixes = [''.b.ai''], egressLogPath = None\<rparr>)
   in map up_host (contacted b) = [''x.B.ai''] \<and> length (emitted b) = 2"
proof -
  let ?ops = "[Connect 1 ''x.B.ai:443'' None 7 8, Connect 2 ''evilb.ai:443'' None 9 10]"
  let ?b = "fold (broker_step (\<lambda>_. None)) ?ops
       (createEgressBroker \<lparr>allowedHosts = [''api.a.com''], allowedHostSuffixes = [''.b.ai''], egressLogPath = None\<rparr>)"
  have "map up_host (contacted ?b) = [''x.B.ai'']" by code_simp
  moreover have "length (emitted ?b) = length (filter is_request ?ops)"
    using broker_confines [OF sample_policy_loads refl, where ops = ?ops and parseUrl = "\<lambda>_. None"] by argo
  ultimately show ?thesis by simp
qed

text \<open>Loading a policy. A loaded policy lists exactly the hosts and suffixes of the JSON object in lower case,
  each once and each a valid name; printing it and loading it again gives it back; and a host matches it
  exactly when its normalized name is listed or lies, label by label, in a listed zone, so
  \<open>evilfireworks.ai\<close> is not in the zone \<open>.fireworks.ai\<close> while \<open>fireworks.ai\<close> is.\<close>

theorem loadEgressPolicy_exact:
  assumes "loadEgressPolicy raw = Inr p"
  shows "set (allowedHosts p) = to_lower ` listed raw ''allowedHosts'' \<and>
    set (allowedHostSuffixes p) = to_lower ` listed raw ''allowedHostSuffixes'' \<and>
    distinct (allowedHosts p) \<and> distinct (allowedHostSuffixes p) \<and>
    loadEgressPolicy (policy_json p) = Inr p \<and>
    (\<forall>host. matchHost p host \<longleftrightarrow> permitted p (normalizeHost host))"
  using load_listed [OF assms] loaded_is_wf [OF assms] reload matchHost_permitted by (simp add: loaded_wf_def)

theorem loadEgressPolicy_exact_witness:
  "loadEgressPolicy (policy_json \<lparr>allowedHosts = [''api.a.com''], allowedHostSuffixes = [''.b.ai''], egressLogPath = None\<rparr>) =
     Inr \<lparr>allowedHosts = [''api.a.com''], allowedHostSuffixes = [''.b.ai''], egressLogPath = None\<rparr>"
  using loadEgressPolicy_exact [OF sample_policy_loads] by argo

text \<open>What the two composed allow-lists hold.\<close>

lemma union_lists_values:
  "union_lists [ANTHROPIC, OPENAI, GEMINI] =
     \<lparr>vendorHosts = vendorHosts ANTHROPIC @ vendorHosts OPENAI @ vendorHosts GEMINI, vendorSuffixes = []\<rparr>"
  "union_lists [ANTHROPIC, OPENAI, GEMINI, FIREWORKS] =
     \<lparr>vendorHosts = vendorHosts ANTHROPIC @ vendorHosts OPENAI @ vendorHosts GEMINI, vendorSuffixes = [''.fireworks.ai'']\<rparr>"
  by code_simp+

end
