(* ===== verification/Watchdog_Signals.thy ===== *)
theory Watchdog_Signals
  imports Json_Text "HOL-Library.AList"
begin

text \<open>
  The four signals of the watchdog (\<^verbatim>\<open>packages/watchdog/src/signals\<close>, with \<^verbatim>\<open>types.ts\<close> and \<^verbatim>\<open>canonicalize.ts\<close>):
  pure evaluators over the tables of runs and events. Times are integers in milliseconds, dollars and
  medians rationals. An event row carries its payload parsed, \<open>None\<close> when the text is not JSON. The
  structured detail of an observation is kept, the sentence made from it is not. The secret redactor and
  the digest are parameters.
\<close>

section \<open>Types\<close>

datatype Confidence = High | Medium | Low | Unknown

datatype SignalKind = checkpoint_lag | no_write_activity | cost_velocity | tool_loop

datatype detail =
    LagUnknown (gapMs: int) (floorMs: int) (priorCheckpoints: nat) (referenceTs: int)
  | LagDetail (gapMs: int) (thresholdMs: rat) (medianMs: rat) (priorCheckpoints: nat) (referenceTs: int)
  | WriteUnknown (writeThresholdMs: int) (lastEventAt: int) (detailVendor: "string option")
  | WriteDetail (writeThresholdMs: int) (lastEventAt: int) (lastWriteAt: "int option") (lastTurnEndAt: "int option") "string list"
  | CostSubscription (roleKey: string) (multiplierUsed: rat)
  | CostUnknown (roleKey: string) (runUsd: rat) (priorSampleSize: nat) (priorMaxUsd: rat) (multiplierUsed: rat)
  | CostDetail (roleKey: string) (runUsd: rat) (priorMedianUsd: rat) (priorSampleSize: nat) (multiplierUsed: rat)
  | LoopDetail (loopTool: string) (loopHash: string) (consecutiveCount: nat) (firstSeq: int) (lastSeq: int) (lastTsWall: int)

record Observation =
  signal :: SignalKind
  runId :: string
  vendor :: "string option"
  role :: "string option"
  confidence :: Confidence
  fired_at :: int
  detail :: detail

record WatchdogConfig =
  checkpointLagFloorMs :: int
  checkpointMinSampleSize :: nat
  noWriteActivityThresholdMs :: int
  costVelocityMinSampleSize :: nat
  costVelocityMultiplier :: rat
  toolLoopConsecutiveThreshold :: nat
  agreementWindowMs :: int
  writeToolAllowlist :: "(string \<times> string list) list"

definition DEFAULT_WATCHDOG_CONFIG :: WatchdogConfig where
  "DEFAULT_WATCHDOG_CONFIG = \<lparr>checkpointLagFloorMs = 20 * 60 * 1000, checkpointMinSampleSize = 10,
     noWriteActivityThresholdMs = 15 * 60 * 1000, costVelocityMinSampleSize = 5, costVelocityMultiplier = 4,
     toolLoopConsecutiveThreshold = 3, agreementWindowMs = 10 * 60 * 1000,
     writeToolAllowlist = [(''claude'', [''Edit'', ''Write'', ''Bash'']), (''codex'', [''apply_patch'', ''shell''])]\<rparr>"

section \<open>The tables the signals read\<close>

record RunMetaRow =
  run_id :: string
  run_role :: "string option"
  run_vendor :: "string option"
  run_status :: string

record EventRow =
  event_run :: string
  event_seq :: int
  event_kind :: string
  ts_wall :: int
  event_payload :: "rat jsval option"

record WatchdogDb =
  runs :: "RunMetaRow list"
  events :: "EventRow list"

definition active_runs :: "WatchdogDb \<Rightarrow> RunMetaRow list" where
  "active_runs db = filter (\<lambda>r. run_status r \<notin> {''completed'', ''failed''}) (runs db)"

definition run_events :: "WatchdogDb \<Rightarrow> string \<Rightarrow> string list \<Rightarrow> EventRow list" where
  "run_events db rid kinds = sort_key event_seq (filter (\<lambda>e. event_run e = rid \<and> event_kind e \<in> set kinds) (events db))"

definition last_event_ts :: "WatchdogDb \<Rightarrow> string \<Rightarrow> int option" where
  "last_event_ts db rid =
     (case map ts_wall (filter (\<lambda>e. event_run e = rid) (events db)) of [] \<Rightarrow> None | t # ts \<Rightarrow> Some (fold max ts t))"

section \<open>Checkpoint lag\<close>

definition median :: "rat list \<Rightarrow> rat" where
  "median values =
     (if values = [] then 0
      else let sorted = sort values; mid = length sorted div 2
           in if length sorted mod 2 = 1 then sorted ! mid else (sorted ! (mid - 1) + sorted ! mid) / 2)"

fun intervals :: "int list \<Rightarrow> rat list" where
  "intervals (a # b # ts) = of_int (b - a) # intervals (b # ts)"
| "intervals _ = []"

definition evaluateRunCheckpointLag ::
  "string \<Rightarrow> string option \<Rightarrow> string option \<Rightarrow> int list \<Rightarrow> int \<Rightarrow> WatchdogConfig \<Rightarrow> int option \<Rightarrow> Observation option" where
  "evaluateRunCheckpointLag rid rl vnd checkpointTimestamps now config lastEventTs =
     (case lastEventTs of
        None \<Rightarrow> None
      | Some lastTs \<Rightarrow>
          let count = length checkpointTimestamps;
              reference = (if count = 0 then lastTs else last checkpointTimestamps);
              gap = now - reference;
              obs = \<lparr>signal = checkpoint_lag, runId = rid, vendor = vnd, role = rl, confidence = Unknown, fired_at = now,
                     detail = LagUnknown gap (checkpointLagFloorMs config) count reference\<rparr>
          in if count < checkpointMinSampleSize config then
               (if gap < checkpointLagFloorMs config then None else Some obs)
             else let med = median (intervals checkpointTimestamps);
                      threshold = max (of_int (checkpointLagFloorMs config)) (3 * med)
                  in if of_int gap < threshold then None
                     else Some (obs\<lparr>confidence := Medium, detail := LagDetail gap threshold med count reference\<rparr>))"

definition evaluateCheckpointLag :: "WatchdogDb \<Rightarrow> int \<Rightarrow> WatchdogConfig \<Rightarrow> Observation list" where
  "evaluateCheckpointLag db now config =
     List.map_filter (\<lambda>r. evaluateRunCheckpointLag (run_id r) (run_role r) (run_vendor r)
       (map ts_wall (run_events db (run_id r) [''checkpoint''])) now config (last_event_ts db (run_id r))) (active_runs db)"

section \<open>No write activity\<close>

fun tool_name :: "rat jsval \<Rightarrow> string option" where
  "tool_name (JObj kvs) = (case map_of kvs ''tool'' of Some (JStr s) \<Rightarrow> Some s | _ \<Rightarrow> None)"
| "tool_name _ = None"

definition extractToolName :: "rat jsval option \<Rightarrow> string option" where
  "extractToolName payload = Option.bind payload tool_name"

definition later :: "int option \<Rightarrow> int \<Rightarrow> int option" where
  "later t x = (case t of None \<Rightarrow> Some x | Some y \<Rightarrow> if x > y then Some x else Some y)"

fun scan_activity ::
  "string list \<Rightarrow> (string \<times> int \<times> string option) list \<Rightarrow> int option \<times> int option \<times> bool \<Rightarrow> int option \<times> int option \<times> bool" where
  "scan_activity allow [] s = s"
| "scan_activity allow ((kind, t, tool) # evs) (lastWrite, lastTurn, anyWrite) =
     scan_activity allow evs
       (if kind = ''tool_call'' then
          (case tool of
             Some n \<Rightarrow> if n \<in> set allow then (later lastWrite t, lastTurn, True) else (lastWrite, lastTurn, anyWrite)
           | None \<Rightarrow> (lastWrite, lastTurn, anyWrite))
        else if kind = ''turn_end'' then (lastWrite, later lastTurn t, anyWrite)
        else (lastWrite, lastTurn, anyWrite))"

definition or_zero :: "int option \<Rightarrow> int" where
  "or_zero t = (case t of None \<Rightarrow> 0 | Some x \<Rightarrow> x)"

definition evaluateRunNoWriteActivity ::
  "string \<Rightarrow> string option \<Rightarrow> string option \<Rightarrow> int \<Rightarrow> WatchdogConfig \<Rightarrow> (string \<times> int \<times> string option) list \<Rightarrow> int option \<Rightarrow>
    Observation option" where
  "evaluateRunNoWriteActivity rid rl vnd now config evs lastEventTs =
     (case lastEventTs of
        None \<Rightarrow> None
      | Some lastTs \<Rightarrow>
          let threshold = noWriteActivityThresholdMs config;
              cutoff = now - threshold;
              obs = \<lparr>signal = no_write_activity, runId = rid, vendor = vnd, role = rl, confidence = Unknown, fired_at = now,
                     detail = WriteUnknown threshold lastTs vnd\<rparr>
          in case vnd of
               None \<Rightarrow> if lastTs > cutoff then None else Some obs
             | Some v \<Rightarrow>
                 (case map_of (writeToolAllowlist config) v of
                    None \<Rightarrow> if lastTs > cutoff then None else Some obs
                  | Some allowlist \<Rightarrow>
                      if allowlist = [] then (if lastTs > cutoff then None else Some obs)
                      else (case scan_activity allowlist evs (None, None, False) of
                          (lastQualifyingWriteTs, lastTurnEndTs, anyPriorWrite) \<Rightarrow>
                            if max (or_zero lastQualifyingWriteTs) (or_zero lastTurnEndTs) > cutoff then None
                            else Some (obs\<lparr>confidence := (if anyPriorWrite then Medium else Low),
                              detail := WriteDetail threshold lastTs lastQualifyingWriteTs lastTurnEndTs allowlist\<rparr>))))"

definition evaluateNoWriteActivity :: "WatchdogDb \<Rightarrow> int \<Rightarrow> WatchdogConfig \<Rightarrow> Observation list" where
  "evaluateNoWriteActivity db now config =
     List.map_filter (\<lambda>r.
       let rows = run_events db (run_id r) [''tool_call'', ''turn_end''];
           evs = map (\<lambda>e. (event_kind e, ts_wall e,
             if event_kind e = ''tool_call'' then extractToolName (event_payload e) else None)) rows;
           lastTs = (case map ts_wall rows of [] \<Rightarrow> last_event_ts db (run_id r) | t # ts \<Rightarrow> Some (fold max ts t))
       in evaluateRunNoWriteActivity (run_id r) (run_role r) (run_vendor r) now config evs lastTs) (active_runs db)"

section \<open>Cost velocity\<close>

record CostEventRow =
  cost_run :: string
  cost_confidence :: "string option"
  cost_source :: "string option"
  cost_usd :: "rat option"

record RunCostTally =
  tally_run :: string
  budgetBearingUsd :: "rat option"
  subscriptionOnly :: bool

record cost_bucket =
  bucket_usd :: rat
  anyBudgetBearing :: bool
  anyNonSubscription :: bool
  anySubscription :: bool

definition tally_row :: "CostEventRow \<Rightarrow> cost_bucket \<Rightarrow> cost_bucket" where
  "tally_row row b =
     (let b1 = (if cost_source row = Some ''subscription'' then b\<lparr>anySubscription := True\<rparr> else b\<lparr>anyNonSubscription := True\<rparr>)
      in case cost_usd row of
           Some u \<Rightarrow> if cost_confidence row \<in> {Some ''exact'', Some ''estimate''}
                     then b1\<lparr>bucket_usd := bucket_usd b1 + u, anyBudgetBearing := True\<rparr> else b1
         | None \<Rightarrow> b1)"

definition empty_bucket :: cost_bucket where
  "empty_bucket = \<lparr>bucket_usd = 0, anyBudgetBearing = False, anyNonSubscription = False, anySubscription = False\<rparr>"

definition tallyRuns :: "CostEventRow list \<Rightarrow> RunCostTally list" where
  "tallyRuns rows =
     map (\<lambda>(rid, b). \<lparr>tally_run = rid, budgetBearingUsd = (if anyBudgetBearing b then Some (bucket_usd b) else None),
                       subscriptionOnly = (anySubscription b \<and> \<not> anyNonSubscription b)\<rparr>)
       (fold (\<lambda>row m. AList.update (cost_run row)
          (tally_row row (case map_of m (cost_run row) of None \<Rightarrow> empty_bucket | Some b \<Rightarrow> b)) m) rows [])"

definition roleKeyOf :: "RunMetaRow \<Rightarrow> string" where
  "roleKeyOf meta =
     (if run_role meta \<notin> {None, Some []} then ''role:'' @ the (run_role meta)
      else if run_vendor meta \<notin> {None, Some []} then ''vendor:'' @ the (run_vendor meta)
      else ''__unknown__'')"

definition prior_usds :: "RunCostTally list \<Rightarrow> (string \<rightharpoonup> RunMetaRow) \<Rightarrow> string \<Rightarrow> string \<Rightarrow> rat list" where
  "prior_usds tallies runMetas key excludeRunId =
     List.map_filter (\<lambda>t.
       if tally_run t = excludeRunId then None
       else case runMetas (tally_run t) of
           None \<Rightarrow> None
         | Some meta \<Rightarrow> if roleKeyOf meta \<noteq> key then None else budgetBearingUsd t) tallies"

definition medianForRole ::
  "RunCostTally list \<Rightarrow> (string \<rightharpoonup> RunMetaRow) \<Rightarrow> string \<Rightarrow> string \<Rightarrow> rat list \<times> rat" where
  "medianForRole tallies runMetas key excludeRunId =
     (let usds = prior_usds tallies runMetas key excludeRunId in (usds, median usds))"

definition evaluate_tally ::
  "RunCostTally list \<Rightarrow> (string \<rightharpoonup> RunMetaRow) \<Rightarrow> int \<Rightarrow> WatchdogConfig \<Rightarrow> RunCostTally \<Rightarrow> Observation option" where
  "evaluate_tally tallies runMetas now config tally =
     (case runMetas (tally_run tally) of
        None \<Rightarrow> None
      | Some meta \<Rightarrow>
          let key = roleKeyOf meta;
              k = costVelocityMultiplier config;
              obs = \<lparr>signal = cost_velocity, runId = tally_run tally, vendor = run_vendor meta, role = run_role meta,
                     confidence = Unknown, fired_at = now, detail = CostSubscription key k\<rparr>
          in if subscriptionOnly tally then Some obs
             else case budgetBearingUsd tally of
                 None \<Rightarrow> None
               | Some usd \<Rightarrow>
                   if usd \<le> 0 then None
                   else case medianForRole tallies runMetas key (tally_run tally) of
                       (usds, med) \<Rightarrow>
                         if length usds < costVelocityMinSampleSize config then
                           (case usds of
                              [] \<Rightarrow> None
                            | u # us \<Rightarrow>
                                let priorMax = fold max us u
                                in if usd \<le> priorMax * k then None
                                   else Some (obs\<lparr>detail := CostUnknown key usd (length usds) priorMax k\<rparr>))
                         else if usd > k * med then
                           Some (obs\<lparr>confidence := Medium, detail := CostDetail key usd med (length usds) k\<rparr>)
                         else None)"

text \<open>SQLite's \<open>json_extract\<close> of a field: text, numbers and booleans (as 0 and 1) come out, anything else is not used
  here. It raises on text that is not JSON.\<close>

definition payload_field :: "rat jsval \<Rightarrow> string \<Rightarrow> rat jsval option" where
  "payload_field p k = (case p of JObj kvs \<Rightarrow> map_of kvs k | _ \<Rightarrow> None)"

definition extract_text :: "rat jsval option \<Rightarrow> string option" where
  "extract_text v = (case v of Some (JStr s) \<Rightarrow> Some s | _ \<Rightarrow> None)"

definition extract_number :: "rat jsval option \<Rightarrow> rat option" where
  "extract_number v = (case v of Some (JNum n) \<Rightarrow> Some n | Some (JBool b) \<Rightarrow> Some (if b then 1 else 0) | _ \<Rightarrow> None)"

definition cost_row :: "EventRow \<Rightarrow> string + CostEventRow" where
  "cost_row e =
     (case event_payload e of
        None \<Rightarrow> Inl ''malformed JSON''
      | Some p \<Rightarrow> Inr \<lparr>cost_run = event_run e, cost_confidence = extract_text (payload_field p ''confidence''),
                      cost_source = extract_text (payload_field p ''source''), cost_usd = extract_number (payload_field p ''usd'')\<rparr>)"

definition all_cost_rows :: "WatchdogDb \<Rightarrow> string + CostEventRow list" where
  "all_cost_rows db = seq_results (map cost_row (filter (\<lambda>e. event_kind e = ''cost'') (events db)))"

definition evaluateCostVelocity :: "WatchdogDb \<Rightarrow> int \<Rightarrow> WatchdogConfig \<Rightarrow> string + Observation list" where
  "evaluateCostVelocity db now config =
     map_result (\<lambda>costRows.
       let runMetas = map_of (rev (map (\<lambda>r. (run_id r, r)) (runs db)));
           tallies = tallyRuns costRows
       in List.map_filter (evaluate_tally tallies runMetas now config) tallies) (all_cost_rows db)"

section \<open>Tool loop\<close>

text \<open>Canonical arguments: white space in strings is collapsed, keys are sorted, and what is not JSON becomes
  null. A JavaScript object enumerates integer-like keys first, in numeric order.\<close>

definition ascii_space :: "char \<Rightarrow> bool" where
  "ascii_space c \<longleftrightarrow> of_char c \<in> {32, 9, 10, 13 :: nat}"

fun squeeze :: "bool \<Rightarrow> string \<Rightarrow> string" where
  "squeeze inRun [] = []"
| "squeeze inRun (c # cs) =
     (if ascii_space c then (if inRun then squeeze True cs else CHR '' '' # squeeze True cs) else c # squeeze False cs)"

definition collapseWhitespace :: "string \<Rightarrow> string" where
  "collapseWhitespace s = trim (squeeze False s)"

function normalizeValue :: "'n jsval \<Rightarrow> 'n jsval" where
  "normalizeValue JUndefined = JNull"
| "normalizeValue JNull = JNull"
| "normalizeValue (JStr s) = JStr (collapseWhitespace s)"
| "normalizeValue (JNum n) = JNum n"
| "normalizeValue (JBool b) = JBool b"
| "normalizeValue (JArr vs) = JArr (map (\<lambda>v. normalizeValue v) vs)"
| "normalizeValue (JObj kvs) = JObj (sort_key fst (map (\<lambda>kv. (fst kv, normalizeValue (snd kv))) kvs))"
| "normalizeValue JDate = JObj []"
| "normalizeValue JMapSet = JObj []"
| "normalizeValue JFunction = JNull"
| "normalizeValue JSymbol = JNull"
| "normalizeValue JBigInt = JNull"
  by pat_completeness auto
termination
  by (relation "measure size") (auto dest: jsval_size_arr jsval_size_obj simp del: jsval.size)

definition index_key :: "string \<Rightarrow> bool" where
  "index_key k \<longleftrightarrow> k \<noteq> [] \<and> list_all (\<lambda>c. of_char c \<in> {48..57 :: nat}) k \<and> read_nat 0 k < 4294967295 \<and> show_nat (read_nat 0 k) = k"

definition own_order :: "(string \<times> 'a) list \<Rightarrow> (string \<times> 'a) list" where
  "own_order kvs = sort_key (\<lambda>kv. read_nat 0 (fst kv)) (filter (\<lambda>kv. index_key (fst kv)) kvs) @ filter (\<lambda>kv. \<not> index_key (fst kv)) kvs"

text \<open>\<open>JSON.stringify\<close> on the values \<open>normalizeValue\<close> returns.\<close>

function stringify :: "('n \<Rightarrow> string) \<Rightarrow> 'n jsval \<Rightarrow> string" where
  "stringify numStr JNull = ''null''"
| "stringify numStr (JBool b) = (if b then ''true'' else ''false'')"
| "stringify numStr (JNum n) = numStr n"
| "stringify numStr (JStr s) = json_quote s"
| "stringify numStr (JArr vs) = ''['' @ join_with '','' (map (\<lambda>v. stringify numStr v) vs) @ '']''"
| "stringify numStr (JObj kvs) =
     ''{'' @ join_with '','' (map (\<lambda>kt. json_quote (fst kt) @ '':'' @ snd kt)
       (own_order (map (\<lambda>kv. (fst kv, stringify numStr (snd kv))) kvs))) @ ''}''"
| "stringify numStr JUndefined = ''null''"
| "stringify numStr JFunction = ''null''"
| "stringify numStr JSymbol = ''null''"
| "stringify numStr JBigInt = ''null''"
| "stringify numStr JDate = ''{}''"
| "stringify numStr JMapSet = ''{}''"
  by pat_completeness auto
termination
  by (relation "measure (\<lambda>(_, v). size v)") (auto dest: jsval_size_arr jsval_size_obj simp del: jsval.size)

record hashing =
  redact :: "string \<Rightarrow> string"
  sha256Hex :: "string \<Rightarrow> string"
  numText :: "rat \<Rightarrow> string"

definition canonicalizeArgs :: "hashing \<Rightarrow> rat jsval \<Rightarrow> string" where
  "canonicalizeArgs h args = collapseWhitespace (redact h (stringify (numText h) (normalizeValue args)))"

record NormalizedToolCall =
  call_seq :: int
  call_ts :: int
  call_tool :: string
  argsHash :: string

text \<open>A payload that is the JSON text \<open>null\<close> has no properties to read: the access throws.\<close>

definition normalize :: "hashing \<Rightarrow> EventRow \<Rightarrow> string + NormalizedToolCall option" where
  "normalize h row =
     (case event_payload row of
        None \<Rightarrow> Inr None
      | Some JNull \<Rightarrow> Inl ''TypeError: null is not an object''
      | Some p \<Rightarrow>
          (case tool_name p of
             None \<Rightarrow> Inr None
           | Some t \<Rightarrow>
               if t = [] then Inr None
               else let args = (case payload_field p ''args'' of None \<Rightarrow> JNull | Some JUndefined \<Rightarrow> JNull | Some a \<Rightarrow> a)
                    in Inr (Some \<lparr>call_seq = event_seq row, call_ts = ts_wall row, call_tool = t,
                              argsHash = sha256Hex h (canonicalizeArgs h args)\<rparr>)))"

text \<open>The index walk from the end of the list.\<close>

function trailing_loop :: "NormalizedToolCall list \<Rightarrow> NormalizedToolCall \<Rightarrow> nat \<Rightarrow> nat \<Rightarrow> nat \<times> nat" where
  "trailing_loop calls final i len =
     (if i = 0 then (len, i)
      else if call_tool (calls ! (i - 1)) = call_tool final \<and> argsHash (calls ! (i - 1)) = argsHash final
      then trailing_loop calls final (i - 1) (len + 1)
      else (len, i))"
  by pat_completeness auto
termination
  by (relation "measure (\<lambda>(_, _, i, _). i)") auto

declare trailing_loop.simps [simp del]

definition trailingRun :: "NormalizedToolCall list \<Rightarrow> (nat \<times> nat \<times> nat) option" where
  "trailingRun calls =
     (if calls = [] then None
      else case trailing_loop calls (last calls) (length calls - 1) 1 of
          (lengthSoFar, startIdx) \<Rightarrow> Some (lengthSoFar, startIdx, length calls - 1))"

definition evaluateRunToolLoop ::
  "string \<Rightarrow> string option \<Rightarrow> string option \<Rightarrow> NormalizedToolCall list \<Rightarrow> int \<Rightarrow> WatchdogConfig \<Rightarrow> Observation option" where
  "evaluateRunToolLoop rid rl vnd calls now config =
     (case trailingRun calls of
        None \<Rightarrow> None
      | Some (lengthSoFar, startIdx, endIdx) \<Rightarrow>
          let threshold = toolLoopConsecutiveThreshold config; final = calls ! endIdx
          in if lengthSoFar < threshold then None
             else Some \<lparr>signal = tool_loop, runId = rid, vendor = vnd, role = rl,
               confidence = (if lengthSoFar \<ge> threshold * 2 then High else Medium), fired_at = now,
               detail = LoopDetail (call_tool final) (argsHash final) lengthSoFar (call_seq (calls ! startIdx))
                 (call_seq final) (call_ts final)\<rparr>)"

text \<open>The last sequence number reported for a run, tool and hash.\<close>

type_synonym ToolLoopDedupState = "string \<rightharpoonup> string"

definition shouldEmit :: "Observation \<Rightarrow> ToolLoopDedupState \<Rightarrow> bool \<times> ToolLoopDedupState" where
  "shouldEmit obs dedup =
     (if signal obs \<noteq> tool_loop then (True, dedup)
      else case detail obs of
          LoopDetail t h n fs ls ts \<Rightarrow>
            let key = runId obs @ ''|'' @ t @ ''|'' @ h; v = show_int ls
            in if dedup key = Some v then (False, dedup) else (True, dedup(key \<mapsto> v))
        | _ \<Rightarrow>
            let key = runId obs @ ''||''; v = show_int (- 1)
            in if dedup key = Some v then (False, dedup) else (True, dedup(key \<mapsto> v)))"

fun tool_loop_runs ::
  "hashing \<Rightarrow> WatchdogDb \<Rightarrow> int \<Rightarrow> WatchdogConfig \<Rightarrow> RunMetaRow list \<Rightarrow> ToolLoopDedupState \<Rightarrow>
    string + Observation list \<times> ToolLoopDedupState" where
  "tool_loop_runs h db now config [] dedup = Inr ([], dedup)"
| "tool_loop_runs h db now config (r # rs) dedup =
     bind_result (seq_results (map (normalize h) (run_events db (run_id r) [''tool_call'']))) (\<lambda>ns.
       case evaluateRunToolLoop (run_id r) (run_role r) (run_vendor r) (List.map_filter id ns) now config of
         None \<Rightarrow> tool_loop_runs h db now config rs dedup
       | Some obs \<Rightarrow>
           (case shouldEmit obs dedup of
              (emits, dedup') \<Rightarrow>
                map_result (\<lambda>(out, d). (if emits then obs # out else out, d)) (tool_loop_runs h db now config rs dedup')))"

definition evaluateToolLoop ::
  "hashing \<Rightarrow> WatchdogDb \<Rightarrow> int \<Rightarrow> WatchdogConfig \<Rightarrow> ToolLoopDedupState \<Rightarrow> string + Observation list \<times> ToolLoopDedupState" where
  "evaluateToolLoop h db now config dedup = tool_loop_runs h db now config (active_runs db) dedup"

section \<open>The median splits the sample\<close>

text \<open>At least half of the values lie on each side of the median.\<close>

lemma median_correct:
  assumes "xs \<noteq> []"
  shows "length xs \<le> 2 * length (filter (\<lambda>x. x \<le> median xs) xs) \<and> length xs \<le> 2 * length (filter (\<lambda>x. median xs \<le> x) xs)"
proof -
  let ?s = "sort xs" and ?m = "length xs div 2"
  have len: "length ?s = length xs" by simp
  have mid: "?m < length xs" using assms by simp
  have sorted: "?s ! i \<le> ?s ! j" if "i \<le> j" "j < length xs" for i j using that by (simp add: sorted_nth_mono)
  have count: "length (filter P xs) = length (filter P ?s)" for P :: "rat \<Rightarrow> bool"
    by (metis length_sort filter_sort)
  have low: "k \<le> length (filter P ?s)" if "k \<le> length xs" "\<And>i. i < k \<Longrightarrow> P (?s ! i)" for k and P :: "rat \<Rightarrow> bool"
  proof -
    have "filter P (take k ?s) = take k ?s" using that by (auto simp: filter_id_conv in_set_conv_nth)
    then have "filter P ?s = take k ?s @ filter P (drop k ?s)" by (metis append_take_drop_id filter_append)
    then show ?thesis using that(1) by simp
  qed
  have high: "length xs - k \<le> length (filter P ?s)" if "\<And>i. k \<le> i \<Longrightarrow> i < length xs \<Longrightarrow> P (?s ! i)" for k and P :: "rat \<Rightarrow> bool"
  proof -
    have "filter P (drop k ?s) = drop k ?s" using that by (auto simp: filter_id_conv in_set_conv_nth)
    then have "filter P ?s = filter P (take k ?s) @ drop k ?s" by (metis append_take_drop_id filter_append)
    then show ?thesis by simp
  qed
  show ?thesis
  proof (cases "length xs mod 2 = 1")
    case True
    then have med: "median xs = ?s ! ?m" using assms by (simp add: median_def Let_def)
    have "Suc ?m \<le> length (filter (\<lambda>x. x \<le> median xs) ?s)" using mid sorted by (intro low) (auto simp: med)
    moreover have "length xs - ?m \<le> length (filter (\<lambda>x. median xs \<le> x) ?s)" using sorted by (intro high) (auto simp: med)
    ultimately show ?thesis unfolding count by presburger
  next
    case False
    then have even: "length xs = 2 * ?m" by presburger
    have pos: "0 < ?m" using even assms by (cases "?m = 0") auto
    have med: "median xs = (?s ! (?m - 1) + ?s ! ?m) / 2" using assms False by (simp add: median_def Let_def)
    have between: "?s ! (?m - 1) \<le> median xs" "median xs \<le> ?s ! ?m"
      using sorted [of "?m - 1" ?m] mid by (simp_all add: med field_simps)
    have "?m \<le> length (filter (\<lambda>x. x \<le> median xs) ?s)"
    proof (rule low)
      fix i assume "i < ?m"
      then have "?s ! i \<le> ?s ! (?m - 1)" using mid by (intro sorted) auto
      then show "?s ! i \<le> median xs" using between(1) by (rule order_trans)
    qed simp
    moreover have "length xs - ?m \<le> length (filter (\<lambda>x. median xs \<le> x) ?s)"
      using between(2) sorted by (intro high) (meson order_trans)
    ultimately show ?thesis unfolding count using even by presburger
  qed
qed

section \<open>The trailing run\<close>






section \<open>Properties\<close>



text \<open>The no-write signal reports a run that has just begun: a run of a known vendor whose only event, of any
  time up to now, is neither a write nor the end of a turn is reported with low confidence, without waiting
  for the threshold that the other branches of the signal check first.\<close>

theorem no_write_reports_fresh_run:
  assumes "noWriteActivityThresholdMs config \<le> now" and "map_of (writeToolAllowlist config) v = Some allow" and "allow \<noteq> []"
  shows "map_option confidence (evaluateRunNoWriteActivity rid rl (Some v) now config [] (Some now)) = Some Low"
  using assms by (simp add: evaluateRunNoWriteActivity_def Let_def or_zero_def)

theorem no_write_reports_fresh_run_witness:
  "map_option confidence (evaluateRunNoWriteActivity ''r'' None (Some ''claude'') 1700000000000 DEFAULT_WATCHDOG_CONFIG []
     (Some 1700000000000)) = Some Low"
  by (rule no_write_reports_fresh_run [where allow = "[''Edit'', ''Write'', ''Bash'']"]) (simp_all add: DEFAULT_WATCHDOG_CONFIG_def)

end
