(* ===== verification/Watchdog.thy ===== *)
theory Watchdog
  imports Watchdog_Signals "HOL-Library.Product_Lexorder"
begin

text \<open>
  The watchdog's decisions (\<^verbatim>\<open>packages/watchdog/src\<close>): the agreement buffer (\<^verbatim>\<open>agreement.ts\<close>) that turns two
  corroborating observations of a run into an alert, the tick (\<^verbatim>\<open>watchdog.ts\<close>) that feeds it from the four
  signals, and the CI tripwire (\<^verbatim>\<open>ci-tripwire.ts\<close>), which counts red builds per role. JavaScript maps are
  association lists in insertion order.
\<close>

section \<open>Signals in alphabetical order\<close>

fun signal_name :: "SignalKind \<Rightarrow> string" where
  "signal_name checkpoint_lag = ''checkpoint_lag''"
| "signal_name no_write_activity = ''no_write_activity''"
| "signal_name cost_velocity = ''cost_velocity''"
| "signal_name tool_loop = ''tool_loop''"

lemma signal_name_inject [simp]: "signal_name a = signal_name b \<longleftrightarrow> a = b"
  by (cases a; cases b) simp_all

instantiation SignalKind :: linorder
begin

definition less_eq_SignalKind :: "SignalKind \<Rightarrow> SignalKind \<Rightarrow> bool" where
  "less_eq_SignalKind a b \<longleftrightarrow> signal_name a \<le> signal_name b"

definition less_SignalKind :: "SignalKind \<Rightarrow> SignalKind \<Rightarrow> bool" where
  "less_SignalKind a b \<longleftrightarrow> signal_name a < signal_name b"

instance
  by standard (auto simp: less_eq_SignalKind_def less_SignalKind_def less_le dest: order.antisym)

end

section \<open>Agreement buffer\<close>

record WatchdogHint =
  hint_run :: string
  hint_signal :: SignalKind
  hint_confidence :: Confidence
  hint_at :: int
  hint_detail :: detail

record WatchdogAlert =
  alert_run :: string
  alert_vendor :: "string option"
  alert_role :: "string option"
  signals :: "SignalKind \<times> SignalKind"
  alert_confidence :: Confidence
  alert_at :: int
  alert_reason :: string
  observations :: "Observation \<times> Observation"

definition countsTowardAgreement :: "Confidence \<Rightarrow> bool" where
  "countsTowardAgreement c \<longleftrightarrow> c = Medium \<or> c = High"

definition strongerConfidence :: "Confidence \<Rightarrow> Confidence \<Rightarrow> Confidence" where
  "strongerConfidence a b =
     (if \<not> countsTowardAgreement a \<or> \<not> countsTowardAgreement b then Medium
      else if a = High \<or> b = High then High else Medium)"

definition sortedPair :: "SignalKind \<Rightarrow> SignalKind \<Rightarrow> SignalKind \<times> SignalKind" where
  "sortedPair a b = (if a < b then (a, b) else (b, a))"

record RunBucket =
  perSignal :: "(SignalKind \<times> Observation) list"
  alertedPairs :: "(SignalKind \<times> SignalKind) list"

record AgreementBuffer =
  windowMs :: int
  perRun :: "(string \<times> RunBucket) list"

definition toHint :: "Observation \<Rightarrow> WatchdogHint" where
  "toHint obs = \<lparr>hint_run = runId obs, hint_signal = signal obs, hint_confidence = confidence obs, hint_at = fired_at obs,
     hint_detail = detail obs\<rparr>"

definition first_some :: "'a option \<Rightarrow> 'a option \<Rightarrow> 'a option" where
  "first_some a b = (case a of None \<Rightarrow> b | Some _ \<Rightarrow> a)"

definition toAlert :: "Observation \<Rightarrow> Observation \<Rightarrow> WatchdogAlert" where
  "toAlert fresh prior =
     (let sigs = sortedPair (signal fresh) (signal prior)
      in \<lparr>alert_run = runId fresh, alert_vendor = first_some (vendor fresh) (vendor prior),
          alert_role = first_some (role fresh) (role prior), signals = sigs,
          alert_confidence = strongerConfidence (confidence fresh) (confidence prior),
          alert_at = max (fired_at fresh) (fired_at prior),
          alert_reason = ''Two signals agree: '' @ signal_name (fst sigs) @ '' + '' @ signal_name (snd sigs),
          observations = (if signal fresh = fst sigs then (fresh, prior) else (prior, fresh))\<rparr>)"

definition new_agreement :: "int \<Rightarrow> string + AgreementBuffer" where
  "new_agreement w = (if w \<le> 0 then Inl ''AgreementBuffer windowMs must be a positive number''
     else Inr \<lparr>windowMs = w, perRun = []\<rparr>)"

definition getOrCreateBucket :: "string \<Rightarrow> AgreementBuffer \<Rightarrow> RunBucket" where
  "getOrCreateBucket rid buf = (case map_of (perRun buf) rid of None \<Rightarrow> \<lparr>perSignal = [], alertedPairs = []\<rparr> | Some b \<Rightarrow> b)"

definition sweep_bucket :: "int \<Rightarrow> RunBucket \<Rightarrow> RunBucket" where
  "sweep_bucket cutoff b =
     (let expired = map fst (filter (\<lambda>so. fired_at (snd so) < cutoff) (perSignal b))
      in \<lparr>perSignal = filter (\<lambda>so. fst so \<notin> set expired) (perSignal b),
          alertedPairs = filter (\<lambda>p. fst p \<notin> set expired \<and> snd p \<notin> set expired) (alertedPairs b)\<rparr>)"

definition sweepRun :: "string \<Rightarrow> int \<Rightarrow> AgreementBuffer \<Rightarrow> AgreementBuffer" where
  "sweepRun rid now buf =
     (case map_of (perRun buf) rid of
        None \<Rightarrow> buf
      | Some b \<Rightarrow>
          let b' = sweep_bucket (now - windowMs buf) b
          in buf\<lparr>perRun := (if perSignal b' = [] \<and> alertedPairs b' = [] then AList.delete rid (perRun buf)
                            else AList.update rid b' (perRun buf))\<rparr>)"

definition find_partner :: "Observation \<Rightarrow> RunBucket \<Rightarrow> (SignalKind \<times> Observation) option" where
  "find_partner obs b =
     find (\<lambda>(sig, prior). sig \<noteq> signal obs \<and> countsTowardAgreement (confidence prior) \<and>
       sortedPair sig (signal obs) \<notin> set (alertedPairs b)) (perSignal b)"

definition ingest :: "Observation \<Rightarrow> AgreementBuffer \<Rightarrow> WatchdogHint \<times> WatchdogAlert option \<times> AgreementBuffer" where
  "ingest obs buf0 =
     (let buf = sweepRun (runId obs) (fired_at obs) buf0;
          b = getOrCreateBucket (runId obs) buf;
          stored = AList.update (signal obs) obs (perSignal b)
      in if \<not> countsTowardAgreement (confidence obs) then
           (toHint obs, None, buf\<lparr>perRun := AList.update (runId obs) (b\<lparr>perSignal := stored\<rparr>) (perRun buf)\<rparr>)
         else (case find_partner obs b of
             None \<Rightarrow> (toHint obs, None, buf\<lparr>perRun := AList.update (runId obs) (b\<lparr>perSignal := stored\<rparr>) (perRun buf)\<rparr>)
           | Some (sig, prior) \<Rightarrow>
               (toHint obs, Some (toAlert obs prior),
                buf\<lparr>perRun := AList.update (runId obs)
                  (b\<lparr>perSignal := stored, alertedPairs := alertedPairs b @ [sortedPair sig (signal obs)]\<rparr>) (perRun buf)\<rparr>)))"

definition sweep :: "int \<Rightarrow> AgreementBuffer \<Rightarrow> AgreementBuffer" where
  "sweep now buf = fold (\<lambda>rid. sweepRun rid now) (map fst (perRun buf)) buf"

section \<open>The tick\<close>

record WatchdogCiTripwire =
  wire_role :: string
  runIds :: "string list"
  wire_at :: int
  wire_threshold :: nat
  wire_reason :: string
  wire_detail :: js_record

datatype WatchdogEvent = HintEvent WatchdogHint | AlertEvent WatchdogAlert | TripwireEvent WatchdogCiTripwire

record WatchdogState =
  agreement :: AgreementBuffer
  toolLoopDedup :: ToolLoopDedupState

definition createWatchdogState :: "WatchdogConfig \<Rightarrow> string + WatchdogState" where
  "createWatchdogState config =
     map_result (\<lambda>buf. \<lparr>agreement = buf, toolLoopDedup = Map.empty\<rparr>) (new_agreement (agreementWindowMs config))"

fun signal_order :: "SignalKind \<Rightarrow> nat" where
  "signal_order checkpoint_lag = 0"
| "signal_order no_write_activity = 1"
| "signal_order cost_velocity = 2"
| "signal_order tool_loop = 3"

definition sortObservations :: "Observation list \<Rightarrow> Observation list" where
  "sortObservations obs = sort_key (\<lambda>o1. (signal_order (signal o1), runId o1, fired_at o1)) obs"

fun ingest_all :: "Observation list \<Rightarrow> AgreementBuffer \<Rightarrow> WatchdogEvent list \<times> AgreementBuffer" where
  "ingest_all [] buf = ([], buf)"
| "ingest_all (obs # rest) buf =
     (case ingest obs buf of
        (hint, alert, buf1) \<Rightarrow>
          (case ingest_all rest buf1 of
             (evs, buf2) \<Rightarrow> (HintEvent hint # (case alert of None \<Rightarrow> [] | Some a \<Rightarrow> [AlertEvent a]) @ evs, buf2)))"

text \<open>A tick in which an evaluator throws emits nothing.\<close>

definition runWatchdog ::
  "hashing \<Rightarrow> WatchdogDb \<Rightarrow> int \<Rightarrow> WatchdogConfig \<Rightarrow> WatchdogState \<Rightarrow> string + WatchdogEvent list \<times> WatchdogState" where
  "runWatchdog h db now config st =
     bind_result (evaluateCostVelocity db now config) (\<lambda>cost.
     map_result (\<lambda>(loops, dedup).
         case ingest_all (sortObservations (evaluateCheckpointLag db now config @ evaluateNoWriteActivity db now config @ cost @ loops))
           (agreement st) of
           (evs, buf) \<Rightarrow> (evs, \<lparr>agreement = sweep now buf, toolLoopDedup = dedup\<rparr>))
       (evaluateToolLoop h db now config (toolLoopDedup st)))"

section \<open>CI tripwire\<close>

datatype ci_status = red | green | unknown

record CiTripwireObservation =
  ci_role :: string
  status :: ci_status
  ci_run :: string
  ci_at :: int
  ci_detail :: "js_record option"

record RoleStreak =
  count :: nat
  streak_runs :: "string list"
  lastDetail :: js_record

definition fresh_streak :: RoleStreak where
  "fresh_streak = \<lparr>count = 0, streak_runs = [], lastDetail = []\<rparr>"

definition createCiTripwire :: "int option \<Rightarrow> string + nat" where
  "createCiTripwire threshold =
     (let n = (case threshold of None \<Rightarrow> 3 | Some n \<Rightarrow> n)
      in if n \<le> 0 then Inl ''CiTripwire threshold must be a positive integer'' else Inr (nat n))"

type_synonym tripwire = "(string \<times> RoleStreak) list"

definition get_streak :: "string \<Rightarrow> tripwire \<Rightarrow> RoleStreak" where
  "get_streak rl perRole = (case map_of perRole rl of None \<Rightarrow> fresh_streak | Some s \<Rightarrow> s)"

definition fire :: "nat \<Rightarrow> string \<Rightarrow> RoleStreak \<Rightarrow> int \<Rightarrow> WatchdogCiTripwire" where
  "fire threshold rl streak t = \<lparr>wire_role = rl, runIds = streak_runs streak, wire_at = t, wire_threshold = threshold,
     wire_reason = ''CI red streak: '' @ show_nat threshold @ '' consecutive failures for role '' @ rl,
     wire_detail = lastDetail streak\<rparr>"

definition observe :: "nat \<Rightarrow> CiTripwireObservation \<Rightarrow> tripwire \<Rightarrow> WatchdogCiTripwire option \<times> tripwire" where
  "observe threshold o1 perRole =
     (case status o1 of
        unknown \<Rightarrow> (None, perRole)
      | green \<Rightarrow> (None, AList.update (ci_role o1) fresh_streak perRole)
      | red \<Rightarrow>
          let s = get_streak (ci_role o1) perRole;
              s' = \<lparr>count = count s + 1, streak_runs = streak_runs s @ [ci_run o1],
                    lastDetail = (case ci_detail o1 of None \<Rightarrow> [] | Some d \<Rightarrow> d)\<rparr>
          in if count s' \<ge> threshold then (Some (fire threshold (ci_role o1) s' (ci_at o1)), AList.update (ci_role o1) fresh_streak perRole)
             else (None, AList.update (ci_role o1) s' perRole))"

definition reset :: "string option \<Rightarrow> tripwire \<Rightarrow> tripwire" where
  "reset rl perRole = (case rl of None \<Rightarrow> [] | Some r \<Rightarrow> AList.delete r perRole)"

definition snapshot :: "tripwire \<Rightarrow> (string \<times> nat \<times> string list) list" where
  "snapshot perRole = map (\<lambda>(r, s). (r, count s, streak_runs s)) perRole"

section \<open>Association lists\<close>

lemma in_update: "kv \<in> set (AList.update k v al) \<Longrightarrow> kv = (k, v) \<or> kv \<in> set al"
  by (induction al) (auto split: if_splits)

lemma in_delete: "kv \<in> set (AList.delete k al) \<Longrightarrow> kv \<in> set al"
  by (simp add: AList.delete_eq)

lemma map_of_update: "map_of (AList.update k v al) l = (if l = k then Some v else map_of al l)"
  by (simp add: update_conv)

lemma map_of_delete: "map_of (AList.delete k al) l = (if l = k then None else map_of al l)"
  by (simp add: delete_conv)

section \<open>Buckets after a sweep\<close>

lemma sweep_bucket_empty [simp]:
  "sweep_bucket c \<lparr>perSignal = [], alertedPairs = []\<rparr> = \<lparr>perSignal = [], alertedPairs = []\<rparr>"
  by (simp add: sweep_bucket_def)

lemma sweep_bucket_keeps:
  "so \<in> set (perSignal (sweep_bucket c b)) \<Longrightarrow> so \<in> set (perSignal b) \<and> c \<le> fired_at (snd so)"
  by (cases so) (force simp: sweep_bucket_def Let_def)

lemma sweep_bucket_idem: "sweep_bucket c (sweep_bucket c b) = sweep_bucket c b"
proof -
  have "filter (\<lambda>so. fired_at (snd so) < c) (perSignal (sweep_bucket c b)) = []"
    using sweep_bucket_keeps by (force simp: filter_empty_conv)
  then show ?thesis unfolding sweep_bucket_def [of c "sweep_bucket c b"] by simp
qed

lemma sweepRun_window [simp]: "windowMs (sweepRun rid now buf) = windowMs buf"
  by (simp add: sweepRun_def Let_def split: option.splits)

lemma sweepRun_bucket:
  "getOrCreateBucket r (sweepRun rid now buf) =
     (if r = rid then sweep_bucket (now - windowMs buf) (getOrCreateBucket r buf) else getOrCreateBucket r buf)"
proof (cases "map_of (perRun buf) rid")
  case None
  then show ?thesis by (simp add: sweepRun_def getOrCreateBucket_def)
next
  case (Some b)
  then show ?thesis
    by (auto simp: sweepRun_def getOrCreateBucket_def Let_def map_of_update map_of_delete intro: RunBucket.equality)
qed

lemma fold_sweep:
  "getOrCreateBucket r (fold (\<lambda>rid. sweepRun rid now) rids buf) =
     (if r \<in> set rids then sweep_bucket (now - windowMs buf) (getOrCreateBucket r buf) else getOrCreateBucket r buf) \<and>
   windowMs (fold (\<lambda>rid. sweepRun rid now) rids buf) = windowMs buf"
  by (induction rids arbitrary: buf) (auto simp: sweepRun_bucket sweep_bucket_idem)

lemma sweep_window [simp]: "windowMs (sweep now buf) = windowMs buf"
  using fold_sweep by (simp add: sweep_def)

lemma sweep_all_buckets: "getOrCreateBucket r (sweep now buf) = sweep_bucket (now - windowMs buf) (getOrCreateBucket r buf)"
proof (cases "r \<in> set (map fst (perRun buf))")
  case True
  then show ?thesis by (simp add: sweep_def fold_sweep)
next
  case False
  then have "map_of (perRun buf) r = None" by (simp add: map_of_eq_None_iff)
  then have "getOrCreateBucket r buf = \<lparr>perSignal = [], alertedPairs = []\<rparr>" by (simp add: getOrCreateBucket_def)
  with False show ?thesis by (simp add: sweep_def fold_sweep)
qed

section \<open>What the buffer holds\<close>

text \<open>Every stored observation was reported as a hint, is filed under its own run and signal, and is not newer
  than the current time.\<close>

definition buffer_ok :: "WatchdogHint set \<Rightarrow> int \<Rightarrow> AgreementBuffer \<Rightarrow> bool" where
  "buffer_ok H now buf \<longleftrightarrow>
     (\<forall>rid. \<forall>so \<in> set (perSignal (getOrCreateBucket rid buf)).
        signal (snd so) = fst so \<and> runId (snd so) = rid \<and> toHint (snd so) \<in> H \<and> fired_at (snd so) \<le> now)"

lemma buffer_ok_mono: "buffer_ok H now buf \<Longrightarrow> H \<subseteq> H' \<Longrightarrow> now \<le> now' \<Longrightarrow> buffer_ok H' now' buf"
  unfolding buffer_ok_def by (meson order_trans subsetD)

lemma buffer_ok_sweep: "buffer_ok H now buf \<Longrightarrow> buffer_ok H now (sweep t buf)"
  using sweep_bucket_keeps by (fastforce simp: buffer_ok_def sweep_all_buckets)

lemma buffer_ok_sweepRun: "buffer_ok H now buf \<Longrightarrow> buffer_ok H now (sweepRun rid t buf)"
  using sweep_bucket_keeps by (fastforce simp: buffer_ok_def sweepRun_bucket)

definition supports :: "int \<Rightarrow> WatchdogHint set \<Rightarrow> WatchdogAlert \<Rightarrow> bool" where
  "supports w H a \<longleftrightarrow>
     (\<exists>o1 o2. observations a = (o1, o2) \<and> signals a = (signal o1, signal o2) \<and> signal o1 < signal o2 \<and>
        (\<forall>ob \<in> {o1, o2}. runId ob = alert_run a \<and> countsTowardAgreement (confidence ob) \<and> toHint ob \<in> H \<and>
           alert_at a - w \<le> fired_at ob \<and> fired_at ob \<le> alert_at a))"

lemma toAlert_supported:
  assumes "signal prior \<noteq> signal obs" and "runId prior = runId obs" and "countsTowardAgreement (confidence obs)"
    and "countsTowardAgreement (confidence prior)" and "toHint prior \<in> H" and "toHint obs \<in> H"
    and "fired_at obs - w \<le> fired_at prior" and "fired_at prior \<le> fired_at obs" and "0 \<le> w"
  shows "supports w H (toAlert obs prior)"
proof (cases "signal obs < signal prior")
  case True
  with assms show ?thesis by (auto simp: supports_def toAlert_def sortedPair_def Let_def)
next
  case False
  with assms(1) have "signal prior < signal obs" by auto
  with assms False show ?thesis by (auto simp: supports_def toAlert_def sortedPair_def Let_def)
qed

lemma sortedPair_commute: "sortedPair a b = sortedPair b a"
  by (auto simp: sortedPair_def)

definition swept :: "Observation \<Rightarrow> AgreementBuffer \<Rightarrow> RunBucket" where
  "swept obs buf = sweep_bucket (fired_at obs - windowMs buf) (getOrCreateBucket (runId obs) buf)"

definition partner :: "Observation \<Rightarrow> AgreementBuffer \<Rightarrow> (SignalKind \<times> Observation) option" where
  "partner obs buf = (if countsTowardAgreement (confidence obs) then find_partner obs (swept obs buf) else None)"

lemma bucket_updates:
  fixes b :: RunBucket
  shows "b\<lparr>perSignal := x\<rparr> = \<lparr>perSignal = x, alertedPairs = alertedPairs b\<rparr>"
    and "b\<lparr>perSignal := x, alertedPairs := y\<rparr> = \<lparr>perSignal = x, alertedPairs = y\<rparr>"
  by (cases b; simp)+

lemma ingest_effect:
  assumes "ingest obs buf = (hint, alert, buf')"
  shows "hint = toHint obs" and "alert = map_option (\<lambda>so. toAlert obs (snd so)) (partner obs buf)"
    and "windowMs buf' = windowMs buf"
    and "getOrCreateBucket rid buf' =
      (if rid = runId obs then
         \<lparr>perSignal = AList.update (signal obs) obs (perSignal (swept obs buf)),
          alertedPairs = alertedPairs (swept obs buf) @
            (case partner obs buf of None \<Rightarrow> [] | Some so \<Rightarrow> [sortedPair (fst so) (signal obs)])\<rparr>
       else getOrCreateBucket rid buf)"
proof -
  let ?s = "sweepRun (runId obs) (fired_at obs) buf"
  have b: "getOrCreateBucket (runId obs) ?s = swept obs buf" by (simp add: sweepRun_bucket swept_def)
  have other: "getOrCreateBucket rid (?s\<lparr>perRun := AList.update (runId obs) b (perRun ?s)\<rparr>) =
      (if rid = runId obs then b else getOrCreateBucket rid buf)" for b
    using sweepRun_bucket [of rid "runId obs" "fired_at obs" buf] by (simp add: getOrCreateBucket_def map_of_update)
  have "(hint, alert, buf') = ingest obs buf" using assms by simp
  then have "hint = toHint obs \<and> alert = map_option (\<lambda>so. toAlert obs (snd so)) (partner obs buf) \<and>
      buf' = ?s\<lparr>perRun := AList.update (runId obs)
        \<lparr>perSignal = AList.update (signal obs) obs (perSignal (swept obs buf)),
         alertedPairs = alertedPairs (swept obs buf) @
            (case partner obs buf of None \<Rightarrow> [] | Some so \<Rightarrow> [sortedPair (fst so) (signal obs)])\<rparr> (perRun ?s)\<rparr>"
    unfolding ingest_def Let_def b partner_def bucket_updates by (auto split: option.splits if_splits)
  then show "hint = toHint obs" "alert = map_option (\<lambda>so. toAlert obs (snd so)) (partner obs buf)"
    "windowMs buf' = windowMs buf"
    "getOrCreateBucket rid buf' =
      (if rid = runId obs then
         \<lparr>perSignal = AList.update (signal obs) obs (perSignal (swept obs buf)),
          alertedPairs = alertedPairs (swept obs buf) @
            (case partner obs buf of None \<Rightarrow> [] | Some so \<Rightarrow> [sortedPair (fst so) (signal obs)])\<rparr>
       else getOrCreateBucket rid buf)"
    by (simp_all only: other) simp_all
qed

lemma partner_props:
  assumes "partner obs buf = Some (sig, prior)"
  shows "(sig, prior) \<in> set (perSignal (swept obs buf)) \<and> sig \<noteq> signal obs \<and> countsTowardAgreement (confidence obs) \<and>
    countsTowardAgreement (confidence prior) \<and> sortedPair sig (signal obs) \<notin> set (alertedPairs (swept obs buf))"
  using find_SomeD [of _ "perSignal (swept obs buf)" "(sig, prior)"] assms
  by (auto simp: partner_def find_partner_def split: if_splits)

lemma ingest_ok:
  assumes "ingest obs buf = (hint, alert, buf')" and "buffer_ok H now buf" and "fired_at obs = now" and "0 \<le> windowMs buf"
  shows "buffer_ok (insert (toHint obs) H) now buf'"
    and "alert = Some a \<Longrightarrow> supports (windowMs buf) (insert (toHint obs) H) a"
proof -
  have stored: "signal (snd so) = fst so \<and> runId (snd so) = runId obs \<and> toHint (snd so) \<in> H \<and> fired_at (snd so) \<le> now \<and>
      fired_at obs - windowMs buf \<le> fired_at (snd so)" if "so \<in> set (perSignal (swept obs buf))" for so
    using sweep_bucket_keeps [OF that [unfolded swept_def]] assms(2) by (auto simp: buffer_ok_def)
  show "buffer_ok (insert (toHint obs) H) now buf'"
    unfolding buffer_ok_def ingest_effect(4) [OF assms(1)] using stored assms(2,3)
    by (auto simp: buffer_ok_def dest!: in_update split: if_splits)
  assume "alert = Some a"
  then obtain sig prior where p: "partner obs buf = Some (sig, prior)" and a: "a = toAlert obs prior"
    using ingest_effect(2) [OF assms(1)] by auto
  note q = partner_props [OF p]
  show "supports (windowMs buf) (insert (toHint obs) H) a"
    unfolding a using q stored [of "(sig, prior)"] assms(3,4) by (intro toAlert_supported) auto
qed

section \<open>Traces\<close>

fun trace_ok :: "int \<Rightarrow> WatchdogHint set \<Rightarrow> WatchdogEvent list \<Rightarrow> bool" where
  "trace_ok w H [] = True"
| "trace_ok w H (HintEvent h # evs) = trace_ok w (insert h H) evs"
| "trace_ok w H (AlertEvent a # evs) = (supports w H a \<and> trace_ok w H evs)"
| "trace_ok w H (TripwireEvent t # evs) = trace_ok w H evs"

definition hints :: "WatchdogEvent list \<Rightarrow> WatchdogHint set" where
  "hints evs = {h. HintEvent h \<in> set evs}"

lemma hints_simps [simp]:
  "hints [] = {}" "hints (HintEvent h # evs) = insert h (hints evs)" "hints (AlertEvent a # evs) = hints evs"
  "hints (TripwireEvent t # evs) = hints evs"
  "hints (xs @ ys) = hints xs \<union> hints ys"
  by (auto simp: hints_def)

lemma trace_ok_append: "trace_ok w H (xs @ ys) \<longleftrightarrow> trace_ok w H xs \<and> trace_ok w (H \<union> hints xs) ys"
  by (induction w H xs rule: trace_ok.induct) auto

lemma ingest_all_ok:
  assumes "ingest_all obs buf = (evs, buf')" and "buffer_ok H now buf" and "\<forall>ob \<in> set obs. fired_at ob = now" and "0 \<le> windowMs buf"
  shows "buffer_ok (H \<union> hints evs) now buf' \<and> windowMs buf' = windowMs buf \<and> trace_ok (windowMs buf) H evs"
  using assms
proof (induction obs arbitrary: buf H evs)
  case (Cons ob obs)
  obtain h a buf1 where i: "ingest ob buf = (h, a, buf1)" by (cases "ingest ob buf") auto
  obtain evs1 where r: "ingest_all obs buf1 = (evs1, buf')"
    and evs: "evs = HintEvent h # (case a of None \<Rightarrow> [] | Some al \<Rightarrow> [AlertEvent al]) @ evs1"
    using Cons.prems(1) i by (auto split: prod.splits)
  note e = ingest_effect [OF i]
  have at: "fired_at ob = now" using Cons.prems(3) by simp
  note ok = ingest_ok [OF i Cons.prems(2) at Cons.prems(4)]
  have ih: "buffer_ok (insert h H \<union> hints evs1) now buf' \<and> windowMs buf' = windowMs buf1 \<and> trace_ok (windowMs buf1) (insert h H) evs1"
    using Cons.IH [OF r, of "insert h H"] ok(1) Cons.prems(3,4) e(1,3) by simp
  show ?case
  proof (cases a)
    case None
    with ih evs e(1,3) show ?thesis by simp
  next
    case (Some al)
    with ih evs e(1,3) ok(2) show ?thesis by simp
  qed
qed simp

text \<open>Every observation of a tick carries the time of the tick.\<close>

lemma map_filter_set: "x \<in> set (List.map_filter f xs) \<longleftrightarrow> (\<exists>y \<in> set xs. f y = Some x)"
  by (force simp: List.map_filter_def)

lemma guarded_Some: "(if b then None else Some x) = Some y \<longleftrightarrow> \<not> b \<and> x = y"
  by simp

lemma run_lag_now:
  assumes "evaluateRunCheckpointLag rid rl vnd ts now config lastTs = Some ob"
  shows "fired_at ob = now"
proof -
  obtain t where t: "lastTs = Some t" using assms by (cases lastTs) (simp_all add: evaluateRunCheckpointLag_def)
  show ?thesis
  proof (cases "length ts < checkpointMinSampleSize config")
    case True
    show ?thesis
      using assms unfolding t evaluateRunCheckpointLag_def Let_def option.case if_P [OF True] guarded_Some by auto
  next
    case False
    show ?thesis
      using assms unfolding t evaluateRunCheckpointLag_def Let_def option.case if_not_P [OF False] guarded_Some by auto
  qed
qed

lemma lag_now: "ob \<in> set (evaluateCheckpointLag db now config) \<Longrightarrow> fired_at ob = now"
  unfolding evaluateCheckpointLag_def map_filter_set by (elim bexE, erule run_lag_now)

lemma run_write_now: "evaluateRunNoWriteActivity rid rl vnd now config evs lastTs = Some ob \<Longrightarrow> fired_at ob = now"
  by (auto simp: evaluateRunNoWriteActivity_def Let_def split: option.splits if_splits prod.splits)

lemma write_now: "ob \<in> set (evaluateNoWriteActivity db now config) \<Longrightarrow> fired_at ob = now"
  unfolding evaluateNoWriteActivity_def map_filter_set Let_def by (elim bexE, erule run_write_now)

lemma tally_now: "evaluate_tally ts metas now config t = Some ob \<Longrightarrow> fired_at ob = now"
  by (auto simp: evaluate_tally_def Let_def split: option.splits if_splits prod.splits list.splits)

lemma cost_now: "evaluateCostVelocity db now config = Inr obs \<Longrightarrow> ob \<in> set obs \<Longrightarrow> fired_at ob = now"
  by (auto simp: evaluateCostVelocity_def map_result_Inr map_filter_set Let_def dest: tally_now)

lemma loop_obs_now: "evaluateRunToolLoop rid rl vnd calls now config = Some ob \<Longrightarrow> fired_at ob = now"
  by (auto simp: evaluateRunToolLoop_def Let_def split: option.splits if_splits prod.splits)

lemma loop_runs_now:
  "tool_loop_runs h db now config rs dedup = Inr (obs, d) \<Longrightarrow> ob \<in> set obs \<Longrightarrow> fired_at ob = now"
proof (induction rs arbitrary: dedup obs d)
  case (Cons r rs)
  then obtain ns where ns: "seq_results (map (normalize h) (run_events db (run_id r) [''tool_call''])) = Inr ns"
    by (auto simp: bind_result_Inr)
  show ?case
  proof (cases "evaluateRunToolLoop (run_id r) (run_role r) (run_vendor r) (List.map_filter id ns) now config")
    case None
    with Cons ns show ?thesis by simp
  next
    case (Some y)
    obtain e dedup' where "shouldEmit y dedup = (e, dedup')" by fastforce
    with Cons.prems(1) ns Some obtain out where "tool_loop_runs h db now config rs dedup' = Inr (out, d)"
      "obs = (if e then y # out else out)" by (auto simp: map_result_Inr)
    with Cons.IH Cons.prems(2) loop_obs_now [OF Some] show ?thesis by (auto split: if_splits)
  qed
qed simp

lemma runWatchdog_ok:
  assumes "runWatchdog h db now config st = Inr (evs, st')" and "buffer_ok H t (agreement st)" and "t \<le> now"
    and "0 \<le> windowMs (agreement st)"
  shows "buffer_ok (H \<union> hints evs) now (agreement st') \<and> windowMs (agreement st') = windowMs (agreement st) \<and>
    trace_ok (windowMs (agreement st)) H evs"
proof -
  obtain cost loops dedup where c: "evaluateCostVelocity db now config = Inr cost"
    and l: "evaluateToolLoop h db now config (toolLoopDedup st) = Inr (loops, dedup)"
    using assms(1) by (auto simp: runWatchdog_def bind_result_Inr map_result_Inr)
  let ?obs = "sortObservations (evaluateCheckpointLag db now config @ evaluateNoWriteActivity db now config @ cost @ loops)"
  obtain buf where i: "ingest_all ?obs (agreement st) = (evs, buf)"
    and st': "st' = \<lparr>agreement = sweep now buf, toolLoopDedup = dedup\<rparr>"
    using assms(1) c l by (auto simp: runWatchdog_def map_result_def split: prod.splits)
  have "\<forall>ob \<in> set ?obs. fired_at ob = now"
    using lag_now write_now cost_now [OF c] loop_runs_now [OF l [unfolded evaluateToolLoop_def]]
    by (auto simp: sortObservations_def)
  moreover have "buffer_ok H now (agreement st)" using buffer_ok_mono [OF assms(2)] assms(3) by blast
  ultimately show ?thesis using ingest_all_ok [OF i] assms(4) buffer_ok_sweep st' by simp
qed

fun run_ticks ::
  "hashing \<Rightarrow> WatchdogConfig \<Rightarrow> (WatchdogDb \<times> int) list \<Rightarrow> WatchdogState \<Rightarrow> string + WatchdogEvent list \<times> WatchdogState" where
  "run_ticks h config [] st = Inr ([], st)"
| "run_ticks h config ((db, now) # ticks) st =
     bind_result (runWatchdog h db now config st) (\<lambda>(evs, st1).
       map_result (\<lambda>(evs2, st2). (evs @ evs2, st2)) (run_ticks h config ticks st1))"

lemma run_ticks_ok:
  assumes "run_ticks h config ticks st = Inr (evs, st')" and "buffer_ok H t (agreement st)" and "sorted (t # map snd ticks)"
    and "0 \<le> windowMs (agreement st)"
  shows "trace_ok (windowMs (agreement st)) H evs"
  using assms
proof (induction ticks arbitrary: st H t evs)
  case (Cons tick ticks)
  obtain db now where tick: "tick = (db, now)" by fastforce
  obtain evs1 st1 evs2 where w: "runWatchdog h db now config st = Inr (evs1, st1)"
    and r: "run_ticks h config ticks st1 = Inr (evs2, st')" and evs: "evs = evs1 @ evs2"
    using Cons.prems(1) tick by (auto simp: bind_result_Inr map_result_Inr)
  have "t \<le> now" using Cons.prems(3) tick by simp
  note ok = runWatchdog_ok [OF w Cons.prems(2) this Cons.prems(4)]
  have "trace_ok (windowMs (agreement st1)) (H \<union> hints evs1) evs2"
    using Cons.IH [OF r, of "H \<union> hints evs1" now] ok Cons.prems(3,4) tick by simp
  with ok evs show ?case by (simp add: trace_ok_append)
qed simp

section \<open>Properties\<close>

text \<open>C33: alerts are corroborated. Whatever the tables hold at each tick, as long as ticks do not go back in time,
  every alert the watchdog emits rests on two observations of two different signals of the alert's run, both
  of medium or high confidence, both reported as hints earlier in the trace and both at most one agreement
  window old; a single signal, however often it fires, never raises an alert.\<close>

theorem alerts_corroborated:
  assumes "createWatchdogState config = Inr st0" and "run_ticks h config ticks st0 = Inr (evs, st)" and "sorted (map snd ticks)"
    and "evs = pre @ AlertEvent a # post"
  shows "supports (agreementWindowMs config) (hints pre) a"
proof -
  have st0: "st0 = \<lparr>agreement = \<lparr>windowMs = agreementWindowMs config, perRun = []\<rparr>, toolLoopDedup = Map.empty\<rparr>"
    and w: "0 < agreementWindowMs config"
    using assms(1) by (auto simp: createWatchdogState_def new_agreement_def map_result_def split: if_splits)
  have "buffer_ok {} t (agreement st0)" for t by (simp add: st0 buffer_ok_def getOrCreateBucket_def)
  moreover have "\<exists>t. sorted (t # map snd ticks)" using assms(3) by (cases ticks) (auto intro: exI [of _ "snd (hd ticks)"])
  ultimately have "trace_ok (agreementWindowMs config) {} evs"
    using run_ticks_ok [OF assms(2)] w st0 by fastforce
  then show ?thesis unfolding assms(4) by (simp add: trace_ok_append)
qed

definition sample_hashing :: hashing where
  "sample_hashing = \<lparr>redact = \<lambda>s. s, sha256Hex = \<lambda>s. s, numText = \<lambda>_. []\<rparr>"

definition sample_call :: "int \<Rightarrow> EventRow" where
  "sample_call n = \<lparr>event_run = ''r'', event_seq = n, event_kind = ''tool_call'', ts_wall = 0,
     event_payload = Some (JObj [(''tool'', JStr ''Edit'')])\<rparr>"

definition stuck_db :: WatchdogDb where
  "stuck_db = \<lparr>runs = [\<lparr>run_id = ''r'', run_role = None, run_vendor = Some ''claude'', run_status = ''running''\<rparr>],
     events = [sample_call 1, sample_call 2, sample_call 3]\<rparr>"

definition stuck_write :: Observation where
  "stuck_write = \<lparr>signal = no_write_activity, runId = ''r'', vendor = Some ''claude'', role = None, confidence = Medium,
     fired_at = 1000000, detail = WriteDetail 900000 0 (Some 0) None [''Edit'', ''Write'', ''Bash'']\<rparr>"

definition stuck_loop :: Observation where
  "stuck_loop = \<lparr>signal = tool_loop, runId = ''r'', vendor = Some ''claude'', role = None, confidence = Medium,
     fired_at = 1000000, detail = LoopDetail ''Edit'' ''null'' 3 1 3 0\<rparr>"

lemma stuck_tick:
  "map_result fst (run_ticks sample_hashing DEFAULT_WATCHDOG_CONFIG [(stuck_db, 1000000)]
     \<lparr>agreement = \<lparr>windowMs = 600000, perRun = []\<rparr>, toolLoopDedup = Map.empty\<rparr>) =
   Inr [HintEvent (toHint stuck_write), HintEvent (toHint stuck_loop), AlertEvent (toAlert stuck_loop stuck_write)]"
  by code_simp

theorem alerts_corroborated_witness:
  "\<exists>st. createWatchdogState DEFAULT_WATCHDOG_CONFIG = Inr st \<and>
     supports 600000 {toHint stuck_write, toHint stuck_loop} (toAlert stuck_loop stuck_write)"
proof -
  let ?st = "\<lparr>agreement = \<lparr>windowMs = 600000, perRun = []\<rparr>, toolLoopDedup = Map.empty\<rparr>"
  have c: "createWatchdogState DEFAULT_WATCHDOG_CONFIG = Inr ?st"
    by (simp add: createWatchdogState_def new_agreement_def map_result_def DEFAULT_WATCHDOG_CONFIG_def)
  obtain st where r: "run_ticks sample_hashing DEFAULT_WATCHDOG_CONFIG [(stuck_db, 1000000)] ?st =
     Inr ([HintEvent (toHint stuck_write), HintEvent (toHint stuck_loop), AlertEvent (toAlert stuck_loop stuck_write)], st)"
    using stuck_tick by (auto simp: map_result_Inr)
  have "supports (agreementWindowMs DEFAULT_WATCHDOG_CONFIG)
      (hints [HintEvent (toHint stuck_write), HintEvent (toHint stuck_loop)]) (toAlert stuck_loop stuck_write)"
    by (rule alerts_corroborated [OF c r]) simp_all
  then show ?thesis using c by (simp add: DEFAULT_WATCHDOG_CONFIG_def insert_commute)
qed

section \<open>No alert storm\<close>

datatype buffer_op = Ingest Observation | Sweep int

fun op_time :: "buffer_op \<Rightarrow> int" where
  "op_time (Ingest ob) = fired_at ob"
| "op_time (Sweep t) = t"

fun op_sweeps :: "string \<Rightarrow> buffer_op \<Rightarrow> bool" where
  "op_sweeps rid (Ingest ob) = (runId ob = rid)"
| "op_sweeps rid (Sweep t) = True"

fun buffer_step :: "buffer_op \<Rightarrow> AgreementBuffer \<Rightarrow> WatchdogAlert option \<times> AgreementBuffer" where
  "buffer_step (Ingest ob) buf = (case ingest ob buf of (h, a, buf') \<Rightarrow> (a, buf'))"
| "buffer_step (Sweep t) buf = (None, sweep t buf)"

definition buffer_run :: "buffer_op list \<Rightarrow> AgreementBuffer \<Rightarrow> AgreementBuffer" where
  "buffer_run ops buf = fold (\<lambda>op b. snd (buffer_step op b)) ops buf"

text \<open>An operation drops a signal's observation of a run when the observation has left the window.\<close>

definition expires :: "buffer_op \<Rightarrow> AgreementBuffer \<Rightarrow> string \<Rightarrow> SignalKind \<Rightarrow> bool" where
  "expires op buf rid s \<longleftrightarrow> op_sweeps rid op \<and>
     (\<exists>ob. (s, ob) \<in> set (perSignal (getOrCreateBucket rid buf)) \<and> fired_at ob < op_time op - windowMs buf)"

definition pair_expires :: "buffer_op \<Rightarrow> AgreementBuffer \<Rightarrow> string \<Rightarrow> SignalKind \<times> SignalKind \<Rightarrow> bool" where
  "pair_expires op buf rid p \<longleftrightarrow> expires op buf rid (fst p) \<or> expires op buf rid (snd p)"

abbreviation alerted :: "AgreementBuffer \<Rightarrow> string \<Rightarrow> (SignalKind \<times> SignalKind) set" where
  "alerted buf rid \<equiv> set (alertedPairs (getOrCreateBucket rid buf))"

definition signals_filed :: "AgreementBuffer \<Rightarrow> bool" where
  "signals_filed buf \<longleftrightarrow> (\<forall>rid. \<forall>so \<in> set (perSignal (getOrCreateBucket rid buf)). signal (snd so) = fst so)"

lemma swept_alerted:
  assumes "p \<in> set (alertedPairs b)"
    and "\<And>s ob. s \<in> {fst p, snd p} \<Longrightarrow> (s, ob) \<in> set (perSignal b) \<Longrightarrow> c \<le> fired_at ob"
  shows "p \<in> set (alertedPairs (sweep_bucket c b))"
  using assms by (force simp: sweep_bucket_def Let_def)

lemma marker_survives_sweep:
  assumes "p \<in> alerted buf rid" and "\<not> pair_expires op buf rid p" and "op_sweeps rid op"
  shows "p \<in> set (alertedPairs (sweep_bucket (op_time op - windowMs buf) (getOrCreateBucket rid buf)))"
  using assms by (intro swept_alerted) (auto simp: pair_expires_def expires_def not_less)

lemma marker_survives:
  assumes "p \<in> alerted buf rid" and "\<not> pair_expires op buf rid p"
  shows "p \<in> alerted (snd (buffer_step op buf)) rid"
proof (cases op)
  case (Ingest ob)
  obtain h a buf' where i: "ingest ob buf = (h, a, buf')" by (cases "ingest ob buf") auto
  show ?thesis
  proof (cases "rid = runId ob")
    case True
    then have "p \<in> set (alertedPairs (swept ob buf))"
      using marker_survives_sweep [OF assms] Ingest by (simp add: swept_def)
    with Ingest i True show ?thesis by (simp add: ingest_effect(4) [OF i])
  next
    case False
    with Ingest i assms(1) show ?thesis by (simp add: ingest_effect(4) [OF i])
  qed
next
  case (Sweep t)
  with marker_survives_sweep [OF assms] show ?thesis by (simp add: sweep_all_buckets)
qed

lemma signals_filed_step: "signals_filed buf \<Longrightarrow> signals_filed (snd (buffer_step op buf))"
proof (cases op)
  case (Ingest ob)
  assume ok: "signals_filed buf"
  obtain h a buf' where i: "ingest ob buf = (h, a, buf')" by (cases "ingest ob buf") auto
  have "signal (snd so) = fst so" if "so \<in> set (perSignal (swept ob buf))" for so
    using sweep_bucket_keeps [OF that [unfolded swept_def]] ok by (auto simp: signals_filed_def)
  then show ?thesis
    using Ingest i ok by (auto simp: signals_filed_def ingest_effect(4) [OF i] dest!: in_update split: if_splits)
next
  case (Sweep t)
  assume "signals_filed buf"
  with Sweep show ?thesis using sweep_bucket_keeps by (fastforce simp: signals_filed_def sweep_all_buckets)
qed

lemma alert_step:
  assumes "signals_filed buf" and "fst (buffer_step op buf) = Some a"
  shows "signals a \<in> alerted (snd (buffer_step op buf)) (alert_run a)"
    and "signals a \<in> alerted buf (alert_run a) \<Longrightarrow> pair_expires op buf (alert_run a) (signals a)"
proof -
  obtain ob where op: "op = Ingest ob" using assms(2) by (cases op) auto
  obtain h al buf' where i: "ingest ob buf = (h, al, buf')" by (cases "ingest ob buf") auto
  with assms(2) op have "al = Some a" by simp
  then obtain sig prior where p: "partner ob buf = Some (sig, prior)" and a: "a = toAlert ob prior"
    using ingest_effect(2) [OF i] by auto
  note q = partner_props [OF p]
  have "signal prior = sig"
    using q sweep_bucket_keeps [of "(sig, prior)"] assms(1) by (fastforce simp: swept_def signals_filed_def)
  then have sig: "signals a = sortedPair sig (signal ob)" and run: "alert_run a = runId ob"
    using a sortedPair_commute by (simp_all add: toAlert_def Let_def)
  show "signals a \<in> alerted (snd (buffer_step op buf)) (alert_run a)"
    using op i p by (simp add: ingest_effect(4) [OF i] sig run)
  assume in_old: "signals a \<in> alerted buf (alert_run a)"
  show "pair_expires op buf (alert_run a) (signals a)"
  proof (rule ccontr)
    assume "\<not> pair_expires op buf (alert_run a) (signals a)"
    from marker_survives_sweep [OF in_old this] have "signals a \<in> set (alertedPairs (swept ob buf))"
      by (simp add: op run swept_def)
    with q sig show False by simp
  qed
qed

lemma filed_run: "signals_filed buf \<Longrightarrow> signals_filed (buffer_run ops buf)"
  by (induction ops arbitrary: buf) (simp_all add: buffer_run_def signals_filed_step)

lemma repeated_alert_expired:
  assumes "signals_filed buf" and "p \<in> alerted buf rid"
    and "fst (buffer_step op (buffer_run ops buf)) = Some a" and "alert_run a = rid" and "signals a = p"
  shows "\<exists>xs x ys. ops @ [op] = xs @ x # ys \<and> pair_expires x (buffer_run xs buf) rid p"
  using assms
proof (induction ops arbitrary: buf)
  case Nil
  then have "pair_expires op (buffer_run [] buf) rid p" using alert_step(2) [of buf op a] by (simp add: buffer_run_def)
  then show ?case by (intro exI [of _ "[]"] exI [of _ op]) simp
next
  case (Cons o1 ops)
  show ?case
  proof (cases "pair_expires o1 buf rid p")
    case True
    then have "pair_expires o1 (buffer_run [] buf) rid p" by (simp add: buffer_run_def)
    then show ?thesis by (intro exI [of _ "[]"] exI [of _ o1] exI [of _ "ops @ [op]"]) simp
  next
    case False
    let ?b = "snd (buffer_step o1 buf)"
    have "\<exists>xs x ys. ops @ [op] = xs @ x # ys \<and> pair_expires x (buffer_run xs ?b) rid p"
      using Cons.prems False by (intro Cons.IH) (simp_all add: signals_filed_step marker_survives buffer_run_def)
    then obtain xs x ys where "ops @ [op] = xs @ x # ys" "pair_expires x (buffer_run xs ?b) rid p" by blast
    then have "(o1 # ops) @ [op] = (o1 # xs) @ x # ys" "pair_expires x (buffer_run (o1 # xs) buf) rid p"
      by (simp_all add: buffer_run_def)
    then show ?thesis by blast
  qed
qed

text \<open>No alert storm. After an alert for a run and a pair of signals, the buffer raises a second alert for the
  same run and pair only when in between an observation of one of the two signals fell out of the agreement
  window: while both signals keep being observed in time, the run alerts once, however many ticks and other
  observations pass.\<close>

theorem alert_not_repeated:
  assumes "new_agreement w = Inr buf0" and "fst (buffer_step op1 (buffer_run ops1 buf0)) = Some a1"
    and "buf1 = snd (buffer_step op1 (buffer_run ops1 buf0))" and "fst (buffer_step op2 (buffer_run ops2 buf1)) = Some a2"
    and "alert_run a2 = alert_run a1" and "signals a2 = signals a1"
  shows "\<exists>xs x ys. ops2 @ [op2] = xs @ x # ys \<and> pair_expires x (buffer_run xs buf1) (alert_run a1) (signals a1)"
proof -
  have "signals_filed buf0"
    using assms(1) by (auto simp: new_agreement_def signals_filed_def getOrCreateBucket_def split: if_splits)
  then have ok: "signals_filed (buffer_run ops1 buf0)" by (rule filed_run)
  then have "signals_filed buf1" unfolding assms(3) by (rule signals_filed_step)
  then show ?thesis
    using alert_step(1) [OF ok assms(2)] repeated_alert_expired [OF _ _ assms(4,5,6)] assms(3) by simp
qed

theorem alert_not_repeated_witness:
  "let buf1 = snd (buffer_step (Ingest stuck_loop) (buffer_run [Ingest stuck_write] \<lparr>windowMs = 600000, perRun = []\<rparr>))
   in \<exists>xs x ys. [Ingest (stuck_write\<lparr>fired_at := 2000000\<rparr>)] @ [Ingest (stuck_loop\<lparr>fired_at := 2000000\<rparr>)] = xs @ x # ys \<and>
        pair_expires x (buffer_run xs buf1) ''r'' (no_write_activity, tool_loop)"
proof -
  let ?buf0 = "\<lparr>windowMs = 600000, perRun = []\<rparr>"
  let ?buf1 = "snd (buffer_step (Ingest stuck_loop) (buffer_run [Ingest stuck_write] ?buf0))"
  let ?w = "stuck_write\<lparr>fired_at := 2000000\<rparr>" and ?l = "stuck_loop\<lparr>fired_at := 2000000\<rparr>"
  have n: "new_agreement 600000 = Inr ?buf0" by (simp add: new_agreement_def)
  have a1: "fst (buffer_step (Ingest stuck_loop) (buffer_run [Ingest stuck_write] ?buf0)) = Some (toAlert stuck_loop stuck_write)"
    by code_simp
  have a2: "fst (buffer_step (Ingest ?l) (buffer_run [Ingest ?w] ?buf1)) = Some (toAlert ?l ?w)" by code_simp
  have same: "alert_run (toAlert ?l ?w) = alert_run (toAlert stuck_loop stuck_write)"
    "signals (toAlert ?l ?w) = signals (toAlert stuck_loop stuck_write)" by code_simp+
  have v: "alert_run (toAlert stuck_loop stuck_write) = ''r''"
    "signals (toAlert stuck_loop stuck_write) = (no_write_activity, tool_loop)" by code_simp+
  show ?thesis
    using alert_not_repeated [OF n a1 refl a2 same] unfolding v Let_def .
qed

section \<open>The tripwire counts reds\<close>

datatype wire_op = Observe CiTripwireObservation | ResetRole "string option"

fun wire_step :: "nat \<Rightarrow> wire_op \<Rightarrow> tripwire \<Rightarrow> tripwire" where
  "wire_step n (Observe ob) perRole = snd (observe n ob perRole)"
| "wire_step n (ResetRole r) perRole = reset r perRole"

definition wire_run :: "nat \<Rightarrow> wire_op list \<Rightarrow> tripwire" where
  "wire_run n ops = fold (wire_step n) ops []"

text \<open>The red runs of a role since its last green build or reset, whether or not the wire fired.\<close>

fun reds_step :: "string \<Rightarrow> wire_op \<Rightarrow> string list \<Rightarrow> string list" where
  "reds_step r (Observe ob) rs =
     (if ci_role ob \<noteq> r then rs
      else case status ob of red \<Rightarrow> rs @ [ci_run ob] | green \<Rightarrow> [] | unknown \<Rightarrow> rs)"
| "reds_step r (ResetRole None) rs = []"
| "reds_step r (ResetRole (Some r')) rs = (if r' = r then [] else rs)"

definition reds :: "string \<Rightarrow> wire_op list \<Rightarrow> string list" where
  "reds r ops = fold (reds_step r) ops []"

definition streak_of :: "nat \<Rightarrow> string list \<Rightarrow> RoleStreak \<Rightarrow> bool" where
  "streak_of n rs s \<longleftrightarrow> count s = length rs mod n \<and> streak_runs s = drop (length rs - length rs mod n) rs"

lemma get_streak_update: "get_streak r (AList.update r' s m) = (if r = r' then s else get_streak r m)"
  by (simp add: get_streak_def map_of_update)

lemma get_streak_delete: "get_streak r (AList.delete r' m) = (if r = r' then fresh_streak else get_streak r m)"
  by (simp add: get_streak_def map_of_delete)

lemma streak_of_fresh: "length rs mod n = 0 \<Longrightarrow> streak_of n rs fresh_streak"
  by (simp add: streak_of_def fresh_streak_def)

lemma streak_of_snoc:
  assumes "0 < n" and "streak_of n rs s"
  shows "(count s + 1 \<ge> n \<longleftrightarrow> n dvd length (rs @ [x])) \<and>
    (n dvd length (rs @ [x]) \<longrightarrow> streak_runs s @ [x] = drop (length (rs @ [x]) - n) (rs @ [x])) \<and>
    (\<not> n dvd length (rs @ [x]) \<longrightarrow> streak_of n (rs @ [x]) \<lparr>count = count s + 1, streak_runs = streak_runs s @ [x], lastDetail = d\<rparr>)"
proof -
  let ?m = "length rs mod n"
  have lt: "?m < n" using assms(1) by simp
  have ge: "?m \<le> length rs" by simp
  have runs: "streak_runs s = drop (length rs - ?m) rs" and cnt: "count s = ?m" using assms(2) by (simp_all add: streak_of_def)
  show ?thesis
  proof (cases "Suc ?m = n")
    case True
    then have "Suc (length rs) mod n = 0" by (simp add: mod_Suc)
    then have dvd: "n dvd length (rs @ [x])" by (simp add: dvd_eq_mod_eq_0)
    have "length (rs @ [x]) - n = length rs - ?m" using True by simp
    with dvd True runs cnt ge show ?thesis by (simp del: drop_append) (simp add: drop_append)
  next
    case False
    then have m: "Suc (length rs) mod n = Suc ?m" by (simp add: mod_Suc)
    then have "\<not> n dvd length (rs @ [x])" by (simp add: dvd_eq_mod_eq_0)
    with False m lt runs cnt ge show ?thesis by (auto simp: streak_of_def Suc_diff_le)
  qed
qed

lemma observe_red:
  assumes "status ob = red"
  shows "observe n ob m =
    (let s = get_streak (ci_role ob) m;
         s' = \<lparr>count = count s + 1, streak_runs = streak_runs s @ [ci_run ob],
               lastDetail = (case ci_detail ob of None \<Rightarrow> [] | Some d \<Rightarrow> d)\<rparr>
     in if count s + 1 \<ge> n then (Some (fire n (ci_role ob) s' (ci_at ob)), AList.update (ci_role ob) fresh_streak m)
        else (None, AList.update (ci_role ob) s' m))"
  using assms by (simp add: observe_def Let_def)

lemma wire_step_streak:
  assumes "0 < n" and "streak_of n rs (get_streak r m)"
  shows "streak_of n (reds_step r op rs) (get_streak r (wire_step n op m))"
proof (cases op)
  case (Observe ob)
  show ?thesis
  proof (cases "status ob = red \<and> ci_role ob = r")
    case True
    then have red: "status ob = red" and r: "ci_role ob = r" by simp_all
    note sn = streak_of_snoc [OF assms, of "ci_run ob" "case ci_detail ob of None \<Rightarrow> [] | Some d \<Rightarrow> d"]
    show ?thesis
    proof (cases "n dvd length (rs @ [ci_run ob])")
      case True
      then have "length (rs @ [ci_run ob]) mod n = 0" by (rule dvd_imp_mod_0)
      with True sn Observe red r show ?thesis
        by (simp add: observe_red [OF red] Let_def get_streak_update streak_of_fresh)
    next
      case False
      with sn Observe red r show ?thesis by (simp add: observe_red [OF red] Let_def get_streak_update)
    qed
  next
    case False
    with Observe assms show ?thesis
      by (cases "status ob") (auto simp: observe_def Let_def get_streak_update streak_of_fresh)
  qed
next
  case (ResetRole r')
  with assms show ?thesis
    by (cases r') (auto simp: reset_def get_streak_delete streak_of_fresh get_streak_def [of r "[]"])
qed

lemma wire_run_streak:
  assumes "0 < n"
  shows "streak_of n (reds r ops) (get_streak r (wire_run n ops))"
proof (induction ops rule: rev_induct)
  case Nil
  show ?case by (simp add: reds_def wire_run_def get_streak_def streak_of_fresh)
next
  case (snoc op ops)
  then show ?case using wire_step_streak [OF assms] by (simp add: reds_def wire_run_def)
qed

text \<open>The CI tripwire fires exactly on every \<open>n\<close>-th red build of a role since its last green build or
  reset, where indeterminate builds and other roles do not count; the event then carries the last \<open>n\<close> red
  runs of the role in order, and nothing else fires.\<close>

theorem tripwire_exact:
  assumes "createCiTripwire threshold = Inr n"
  shows "(case fst (observe n ob (wire_run n ops)) of
       None \<Rightarrow> status ob \<noteq> red \<or> \<not> n dvd length (reds (ci_role ob) (ops @ [Observe ob]))
     | Some w \<Rightarrow> status ob = red \<and> n dvd length (reds (ci_role ob) (ops @ [Observe ob])) \<and> wire_role w = ci_role ob \<and>
         runIds w = drop (length (reds (ci_role ob) (ops @ [Observe ob])) - n) (reds (ci_role ob) (ops @ [Observe ob])))"
proof (cases "status ob = red")
  case True
  have n: "0 < n" using assms by (auto simp: createCiTripwire_def Let_def split: if_splits)
  have "reds (ci_role ob) (ops @ [Observe ob]) = reds (ci_role ob) ops @ [ci_run ob]" using True by (simp add: reds_def)
  then show ?thesis
    using streak_of_snoc [OF n wire_run_streak [OF n], of "ci_role ob" ops "ci_run ob"] True
    by (simp add: observe_red Let_def fire_def)
next
  case False
  then show ?thesis by (cases "status ob") (simp_all add: observe_def)
qed

theorem tripwire_exact_witness:
  "let b = \<lambda>i. Observe \<lparr>ci_role = ''dev'', status = red, ci_run = [i], ci_at = 0, ci_detail = None\<rparr>
   in (case fst (observe 3 \<lparr>ci_role = ''dev'', status = red, ci_run = ''d'', ci_at = 9, ci_detail = None\<rparr>
        (wire_run 3 [b (CHR ''a''), b (CHR ''b'')])) of None \<Rightarrow> False | Some w \<Rightarrow> runIds w = [''a'', ''b'', ''d''])"
proof -
  let ?b = "\<lambda>i. Observe \<lparr>ci_role = ''dev'', status = red, ci_run = [i], ci_at = 0, ci_detail = None\<rparr>"
  let ?ob = "\<lparr>ci_role = ''dev'', status = red, ci_run = ''d'', ci_at = 9, ci_detail = None\<rparr>"
  have c: "createCiTripwire None = Inr 3" by (simp add: createCiTripwire_def)
  have r: "reds (ci_role ?ob) ([?b (CHR ''a''), ?b (CHR ''b'')] @ [Observe ?ob]) = [''a'', ''b'', ''d'']"
    by (simp add: reds_def)
  show ?thesis
    using tripwire_exact [OF c, of ?ob "[?b (CHR ''a''), ?b (CHR ''b'')]"] unfolding r
    by (simp add: Let_def numeral_3_eq_3 split: option.splits)
qed

end
