(* ===== verification/Rate_Limiter.thy ===== *)
theory Rate_Limiter
  imports Shamu_Prelude "HOL-Library.Multiset"
begin

text \<open>
  The concurrency limiter of the Linear daemon (\<^verbatim>\<open>packages/linear/integration/src/rate-limiter.ts\<close>): two
  semaphores, one global and one per role, with a bounded queue of parked callers. A call to \<^verbatim>\<open>acquire\<close>
  makes a promise; promises, leases and abort signals are numbered. The state keeps which promises were
  settled and how, the closures of the leases with their \<^verbatim>\<open>released\<close> flag, and which signals were aborted.
  The clock is read exactly once per lease, so it is a function of the number of the lease.
\<close>

section \<open>Data\<close>

record RateLimiterOptions =
  opt_globalCap :: rat
  opt_perRoleCap :: "(string \<times> rat) list"
  opt_queueCapacity :: "rat option"

record TokenLease =
  lease_id :: string
  lease_role :: string
  acquiredAt :: ms
  released :: bool

datatype abort_reason = ReasonError string | ReasonString string | ReasonOther

datatype limiter_error =
    TypeError string
  | RateLimiterOverflowError string string int nat
  | AbortError string
  | SignalError string

record PendingWaiter =
  waiter_promise :: nat
  waiter_role :: string
  waiter_id :: string
  waiter_signal :: "nat option"

record RateLimiter =
  globalCap :: int
  perRoleCap :: "string \<rightharpoonup> int"
  queueCapacity :: int
  roleCounts :: "string \<rightharpoonup> int"
  inFlight :: int
  pending :: "PendingWaiter list"
  leases :: "TokenLease list"
  promises :: nat
  settled :: "(nat \<times> (limiter_error + nat)) list"
  aborted :: "nat \<rightharpoonup> abort_reason"

section \<open>Operations\<close>

text \<open>\<^verbatim>\<open>makeAbortError\<close>: a reason that is an error is thrown as it is.\<close>

fun makeAbortError :: "abort_reason \<Rightarrow> limiter_error" where
  "makeAbortError (ReasonError e) = SignalError e"
| "makeAbortError (ReasonString s) = AbortError s"
| "makeAbortError ReasonOther = AbortError ''rate-limiter: acquire aborted''"

definition number_is_integer :: "rat \<Rightarrow> bool" where
  "number_is_integer x \<longleftrightarrow> of_int \<lfloor>x\<rfloor> = x"

definition createRateLimiter :: "RateLimiterOptions \<Rightarrow> limiter_error + RateLimiter" where
  "createRateLimiter opts =
     (if \<not> number_is_integer (opt_globalCap opts) \<or> opt_globalCap opts < 1 then Inl (TypeError ''globalCap'')
      else case find (\<lambda>rc. \<not> number_is_integer (snd rc) \<or> snd rc < 1) (opt_perRoleCap opts) of
        Some rc \<Rightarrow> Inl (TypeError (''perRoleCap['' @ fst rc @ '']''))
      | None \<Rightarrow>
          let q = (case opt_queueCapacity opts of None \<Rightarrow> 8 | Some c \<Rightarrow> c)
          in if \<not> number_is_integer q \<or> q < 0 then Inl (TypeError ''queueCapacity'')
             else Inr \<lparr>globalCap = \<lfloor>opt_globalCap opts\<rfloor>,
                       perRoleCap = map_of (map (\<lambda>rc. (fst rc, \<lfloor>snd rc\<rfloor>)) (opt_perRoleCap opts)), queueCapacity = \<lfloor>q\<rfloor>,
                       roleCounts = Map.empty, inFlight = 0, pending = [], leases = [], promises = 0, settled = [],
                       aborted = Map.empty\<rparr>)"

definition roleCap :: "string \<Rightarrow> RateLimiter \<Rightarrow> int" where
  "roleCap role s = (case perRoleCap s role of None \<Rightarrow> globalCap s | Some c \<Rightarrow> c)"

definition roleCount :: "string \<Rightarrow> RateLimiter \<Rightarrow> int" where
  "roleCount role s = (case roleCounts s role of None \<Rightarrow> 0 | Some n \<Rightarrow> n)"

definition hasHeadroom :: "string \<Rightarrow> RateLimiter \<Rightarrow> bool" where
  "hasHeadroom role s \<longleftrightarrow> inFlight s < globalCap s \<and> roleCount role s < roleCap role s"

definition mintLease :: "(nat \<Rightarrow> ms) \<Rightarrow> string \<Rightarrow> string \<Rightarrow> RateLimiter \<Rightarrow> nat \<times> RateLimiter" where
  "mintLease now role i s =
     (length (leases s),
      s\<lparr>inFlight := inFlight s + 1, roleCounts := (roleCounts s)(role \<mapsto> roleCount role s + 1),
        leases := leases s @ [\<lparr>lease_id = i, lease_role = role, acquiredAt = now (length (leases s)), released = False\<rparr>]\<rparr>)"

definition settle :: "nat \<Rightarrow> limiter_error + nat \<Rightarrow> RateLimiter \<Rightarrow> RateLimiter" where
  "settle p out s = s\<lparr>settled := settled s @ [(p, out)]\<rparr>"

text \<open>\<^verbatim>\<open>findIndex\<close> and \<^verbatim>\<open>splice\<close> take the first waiter whose role has headroom out of the queue.\<close>

fun take_first :: "('a \<Rightarrow> bool) \<Rightarrow> 'a list \<Rightarrow> ('a \<times> 'a list) option" where
  "take_first P [] = None"
| "take_first P (x # xs) =
     (if P x then Some (x, xs) else map_option (\<lambda>(y, ys). (y, x # ys)) (take_first P xs))"

lemma take_first_Some:
  "take_first P xs = Some (y, ys) \<Longrightarrow> \<exists>us vs. xs = us @ y # vs \<and> ys = us @ vs \<and> P y \<and> (\<forall>u \<in> set us. \<not> P u)"
proof (induction xs arbitrary: ys)
  case (Cons x xs)
  show ?case
  proof (cases "P x")
    case True
    then have "x # xs = [] @ y # xs \<and> ys = [] @ xs \<and> P y \<and> (\<forall>u \<in> set []. \<not> P u)" using Cons.prems by simp
    then show ?thesis by blast
  next
    case False
    then obtain zs where "take_first P xs = Some (y, zs)" and ys: "ys = x # zs" using Cons.prems by auto
    then obtain us vs where "xs = us @ y # vs" "zs = us @ vs" "P y" "\<forall>u \<in> set us. \<not> P u" using Cons.IH by blast
    then have "x # xs = (x # us) @ y # vs \<and> ys = (x # us) @ vs \<and> P y \<and> (\<forall>u \<in> set (x # us). \<not> P u)"
      using False ys by simp
    then show ?thesis by blast
  qed
qed simp

lemma take_first_None: "take_first P xs = None \<longleftrightarrow> (\<forall>x \<in> set xs. \<not> P x)"
  by (induction xs) auto

function drainWaiters :: "(nat \<Rightarrow> ms) \<Rightarrow> RateLimiter \<Rightarrow> RateLimiter" where
  "drainWaiters now s =
     (if pending s \<noteq> [] \<and> inFlight s < globalCap s then
        (case take_first (\<lambda>w. hasHeadroom (waiter_role w) s) (pending s) of
           None \<Rightarrow> s
         | Some (w, rest) \<Rightarrow>
             let (l, s1) = mintLease now (waiter_role w) (waiter_id w) (s\<lparr>pending := rest\<rparr>)
             in drainWaiters now (settle (waiter_promise w) (Inr l) s1))
      else s)"
  by pat_completeness auto
termination
  by (relation "measure (\<lambda>(now, s). length (pending s))") (auto dest!: take_first_Some simp: mintLease_def settle_def)

declare drainWaiters.simps [simp del]

definition release :: "(nat \<Rightarrow> ms) \<Rightarrow> nat \<Rightarrow> RateLimiter \<Rightarrow> RateLimiter" where
  "release now l s =
     (if l < length (leases s) \<and> \<not> released (leases s ! l) then
        let role = lease_role (leases s ! l);
            s1 = s\<lparr>leases := (leases s)[l := (leases s ! l)\<lparr>released := True\<rparr>], inFlight := inFlight s - 1\<rparr>;
            next = roleCount role s1 - 1
        in drainWaiters now
             (s1\<lparr>roleCounts := (if next \<le> 0 then (roleCounts s1)(role := None) else (roleCounts s1)(role \<mapsto> next))\<rparr>)
      else s)"

definition tryAcquire :: "(nat \<Rightarrow> ms) \<Rightarrow> string \<Rightarrow> string \<Rightarrow> RateLimiter \<Rightarrow> nat option \<times> RateLimiter" where
  "tryAcquire now role i s =
     (if \<not> hasHeadroom role s then (None, s)
      else let (l, s1) = mintLease now role i s in (Some l, s1))"

text \<open>\<^verbatim>\<open>acquire\<close> returns the promise; it is settled at once unless the caller is parked.\<close>

definition acquire :: "(nat \<Rightarrow> ms) \<Rightarrow> string \<Rightarrow> string \<Rightarrow> nat option \<Rightarrow> RateLimiter \<Rightarrow> nat \<times> RateLimiter" where
  "acquire now role i signal s =
     (let p = promises s; s0 = s\<lparr>promises := Suc p\<rparr>
      in (p, case Option.bind signal (aborted s) of
               Some reason \<Rightarrow> settle p (Inl (makeAbortError reason)) s0
             | None \<Rightarrow>
                 if hasHeadroom role s then
                   let (l, s1) = mintLease now role i s0 in settle p (Inr l) s1
                 else if int (length (pending s)) \<ge> queueCapacity s then
                   settle p (Inl (RateLimiterOverflowError role i (inFlight s) (length (pending s)))) s0
                 else
                   s0\<lparr>pending := pending s @
                     [\<lparr>waiter_promise = p, waiter_role = role, waiter_id = i, waiter_signal = signal\<rparr>]\<rparr>))"

text \<open>Aborting a signal runs the \<^verbatim>\<open>onAbort\<close> listeners that are still attached, in the order they were added.\<close>

definition onAbort :: "abort_reason \<Rightarrow> PendingWaiter \<Rightarrow> RateLimiter \<Rightarrow> RateLimiter" where
  "onAbort reason w s =
     settle (waiter_promise w) (Inl (makeAbortError reason)) (s\<lparr>pending := remove1 w (pending s)\<rparr>)"

definition abort_signal :: "nat \<Rightarrow> abort_reason \<Rightarrow> RateLimiter \<Rightarrow> RateLimiter" where
  "abort_signal sg reason s =
     (if aborted s sg = None then
        fold (onAbort reason) (filter (\<lambda>w. waiter_signal w = Some sg) (pending s)) (s\<lparr>aborted := (aborted s)(sg \<mapsto> reason)\<rparr>)
      else s)"

definition queueLength :: "RateLimiter \<Rightarrow> nat" where
  "queueLength s = length (pending s)"

text \<open>What the clients of a limiter do to it.\<close>

datatype limiter_op =
    TryAcquire string string
  | Acquire string string "nat option"
  | Release nat
  | Abort nat abort_reason

fun limiter_step :: "(nat \<Rightarrow> ms) \<Rightarrow> limiter_op \<Rightarrow> RateLimiter \<Rightarrow> RateLimiter" where
  "limiter_step now (TryAcquire role i) s = snd (tryAcquire now role i s)"
| "limiter_step now (Acquire role i sg) s = snd (acquire now role i sg s)"
| "limiter_step now (Release l) s = release now l s"
| "limiter_step now (Abort sg reason) s = abort_signal sg reason s"

definition limiter_run :: "(nat \<Rightarrow> ms) \<Rightarrow> limiter_op list \<Rightarrow> RateLimiter \<Rightarrow> RateLimiter" where
  "limiter_run now ops s = fold (limiter_step now) ops s"

section \<open>Invariant\<close>

definition held :: "string \<Rightarrow> RateLimiter \<Rightarrow> nat" where
  "held role s = length (filter (\<lambda>l. \<not> released l \<and> lease_role l = role) (leases s))"

definition held_total :: "RateLimiter \<Rightarrow> nat" where
  "held_total s = length (filter (\<lambda>l. \<not> released l) (leases s))"

text \<open>The counters are the numbers of leases out, and both caps hold.\<close>

definition counts_ok :: "RateLimiter \<Rightarrow> bool" where
  "counts_ok s \<longleftrightarrow> inFlight s = int (held_total s) \<and>
     (\<forall>r. roleCounts s r = (if held r s = 0 then None else Some (int (held r s))))"

definition caps_ok :: "RateLimiter \<Rightarrow> bool" where
  "caps_ok s \<longleftrightarrow> 1 \<le> globalCap s \<and> (\<forall>r. 1 \<le> roleCap r s) \<and>
     int (held_total s) \<le> globalCap s \<and> (\<forall>r. int (held r s) \<le> roleCap r s)"

text \<open>Every promise is parked or settled, exactly once; the queue is in the order of arrival; a grant never
  overtook a waiter of the same role that still waits.\<close>

definition queue_ok :: "RateLimiter \<Rightarrow> bool" where
  "queue_ok s \<longleftrightarrow> int (length (pending s)) \<le> queueCapacity s \<and>
     mset (map waiter_promise (pending s) @ map fst (settled s)) = mset [0..<promises s] \<and>
     sorted (map waiter_promise (pending s)) \<and>
     (\<forall>(j, out) \<in> set (settled s). \<forall>l. out = Inr l \<longrightarrow> l < length (leases s) \<and>
        (\<forall>w \<in> set (pending s). waiter_promise w < j \<longrightarrow> waiter_role w \<noteq> lease_role (leases s ! l)))"

text \<open>No parked caller could be served.\<close>

definition parked_ok :: "RateLimiter \<Rightarrow> bool" where
  "parked_ok s \<longleftrightarrow> (\<forall>w \<in> set (pending s). \<not> hasHeadroom (waiter_role w) s)"

definition limiter_inv :: "RateLimiter \<Rightarrow> bool" where
  "limiter_inv s \<longleftrightarrow> counts_ok s \<and> caps_ok s \<and> queue_ok s \<and> parked_ok s"

lemma roleCount_held: "counts_ok s \<Longrightarrow> roleCount r s = int (held r s)"
  by (auto simp: counts_ok_def roleCount_def)

lemma held_le_total: "held r s \<le> held_total s"
  unfolding held_def held_total_def by (induction "leases s") (auto, metis filter_False length_filter_le le_SucI filter_filter)

lemma mintLease_fields:
  assumes "mintLease now role i s = (l, s1)"
  shows "l = length (leases s)" "globalCap s1 = globalCap s" "roleCap r s1 = roleCap r s" "pending s1 = pending s"
    "queueCapacity s1 = queueCapacity s" "settled s1 = settled s" "promises s1 = promises s"
    "held_total s1 = Suc (held_total s)" "held r s1 = (if r = role then Suc (held r s) else held r s)"
    "length (leases s1) = Suc l" "lease_role (leases s1 ! l) = role" "k < l \<Longrightarrow> leases s1 ! k = leases s ! k"
    "inFlight s1 = inFlight s + 1" "aborted s1 = aborted s"
  using assms by (auto simp: mintLease_def roleCap_def held_def held_total_def nth_append split: option.split)

lemma mintLease_ok:
  assumes "mintLease now role i s = (l, s1)" and "counts_ok s" and "caps_ok s" and "hasHeadroom role s"
  shows "counts_ok s1" and "caps_ok s1"
proof -
  note f = mintLease_fields [OF assms(1)]
  have "roleCounts s1 = (roleCounts s)(role \<mapsto> int (held role s) + 1)"
    using assms(1) roleCount_held [OF assms(2)] by (auto simp: mintLease_def)
  then show "counts_ok s1" using assms(2) by (auto simp: counts_ok_def f)
  show "caps_ok s1" using assms(3,4) roleCount_held [OF assms(2)] assms(2)
    by (auto simp: caps_ok_def f hasHeadroom_def counts_ok_def)
qed

lemma settle_fields [simp]:
  "pending (settle p out s) = pending s" "leases (settle p out s) = leases s" "settled (settle p out s) = settled s @ [(p, out)]"
  "promises (settle p out s) = promises s" "counts_ok (settle p out s) = counts_ok s" "caps_ok (settle p out s) = caps_ok s"
  "queueCapacity (settle p out s) = queueCapacity s" "parked_ok (settle p out s) = parked_ok s"
  "globalCap (settle p out s) = globalCap s" "inFlight (settle p out s) = inFlight s"
  "hasHeadroom r (settle p out s) = hasHeadroom r s"
  by (simp_all add: settle_def counts_ok_def caps_ok_def held_def held_total_def parked_ok_def hasHeadroom_def roleCap_def
      roleCount_def cong: option.case_cong)

lemma pending_update [simp]:
  "counts_ok (s\<lparr>pending := ws\<rparr>) = counts_ok s" "caps_ok (s\<lparr>pending := ws\<rparr>) = caps_ok s"
  "hasHeadroom r (s\<lparr>pending := ws\<rparr>) = hasHeadroom r s"
  by (simp_all add: counts_ok_def caps_ok_def held_def held_total_def hasHeadroom_def roleCap_def roleCount_def cong: option.case_cong)

lemma promises_update [simp]:
  "counts_ok (s\<lparr>promises := n\<rparr>) = counts_ok s" "caps_ok (s\<lparr>promises := n\<rparr>) = caps_ok s"
  "hasHeadroom r (s\<lparr>promises := n\<rparr>) = hasHeadroom r s"
  by (simp_all add: counts_ok_def caps_ok_def held_def held_total_def hasHeadroom_def roleCap_def roleCount_def cong: option.case_cong)

lemma aborted_update [simp]:
  "counts_ok (s\<lparr>aborted := a\<rparr>) = counts_ok s" "caps_ok (s\<lparr>aborted := a\<rparr>) = caps_ok s"
  "hasHeadroom r (s\<lparr>aborted := a\<rparr>) = hasHeadroom r s" "queue_ok (s\<lparr>aborted := a\<rparr>) = queue_ok s"
  by (simp_all add: counts_ok_def caps_ok_def queue_ok_def held_def held_total_def hasHeadroom_def roleCap_def roleCount_def
      cong: option.case_cong)

text \<open>One turn of the drain loop serves the first waiter with headroom, so it overtakes nobody of its role.\<close>

lemma drain_turn:
  assumes q: "queue_ok s" and t: "pending s = us @ w # vs" and us: "\<forall>u \<in> set us. waiter_role u \<noteq> waiter_role w"
    and m: "mintLease now (waiter_role w) (waiter_id w) (s\<lparr>pending := us @ vs\<rparr>) = (l, s1)"
  shows "queue_ok (settle (waiter_promise w) (Inr l) s1)"
proof -
  note f = mintLease_fields [OF m]
  have late: "waiter_promise w \<le> waiter_promise v" if "v \<in> set vs" for v
    using q that by (auto simp: queue_ok_def t sorted_append)
  have new: "waiter_role u \<noteq> waiter_role w" if "u \<in> set (us @ vs)" "waiter_promise u < waiter_promise w" for u
    using that us late by fastforce
  have old: "l' < length (leases s) \<and> (\<forall>u \<in> set (us @ w # vs). waiter_promise u < j \<longrightarrow> waiter_role u \<noteq> lease_role (leases s ! l'))"
    if "(j, Inr l') \<in> set (settled s)" for j l'
    using q that unfolding queue_ok_def t by fastforce
  have m: "mset (map waiter_promise (us @ vs) @ map fst (settled s) @ [waiter_promise w]) = mset [0..<promises s]"
    using q by (simp add: queue_ok_def t)
  have srt: "sorted (map waiter_promise (us @ vs))" using q by (auto simp: queue_ok_def t sorted_append)
  have len: "int (length (us @ vs)) \<le> queueCapacity s" using q by (simp add: queue_ok_def t)
  show ?thesis unfolding queue_ok_def
  proof (intro conjI)
    show "\<forall>(j, out) \<in> set (settled (settle (waiter_promise w) (Inr l) s1)). \<forall>k. out = Inr k \<longrightarrow>
        k < length (leases (settle (waiter_promise w) (Inr l) s1)) \<and>
        (\<forall>u \<in> set (pending (settle (waiter_promise w) (Inr l) s1)). waiter_promise u < j \<longrightarrow>
           waiter_role u \<noteq> lease_role (leases (settle (waiter_promise w) (Inr l) s1) ! k))"
      using old new f(1,4,6,10,11,12) by (auto simp: less_Suc_eq)
  qed (use m srt len f(4,5,6,7) in simp_all)
qed

lemma drain_ok:
  assumes "counts_ok s" and "caps_ok s" and "queue_ok s"
  shows "limiter_inv (drainWaiters now s)"
  using assms
proof (induction now s rule: drainWaiters.induct)
  case (1 now s)
  show ?case
  proof (cases "pending s \<noteq> [] \<and> inFlight s < globalCap s")
    case False
    then have "parked_ok s" by (auto simp: parked_ok_def hasHeadroom_def)
    moreover have "drainWaiters now s = s" using False by (subst drainWaiters.simps) auto
    ultimately show ?thesis using 1(2-4) by (simp add: limiter_inv_def)
  next
    case True
    show ?thesis
    proof (cases "take_first (\<lambda>w. hasHeadroom (waiter_role w) s) (pending s)")
      case None
      then have "parked_ok s" by (auto simp: parked_ok_def take_first_None)
      moreover have "drainWaiters now s = s" using True None by (subst drainWaiters.simps) simp
      ultimately show ?thesis using 1(2-4) by (simp add: limiter_inv_def)
    next
      case (Some p)
      obtain w rest where p: "p = (w, rest)" by (cases p)
      obtain us vs where ps: "pending s = us @ w # vs" "rest = us @ vs" and w: "hasHeadroom (waiter_role w) s"
        and us: "\<forall>u \<in> set us. \<not> hasHeadroom (waiter_role u) s"
        using take_first_Some [OF Some [unfolded p]] by blast
      obtain l s1 where m: "mintLease now (waiter_role w) (waiter_id w) (s\<lparr>pending := rest\<rparr>) = (l, s1)" by fastforce
      have "counts_ok s1" "caps_ok s1" using mintLease_ok [OF m] 1(2,3) w by simp_all
      moreover have "queue_ok (settle (waiter_promise w) (Inr l) s1)"
        using drain_turn [OF 1(4) ps(1)] m ps(2) us w by metis
      ultimately have "limiter_inv (drainWaiters now (settle (waiter_promise w) (Inr l) s1))"
        using 1(1) [OF True Some p [symmetric] refl m [symmetric]] by simp
      moreover have "drainWaiters now s = drainWaiters now (settle (waiter_promise w) (Inr l) s1)"
        using True Some p m by (subst drainWaiters.simps) simp
      ultimately show ?thesis by simp
    qed
  qed
qed

lemma held_release:
  assumes "l < length (leases s)" and "\<not> released (leases s ! l)"
    and "s1 = s\<lparr>leases := (leases s)[l := (leases s ! l)\<lparr>released := True\<rparr>], inFlight := i\<rparr>"
  shows "held_total s = Suc (held_total s1)"
    and "held r s = (if r = lease_role (leases s ! l) then Suc (held r s1) else held r s1)"
proof -
  have drop: "length (filter P xs) = (if P (xs ! l) then Suc (length (filter P (xs[l := x]))) else length (filter P (xs[l := x])))"
    if "l < length xs" "\<not> P x" for P :: "TokenLease \<Rightarrow> bool" and xs x
    using that by (simp add: upd_conv_take_nth_drop) (subst (1 2) id_take_nth_drop [OF that(1)], simp)
  show "held_total s = Suc (held_total s1)" using assms drop [of "leases s" "\<lambda>l. \<not> released l"] by (simp add: held_total_def)
  show "held r s = (if r = lease_role (leases s ! l) then Suc (held r s1) else held r s1)"
    using assms drop [of "leases s" "\<lambda>l. \<not> released l \<and> lease_role l = r"] by (auto simp: held_def)
qed


lemma release_ok:
  assumes inv: "limiter_inv s"
  shows "limiter_inv (release now l s)"
proof (cases "l < length (leases s) \<and> \<not> released (leases s ! l)")
  case True
  define role where "role = lease_role (leases s ! l)"
  define s1 where "s1 = s\<lparr>leases := (leases s)[l := (leases s ! l)\<lparr>released := True\<rparr>], inFlight := inFlight s - 1\<rparr>"
  define n where "n = roleCount role s1 - 1"
  define s2 where "s2 = s1\<lparr>roleCounts := (if n \<le> 0 then (roleCounts s1)(role := None) else (roleCounts s1)(role \<mapsto> n))\<rparr>"
  have h: "held_total s = Suc (held_total s1)" "held r s = (if r = role then Suc (held r s1) else held r s1)" for r
    using held_release [of l s s1 "inFlight s - 1"] True by (auto simp: s1_def role_def)
  have h2: "held_total s2 = held_total s1" "held r s2 = held r s1" "roleCap r s2 = roleCap r s" for r
    by (simp_all add: s2_def s1_def held_def held_total_def roleCap_def cong: option.case_cong)
  have c: "counts_ok s" "caps_ok s" "queue_ok s" using inv by (simp_all add: limiter_inv_def)
  have n: "n = int (held role s1)" using roleCount_held [OF c(1), of role] h(2) [of role]
    by (simp add: n_def roleCount_def s1_def)
  have "counts_ok s2" unfolding counts_ok_def
  proof (intro conjI allI)
    show "inFlight s2 = int (held_total s2)" using c(1) h(1) by (simp add: counts_ok_def h2) (simp add: s2_def s1_def)
    show "roleCounts s2 r = (if held r s2 = 0 then None else Some (int (held r s2)))" for r
      using c(1) h(2) [of r] n by (auto simp: counts_ok_def h2) (auto simp: s2_def s1_def)
  qed
  moreover have "caps_ok s2" unfolding caps_ok_def
  proof (intro conjI allI)
    show "int (held r s2) \<le> roleCap r s2" for r
    proof -
      have "held r s2 \<le> held r s" by (simp add: h(2) h2)
      moreover have "int (held r s) \<le> roleCap r s" using c(2) by (simp add: caps_ok_def)
      ultimately show ?thesis by (simp add: h2)
    qed
  qed (use c(2) h(1) in \<open>auto simp: caps_ok_def h2\<close>, auto simp: s2_def s1_def)
  moreover have "queue_ok s2"
  proof -
    have "lease_role (leases s2 ! k) = lease_role (leases s ! k)" for k
      using True by (cases "k = l") (simp_all add: s2_def s1_def)
    moreover have "pending s2 = pending s" "settled s2 = settled s" "promises s2 = promises s" "length (leases s2) = length (leases s)"
      "queueCapacity s2 = queueCapacity s" by (simp_all add: s2_def s1_def)
    ultimately show ?thesis using c(3) by (simp add: queue_ok_def)
  qed
  ultimately have "limiter_inv (drainWaiters now s2)" by (rule drain_ok)
  moreover have "release now l s = drainWaiters now s2"
    using True by (simp add: release_def Let_def s2_def s1_def n_def role_def)
  ultimately show ?thesis by simp
qed (auto simp: release_def inv)

lemma mintLease_parked:
  assumes "mintLease now role i s = (l, s1)" and "parked_ok s" and "counts_ok s" and "caps_ok s" and "hasHeadroom role s"
  shows "parked_ok s1"
proof -
  have c: "counts_ok s1" by (rule mintLease_ok) (use assms in auto)
  have "hasHeadroom r s1 \<Longrightarrow> hasHeadroom r s" for r
    using mintLease_fields [OF assms(1)] roleCount_held [OF c] roleCount_held [OF assms(3)]
    by (auto simp: hasHeadroom_def split: if_splits)
  then show ?thesis using assms(2) mintLease_fields(4) [OF assms(1)] by (auto simp: parked_ok_def)
qed

lemma tryAcquire_ok:
  assumes inv: "limiter_inv s"
  shows "limiter_inv (snd (tryAcquire now role i s))"
proof (cases "hasHeadroom role s")
  case True
  obtain l s1 where m: "mintLease now role i s = (l, s1)" by fastforce
  have c: "counts_ok s" "caps_ok s" "queue_ok s" "parked_ok s" using inv by (simp_all add: limiter_inv_def)
  note f = mintLease_fields [OF m]
  have "queue_ok s1" using c(3) f(1,12) unfolding queue_ok_def f(4,5,6,7,10) by (fastforce simp: less_Suc_eq)
  moreover have "counts_ok s1" "caps_ok s1" using mintLease_ok [OF m c(1,2) True] .
  ultimately have "limiter_inv s1" using mintLease_parked [OF m c(4,1,2) True] by (simp add: limiter_inv_def)
  then show ?thesis using True m by (simp add: tryAcquire_def)
qed (simp add: tryAcquire_def inv)

lemma promise_bound:
  assumes "queue_ok s"
  shows "w \<in> set (pending s) \<Longrightarrow> waiter_promise w < promises s" and "x \<in> set (settled s) \<Longrightarrow> fst x < promises s"
proof -
  have "set (map waiter_promise (pending s) @ map fst (settled s)) = {..<promises s}"
    using assms unfolding queue_ok_def by (metis atLeast_upt set_mset_mset)
  then show "w \<in> set (pending s) \<Longrightarrow> waiter_promise w < promises s" and "x \<in> set (settled s) \<Longrightarrow> fst x < promises s"
    by (auto simp: set_eq_iff)
qed


lemma acquire_settles:
  assumes "limiter_inv s" and "s0 = s\<lparr>promises := Suc (promises s)\<rparr>"
  shows "limiter_inv (settle (promises s) (Inl e) s0)"
proof -
  have "queue_ok s" using assms(1) by (simp add: limiter_inv_def)
  then have "queue_ok (settle (promises s) (Inl e) s0)" by (auto simp: queue_ok_def assms(2))
  then show ?thesis using assms by (simp add: limiter_inv_def parked_ok_def)
qed

lemma acquire_grants:
  assumes inv: "limiter_inv s" and s0: "s0 = s\<lparr>promises := Suc (promises s)\<rparr>" and hd: "hasHeadroom role s"
    and m: "mintLease now role i s0 = (l, s1)"
  shows "limiter_inv (settle (promises s) (Inr l) s1)"
proof -
  have c: "counts_ok s0" "caps_ok s0" "queue_ok s" "parked_ok s" "parked_ok s0" "hasHeadroom role s0"
    using inv hd by (simp_all add: limiter_inv_def s0 parked_ok_def)
  note f = mintLease_fields [OF m]
  have old: "l' < length (leases s) \<and> (\<forall>w \<in> set (pending s). waiter_promise w < j \<longrightarrow> waiter_role w \<noteq> lease_role (leases s ! l'))"
    if "(j, Inr l') \<in> set (settled s)" for j l'
    using c(3) that unfolding queue_ok_def by fastforce
  have new: "\<forall>w \<in> set (pending s). waiter_role w \<noteq> role" using c(4) hd by (auto simp: parked_ok_def)
  have "queue_ok (settle (promises s) (Inr l) s1)" unfolding queue_ok_def
  proof (intro conjI)
    show "\<forall>(j, out) \<in> set (settled (settle (promises s) (Inr l) s1)). \<forall>k. out = Inr k \<longrightarrow>
        k < length (leases (settle (promises s) (Inr l) s1)) \<and>
        (\<forall>w \<in> set (pending (settle (promises s) (Inr l) s1)). waiter_promise w < j \<longrightarrow>
           waiter_role w \<noteq> lease_role (leases (settle (promises s) (Inr l) s1) ! k))"
      using old new f(1,4,6,10,11,12) by (auto simp: less_Suc_eq s0)
  qed (use c(3) f(4,5,6,7) in \<open>auto simp: queue_ok_def s0\<close>)
  then show ?thesis using mintLease_ok [OF m c(1,2,6)] mintLease_parked [OF m c(5,1,2,6)] by (simp add: limiter_inv_def)
qed

lemma acquire_parks:
  assumes inv: "limiter_inv s" and no: "\<not> hasHeadroom (waiter_role w) s" and room: "int (length (pending s)) < queueCapacity s"
    and w: "waiter_promise w = promises s"
  shows "limiter_inv (s\<lparr>promises := Suc (promises s), pending := pending s @ [w]\<rparr>)"
proof -
  have q: "queue_ok s" using inv by (simp add: limiter_inv_def)
  have b: "x \<in> set (settled s) \<Longrightarrow> fst x \<le> promises s" "v \<in> set (pending s) \<Longrightarrow> waiter_promise v \<le> promises s" for x v
    using promise_bound [OF q] less_imp_le by blast+
  have "queue_ok (s\<lparr>promises := Suc (promises s), pending := pending s @ [w]\<rparr>)" unfolding queue_ok_def
  proof (intro conjI)
    show "\<forall>(j, out) \<in> set (settled (s\<lparr>promises := Suc (promises s), pending := pending s @ [w]\<rparr>)). \<forall>l. out = Inr l \<longrightarrow>
        l < length (leases (s\<lparr>promises := Suc (promises s), pending := pending s @ [w]\<rparr>)) \<and>
        (\<forall>v \<in> set (pending (s\<lparr>promises := Suc (promises s), pending := pending s @ [w]\<rparr>)). waiter_promise v < j \<longrightarrow>
           waiter_role v \<noteq> lease_role (leases (s\<lparr>promises := Suc (promises s), pending := pending s @ [w]\<rparr>) ! l))"
      using q b(1) unfolding queue_ok_def by (fastforce simp: w)
  qed (use q b(2) room w in \<open>auto simp: queue_ok_def sorted_append\<close>)
  then show ?thesis using inv no by (auto simp: limiter_inv_def parked_ok_def)
qed

lemma acquire_ok:
  assumes inv: "limiter_inv s"
  shows "limiter_inv (snd (acquire now role i signal s))"
proof (cases "Option.bind signal (aborted s)")
  case (Some reason)
  then show ?thesis using acquire_settles [OF inv refl] by (simp add: acquire_def Let_def)
next
  case none: None
  obtain l s1 where m: "mintLease now role i (s\<lparr>promises := Suc (promises s)\<rparr>) = (l, s1)" by fastforce
  consider (grant) "hasHeadroom role s" | (full) "\<not> hasHeadroom role s" "queueCapacity s \<le> int (length (pending s))"
    | (park) "\<not> hasHeadroom role s" "int (length (pending s)) < queueCapacity s" by linarith
  then show ?thesis
  proof cases
    case grant
    then show ?thesis using acquire_grants [OF inv refl grant m] none m by (simp add: acquire_def Let_def)
  next
    case full
    then show ?thesis using acquire_settles [OF inv refl] none by (simp add: acquire_def Let_def)
  next
    case park
    then show ?thesis
      using acquire_parks [OF inv, of "\<lparr>waiter_promise = promises s, waiter_role = role, waiter_id = i, waiter_signal = signal\<rparr>"]
        none by (simp add: acquire_def Let_def)
  qed
qed

lemma onAbort_ok:
  assumes inv: "limiter_inv s" and w: "w \<in> set (pending s)"
  shows "limiter_inv (onAbort reason w s)"
proof -
  obtain us vs where p: "pending s = us @ w # vs" and u: "w \<notin> set us" using split_list_first [OF w] by blast
  then have r: "remove1 w (pending s) = us @ vs" by (simp add: remove1_append)
  have q: "queue_ok s" using inv by (simp add: limiter_inv_def)
  have f: "pending (onAbort reason w s) = us @ vs" "leases (onAbort reason w s) = leases s" "promises (onAbort reason w s) = promises s"
    "settled (onAbort reason w s) = settled s @ [(waiter_promise w, Inl (makeAbortError reason))]"
    "queueCapacity (onAbort reason w s) = queueCapacity s"
    by (simp_all add: onAbort_def r)
  have "queue_ok (onAbort reason w s)" using q unfolding queue_ok_def f p by (auto simp: sorted_append)
  moreover have "parked_ok (onAbort reason w s)" using inv unfolding limiter_inv_def parked_ok_def f p by (simp add: onAbort_def)
  ultimately show ?thesis using inv by (simp add: limiter_inv_def onAbort_def)
qed

lemma abort_signal_ok:
  assumes inv: "limiter_inv s"
  shows "limiter_inv (abort_signal sg reason s)"
proof -
  have all: "limiter_inv (fold (onAbort reason) ws s)" if "limiter_inv s" "distinct ws" "set ws \<subseteq> set (pending s)" for ws s
    using that
  proof (induction ws arbitrary: s)
    case (Cons w ws)
    have "set ws \<subseteq> set (pending (onAbort reason w s))"
      using Cons.prems by (auto simp: onAbort_def intro!: in_set_remove1 [THEN iffD2])
    then show ?case using Cons onAbort_ok [OF Cons.prems(1)] by simp
  qed simp
  let ?s = "s\<lparr>aborted := (aborted s)(sg \<mapsto> reason)\<rparr>"
  have "mset (map waiter_promise (pending s) @ map fst (settled s)) = mset [0..<promises s]"
    using inv by (simp add: limiter_inv_def queue_ok_def)
  then have "distinct (map waiter_promise (pending s) @ map fst (settled s))" by (metis distinct_upt mset_eq_imp_distinct_iff)
  then have "distinct (pending s)" by (simp add: distinct_map)
  moreover have "limiter_inv ?s" using inv by (simp add: limiter_inv_def parked_ok_def)
  ultimately show ?thesis using all [of ?s] inv by (simp add: abort_signal_def)
qed

lemma limiter_step_ok: "limiter_inv s \<Longrightarrow> limiter_inv (limiter_step now op s)"
  by (cases op) (simp_all add: tryAcquire_ok acquire_ok release_ok abort_signal_ok)

interpretation limiter: stepping "limiter_step now" limiter_inv for now
  by unfold_locales (rule limiter_step_ok)

lemma createRateLimiter_ok:
  assumes "createRateLimiter opts = Inr s"
  shows "limiter_inv s"
proof -
  define q where "q = (case opt_queueCapacity opts of None \<Rightarrow> 8 | Some c \<Rightarrow> c)"
  have q: "\<not> q < 0" and g: "\<not> opt_globalCap opts < 1"
    and r: "find (\<lambda>rc. \<not> number_is_integer (snd rc) \<or> snd rc < 1) (opt_perRoleCap opts) = None"
    and s: "s = \<lparr>globalCap = \<lfloor>opt_globalCap opts\<rfloor>, perRoleCap = map_of (map (\<lambda>rc. (fst rc, \<lfloor>snd rc\<rfloor>)) (opt_perRoleCap opts)),
      queueCapacity = \<lfloor>q\<rfloor>, roleCounts = Map.empty, inFlight = 0, pending = [], leases = [], promises = 0, settled = [], aborted = Map.empty\<rparr>"
    using assms unfolding createRateLimiter_def Let_def q_def [symmetric] by (simp_all split: if_splits option.splits)
  have "1 \<le> c" if "map_of (map (\<lambda>rc. (fst rc, \<lfloor>snd rc\<rfloor>)) (opt_perRoleCap opts)) role = Some c" for role c
    using map_of_SomeD [OF that] r by (fastforce simp: find_None_iff le_floor_iff)
  then have c: "1 \<le> roleCap role s" for role using g by (auto simp: roleCap_def s le_floor_iff split: option.splits)
  then have "0 \<le> roleCap role s" for role using order_trans [OF zero_le_one] by blast
  with c show ?thesis using q g unfolding s
    by (auto simp: limiter_inv_def counts_ok_def caps_ok_def queue_ok_def parked_ok_def held_def held_total_def le_floor_iff)
qed

lemma limiter_run_ok: "createRateLimiter opts = Inr s0 \<Longrightarrow> limiter_inv (limiter_run now ops s0)"
  unfolding limiter_run_def by (rule limiter.run_inv) (rule createRateLimiter_ok)


section \<open>The configuration never changes\<close>

definition same_config :: "RateLimiter \<Rightarrow> RateLimiter \<Rightarrow> bool" where
  "same_config s t \<longleftrightarrow> globalCap t = globalCap s \<and> perRoleCap t = perRoleCap s \<and> queueCapacity t = queueCapacity s"

lemma same_config_trans: "same_config s t \<Longrightarrow> same_config t u \<Longrightarrow> same_config s u"
  by (simp add: same_config_def)

lemma drain_config: "same_config s (drainWaiters now s)"
proof (induction now s rule: drainWaiters.induct)
  case (1 now s)
  show ?case
  proof (cases "drainWaiters now s = s")
    case False
    then obtain w rest where c: "pending s \<noteq> [] \<and> inFlight s < globalCap s"
      and t: "take_first (\<lambda>w. hasHeadroom (waiter_role w) s) (pending s) = Some (w, rest)"
      by (subst (asm) drainWaiters.simps) (auto split: if_splits option.splits)
    obtain l s1 where m: "mintLease now (waiter_role w) (waiter_id w) (s\<lparr>pending := rest\<rparr>) = (l, s1)" by fastforce
    have "same_config s (settle (waiter_promise w) (Inr l) s1)" using m by (auto simp: same_config_def mintLease_def settle_def)
    moreover have "drainWaiters now s = drainWaiters now (settle (waiter_promise w) (Inr l) s1)"
      using c t m by (subst drainWaiters.simps) simp
    ultimately show ?thesis using 1 [OF c t refl refl m [symmetric]] same_config_trans by metis
  qed (simp add: same_config_def)
qed

lemma limiter_step_config: "same_config s (limiter_step now op s)"
proof (cases op)
  case (Release l)
  then show ?thesis using drain_config [unfolded same_config_def] by (auto simp: release_def Let_def same_config_def)
next
  case (Abort sg reason)
  have one: "same_config s (onAbort r w s)" for r w and s :: RateLimiter
    by (simp add: onAbort_def settle_def same_config_def)
  have "same_config s (fold (onAbort r) ws s)" for r ws and s :: RateLimiter
  proof (induction ws arbitrary: s)
    case (Cons w ws)
    show ?case using same_config_trans [OF one Cons] by simp
  qed (simp add: same_config_def)
  then show ?thesis using Abort by (auto simp: abort_signal_def same_config_def)
qed (auto simp: tryAcquire_def acquire_def mintLease_def settle_def same_config_def Let_def split: option.split)


lemma limiter_run_config: "same_config s (limiter_run now ops s)"
  unfolding limiter_run_def
proof (induction ops arbitrary: s)
  case (Cons op ops)
  show ?case using same_config_trans [OF limiter_step_config Cons] by simp
qed (simp add: same_config_def)

section \<open>Properties\<close>

definition options_queueCapacity :: "RateLimiterOptions \<Rightarrow> rat" where
  "options_queueCapacity opts = (case opt_queueCapacity opts of None \<Rightarrow> 8 | Some c \<Rightarrow> c)"

lemma createRateLimiter_config:
  assumes "createRateLimiter opts = Inr s"
  shows "rat_of_int (globalCap s) = opt_globalCap opts" "rat_of_int (queueCapacity s) = options_queueCapacity opts"
    "map_of (opt_perRoleCap opts) r = Some c \<Longrightarrow> rat_of_int (roleCap r s) = c"
proof -
  show "rat_of_int (globalCap s) = opt_globalCap opts"
    using assms by (auto simp: createRateLimiter_def Let_def number_is_integer_def split: if_splits option.splits)
  show "rat_of_int (queueCapacity s) = options_queueCapacity opts"
    using assms by (auto simp: createRateLimiter_def Let_def number_is_integer_def options_queueCapacity_def split: if_splits option.splits)
  assume c: "map_of (opt_perRoleCap opts) r = Some c"
  have p: "perRoleCap s = map_option floor \<circ> map_of (opt_perRoleCap opts)"
    and f: "find (\<lambda>rc. \<not> number_is_integer (snd rc) \<or> snd rc < 1) (opt_perRoleCap opts) = None"
    using assms by (auto simp: createRateLimiter_def Let_def map_of_map [symmetric] case_prod_unfold split: if_splits option.splits)
  have "number_is_integer c" using f map_of_SomeD [OF c] by (fastforce simp: find_None_iff)
  then show "rat_of_int (roleCap r s) = c" using c by (simp add: roleCap_def p number_is_integer_def)
qed

text \<open>C18: the caps hold. Over every sequence of acquisitions, releases and aborts, the leases that are out never
  exceed the global cap nor the cap of their role, the parked callers never exceed the capacity of the queue, and
  the counters the limiter reports are the true numbers.\<close>

theorem limiter_caps:
  assumes "createRateLimiter opts = Inr s0" and "s = limiter_run now ops s0"
  shows "rat_of_nat (held_total s) \<le> opt_globalCap opts \<and>
    (\<forall>role c. map_of (opt_perRoleCap opts) role = Some c \<longrightarrow> rat_of_nat (held role s) \<le> c) \<and>
    rat_of_nat (queueLength s) \<le> options_queueCapacity opts \<and>
    inFlight s = int (held_total s) \<and> (\<forall>role. roleCount role s = int (held role s))"
proof -
  have inv: "counts_ok s" "caps_ok s" "queue_ok s" using limiter_run_ok [OF assms(1)] by (simp_all add: assms(2) limiter_inv_def)
  have cfg: "globalCap s = globalCap s0" "roleCap role s = roleCap role s0" "queueCapacity s = queueCapacity s0" for role
    using limiter_run_config [of s0 now ops] by (simp_all add: assms(2) same_config_def roleCap_def cong: option.case_cong)
  note c = createRateLimiter_config [OF assms(1)]
  have le: "rat_of_nat n \<le> rat_of_int z" if "int n \<le> z" for n z using that by (metis of_int_le_iff of_int_of_nat_eq)
  have "rat_of_nat (held_total s) \<le> opt_globalCap opts" using le [of "held_total s" "globalCap s"] inv(2) c(1)
    by (simp add: caps_ok_def cfg)
  moreover have "rat_of_nat (held role s) \<le> d" if "map_of (opt_perRoleCap opts) role = Some d" for role d
    using le [of "held role s" "roleCap role s0"] inv(2) c(3) [OF that] unfolding caps_ok_def cfg by metis
  moreover have "rat_of_nat (queueLength s) \<le> options_queueCapacity opts"
    using le [of "queueLength s" "queueCapacity s"] inv(3) c(2) by (simp add: queue_ok_def queueLength_def cfg)
  moreover have "inFlight s = int (held_total s)" using inv(1) by (simp add: counts_ok_def)
  ultimately show ?thesis using roleCount_held [OF inv(1)] by blast
qed

text \<open>Nobody is forgotten or overtaken. Over every such sequence each call to \<^verbatim>\<open>acquire\<close> is either parked or was
  settled, exactly once; no caller is parked while both caps have room for it, so when no lease is out the queue is
  empty; and a call is never granted while an earlier call of the same role still waits.\<close>

theorem limiter_serves:
  assumes "createRateLimiter opts = Inr s0" and "s = limiter_run now ops s0"
  shows "(\<forall>p < promises s. count (mset (map waiter_promise (pending s) @ map fst (settled s))) p = 1) \<and>
    (\<forall>w \<in> set (pending s). \<not> hasHeadroom (waiter_role w) s) \<and>
    (held_total s = 0 \<longrightarrow> pending s = []) \<and>
    (\<forall>w \<in> set (pending s). \<forall>j l. (j, Inr l) \<in> set (settled s) \<and> waiter_promise w < j \<longrightarrow> lease_role (leases s ! l) \<noteq> waiter_role w)"
proof -
  have inv: "counts_ok s" "caps_ok s" "queue_ok s" "parked_ok s"
    using limiter_run_ok [OF assms(1)] by (simp_all add: assms(2) limiter_inv_def)
  have "count (mset [0..<promises s]) p = 1" if "p < promises s" for p
    using that by (simp add: count_mset_set)
  then have "\<forall>p < promises s. count (mset (map waiter_promise (pending s) @ map fst (settled s))) p = 1"
    using inv(3) by (metis queue_ok_def)
  moreover have "\<forall>w \<in> set (pending s). \<not> hasHeadroom (waiter_role w) s" using inv(4) by (simp add: parked_ok_def)
  moreover have "pending s = []" if z: "held_total s = 0"
  proof -
    have "hasHeadroom r s" for r
      using inv(1,2) z held_le_total [of r s] roleCount_held [OF inv(1), of r]
      by (auto simp: hasHeadroom_def counts_ok_def caps_ok_def intro: less_le_trans [OF zero_less_one])
    then show ?thesis using inv(4) by (metis last_in_set parked_ok_def)
  qed
  moreover have "\<forall>w \<in> set (pending s). \<forall>j l. (j, Inr l) \<in> set (settled s) \<and> waiter_promise w < j \<longrightarrow> lease_role (leases s ! l) \<noteq> waiter_role w"
    using inv(3) unfolding queue_ok_def by fastforce
  ultimately show ?thesis by blast
qed

definition demo_options :: RateLimiterOptions where
  "demo_options = \<lparr>opt_globalCap = 2, opt_perRoleCap = [(''executor'', 1)], opt_queueCapacity = Some 1\<rparr>"

definition demo_limiter :: RateLimiter where
  "demo_limiter = \<lparr>globalCap = 2, perRoleCap = [''executor'' \<mapsto> 1], queueCapacity = 1, roleCounts = Map.empty, inFlight = 0,
     pending = [], leases = [], promises = 0, settled = [], aborted = Map.empty\<rparr>"

lemma demo_created: "createRateLimiter demo_options = Inr demo_limiter"
  by (simp add: createRateLimiter_def demo_options_def demo_limiter_def number_is_integer_def)

theorem limiter_caps_witness:
  "rat_of_nat (held_total (limiter_run int [Acquire ''executor'' ''a'' None, Acquire ''executor'' ''b'' None] demo_limiter)) \<le> 2"
  using limiter_caps [OF demo_created refl, of int "[Acquire ''executor'' ''a'' None, Acquire ''executor'' ''b'' None]"]
  by (simp add: demo_options_def)

theorem limiter_serves_witness:
  "let s = limiter_run int [Acquire ''executor'' ''a'' None, Acquire ''executor'' ''b'' None, Release 0] demo_limiter
   in settled s = [(0, Inr 0), (1, Inr 1)] \<and> count (mset (map waiter_promise (pending s) @ map fst (settled s))) 1 = 1"
proof -
  let ?s = "limiter_run int [Acquire ''executor'' ''a'' None, Acquire ''executor'' ''b'' None, Release 0] demo_limiter"
  have s: "settled ?s = [(0, Inr 0), (1, Inr 1)]" "promises ?s = 2"
    by (simp_all add: limiter_run_def demo_limiter_def acquire_def Let_def hasHeadroom_def roleCount_def roleCap_def mintLease_def
        settle_def release_def drainWaiters.simps)
  have "count (mset (map waiter_promise (pending ?s) @ map fst (settled ?s))) 1 = 1"
    using limiter_serves [OF demo_created refl, THEN conjunct1] s(2) by (metis one_less_numeral_iff semiring_norm(76))
  with s(1) show ?thesis unfolding Let_def by blast
qed

end
