(* ===== verification/Digits.thy ===== *)
theory Digits
  imports Shamu_Prelude "HOL-Library.Word"
begin

text \<open>
  Positional numerals, for the components that turn bytes into text: the value of a list of digits, most significant
  first, and how it relates to the order of the lists, to leading zeros and to the length. Bytes are \<open>8 word\<close>.
\<close>

section \<open>Value of a list of digits\<close>

primrec digits_value :: "nat \<Rightarrow> nat list \<Rightarrow> nat" where
  "digits_value b [] = 0"
| "digits_value b (d # ds) = d * b ^ length ds + digits_value b ds"

lemma digits_value_snoc: "digits_value b (ds @ [d]) = digits_value b ds * b + d"
  by (induction ds) (simp_all add: algebra_simps)

lemma digits_value_append: "digits_value b (ds @ es) = digits_value b ds * b ^ length es + digits_value b es"
  by (induction ds) (simp_all add: power_add algebra_simps)

lemma digits_value_less: "list_all (\<lambda>d. d < b) ds \<Longrightarrow> digits_value b ds < b ^ length ds"
proof (induction ds)
  case (Cons d ds)
  then have "d * b ^ length ds + digits_value b ds < Suc d * b ^ length ds" by simp
  also have "\<dots> \<le> b * b ^ length ds" using Cons.prems by (intro mult_le_mono1) simp
  finally show ?case by simp
qed simp

text \<open>Digit lists of equal length compare like the numbers they denote.\<close>

lemma digits_value_lex:
  assumes "length ds = length es" and "list_all (\<lambda>d. d < b) ds" and "list_all (\<lambda>d. d < b) es"
  shows "digits_value b ds < digits_value b es \<longleftrightarrow> ds < es"
  using assms
proof (induction ds es rule: list_induct2)
  case (Cons d ds e es)
  have big: "x * b ^ length ds + digits_value b xs < y * b ^ length ds + digits_value b ys"
    if "x < y" "list_all (\<lambda>d. d < b) xs" "length xs = length ds" for x y xs ys
  proof -
    have "x * b ^ length ds + digits_value b xs < Suc x * b ^ length ds" using digits_value_less [OF that(2)] that(3) by simp
    also have "\<dots> \<le> y * b ^ length ds" using that(1) by (intro mult_le_mono1) simp
    finally show ?thesis by simp
  qed
  show ?case
  proof (cases d e rule: linorder_cases)
    case less
    then show ?thesis using Cons big [of d e ds es] by (simp add: list_less_def)
  next
    case greater
    then show ?thesis using Cons \<open>e < d\<close> big [of e d es ds] by (auto simp: list_less_def)
  qed (use Cons in \<open>simp add: list_less_def\<close>)
qed simp



text \<open>Without leading zeros the value determines the digits.\<close>

lemma digits_value_zeros: "list_all (\<lambda>d. d = 0) ds \<Longrightarrow> digits_value b (ds @ es) = digits_value b es"
  by (induction ds) auto

lemma digits_value_strip: "digits_value b (dropWhile (\<lambda>d. d = 0) ds) = digits_value b ds"
  by (induction ds) auto

definition stripped :: "nat list \<Rightarrow> bool" where
  "stripped ds \<longleftrightarrow> (case ds of [] \<Rightarrow> True | d # _ \<Rightarrow> d \<noteq> 0)"

lemma stripped_dropWhile: "stripped (dropWhile (\<lambda>d. d = 0) ds)"
  by (induction ds) (auto simp: stripped_def)

lemma digits_value_ge: "ds \<noteq> [] \<Longrightarrow> stripped ds \<Longrightarrow> b ^ (length ds - 1) \<le> digits_value b ds"
  by (cases ds) (auto simp: stripped_def intro: trans_le_add1)

lemma stripped_length:
  assumes "digits_value b ds = digits_value b es" and "stripped ds" and "list_all (\<lambda>d. d < b) es" and "1 < b"
  shows "length ds \<le> length es"
proof (cases "ds = []")
  case False
  have "b ^ (length ds - 1) < b ^ length es"
    using digits_value_ge [OF False assms(2), of b] digits_value_less [OF assms(3)] assms(1) by simp
  then have "length ds - 1 < length es" by (rule power_less_imp_less_exp [OF assms(4)])
  then show ?thesis by simp
qed simp

lemma digits_value_inject:
  assumes "digits_value b ds = digits_value b es" and "stripped ds" and "stripped es"
    and "list_all (\<lambda>d. d < b) ds" and "list_all (\<lambda>d. d < b) es" and "1 < b"
  shows "ds = es"
proof -
  have "length ds = length es" using stripped_length [of b ds es] stripped_length [of b es ds] assms by simp
  then show ?thesis using digits_value_lex [of ds es b] digits_value_lex [of es ds b] assms by (metis linorder_neqE order_less_irrefl)
qed

section \<open>Bytes\<close>

type_synonym byte = "8 word"

definition bytes_value :: "byte list \<Rightarrow> nat" where
  "bytes_value bytes = digits_value 256 (map unat bytes)"

lemma byte_less: "unat (b :: byte) < 256"
proof -
  have "unat b < 2 ^ LENGTH(8)" by (rule unsigned_less)
  then show ?thesis by simp
qed

lemma bytes_value_less: "bytes_value bytes < 256 ^ length bytes"
  using digits_value_less [of 256 "map unat bytes"] by (simp add: bytes_value_def list_all_iff byte_less)

end
