(* ===== verification/Ulid.thy ===== *)
theory Ulid
  imports Digits
begin

text \<open>
  The identifiers of the program (\<^verbatim>\<open>packages/shared/src/ulid.ts\<close> and \<^verbatim>\<open>ids.ts\<close>): 48 bits of time and 80 random bits in
  Crockford's base 32. The random part is an array of bytes; inside one millisecond it is incremented in place.
  Bytes are \<open>8 word\<close>, the bit buffer of the encoder is a \<open>32 word\<close> as JavaScript's bit operators make it. The
  random source is a parameter: every call gets the bytes it would draw.
\<close>

unbundle bit_operations_syntax

section \<open>Model\<close>

definition CROCKFORD :: string where
  "CROCKFORD = ''0123456789ABCDEFGHJKMNPQRSTVWXYZ''"

definition TIME_LEN :: nat where "TIME_LEN = 10"

definition RAND_LEN :: nat where "RAND_LEN = 16"

definition ULID_LENGTH :: nat where "ULID_LENGTH = TIME_LEN + RAND_LEN"

datatype ulid_error = RangeError | Overflowed

record ulid_state =
  lastTime :: ms
  lastRand :: "byte list"

definition ulid_init :: ulid_state where
  "ulid_init = \<lparr>lastTime = - 1, lastRand = replicate 10 0\<rparr>"

fun encode_time_loop :: "nat \<Rightarrow> int \<Rightarrow> string \<Rightarrow> string" where
  "encode_time_loop 0 rem out = out"
| "encode_time_loop (Suc i) rem out =
     encode_time_loop i ((rem - rem mod 32) div 32) ((CROCKFORD ! nat (rem mod 32)) # out)"

definition encodeTime :: "ms \<Rightarrow> ulid_error + string" where
  "encodeTime t = (if t < 0 then Inl RangeError else Inr (encode_time_loop TIME_LEN t []))"

text \<open>The inner \<^verbatim>\<open>while\<close>: five bits at a time, most significant first.\<close>

function emit_bits :: "32 word \<Rightarrow> nat \<Rightarrow> string \<Rightarrow> 32 word \<times> nat \<times> string" where
  "emit_bits bitBuffer bitCount out =
     (if bitCount \<ge> 5 then
        let n = bitCount - 5; idx = drop_bit n bitBuffer AND 31
        in emit_bits (bitBuffer AND (push_bit n 1 - 1)) n (out @ [CROCKFORD ! unat idx])
      else (bitBuffer, bitCount, out))"
  by pat_completeness auto
termination by (relation "measure (\<lambda>(b, n, out). n)") auto

declare emit_bits.simps [simp del]

fun encode_random_loop :: "byte list \<Rightarrow> 32 word \<Rightarrow> nat \<Rightarrow> string \<Rightarrow> string" where
  "encode_random_loop [] bitBuffer bitCount out = out"
| "encode_random_loop (b # bytes) bitBuffer bitCount out =
     (let (buf, n, out') = emit_bits (push_bit 8 bitBuffer OR ucast b) (bitCount + 8) out
      in encode_random_loop bytes buf n out')"

definition encodeRandom :: "byte list \<Rightarrow> string" where
  "encodeRandom bytes = encode_random_loop bytes 0 0 []"

text \<open>\<^verbatim>\<open>incrementBytes\<close> from index \<open>i - 1\<close> down. The result says whether a byte took the carry; when none did the
  source throws, after it has set every byte to zero.\<close>

fun increment_from :: "nat \<Rightarrow> byte list \<Rightarrow> bool \<times> byte list" where
  "increment_from 0 bytes = (False, bytes)"
| "increment_from (Suc i) bytes =
     (if bytes ! i = 0xff then increment_from i (bytes[i := 0]) else (True, bytes[i := bytes ! i + 1]))"

definition incrementBytes :: "byte list \<Rightarrow> bool \<times> byte list" where
  "incrementBytes bytes = increment_from (length bytes) bytes"

text \<open>\<open>fresh\<close> is what \<^verbatim>\<open>getRandomValues\<close> fills in.\<close>

definition ulid :: "ms \<Rightarrow> byte list \<Rightarrow> ulid_state \<Rightarrow> (ulid_error + string) \<times> ulid_state" where
  "ulid now fresh s =
     (if now = lastTime s then
        let (carried, r) = incrementBytes (lastRand s); s1 = s\<lparr>lastRand := r\<rparr>
        in if \<not> carried then (Inl Overflowed, s1)
           else (bind_result (encodeTime now) (\<lambda>t. Inr (t @ encodeRandom r)), s1)
      else
        (bind_result (encodeTime now) (\<lambda>t. Inr (t @ encodeRandom fresh)), s\<lparr>lastRand := fresh, lastTime := now\<rparr>))"

definition isUlid :: "string \<Rightarrow> bool" where
  "isUlid s \<longleftrightarrow> length s = ULID_LENGTH \<and> list_all (\<lambda>c. c \<in> set CROCKFORD) s"

text \<open>The factories of \<^verbatim>\<open>ids.ts\<close> check a string and return it.\<close>

datatype id_error = NotNonEmpty string | NotUlid string

definition requireNonEmpty :: "string \<Rightarrow> string \<Rightarrow> id_error + unit" where
  "requireNonEmpty v name = guard_result (v \<noteq> []) (NotNonEmpty name)"

definition requireUlid :: "string \<Rightarrow> string \<Rightarrow> id_error + unit" where
  "requireUlid v name = bind_result (requireNonEmpty v name) (\<lambda>_. guard_result (isUlid v) (NotUlid name))"

definition runId :: "string \<Rightarrow> id_error + string" where
  "runId v = bind_result (requireNonEmpty v ''RunId'') (\<lambda>_. Inr v)"

definition sessionId :: "string \<Rightarrow> id_error + string" where
  "sessionId v = bind_result (requireNonEmpty v ''SessionId'') (\<lambda>_. Inr v)"

definition turnId :: "string \<Rightarrow> id_error + string" where
  "turnId v = bind_result (requireNonEmpty v ''TurnId'') (\<lambda>_. Inr v)"

definition toolCallId :: "string \<Rightarrow> id_error + string" where
  "toolCallId v = bind_result (requireNonEmpty v ''ToolCallId'') (\<lambda>_. Inr v)"

definition leaseId :: "string \<Rightarrow> id_error + string" where
  "leaseId v = bind_result (requireNonEmpty v ''LeaseId'') (\<lambda>_. Inr v)"

definition swarmId :: "string \<Rightarrow> id_error + string" where
  "swarmId v = bind_result (requireNonEmpty v ''SwarmId'') (\<lambda>_. Inr v)"

definition workflowRunId :: "string \<Rightarrow> id_error + string" where
  "workflowRunId v = bind_result (requireNonEmpty v ''WorkflowRunId'') (\<lambda>_. Inr v)"

definition eventId :: "string \<Rightarrow> id_error + string" where
  "eventId v = bind_result (requireUlid v ''EventId'') (\<lambda>_. Inr v)"

definition auditEventId :: "string \<Rightarrow> id_error + string" where
  "auditEventId v = bind_result (requireUlid v ''AuditEventId'') (\<lambda>_. Inr v)"

text \<open>\<^verbatim>\<open>parseRunId\<close> takes an unknown value; \<open>None\<close> is one that is not a string.\<close>

definition parseRunId :: "string option \<Rightarrow> id_error + string" where
  "parseRunId input = (case input of None \<Rightarrow> Inl (NotNonEmpty ''RunId'') | Some v \<Rightarrow> runId v)"

definition newRunId :: "ms \<Rightarrow> byte list \<Rightarrow> ulid_state \<Rightarrow> (ulid_error + string) \<times> ulid_state" where
  "newRunId now fresh s = ulid now fresh s"

definition newSessionId :: "ms \<Rightarrow> byte list \<Rightarrow> ulid_state \<Rightarrow> (ulid_error + string) \<times> ulid_state" where
  "newSessionId now fresh s = ulid now fresh s"

definition newTurnId :: "ms \<Rightarrow> byte list \<Rightarrow> ulid_state \<Rightarrow> (ulid_error + string) \<times> ulid_state" where
  "newTurnId now fresh s = ulid now fresh s"

definition newToolCallId :: "ms \<Rightarrow> byte list \<Rightarrow> ulid_state \<Rightarrow> (ulid_error + string) \<times> ulid_state" where
  "newToolCallId now fresh s = ulid now fresh s"

definition newLeaseId :: "ms \<Rightarrow> byte list \<Rightarrow> ulid_state \<Rightarrow> (ulid_error + string) \<times> ulid_state" where
  "newLeaseId now fresh s = ulid now fresh s"

definition newSwarmId :: "ms \<Rightarrow> byte list \<Rightarrow> ulid_state \<Rightarrow> (ulid_error + string) \<times> ulid_state" where
  "newSwarmId now fresh s = ulid now fresh s"

definition newWorkflowRunId :: "ms \<Rightarrow> byte list \<Rightarrow> ulid_state \<Rightarrow> (ulid_error + string) \<times> ulid_state" where
  "newWorkflowRunId now fresh s = ulid now fresh s"

definition newAuditEventId :: "ms \<Rightarrow> byte list \<Rightarrow> ulid_state \<Rightarrow> (ulid_error + string) \<times> ulid_state" where
  "newAuditEventId now fresh s = ulid now fresh s"

definition newEventId :: "ms \<Rightarrow> byte list \<Rightarrow> ulid_state \<Rightarrow> (ulid_error + string) \<times> ulid_state" where
  "newEventId now fresh s = ulid now fresh s"

text \<open>A process draws identifiers one after the other.\<close>

fun draw :: "(ms \<times> byte list) list \<Rightarrow> ulid_state \<Rightarrow> (ulid_error + string) list" where
  "draw [] s = []"
| "draw ((now, fresh) # calls) s = (let (r, s1) = newEventId now fresh s in r # draw calls s1)"

section \<open>The alphabet\<close>

lemma CROCKFORD_sorted: "sorted_wrt (<) CROCKFORD"
  unfolding CROCKFORD_def by code_simp

lemma CROCKFORD_length: "length CROCKFORD = 32"
  by (simp add: CROCKFORD_def)

lemma CROCKFORD_mono: "i < 32 \<Longrightarrow> j < 32 \<Longrightarrow> CROCKFORD ! i < CROCKFORD ! j \<longleftrightarrow> i < j"
  using CROCKFORD_sorted unfolding sorted_wrt_iff_nth_less CROCKFORD_length
  by (metis linorder_less_linear order_less_not_sym)

definition digit_text :: "nat list \<Rightarrow> string" where
  "digit_text ds = map ((!) CROCKFORD) ds"

lemma digit_text_lex:
  assumes "length ds = length es" and "list_all (\<lambda>d. d < 32) ds" and "list_all (\<lambda>d. d < 32) es"
  shows "digit_text ds < digit_text es \<longleftrightarrow> ds < es"
  using assms
proof (induction ds es rule: list_induct2)
  case (Cons d ds e es)
  have "CROCKFORD ! d = CROCKFORD ! e \<longleftrightarrow> d = e"
    using CROCKFORD_mono [of d e] CROCKFORD_mono [of e d] Cons.prems by (metis list.pred_inject(2) linorder_neqE_nat order_less_irrefl)
  then show ?case using Cons CROCKFORD_mono [of d e] by (simp add: digit_text_def list_less_def)
qed simp

lemma digit_text_ok: "list_all (\<lambda>d. d < 32) ds \<Longrightarrow> list_all (\<lambda>c. c \<in> set CROCKFORD) (digit_text ds)"
  by (auto simp: digit_text_def list_all_iff CROCKFORD_length)

section \<open>The time part\<close>

primrec time_digits :: "nat \<Rightarrow> nat \<Rightarrow> nat list" where
  "time_digits 0 t = []"
| "time_digits (Suc n) t = time_digits n (t div 32) @ [t mod 32]"

lemma time_digits_ok: "length (time_digits n t) = n" "list_all (\<lambda>d. d < 32) (time_digits n t)"
  by (induction n arbitrary: t) auto

lemma time_digits_value: "digits_value 32 (time_digits n t) = t mod 32 ^ n"
proof (induction n arbitrary: t)
  case (Suc n)
  have "digits_value 32 (time_digits (Suc n) t) = (t div 32 mod 32 ^ n) * 32 + t mod 32"
    by (simp add: digits_value_snoc Suc)
  also have "\<dots> = t mod (32 * 32 ^ n)" by (simp add: mod_mult2_eq)
  finally show ?case by simp
qed simp

lemma encode_time_digits: "0 \<le> t \<Longrightarrow> encode_time_loop n t out = digit_text (time_digits n (nat t)) @ out"
proof (induction n arbitrary: t out)
  case (Suc n)
  have "(t - t mod 32) div 32 = t div 32" by (simp add: minus_mod_eq_div_mult)
  then show ?case using Suc
    by (simp add: digit_text_def nat_div_distrib nat_mod_distrib)
qed (simp add: digit_text_def)

lemma encodeTime_digits: "encodeTime t = Inr x \<Longrightarrow> 0 \<le> t \<and> x = digit_text (time_digits 10 (nat t))"
  by (auto simp: encodeTime_def TIME_LEN_def encode_time_digits simp del: time_digits.simps split: if_splits)

section \<open>The random part\<close>

lemma take_five: "unat (drop_bit n w AND 31) = unat w div 2 ^ n mod 32" for w :: "32 word"
proof -
  have "drop_bit n w AND 31 = take_bit 5 (drop_bit n w)" by (simp add: take_bit_eq_mask mask_numeral)
  then have "unat (drop_bit n w AND 31) = take_bit 5 (drop_bit n (unat w))" by (simp only: unsigned_take_bit_eq unat_drop_bit_eq)
  then show ?thesis by (simp add: take_bit_eq_mod drop_bit_eq_div)
qed

lemma keep_low: "unat (w AND (push_bit n 1 - 1)) = unat w mod 2 ^ n" for w :: "32 word"
proof -
  have "w AND (push_bit n 1 - 1) = take_bit n w" by (simp add: take_bit_eq_mask mask_eq_exp_minus_1)
  then have "unat (w AND (push_bit n 1 - 1)) = take_bit n (unat w)" by (simp only: unsigned_take_bit_eq)
  then show ?thesis by (simp only: take_bit_eq_mod)
qed

lemma append_byte:
  fixes buf :: "32 word" and b :: byte
  assumes "unat buf < 2 ^ 5"
  shows "unat (push_bit 8 buf OR ucast b) = unat buf * 256 + unat b"
proof -
  have "unat b < 2 ^ LENGTH(8)" by (rule unsigned_less)
  then have b: "unat b < 256" by simp
  have "push_bit 8 buf AND ucast b = 0" by (rule bit_eqI) (auto simp: bit_simps dest: bit_imp_le_length)
  then have "push_bit 8 buf OR ucast b = push_bit 8 buf + ucast b" by (simp add: disjunctive_add_eq_or)
  moreover have "unat (push_bit 8 buf) = unat buf * 256"
    using assms by (simp add: push_bit_eq_mult unat_word_ariths(2))
  moreover have "unat (ucast b :: 32 word) = unat b" using b by (simp add: unsigned_ucast_eq take_bit_nat_eq_self)
  ultimately show ?thesis using assms b by (simp add: unat_word_ariths)
qed

lemma emit_bits_spec:
  assumes "unat buf < 2 ^ n"
  shows "\<exists>ds buf'. emit_bits buf n out = (buf', n mod 5, out @ digit_text ds) \<and> length ds = n div 5 \<and>
    list_all (\<lambda>d. d < 32) ds \<and> unat buf' < 2 ^ (n mod 5) \<and> digits_value 32 ds * 2 ^ (n mod 5) + unat buf' = unat buf"
  using assms
proof (induction buf n out rule: emit_bits.induct)
  case (1 buf n out)
  show ?case
  proof (cases "n \<ge> 5")
    case False
    then have "emit_bits buf n out = (buf, n mod 5, out @ digit_text [])" by (simp add: emit_bits.simps digit_text_def)
    then show ?thesis using False 1(2) by (intro exI [of _ "[]"] exI [of _ buf]) simp
  next
    case True
    define m where "m = n - 5"
    define d where "d = unat (drop_bit m buf AND 31)"
    define rest where "rest = buf AND (push_bit m 1 - 1)"
    have n: "n = m + 5" using True by (simp add: m_def)
    have q: "unat buf div 2 ^ m < 32" using 1(2) by (simp add: n power_add less_mult_imp_div_less)
    then have d: "d = unat buf div 2 ^ m" by (simp add: d_def take_five)
    have r: "unat rest = unat buf mod 2 ^ m" unfolding rest_def by (rule keep_low)
    obtain ds buf' where e: "emit_bits rest m (out @ [CROCKFORD ! d]) = (buf', m mod 5, (out @ [CROCKFORD ! d]) @ digit_text ds)"
      and l: "length ds = m div 5" and ok: "list_all (\<lambda>d. d < 32) ds" and b: "unat buf' < 2 ^ (m mod 5)"
      and v: "digits_value 32 ds * 2 ^ (m mod 5) + unat buf' = unat rest"
      using 1(1) [OF True m_def refl, of] r unfolding rest_def d_def by auto
    have "emit_bits buf n out = (buf', n mod 5, out @ digit_text (d # ds))"
      using True e by (subst emit_bits.simps) (simp add: m_def [symmetric] d_def rest_def digit_text_def n)
    moreover have "digits_value 32 (d # ds) * 2 ^ (n mod 5) + unat buf' = unat buf"
    proof -
      have "(32 :: nat) ^ (m div 5) = 2 ^ (5 * (m div 5))" by (simp add: power_mult)
      then have "(32 :: nat) ^ (m div 5) * 2 ^ (m mod 5) = 2 ^ m" by (simp add: power_add [symmetric])
      then have p: "(32 :: nat) ^ length ds * 2 ^ (m mod 5) = 2 ^ m" by (simp only: l)
      have "digits_value 32 (d # ds) * 2 ^ (n mod 5) = d * 2 ^ m + digits_value 32 ds * 2 ^ (m mod 5)"
        by (simp only: n mod_add_self2 digits_value.simps distrib_right mult.assoc p)
      moreover have "d * 2 ^ m + unat buf mod 2 ^ m = unat buf" by (simp only: d div_mult_mod_eq)
      ultimately show ?thesis using v r by linarith
    qed
    ultimately show ?thesis using l ok b q d by (intro exI [of _ "d # ds"] exI [of _ buf']) (simp add: n)
  qed
qed


lemma pow32: "(32 :: nat) ^ (k div 5) * 2 ^ (k mod 5) = 2 ^ k"
proof -
  have "(32 :: nat) ^ (k div 5) = 2 ^ (5 * (k div 5))" by (simp add: power_mult)
  then show ?thesis by (simp add: power_add [symmetric])
qed

lemma div_carry: "(a + b) div 5 = a div 5 + (a mod 5 + b) div (5 :: nat)"
proof -
  have "a + b = (a mod 5 + b) + a div 5 * 5" by simp
  then have "(a + b) div 5 = ((a mod 5 + b) + a div 5 * 5) div 5" by (rule arg_cong)
  also have "\<dots> = a div 5 + (a mod 5 + b) div 5" by (subst div_mult_self1) simp_all
  finally show ?thesis .
qed

lemma random_loop_spec:
  assumes "unat buf < 2 ^ n" and "n < 5"
  shows "\<exists>ds r. encode_random_loop bytes buf n out = out @ digit_text ds \<and> length ds = (n + 8 * length bytes) div 5 \<and>
    list_all (\<lambda>d. d < 32) ds \<and> r < 2 ^ ((n + 8 * length bytes) mod 5) \<and>
    digits_value 32 ds * 2 ^ ((n + 8 * length bytes) mod 5) + r = unat buf * 256 ^ length bytes + bytes_value bytes"
  using assms
proof (induction bytes arbitrary: buf n out)
  case Nil
  then show ?case by (intro exI [of _ "[]"] exI [of _ "unat buf"]) (simp add: digit_text_def bytes_value_def)
next
  case (Cons b bytes)
  let ?L = "length bytes" and ?m = "(n + 8) mod 5"
  have "(2 :: nat) ^ n \<le> 2 ^ 5" using Cons.prems(2) by (intro power_increasing) auto
  then have "unat buf < 2 ^ 5" using Cons.prems(1) by (rule less_le_trans [rotated])
  then have a: "unat (push_bit 8 buf OR ucast b) = unat buf * 256 + unat b" by (rule append_byte)
  have "Suc (unat buf) * 256 \<le> 2 ^ n * 256" using Cons.prems(1) by (intro mult_le_mono1) simp
  then have "unat (push_bit 8 buf OR ucast b) < 2 ^ (n + 8)" using byte_less [of b] unfolding a power_add by simp
  from emit_bits_spec [OF this, of out] obtain ds1 buf1 where e: "emit_bits (push_bit 8 buf OR ucast b) (n + 8) out = (buf1, ?m, out @ digit_text ds1)"
    and l1: "length ds1 = (n + 8) div 5" and ok1: "list_all (\<lambda>d. d < 32) ds1" and b1: "unat buf1 < 2 ^ ?m"
    and v1: "digits_value 32 ds1 * 2 ^ ?m + unat buf1 = unat buf * 256 + unat b" unfolding a by blast
  from Cons.IH [OF b1, of "out @ digit_text ds1"] obtain ds2 r where
    e2: "encode_random_loop bytes buf1 ?m (out @ digit_text ds1) = (out @ digit_text ds1) @ digit_text ds2"
    and l2: "length ds2 = (?m + 8 * ?L) div 5" and ok2: "list_all (\<lambda>d. d < 32) ds2" and r: "r < 2 ^ ((?m + 8 * ?L) mod 5)"
    and v2: "digits_value 32 ds2 * 2 ^ ((?m + 8 * ?L) mod 5) + r = unat buf1 * 256 ^ ?L + bytes_value bytes" by auto
  have k: "(n + 8 * length (b # bytes)) mod 5 = (?m + 8 * ?L) mod 5" by simp presburger
  have l: "length (ds1 @ ds2) = (n + 8 * length (b # bytes)) div 5" unfolding length_append l1 l2
    using div_carry [of "n + 8" "8 * ?L"] by (simp add: add.assoc)
  have p: "(32 :: nat) ^ length ds2 * 2 ^ ((?m + 8 * ?L) mod 5) = 2 ^ ?m * 256 ^ ?L"
    using pow32 [of "?m + 8 * ?L"] by (simp add: l2 power_add power_mult)
  have "digits_value 32 (ds1 @ ds2) * 2 ^ ((?m + 8 * ?L) mod 5) + r =
      digits_value 32 ds1 * (32 ^ length ds2 * 2 ^ ((?m + 8 * ?L) mod 5)) + (digits_value 32 ds2 * 2 ^ ((?m + 8 * ?L) mod 5) + r)"
    by (simp add: digits_value_append algebra_simps)
  also have "\<dots> = (digits_value 32 ds1 * 2 ^ ?m + unat buf1) * 256 ^ ?L + bytes_value bytes"
    unfolding p v2 by (simp add: algebra_simps)
  also have "\<dots> = unat buf * 256 ^ length (b # bytes) + bytes_value (b # bytes)"
    unfolding v1 by (simp add: bytes_value_def algebra_simps)
  finally have v: "digits_value 32 (ds1 @ ds2) * 2 ^ ((n + 8 * length (b # bytes)) mod 5) + r =
    unat buf * 256 ^ length (b # bytes) + bytes_value (b # bytes)" unfolding k .
  have "encode_random_loop (b # bytes) buf n out = out @ digit_text (ds1 @ ds2)" using e e2 by (simp add: digit_text_def)
  then show ?case using l v r ok1 ok2 unfolding k by (intro exI [of _ "ds1 @ ds2"] exI [of _ r]) simp
qed

lemma encodeRandom_spec:
  assumes "length bytes = 10"
  obtains ds where "encodeRandom bytes = digit_text ds" and "length ds = 16" and "list_all (\<lambda>d. d < 32) ds"
    and "digits_value 32 ds = bytes_value bytes"
  using random_loop_spec [of 0 0 bytes "[]"] assms by (auto simp: encodeRandom_def)

section \<open>The increment\<close>

lemma bytes_value_update:
  assumes "i < length bytes"
  shows "bytes_value (bytes[i := x]) + unat (bytes ! i) * 256 ^ (length bytes - Suc i) =
    bytes_value bytes + unat x * 256 ^ (length bytes - Suc i)"
proof -
  have "bytes_value bytes = bytes_value (take i bytes @ bytes ! i # drop (Suc i) bytes)"
    by (simp add: id_take_nth_drop [OF assms, symmetric])
  moreover have "bytes_value (bytes[i := x]) = bytes_value (take i bytes @ x # drop (Suc i) bytes)"
    by (simp add: upd_conv_take_nth_drop [OF assms])
  ultimately show ?thesis by (simp add: bytes_value_def digits_value_append algebra_simps)
qed

lemma increment_from_value:
  "i \<le> length bytes \<Longrightarrow> increment_from i bytes = (c, r) \<Longrightarrow>
    length r = length bytes \<and> (c \<longrightarrow> bytes_value r = bytes_value bytes + 256 ^ (length bytes - i))"
proof (induction i bytes rule: increment_from.induct)
  case (2 i bytes)
  have s: "length bytes - i = Suc (length bytes - Suc i)" using 2(2) by simp
  show ?case
  proof (cases "bytes ! i = 0xff")
    case True
    then show ?thesis using 2 bytes_value_update [of i bytes 0] s by auto
  next
    case False
    have "unat (bytes ! i + 1) = Suc (unat (bytes ! i))"
    proof -
      have "bytes ! i + 1 \<noteq> 0" using False eq_neg_iff_add_eq_0 [of "bytes ! i" 1] by auto
      then show ?thesis using unatSuc [of "bytes ! i"] by (simp add: add.commute)
    qed
    then show ?thesis using False 2 bytes_value_update [of i bytes "bytes ! i + 1"] by auto
  qed
qed simp

lemma incrementBytes_value:
  "incrementBytes bytes = (True, r) \<Longrightarrow> length r = length bytes \<and> bytes_value r = Suc (bytes_value bytes)"
  using increment_from_value [of "length bytes" bytes True r] by (simp add: incrementBytes_def)


section \<open>Properties\<close>

text \<open>What a successful call returns: the digits of the time followed by those of the random part.\<close>

lemma ulid_spec:
  assumes "ulid now fresh s = (Inr x, s')" and "length fresh = 10" and "length (lastRand s) = 10"
  obtains ds where "x = digit_text ds" and "length ds = 26" and "list_all (\<lambda>d. d < 32) ds"
    and "digits_value 32 ds = (nat now mod 32 ^ 10) * 32 ^ 16 + bytes_value (lastRand s')"
    and "0 \<le> now" and "lastTime s' = now" and "length (lastRand s') = 10"
    and "now = lastTime s \<longrightarrow> bytes_value (lastRand s') = Suc (bytes_value (lastRand s))"
proof -
  have l: "length (lastRand s') = 10" and t: "lastTime s' = now"
    and b: "bind_result (encodeTime now) (\<lambda>t. Inr (t @ encodeRandom (lastRand s'))) = Inr x"
    and inc: "now = lastTime s \<longrightarrow> bytes_value (lastRand s') = Suc (bytes_value (lastRand s))"
    using assms incrementBytes_value by (auto simp: ulid_def Let_def split: if_splits prod.splits)
  from b obtain y where y: "encodeTime now = Inr y" and x: "x = y @ encodeRandom (lastRand s')"
    by (auto simp: bind_result_Inr)
  obtain ds where ds: "encodeRandom (lastRand s') = digit_text ds" "length ds = 16" "list_all (\<lambda>d. d < 32) ds"
    "digits_value 32 ds = bytes_value (lastRand s')" using encodeRandom_spec [OF l] .
  have y': "0 \<le> now" "y = digit_text (time_digits 10 (nat now))" using encodeTime_digits [OF y] by blast+
  show ?thesis
  proof (rule that)
    show "x = digit_text (time_digits 10 (nat now) @ ds)" by (simp add: x y' ds digit_text_def)
    show "digits_value 32 (time_digits 10 (nat now) @ ds) = (nat now mod 32 ^ 10) * 32 ^ 16 + bytes_value (lastRand s')"
      by (simp only: digits_value_append ds time_digits_value)
  qed (use ds time_digits_ok [of 10 "nat now"] y' t l inc in simp_all)
qed

lemma ulid_next_larger:
  assumes "ulid now fresh s = (Inr x, s')" and "length fresh = 10" and "length (lastRand s) = 10"
    and "ulid now' fresh' s' = (Inr x', s'')" and "length fresh' = 10" and "now \<le> now'" and "now' < 32 ^ 10"
  shows "x < x'"
proof -
  obtain ds where ds: "x = digit_text ds" "length ds = 26" "list_all (\<lambda>d. d < 32) ds"
    "digits_value 32 ds = (nat now mod 32 ^ 10) * 32 ^ 16 + bytes_value (lastRand s')" "0 \<le> now" "lastTime s' = now"
    and l: "length (lastRand s') = 10" using ulid_spec [OF assms(1-3)] .
  obtain es where es: "x' = digit_text es" "length es = 26" "list_all (\<lambda>d. d < 32) es"
    "digits_value 32 es = (nat now' mod 32 ^ 10) * 32 ^ 16 + bytes_value (lastRand s'')" "0 \<le> now'"
    and inc: "now' = lastTime s' \<longrightarrow> bytes_value (lastRand s'') = Suc (bytes_value (lastRand s'))"
    using ulid_spec [OF assms(4,5) l] by metis
  have m: "nat now mod 32 ^ 10 = nat now" "nat now' mod 32 ^ 10 = nat now'" using assms(6,7) ds(5) es(5) by (simp_all add: nat_less_iff)
  have r: "bytes_value (lastRand s') < 32 ^ 16" using bytes_value_less [of "lastRand s'"] by (simp add: l)
  have "digits_value 32 ds < digits_value 32 es"
  proof (cases "now = now'")
    case True
    then show ?thesis using inc ds es by simp
  next
    case False
    then have "Suc (nat now) \<le> nat now'" using assms(6) ds(5) by linarith
    then have "Suc (nat now) * 32 ^ 16 \<le> nat now' * 32 ^ 16" by (rule mult_le_mono1)
    then show ?thesis using r unfolding ds(4) es(4) m by simp
  qed
  then show ?thesis using digits_value_lex [of ds es 32] digit_text_lex [of ds es] ds es by simp
qed

lemma draw_Cons: "draw ((now, fresh) # calls) s = fst (ulid now fresh s) # draw calls (snd (ulid now fresh s))"
  by (simp add: newEventId_def case_prod_beta Let_def)

lemma draw_increasing:
  assumes "list_all (\<lambda>(t, fresh). t < 32 ^ 10 \<and> length fresh = 10) calls" and "sorted (map fst calls)"
    and "map Inr xs = draw calls s" and "length (lastRand s) = 10"
  shows "sorted_wrt (<) xs \<and> list_all isUlid xs"
  using assms
proof (induction calls arbitrary: s xs)
  case (Cons call calls)
  obtain t fresh where c: "call = (t, fresh)" by fastforce
  obtain x s1 where u: "ulid t fresh s = (Inr x, s1)" and xs: "xs = x # tl xs" "map Inr (tl xs) = draw calls s1"
  proof -
    have "map Inr xs = fst (ulid t fresh s) # draw calls (snd (ulid t fresh s))" using Cons.prems(3) by (simp only: c draw_Cons)
    then show ?thesis using that by (cases xs) (auto simp: prod_eq_iff dest: sym)
  qed
  have f: "length fresh = 10" using Cons.prems(1) c by simp
  obtain ds where ds: "x = digit_text ds" "length ds = 26" "list_all (\<lambda>d. d < 32) ds" and l: "length (lastRand s1) = 10"
    using ulid_spec [OF u f Cons.prems(4)] by metis
  have ok: "isUlid x" using ds(2) digit_text_ok [OF ds(3)]
    by (simp add: isUlid_def ds(1) ULID_LENGTH_def TIME_LEN_def RAND_LEN_def digit_text_def)
  have IH: "sorted_wrt (<) (tl xs) \<and> list_all isUlid (tl xs)" using Cons.IH [OF _ _ xs(2) l] Cons.prems(1,2) by simp
  have "sorted_wrt (<) (x # tl xs)"
  proof (cases calls)
    case Nil
    then show ?thesis using xs(2) by simp
  next
    case (Cons call' calls')
    obtain t' fresh' where c': "call' = (t', fresh')" by fastforce
    obtain x' s2 where u': "ulid t' fresh' s1 = (Inr x', s2)" and hd: "tl xs = x' # tl (tl xs)"
      using xs(2) unfolding Cons c' draw_Cons by (cases "tl xs") (auto simp: prod_eq_iff dest: sym)
    have "x < x'" using ulid_next_larger [OF u f Cons.prems(4) u'] Cons.prems(1,2) c c' Cons by simp
    then show ?thesis using IH hd by (metis sorted_wrt2 transp_on_less)
  qed
  then show ?case using IH ok xs(1) by (metis list.pred_inject(2))
qed simp


lemma isUlid_accepted: "isUlid x \<Longrightarrow> eventId x = Inr x \<and> auditEventId x = Inr x"
  by (cases x) (auto simp: eventId_def auditEventId_def requireUlid_def requireNonEmpty_def guard_result_def isUlid_def
      ULID_LENGTH_def TIME_LEN_def)

text \<open>C21: identifiers are well formed. Whatever the clock and the random source give, an identifier that the generator
  returns has 26 characters of the alphabet and passes the factories that demand a ULID, and the state keeps its ten
  random bytes.\<close>

theorem ulid_wellformed:
  assumes "newEventId now fresh s = (Inr x, s')" and "length fresh = 10" and "length (lastRand s) = 10"
  shows "isUlid x \<and> eventId x = Inr x \<and> auditEventId x = Inr x \<and> lastTime s' = now \<and> length (lastRand s') = 10"
proof -
  obtain ds where ds: "x = digit_text ds" "length ds = 26" "list_all (\<lambda>d. d < 32) ds"
    and s: "lastTime s' = now" "length (lastRand s') = 10"
    using ulid_spec [OF assms(1) [unfolded newEventId_def] assms(2,3)] by metis
  have "isUlid x" using ds(2) digit_text_ok [OF ds(3)]
    by (simp add: isUlid_def ds(1) ULID_LENGTH_def TIME_LEN_def RAND_LEN_def digit_text_def)
  then show ?thesis using isUlid_accepted s by blast
qed

text \<open>C20: identifiers increase. When a process draws identifiers at times that do not decrease, and no call throws, the
  identifiers are strictly increasing as strings, so they are all different and sort in the order they were drawn.\<close>

theorem ulids_increase:
  assumes "list_all (\<lambda>(t, fresh). t < 2 ^ 50 \<and> length fresh = 10) calls" and "sorted (map fst calls)"
    and "draw calls ulid_init = map Inr xs"
  shows "sorted_wrt (<) xs \<and> distinct xs"
proof -
  have "list_all (\<lambda>(t, fresh). t < 32 ^ 10 \<and> length fresh = 10) calls" using assms(1) by (simp add: list_all_iff)
  then have "sorted_wrt (<) xs" using draw_increasing [OF _ assms(2) assms(3) [symmetric]] by (simp add: ulid_init_def)
  then show ?thesis by (simp add: strict_sorted_iff)
qed

theorem ulid_wellformed_witness:
  "\<exists>x s'. newEventId 7 (replicate 10 255) ulid_init = (Inr x, s') \<and> eventId x = Inr x"
proof -
  obtain x s' where u: "newEventId 7 (replicate 10 255) ulid_init = (Inr x, s')"
    by (simp add: newEventId_def ulid_def ulid_init_def encodeTime_def)
  moreover have "eventId x = Inr x" using ulid_wellformed [OF u] by (simp add: ulid_init_def)
  ultimately show ?thesis by blast
qed

theorem ulids_increase_witness:
  "\<exists>xs. draw [(7, replicate 10 0), (7, replicate 10 9), (8, replicate 10 0)] ulid_init = map Inr xs \<and> distinct xs"
proof -
  let ?calls = "[(7 :: int, replicate 10 (0 :: byte)), (7, replicate 10 9), (8, replicate 10 0)]"
  have "list_all (\<lambda>(t, fresh). t < 2 ^ 50 \<and> length fresh = 10) ?calls" "sorted (map fst ?calls)" by simp_all
  moreover obtain xs where d: "draw ?calls ulid_init = map Inr xs"
  proof -
    have "incrementBytes (replicate 10 (0 :: byte)) = (True, (replicate 10 0)[9 := 1])"
      using increment_from.simps(2) [of 9 "replicate 10 (0 :: byte)"] by (simp add: incrementBytes_def nth_replicate)
    then have "draw ?calls ulid_init = map Inr (map projr (draw ?calls ulid_init))"
      by (simp add: newEventId_def ulid_def ulid_init_def encodeTime_def Let_def)
    then show ?thesis using that by blast
  qed
  ultimately have "distinct xs" using ulids_increase [of ?calls xs] by blast
  with d show ?thesis by blast
qed

end
