(* ===== verification/Base58.thy ===== *)
theory Base58
  imports Digits
begin

text \<open>
  The base 58 codec of \<^verbatim>\<open>packages/protocol/a2a/src/cards.ts\<close>. Both directions convert between bases in place, in an
  array whose size is computed beforehand from the length of the input (138/100 and 733/1000 of it): the inner loop
  multiplies the number in the array by the old base, adds a digit and stops early, silently, when the array is
  full. The proofs show that the arrays are always large enough and that the two directions are inverse.
\<close>

section \<open>Model\<close>

definition BASE58_ALPHABET :: string where
  "BASE58_ALPHABET = ''123456789ABCDEFGHJKLMNPQRSTUVWXYZabcdefghijkmnopqrstuvwxyz''"

text \<open>\<^verbatim>\<open>BASE58_MAP\<close>: the index of a character in the alphabet.\<close>

fun index_of :: "'a \<Rightarrow> 'a list \<Rightarrow> nat option" where
  "index_of c [] = None"
| "index_of c (x # xs) = (if x = c then Some 0 else map_option Suc (index_of c xs))"

definition BASE58_MAP :: "char \<Rightarrow> nat option" where
  "BASE58_MAP c = index_of c BASE58_ALPHABET"

text \<open>
  The inner loop of both directions. \<open>Suc k\<close> positions are left, so the next one is \<open>k\<close>; \<open>m\<close> is the base of the
  input and \<open>b\<close> that of the output; \<open>j\<close> counts the positions written and \<open>len\<close> those in use before.
\<close>

fun carry_loop :: "nat \<Rightarrow> nat \<Rightarrow> nat \<Rightarrow> nat \<Rightarrow> nat \<Rightarrow> nat \<Rightarrow> nat list \<Rightarrow> nat list \<times> nat" where
  "carry_loop m b 0 carry j len arr = (arr, j)"
| "carry_loop m b (Suc k) carry j len arr =
     (if carry \<noteq> 0 \<or> j < len then
        let c = carry + m * arr ! k in carry_loop m b k (c div b) (Suc j) len (arr[k := c mod b])
      else (arr, j))"

fun convert_loop :: "nat \<Rightarrow> nat \<Rightarrow> nat list \<Rightarrow> nat list \<Rightarrow> nat \<Rightarrow> nat list \<times> nat" where
  "convert_loop m b [] arr len = (arr, len)"
| "convert_loop m b (d # ds) arr len =
     (let (arr', j) = carry_loop m b (length arr) d 0 len arr in convert_loop m b ds arr' j)"

text \<open>After the loops both directions skip to the digits in use and over leading zeros.\<close>

definition used_digits :: "nat list \<Rightarrow> nat \<Rightarrow> nat list" where
  "used_digits arr len = dropWhile (\<lambda>d. d = 0) (drop (length arr - len) arr)"

definition base58btcEncode :: "byte list \<Rightarrow> string" where
  "base58btcEncode bytes =
     (if bytes = [] then []
      else let zeros = length (takeWhile (\<lambda>b. b = 0) bytes);
               rest = map unat (drop zeros bytes);
               size = length rest * 138 div 100 + 1;
               (b58, len) = convert_loop 256 58 rest (replicate size 0) 0
           in replicate zeros (CHR ''1'') @ map ((!) BASE58_ALPHABET) (used_digits b58 len))"

text \<open>An unknown character throws; the digits before it were only added to a local array.\<close>

fun base58_digits :: "string \<Rightarrow> string + nat list" where
  "base58_digits [] = Inr []"
| "base58_digits (c # cs) =
     (case BASE58_MAP c of
        None \<Rightarrow> Inl (''base58btcDecode: invalid character '' @ [c])
      | Some d \<Rightarrow> bind_result (base58_digits cs) (\<lambda>ds. Inr (d # ds)))"

definition base58btcDecode :: "string \<Rightarrow> string + byte list" where
  "base58btcDecode str =
     (if str = [] then Inr []
      else let zeros = length (takeWhile (\<lambda>c. c = CHR ''1'') str);
               rest = drop zeros str;
               size = length rest * 733 div 1000 + 1
           in bind_result (base58_digits rest) (\<lambda>ds.
                let (bytes, len) = convert_loop 58 256 ds (replicate size 0) 0
                in Inr (replicate zeros 0 @ map of_nat (used_digits bytes len))))"

section \<open>The conversion loop\<close>

lemma carry_step:
  fixes A d c m b :: nat
  assumes "(A * b + d) * m + c < b * B"
  shows "A * m + (c + m * d) div b < B"
proof -
  have "(A * m + (c + m * d) div b) * b \<le> A * m * b + (c + m * d)" by (simp add: distrib_right div_times_less_eq_dividend)
  also have "\<dots> = (A * b + d) * m + c" by (simp add: algebra_simps)
  also note assms
  finally show ?thesis by (simp add: mult.commute [of b])
qed

lemma list_all_zero_value: "list_all (\<lambda>d. d = 0) ds \<Longrightarrow> digits_value b ds = 0"
  by (induction ds) auto

text \<open>The loop multiplies the number in the first \<open>k\<close> positions by \<open>m\<close> and adds the carry, provided the result fits.\<close>

lemma carry_loop_correct:
  assumes "carry_loop m b k carry j len arr = (arr', j')" and "k \<le> length arr" and "j = length arr - k" and "1 < b"
    and "digits_value b (take k arr) * m + carry < b ^ k" and "list_all (\<lambda>d. d = 0) (take (min k (length arr - len)) arr)"
  shows "length arr' = length arr \<and> drop k arr' = drop k arr \<and>
    digits_value b (take k arr') = digits_value b (take k arr) * m + carry \<and>
    (list_all (\<lambda>d. d < b) (take k arr) \<longrightarrow> list_all (\<lambda>d. d < b) (take k arr')) \<and>
    j' \<le> length arr \<and> list_all (\<lambda>d. d = 0) (take (length arr - j') arr')"
  using assms
proof (induction m b k carry j len arr rule: carry_loop.induct)
  case (2 m b k carry j len arr)
  define c where "c = carry + m * arr ! k"
  define a where "a = arr[k := c mod b]"
  have k: "k < length arr" and la: "length a = length arr" and ta: "take k a = take k arr" using 2(3) by (simp_all add: a_def)
  have tk: "take (Suc k) xs = take k xs @ [xs ! k]" if "length xs = length arr" for xs :: "nat list"
    using k that by (simp add: take_Suc_conv_app_nth)
  show ?case
  proof (cases "carry \<noteq> 0 \<or> j < len")
    case True
    have l: "carry_loop m b k (c div b) (Suc j) len a = (arr', j')" using 2(2) True by (simp add: Let_def c_def a_def)
    have bound: "digits_value b (take k a) * m + c div b < b ^ k"
      unfolding ta c_def using 2(6) by (intro carry_step) (simp add: tk digits_value_snoc)
    have zeros: "list_all (\<lambda>d. d = 0) (take (min k (length a - len)) a)"
      using 2(7) unfolding la by (auto simp: a_def list_all_length nth_list_update)
    have sj: "Suc j = length a - k" using 2(4) k la by simp
    have IH: "length arr' = length a \<and> drop k arr' = drop k a \<and> digits_value b (take k arr') = digits_value b (take k a) * m + c div b \<and>
      (list_all (\<lambda>d. d < b) (take k a) \<longrightarrow> list_all (\<lambda>d. d < b) (take k arr')) \<and>
      j' \<le> length a \<and> list_all (\<lambda>d. d = 0) (take (length a - j') arr')"
      using 2(1) [OF True c_def, folded a_def, OF l _ sj 2(5) bound zeros] k la by simp
    then have la': "length arr' = length arr" by (simp add: la)
    have at_k: "arr' ! k = c mod b" using IH k la' by (metis Cons_nth_drop_Suc a_def la list.inject nth_list_update_eq)
    have dr: "drop (Suc k) arr' = drop (Suc k) arr" using IH k la' by (metis Cons_nth_drop_Suc a_def drop_update_cancel la lessI list.inject)
    have v: "digits_value b (take (Suc k) arr') = digits_value b (take (Suc k) arr) * m + carry"
      unfolding tk [OF la'] tk [OF refl] digits_value_snoc at_k using IH ta c_def by (simp add: algebra_simps)
    have "list_all (\<lambda>d. d < b) (take (Suc k) arr) \<longrightarrow> list_all (\<lambda>d. d < b) (take (Suc k) arr')"
      unfolding tk [OF la'] tk [OF refl] at_k using IH ta 2(5) by simp
    then show ?thesis using IH la' la dr v by simp
  next
    case False
    then have "length arr - j = Suc k" "Suc k \<le> length arr - len" using 2(3,4) by linarith+
    then have z: "list_all (\<lambda>d. d = 0) (take (length arr - j) arr)" using 2(7) by (simp add: min_absorb1)
    then have "digits_value b (take (Suc k) arr) = 0" using \<open>length arr - j = Suc k\<close> list_all_zero_value by metis
    then show ?thesis using False 2(2,3,4) z by auto
  qed
qed simp

lemma convert_loop_correct:
  assumes "convert_loop m b ds arr len = (arr', len')" and "1 < b" and "1 < m" and "list_all (\<lambda>d. d < b) arr" and "len \<le> length arr"
    and "list_all (\<lambda>d. d = 0) (take (length arr - len) arr)"
    and "digits_value b arr * m ^ length ds + digits_value m ds < b ^ length arr"
  shows "length arr' = length arr \<and> list_all (\<lambda>d. d < b) arr' \<and> list_all (\<lambda>d. d = 0) (take (length arr - len') arr') \<and>
    digits_value b arr' = digits_value b arr * m ^ length ds + digits_value m ds"
  using assms
proof (induction ds arbitrary: arr len)
  case (Cons d ds)
  obtain a j where l: "carry_loop m b (length arr) d 0 len arr = (a, j)" by fastforce
  have "digits_value b arr * m + d \<le> (digits_value b arr * m + d) * m ^ length ds" using Cons.prems(3) by simp
  also have "\<dots> \<le> digits_value b arr * m ^ length (d # ds) + digits_value m (d # ds)" by (simp add: algebra_simps)
  finally have fits: "digits_value b arr * m + d < b ^ length arr" using Cons.prems(7) by (rule le_less_trans)
  have c: "length a = length arr" "digits_value b a = digits_value b arr * m + d" "list_all (\<lambda>d. d < b) a"
    "j \<le> length arr" "list_all (\<lambda>d. d = 0) (take (length arr - j) a)"
    using carry_loop_correct [OF l] Cons.prems(2,4,6) fits by auto
  have "digits_value b a * m ^ length ds + digits_value m ds = digits_value b arr * m ^ length (d # ds) + digits_value m (d # ds)"
    unfolding c(2) by (simp add: algebra_simps)
  then show ?case using Cons.IH [of a j] Cons.prems(1,2,3,7) l c by simp
qed simp

lemma used_digits_correct:
  assumes "convert_loop m b ds (replicate N 0) 0 = (arr, len)" and "1 < b" and "1 < m"
    and "digits_value m ds < b ^ N"
  shows "stripped (used_digits arr len)" and "list_all (\<lambda>d. d < b) (used_digits arr len)"
    and "digits_value b (used_digits arr len) = digits_value m ds"
proof -
  have z: "digits_value b (replicate n 0) = 0" for n by (induction n) auto
  have c: "length arr = N" "list_all (\<lambda>d. d < b) arr" "list_all (\<lambda>d. d = 0) (take (N - len) arr)" "digits_value b arr = digits_value m ds"
    using convert_loop_correct [OF assms(1-3)] assms(2,4) by (auto simp: z list_all_iff)
  show "stripped (used_digits arr len)" unfolding used_digits_def by (rule stripped_dropWhile)
  show "list_all (\<lambda>d. d < b) (used_digits arr len)"
    using c(2) unfolding used_digits_def list_all_iff by (meson in_set_dropD set_dropWhileD)
  have "digits_value b (used_digits arr len) = digits_value b (take (N - len) arr @ drop (N - len) arr)"
    unfolding used_digits_def digits_value_strip c(1) using digits_value_zeros [OF c(3), of b "drop (N - len) arr"] by simp
  then show "digits_value b (used_digits arr len) = digits_value m ds" by (simp add: c(4))
qed

section \<open>The arrays are large enough\<close>

lemma size_enough:
  fixes m b p q :: nat
  assumes "m ^ q \<le> b ^ p" and "0 < q" and "1 < b"
  shows "m ^ n \<le> b ^ (n * p div q + 1)"
proof -
  let ?N = "n * p div q + 1"
  have "n * p < q * ?N" using assms(2) by (metis add.commute dividend_less_div_times mult.commute mult_Suc_right plus_1_eq_Suc)
  then have le: "n * p \<le> q * ?N" by simp
  have "(m ^ n) ^ q = (m ^ q) ^ n" by (simp add: power_mult [symmetric] mult.commute)
  also have "\<dots> \<le> (b ^ p) ^ n" using assms(1) by (rule power_mono) simp
  also have "\<dots> = b ^ (n * p)" by (simp add: power_mult [symmetric] mult.commute)
  also have "\<dots> \<le> b ^ (q * ?N)" using le assms(3) by (intro power_increasing) auto
  also have "\<dots> = (b ^ ?N) ^ q" by (simp only: power_mult [symmetric] mult.commute)
  finally show ?thesis using assms(2) by (metis power_le_imp_le_base Suc_pred zero_le)
qed

lemma encode_size: "(256 :: nat) ^ n \<le> 58 ^ (n * 138 div 100 + 1)"
  by (rule size_enough) simp_all

lemma decode_size: "(58 :: nat) ^ n \<le> 256 ^ (n * 733 div 1000 + 1)"
proof -
  have "n * 52 div 71 * 71 \<le> n * 52" by (rule div_times_less_eq_dividend)
  then have "n * 52 div 71 * 1000 \<le> n * 733" by linarith
  then have "n * 52 div 71 \<le> n * 733 div 1000" by (simp add: less_eq_div_iff_mult_less_eq)
  then have "(256 :: nat) ^ (n * 52 div 71 + 1) \<le> 256 ^ (n * 733 div 1000 + 1)" by (intro power_increasing) auto
  moreover have "(58 :: nat) ^ n \<le> 256 ^ (n * 52 div 71 + 1)" by (rule size_enough) simp_all
  ultimately show ?thesis by (rule order_trans [rotated])
qed

section \<open>The alphabet\<close>

lemma index_of_Some: "index_of c xs = Some i \<Longrightarrow> i < length xs \<and> xs ! i = c"
  by (induction xs arbitrary: i) (auto split: if_splits)

lemma index_of_nth: "distinct xs \<Longrightarrow> i < length xs \<Longrightarrow> index_of (xs ! i) xs = Some i"
proof (induction xs arbitrary: i)
  case (Cons x xs)
  then show ?case by (cases i) auto
qed simp

lemma alphabet_ok: "distinct BASE58_ALPHABET" "length BASE58_ALPHABET = 58" "BASE58_ALPHABET ! 0 = CHR ''1''"
  by (simp_all add: BASE58_ALPHABET_def)

lemma BASE58_MAP_nth: "d < 58 \<Longrightarrow> BASE58_MAP (BASE58_ALPHABET ! d) = Some d"
  by (simp add: BASE58_MAP_def index_of_nth alphabet_ok)

lemma BASE58_MAP_Some: "BASE58_MAP c = Some d \<Longrightarrow> d < 58 \<and> BASE58_ALPHABET ! d = c"
  using index_of_Some [of c BASE58_ALPHABET d] by (simp add: BASE58_MAP_def alphabet_ok)

lemma base58_digits_text: "list_all (\<lambda>d. d < 58) ds \<Longrightarrow> base58_digits (map ((!) BASE58_ALPHABET) ds) = Inr ds"
  by (induction ds) (auto simp: BASE58_MAP_nth)

lemma base58_digits_Inr:
  "base58_digits cs = Inr ds \<Longrightarrow> list_all (\<lambda>d. d < 58) ds \<and> map ((!) BASE58_ALPHABET) ds = cs"
  by (induction cs arbitrary: ds) (auto simp: result_simps dest: BASE58_MAP_Some split: option.splits)

text \<open>A text that does not begin with the digit zero is a list of digits that does not.\<close>

lemma stripped_text:
  assumes "list_all (\<lambda>d. d < 58) ds"
  shows "stripped ds \<longleftrightarrow> takeWhile (\<lambda>c. c = CHR ''1'') (map ((!) BASE58_ALPHABET) ds) = []"
proof (cases ds)
  case (Cons d es)
  then have "d < 58" using assms by simp
  then have "BASE58_ALPHABET ! d = CHR ''1'' \<longleftrightarrow> d = 0"
    using BASE58_MAP_nth [of d] BASE58_MAP_nth [of 0] alphabet_ok(3) by auto
  then show ?thesis by (simp add: Cons stripped_def)
qed (simp add: stripped_def)

lemma split_leading: "takeWhile P xs = replicate (length (takeWhile P xs)) z \<and> takeWhile P (drop (length (takeWhile P xs)) xs) = []"
  if "\<And>x. P x \<longleftrightarrow> x = z" for P
  by (induction xs) (auto simp: that)

lemma takeWhile_replicate: "takeWhile (\<lambda>c. c = z) (replicate n z @ xs) = replicate n z @ takeWhile (\<lambda>c. c = z) xs"
  by (induction n) auto

lemma leading_decomp:
  obtains n rest where "xs = replicate n z @ rest" and "takeWhile (\<lambda>c. c = z) rest = []" and "n = length (takeWhile (\<lambda>c. c = z) xs)"
    and "rest = drop n xs"
proof
  let ?n = "length (takeWhile (\<lambda>c. c = z) xs)"
  show "takeWhile (\<lambda>c. c = z) (drop ?n xs) = []" using split_leading [of "\<lambda>c. c = z" z xs] by simp
  show "xs = replicate ?n z @ drop ?n xs"
    using split_leading [of "\<lambda>c. c = z" z xs] by (metis append_take_drop_id takeWhile_eq_take)
qed simp_all

section \<open>Round trips\<close>

lemma encode_parts:
  assumes "takeWhile (\<lambda>b. b = 0) rest = []" and "replicate n 0 @ rest \<noteq> []"
  obtains ds where "base58btcEncode (replicate n 0 @ rest) = replicate n (CHR ''1'') @ map ((!) BASE58_ALPHABET) ds"
    and "stripped ds" and "list_all (\<lambda>d. d < 58) ds" and "digits_value 58 ds = bytes_value rest"
proof -
  define N where "N = length rest * 138 div 100 + 1"
  obtain arr len where c: "convert_loop 256 58 (map unat rest) (replicate N 0) 0 = (arr, len)" by fastforce
  have "digits_value 256 (map unat rest) < 58 ^ N"
    using bytes_value_less [of rest] encode_size [of "length rest"] unfolding N_def bytes_value_def by (rule less_le_trans)
  note u = used_digits_correct [OF c _ _ this, simplified]
  have "base58btcEncode (replicate n 0 @ rest) = replicate n (CHR ''1'') @ map ((!) BASE58_ALPHABET) (used_digits arr len)"
    using c [unfolded N_def] assms by (auto simp: base58btcEncode_def takeWhile_replicate)
  then show ?thesis using that u by (simp add: bytes_value_def)
qed

lemma decode_parts:
  assumes "base58_digits rest = Inr ds" and "takeWhile (\<lambda>c. c = CHR ''1'') rest = []" and "replicate n (CHR ''1'') @ rest \<noteq> []"
  obtains bs where "base58btcDecode (replicate n (CHR ''1'') @ rest) = Inr (replicate n 0 @ bs)"
    and "takeWhile (\<lambda>b. b = 0) bs = []" and "bytes_value bs = digits_value 58 ds"
proof -
  have ds: "list_all (\<lambda>d. d < 58) ds" "length ds = length rest" using base58_digits_Inr [OF assms(1)] by auto
  define N where "N = length rest * 733 div 1000 + 1"
  obtain arr len where c: "convert_loop 58 256 ds (replicate N 0) 0 = (arr, len)" by fastforce
  have "digits_value 58 ds < 256 ^ N"
    using digits_value_less [OF ds(1)] decode_size [of "length rest"] unfolding N_def ds(2) by (rule less_le_trans)
  note u = used_digits_correct [OF c _ _ this, simplified]
  let ?bs = "map of_nat (used_digits arr len) :: byte list"
  have r: "map unat ?bs = used_digits arr len"
    using u(2) by (auto simp: list_all_iff unat_of_nat intro!: map_idI)
  have "takeWhile (\<lambda>b. b = 0) ?bs = []"
    using u(1) r by (cases "used_digits arr len") (auto simp: stripped_def)
  moreover have "base58btcDecode (replicate n (CHR ''1'') @ rest) = Inr (replicate n 0 @ ?bs)"
    using c [unfolded N_def] assms by (auto simp: base58btcDecode_def takeWhile_replicate)
  ultimately show ?thesis using that u(3) r by (simp add: bytes_value_def)
qed

lemma bytes_value_inject:
  assumes "bytes_value bs = bytes_value cs" and "takeWhile (\<lambda>b. b = 0) bs = []" and "takeWhile (\<lambda>b. b = 0) cs = []"
  shows "bs = cs"
proof -
  have s: "stripped (map unat bs)" if "takeWhile (\<lambda>b. b = 0) bs = []" for bs :: "byte list"
    using that by (cases bs) (auto simp: stripped_def unat_eq_zero split: if_splits)
  have "map unat bs = map unat cs"
    using assms digits_value_inject [OF assms(1) [unfolded bytes_value_def] s s] by (simp add: list_all_iff byte_less)
  then show ?thesis by (metis inj_map_eq_map inj_unsigned)
qed

lemma decode_encode: "base58btcDecode (base58btcEncode bytes) = Inr bytes"
proof (cases "bytes = []")
  case False
  obtain n rest where b: "bytes = replicate n 0 @ rest" and r: "takeWhile (\<lambda>c. c = 0) rest = []" using leading_decomp [of bytes 0] .
  obtain ds where e: "base58btcEncode (replicate n 0 @ rest) = replicate n (CHR ''1'') @ map ((!) BASE58_ALPHABET) ds"
    and ds: "stripped ds" "list_all (\<lambda>d. d < 58) ds" "digits_value 58 ds = bytes_value rest"
    using encode_parts [OF r] False b by metis
  have ne: "replicate n (CHR ''1'') @ map ((!) BASE58_ALPHABET) ds \<noteq> []"
  proof
    assume a: "replicate n (CHR ''1'') @ map ((!) BASE58_ALPHABET) ds = []"
    then have "bytes_value rest = bytes_value []" using ds(3) by (simp add: bytes_value_def)
    then have "rest = []" using bytes_value_inject [of rest "[]"] r by simp
    then show False using a b False by simp
  qed
  obtain bs where d: "base58btcDecode (replicate n (CHR ''1'') @ map ((!) BASE58_ALPHABET) ds) = Inr (replicate n 0 @ bs)"
    and bs: "takeWhile (\<lambda>b. b = 0) bs = []" "bytes_value bs = digits_value 58 ds"
    using decode_parts [OF base58_digits_text [OF ds(2)] _ ne] stripped_text [OF ds(2)] ds(1) by metis
  have "bs = rest" by (rule bytes_value_inject) (use bs ds(3) r in simp_all)
  then show ?thesis using d e b by simp
qed (simp add: base58btcEncode_def base58btcDecode_def)

lemma encode_decode:
  assumes "base58btcDecode str = Inr bytes"
  shows "base58btcEncode bytes = str"
proof (cases "str = []")
  case False
  obtain n rest where b: "str = replicate n (CHR ''1'') @ rest" and r: "takeWhile (\<lambda>c. c = CHR ''1'') rest = []"
    using leading_decomp [of str "CHR ''1''"] .
  obtain ds where dg: "base58_digits rest = Inr ds"
    using assms False r by (auto simp: base58btcDecode_def Let_def takeWhile_replicate b result_simps)
  have ds: "list_all (\<lambda>d. d < 58) ds" "map ((!) BASE58_ALPHABET) ds = rest" using base58_digits_Inr [OF dg] by auto
  obtain bs where d: "bytes = replicate n 0 @ bs" and bs: "takeWhile (\<lambda>b. b = 0) bs = []" "bytes_value bs = digits_value 58 ds"
    using decode_parts [OF dg r] False b assms by (metis sum.inject(2))
  have ne: "replicate n 0 @ bs \<noteq> []"
  proof
    assume a: "replicate n 0 @ bs = []"
    then have "digits_value 58 ds = digits_value 58 []" using bs(2) by (simp add: bytes_value_def)
    then have "ds = []" using digits_value_inject [of 58 ds "[]"] stripped_text [OF ds(1)] ds r by (simp add: stripped_def)
    then show False using a b ds(2) False by simp
  qed
  obtain es where e: "base58btcEncode (replicate n 0 @ bs) = replicate n (CHR ''1'') @ map ((!) BASE58_ALPHABET) es"
    and es: "stripped es" "list_all (\<lambda>d. d < 58) es" "digits_value 58 es = bytes_value bs" using encode_parts [OF bs(1) ne] .
  have "es = ds" using digits_value_inject [of 58 es ds] stripped_text [OF ds(1)] ds es bs r by simp
  then show ?thesis using e d b ds by simp
qed (use assms in \<open>simp add: base58btcEncode_def base58btcDecode_def\<close>)

text \<open>C19: base 58 loses nothing. Decoding what was encoded gives the bytes back, leading zero bytes included, and
  every text that decodes is the encoding of what it decodes to; the arrays the two loops work in, sized beforehand
  as fixed fractions of the length, are never too small.\<close>

theorem base58_roundtrip: "base58btcDecode str = Inr bytes \<longleftrightarrow> str = base58btcEncode bytes"
  using decode_encode encode_decode by metis

end
