(* ===== verification/Webhook.thy ===== *)
theory Webhook
  imports Json_Text
begin

text \<open>
  The Linear webhook (\<^verbatim>\<open>packages/linear/webhook/src\<close>: \<^verbatim>\<open>verify.ts\<close>, \<^verbatim>\<open>events.ts\<close> and the request handler of \<^verbatim>\<open>server.ts\<close>):
  signature, time window and nonce cache, the classification of a delivery, and the sink the events are read
  from. HMAC and the decoding of a body into a JSON value (UTF-8, then \<^verbatim>\<open>JSON.parse\<close>) are parameters; \<open>None\<close> is a
  body that does not decode. A request carries the three readings of the clock its handling makes: for the time
  window, for \<^verbatim>\<open>has\<close> and for \<^verbatim>\<open>remember\<close>.
\<close>

section \<open>Nonce cache\<close>

text \<open>A JavaScript \<^verbatim>\<open>Map\<close>: its entries in insertion order. Setting a key that is there keeps its place.\<close>

record NonceCache =
  maxEntries :: int
  windowMs :: ms
  store :: "(string \<times> ms) list"

definition map_delete :: "'k \<Rightarrow> ('k \<times> 'v) list \<Rightarrow> ('k \<times> 'v) list" where
  "map_delete k m = filter (\<lambda>e. fst e \<noteq> k) m"

definition map_set :: "'k \<Rightarrow> 'v \<Rightarrow> ('k \<times> 'v) list \<Rightarrow> ('k \<times> 'v) list" where
  "map_set k v m = (if k \<in> fst ` set m then map (\<lambda>e. if fst e = k then (k, v) else e) m else m @ [(k, v)])"

definition new_NonceCache :: "int option \<Rightarrow> ms option \<Rightarrow> NonceCache" where
  "new_NonceCache maxE win =
     \<lparr>maxEntries = (case maxE of None \<Rightarrow> 10000 | Some n \<Rightarrow> n),
      windowMs = (case win of None \<Rightarrow> 10 * 60 * 1000 | Some w \<Rightarrow> w), store = []\<rparr>"

definition has :: "ms \<Rightarrow> string \<Rightarrow> NonceCache \<Rightarrow> bool \<times> NonceCache" where
  "has now i c =
     (case map_of (store c) i of
        None \<Rightarrow> (False, c)
      | Some ts \<Rightarrow>
          if now - ts > windowMs c then (False, c\<lparr>store := map_delete i (store c)\<rparr>)
          else (True, c\<lparr>store := map_set i ts (map_delete i (store c))\<rparr>))"

definition evictExpired :: "ms \<Rightarrow> NonceCache \<Rightarrow> NonceCache" where
  "evictExpired now c = c\<lparr>store := dropWhile (\<lambda>e. snd e < now - windowMs c) (store c)\<rparr>"

fun evict_overflow :: "int \<Rightarrow> ('k \<times> 'v) list \<Rightarrow> ('k \<times> 'v) list" where
  "evict_overflow maxE [] = []"
| "evict_overflow maxE (e # es) = (if int (length (e # es)) > maxE then evict_overflow maxE es else e # es)"

definition remember :: "ms \<Rightarrow> string \<Rightarrow> NonceCache \<Rightarrow> bool \<times> NonceCache" where
  "remember now i c =
     (let c1 = evictExpired now c
      in if i \<in> fst ` set (store c1) then (False, c1\<lparr>store := map_set i now (map_delete i (store c1))\<rparr>)
         else (True, c1\<lparr>store := evict_overflow (maxEntries c1) (map_set i now (store c1))\<rparr>))"

definition cache_size :: "ms \<Rightarrow> NonceCache \<Rightarrow> nat \<times> NonceCache" where
  "cache_size now c = (let c1 = evictExpired now c in (length (store c1), c1))"

definition cache_reset :: "NonceCache \<Rightarrow> NonceCache" where
  "cache_reset c = c\<lparr>store := []\<rparr>"

section \<open>Verification\<close>

datatype VerifyRejectionReason = MissingHeader | InvalidSignature | StaleTimestamp | DuplicateNonce | Malformed

text \<open>The detail of a duplicate is the identifier, which the server reads; the other details are only logged.\<close>

datatype VerifyResult = VerifyOk ms string | VerifyErr VerifyRejectionReason string

definition safeEqualHex :: "string \<Rightarrow> string \<Rightarrow> bool" where
  "safeEqualHex a b \<longleftrightarrow> length a = length b \<and> to_lower a = to_lower b"

definition LINEAR_SIGNATURE_HEADER :: string where
  "LINEAR_SIGNATURE_HEADER = ''linear-signature''"

definition DEFAULT_TIMESTAMP_SKEW_MS :: ms where
  "DEFAULT_TIMESTAMP_SKEW_MS = 5 * 60 * 1000"

definition js_prop :: "string \<Rightarrow> js_record \<Rightarrow> js_value" where
  "js_prop k r = (case map_of r k of None \<Rightarrow> JUndefined | Some v \<Rightarrow> v)"

definition extractEnvelopeMeta :: "(string \<Rightarrow> js_value option) \<Rightarrow> string \<Rightarrow> string + (ms \<times> string)" where
  "extractEnvelopeMeta parse body =
     (case parse body of
        None \<Rightarrow> Inl ''json parse failed''
      | Some (JObj r) \<Rightarrow>
          (case js_prop ''webhookTimestamp'' r of
             JNum ts \<Rightarrow>
               (case js_prop ''webhookId'' r of
                  JStr i \<Rightarrow> if i = [] then Inl ''webhookId missing or empty'' else Inr (ts, i)
                | _ \<Rightarrow> Inl ''webhookId missing or empty'')
           | _ \<Rightarrow> Inl ''webhookTimestamp missing or not a finite number'')
      | Some _ \<Rightarrow> Inl ''body is not a JSON object'')"

record clock_reads =
  at_verify :: ms
  at_has :: ms
  at_remember :: ms

definition verifyLinearRequest ::
  "(string \<Rightarrow> string) \<Rightarrow> (string \<Rightarrow> js_value option) \<Rightarrow> ms option \<Rightarrow> (string \<rightharpoonup> string) \<Rightarrow> string \<Rightarrow> clock_reads \<Rightarrow>
   NonceCache \<Rightarrow> VerifyResult \<times> NonceCache" where
  "verifyLinearRequest hmac parse skew headers body clk c =
     (case headers LINEAR_SIGNATURE_HEADER of
        None \<Rightarrow> (VerifyErr MissingHeader LINEAR_SIGNATURE_HEADER, c)
      | Some sig \<Rightarrow>
          if sig = [] then (VerifyErr MissingHeader LINEAR_SIGNATURE_HEADER, c)
          else if \<not> safeEqualHex (trim sig) (hmac body) then (VerifyErr InvalidSignature ''HMAC mismatch'', c)
          else
            (case extractEnvelopeMeta parse body of
               Inl d \<Rightarrow> (VerifyErr Malformed d, c)
             | Inr (ts, i) \<Rightarrow>
                 let skewMs = (case skew of None \<Rightarrow> DEFAULT_TIMESTAMP_SKEW_MS | Some k \<Rightarrow> k)
                 in if \<bar>at_verify clk - ts\<bar> > skewMs then (VerifyErr StaleTimestamp (show_int \<bar>at_verify clk - ts\<bar>), c)
                    else
                      let (seen, c1) = has (at_has clk) i c
                      in if seen then (VerifyErr DuplicateNonce i, c1)
                         else let (_, c2) = remember (at_remember clk) i c1 in (VerifyOk ts i, c2)))"

section \<open>Events\<close>

datatype LinearEvent =
    IssueLabelAdded ms string js_record string "string list" "string list"
  | CommentCreated ms string js_record string string string "string option"
  | StatusChanged ms string js_record string string string

datatype ParseRejectionReason = MalformedJson | MissingEnvelopeFields | UnsupportedEvent

type_synonym parse_result = "(ParseRejectionReason \<times> string) + LinearEvent"

fun non_empty_string :: "js_value \<Rightarrow> string option" where
  "non_empty_string (JStr s) = (if s = [] then None else Some s)"
| "non_empty_string _ = None"

fun string_items :: "js_value list \<Rightarrow> string list option" where
  "string_items [] = Some []"
| "string_items (JStr s # vs) = map_option (\<lambda>ss. s # ss) (string_items vs)"
| "string_items (_ # vs) = None"

fun isStringArray :: "js_value \<Rightarrow> string list option" where
  "isStringArray (JArr vs) = string_items vs"
| "isStringArray _ = None"

fun isRecord :: "js_value \<Rightarrow> js_record option" where
  "isRecord (JObj r) = Some r"
| "isRecord _ = None"

record LinearWebhookEnvelope =
  env_action :: string
  env_type :: string
  env_timestamp :: ms
  env_id :: string
  env_data :: js_record
  env_updatedFrom :: "js_record option"
  env_raw :: js_record

text \<open>The type guard, with the fields it establishes as its result.\<close>

definition isLinearWebhookEnvelope :: "js_value \<Rightarrow> LinearWebhookEnvelope option" where
  "isLinearWebhookEnvelope v =
     Option.bind (isRecord v) (\<lambda>r.
     Option.bind (non_empty_string (js_prop ''action'' r)) (\<lambda>a.
     Option.bind (non_empty_string (js_prop ''type'' r)) (\<lambda>t.
     Option.bind (case js_prop ''webhookTimestamp'' r of JNum n \<Rightarrow> Some n | _ \<Rightarrow> None) (\<lambda>ts.
     Option.bind (non_empty_string (js_prop ''webhookId'' r)) (\<lambda>i.
     Option.bind (isRecord (js_prop ''data'' r)) (\<lambda>d.
     if js_prop ''updatedFrom'' r = JUndefined then
       Some \<lparr>env_action = a, env_type = t, env_timestamp = ts, env_id = i, env_data = d, env_updatedFrom = None, env_raw = r\<rparr>
     else
       Option.bind (isRecord (js_prop ''updatedFrom'' r)) (\<lambda>u.
       Some \<lparr>env_action = a, env_type = t, env_timestamp = ts, env_id = i, env_data = d, env_updatedFrom = Some u, env_raw = r\<rparr>)))))))"

definition pickIssueId :: "js_record \<Rightarrow> string option" where
  "pickIssueId d = non_empty_string (js_prop ''id'' d)"

definition pickUserId :: "js_record \<Rightarrow> string option" where
  "pickUserId d =
     (case non_empty_string (js_prop ''userId'' d) of
        Some u \<Rightarrow> Some u
      | None \<Rightarrow> Option.bind (isRecord (js_prop ''user'' d)) (\<lambda>u. non_empty_string (js_prop ''id'' u)))"

definition unsupported :: "LinearWebhookEnvelope \<Rightarrow> parse_result" where
  "unsupported e = Inl (UnsupportedEvent, env_action e @ ''/'' @ env_type e)"

definition parseIssueLabelAdded :: "LinearWebhookEnvelope \<Rightarrow> parse_result" where
  "parseIssueLabelAdded e =
     (if env_action e \<noteq> ''update'' \<or> env_type e \<noteq> ''Issue'' then unsupported e
      else case Option.bind (env_updatedFrom e) (\<lambda>u. map_of u ''labelIds'') of
        None \<Rightarrow> Inl (UnsupportedEvent, ''Issue update without labelIds diff'')
      | Some prev \<Rightarrow>
          (case isStringArray prev of
             None \<Rightarrow> Inl (MissingEnvelopeFields, ''updatedFrom.labelIds is not string[]'')
           | Some previous \<Rightarrow>
               (case isStringArray (js_prop ''labelIds'' (env_data e)) of
                  None \<Rightarrow> Inl (MissingEnvelopeFields, ''data.labelIds is not string[]'')
                | Some current \<Rightarrow>
                    (case pickIssueId (env_data e) of
                       None \<Rightarrow> Inl (MissingEnvelopeFields, ''data.id missing'')
                     | Some issueId \<Rightarrow>
                         let added = filter (\<lambda>i. i \<notin> set previous) current
                         in if added = [] then Inl (UnsupportedEvent, ''label diff had no additions'')
                            else Inr (IssueLabelAdded (env_timestamp e) (env_id e) (env_raw e) issueId current added)))))"

definition parseCommentCreated :: "LinearWebhookEnvelope \<Rightarrow> parse_result" where
  "parseCommentCreated e =
     (if env_action e \<noteq> ''create'' \<or> env_type e \<noteq> ''Comment'' then unsupported e
      else case non_empty_string (js_prop ''id'' (env_data e)) of
        None \<Rightarrow> Inl (MissingEnvelopeFields, ''comment.id missing'')
      | Some i \<Rightarrow>
          (case js_prop ''body'' (env_data e) of
             JStr body \<Rightarrow>
               (let issue = (case non_empty_string (js_prop ''issueId'' (env_data e)) of
                               Some x \<Rightarrow> Some x
                             | None \<Rightarrow> Option.bind (isRecord (js_prop ''issue'' (env_data e)))
                                         (\<lambda>r. non_empty_string (js_prop ''id'' r)))
                in case issue of
                     None \<Rightarrow> Inl (MissingEnvelopeFields, ''comment.issueId missing'')
                   | Some issueId \<Rightarrow>
                       Inr (CommentCreated (env_timestamp e) (env_id e) (env_raw e) i issueId body (pickUserId (env_data e))))
           | _ \<Rightarrow> Inl (MissingEnvelopeFields, ''comment.body missing'')))"

definition parseStatusChanged :: "LinearWebhookEnvelope \<Rightarrow> parse_result" where
  "parseStatusChanged e =
     (if env_action e \<noteq> ''update'' \<or> env_type e \<noteq> ''Issue'' then unsupported e
      else case Option.bind (env_updatedFrom e) (\<lambda>u. map_of u ''stateId'') of
        None \<Rightarrow> Inl (UnsupportedEvent, ''Issue update without stateId diff'')
      | Some f \<Rightarrow>
          (case non_empty_string f of
             None \<Rightarrow> Inl (MissingEnvelopeFields, ''updatedFrom.stateId is not a non-empty string'')
           | Some fromState \<Rightarrow>
               (case non_empty_string (js_prop ''stateId'' (env_data e)) of
                  None \<Rightarrow> Inl (MissingEnvelopeFields, ''data.stateId is not a non-empty string'')
                | Some toState \<Rightarrow>
                    (case pickIssueId (env_data e) of
                       None \<Rightarrow> Inl (MissingEnvelopeFields, ''data.id missing'')
                     | Some issueId \<Rightarrow> Inr (StatusChanged (env_timestamp e) (env_id e) (env_raw e) issueId fromState toState)))))"

definition classifyEnvelope :: "LinearWebhookEnvelope \<Rightarrow> parse_result" where
  "classifyEnvelope e =
     (if env_action e = ''create'' \<and> env_type e = ''Comment'' then parseCommentCreated e
      else if env_action e = ''update'' \<and> env_type e = ''Issue'' then
        (case parseStatusChanged e of
           Inr ev \<Rightarrow> Inr ev
         | Inl st \<Rightarrow>
             (case parseIssueLabelAdded e of
                Inr ev \<Rightarrow> Inr ev
              | Inl lb \<Rightarrow>
                  if fst lb = MissingEnvelopeFields then Inl lb
                  else if fst st = MissingEnvelopeFields then Inl st
                  else Inl (UnsupportedEvent, ''Issue update without stateId or labelIds diff'')))
      else unsupported e)"

definition parseLinearEvent :: "(string \<Rightarrow> js_value option) \<Rightarrow> string \<Rightarrow> parse_result" where
  "parseLinearEvent parse body =
     (case parse body of
        None \<Rightarrow> Inl (MalformedJson, ''json parse failed'')
      | Some v \<Rightarrow>
          (case isLinearWebhookEnvelope v of
             None \<Rightarrow> Inl (MissingEnvelopeFields, ''envelope missing action/type/webhookTimestamp/webhookId/data'')
           | Some e \<Rightarrow> classifyEnvelope e))"

section \<open>Server\<close>

text \<open>The sink: buffered events, the readers that wait (numbered), and what each read was answered; \<open>None\<close> is the
  end of the stream.\<close>

record EventSink =
  buffer :: "LinearEvent list"
  waiting :: "nat list"
  closed :: bool
  reads :: nat
  answered :: "(nat \<times> LinearEvent option) list"

definition createEventSink :: EventSink where
  "createEventSink = \<lparr>buffer = [], waiting = [], closed = False, reads = 0, answered = []\<rparr>"

definition sink_push :: "LinearEvent \<Rightarrow> EventSink \<Rightarrow> EventSink" where
  "sink_push ev k =
     (if closed k then k
      else case waiting k of
        w # ws \<Rightarrow> k\<lparr>waiting := ws, answered := answered k @ [(w, Some ev)]\<rparr>
      | [] \<Rightarrow> k\<lparr>buffer := buffer k @ [ev]\<rparr>)"

definition sink_next :: "EventSink \<Rightarrow> EventSink" where
  "sink_next k =
     (let n = reads k; k1 = k\<lparr>reads := Suc n\<rparr>
      in case buffer k of
           ev # evs \<Rightarrow> k1\<lparr>buffer := evs, answered := answered k @ [(n, Some ev)]\<rparr>
         | [] \<Rightarrow> if closed k then k1\<lparr>answered := answered k @ [(n, None)]\<rparr> else k1\<lparr>waiting := waiting k @ [n]\<rparr>)"

text \<open>\<^verbatim>\<open>close\<close> and the iterator's \<^verbatim>\<open>return\<close> end every waiting read; \<^verbatim>\<open>return\<close> is also answered itself.\<close>

definition sink_close :: "EventSink \<Rightarrow> EventSink" where
  "sink_close k =
     (if closed k then k
      else k\<lparr>closed := True, waiting := [], answered := answered k @ map (\<lambda>w. (w, None)) (waiting k)\<rparr>)"

definition sink_return :: "EventSink \<Rightarrow> EventSink" where
  "sink_return k = k\<lparr>closed := True, waiting := [], answered := answered k @ map (\<lambda>w. (w, None)) (waiting k)\<rparr>"

definition WEBHOOK_PATH :: string where "WEBHOOK_PATH = ''/webhooks/linear''"

record WebhookServerOptions =
  opt_timestampSkewMs :: "ms option"
  opt_maxEntries :: "int option"
  opt_windowMs :: "ms option"
  opt_throttleMs :: "ms option"

record webhook_request =
  req_pathname :: string
  req_method :: string
  req_headers :: "(string \<times> string) list"
  req_body :: string
  req_clock :: clock_reads
  req_log_time :: ms

record webhook_state =
  nonceCache :: NonceCache
  sink :: EventSink
  lastLoggedAt :: "(string \<times> ms) list"
  duplicateNonceTotal :: nat
  warnings :: nat

definition normaliseHeaders :: "(string \<times> string) list \<Rightarrow> string \<rightharpoonup> string" where
  "normaliseHeaders hs = fold (\<lambda>(k, v) m. m(to_lower k \<mapsto> v)) hs Map.empty"

fun rejectStatus :: "VerifyRejectionReason \<Rightarrow> nat" where
  "rejectStatus MissingHeader = 401"
| "rejectStatus InvalidSignature = 401"
| "rejectStatus StaleTimestamp = 401"
| "rejectStatus DuplicateNonce = 401"
| "rejectStatus Malformed = 400"

text \<open>\<^verbatim>\<open>buildFetchHandler\<close> refuses an empty secret; the secret is otherwise only used inside the HMAC.\<close>

definition buildFetchHandler :: "string \<Rightarrow> WebhookServerOptions \<Rightarrow> string + webhook_state" where
  "buildFetchHandler secret opts =
     (if secret = [] then Inl ''WebhookServer: 'secret' is required''
      else Inr \<lparr>nonceCache = new_NonceCache (opt_maxEntries opts) (opt_windowMs opts), sink = createEventSink,
                lastLoggedAt = [], duplicateNonceTotal = 0, warnings = 0\<rparr>)"

text \<open>A duplicate is counted always and logged at most once per identifier and throttle window.\<close>

definition note_duplicate :: "WebhookServerOptions \<Rightarrow> ms \<Rightarrow> string \<Rightarrow> webhook_state \<Rightarrow> webhook_state" where
  "note_duplicate opts nowMs i s =
     (let throttleMs = (case opt_throttleMs opts of None \<Rightarrow> 10000 | Some t \<Rightarrow> t);
          s1 = s\<lparr>duplicateNonceTotal := Suc (duplicateNonceTotal s)\<rparr>;
          shouldLog = throttleMs \<le> 0 \<or> (case map_of (lastLoggedAt s) i of None \<Rightarrow> True | Some t \<Rightarrow> nowMs - t \<ge> throttleMs)
      in if shouldLog then
           let m = map_set i nowMs (lastLoggedAt s);
               m1 = (if length m > 1024 \<and> throttleMs > 0 then filter (\<lambda>e. \<not> snd e < nowMs - throttleMs * 2) m else m)
           in s1\<lparr>lastLoggedAt := m1, warnings := Suc (warnings s)\<rparr>
         else s1)"

definition webhook_fetch ::
  "(string \<Rightarrow> string) \<Rightarrow> (string \<Rightarrow> js_value option) \<Rightarrow> WebhookServerOptions \<Rightarrow> webhook_request \<Rightarrow> webhook_state \<Rightarrow>
   nat \<times> webhook_state" where
  "webhook_fetch hmac parse opts req s =
     (if req_pathname req \<noteq> WEBHOOK_PATH then (404, s)
      else if req_method req = ''GET'' then (200, s)
      else if req_method req \<noteq> ''POST'' then (405, s)
      else
        let (v, c) = verifyLinearRequest hmac parse (opt_timestampSkewMs opts) (normaliseHeaders (req_headers req)) (req_body req)
                       (req_clock req) (nonceCache s);
            s1 = s\<lparr>nonceCache := c\<rparr>
        in case v of
             VerifyErr reason detail \<Rightarrow>
               (rejectStatus reason,
                if reason = DuplicateNonce then note_duplicate opts (req_log_time req) detail s1
                else s1\<lparr>warnings := Suc (warnings s1)\<rparr>)
           | VerifyOk ts i \<Rightarrow>
               (case parseLinearEvent parse (req_body req) of
                  Inl (reason, _) \<Rightarrow> if reason = UnsupportedEvent then (202, s1) else (400, s1\<lparr>warnings := Suc (warnings s1)\<rparr>)
                | Inr ev \<Rightarrow> (200, s1\<lparr>sink := sink_push ev (sink s1)\<rparr>)))"

fun webhook_run ::
  "(string \<Rightarrow> string) \<Rightarrow> (string \<Rightarrow> js_value option) \<Rightarrow> WebhookServerOptions \<Rightarrow> webhook_request list \<Rightarrow> webhook_state \<Rightarrow> webhook_state" where
  "webhook_run hmac parse opts [] s = s"
| "webhook_run hmac parse opts (r # rs) s = webhook_run hmac parse opts rs (snd (webhook_fetch hmac parse opts r s))"

section \<open>The cache remembers\<close>

definition cache_wf :: "NonceCache \<Rightarrow> bool" where
  "cache_wf c \<longleftrightarrow> distinct (map fst (store c))"

text \<open>Identifier \<open>i\<close> was recorded at \<open>r\<close>, and at most \<open>k\<close> entries are younger.\<close>

definition remembers :: "NonceCache \<Rightarrow> string \<Rightarrow> ms \<Rightarrow> nat \<Rightarrow> bool" where
  "remembers c i r k \<longleftrightarrow> (\<exists>us vs. store c = us @ (i, r) # vs \<and> length vs \<le> k)"

lemma remembers_mono: "remembers c i r k \<Longrightarrow> k \<le> k' \<Longrightarrow> remembers c i r k'"
  by (fastforce simp: remembers_def)

lemma remembers_get: "cache_wf c \<Longrightarrow> remembers c i r k \<Longrightarrow> map_of (store c) i = Some r"
  by (auto simp: remembers_def cache_wf_def map_of_eq_None_iff map_add_Some_iff dom_map_of_conv_image_fst)

lemma map_delete_split:
  assumes "distinct (map fst m)" and "m = us @ (i, r) # vs"
  shows "map_delete i m = us @ vs"
proof -
  have "filter (\<lambda>e. fst e \<noteq> i) us = us" "filter (\<lambda>e. fst e \<noteq> i) vs = vs" using assms by (auto intro!: filter_True)
  then show ?thesis by (simp add: map_delete_def assms(2))
qed

lemma map_delete_other: "j \<noteq> i \<Longrightarrow> map_delete j (us @ (i, r) # vs) = map_delete j us @ (i, r) # map_delete j vs"
  by (simp add: map_delete_def)

lemma map_set_fresh: "k \<notin> fst ` set m \<Longrightarrow> map_set k v m = m @ [(k, v)]"
  by (simp add: map_set_def)

lemma map_set_deleted: "map_set i v (map_delete i m) = map_delete i m @ [(i, v)]"
  by (rule map_set_fresh) (auto simp: map_delete_def)

lemma distinct_delete: "distinct (map fst m) \<Longrightarrow> distinct (map fst (map_delete i m))"
  by (simp add: map_delete_def distinct_map_filter)

lemma evict_overflow_suffix: "\<exists>us. m = us @ evict_overflow n m"
proof (induction n m rule: evict_overflow.induct)
  case (2 n e es)
  then show ?case by simp (metis append_Cons append_Nil)
qed simp

lemma evict_overflow_keeps:
  "int (length vs) < n \<Longrightarrow> \<exists>us'. evict_overflow n (us @ e # vs) = us' @ e # vs"
proof (induction us)
  case (Cons u us)
  then show ?case by (auto intro: exI [of _ "u # us"])
qed auto

lemma dropWhile_suffix: "\<exists>us. m = us @ dropWhile P m"
  by (metis takeWhile_dropWhile_id)

lemma distinct_suffix: "distinct (map fst m) \<Longrightarrow> m = us @ m' \<Longrightarrow> distinct (map fst m')"
  by simp


lemma has_wf: "cache_wf c \<Longrightarrow> has t i c = (b, c') \<Longrightarrow> cache_wf c'"
  by (auto simp: has_def cache_wf_def map_set_deleted distinct_delete split: option.splits if_splits) (auto simp: map_delete_def)

lemma remember_wf: "cache_wf c \<Longrightarrow> cache_wf (snd (remember t i c))"
proof -
  assume c: "cache_wf c"
  let ?m = "dropWhile (\<lambda>e. snd e < t - windowMs c) (store c)"
  have d: "distinct (map fst ?m)" using c dropWhile_suffix distinct_suffix unfolding cache_wf_def by metis
  show ?thesis
  proof (cases "i \<in> fst ` set ?m")
    case True
    then show ?thesis using d
      by (auto simp: remember_def evictExpired_def cache_wf_def map_set_deleted distinct_delete) (auto simp: map_delete_def)
  next
    case False
    then have "distinct (map fst (?m @ [(i, t)]))" using d by auto
    moreover obtain us where "?m @ [(i, t)] = us @ evict_overflow (maxEntries c) (?m @ [(i, t)])" using evict_overflow_suffix by blast
    ultimately have "distinct (map fst (evict_overflow (maxEntries c) (?m @ [(i, t)])))" by (rule distinct_suffix)
    then show ?thesis using False by (simp add: remember_def evictExpired_def cache_wf_def map_set_fresh Let_def)
  qed
qed

lemma cache_config: "maxEntries (snd (has t i c)) = maxEntries c" "windowMs (snd (has t i c)) = windowMs c"
  "maxEntries (snd (remember t i c)) = maxEntries c" "windowMs (snd (remember t i c)) = windowMs c"
  by (auto simp: has_def remember_def evictExpired_def Let_def split: option.splits)

text \<open>Looking up another identifier moves at most one entry behind ours.\<close>

lemma has_other_remembers:
  assumes c: "cache_wf c" and r: "remembers c i r k" and j: "j \<noteq> i" and h: "has t j c = (b, c')"
  shows "remembers c' i r (if b then Suc k else k)"
proof -
  obtain us vs where s: "store c = us @ (i, r) # vs" "length vs \<le> k" using r by (auto simp: remembers_def)
  have l: "length (map_delete j vs) \<le> k" using s(2) by (auto simp: map_delete_def intro: le_trans [OF length_filter_le])
  show ?thesis
  proof (cases "map_of (store c) j")
    case None
    then show ?thesis using h r by (simp add: has_def)
  next
    case (Some ts)
    show ?thesis
    proof (cases "t - ts > windowMs c")
      case True
      then have "store c' = map_delete j us @ (i, r) # map_delete j vs" "\<not> b" using Some h j
        by (auto simp: has_def s map_delete_other)
      then show ?thesis using l by (auto simp: remembers_def)
    next
      case False
      then have "store c' = map_delete j us @ (i, r) # (map_delete j vs @ [(j, ts)])" "b" using Some h j
        by (auto simp: has_def map_set_deleted) (auto simp: s map_delete_other)
      then show ?thesis using l unfolding remembers_def by (metis (mono_tags, lifting) Suc_le_mono length_append_singleton)
    qed
  qed
qed

text \<open>Recording another identifier forgets ours only when ours has expired or as many entries are younger as fit.\<close>

lemma remember_other_remembers:
  assumes r: "remembers c i r k" and j: "j \<noteq> i" and fresh: "j \<notin> fst ` set (store c)" and live: "t - r \<le> windowMs c"
    and room: "int (Suc k) < maxEntries c"
  shows "remembers (snd (remember t j c)) i r (Suc k)"
proof -
  obtain us vs where s: "store c = us @ (i, r) # vs" "length vs \<le> k" using r by (auto simp: remembers_def)
  let ?P = "\<lambda>e :: string \<times> ms. snd e < t - windowMs c"
  obtain us' where d: "dropWhile ?P (store c) = us' @ (i, r) # vs"
  proof -
    have "\<not> ?P (i, r)" using live by simp
    then have "dropWhile ?P (us @ (i, r) # vs) = dropWhile ?P us @ (i, r) # vs"
      by (metis (no_types, lifting) dropWhile_append dropWhile_append3)
    then show ?thesis using that s by simp
  qed
  have f: "j \<notin> fst ` set (dropWhile ?P (store c))" using fresh by (auto dest: set_dropWhileD)
  have "int (length (vs @ [(j, t)])) < maxEntries c" using s(2) room by simp
  then obtain us'' where "evict_overflow (maxEntries c) (us' @ (i, r) # (vs @ [(j, t)])) = us'' @ (i, r) # (vs @ [(j, t)])"
    using evict_overflow_keeps by metis
  then have "store (snd (remember t j c)) = us'' @ (i, r) # (vs @ [(j, t)])"
    using f d by (simp add: remember_def evictExpired_def Let_def map_set_fresh)
  then show ?thesis using s(2) unfolding remembers_def by (metis Suc_le_mono length_append_singleton)
qed

lemma remember_own:
  assumes "i \<notin> fst ` set (store c)" and "0 < maxEntries c"
  shows "remembers (snd (remember t i c)) i t 0"
proof -
  let ?m = "dropWhile (\<lambda>e. snd e < t - windowMs c) (store c)"
  have f: "i \<notin> fst ` set ?m" using assms(1) by (auto dest: set_dropWhileD)
  obtain us' where "evict_overflow (maxEntries c) (?m @ (i, t) # []) = us' @ (i, t) # []"
    using evict_overflow_keeps [of "[]" "maxEntries c" ?m "(i, t)"] assms(2) by auto
  then show ?thesis using f by (auto simp: remembers_def remember_def evictExpired_def Let_def map_set_fresh)
qed

lemma has_own:
  assumes c: "cache_wf c" and r: "remembers c i r k" and live: "t - r \<le> windowMs c" and h: "has t i c = (b, c')"
  shows "b" and "remembers c' i r 0"
proof -
  obtain us vs where s: "store c = us @ (i, r) # vs" using r by (auto simp: remembers_def)
  have g: "map_of (store c) i = Some r" by (rule remembers_get [OF c r])
  show "b" using h live g by (auto simp: has_def)
  show "remembers c' i r 0" using h live g by (auto simp: has_def map_set_deleted remembers_def)
qed

lemma has_False: "cache_wf c \<Longrightarrow> has t i c = (False, c') \<Longrightarrow> i \<notin> fst ` set (store c')"
  by (auto simp: has_def map_delete_def map_of_eq_None_iff split: option.splits if_splits)


section \<open>Requests\<close>

definition skew_of :: "WebhookServerOptions \<Rightarrow> ms" where
  "skew_of opts = (case opt_timestampSkewMs opts of None \<Rightarrow> DEFAULT_TIMESTAMP_SKEW_MS | Some k \<Rightarrow> k)"

definition signed :: "(string \<Rightarrow> string) \<Rightarrow> webhook_request \<Rightarrow> bool" where
  "signed hmac req \<longleftrightarrow> (\<exists>sig. normaliseHeaders (req_headers req) LINEAR_SIGNATURE_HEADER = Some sig \<and> sig \<noteq> [] \<and>
     safeEqualHex (trim sig) (hmac (req_body req)))"

lemma verify_Ok:
  "verifyLinearRequest hmac parse (opt_timestampSkewMs opts) (normaliseHeaders (req_headers req)) (req_body req) clk c = (VerifyOk ts i, c') \<longleftrightarrow>
     signed hmac req \<and> extractEnvelopeMeta parse (req_body req) = Inr (ts, i) \<and> \<bar>at_verify clk - ts\<bar> \<le> skew_of opts \<and>
     (\<exists>c1. has (at_has clk) i c = (False, c1) \<and> c' = snd (remember (at_remember clk) i c1))"
  by (auto simp: verifyLinearRequest_def signed_def skew_of_def Let_def split: option.split sum.split prod.split if_splits)

text \<open>Whatever the answer, the cache is the old one, the one after a lookup, or the one after a lookup that missed and
  a record.\<close>

lemma verify_cache:
  assumes "verifyLinearRequest hmac parse skew hs body clk c = (v, c')"
  obtains "c' = c" | i where "c' = snd (has (at_has clk) i c)" "fst (has (at_has clk) i c)"
    | i where "c' = snd (remember (at_remember clk) i (snd (has (at_has clk) i c)))" "\<not> fst (has (at_has clk) i c)"
  using assms by (auto simp: verifyLinearRequest_def Let_def case_prod_beta split: option.splits sum.splits if_splits)

lemma fetch_cache:
  obtains "nonceCache (snd (webhook_fetch hmac parse opts req s)) = nonceCache s"
  | i where "nonceCache (snd (webhook_fetch hmac parse opts req s)) = snd (has (at_has (req_clock req)) i (nonceCache s))"
      "fst (has (at_has (req_clock req)) i (nonceCache s))"
  | i where "nonceCache (snd (webhook_fetch hmac parse opts req s)) =
      snd (remember (at_remember (req_clock req)) i (snd (has (at_has (req_clock req)) i (nonceCache s))))"
      "\<not> fst (has (at_has (req_clock req)) i (nonceCache s))"
proof -
  obtain v c where v: "verifyLinearRequest hmac parse (opt_timestampSkewMs opts) (normaliseHeaders (req_headers req)) (req_body req)
      (req_clock req) (nonceCache s) = (v, c)" by fastforce
  have "nonceCache (snd (webhook_fetch hmac parse opts req s)) \<in> {nonceCache s, c}"
    by (auto simp: webhook_fetch_def v note_duplicate_def Let_def split: VerifyResult.split sum.split)
  then consider "nonceCache (snd (webhook_fetch hmac parse opts req s)) = nonceCache s"
    | "nonceCache (snd (webhook_fetch hmac parse opts req s)) = c" by blast
  then show thesis using verify_cache [OF v] that by metis
qed

lemma fetch_wf: "cache_wf (nonceCache s) \<Longrightarrow> cache_wf (nonceCache (snd (webhook_fetch hmac parse opts req s)))"
  by (rule fetch_cache [of hmac parse opts req s]) (auto simp: remember_wf has_wf [OF _ prod.collapse [symmetric]])

lemma fetch_config:
  "maxEntries (nonceCache (snd (webhook_fetch hmac parse opts req s))) = maxEntries (nonceCache s)"
  "windowMs (nonceCache (snd (webhook_fetch hmac parse opts req s))) = windowMs (nonceCache s)"
  by (rule fetch_cache [of hmac parse opts req s]; simp add: cache_config)+

lemma run_wf: "cache_wf (nonceCache s) \<Longrightarrow> cache_wf (nonceCache (webhook_run hmac parse opts reqs s))"
  by (induction reqs arbitrary: s) (auto simp: fetch_wf)

lemma run_config:
  "maxEntries (nonceCache (webhook_run hmac parse opts reqs s)) = maxEntries (nonceCache s)"
  "windowMs (nonceCache (webhook_run hmac parse opts reqs s)) = windowMs (nonceCache s)"
  by (induction reqs arbitrary: s) (auto simp: fetch_config)

text \<open>From the moment an identifier was recorded until it expires, the cache holds it as long as there is room.\<close>

definition watched :: "NonceCache \<Rightarrow> string \<Rightarrow> ms \<Rightarrow> nat \<Rightarrow> ms \<Rightarrow> bool" where
  "watched c i r k now \<longleftrightarrow> remembers c i r k \<or> windowMs c < now - r"

definition clock_times :: "webhook_request \<Rightarrow> ms list" where
  "clock_times req = [at_verify (req_clock req), at_has (req_clock req), at_remember (req_clock req)]"

lemma fetch_watched:
  assumes w: "watched (nonceCache s) i r k now" and wf: "cache_wf (nonceCache s)" and room: "int (Suc k) < maxEntries (nonceCache s)"
    and t: "sorted (now # clock_times req)"
  shows "watched (nonceCache (snd (webhook_fetch hmac parse opts req s))) i r (Suc k) (at_remember (req_clock req))"
proof (cases "windowMs (nonceCache s) < at_remember (req_clock req) - r")
  case True
  then show ?thesis by (simp add: watched_def fetch_config)
next
  case False
  let ?c = "nonceCache s" and ?h = "at_has (req_clock req)"
  have live: "at_remember (req_clock req) - r \<le> windowMs ?c" "?h - r \<le> windowMs ?c" and r: "remembers ?c i r k"
    using w False t by (auto simp: watched_def clock_times_def)
  define b c1 where "b j = fst (has ?h j ?c)" and "c1 j = snd (has ?h j ?c)" for j
  then have h: "has ?h j ?c = (b j, c1 j)" for j by simp
  have look: "remembers (c1 j) i r (if b j then Suc k else k)" if "j \<noteq> i \<or> b j" for j
    using has_other_remembers [OF wf r _ h] has_own(2) [OF wf r live(2) h [of i]] that
    by (cases "j = i") (auto intro: remembers_mono)
  have own: "b i" by (rule has_own(1) [OF wf r live(2) h])
  from fetch_cache [of hmac parse opts req s] show ?thesis
  proof cases
    case 1
    then show ?thesis using r by (auto simp: watched_def intro: remembers_mono)
  next
    case (2 j)
    then show ?thesis using look [of j] h [of j] by (auto simp: watched_def)
  next
    case (3 j)
    then have b: "\<not> b j" and j: "j \<noteq> i" using h [of j] own by auto
    have fr: "j \<notin> fst ` set (store (c1 j))" using has_False [OF wf] h [of j] b by auto
    have cfg: "maxEntries (c1 j) = maxEntries ?c" "windowMs (c1 j) = windowMs ?c"
      using cache_config(1,2) [of ?h j ?c] by (simp_all add: h)
    have "remembers (snd (remember (at_remember (req_clock req)) j (c1 j))) i r (Suc k)"
      by (rule remember_other_remembers) (use look [of j] j b fr live room cfg in auto)
    then show ?thesis using 3 h [of j] by (simp add: watched_def)
  qed
qed

lemma run_watched:
  assumes "watched (nonceCache s) i r k now" and "cache_wf (nonceCache s)"
    and "int (k + length reqs) < maxEntries (nonceCache s)" and "sorted (now # concat (map clock_times reqs) @ [later])"
  shows "watched (nonceCache (webhook_run hmac parse opts reqs s)) i r (k + length reqs) later"
  using assms
proof (induction reqs arbitrary: s k now)
  case Nil
  then show ?case by (auto simp: watched_def)
next
  case (Cons q qs)
  let ?s = "snd (webhook_fetch hmac parse opts q s)"
  have "watched (nonceCache ?s) i r (Suc k) (at_remember (req_clock q))"
    by (rule fetch_watched) (use Cons.prems in \<open>auto simp: clock_times_def\<close>)
  then have "watched (nonceCache (webhook_run hmac parse opts qs ?s)) i r (Suc k + length qs) later"
    by (rule Cons.IH) (use Cons.prems in \<open>auto simp: fetch_wf fetch_config clock_times_def\<close>)
  then show ?case by simp
qed

lemma fetch_surfaces:
  assumes "sink (snd (webhook_fetch hmac parse opts req s)) \<noteq> sink s"
  obtains ts i c ev where "req_pathname req = WEBHOOK_PATH" "req_method req = ''POST''"
    "verifyLinearRequest hmac parse (opt_timestampSkewMs opts) (normaliseHeaders (req_headers req)) (req_body req) (req_clock req)
       (nonceCache s) = (VerifyOk ts i, c)"
    "nonceCache (snd (webhook_fetch hmac parse opts req s)) = c" "parseLinearEvent parse (req_body req) = Inr ev"
    "sink (snd (webhook_fetch hmac parse opts req s)) = sink_push ev (sink s)"
  using assms by (auto simp: webhook_fetch_def note_duplicate_def Let_def split: if_splits prod.splits VerifyResult.splits sum.splits)


section \<open>Properties\<close>

lemma new_handler: "buildFetchHandler secret opts = Inr s0 \<Longrightarrow> cache_wf (nonceCache s0)"
  by (auto simp: buildFetchHandler_def new_NonceCache_def cache_wf_def split: if_splits)

text \<open>C17: no delivery is surfaced twice. After any requests whatsoever, let one request surface an event and let a later
  one carry the same delivery id and timestamp. If fewer requests than the cache has entries came between, the clock
  does not run backwards, and the nonce window covers twice the allowed skew plus the time the handler takes between
  its two readings, then the later request surfaces nothing. The defaults, ten minutes and twice five, meet this
  exactly when the two readings agree.\<close>

theorem webhook_no_replay:
  assumes "buildFetchHandler secret opts = Inr s0" and "s = webhook_run hmac parse opts before s0"
    and "sorted (concat (map clock_times (r1 # mid @ [r2])))" and "at_has (req_clock r2) \<le> at_verify (req_clock r2) + lag"
    and "2 * skew_of opts + lag \<le> windowMs (nonceCache s0)" and "int (length mid) < maxEntries (nonceCache s0)"
    and "extractEnvelopeMeta parse (req_body r2) = extractEnvelopeMeta parse (req_body r1)"
    and "s1 = snd (webhook_fetch hmac parse opts r1 s)" and "sink s1 \<noteq> sink s" and "s2 = webhook_run hmac parse opts mid s1"
  shows "sink (snd (webhook_fetch hmac parse opts r2 s2)) = sink s2"
proof (rule ccontr)
  assume again: "sink (snd (webhook_fetch hmac parse opts r2 s2)) \<noteq> sink s2"
  have wf: "cache_wf (nonceCache s)" using new_handler [OF assms(1)] by (simp add: assms(2) run_wf)
  obtain ts i c where v1: "verifyLinearRequest hmac parse (opt_timestampSkewMs opts) (normaliseHeaders (req_headers r1)) (req_body r1)
      (req_clock r1) (nonceCache s) = (VerifyOk ts i, c)" and c: "nonceCache s1 = c"
    using fetch_surfaces [OF assms(9) [unfolded assms(8)]] assms(8) by metis
  obtain ts' i' c' where v2: "verifyLinearRequest hmac parse (opt_timestampSkewMs opts) (normaliseHeaders (req_headers r2)) (req_body r2)
      (req_clock r2) (nonceCache s2) = (VerifyOk ts' i', c')"
    using fetch_surfaces [OF again] by metis
  let ?r = "at_remember (req_clock r1)" and ?h = "at_has (req_clock r2)"
  obtain c1 where h1: "has (at_has (req_clock r1)) i (nonceCache s) = (False, c1)" and cr: "c = snd (remember ?r i c1)"
    and e1: "extractEnvelopeMeta parse (req_body r1) = Inr (ts, i)" "\<bar>at_verify (req_clock r1) - ts\<bar> \<le> skew_of opts"
    using v1 unfolding verify_Ok by blast
  have e2: "ts' = ts" "i' = i" "\<bar>at_verify (req_clock r2) - ts\<bar> \<le> skew_of opts" and h2: "\<not> fst (has ?h i (nonceCache s2))"
    using v2 e1(1) assms(7) unfolding verify_Ok by auto
  have cfg: "maxEntries (nonceCache s) = maxEntries (nonceCache s0)" "windowMs (nonceCache s2) = windowMs (nonceCache s0)"
    "maxEntries (nonceCache s1) = maxEntries (nonceCache s0)"
    by (simp_all add: assms(2,8,10) run_config fetch_config)
  have "maxEntries c1 = maxEntries (nonceCache s0)" using cache_config(1) [of "at_has (req_clock r1)" i "nonceCache s"] h1 cfg by simp
  then have "remembers (nonceCache s1) i ?r 0" unfolding c cr using has_False [OF wf h1] assms(6) by (intro remember_own) auto
  then have "watched (nonceCache s1) i ?r 0 ?r" by (simp add: watched_def)
  moreover have "cache_wf (nonceCache s1)" using fetch_wf [OF wf] by (simp add: assms(8))
  ultimately have "watched (nonceCache s2) i ?r (0 + length mid) ?h"
    unfolding assms(10) by (rule run_watched) (use assms(3,6) cfg in \<open>auto simp: clock_times_def sorted_append\<close>)
  moreover have "?h - ?r \<le> windowMs (nonceCache s2)"
  proof -
    have "at_verify (req_clock r1) \<le> ?r" using assms(3) by (simp add: clock_times_def)
    then show ?thesis using e1(2) e2(3) assms(4,5) cfg(2) by linarith
  qed
  ultimately have "remembers (nonceCache s2) i ?r (0 + length mid)" by (auto simp: watched_def)
  moreover have "cache_wf (nonceCache s2)" using fetch_wf [OF wf] by (simp add: assms(8,10) run_wf)
  ultimately have "fst (has ?h i (nonceCache s2))"
    using has_own(1) [OF _ _ \<open>?h - ?r \<le> windowMs (nonceCache s2)\<close> prod.collapse [symmetric]] by blast
  with h2 show False ..
qed

text \<open>C22: what reaches the consumers. A request changes the sink exactly by pushing the event of its body, and only if it is a
  POST to the webhook path whose signature is the HMAC of the body, whose timestamp is inside the window, and whose id
  was not seen; it is then answered 200. A POST to the path that is not answered 200 pushes nothing.\<close>

theorem webhook_surfaces_signed:
  assumes "webhook_fetch hmac parse opts req s = (status, s')" and "req_method req = ''POST''"
  shows "(status = 200 \<longleftrightarrow> req_pathname req = WEBHOOK_PATH \<and> signed hmac req \<and>
      (\<exists>ts i ev. extractEnvelopeMeta parse (req_body req) = Inr (ts, i) \<and> \<bar>at_verify (req_clock req) - ts\<bar> \<le> skew_of opts \<and>
        \<not> fst (has (at_has (req_clock req)) i (nonceCache s)) \<and> parseLinearEvent parse (req_body req) = Inr ev \<and>
        sink s' = sink_push ev (sink s))) \<and>
    (status \<noteq> 200 \<longrightarrow> sink s' = sink s)"
proof (cases "req_pathname req = WEBHOOK_PATH")
  case False
  then show ?thesis using assms by (auto simp: webhook_fetch_def)
next
  case True
  obtain v c where v: "verifyLinearRequest hmac parse (opt_timestampSkewMs opts) (normaliseHeaders (req_headers req)) (req_body req)
      (req_clock req) (nonceCache s) = (v, c)" by fastforce
  have st: "rejectStatus reason \<noteq> 200" for reason by (cases reason) auto
  show ?thesis
  proof (cases v)
    case (VerifyErr reason detail)
    have no: "\<not> (signed hmac req \<and> extractEnvelopeMeta parse (req_body req) = Inr (ts, i) \<and> \<bar>at_verify (req_clock req) - ts\<bar> \<le> skew_of opts \<and>
        \<not> fst (has (at_has (req_clock req)) i (nonceCache s)))" for ts i
      using verify_Ok [of hmac parse opts req "req_clock req" "nonceCache s" ts i] v VerifyErr by (metis VerifyResult.distinct(1) prod.collapse prod.inject)
    have "status \<noteq> 200" "sink s' = sink s"
      using assms True v VerifyErr st by (auto simp: webhook_fetch_def note_duplicate_def Let_def split: if_splits)
    then show ?thesis using no by blast
  next
    case (VerifyOk ts i)
    then have ok: "signed hmac req" "extractEnvelopeMeta parse (req_body req) = Inr (ts, i)" "\<bar>at_verify (req_clock req) - ts\<bar> \<le> skew_of opts"
      "\<not> fst (has (at_has (req_clock req)) i (nonceCache s))" using v verify_Ok [of hmac parse opts req] by auto
    show ?thesis
    proof (cases "parseLinearEvent parse (req_body req)")
      case (Inl e)
      then show ?thesis using assms True v VerifyOk by (auto simp: webhook_fetch_def Let_def split: if_splits prod.splits)
    next
      case (Inr ev)
      then show ?thesis using assms True v VerifyOk ok by (auto simp: webhook_fetch_def)
    qed
  qed
qed


definition sample_body :: js_record where
  "sample_body = [(''action'', JStr ''create''), (''type'', JStr ''Comment''), (''webhookTimestamp'', JNum 1000), (''webhookId'', JStr ''w''),
     (''data'', JObj [(''id'', JStr ''c''), (''body'', JStr ''hi''), (''issueId'', JStr ''i'')])]"

definition sample_opts :: WebhookServerOptions where
  "sample_opts = \<lparr>opt_timestampSkewMs = None, opt_maxEntries = None, opt_windowMs = None, opt_throttleMs = None\<rparr>"

definition sample_request :: webhook_request where
  "sample_request = \<lparr>req_pathname = ''/webhooks/linear'', req_method = ''POST'', req_headers = [(''Linear-Signature'', ''AB'')], req_body = [],
     req_clock = \<lparr>at_verify = 1200, at_has = 1200, at_remember = 1200\<rparr>, req_log_time = 1200\<rparr>"

definition sample_event :: LinearEvent where
  "sample_event = CommentCreated 1000 ''w'' sample_body ''c'' ''i'' ''hi'' None"

definition sample_server :: webhook_state where
  "sample_server = \<lparr>nonceCache = new_NonceCache None None, sink = createEventSink, lastLoggedAt = [], duplicateNonceTotal = 0, warnings = 0\<rparr>"

lemma sample_built: "buildFetchHandler ''secret'' sample_opts = Inr sample_server"
  by (simp add: buildFetchHandler_def sample_opts_def sample_server_def)

lemma sample_signed: "signed (\<lambda>_. ''ab'') sample_request"
  unfolding signed_def
proof (intro exI conjI)
  have "to_lower ''Linear-Signature'' = ''linear-signature''" by code_simp
  then show "normaliseHeaders (req_headers sample_request) LINEAR_SIGNATURE_HEADER = Some ''AB''"
    by (simp add: normaliseHeaders_def sample_request_def LINEAR_SIGNATURE_HEADER_def)
  show "safeEqualHex (trim ''AB'') ''ab''" by code_simp
qed simp

lemma sample_meta: "extractEnvelopeMeta (\<lambda>_. Some (JObj sample_body)) b = Inr (1000, ''w'')"
  by (simp add: extractEnvelopeMeta_def sample_body_def js_prop_def)

lemma sample_parse: "parseLinearEvent (\<lambda>_. Some (JObj sample_body)) b = Inr sample_event"
  by (simp add: parseLinearEvent_def isLinearWebhookEnvelope_def sample_body_def js_prop_def classifyEnvelope_def parseCommentCreated_def
      pickUserId_def sample_event_def)

lemma sample_surfaced:
  "\<exists>c. webhook_fetch (\<lambda>_. ''ab'') (\<lambda>_. Some (JObj sample_body)) sample_opts sample_request sample_server =
     (200, sample_server\<lparr>nonceCache := c, sink := createEventSink\<lparr>buffer := [sample_event]\<rparr>\<rparr>)"
proof -
  let ?v = "verifyLinearRequest (\<lambda>_. ''ab'') (\<lambda>_. Some (JObj sample_body)) (opt_timestampSkewMs sample_opts)
    (normaliseHeaders (req_headers sample_request)) (req_body sample_request) (req_clock sample_request) (nonceCache sample_server)"
  obtain c where "?v = (VerifyOk 1000 ''w'', c)"
    unfolding verify_Ok using sample_signed
    by (simp add: sample_meta sample_request_def skew_of_def sample_opts_def DEFAULT_TIMESTAMP_SKEW_MS_def has_def sample_server_def
        new_NonceCache_def)
  then show ?thesis
    by (intro exI [of _ c]) (simp add: webhook_fetch_def sample_parse, simp add: sample_request_def WEBHOOK_PATH_def sample_server_def
        sink_push_def createEventSink_def)
qed

theorem webhook_no_replay_witness:
  "let fetch = webhook_fetch (\<lambda>_. ''ab'') (\<lambda>_. Some (JObj sample_body)) sample_opts sample_request; s1 = snd (fetch sample_server)
   in sink s1 \<noteq> sink sample_server \<and> sink (snd (fetch s1)) = sink s1"
proof -
  let ?f = "webhook_fetch (\<lambda>_. ''ab'') (\<lambda>_. Some (JObj sample_body)) sample_opts sample_request"
  have s: "sink (snd (?f sample_server)) \<noteq> sink sample_server"
    using sample_surfaced by (auto simp: createEventSink_def sample_server_def)
  have "sink (snd (?f (snd (?f sample_server)))) = sink (snd (?f sample_server))"
    by (rule webhook_no_replay [OF sample_built, where before = "[]" and mid = "[]" and lag = 0, OF _ _ _ _ _ refl refl])
      (use s in \<open>simp_all add: clock_times_def sample_request_def skew_of_def sample_opts_def DEFAULT_TIMESTAMP_SKEW_MS_def
        sample_server_def new_NonceCache_def\<close>)
  with s show ?thesis by (simp add: Let_def)
qed

theorem webhook_surfaces_signed_witness:
  "signed (\<lambda>_. ''ab'') sample_request \<and> fst (webhook_fetch (\<lambda>_. ''ab'') (\<lambda>_. Some (JObj sample_body)) sample_opts sample_request sample_server) = 200"
proof -
  obtain c where f: "webhook_fetch (\<lambda>_. ''ab'') (\<lambda>_. Some (JObj sample_body)) sample_opts sample_request sample_server =
     (200, sample_server\<lparr>nonceCache := c, sink := createEventSink\<lparr>buffer := [sample_event]\<rparr>\<rparr>)" using sample_surfaced by blast
  have "req_method sample_request = ''POST''" by (simp add: sample_request_def)
  from webhook_surfaces_signed [OF f this] f show ?thesis by simp
qed

end
