(* ===== verification/Diff_Overlap.thy ===== *)
theory Diff_Overlap
  imports Globs "HOL-Library.AList" "HOL-Library.List_Lexorder" "HOL-Library.Char_ord"
begin

text \<open>
  The gate after an integration merge (\<^verbatim>\<open>packages/core/composition/src/diff-overlap.ts\<close>): which files did
  at least two of the merged runs touch, and which sensitive files did any of them touch. Running git in
  a directory is a parameter: \<open>Inl\<close> the message of the rejected promise, \<open>Inr\<close> the standard output.
  The counting maps are association lists in insertion order.
\<close>

section \<open>Data\<close>

record DiffOverlapPolicy =
  alwaysFlagGlobs :: "string list option"
  ignoredGlobs :: "string list option"

definition DEFAULT_ALWAYS_FLAG_GLOBS :: "string list" where
  "DEFAULT_ALWAYS_FLAG_GLOBS =
     [''**/*.test.*'', ''**/tsconfig*.json'', ''package.json'', ''**/schema.sql'', ''agent-ci.yml'',
      ''.github/workflows/*.yml'']"

definition DEFAULT_IGNORED_GLOBS :: "string list" where
  "DEFAULT_IGNORED_GLOBS = [''**/*.md'', ''node_modules/**'', ''vendor/**'', ''.shamu/**'']"

record RunMergeRecord =
  merge_runId :: string
  branch :: string
  mergeBase :: string
  mergedAt :: int

record DiffOverlapResult =
  sharedFiles :: "string list"
  alwaysFlagged :: "string list"
  requiresReconcile :: bool

type_synonym git_fn = "string \<Rightarrow> string list \<Rightarrow> string + string"

section \<open>Operations\<close>

definition diff_args :: "string \<Rightarrow> string \<Rightarrow> string list" where
  "diff_args base tip = [''diff'', ''--name-only'', ''-M'', ''--diff-filter=ACMRTUXB'', base @ ''..'' @ tip]"

definition gitDiffNames :: "git_fn \<Rightarrow> string \<Rightarrow> string \<Rightarrow> string \<Rightarrow> string + string list" where
  "gitDiffNames git repo base tip =
     bind_result (guard_result (repo \<noteq> []) ''diffOverlapCheck: repo must be a non-empty path'') (\<lambda>_.
     bind_result (guard_result (base \<noteq> []) ''diffOverlapCheck: mergeBase must be a non-empty string'') (\<lambda>_.
     bind_result (guard_result (tip \<noteq> []) ''diffOverlapCheck: tip must be a non-empty string'') (\<lambda>_.
     bind_result (git repo (diff_args base tip)) (\<lambda>stdout.
       Inr (filter (\<lambda>s. s \<noteq> []) (map trim (split_on (CHR 0x0A) stdout)))))))"

fun matchesAny :: "string \<Rightarrow> string list \<Rightarrow> bool" where
  "matchesAny path [] = False"
| "matchesAny path (g # gs) = (if globMatchesPath g path then True else matchesAny path gs)"

record touches =
  touchCount :: "(string \<times> nat) list"
  allTouched :: "string list"

definition add_touch :: "string \<Rightarrow> touches \<Rightarrow> touches" where
  "add_touch f t =
     \<lparr>touchCount = AList.update f ((case map_of (touchCount t) f of None \<Rightarrow> 0 | Some n \<Rightarrow> n) + 1) (touchCount t),
      allTouched = (if f \<in> set (allTouched t) then allTouched t else allTouched t @ [f])\<rparr>"

text \<open>The inner loop over the files of one run, with the files this run has already counted.\<close>

fun touch_files :: "string list \<Rightarrow> string list \<Rightarrow> touches \<Rightarrow> touches" where
  "touch_files seenInThisRun [] t = t"
| "touch_files seenInThisRun (f # fs) t =
     (if f \<in> set seenInThisRun then touch_files seenInThisRun fs t
      else touch_files (seenInThisRun @ [f]) fs (add_touch f t))"

fun touch_runs :: "git_fn \<Rightarrow> string \<Rightarrow> RunMergeRecord list \<Rightarrow> touches \<Rightarrow> string + touches" where
  "touch_runs git repo [] t = Inr t"
| "touch_runs git repo (r # rs) t =
     bind_result (gitDiffNames git repo (mergeBase r) (branch r)) (\<lambda>files.
       touch_runs git repo rs (touch_files [] files t))"

definition overlap_result :: "string list \<Rightarrow> string list \<Rightarrow> touches \<Rightarrow> DiffOverlapResult" where
  "overlap_result flag ignored t =
     (let shared = sort (remdups (map fst (filter (\<lambda>(f, n). \<not> matchesAny f ignored \<and> n \<ge> 2) (touchCount t))));
          flagged = sort (remdups (filter (\<lambda>f. \<not> matchesAny f ignored \<and> matchesAny f flag) (allTouched t)))
      in \<lparr>sharedFiles = shared, alwaysFlagged = flagged, requiresReconcile = (length shared > 0 \<or> length flagged > 0)\<rparr>)"

definition policy_flag :: "DiffOverlapPolicy option \<Rightarrow> string list" where
  "policy_flag pol = (case pol of None \<Rightarrow> DEFAULT_ALWAYS_FLAG_GLOBS
     | Some p \<Rightarrow> (case alwaysFlagGlobs p of None \<Rightarrow> DEFAULT_ALWAYS_FLAG_GLOBS | Some gs \<Rightarrow> gs))"

definition policy_ignored :: "DiffOverlapPolicy option \<Rightarrow> string list" where
  "policy_ignored pol = (case pol of None \<Rightarrow> DEFAULT_IGNORED_GLOBS
     | Some p \<Rightarrow> (case ignoredGlobs p of None \<Rightarrow> DEFAULT_IGNORED_GLOBS | Some gs \<Rightarrow> gs))"

text \<open>The start of the window is an integer, hence finite.\<close>

definition diffOverlapCheck ::
  "git_fn \<Rightarrow> string \<Rightarrow> string \<Rightarrow> int \<Rightarrow> RunMergeRecord list \<Rightarrow> DiffOverlapPolicy option \<Rightarrow> string + DiffOverlapResult" where
  "diffOverlapCheck git repo integrationBranch windowStart mergedRuns pol =
     bind_result (guard_result (repo \<noteq> []) ''diffOverlapCheck: repo must be a non-empty path'') (\<lambda>_.
     bind_result (guard_result (integrationBranch \<noteq> [])
       ''diffOverlapCheck: integrationBranch must be a non-empty string'') (\<lambda>_.
     let inWindow = filter (\<lambda>r. mergedAt r \<ge> windowStart) mergedRuns
     in bind_result (git repo [''rev-parse'', ''--verify'', integrationBranch]) (\<lambda>_.
        bind_result (touch_runs git repo inWindow \<lparr>touchCount = [], allTouched = []\<rparr>) (\<lambda>t.
          Inr (overlap_result (policy_flag pol) (policy_ignored pol) t)))))"

section \<open>What is counted\<close>

lemma matchesAny_iff: "matchesAny p gs \<longleftrightarrow> (\<exists>g \<in> set gs. globMatchesPath g p)"
  by (induction gs) auto

definition touch_count :: "touches \<Rightarrow> string \<Rightarrow> nat" where
  "touch_count t f = (case map_of (touchCount t) f of None \<Rightarrow> 0 | Some n \<Rightarrow> n)"

text \<open>The counting structures agree with a count of the files: no key twice, no zero counts, and the set
  of touched files is the set of keys.\<close>

definition counts_files :: "(string \<Rightarrow> nat) \<Rightarrow> touches \<Rightarrow> bool" where
  "counts_files c t \<longleftrightarrow> distinct (map fst (touchCount t)) \<and> touch_count t = c \<and>
     set (allTouched t) = {f. 0 < c f} \<and> dom (map_of (touchCount t)) = {f. 0 < c f}"

lemma counts_files_add:
  "counts_files c t \<Longrightarrow> counts_files (c(f := c f + 1)) (add_touch f t)"
  by (auto simp: counts_files_def add_touch_def touch_count_def distinct_update update_conv' fun_eq_iff dom_def
      split: option.splits)

lemma touch_files_counts:
  "counts_files c t \<Longrightarrow>
     counts_files (\<lambda>f. c f + (if f \<in> set fs - set seen then 1 else 0)) (touch_files seen fs t)"
proof (induction seen fs t arbitrary: c rule: touch_files.induct)
  case (2 seen f fs t)
  show ?case
  proof (cases "f \<in> set seen")
    case True
    have "(\<lambda>g. c g + (if g \<in> set (f # fs) - set seen then 1 else 0)) =
      (\<lambda>g. c g + (if g \<in> set fs - set seen then 1 else 0))" using True by auto
    then show ?thesis using 2 True by simp
  next
    case False
    have "(\<lambda>g. c g + (if g \<in> set (f # fs) - set seen then 1 else 0)) =
      (\<lambda>g. (c(f := c f + 1)) g + (if g \<in> set fs - set (seen @ [f]) then 1 else 0))" using False by auto
    then show ?thesis using "2.IH"(2) [OF False counts_files_add [OF "2.prems"]] False by simp
  qed
qed simp

text \<open>The files a run touched, and the number of runs that touched a file.\<close>

definition run_files :: "git_fn \<Rightarrow> string \<Rightarrow> RunMergeRecord \<Rightarrow> string set" where
  "run_files git repo r = (case gitDiffNames git repo (mergeBase r) (branch r) of Inl _ \<Rightarrow> {} | Inr fs \<Rightarrow> set fs)"

definition runs_touching :: "git_fn \<Rightarrow> string \<Rightarrow> RunMergeRecord list \<Rightarrow> string \<Rightarrow> nat" where
  "runs_touching git repo rs f = length (filter (\<lambda>r. f \<in> run_files git repo r) rs)"

definition diff_fails :: "git_fn \<Rightarrow> string \<Rightarrow> RunMergeRecord \<Rightarrow> bool" where
  "diff_fails git repo r = isl (gitDiffNames git repo (mergeBase r) (branch r))"

lemma touch_runs_counts:
  "counts_files c t \<Longrightarrow>
     (case touch_runs git repo rs t of
        Inl _ \<Rightarrow> list_ex (diff_fails git repo) rs
      | Inr t' \<Rightarrow> \<not> list_ex (diff_fails git repo) rs \<and> counts_files (\<lambda>f. c f + runs_touching git repo rs f) t')"
proof (induction rs arbitrary: c t)
  case (Cons r rs)
  show ?case
  proof (cases "gitDiffNames git repo (mergeBase r) (branch r)")
    case (Inr files)
    have "(\<lambda>f. c f + (if f \<in> set files - set [] then 1 else 0) + runs_touching git repo rs f) =
      (\<lambda>f. c f + runs_touching git repo (r # rs) f)"
      using Inr by (auto simp: runs_touching_def run_files_def)
    then show ?thesis
      using Cons.IH [OF touch_files_counts [OF Cons.prems, of files "[]"]] Inr
      by (auto simp: diff_fails_def split: sum.splits)
  qed (simp add: diff_fails_def)
qed (simp add: runs_touching_def)

lemma sort_remdups_set: "sort (remdups xs) = sorted_list_of_set (set xs)"
  by (rule sorted_distinct_set_unique) auto

lemma counts_filter:
  assumes "counts_files c t"
  shows "fst ` {kv \<in> set (touchCount t). P (fst kv) \<and> 2 \<le> snd kv} = {f. 2 \<le> c f \<and> P f}"
proof -
  have d: "distinct (map fst (touchCount t))" and c: "c = touch_count t"
    and k: "\<And>f. f \<in> fst ` set (touchCount t) \<longleftrightarrow> 0 < c f" using assms by (auto simp: counts_files_def dom_map_of_conv_image_fst)
  have get: "(f, n) \<in> set (touchCount t) \<Longrightarrow> c f = n" for f n using d by (simp add: c touch_count_def)
  show ?thesis
  proof (intro set_eqI iffI)
    fix f assume "f \<in> {f. 2 \<le> c f \<and> P f}"
    then obtain n where "(f, n) \<in> set (touchCount t)" using k [of f] by auto
    then show "f \<in> fst ` {kv \<in> set (touchCount t). P (fst kv) \<and> 2 \<le> snd kv}"
      using \<open>f \<in> {f. 2 \<le> c f \<and> P f}\<close> get by force
  qed (use get in auto)
qed

lemma overlap_result_counts:
  assumes "counts_files c t"
  shows "sharedFiles (overlap_result flag ignored t) = sorted_list_of_set {f. 2 \<le> c f \<and> \<not> matchesAny f ignored}"
    and "alwaysFlagged (overlap_result flag ignored t) =
      sorted_list_of_set {f. 1 \<le> c f \<and> matchesAny f flag \<and> \<not> matchesAny f ignored}"
proof -
  have "set (map fst (filter (\<lambda>(f, n). \<not> matchesAny f ignored \<and> n \<ge> 2) (touchCount t))) =
    fst ` {kv \<in> set (touchCount t). \<not> matchesAny (fst kv) ignored \<and> 2 \<le> snd kv}" by (auto simp: image_def)
  then show "sharedFiles (overlap_result flag ignored t) = sorted_list_of_set {f. 2 \<le> c f \<and> \<not> matchesAny f ignored}"
    using counts_filter [OF assms, of "\<lambda>f. \<not> matchesAny f ignored"]
    by (simp add: overlap_result_def Let_def sort_remdups_set del: set_map)
  have "set (filter (\<lambda>f. \<not> matchesAny f ignored \<and> matchesAny f flag) (allTouched t)) =
    {f. 1 \<le> c f \<and> matchesAny f flag \<and> \<not> matchesAny f ignored}" using assms by (auto simp: counts_files_def)
  then show "alwaysFlagged (overlap_result flag ignored t) =
      sorted_list_of_set {f. 1 \<le> c f \<and> matchesAny f flag \<and> \<not> matchesAny f ignored}"
    by (simp add: overlap_result_def Let_def sort_remdups_set del: set_filter)
qed

text \<open>The overlap gate is exact. It fails when an argument is empty, the integration branch does not
  resolve, or the diff of a run of the window fails, and then only. Otherwise, counting only the runs
  merged since the start of the window, it reports in sorted order and without repetition the files that
  at least two runs touched and the files that at least one run touched and an always-flag glob matches,
  leaving out the ignored ones in both, and it asks for a reconcile exactly when it reports a file.\<close>

theorem diff_overlap_exact:
  "let window = filter (\<lambda>r. mergedAt r \<ge> windowStart) mergedRuns;
       bad = (repo = [] \<or> br = [] \<or> isl (git repo [''rev-parse'', ''--verify'', br]) \<or> list_ex (diff_fails git repo) window)
   in case diffOverlapCheck git repo br windowStart mergedRuns pol of
        Inl _ \<Rightarrow> bad
      | Inr res \<Rightarrow> \<not> bad \<and>
          sharedFiles res =
            sorted_list_of_set {f. 2 \<le> runs_touching git repo window f \<and> \<not> matchesAny f (policy_ignored pol)} \<and>
          alwaysFlagged res =
            sorted_list_of_set {f. 1 \<le> runs_touching git repo window f \<and> matchesAny f (policy_flag pol) \<and>
              \<not> matchesAny f (policy_ignored pol)} \<and>
          requiresReconcile res = (0 < length (sharedFiles res) \<or> 0 < length (alwaysFlagged res))"
proof -
  define window where "window = filter (\<lambda>r. mergedAt r \<ge> windowStart) mergedRuns"
  have zero: "counts_files (\<lambda>_. 0) \<lparr>touchCount = [], allTouched = []\<rparr>"
    by (simp add: counts_files_def touch_count_def fun_eq_iff)
  note run = touch_runs_counts [OF zero, of git repo window]
  show ?thesis
  proof (cases "touch_runs git repo window \<lparr>touchCount = [], allTouched = []\<rparr>")
    case (Inl e)
    with run show ?thesis
      by (cases "git repo [''rev-parse'', ''--verify'', br]")
        (auto simp: diffOverlapCheck_def Let_def guard_result_def simp flip: window_def split: sum.splits)
  next
    case (Inr t)
    with run have c: "counts_files (runs_touching git repo window) t" and ok: "\<not> list_ex (diff_fails git repo) window" by auto
    have rr: "requiresReconcile (overlap_result flag ig t) =
      (0 < length (sharedFiles (overlap_result flag ig t)) \<or> 0 < length (alwaysFlagged (overlap_result flag ig t)))" for flag ig
      unfolding overlap_result_def Let_def DiffOverlapResult.simps by (rule refl)
    show ?thesis
      using Inr ok rr overlap_result_counts [OF c]
      by (cases "git repo [''rev-parse'', ''--verify'', br]")
        (auto simp: diffOverlapCheck_def Let_def guard_result_def simp flip: window_def)
  qed
qed

end
