(* ===== verification/Escalation.thy ===== *)
theory Escalation
  imports Ulid Leases Flow_Engine Swarm Watchdog
begin

text \<open>
  The composition of the coordination, watchdog, flow and supervision parts
  (\<^verbatim>\<open>packages/core/composition/src/escalation-emitter.ts\<close> and \<^verbatim>\<open>ci-tripwire-observer.ts\<close>): refused lease
  reclaims, watchdog alerts and CI tripwires become escalations on the bus of a swarm, and finished CI nodes
  of a flow feed the tripwire. An emitter's state is its \<^verbatim>\<open>stopped\<close> flag; an operation returns the events it
  publishes. Handing them to the swarm publishes them on its bus and then runs the swarm's own listener.
\<close>

section \<open>Translations\<close>

fun confidence_text :: "Confidence \<Rightarrow> string" where
  "confidence_text Confidence.High = ''high''"
| "confidence_text Confidence.Medium = ''medium''"
| "confidence_text Confidence.Low = ''low''"
| "confidence_text Confidence.Unknown = ''unknown''"



definition translateWatchdogAlert :: "WatchdogAlert \<Rightarrow> ms \<Rightarrow> EscalationRaised" where
  "translateWatchdogAlert alert t =
     (let signalsLabel = signal_name (fst (signals alert)) @ ''+'' @ signal_name (snd (signals alert))
      in \<lparr>er_swarmId = None, er_roleId = alert_role alert, er_childId = alert_run alert, er_cause = watchdog_agreement,
          er_reason = alert_reason alert @ '' [signals='' @ signalsLabel @ '' confidence='' @
            confidence_text (alert_confidence alert) @ '']'',
          er_at = (if alert_at alert > 0 then alert_at alert else t), er_restartsInWindow = 0, er_target = ''role''\<rparr>)"


definition translateCiTripwire :: "WatchdogCiTripwire \<Rightarrow> ms \<Rightarrow> EscalationRaised" where
  "translateCiTripwire ev t =
     (let runCount = length (runIds ev);
          childId = (if runCount > 0 then runIds ev ! (runCount - 1) else wire_role ev);
          streakLabel =
            (if runCount = 0 then ''runCount=0''
             else if runCount = 1 then ''runIds='' @ runIds ev ! 0 @ '' threshold='' @ show_nat (wire_threshold ev)
             else ''runIds='' @ runIds ev ! 0 @ ''..'' @ runIds ev ! (runCount - 1) @ '' threshold='' @
               show_nat (wire_threshold ev))
      in \<lparr>er_swarmId = None, er_roleId = Some (wire_role ev), er_childId = childId, er_cause = ci_tripwire,
          er_reason = wire_reason ev @ '' ['' @ streakLabel @ '']'',
          er_at = (if wire_at ev > 0 then wire_at ev else t), er_restartsInWindow = 0, er_target = ''role''\<rparr>)"

section \<open>The emitter\<close>

record EscalationEmitter =
  em_stopped :: bool

definition createEscalationEmitter :: EscalationEmitter where
  "createEscalationEmitter = \<lparr>em_stopped = False\<rparr>"

definition watchdog_emit :: "EscalationEmitter \<Rightarrow> ms \<Rightarrow> WatchdogEvent \<Rightarrow> SupervisorEvent list" where
  "watchdog_emit em t ev =
     (if em_stopped em then []
      else case ev of AlertEvent a \<Rightarrow> [EscalationEvent (translateWatchdogAlert a t)] | _ \<Rightarrow> [])"

definition emitCiTripwire :: "EscalationEmitter \<Rightarrow> ms \<Rightarrow> WatchdogCiTripwire \<Rightarrow> SupervisorEvent list" where
  "emitCiTripwire em t ev = (if em_stopped em then [] else [EscalationEvent (translateCiTripwire ev t)])"


definition emitter_stop :: "EscalationEmitter \<Rightarrow> EscalationEmitter" where
  "emitter_stop em = em\<lparr>em_stopped := True\<rparr>"

text \<open>What the emitter publishes reaches the bus of the swarm, whose listener reacts.\<close>

definition deliver :: "SupervisorEvent list \<Rightarrow> Swarm \<Rightarrow> world \<Rightarrow> Swarm \<times> world" where
  "deliver evs sw w = on_events evs sw (w\<lparr>bus := publish_all evs (bus w)\<rparr>)"


section \<open>The CI observer\<close>

record CiTripwireObserver =
  ob_stopped :: bool
  ciNodeId :: string
  ob_role :: string

definition createCiTripwireObserver :: "string \<Rightarrow> string option \<Rightarrow> CiTripwireObserver" where
  "createCiTripwireObserver node rl =
     \<lparr>ob_stopped = False, ciNodeId = node, ob_role = (case rl of None \<Rightarrow> ''executor'' | Some r \<Rightarrow> r)\<rparr>"

definition observer_stop :: "CiTripwireObserver \<Rightarrow> CiTripwireObserver" where
  "observer_stop ob = (if ob_stopped ob then ob else ob\<lparr>ob_stopped := True\<rparr>)"

definition status_of_text :: "string \<Rightarrow> ci_status option" where
  "status_of_text s = (if s = ''green'' then Some green else if s = ''red'' then Some red
     else if s = ''unknown'' then Some unknown else None)"

text \<open>The run id and the status of an output that has the shape of a CI output. Arrays and the other
  objects of JavaScript have no property of these names.\<close>

definition isCiNodeOutputShape :: "js_value \<Rightarrow> (string \<times> ci_status) option" where
  "isCiNodeOutputShape v =
     (case v of
        JObj kvs \<Rightarrow>
          (case map_of kvs ''runId'' of
             Some (JStr rid) \<Rightarrow>
               (case map_of kvs ''summary'' of
                  Some (JObj skvs) \<Rightarrow>
                    (case map_of skvs ''status'' of
                       Some (JStr st) \<Rightarrow> map_option (Pair rid) (status_of_text st)
                     | _ \<Rightarrow> None)
                | _ \<Rightarrow> None)
           | _ \<Rightarrow> None)
      | _ \<Rightarrow> None)"

text \<open>What the listener hands to the tripwire, if anything.\<close>

definition observed :: "CiTripwireObserver \<Rightarrow> FlowEvent \<Rightarrow> CiTripwireObservation option" where
  "observed ob ev =
     (if ob_stopped ob then None
      else case ev of
        NodeCompletedEv frid nid t dur out _ \<Rightarrow>
          if nid \<noteq> ciNodeId ob then None
          else (case isCiNodeOutputShape (out_value out) of
                  None \<Rightarrow> None
                | Some (rid, st) \<Rightarrow>
                    (case parseRunId (Some rid) of
                       Inl _ \<Rightarrow> None
                     | Inr observedRunId \<Rightarrow>
                         Some \<lparr>ci_role = ob_role ob, status = st, ci_run = observedRunId, ci_at = t,
                           ci_detail = Some [(''nodeId'', JStr nid), (''flowRunId'', JStr frid)]\<rparr>))
      | _ \<Rightarrow> None)"

text \<open>One event of the flow bus through observer, tripwire (threshold \<open>n\<close>) and emitter, at clock \<open>t\<close>.\<close>

definition ci_event ::
  "nat \<Rightarrow> CiTripwireObserver \<Rightarrow> EscalationEmitter \<Rightarrow> ms \<Rightarrow> FlowEvent \<Rightarrow> tripwire \<Rightarrow> SupervisorEvent list \<times> tripwire" where
  "ci_event n ob em t ev wire =
     (case observed ob ev of
        None \<Rightarrow> ([], wire)
      | Some o1 \<Rightarrow>
          (case observe n o1 wire of
             (None, wire') \<Rightarrow> ([], wire')
           | (Some trip, wire') \<Rightarrow> (emitCiTripwire em t trip, wire')))"

fun ci_events ::
  "nat \<Rightarrow> CiTripwireObserver \<Rightarrow> EscalationEmitter \<Rightarrow> ms \<Rightarrow> FlowEvent list \<Rightarrow> tripwire \<Rightarrow> SupervisorEvent list \<times> tripwire" where
  "ci_events n ob em t [] wire = ([], wire)"
| "ci_events n ob em t (ev # evs) wire =
     (let (pub, wire1) = ci_event n ob em t ev wire;
          (pubs, wire2) = ci_events n ob em t evs wire1
      in (pub @ pubs, wire2))"

section \<open>Reactions of the swarm\<close>

lemma publish_all_published [simp]: "published (publish_all evs b) = published b @ evs"
  by (induction evs arbitrary: b) (simp_all add: publish_all_def publish_def)

lemma swarm_inv_bus [simp]: "swarm_inv es (w\<lparr>bus := b\<rparr>) = swarm_inv es w"
  by (simp add: swarm_inv_def wired_def)

text \<open>Escalations to roles are published and nothing else happens; an escalation to a running swarm halts it.\<close>

lemma deliver_role:
  assumes "\<not> list_ex swarm_escalation evs"
  shows "deliver evs sw w = (sw, w\<lparr>bus := publish_all evs (bus w)\<rparr>)"
  using assms by (simp add: deliver_def on_events_def)





text \<open>Watchdog alerts and tripwires always go to a role.\<close>

lemma watchdog_to_role:
  "\<not> list_ex swarm_escalation (concat (map (watchdog_emit em t) evs))"
  "\<not> list_ex swarm_escalation (emitCiTripwire em t trip)"
proof -
  show "\<not> list_ex swarm_escalation (concat (map (watchdog_emit em t) evs))"
    by (induction evs)
      (auto simp: watchdog_emit_def swarm_escalation_def translateWatchdogAlert_def Let_def split: WatchdogEvent.splits)
qed (simp add: emitCiTripwire_def swarm_escalation_def translateCiTripwire_def Let_def)

lemma watchdog_emit_alerts:
  "concat (map (watchdog_emit createEscalationEmitter t) evs) =
     map (\<lambda>a. EscalationEvent (translateWatchdogAlert a t)) [a. AlertEvent a \<leftarrow> evs]"
  by (induction evs) (auto simp: watchdog_emit_def createEscalationEmitter_def split: WatchdogEvent.splits)

text \<open>Watchdog events forwarded to a swarm publish exactly one escalation per alert, in order, naming the
  alert's run and role and no swarm, and none for a hint; and they stop nothing: the swarm, its roles and its
  workers are as before, however many alerts there are.\<close>

theorem watchdog_alert_stops_nothing:
  "case deliver (concat (map (watchdog_emit createEscalationEmitter t) evs)) sw w of (sw', w') \<Rightarrow>
     published (bus w') = published (bus w) @ map (\<lambda>a. EscalationEvent (translateWatchdogAlert a t)) [a. AlertEvent a \<leftarrow> evs]
     \<and> sw' = sw \<and> live w' = live w"
  using deliver_role [OF watchdog_to_role(1) [of createEscalationEmitter t evs], of sw w]
  by (simp flip: watchdog_emit_alerts)

section \<open>From flow events to escalations\<close>

lemma observed_role: "observed ob ev = Some o1 \<Longrightarrow> ci_role o1 = ob_role ob"
  by (auto simp: observed_def split: if_splits FlowEvent.splits option.splits sum.splits prod.splits)

text \<open>What the tripwire is told by a sequence of flow events.\<close>

definition told :: "CiTripwireObserver \<Rightarrow> FlowEvent list \<Rightarrow> wire_op list" where
  "told ob evs = map Observe (List.map_filter (observed ob) evs)"

lemma told_append [simp]: "told ob (evs @ [ev]) = told ob evs @ (case observed ob ev of None \<Rightarrow> [] | Some o1 \<Rightarrow> [Observe o1])"
  by (simp add: told_def map_filter_def split: option.splits)

lemma ci_event_wire:
  "snd (ci_event n ob em t ev wire) = fold (wire_step n) (case observed ob ev of None \<Rightarrow> [] | Some o1 \<Rightarrow> [Observe o1]) wire"
  by (auto simp: ci_event_def split: option.splits prod.splits)

lemma ci_events_snoc:
  "ci_events n ob em t (evs @ [ev]) wire =
     (let (pubs, wire1) = ci_events n ob em t evs wire; (pub, wire2) = ci_event n ob em t ev wire1 in (pubs @ pub, wire2))"
  by (induction evs arbitrary: wire) (auto simp: Let_def split: prod.splits)

lemma ci_events_wire: "snd (ci_events n ob em t evs []) = wire_run n (told ob evs)"
proof (induction evs rule: rev_induct)
  case Nil
  show ?case by (simp add: told_def wire_run_def map_filter_def)
next
  case (snoc ev evs)
  then show ?case
    using ci_event_wire [of n ob em t ev "snd (ci_events n ob em t evs [])"]
    by (simp add: ci_events_snoc Let_def wire_run_def case_prod_beta)
qed

text \<open>The red runs the observer has seen since the last green one.\<close>

definition red_streak :: "CiTripwireObserver \<Rightarrow> FlowEvent list \<Rightarrow> string list" where
  "red_streak ob evs = reds (ob_role ob) (told ob evs)"

definition sees_red :: "CiTripwireObserver \<Rightarrow> FlowEvent \<Rightarrow> bool" where
  "sees_red ob ev = (case observed ob ev of None \<Rightarrow> False | Some o1 \<Rightarrow> status o1 = red)"

lemma red_streak_snoc:
  assumes "observed ob ev = Some o1" and "status o1 = red"
  shows "red_streak ob (evs @ [ev]) = red_streak ob evs @ [ci_run o1]"
  using assms by (simp add: red_streak_def reds_def observed_role [OF assms(1)])

text \<open>Flow, CI observer, tripwire and emitter composed. Over every sequence of flow events, an event leads to
  an escalation exactly when it is the completion of the CI node with a red summary and the number of red
  runs since the last green one has reached a multiple of the threshold; the escalation is then the only
  one, has the tripwire cause, is directed at the observed role and names the run that tripped the wire.\<close>

theorem ci_streak_escalates:
  assumes "createCiTripwire threshold = Inr n"
  shows "\<exists>new. fst (ci_events n ob createEscalationEmitter t (evs @ [ev]) []) =
      fst (ci_events n ob createEscalationEmitter t evs []) @ new \<and>
    (if sees_red ob ev \<and> n dvd length (red_streak ob (evs @ [ev]))
     then \<exists>e. new = [EscalationEvent e] \<and> er_cause e = ci_tripwire \<and> er_target e = ''role'' \<and>
       er_roleId e = Some (ob_role ob) \<and> er_childId e = last (red_streak ob (evs @ [ev]))
     else new = [])"
proof -
  let ?wire = "wire_run n (told ob evs)"
  let ?new = "fst (ci_event n ob createEscalationEmitter t ev ?wire)"
  have n: "0 < n" using assms by (auto simp: createCiTripwire_def Let_def split: if_splits)
  have app: "fst (ci_events n ob createEscalationEmitter t (evs @ [ev]) []) =
      fst (ci_events n ob createEscalationEmitter t evs []) @ ?new"
    using ci_events_wire [of n ob createEscalationEmitter t evs] by (auto simp: ci_events_snoc Let_def split: prod.splits)
  show ?thesis
  proof (cases "observed ob ev")
    case None
    then show ?thesis using app by (auto simp: ci_event_def sees_red_def)
  next
    case (Some o1)
    show ?thesis
    proof (cases "status o1 = red")
      case False
      then have "fst (observe n o1 ?wire) = None" by (cases "status o1") (simp_all add: observe_def)
      then have "?new = []" using Some by (auto simp: ci_event_def split: prod.splits)
      with app False Some show ?thesis by (simp add: sees_red_def)
    next
      case True
      note st = red_streak_snoc [OF Some True, of evs]
      have r: "ci_role o1 = ob_role ob" by (rule observed_role [OF Some])
      have streak: "streak_of n (red_streak ob evs) (get_streak (ob_role ob) ?wire)"
        unfolding red_streak_def by (rule wire_run_streak [OF n])
      note sn = streak_of_snoc [OF n streak, of "ci_run o1"]
      have "?new = (if n dvd length (red_streak ob (evs @ [ev])) then
          [EscalationEvent (translateCiTripwire (fire n (ob_role ob)
            \<lparr>count = count (get_streak (ob_role ob) ?wire) + 1,
              streak_runs = streak_runs (get_streak (ob_role ob) ?wire) @ [ci_run o1],
              lastDetail = (case ci_detail o1 of None \<Rightarrow> [] | Some d \<Rightarrow> d)\<rparr> (ci_at o1)) t)] else [])"
        using sn by (simp add: ci_event_def Some observe_red [OF True] Let_def r st emitCiTripwire_def createEscalationEmitter_def)
      with app True Some show ?thesis
        by (auto simp: sees_red_def st fire_def translateCiTripwire_def Let_def)
    qed
  qed
qed

definition ci_done :: "string \<Rightarrow> string \<Rightarrow> FlowEvent" where
  "ci_done rid st = NodeCompletedEv ''flow'' ''ci'' 5 1
     \<lparr>ok = True, out_value = JObj [(''runId'', JStr rid), (''summary'', JObj [(''status'', JStr st)])],
      costUsd = None, costConfidence = NodeCostConfidence.Unknown, costSource = [], out_error = None\<rparr> False"

theorem ci_streak_escalates_witness:
  "\<exists>e. fst (ci_events 2 (createCiTripwireObserver ''ci'' None) createEscalationEmitter 0
       ([ci_done ''r1'' ''red'', ci_done ''r2'' ''green'', ci_done ''r3'' ''red'', ci_done ''r4'' ''unknown''] @ [ci_done ''r5'' ''red'']) [])
     = [EscalationEvent e] \<and> er_childId e = ''r5'' \<and> er_roleId e = Some ''executor''"
proof -
  let ?ob = "createCiTripwireObserver ''ci'' None"
  let ?evs = "[ci_done ''r1'' ''red'', ci_done ''r2'' ''green'', ci_done ''r3'' ''red'', ci_done ''r4'' ''unknown'']"
  have c: "createCiTripwire (Some 2) = Inr 2" by code_simp
  have none: "fst (ci_events 2 ?ob createEscalationEmitter 0 ?evs []) = []" by code_simp
  have red: "sees_red ?ob (ci_done ''r5'' ''red'')" "red_streak ?ob (?evs @ [ci_done ''r5'' ''red'']) = [''r3'', ''r5'']"
    "ob_role ?ob = ''executor''" by code_simp+
  show ?thesis using ci_streak_escalates [OF c, of ?ob 0 ?evs "ci_done ''r5'' ''red''"] unfolding none red(2,3) by (auto simp: red)
qed

end
