(* ===== verification/Framing.thy ===== *)
theory Framing
  imports Json_Text
begin

text \<open>
  Newline-delimited JSON frames between the orchestrator and vendor subprocesses
  (\<^verbatim>\<open>packages/protocol/acp/src/framing.ts\<close>, \<^verbatim>\<open>packages/adapters/pi/src/framing.ts\<close>). A stream is the list of
  text chunks the transport happens to read; the decoder keeps a buffer across chunks. \<^verbatim>\<open>JSON.parse\<close> is a
  parameter: \<open>Inl\<close> the message of the error it throws. The two decoders differ in how they treat a line, so
  what they share is a locale, interpreted for both.
\<close>

section \<open>Encoding\<close>

text \<open>\<^verbatim>\<open>JSON.stringify\<close> without indentation: properties in insertion order, without those whose value it
  cannot represent; such values are \<open>null\<close> in an array; the instances of map and set classes have no
  enumerable properties. \<open>None\<close> is the value \<open>undefined\<close>, \<open>Inl\<close> the error it throws.\<close>

function stringify :: "string \<Rightarrow> js_value \<Rightarrow> string + string option" where
  "stringify isoText JNull = Inr (Some ''null'')"
| "stringify isoText (JBool b) = Inr (Some (if b then ''true'' else ''false''))"
| "stringify isoText (JNum n) = Inr (Some (show_int n))"
| "stringify isoText (JStr s) = Inr (Some (json_quote s))"
| "stringify isoText JUndefined = Inr None"
| "stringify isoText JFunction = Inr None"
| "stringify isoText JSymbol = Inr None"
| "stringify isoText JBigInt = Inl ''TypeError: cannot serialize BigInt''"
| "stringify isoText JDate = Inr (Some (json_quote isoText))"
| "stringify isoText JMapSet = Inr (Some ''{}'')"
| "stringify isoText (JArr vs) =
     map_result (\<lambda>ts. Some (''['' @ join_with '','' (map (case_option ''null'' id) ts) @ '']''))
       (seq_results (map (\<lambda>v. stringify isoText v) vs))"
| "stringify isoText (JObj kvs) =
     map_result (\<lambda>ts. Some (''{'' @ join_with '','' (List.map_filter id ts) @ ''}''))
       (seq_results (map (\<lambda>kv. map_result (map_option (\<lambda>t. json_quote (fst kv) @ '':'' @ t)) (stringify isoText (snd kv))) kvs))"
  by pat_completeness auto
termination
  by (relation "measure (\<lambda>(_, v). size v)") (auto dest: jsval_size_arr jsval_size_obj simp del: jsval.size)

definition encodeFrame :: "string \<Rightarrow> js_value \<Rightarrow> string + string" where
  "encodeFrame isoText frame =
     bind_result (stringify isoText frame) (\<lambda>body.
       case body of
         None \<Rightarrow> Inl ''encodeFrame: JSON.stringify returned undefined (non-serializable value)''
       | Some t \<Rightarrow> Inr (t @ [CHR 0x0A]))"

section \<open>Decoding\<close>

text \<open>\<^verbatim>\<open>indexOf\<close> of one character.\<close>

fun indexOf :: "char \<Rightarrow> string \<Rightarrow> nat option" where
  "indexOf c [] = None"
| "indexOf c (x # xs) = (if x = c then Some 0 else map_option Suc (indexOf c xs))"

lemma indexOf_lt: "indexOf c xs = Some n \<Longrightarrow> n < length xs"
  by (induction xs arbitrary: n) (auto split: if_splits)

text \<open>The inner loop takes complete lines off the buffer; what a line yields is an argument.\<close>

function drain :: "(string \<Rightarrow> 'd list) \<Rightarrow> string \<Rightarrow> 'd list \<times> string" where
  "drain onLine buffer =
     (case indexOf (CHR 0x0A) buffer of
        None \<Rightarrow> ([], buffer)
      | Some nl \<Rightarrow>
          (case drain onLine (drop (nl + 1) buffer) of (out, rest) \<Rightarrow> (onLine (take nl buffer) @ out, rest)))"
  by pat_completeness auto
termination
  by (relation "measure (\<lambda>(_, b). length b)") (auto dest: indexOf_lt)

declare drain.simps [simp del]

text \<open>The outer loop over the chunks, and what the end of the stream yields.\<close>

fun decode_chunks :: "(string \<Rightarrow> 'd list) \<Rightarrow> (string \<Rightarrow> 'd list) \<Rightarrow> string \<Rightarrow> string list \<Rightarrow> 'd list" where
  "decode_chunks onLine onEnd buffer [] = onEnd buffer"
| "decode_chunks onLine onEnd buffer (chunk # chunks) =
     (case drain onLine (buffer @ chunk) of (out, rest) \<Rightarrow> out @ decode_chunks onLine onEnd rest chunks)"

datatype frame_error = PartialFrame string | NotAnObject string | ParseFailed string string

datatype DecodedLine = Frame js_value | FrameError frame_error

definition parseLine :: "(string \<Rightarrow> string + js_value) \<Rightarrow> string \<Rightarrow> DecodedLine" where
  "parseLine parse line =
     (case parse line of
        Inl cause \<Rightarrow> FrameError (ParseFailed cause line)
      | Inr v \<Rightarrow> (case v of JObj _ \<Rightarrow> Frame v | JArr _ \<Rightarrow> Frame v | _ \<Rightarrow> FrameError (NotAnObject line)))"

definition acp_line :: "(string \<Rightarrow> string + js_value) \<Rightarrow> string \<Rightarrow> DecodedLine list" where
  "acp_line parse line = (if length line = 0 then [] else [parseLine parse line])"

definition acp_end :: "string \<Rightarrow> DecodedLine list" where
  "acp_end buffer = (if length buffer > 0 then [FrameError (PartialFrame buffer)] else [])"

definition decodeFrames :: "(string \<Rightarrow> string + js_value) \<Rightarrow> string list \<Rightarrow> DecodedLine list" where
  "decodeFrames parse chunks = decode_chunks (acp_line parse) acp_end [] chunks"

definition stripTrailingCR :: "string \<Rightarrow> string" where
  "stripTrailingCR line = (if length line > 0 \<and> last line = CHR 0x0D then butlast line else line)"

definition pi_parseLine :: "(string \<Rightarrow> string + js_value) \<Rightarrow> string \<Rightarrow> DecodedLine" where
  "pi_parseLine parse line =
     (case parse line of
        Inl cause \<Rightarrow> FrameError (ParseFailed cause line)
      | Inr v \<Rightarrow> (case v of JObj _ \<Rightarrow> Frame v | _ \<Rightarrow> FrameError (NotAnObject line)))"

definition pi_line :: "(string \<Rightarrow> string + js_value) \<Rightarrow> string \<Rightarrow> DecodedLine list" where
  "pi_line parse rawLine =
     (let line = stripTrailingCR rawLine in if length line = 0 then [] else [pi_parseLine parse line])"

definition pi_end :: "string \<Rightarrow> DecodedLine list" where
  "pi_end buffer =
     (if length buffer > 0 then
        (let line = stripTrailingCR buffer in if length line > 0 then [FrameError (PartialFrame buffer)] else [])
      else [])"

definition pi_decodeFrames :: "(string \<Rightarrow> string + js_value) \<Rightarrow> string list \<Rightarrow> DecodedLine list" where
  "pi_decodeFrames parse chunks = decode_chunks (pi_line parse) pi_end [] chunks"

section \<open>Lines\<close>

lemma indexOf_None: "indexOf c xs = None \<longleftrightarrow> c \<notin> set xs"
  by (induction xs) auto

lemma indexOf_Some: "indexOf c xs = Some n \<Longrightarrow> c \<notin> set (take n xs) \<and> xs = take n xs @ c # drop (Suc n) xs"
  by (induction xs arbitrary: n) (auto split: if_splits)

lemma drain_split:
  "drain onLine b = (concat (map onLine (butlast (split_on (CHR 0x0A) b))), last (split_on (CHR 0x0A) b))"
proof (induction onLine b rule: drain.induct)
  case (1 onLine b)
  show ?case
  proof (cases "indexOf (CHR 0x0A) b")
    case None
    then have "split_on (CHR 0x0A) b = [b]" by (simp add: split_on_no_sep indexOf_None)
    with None show ?thesis by (simp add: drain.simps [of onLine b])
  next
    case (Some n)
    from indexOf_Some [OF Some] have "split_on (CHR 0x0A) b = take n b # split_on (CHR 0x0A) (drop (Suc n) b)"
      by (metis split_on_append)
    then show ?thesis using "1.IH" [OF Some] Some by (simp add: drain.simps [of onLine b])
  qed
qed

text \<open>Splitting a concatenation: the last piece of the first part runs into the first piece of the second.\<close>

lemma split_on_concat:
  "split_on c (xs @ ys) = butlast (split_on c xs) @ split_on c (last (split_on c xs) @ ys)"
proof (induction xs)
  case (Cons x xs)
  obtain p ps where s: "split_on c xs = p # ps" by (cases "split_on c xs") auto
  show ?case
  proof (cases "ps = []")
    case True
    then have "c \<notin> set p" using split_on_clean [of p c xs] s by simp
    moreover from this have "xs = p" using join_split [of c xs] s True by simp
    ultimately show ?thesis using True s Cons by (auto split: list.splits)
  next
    case False
    with s Cons show ?thesis by (auto split: list.splits)
  qed
qed simp

text \<open>
  The contract of a line decoder: it treats every complete line by itself and the rest of the stream at
  the end. Then only the text counts, not where the transport cut it.
\<close>

locale line_decoder =
  fixes onLine :: "string \<Rightarrow> 'd list"
    and onEnd :: "string \<Rightarrow> 'd list"
    and decode :: "string list \<Rightarrow> 'd list"
  assumes decode_def: "decode chunks = decode_chunks onLine onEnd [] chunks"
    and blank_line: "onLine [] = []"
    and blank_end: "onEnd [] = []"
begin

lemma decode_from:
  "decode_chunks onLine onEnd buffer chunks =
     (let ls = split_on (CHR 0x0A) (buffer @ concat chunks) in concat (map onLine (butlast ls)) @ onEnd (last ls))"
  if "CHR 0x0A \<notin> set buffer"
  using that
proof (induction chunks arbitrary: buffer)
  case Nil
  then show ?case by (simp add: split_on_no_sep)
next
  case (Cons chunk chunks)
  let ?ls = "split_on (CHR 0x0A) (buffer @ chunk)"
  have "CHR 0x0A \<notin> set (last ?ls)" by (intro split_on_clean [of _ _ "buffer @ chunk"]) simp
  from Cons.IH [OF this] show ?case
    using split_on_concat [of "CHR 0x0A" "buffer @ chunk" "concat chunks"]
    by (simp add: drain_split Let_def butlast_append)
qed

lemma decode_text:
  "decode chunks = (let ls = split_on (CHR 0x0A) (concat chunks) in concat (map onLine (butlast ls)) @ onEnd (last ls))"
  using decode_from [of "[]"] by (simp add: decode_def)

lemma chunking_irrelevant: "concat chunks = concat chunks' \<Longrightarrow> decode chunks = decode chunks'"
  by (simp add: decode_text)

lemma decode_lines:
  assumes "concat chunks = concat (map (\<lambda>t. t @ [CHR 0x0A]) ts)" and "\<forall>t \<in> set ts. CHR 0x0A \<notin> set t"
  shows "decode chunks = concat (map onLine ts)"
proof -
  have "split_on (CHR 0x0A) (concat (map (\<lambda>t. t @ [CHR 0x0A]) ts)) = ts @ [[]]"
    using assms(2) by (induction ts) (simp_all add: split_on_append)
  then show ?thesis by (simp add: decode_text assms(1) Let_def blank_end)
qed

end

interpretation acp_frames: line_decoder "acp_line parse" acp_end "decodeFrames parse"
  by unfold_locales (simp_all add: decodeFrames_def acp_line_def acp_end_def)

interpretation pi_frames: line_decoder "pi_line parse" pi_end "pi_decodeFrames parse"
  by unfold_locales (simp_all add: pi_decodeFrames_def pi_line_def pi_end_def stripTrailingCR_def)

section \<open>Frames\<close>

text \<open>A serialized value is one line.\<close>

lemma join_with_set: "c \<in> set (join_with sep ts) \<Longrightarrow> c \<in> set sep \<or> (\<exists>t \<in> set ts. c \<in> set t)"
  by (induction sep ts rule: join_with.induct) auto

lemma stringify_no_newline: "stringify isoText v = Inr (Some t) \<Longrightarrow> CHR 0x0A \<notin> set t"
proof (induction isoText v arbitrary: t rule: stringify.induct)
  case (11 isoText vs)
  from 11(2) obtain ts where ts: "map (\<lambda>v. stringify isoText v) vs = map Inr ts"
    and t: "t = ''['' @ join_with '','' (map (case_option ''null'' id) ts) @ '']''"
    by (auto simp: map_result_Inr seq_results_Inr)
  have "CHR 0x0A \<notin> set (case_option ''null'' id u)" if "u \<in> set ts" for u
  proof (cases u)
    case (Some x)
    with that have "Inr (Some x) \<in> set (map (\<lambda>v. stringify isoText v) vs)" by (simp add: ts)
    then show ?thesis using 11(1) Some by auto
  qed simp
  then show ?case by (auto simp: t dest!: join_with_set)
next
  case (12 isoText kvs)
  let ?f = "\<lambda>kv. map_result (map_option (\<lambda>t. json_quote (fst kv) @ '':'' @ t)) (stringify isoText (snd kv))"
  from 12(2) obtain ts where ts: "map ?f kvs = map Inr ts"
    and t: "t = ''{'' @ join_with '','' (List.map_filter id ts) @ ''}''"
    by (auto simp: map_result_Inr seq_results_Inr)
  have "CHR 0x0A \<notin> set x" if "Some x \<in> set ts" for x
  proof -
    from that have "Inr (Some x) \<in> set (map ?f kvs)" unfolding ts by simp
    then obtain kv where kv: "kv \<in> set kvs" "?f kv = Inr (Some x)" by auto
    then obtain u where "stringify isoText (snd kv) = Inr (Some u)" "x = json_quote (fst kv) @ '':'' @ u"
      by (auto simp: map_result_Inr dest: sym)
    then show ?thesis using 12(1) [OF kv(1)] json_quote_no_newline by auto
  qed
  then show ?case by (auto simp: t map_filter_def dest!: join_with_set)
qed (auto simp: json_quote_no_newline show_int_no_newline split: if_splits)

lemma stringify_object:
  "stringify isoText (JObj kvs) = Inr (Some t) \<Longrightarrow> t \<noteq> [] \<and> stripTrailingCR t = t"
  by (auto simp: map_result_Inr stripTrailingCR_def)

lemma encodeFrame_line:
  assumes "encodeFrame isoText (JObj kvs) = Inr f"
  obtains t where "stringify isoText (JObj kvs) = Inr (Some t)" and "f = t @ [CHR 0x0A]"
  using assms by (auto simp: encodeFrame_def bind_result_Inr split: option.splits)

text \<open>The decoders depend on the text alone. Wherever the transport cuts the stream into chunks, a decoder
  yields what the non-blank lines of the whole text yield, in order, and then one error if the text does not
  end in a line feed; the decoder of the Pi adapter treats a carriage return before the line feed as part of the line
  end.\<close>

theorem decode_by_lines:
  "let ls = split_on (CHR 0x0A) (concat chunks)
   in decodeFrames parse chunks = concat (map (acp_line parse) (butlast ls)) @ acp_end (last ls) \<and>
      pi_decodeFrames parse chunks = concat (map (pi_line parse) (butlast ls)) @ pi_end (last ls)"
  using acp_frames.decode_text [of parse chunks] pi_frames.decode_text [of parse chunks] by (simp add: Let_def)

text \<open>C29: frames survive the transport. Objects that were encoded one after the other and cut into chunks anywhere are
  decoded by both decoders to the same objects in the same order and without an error, if \<^verbatim>\<open>JSON.parse\<close> reads
  back what \<^verbatim>\<open>JSON.stringify\<close> wrote for them.\<close>

theorem frames_roundtrip:
  assumes "map (encodeFrame isoText) (map JObj objs) = map Inr texts" and "concat chunks = concat texts"
    and "\<forall>kvs \<in> set objs. \<forall>t. stringify isoText (JObj kvs) = Inr (Some t) \<longrightarrow> parse t = Inr (JObj kvs)"
  shows "decodeFrames parse chunks = map Frame (map JObj objs) \<and> pi_decodeFrames parse chunks = map Frame (map JObj objs)"
proof -
  have "\<exists>ts. texts = map (\<lambda>t. t @ [CHR 0x0A]) ts \<and> (\<forall>t \<in> set ts. CHR 0x0A \<notin> set t) \<and>
      concat (map (acp_line parse) ts) = map Frame (map JObj objs) \<and>
      concat (map (pi_line parse) ts) = map Frame (map JObj objs)"
    using assms(1,3)
  proof (induction objs arbitrary: texts)
    case (Cons kvs objs)
    then obtain f fs where texts: "texts = f # fs" and f: "encodeFrame isoText (JObj kvs) = Inr f"
      and fs: "map (encodeFrame isoText) (map JObj objs) = map Inr fs" by (cases texts) auto
    from f obtain t where t: "stringify isoText (JObj kvs) = Inr (Some t)" "f = t @ [CHR 0x0A]" by (rule encodeFrame_line)
    then have p: "parse t = Inr (JObj kvs)" using Cons.prems(2) by simp
    note line = stringify_no_newline [OF t(1)] stringify_object [OF t(1)]
    from Cons.IH [OF fs] Cons.prems(2) obtain ts where ts: "fs = map (\<lambda>t. t @ [CHR 0x0A]) ts"
      "\<forall>t \<in> set ts. CHR 0x0A \<notin> set t" "concat (map (acp_line parse) ts) = map Frame (map JObj objs)"
      "concat (map (pi_line parse) ts) = map Frame (map JObj objs)" by auto
    have "acp_line parse t = [Frame (JObj kvs)]" "pi_line parse t = [Frame (JObj kvs)]"
      using line p by (simp_all add: acp_line_def pi_line_def parseLine_def pi_parseLine_def)
    then show ?case by (intro exI [of _ "t # ts"]) (use line(1) t(2) ts texts in simp)
  qed simp
  then show ?thesis
    using acp_frames.decode_lines [of chunks _ parse] pi_frames.decode_lines [of chunks _ parse] assms(2) by force
qed

definition parse_sample :: "string \<Rightarrow> string + js_value" where
  "parse_sample t = (if t = [CHR 0x7B, CHR 0x22, CHR ''a'', CHR 0x22, CHR '':'', CHR ''1'', CHR 0x7D]
     then Inr (JObj [(''a'', JNum 1)]) else Inl ''bad'')"

theorem frames_roundtrip_witness:
  "decodeFrames parse_sample [''{\"a'', ''\":1}'' @ [CHR 0x0A, CHR ''{''], ''\"a\":1}'' @ [CHR 0x0A]] =
     [Frame (JObj [(''a'', JNum 1)]), Frame (JObj [(''a'', JNum 1)])]"
proof -
  let ?objs = "[[(''a'', JNum 1)], [(''a'', JNum 1)]] :: js_record list"
  let ?texts = "[''{\"a\":1}'' @ [CHR 0x0A], ''{\"a\":1}'' @ [CHR 0x0A]]"
  have e: "map (encodeFrame []) (map JObj ?objs) = map Inr ?texts" by code_simp
  have "parse_sample ''{\"a\":1}'' = Inr (JObj [(''a'', JNum 1)])" by code_simp
  moreover have "stringify [] (JObj [(''a'', JNum 1)]) = Inr (Some ''{\"a\":1}'')" by code_simp
  ultimately have p: "\<forall>kvs \<in> set ?objs. \<forall>t. stringify [] (JObj kvs) = Inr (Some t) \<longrightarrow> parse_sample t = Inr (JObj kvs)" by simp
  show ?thesis using frames_roundtrip [OF e _ p] by simp
qed

end
