(* ===== verification/Rpc_Desk.thy ===== *)
theory Rpc_Desk
  imports Json_Text "HOL-Library.AList"
begin

text \<open>
  What the two request clients have in common (\<^verbatim>\<open>packages/protocol/acp/src/client.ts\<close> and
  \<^verbatim>\<open>packages/adapters/pi/src/rpc-client.ts\<close>): the map of pending requests with their timers and the promises
  that were handed out. A promise is named by the id of its request; \<open>issued\<close> lists the promises handed out,
  \<open>settled\<close> the calls of their resolve and reject functions in order. A locale states what a client's steps
  may do to this desk; the guarantees about promises are proved in it once.
\<close>

section \<open>Data\<close>

datatype rpc_error =
    ClientClosed
  | ClosedWhile string
  | TimedOut string int
  | SendFailed string string
  | RpcError string js_value js_value js_value
  | CommandError string string
  | StreamErrored string
  | BadCall string

datatype rpc_outcome = Resolved js_value | Rejected rpc_error

record 'i desk =
  issued :: "'i list"
  pending :: "('i \<times> string) list"
  timers :: "('i \<times> string \<times> int) list"
  settled :: "('i \<times> rpc_outcome) list"

definition empty_desk :: "'i desk" where
  "empty_desk = \<lparr>issued = [], pending = [], timers = [], settled = []\<rparr>"

text \<open>A property of a JavaScript object, \<^verbatim>\<open>undefined\<close> when it has none of that name.\<close>

definition field :: "string \<Rightarrow> js_record \<Rightarrow> js_value" where
  "field k kvs = (case map_of kvs k of None \<Rightarrow> JUndefined | Some v \<Rightarrow> v)"

definition prop_of :: "string \<Rightarrow> js_value \<Rightarrow> js_value" where
  "prop_of k v = (case v of JObj kvs \<Rightarrow> field k kvs | _ \<Rightarrow> JUndefined)"

definition nullish :: "js_value \<Rightarrow> bool" where
  "nullish v \<longleftrightarrow> v = JNull \<or> v = JUndefined"

definition is_object :: "js_value \<Rightarrow> bool" where
  "is_object v = (case v of JObj _ \<Rightarrow> True | JArr _ \<Rightarrow> True | _ \<Rightarrow> False)"

section \<open>Operations on the desk\<close>

definition open_request :: "'i \<Rightarrow> string \<Rightarrow> int \<Rightarrow> 'i desk \<Rightarrow> 'i desk" where
  "open_request i m tmo d =
     d\<lparr>issued := issued d @ [i], timers := timers d @ [(i, m, tmo)], pending := AList.update i m (pending d)\<rparr>"

text \<open>Clear the timer and delete the entry.\<close>

definition take_pending :: "'i \<Rightarrow> 'i desk \<Rightarrow> 'i desk" where
  "take_pending i d = d\<lparr>timers := AList.delete i (timers d), pending := AList.delete i (pending d)\<rparr>"

definition settle :: "'i \<Rightarrow> rpc_outcome \<Rightarrow> 'i desk \<Rightarrow> 'i desk" where
  "settle i out d = d\<lparr>settled := settled d @ [(i, out)]\<rparr>"

text \<open>A timer that is still armed runs its callback once.\<close>

definition timer_fires :: "'i \<Rightarrow> 'i desk \<Rightarrow> 'i desk" where
  "timer_fires i d =
     (case map_of (timers d) i of
        None \<Rightarrow> d
      | Some (m, tmo) \<Rightarrow> settle i (Rejected (TimedOut m tmo)) (take_pending i d))"

definition send_rejected :: "'i \<Rightarrow> (string \<Rightarrow> rpc_error) \<Rightarrow> 'i desk \<Rightarrow> 'i desk" where
  "send_rejected i err d =
     (case map_of (pending d) i of
        None \<Rightarrow> d
      | Some m \<Rightarrow> settle i (Rejected (err m)) (take_pending i d))"

definition fail_all :: "(string \<Rightarrow> rpc_error) \<Rightarrow> 'i desk \<Rightarrow> 'i desk" where
  "fail_all err d = fold (\<lambda>(i, m) d'. settle i (Rejected (err m)) (take_pending i d')) (pending d) d"

section \<open>Moves of the desk\<close>

text \<open>What a step may do: hand out a fresh promise, settle a pending one, with a result only if the step
  carries that result for it, or drop one of the pending requests in \<open>L\<close> without settling it.\<close>

abbreviation pending_ids :: "'i desk \<Rightarrow> 'i set" where
  "pending_ids d \<equiv> fst ` set (pending d)"

abbreviation settled_ids :: "'i desk \<Rightarrow> 'i set" where
  "settled_ids d \<equiv> fst ` set (settled d)"

definition allowed_outcome :: "('i \<times> js_value) set \<Rightarrow> 'i \<Rightarrow> rpc_outcome \<Rightarrow> bool" where
  "allowed_outcome R i out = (case out of Resolved v \<Rightarrow> (i, v) \<in> R | Rejected _ \<Rightarrow> True)"

inductive desk_move :: "'i set \<Rightarrow> ('i \<times> js_value) set \<Rightarrow> 'i desk \<Rightarrow> 'i desk \<Rightarrow> bool" for L R where
  stay: "desk_move L R d d"
| opens: "desk_move L R d d' \<Longrightarrow> i \<notin> set (issued d') \<Longrightarrow> desk_move L R d (open_request i m tmo d')"
| settles: "desk_move L R d d' \<Longrightarrow> i \<in> pending_ids d' \<Longrightarrow> allowed_outcome R i out \<Longrightarrow>
    desk_move L R d (settle i out (take_pending i d'))"
| loses: "desk_move L R d d' \<Longrightarrow> i \<in> pending_ids d' \<Longrightarrow> i \<in> L \<Longrightarrow> desk_move L R d (take_pending i d')"

definition desk_inv :: "'i set \<Rightarrow> ('i \<times> js_value) set \<Rightarrow> 'i desk \<Rightarrow> bool" where
  "desk_inv L R d \<longleftrightarrow> distinct (issued d) \<and> distinct (map fst (pending d)) \<and> map fst (timers d) = map fst (pending d) \<and>
     distinct (map fst (settled d)) \<and> pending_ids d \<inter> settled_ids d = {} \<and>
     pending_ids d \<union> settled_ids d \<subseteq> set (issued d) \<and> set (issued d) \<subseteq> pending_ids d \<union> settled_ids d \<union> L \<and>
     (\<forall>(i, out) \<in> set (settled d). allowed_outcome R i out)"

lemma desk_fields [simp]:
  "issued (open_request i m tmo d) = issued d @ [i]" "settled (open_request i m tmo d) = settled d"
  "issued (take_pending i d) = issued d" "settled (take_pending i d) = settled d"
  "issued (settle i out d) = issued d" "pending (settle i out d) = pending d" "timers (settle i out d) = timers d"
  "settled (settle i out d) = settled d @ [(i, out)]"
  "pending_ids (open_request i m tmo d) = insert i (pending_ids d)"
  "pending_ids (take_pending i d) = pending_ids d - {i}"
  by (simp_all add: open_request_def take_pending_def settle_def dom_update delete_keys)
    (auto simp: AList.delete_eq)

lemma map_fst_delete: "map fst (AList.delete i al) = filter (\<lambda>j. j \<noteq> i) (map fst al)"
  by (induction al) auto

lemma take_pending_keys [simp]:
  "map fst (pending (take_pending i d)) = filter (\<lambda>j. j \<noteq> i) (map fst (pending d))"
  "map fst (timers (take_pending i d)) = filter (\<lambda>j. j \<noteq> i) (map fst (timers d))"
  by (simp_all add: take_pending_def map_fst_delete)

lemma update_fresh: "i \<notin> fst ` set al \<Longrightarrow> AList.update i m al = al @ [(i, m)]"
  by (induction al) auto

lemma allowed_mono: "R \<subseteq> R' \<Longrightarrow> allowed_outcome R i out \<Longrightarrow> allowed_outcome R' i out"
  by (auto simp: allowed_outcome_def split: rpc_outcome.splits)

lemma desk_inv_mono: "desk_inv L R d \<Longrightarrow> L \<subseteq> L' \<Longrightarrow> R \<subseteq> R' \<Longrightarrow> desk_inv L' R' d"
  unfolding desk_inv_def by (elim conjE, intro conjI) (auto dest: allowed_mono)

lemma desk_move_inv: "desk_move L R d d' \<Longrightarrow> desk_inv L R d \<Longrightarrow> desk_inv L R d'"
proof (induction rule: desk_move.induct)
  case (opens d d' i m tmo)
  then have i: "i \<notin> pending_ids d'" "i \<notin> settled_ids d'" by (auto simp: desk_inv_def)
  then have "pending (open_request i m tmo d') = pending d' @ [(i, m)]"
    by (simp add: open_request_def update_fresh)
  then show ?case using opens i by (auto simp: desk_inv_def open_request_def)
next
  case (settles d d' i out)
  then show ?case by (auto simp: desk_inv_def)
next
  case (loses d d' i)
  then show ?case by (auto simp: desk_inv_def)
qed

lemma desk_move_mono: "desk_move L R d d' \<Longrightarrow> desk_move (L0 \<union> L) (R0 \<union> R) d d'"
  by (induction rule: desk_move.induct) (auto intro!: desk_move.intros intro: allowed_mono [rotated])

lemma desk_move_trans: "desk_move L R d' d'' \<Longrightarrow> desk_move L R d d' \<Longrightarrow> desk_move L R d d''"
  by (induction rule: desk_move.induct) (auto intro: desk_move.intros)

lemma timer_fires_move: "desk_inv L' R' d \<Longrightarrow> desk_move L R d (timer_fires i d)"
proof (cases "map_of (timers d) i")
  case (Some mt)
  assume "desk_inv L' R' d"
  then have "fst ` set (timers d) = pending_ids d" by (simp add: desk_inv_def flip: set_map)
  then have "i \<in> pending_ids d" using Some by (metis domI dom_map_of_conv_image_fst)
  then show ?thesis using Some
    by (auto simp: timer_fires_def allowed_outcome_def intro: desk_move.intros split: prod.splits)
qed (auto simp: timer_fires_def intro: desk_move.stay)

lemma send_rejected_move: "desk_move L R d (send_rejected i err d)"
proof (cases "map_of (pending d) i")
  case (Some m)
  then have "i \<in> pending_ids d" by (metis domI dom_map_of_conv_image_fst)
  then show ?thesis using Some by (auto simp: send_rejected_def allowed_outcome_def intro: desk_move.intros)
qed (auto simp: send_rejected_def intro: desk_move.stay)

lemma fail_list_move:
  assumes "distinct (map fst ps)" and "fst ` set ps \<subseteq> pending_ids d"
  shows "desk_move L R d (fold (\<lambda>(i, m) d'. settle i (Rejected (err m)) (take_pending i d')) ps d) \<and>
    pending_ids (fold (\<lambda>(i, m) d'. settle i (Rejected (err m)) (take_pending i d')) ps d) = pending_ids d - fst ` set ps"
  using assms
proof (induction ps arbitrary: d)
  case (Cons p ps)
  obtain i m where p: "p = (i, m)" by force
  let ?d = "settle i (Rejected (err m)) (take_pending i d)"
  have sub: "fst ` set ps \<subseteq> pending_ids ?d" using Cons.prems p by (auto simp: image_iff)
  have d: "distinct (map fst ps)" using Cons.prems(1) by simp
  have one: "desk_move L R d ?d"
    using Cons.prems(2) p by (auto simp: allowed_outcome_def intro!: desk_move.settles desk_move.stay)
  show ?case using Cons.IH [OF d sub] desk_move_trans [OF _ one] p by auto
qed (auto intro: desk_move.stay)

lemma fail_all_move:
  assumes "desk_inv L' R' d"
  shows "desk_move L R d (fail_all err d)" and "pending (fail_all err d) = []"
proof -
  have d: "distinct (map fst (pending d))" using assms by (simp add: desk_inv_def)
  show "desk_move L R d (fail_all err d)" unfolding fail_all_def using fail_list_move [OF d, of d L R err] by simp
  have "pending_ids (fail_all err d) = {}" unfolding fail_all_def using fail_list_move [OF d, of d L R err] by simp
  then show "pending (fail_all err d) = []" by simp
qed

lemma no_pending_take: "pending d = [] \<Longrightarrow> pending (take_pending i d) = []"
  by (simp add: take_pending_def)

lemma desk_ops_issued [simp]:
  "issued (timer_fires i d) = issued d" "issued (send_rejected i err d) = issued d" "issued (fail_all err d) = issued d"
proof -
  have "issued (fold (\<lambda>(i, m) d'. settle i (Rejected (err m)) (take_pending i d')) ps d) = issued d" for ps
    by (induction ps arbitrary: d) auto
  then show "issued (fail_all err d) = issued d" by (simp add: fail_all_def)
qed (simp_all add: timer_fires_def send_rejected_def split: option.splits prod.splits)

lemma desk_ops_empty [simp]:
  "pending d = [] \<Longrightarrow> pending (timer_fires i d) = []" "pending d = [] \<Longrightarrow> send_rejected i err d = d"
  by (simp_all add: timer_fires_def send_rejected_def no_pending_take split: option.splits prod.splits)

text \<open>What a client must provide, and what its promises then guarantee.\<close>

locale rpc_client =
  fixes step :: "'op \<Rightarrow> 's \<Rightarrow> 's"
    and desk_of :: "'s \<Rightarrow> 'i desk"
    and lost :: "'op \<Rightarrow> 'i set"
    and answers :: "'op \<Rightarrow> ('i \<times> js_value) set"
    and ready :: "'s \<Rightarrow> bool"
  assumes moves: "ready s \<Longrightarrow> desk_inv L R (desk_of s) \<Longrightarrow> desk_move (lost op) (answers op) (desk_of s) (desk_of (step op s))"
    and step_ready: "ready s \<Longrightarrow> desk_inv L R (desk_of s) \<Longrightarrow> ready (step op s)"
begin

lemma run_inv:
  assumes "ready s" and "desk_inv L R (desk_of s)"
  shows "ready (fold step ops s) \<and>
    desk_inv (L \<union> (\<Union>op \<in> set ops. lost op)) (R \<union> (\<Union>op \<in> set ops. answers op)) (desk_of (fold step ops s))"
  using assms
proof (induction ops arbitrary: s L R)
  case (Cons op ops)
  let ?L = "L \<union> lost op" and ?R = "R \<union> answers op"
  have "desk_move (lost op) (answers op) (desk_of s) (desk_of (step op s))" by (rule moves [OF Cons.prems])
  then have "desk_move ?L ?R (desk_of s) (desk_of (step op s))"
    by (rule desk_move_mono)
  then have "desk_inv ?L ?R (desk_of (step op s))"
    by (rule desk_move_inv) (rule desk_inv_mono [OF Cons.prems(2)], auto)
  from Cons.IH [OF step_ready [OF Cons.prems] this] show ?case by (simp add: Un_assoc)
qed simp

lemma run_from_empty:
  assumes "ready s" and "desk_of s = empty_desk"
  shows "desk_inv (\<Union>op \<in> set ops. lost op) (\<Union>op \<in> set ops. answers op) (desk_of (fold step ops s))"
    and "ready (fold step ops s)"
  using run_inv [OF assms(1), of "{}" "{}" ops] assms(2) by (simp_all add: desk_inv_def empty_desk_def)

text \<open>A promise that is neither pending nor settled never settles.\<close>

lemma lost_forever:
  assumes "ready s" and "desk_inv L R (desk_of s)"
    and "i \<in> set (issued (desk_of s))" and "i \<notin> pending_ids (desk_of s)" and "i \<notin> settled_ids (desk_of s)"
  shows "i \<in> set (issued (desk_of (fold step ops s))) \<and> i \<notin> settled_ids (desk_of (fold step ops s))"
proof -
  let ?hung = "\<lambda>d. i \<in> set (issued d) \<and> i \<notin> pending_ids d \<and> i \<notin> settled_ids d"
  have keep: "?hung d'" if "desk_move L' R' d d'" and "?hung d" for L' R' d d'
    using that by (induction rule: desk_move.induct) auto
  have "?hung (desk_of (fold step ops s))" using assms
  proof (induction ops arbitrary: s L R)
    case (Cons op ops)
    have "?hung (desk_of (step op s))" using keep [OF moves [OF Cons.prems(1,2)]] Cons.prems(3-5) by blast
    moreover have "ready (step op s)" by (rule step_ready [OF Cons.prems(1,2)])
    moreover have "desk_inv (L \<union> lost op) (R \<union> answers op) (desk_of (step op s))"
      using run_inv [OF Cons.prems(1,2), of "[op]"] by simp
    ultimately show ?case using Cons.IH by simp
  qed simp
  then show ?thesis by simp
qed

end

end
