(* ===== verification/Acp_Client.thy ===== *)
theory Acp_Client
  imports Rpc_Desk "HOL-Library.Multiset"
begin

text \<open>
  The JSON-RPC client of the Agent Client Protocol (\<^verbatim>\<open>packages/protocol/acp/src/client.ts\<close>). A step is one entry
  of the event loop: a call of a method, an incoming message, a timer, the rejection of a send, the end of a
  handler. Handlers are numbers; which of them throw on an update, and how values are converted to text in
  messages, is an environment. \<open>sent\<close> lists the frames handed to the transport, \<open>errors_seen\<close> and
  \<open>updates_seen\<close> the calls of handlers, \<open>inflight\<close> the server requests whose handler has not finished.
\<close>

section \<open>State\<close>

datatype protocol_error =
    FrameNotObject js_value
  | MarkerMissing js_value
  | NoShape js_value
  | ResponseWithoutId js_value
  | UnknownId js_value js_value
  | UpdateWithoutParams js_value
  | UpdateHandlerThrew string js_value
  | NotificationSendFailed string string
  | ResponseSendFailed string js_value
  | IncomingErrored string

datatype server_job = PermissionJob nat js_value js_value | CustomJob string nat js_value js_value

record AcpClient =
  desk :: "int desk"
  defaultTimeoutMs :: int
  nextId :: int
  sessionUpdateHandlers :: "nat list"
  protocolErrorHandlers :: "nat list"
  permissionHandler :: "nat option"
  serverRequestHandlers :: "(string \<times> nat) list"
  acp_closed :: bool
  consuming :: bool
  sent :: "js_value list"
  errors_seen :: "(nat \<times> protocol_error) list"
  updates_seen :: "(nat \<times> js_value) list"
  inflight :: "server_job list"

record acp_env =
  update_throws :: "nat \<Rightarrow> js_value \<Rightarrow> string option"
  text_of :: "js_value \<Rightarrow> string"

definition createAcpClient :: "int option \<Rightarrow> int option \<Rightarrow> AcpClient" where
  "createAcpClient requestTimeoutMs initialId =
     \<lparr>desk = empty_desk, defaultTimeoutMs = (case requestTimeoutMs of None \<Rightarrow> 60000 | Some t \<Rightarrow> t),
      nextId = (case initialId of None \<Rightarrow> 1 | Some i \<Rightarrow> i), sessionUpdateHandlers = [], protocolErrorHandlers = [],
      permissionHandler = None, serverRequestHandlers = [], acp_closed = False, consuming = True, sent = [],
      errors_seen = [], updates_seen = [], inflight = []\<rparr>"

section \<open>Outgoing\<close>

definition on_desk :: "(int desk \<Rightarrow> int desk) \<Rightarrow> AcpClient \<Rightarrow> AcpClient" where
  "on_desk f s = s\<lparr>desk := f (desk s)\<rparr>"

definition send_frame :: "js_record \<Rightarrow> AcpClient \<Rightarrow> AcpClient" where
  "send_frame kvs s = s\<lparr>sent := sent s @ [JObj kvs]\<rparr>"

definition fireProtocolError :: "protocol_error \<Rightarrow> AcpClient \<Rightarrow> AcpClient" where
  "fireProtocolError err s = s\<lparr>errors_seen := errors_seen s @ map (\<lambda>h. (h, err)) (protocolErrorHandlers s)\<rparr>"

definition optional_params :: "js_value option \<Rightarrow> js_record" where
  "optional_params params = (case params of None \<Rightarrow> [] | Some v \<Rightarrow> [(''params'', v)])"

text \<open>\<open>Inl\<close> is a promise that is rejected at once, \<open>Inr\<close> the id of the promise.\<close>

definition sendRequest ::
  "string \<Rightarrow> js_value option \<Rightarrow> int option \<Rightarrow> AcpClient \<Rightarrow> (rpc_error + int) \<times> AcpClient" where
  "sendRequest method params timeoutMs s =
     (if acp_closed s then (Inl ClientClosed, s)
      else
        let i = nextId s;
            tmo = (case timeoutMs of None \<Rightarrow> defaultTimeoutMs s | Some t \<Rightarrow> t);
            s1 = on_desk (open_request i method tmo) (s\<lparr>nextId := i + 1\<rparr>)
        in (Inr i, send_frame ([(''jsonrpc'', JStr ''2.0''), (''id'', JNum i), (''method'', JStr method)] @ optional_params params) s1))"

definition request_send_rejected :: "int \<Rightarrow> string \<Rightarrow> AcpClient \<Rightarrow> AcpClient" where
  "request_send_rejected i cause = on_desk (send_rejected i (\<lambda>m. SendFailed m cause))"

definition sendNotification :: "string \<Rightarrow> js_value option \<Rightarrow> AcpClient \<Rightarrow> AcpClient" where
  "sendNotification method params s =
     (if acp_closed s then s
      else send_frame ([(''jsonrpc'', JStr ''2.0''), (''method'', JStr method)] @ optional_params params) s)"

text \<open>Object spread: later properties replace earlier ones in place.\<close>

definition spread :: "js_record \<Rightarrow> js_record \<Rightarrow> js_record" where
  "spread base extra = fold (\<lambda>(k, v) r. AList.update k v r) extra base"

definition initialize :: "js_record \<Rightarrow> AcpClient \<Rightarrow> (rpc_error + int) \<times> AcpClient" where
  "initialize params = sendRequest ''initialize'' (Some (JObj params)) None"

definition authenticate :: "string \<Rightarrow> js_record option \<Rightarrow> AcpClient \<Rightarrow> (rpc_error + int) \<times> AcpClient" where
  "authenticate method params s =
     (if method = [] then (Inl (BadCall ''authenticate: method must be a non-empty string''), s)
      else sendRequest ''authenticate''
        (Some (JObj (spread [(''methodId'', JStr method)] (case params of None \<Rightarrow> [] | Some r \<Rightarrow> r)))) None s)"

definition with_mcpServers :: "js_record \<Rightarrow> js_record" where
  "with_mcpServers params =
     spread params [(''mcpServers'', if nullish (field ''mcpServers'' params) then JArr [] else field ''mcpServers'' params)]"

definition newSession :: "js_record \<Rightarrow> AcpClient \<Rightarrow> (rpc_error + int) \<times> AcpClient" where
  "newSession params = sendRequest ''session/new'' (Some (JObj (with_mcpServers params))) None"

definition loadSession :: "js_record \<Rightarrow> AcpClient \<Rightarrow> (rpc_error + int) \<times> AcpClient" where
  "loadSession params = sendRequest ''session/load'' (Some (JObj (with_mcpServers params))) None"

definition prompt :: "js_record \<Rightarrow> int option \<Rightarrow> AcpClient \<Rightarrow> (rpc_error + int) \<times> AcpClient" where
  "prompt params timeoutMs s =
     sendRequest ''session/prompt'' (Some (JObj params))
       (Some (case timeoutMs of None \<Rightarrow> defaultTimeoutMs s | Some t \<Rightarrow> t)) s"

definition cancelSession :: "string \<Rightarrow> AcpClient \<Rightarrow> AcpClient" where
  "cancelSession sid = sendNotification ''session/cancel'' (Some (JObj [(''sessionId'', JStr sid)]))"

section \<open>Subscriptions\<close>

definition set_add :: "nat \<Rightarrow> nat list \<Rightarrow> nat list" where
  "set_add h hs = (if h \<in> set hs then hs else hs @ [h])"

definition onSessionUpdate :: "nat \<Rightarrow> AcpClient \<Rightarrow> AcpClient" where
  "onSessionUpdate h s = s\<lparr>sessionUpdateHandlers := set_add h (sessionUpdateHandlers s)\<rparr>"

definition offSessionUpdate :: "nat \<Rightarrow> AcpClient \<Rightarrow> AcpClient" where
  "offSessionUpdate h s = s\<lparr>sessionUpdateHandlers := removeAll h (sessionUpdateHandlers s)\<rparr>"

definition onProtocolError :: "nat \<Rightarrow> AcpClient \<Rightarrow> AcpClient" where
  "onProtocolError h s = s\<lparr>protocolErrorHandlers := set_add h (protocolErrorHandlers s)\<rparr>"

definition offProtocolError :: "nat \<Rightarrow> AcpClient \<Rightarrow> AcpClient" where
  "offProtocolError h s = s\<lparr>protocolErrorHandlers := removeAll h (protocolErrorHandlers s)\<rparr>"

definition onPermissionRequest :: "nat \<Rightarrow> AcpClient \<Rightarrow> AcpClient" where
  "onPermissionRequest h s = s\<lparr>permissionHandler := Some h\<rparr>"

definition offPermissionRequest :: "nat \<Rightarrow> AcpClient \<Rightarrow> AcpClient" where
  "offPermissionRequest h s = (if permissionHandler s = Some h then s\<lparr>permissionHandler := None\<rparr> else s)"

definition onServerRequest :: "string \<Rightarrow> nat \<Rightarrow> AcpClient \<Rightarrow> AcpClient" where
  "onServerRequest m h s = s\<lparr>serverRequestHandlers := AList.update m h (serverRequestHandlers s)\<rparr>"

definition offServerRequest :: "string \<Rightarrow> nat \<Rightarrow> AcpClient \<Rightarrow> AcpClient" where
  "offServerRequest m h s =
     (if map_of (serverRequestHandlers s) m = Some h
      then s\<lparr>serverRequestHandlers := AList.delete m (serverRequestHandlers s)\<rparr> else s)"

section \<open>Incoming\<close>

definition respondSuccess :: "js_value \<Rightarrow> js_value \<Rightarrow> AcpClient \<Rightarrow> AcpClient" where
  "respondSuccess i result s =
     (if acp_closed s then s else send_frame [(''jsonrpc'', JStr ''2.0''), (''id'', i), (''result'', result)] s)"

text \<open>Every caller passes \<^verbatim>\<open>null\<close> as data, which is left out of the frame.\<close>

definition respondError :: "js_value \<Rightarrow> int \<Rightarrow> string \<Rightarrow> AcpClient \<Rightarrow> AcpClient" where
  "respondError i code message s =
     (if acp_closed s then s
      else send_frame [(''jsonrpc'', JStr ''2.0''), (''id'', i),
             (''error'', JObj [(''code'', JNum code), (''message'', JStr message)])] s)"

definition pending_for :: "js_value \<Rightarrow> AcpClient \<Rightarrow> (int \<times> string) option" where
  "pending_for i s = (case i of JNum n \<Rightarrow> map_option (Pair n) (map_of (pending (desk s)) n) | _ \<Rightarrow> None)"

definition has_key :: "string \<Rightarrow> js_record \<Rightarrow> bool" where
  "has_key k kvs \<longleftrightarrow> k \<in> fst ` set kvs"

text \<open>The first component is the error the method throws: reading properties of \<^verbatim>\<open>null\<close> does.\<close>

definition handleResponse :: "js_record \<Rightarrow> AcpClient \<Rightarrow> string option \<times> AcpClient" where
  "handleResponse frame s =
     (let i = field ''id'' frame
      in if nullish i then (None, fireProtocolError (ResponseWithoutId (JObj frame)) s)
         else (case pending_for i s of
                 None \<Rightarrow> (None, fireProtocolError (UnknownId i (JObj frame)) s)
               | Some (n, method) \<Rightarrow>
                   let s1 = on_desk (take_pending n) s
                   in if has_key ''error'' frame then
                        (let e = field ''error'' frame
                         in if nullish e then (Some ''TypeError: error is null'', s1)
                            else (None, on_desk (settle n (Rejected (RpcError method (prop_of ''code'' e) (prop_of ''message'' e) (prop_of ''data'' e)))) s1))
                      else (None, on_desk (settle n (Resolved (field ''result'' frame))) s1)))"

text \<open>The handlers of an update in order; one that throws is reported.\<close>

fun call_update_handlers :: "acp_env \<Rightarrow> js_value \<Rightarrow> js_value \<Rightarrow> nat list \<Rightarrow> AcpClient \<Rightarrow> AcpClient" where
  "call_update_handlers env frame params [] s = s"
| "call_update_handlers env frame params (h # hs) s =
     (let s1 = s\<lparr>updates_seen := updates_seen s @ [(h, params)]\<rparr>;
          s2 = (case update_throws env h params of
                  None \<Rightarrow> s1
                | Some cause \<Rightarrow> fireProtocolError (UpdateHandlerThrew cause frame) s1)
      in call_update_handlers env frame params hs s2)"

definition handleNotification :: "acp_env \<Rightarrow> js_record \<Rightarrow> AcpClient \<Rightarrow> AcpClient" where
  "handleNotification env frame s =
     (if field ''method'' frame = JStr ''session/update'' then
        (let params = field ''params'' frame
         in if \<not> is_object params then fireProtocolError (UpdateWithoutParams (JObj frame)) s
            else call_update_handlers env (JObj frame) params (sessionUpdateHandlers s) s)
      else s)"

definition handleServerRequest :: "acp_env \<Rightarrow> js_record \<Rightarrow> AcpClient \<Rightarrow> AcpClient" where
  "handleServerRequest env frame s =
     (let i = field ''id'' frame; method = field ''method'' frame; params = field ''params'' frame
      in if method = JStr ''session/request_permission'' then
           (case permissionHandler s of
              None \<Rightarrow> respondError i (-32601) ''No permission handler registered'' s
            | Some h \<Rightarrow>
                if \<not> is_object params then respondError i (-32602) ''session/request_permission missing params'' s
                else s\<lparr>inflight := inflight s @ [PermissionJob h i params]\<rparr>)
         else
           (case (case method of JStr m \<Rightarrow> map_option (Pair m) (map_of (serverRequestHandlers s) m) | _ \<Rightarrow> None) of
              Some (m, h) \<Rightarrow> s\<lparr>inflight := inflight s @ [CustomJob m h i params]\<rparr>
            | None \<Rightarrow> respondError i (-32601) (''Method not found: '' @ text_of env method) s))"

text \<open>The handler of the \<open>k\<close>-th unfinished server request finishes: \<open>Inl\<close> what it threw.\<close>

definition server_job_done :: "nat \<Rightarrow> string + js_value \<Rightarrow> AcpClient \<Rightarrow> AcpClient" where
  "server_job_done k res s =
     (if k < length (inflight s) then
        let s1 = s\<lparr>inflight := take k (inflight s) @ drop (Suc k) (inflight s)\<rparr>
        in (case inflight s ! k of
              PermissionJob h i params \<Rightarrow>
                (case res of
                   Inr decision \<Rightarrow> respondSuccess i (JObj [(''outcome'', decision)]) s1
                 | Inl cause \<Rightarrow> respondError i (-32603) (''permission handler threw: '' @ cause) s1)
            | CustomJob m h i params \<Rightarrow>
                (case res of
                   Inr result \<Rightarrow> respondSuccess i result s1
                 | Inl cause \<Rightarrow> respondError i (-32603) (''server-request handler ('' @ m @ '') threw: '' @ cause) s1))
      else s)"

definition isValidJsonRpc :: "js_record \<Rightarrow> bool" where
  "isValidJsonRpc frame \<longleftrightarrow> field ''jsonrpc'' frame = JStr ''2.0''"

text \<open>An array has none of the properties that are looked up.\<close>

definition handleFrame :: "acp_env \<Rightarrow> js_value \<Rightarrow> AcpClient \<Rightarrow> string option \<times> AcpClient" where
  "handleFrame env raw s =
     (if \<not> is_object raw then (None, fireProtocolError (FrameNotObject raw) s)
      else (case raw of
          JObj frame \<Rightarrow>
            if \<not> isValidJsonRpc frame then (None, fireProtocolError (MarkerMissing raw) s)
            else if has_key ''method'' frame \<and> has_key ''id'' frame \<and> \<not> nullish (field ''id'' frame) then
              (None, handleServerRequest env frame s)
            else if has_key ''method'' frame then (None, handleNotification env frame s)
            else if has_key ''result'' frame \<or> has_key ''error'' frame then handleResponse frame s
            else (None, fireProtocolError (NoShape raw) s)
        | _ \<Rightarrow> (None, fireProtocolError (MarkerMissing raw) s)))"

definition failAllPending :: "(string \<Rightarrow> rpc_error) \<Rightarrow> AcpClient \<Rightarrow> AcpClient" where
  "failAllPending err = on_desk (fail_all err)"

text \<open>The loop over the incoming messages: what it catches ends it.\<close>

definition consume_errored :: "string \<Rightarrow> AcpClient \<Rightarrow> AcpClient" where
  "consume_errored cause s =
     (let s1 = s\<lparr>consuming := False\<rparr>
      in if acp_closed s1 then s1
         else failAllPending (\<lambda>_. StreamErrored cause) (fireProtocolError (IncomingErrored cause) s1))"

definition consume :: "acp_env \<Rightarrow> js_value \<Rightarrow> AcpClient \<Rightarrow> AcpClient" where
  "consume env raw s =
     (if \<not> consuming s then s
      else if acp_closed s then s\<lparr>consuming := False\<rparr>
      else (case handleFrame env raw s of
              (None, s1) \<Rightarrow> s1
            | (Some cause, s1) \<Rightarrow> consume_errored cause s1))"

definition close :: "AcpClient \<Rightarrow> AcpClient" where
  "close s = (if acp_closed s then s else failAllPending ClosedWhile (s\<lparr>acp_closed := True\<rparr>))"

section \<open>Runs\<close>

datatype acp_op =
    Request string "js_value option" "int option"
  | Notify string "js_value option"
  | RequestSendRejected int string
  | NotificationSendRejected string string
  | ResponseSendRejected js_value string
  | TimerFires int
  | Message js_value
  | StreamErrors string
  | StreamEnds
  | JobDone nat "string + js_value"
  | Subscribe nat
  | Unsubscribe nat
  | SubscribeErrors nat
  | UnsubscribeErrors nat
  | SetPermission nat
  | UnsetPermission nat
  | SetServerRequest string nat
  | UnsetServerRequest string nat
  | Close

fun acp_step :: "acp_env \<Rightarrow> acp_op \<Rightarrow> AcpClient \<Rightarrow> AcpClient" where
  "acp_step env (Request m params tmo) s = snd (sendRequest m params tmo s)"
| "acp_step env (Notify m params) s = sendNotification m params s"
| "acp_step env (RequestSendRejected i cause) s = request_send_rejected i cause s"
| "acp_step env (NotificationSendRejected m cause) s = fireProtocolError (NotificationSendFailed m cause) s"
| "acp_step env (ResponseSendRejected frame cause) s = fireProtocolError (ResponseSendFailed cause frame) s"
| "acp_step env (TimerFires i) s = on_desk (timer_fires i) s"
| "acp_step env (Message raw) s = consume env raw s"
| "acp_step env (StreamErrors cause) s = (if consuming s then consume_errored cause s else s)"
| "acp_step env StreamEnds s = s\<lparr>consuming := False\<rparr>"
| "acp_step env (JobDone k res) s = server_job_done k res s"
| "acp_step env (Subscribe h) s = onSessionUpdate h s"
| "acp_step env (Unsubscribe h) s = offSessionUpdate h s"
| "acp_step env (SubscribeErrors h) s = onProtocolError h s"
| "acp_step env (UnsubscribeErrors h) s = offProtocolError h s"
| "acp_step env (SetPermission h) s = onPermissionRequest h s"
| "acp_step env (UnsetPermission h) s = offPermissionRequest h s"
| "acp_step env (SetServerRequest m h) s = onServerRequest m h s"
| "acp_step env (UnsetServerRequest m h) s = offServerRequest m h s"
| "acp_step env Close s = close s"

text \<open>The result a message carries for a request, and the request that a response with an empty error names.\<close>

fun acp_answers :: "acp_op \<Rightarrow> (int \<times> js_value) set" where
  "acp_answers (Message (JObj frame)) = {(n, field ''result'' frame) | n. field ''id'' frame = JNum n}"
| "acp_answers _ = {}"

fun acp_lost :: "acp_op \<Rightarrow> int set" where
  "acp_lost (Message (JObj frame)) =
     {n. field ''id'' frame = JNum n \<and> has_key ''error'' frame \<and> nullish (field ''error'' frame)}"
| "acp_lost _ = {}"

definition acp_ready :: "AcpClient \<Rightarrow> bool" where
  "acp_ready s \<longleftrightarrow> (\<forall>i \<in> set (issued (desk s)). i < nextId s) \<and> (acp_closed s \<longrightarrow> pending (desk s) = [])"

text \<open>Most operations leave the desk and the counters alone.\<close>

definition same_desk :: "AcpClient \<Rightarrow> AcpClient \<Rightarrow> bool" where
  "same_desk s s' \<longleftrightarrow> desk s' = desk s \<and> nextId s' = nextId s \<and> acp_closed s' = acp_closed s"

lemma same_desk_refl [simp]: "same_desk s s"
  by (simp add: same_desk_def)

lemma same_desk_fire [simp]: "same_desk s (fireProtocolError err s)"
  by (simp add: same_desk_def fireProtocolError_def)

lemma same_desk_trans: "same_desk s s' \<Longrightarrow> same_desk s' s'' \<Longrightarrow> same_desk s s''"
  by (simp add: same_desk_def)

lemma same_desk_respond [simp]:
  "same_desk s (respondSuccess i r s)" "same_desk s (respondError i c m s)" "same_desk s (sendNotification m ps s)"
  by (simp_all add: same_desk_def respondSuccess_def respondError_def sendNotification_def send_frame_def)

lemma same_desk_updates: "same_desk s (call_update_handlers env frame params hs s)"
proof (induction hs arbitrary: s)
  case (Cons h hs)
  let ?s1 = "s\<lparr>updates_seen := updates_seen s @ [(h, params)]\<rparr>"
  let ?s2 = "case update_throws env h params of None \<Rightarrow> ?s1 | Some cause \<Rightarrow> fireProtocolError (UpdateHandlerThrew cause frame) ?s1"
  have "same_desk s ?s2" by (simp add: same_desk_def fireProtocolError_def split: option.splits)
  from same_desk_trans [OF this Cons.IH] show ?case by (simp add: Let_def)
qed simp

lemma same_desk_notification: "same_desk s (handleNotification env frame s)"
  by (simp add: handleNotification_def Let_def same_desk_updates)

lemma same_desk_server: "same_desk s (handleServerRequest env frame s)"
  by (auto simp: handleServerRequest_def Let_def same_desk_def [of s "s\<lparr>inflight := _\<rparr>"] split: option.splits)

lemma same_desk_job: "same_desk s (server_job_done k res s)"
proof -
  let ?s1 = "s\<lparr>inflight := take k (inflight s) @ drop (Suc k) (inflight s)\<rparr>"
  have "same_desk s ?s1" by (simp add: same_desk_def)
  note via = same_desk_trans [OF this]
  show ?thesis
    by (auto simp: server_job_done_def Let_def intro!: via split: server_job.splits sum.splits)
qed

definition desk_step :: "acp_op \<Rightarrow> AcpClient \<Rightarrow> AcpClient \<Rightarrow> bool" where
  "desk_step op s s' \<longleftrightarrow> desk_move (acp_lost op) (acp_answers op) (desk s) (desk s') \<and>
     issued (desk s') = issued (desk s) \<and> nextId s' = nextId s \<and>
     (acp_closed s' \<longrightarrow> acp_closed s \<or> pending (desk s') = []) \<and> (pending (desk s) = [] \<longrightarrow> pending (desk s') = [])"

lemma desk_step_same: "same_desk s s' \<Longrightarrow> desk_step op s s'"
  by (simp add: desk_step_def same_desk_def desk_move.stay)

lemma desk_step_on:
  assumes "desk_move (acp_lost op) (acp_answers op) (desk s) (f (desk s))" and "issued (f (desk s)) = issued (desk s)"
    and "pending (desk s) = [] \<longrightarrow> pending (f (desk s)) = []"
  shows "desk_step op s (on_desk f s)"
  using assms by (simp add: desk_step_def on_desk_def)

lemma desk_step_trans: "desk_step op s s' \<Longrightarrow> desk_step op s' s'' \<Longrightarrow> desk_step op s s''"
  unfolding desk_step_def by (metis desk_move_trans)

lemma handleResponse_step:
  assumes "handleResponse frame s = (exc, s')"
  shows "desk_step (Message (JObj frame)) s s'"
proof (cases "nullish (field ''id'' frame) \<or> pending_for (field ''id'' frame) s = None")
  case True
  with assms have "same_desk s s'" by (auto simp: handleResponse_def Let_def split: if_splits)
  then show ?thesis by (rule desk_step_same)
next
  case False
  then obtain n m where n: "field ''id'' frame = JNum n" "map_of (pending (desk s)) n = Some m"
    by (auto simp: pending_for_def split: jsval.splits)
  then have p: "n \<in> pending_ids (desk s)" by (metis domI dom_map_of_conv_image_fst)
  show ?thesis
    using assms n
    by (auto simp: handleResponse_def Let_def nullish_def pending_for_def on_desk_def desk_step_def allowed_outcome_def
        no_pending_take intro!: desk_move.settles desk_move.loses desk_move.stay p split: if_splits)
qed

lemma handleFrame_step:
  assumes "handleFrame env raw s = (exc, s')"
  shows "desk_step (Message raw) s s'"
proof (cases "\<exists>frame. raw = JObj frame \<and> handleFrame env raw s = handleResponse frame s")
  case True
  then obtain frame where "raw = JObj frame" "handleResponse frame s = (exc, s')" using assms by auto
  then show ?thesis using handleResponse_step by simp
next
  case False
  then have "same_desk s s'"
    using assms same_desk_notification same_desk_server
    by (auto simp: handleFrame_def split: if_splits jsval.splits)
  then show ?thesis by (rule desk_step_same)
qed

lemma failAll_step:
  assumes "desk_inv L R (desk s)"
  shows "desk_step op s (failAllPending err s)" and "pending (desk (failAllPending err s)) = []"
  using fail_all_move [OF assms] unfolding failAllPending_def
  by (simp_all add: desk_step_def on_desk_def)

lemma desk_step_inv: "desk_step op s s' \<Longrightarrow> desk_inv L R (desk s) \<Longrightarrow> desk_inv (L \<union> acp_lost op) (R \<union> acp_answers op) (desk s')"
proof -
  assume st: "desk_step op s s'" and inv: "desk_inv L R (desk s)"
  have "desk_move (L \<union> acp_lost op) (R \<union> acp_answers op) (desk s) (desk s')"
    using st unfolding desk_step_def by (blast intro: desk_move_mono)
  then show ?thesis by (rule desk_move_inv) (rule desk_inv_mono [OF inv], auto)
qed

lemma consume_errored_step:
  assumes "desk_inv L R (desk s)"
  shows "desk_step op s (consume_errored cause s)"
proof -
  let ?s1 = "fireProtocolError (IncomingErrored cause) (s\<lparr>consuming := False\<rparr>)"
  have same: "same_desk s (s\<lparr>consuming := False\<rparr>)" "same_desk s ?s1" by (simp_all add: same_desk_def fireProtocolError_def)
  then have "desk_inv L R (desk ?s1)" using assms by (simp add: same_desk_def)
  from desk_step_trans [OF desk_step_same [OF same(2)] failAll_step(1) [OF this]] desk_step_same [OF same(1)]
  show ?thesis by (simp add: consume_errored_def Let_def)
qed

lemma consume_step:
  assumes "desk_inv L R (desk s)"
  shows "desk_step (Message raw) s (consume env raw s)"
proof -
  obtain exc s1 where hf: "handleFrame env raw s = (exc, s1)" by (metis prod.exhaust)
  note st = handleFrame_step [OF hf]
  have "desk_step (Message raw) s (consume_errored cause s1)" for cause
    by (rule desk_step_trans [OF st consume_errored_step [OF desk_step_inv [OF st assms]]])
  then show ?thesis using st hf by (auto simp: consume_def intro: desk_step_same simp: same_desk_def split: option.splits)
qed

lemma close_step: "desk_inv L R (desk s) \<Longrightarrow> desk_step op s (close s)"
proof -
  assume inv: "desk_inv L R (desk s)"
  let ?s1 = "s\<lparr>acp_closed := True\<rparr>"
  have "desk_inv L R (desk ?s1)" using inv by simp
  note fa = failAll_step(1) [OF this, of op ClosedWhile] failAll_step(2) [OF this, of ClosedWhile]
  show ?thesis using fa desk_step_same [OF same_desk_refl]
    by (simp add: close_def desk_step_def failAllPending_def on_desk_def)
qed

lemma acp_op_step:
  assumes "desk_inv L R (desk s)" and "\<forall>m ps tmo. op \<noteq> Request m ps tmo"
  shows "desk_step op s (acp_step env op s)"
proof (cases op)
  case (TimerFires i)
  then show ?thesis using timer_fires_move [OF assms(1)] by (auto intro: desk_step_on)
next
  case (RequestSendRejected i cause)
  then show ?thesis unfolding acp_step.simps request_send_rejected_def RequestSendRejected
    by (intro desk_step_on send_rejected_move) auto
qed (use assms consume_step consume_errored_step close_step same_desk_job in \<open>auto intro: desk_step_same
    simp: same_desk_def onSessionUpdate_def offSessionUpdate_def onProtocolError_def offProtocolError_def
      onPermissionRequest_def offPermissionRequest_def onServerRequest_def offServerRequest_def
      sendNotification_def send_frame_def fireProtocolError_def\<close>)

lemma request_ready:
  assumes "acp_ready s"
  shows "desk_move L R (desk s) (desk (snd (sendRequest m ps tmo s))) \<and> acp_ready (snd (sendRequest m ps tmo s))"
  using assms
  by (auto simp: sendRequest_def Let_def on_desk_def send_frame_def acp_ready_def intro!: desk_move.opens intro: desk_move.stay)

interpretation acp: rpc_client "acp_step env" desk acp_lost acp_answers acp_ready
proof
  fix s L R op
  assume r: "acp_ready s" and inv: "desk_inv L R (desk s)"
  show "desk_move (acp_lost op) (acp_answers op) (desk s) (desk (acp_step env op s))"
    using request_ready [OF r] acp_op_step [OF inv, of op env]
    by (cases "\<exists>m ps tmo. op = Request m ps tmo") (auto simp: desk_step_def)
  show "acp_ready (acp_step env op s)"
    using request_ready [OF r] acp_op_step [OF inv, of op env] r
    by (cases "\<exists>m ps tmo. op = Request m ps tmo") (auto simp: desk_step_def acp_ready_def)
qed

section \<open>Every request is settled\<close>

lemma create_ready: "acp_ready (createAcpClient tmo seed)" "desk (createAcpClient tmo seed) = empty_desk"
  by (simp_all add: createAcpClient_def acp_ready_def empty_desk_def)

definition lost_requests :: "acp_op list \<Rightarrow> int set" where
  "lost_requests ops = \<Union> (acp_lost ` set ops)"

definition results_received :: "acp_op list \<Rightarrow> (int \<times> js_value) set" where
  "results_received ops = \<Union> (acp_answers ` set ops)"

text \<open>C27: over every sequence of calls, messages, timers, transport failures and closes, a promise of the ACP client is
  settled at most once; every promise that was handed out is settled, or still pending with its timer armed, or
  belongs to a request that a response with an empty error property named; a promise is resolved only with the
  result of a message that carries its id; and once the client is closed nothing is pending.\<close>

theorem acp_requests_settle:
  "let s = fold (acp_step env) ops (createAcpClient tmo seed); d = desk s
   in distinct (map fst (settled d)) \<and> pending_ids d \<inter> settled_ids d = {} \<and> map fst (timers d) = map fst (pending d) \<and>
      set (issued d) \<subseteq> pending_ids d \<union> settled_ids d \<union> lost_requests ops \<and>
      {(i, v). (i, Resolved v) \<in> set (settled d)} \<subseteq> results_received ops \<and>
      (if acp_closed s then pending d = [] else True)"
proof -
  let ?s = "fold (acp_step env) ops (createAcpClient tmo seed)"
  note run = acp.run_from_empty [OF create_ready [of tmo seed], where env = env and ops = ops]
  have inv: "desk_inv (lost_requests ops) (results_received ops) (desk ?s)"
    using run(1) by (simp add: lost_requests_def results_received_def)
  then have "{(i, v). (i, Resolved v) \<in> set (settled (desk ?s))} \<subseteq> results_received ops"
    by (auto simp: desk_inv_def allowed_outcome_def split: rpc_outcome.splits)
  then show ?thesis using inv run(2) by (simp add: desk_inv_def acp_ready_def Let_def)
qed

lemma consuming_updates [simp]: "consuming (call_update_handlers env frame params hs s) = consuming s"
  by (induction hs arbitrary: s) (simp_all add: Let_def fireProtocolError_def split: option.splits)

lemma consuming_misc [simp]:
  "consuming (on_desk f s) = consuming s" "consuming (fireProtocolError err s) = consuming s"
  "consuming (respondSuccess i r s) = consuming s" "consuming (respondError i c m s) = consuming s"
  "consuming (send_frame kvs s) = consuming s"
  by (simp_all add: on_desk_def fireProtocolError_def respondSuccess_def respondError_def send_frame_def)

lemma not_consuming_step: "\<not> consuming s \<Longrightarrow> \<not> consuming (acp_step env op s)"
  by (cases op)
    (auto simp: sendRequest_def Let_def sendNotification_def request_send_rejected_def consume_def server_job_done_def
      onSessionUpdate_def offSessionUpdate_def onProtocolError_def offProtocolError_def onPermissionRequest_def
      offPermissionRequest_def onServerRequest_def offServerRequest_def close_def failAllPending_def
      split: server_job.splits sum.splits)

lemma not_consuming_run: "\<not> consuming s \<Longrightarrow> \<not> consuming (fold (acp_step env) ops s)"
  by (induction ops arbitrary: s) (simp_all add: not_consuming_step)

text \<open>The response some servers send with a success: it has a result and an error that is \<^verbatim>\<open>null\<close>.\<close>

definition null_error_response :: "js_value \<Rightarrow> js_value" where
  "null_error_response result =
     JObj [(''jsonrpc'', JStr ''2.0''), (''id'', JNum 1), (''result'', result), (''error'', JNull)]"

text \<open>A response whose error property is \<^verbatim>\<open>null\<close> leaves its request unsettled for ever, even after a timeout or a
  close, and the client never reads another message.\<close>

theorem null_error_hangs:
  "let s = fold (acp_step env) ([Request m ps tmo, Message (null_error_response r)] @ ops) (createAcpClient None None)
   in 1 \<in> set (issued (desk s)) \<and> 1 \<notin> settled_ids (desk s) \<and> \<not> consuming s"
proof -
  let ?ops = "[Request m ps tmo, Message (null_error_response r)]"
  let ?s = "fold (acp_step env) ?ops (createAcpClient None None)"
  note run = acp.run_from_empty [OF create_ready [of None None], where env = env and ops = ?ops]
  have st: "1 \<in> set (issued (desk ?s))" "1 \<notin> pending_ids (desk ?s)" "1 \<notin> settled_ids (desk ?s)" "\<not> consuming ?s"
    by (simp_all add: createAcpClient_def empty_desk_def sendRequest_def Let_def on_desk_def send_frame_def consume_def
        null_error_response_def handleFrame_def is_object_def isValidJsonRpc_def field_def has_key_def handleResponse_def
        nullish_def pending_for_def open_request_def take_pending_def consume_errored_def failAllPending_def fail_all_def
        fireProtocolError_def)
  show ?thesis
    using acp.lost_forever [OF run(2,1) st(1-3), where ops = ops] not_consuming_run [OF st(4), of env ops] by simp
qed

section \<open>Every request of the server is answered\<close>

fun job_id :: "server_job \<Rightarrow> js_value" where
  "job_id (PermissionJob h i ps) = i"
| "job_id (CustomJob m h i ps) = i"

text \<open>The ids of the responses sent, and those of the handlers at work.\<close>

definition answers_due :: "AcpClient \<Rightarrow> js_value multiset" where
  "answers_due s = mset (map (prop_of ''id'') (filter (\<lambda>f. prop_of ''method'' f = JUndefined) (sent s))) +
     mset (map job_id (inflight s))"

definition is_server_request :: "js_value \<Rightarrow> bool" where
  "is_server_request raw = (case raw of
     JObj frame \<Rightarrow> isValidJsonRpc frame \<and> has_key ''method'' frame \<and> has_key ''id'' frame \<and> \<not> nullish (field ''id'' frame)
   | _ \<Rightarrow> False)"

definition asks :: "acp_op \<Rightarrow> AcpClient \<Rightarrow> js_value multiset" where
  "asks op s = (case op of
     Message raw \<Rightarrow> if consuming s \<and> \<not> acp_closed s \<and> is_server_request raw then {#prop_of ''id'' raw#} else {#}
   | _ \<Rightarrow> {#})"

text \<open>The ids of the server requests the client has read.\<close>

fun server_requests :: "acp_env \<Rightarrow> acp_op list \<Rightarrow> AcpClient \<Rightarrow> js_value multiset" where
  "server_requests env [] s = {#}"
| "server_requests env (op # ops) s = asks op s + server_requests env ops (acp_step env op s)"

lemma due_simps [simp]:
  "answers_due (on_desk f s) = answers_due s" "answers_due (fireProtocolError err s) = answers_due s"
  "answers_due (s\<lparr>consuming := b\<rparr>) = answers_due s" "answers_due (s\<lparr>acp_closed := b\<rparr>) = answers_due s"
  "answers_due (failAllPending mk s) = answers_due s" "answers_due (s\<lparr>nextId := n\<rparr>) = answers_due s"
  "answers_due (s\<lparr>inflight := inflight s @ [j]\<rparr>) = answers_due s + {#job_id j#}"
  "answers_due (call_update_handlers env frame params hs s) = answers_due s"
  "\<not> acp_closed s \<Longrightarrow> answers_due (respondSuccess i r s) = answers_due s + {#i#}"
  "\<not> acp_closed s \<Longrightarrow> answers_due (respondError i c m s) = answers_due s + {#i#}"
proof -
  show "answers_due (call_update_handlers env frame params hs s) = answers_due s"
  proof (induction hs arbitrary: s)
    case (Cons h hs)
    show ?case by (simp add: Let_def Cons) (simp add: answers_due_def fireProtocolError_def split: option.splits)
  qed simp
qed (simp_all add: answers_due_def on_desk_def fireProtocolError_def failAllPending_def respondSuccess_def respondError_def
    send_frame_def prop_of_def field_def)

lemma due_job:
  assumes "k < length (inflight s)"
  shows "answers_due s = answers_due (s\<lparr>inflight := take k (inflight s) @ drop (Suc k) (inflight s)\<rparr>) + {#job_id (inflight s ! k)#}"
proof -
  have "inflight s = take k (inflight s) @ inflight s ! k # drop (Suc k) (inflight s)" using assms by (rule id_take_nth_drop)
  then have "mset (map job_id (inflight s)) =
      mset (map job_id (take k (inflight s) @ inflight s ! k # drop (Suc k) (inflight s)))" by metis
  then show ?thesis by (simp add: answers_due_def)
qed

lemma due_request: "answers_due (snd (sendRequest m ps tmo s)) = answers_due s"
  by (simp add: sendRequest_def Let_def answers_due_def send_frame_def on_desk_def prop_of_def field_def)

lemma due_notify: "answers_due (sendNotification m ps s) = answers_due s"
  by (simp add: sendNotification_def answers_due_def send_frame_def prop_of_def field_def)

lemma due_server_request:
  "\<not> acp_closed s \<Longrightarrow> answers_due (handleServerRequest env frame s) = answers_due s + {#field ''id'' frame#}"
  by (auto simp: handleServerRequest_def Let_def split: option.splits)

lemma due_frame:
  assumes "\<not> acp_closed s" and "handleFrame env raw s = (exc, s')"
  shows "answers_due s' = answers_due s + (if is_server_request raw then {#prop_of ''id'' raw#} else {#})"
proof (cases "is_server_request raw")
  case True
  then show ?thesis using assms due_server_request [OF assms(1)]
    by (auto simp: is_server_request_def handleFrame_def is_object_def prop_of_def split: jsval.splits)
next
  case False
  then show ?thesis using assms
    by (auto simp: is_server_request_def handleFrame_def handleResponse_def handleNotification_def Let_def
        split: jsval.splits if_splits option.splits)
qed

lemma closed_stays: "acp_closed s \<Longrightarrow> acp_closed (acp_step env op s)"
  by (cases op)
    (auto simp: sendRequest_def Let_def sendNotification_def request_send_rejected_def consume_def consume_errored_def
      server_job_done_def on_desk_def fireProtocolError_def respondSuccess_def respondError_def
      onSessionUpdate_def offSessionUpdate_def onProtocolError_def offProtocolError_def onPermissionRequest_def
      offPermissionRequest_def onServerRequest_def offServerRequest_def close_def
      split: server_job.splits sum.splits)

lemma due_step:
  assumes "\<not> acp_closed (acp_step env op s)"
  shows "answers_due (acp_step env op s) = answers_due s + asks op s"
proof -
  have open_now: "\<not> acp_closed s" using assms closed_stays by blast
  show ?thesis
  proof (cases op)
    case (Message raw)
    obtain exc s1 where "handleFrame env raw s = (exc, s1)" by (metis prod.exhaust)
    then show ?thesis using due_frame [OF open_now] Message open_now
      by (auto simp: asks_def consume_def consume_errored_def Let_def split: option.splits)
  next
    case (JobDone k res)
    then show ?thesis using due_job [of k s] open_now
      by (auto simp: asks_def server_job_done_def Let_def split: server_job.splits sum.splits)
  qed (use open_now assms due_request due_notify in \<open>auto simp: asks_def request_send_rejected_def consume_errored_def Let_def
      onSessionUpdate_def offSessionUpdate_def onProtocolError_def offProtocolError_def onPermissionRequest_def
      offPermissionRequest_def onServerRequest_def offServerRequest_def close_def, auto simp: answers_due_def\<close>)
qed

lemma closed_stays_run: "acp_closed s \<Longrightarrow> acp_closed (fold (acp_step env) ops s)"
  by (induction ops arbitrary: s) (simp_all add: closed_stays)

lemma due_run:
  "\<not> acp_closed (fold (acp_step env) ops s) \<Longrightarrow>
     answers_due (fold (acp_step env) ops s) = answers_due s + server_requests env ops s"
proof (induction ops arbitrary: s)
  case (Cons op ops)
  then have "\<not> acp_closed (acp_step env op s)" using closed_stays_run by auto
  with Cons show ?case by (simp add: due_step)
qed simp

text \<open>C28: as long as the client is not closed, every request of the server is answered exactly once: the ids of the
  responses sent, together with those of the requests whose handler is still at work, are the ids of the
  requests read, with multiplicity.\<close>

theorem acp_server_requests_answered:
  assumes "\<not> acp_closed (fold (acp_step env) ops (createAcpClient tmo seed))"
  shows "answers_due (fold (acp_step env) ops (createAcpClient tmo seed)) = server_requests env ops (createAcpClient tmo seed)"
  using due_run [OF assms] by (simp add: answers_due_def createAcpClient_def)

definition sample_env :: acp_env where
  "sample_env = \<lparr>update_throws = \<lambda>_ _. None, text_of = \<lambda>_. ''x''\<rparr>"

definition ask :: "int \<Rightarrow> string \<Rightarrow> acp_op" where
  "ask i m = Message (JObj [(''jsonrpc'', JStr ''2.0''), (''id'', JNum i), (''method'', JStr m), (''params'', JObj [])])"

theorem acp_server_requests_answered_witness:
  "answers_due (fold (acp_step sample_env)
      [SetPermission 0, ask 7 ''session/request_permission'', ask 8 ''fs/read'', JobDone 0 (Inr JNull), ask 7 ''session/request_permission'']
      (createAcpClient None None)) = {#JNum 7, JNum 8, JNum 7#}"
proof -
  let ?ops = "[SetPermission 0, ask 7 ''session/request_permission'', ask 8 ''fs/read'', JobDone 0 (Inr JNull), ask 7 ''session/request_permission'']"
  have "\<not> acp_closed (fold (acp_step sample_env) ?ops (createAcpClient None None))" by code_simp
  from acp_server_requests_answered [OF this]
  have "answers_due (fold (acp_step sample_env) ?ops (createAcpClient None None)) =
    server_requests sample_env ?ops (createAcpClient None None)" .
  also have "\<dots> = {#JNum 7, JNum 8, JNum 7#}" by code_simp
  finally show ?thesis .
qed

end
