(* ===== verification/Pi_Client.thy ===== *)
theory Pi_Client
  imports Rpc_Desk
begin

text \<open>
  The command client of the Pi adapter (\<^verbatim>\<open>packages/adapters/pi/src/rpc-client.ts\<close>), over the same desk as the
  ACP client. Ids are texts, a response says whether the command succeeded, and every other frame is an event or
  the one handshake. The parameters of a command are data that \<^verbatim>\<open>JSON.stringify\<close> accepts. Handlers are numbers, and
  which of them throw is an environment.
\<close>

section \<open>State\<close>

datatype pi_error =
    PiNotObject js_value
  | PiTypeMissing js_value
  | PiIdMissing js_value
  | PiUnknownId string js_value
  | PiReadyThrew string js_value
  | PiHandlerThrew string js_value
  | PiIncomingErrored string

record PiRpcClient =
  pi_desk :: "string desk"
  pi_timeout :: int
  idPrefix :: string
  pi_nextId :: int
  eventHandlers :: "nat list"
  errorHandlers :: "nat list"
  readyHandler :: "nat option"
  readyFired :: bool
  pi_closed :: bool
  pi_consuming :: bool
  pi_sent :: "js_value list"
  pi_errors :: "(nat \<times> pi_error) list"
  events_seen :: "(nat \<times> js_value) list"
  ready_seen :: "(nat \<times> js_value) list"

record pi_env =
  event_throws :: "nat \<Rightarrow> js_value \<Rightarrow> string option"
  ready_throws :: "nat \<Rightarrow> js_value \<Rightarrow> string option"

definition createPiRpcClient :: "int option \<Rightarrow> int option \<Rightarrow> string option \<Rightarrow> PiRpcClient" where
  "createPiRpcClient commandTimeoutMs initialId prefix =
     \<lparr>pi_desk = empty_desk, pi_timeout = (case commandTimeoutMs of None \<Rightarrow> 60000 | Some t \<Rightarrow> t),
      idPrefix = (case prefix of None \<Rightarrow> ''shamu-'' | Some p \<Rightarrow> p),
      pi_nextId = (case initialId of None \<Rightarrow> 1 | Some i \<Rightarrow> i), eventHandlers = [], errorHandlers = [],
      readyHandler = None, readyFired = False, pi_closed = False, pi_consuming = True, pi_sent = [],
      pi_errors = [], events_seen = [], ready_seen = []\<rparr>"

section \<open>Operations\<close>

definition command_id :: "PiRpcClient \<Rightarrow> string" where
  "command_id s = idPrefix s @ show_int (pi_nextId s)"

definition sendCommand ::
  "string \<Rightarrow> js_record \<Rightarrow> int option \<Rightarrow> PiRpcClient \<Rightarrow> (rpc_error + string) \<times> PiRpcClient" where
  "sendCommand type params timeoutMs s =
     (if pi_closed s then (Inl ClientClosed, s)
      else if type = [] then (Inl (CommandError type ''command type must be a non-empty string''), s)
      else
        let i = command_id s;
            tmo = (case timeoutMs of None \<Rightarrow> pi_timeout s | Some t \<Rightarrow> t);
            frame = fold (\<lambda>(k, v) r. AList.update k v r) params [(''id'', JStr i), (''type'', JStr type)]
        in (Inr i, s\<lparr>pi_nextId := pi_nextId s + 1, pi_desk := open_request i type tmo (pi_desk s),
              pi_sent := pi_sent s @ [JObj frame]\<rparr>))"

definition pi_fire :: "pi_error \<Rightarrow> PiRpcClient \<Rightarrow> PiRpcClient" where
  "pi_fire err s = s\<lparr>pi_errors := pi_errors s @ map (\<lambda>h. (h, err)) (errorHandlers s)\<rparr>"

definition pi_handleResponse :: "js_record \<Rightarrow> PiRpcClient \<Rightarrow> PiRpcClient" where
  "pi_handleResponse frame s =
     (case field ''id'' frame of
        JStr i \<Rightarrow>
          if i = [] then pi_fire (PiIdMissing (JObj frame)) s
          else (case map_of (pending (pi_desk s)) i of
                  None \<Rightarrow> pi_fire (PiUnknownId i (JObj frame)) s
                | Some command \<Rightarrow>
                    let d = take_pending i (pi_desk s)
                    in if field ''success'' frame \<noteq> JBool True then
                         let errMsg = (case field ''error'' frame of JStr t \<Rightarrow> t | _ \<Rightarrow> ''Pi RPC command returned success=false'')
                         in s\<lparr>pi_desk := settle i (Rejected (CommandError command errMsg)) d\<rparr>
                       else s\<lparr>pi_desk := settle i (Resolved (field ''data'' frame)) d\<rparr>)
      | _ \<Rightarrow> pi_fire (PiIdMissing (JObj frame)) s)"

fun dispatch_to :: "pi_env \<Rightarrow> js_value \<Rightarrow> nat list \<Rightarrow> PiRpcClient \<Rightarrow> PiRpcClient" where
  "dispatch_to env frame [] s = s"
| "dispatch_to env frame (h # hs) s =
     (let s1 = s\<lparr>events_seen := events_seen s @ [(h, frame)]\<rparr>;
          s2 = (case event_throws env h frame of None \<Rightarrow> s1 | Some cause \<Rightarrow> pi_fire (PiHandlerThrew cause frame) s1)
      in dispatch_to env frame hs s2)"

definition dispatchEvent :: "pi_env \<Rightarrow> js_value \<Rightarrow> PiRpcClient \<Rightarrow> PiRpcClient" where
  "dispatchEvent env frame s = dispatch_to env frame (eventHandlers s) s"

definition pi_handshake :: "pi_env \<Rightarrow> js_value \<Rightarrow> PiRpcClient \<Rightarrow> PiRpcClient" where
  "pi_handshake env frame s =
     (let s1 = s\<lparr>readyFired := True\<rparr>
      in case readyHandler s1 of
           None \<Rightarrow> s1
         | Some h \<Rightarrow>
             let s2 = s1\<lparr>ready_seen := ready_seen s1 @ [(h, frame)]\<rparr>
             in (case ready_throws env h frame of None \<Rightarrow> s2 | Some cause \<Rightarrow> pi_fire (PiReadyThrew cause frame) s2))"

definition pi_handleFrame :: "pi_env \<Rightarrow> js_value \<Rightarrow> PiRpcClient \<Rightarrow> PiRpcClient" where
  "pi_handleFrame env raw s =
     (case raw of
        JObj frame \<Rightarrow>
          (case field ''type'' frame of
             JStr type \<Rightarrow>
               if type = [] then pi_fire (PiTypeMissing raw) s
               else if type = ''response'' then pi_handleResponse frame s
               else if type = ''ready'' \<and> \<not> readyFired s then pi_handshake env raw s
               else dispatchEvent env raw s
           | _ \<Rightarrow> pi_fire (PiTypeMissing raw) s)
      | _ \<Rightarrow> pi_fire (PiNotObject raw) s)"

definition pi_consume :: "pi_env \<Rightarrow> js_value \<Rightarrow> PiRpcClient \<Rightarrow> PiRpcClient" where
  "pi_consume env raw s =
     (if \<not> pi_consuming s then s
      else if pi_closed s then s\<lparr>pi_consuming := False\<rparr>
      else pi_handleFrame env raw s)"

definition pi_consume_errored :: "string \<Rightarrow> PiRpcClient \<Rightarrow> PiRpcClient" where
  "pi_consume_errored cause s =
     (if \<not> pi_consuming s then s
      else
        let s1 = s\<lparr>pi_consuming := False\<rparr>
        in if pi_closed s1 then s1
           else (pi_fire (PiIncomingErrored cause) s1)\<lparr>pi_desk := fail_all (\<lambda>_. StreamErrored cause) (pi_desk s)\<rparr>)"

definition pi_close :: "PiRpcClient \<Rightarrow> PiRpcClient" where
  "pi_close s = (if pi_closed s then s else s\<lparr>pi_closed := True, pi_desk := fail_all ClosedWhile (pi_desk s)\<rparr>)"

definition pi_add :: "nat \<Rightarrow> nat list \<Rightarrow> nat list" where
  "pi_add h hs = (if h \<in> set hs then hs else hs @ [h])"

definition onEvent :: "nat \<Rightarrow> PiRpcClient \<Rightarrow> PiRpcClient" where
  "onEvent h s = s\<lparr>eventHandlers := pi_add h (eventHandlers s)\<rparr>"

definition offEvent :: "nat \<Rightarrow> PiRpcClient \<Rightarrow> PiRpcClient" where
  "offEvent h s = s\<lparr>eventHandlers := removeAll h (eventHandlers s)\<rparr>"

definition pi_onProtocolError :: "nat \<Rightarrow> PiRpcClient \<Rightarrow> PiRpcClient" where
  "pi_onProtocolError h s = s\<lparr>errorHandlers := pi_add h (errorHandlers s)\<rparr>"

definition pi_offProtocolError :: "nat \<Rightarrow> PiRpcClient \<Rightarrow> PiRpcClient" where
  "pi_offProtocolError h s = s\<lparr>errorHandlers := removeAll h (errorHandlers s)\<rparr>"

definition onReady :: "nat \<Rightarrow> PiRpcClient \<Rightarrow> PiRpcClient" where
  "onReady h s = s\<lparr>readyHandler := Some h\<rparr>"

definition offReady :: "nat \<Rightarrow> PiRpcClient \<Rightarrow> PiRpcClient" where
  "offReady h s = (if readyHandler s = Some h then s\<lparr>readyHandler := None\<rparr> else s)"

section \<open>Runs\<close>

datatype pi_op =
    Command string js_record "int option"
  | CommandSendRejected string string
  | CommandTimer string
  | PiMessage js_value
  | PiStreamErrors string
  | PiStreamEnds
  | OnEvent nat
  | OffEvent nat
  | OnError nat
  | OffError nat
  | OnReady nat
  | OffReady nat
  | PiClose

fun pi_step :: "pi_env \<Rightarrow> pi_op \<Rightarrow> PiRpcClient \<Rightarrow> PiRpcClient" where
  "pi_step env (Command type params tmo) s = snd (sendCommand type params tmo s)"
| "pi_step env (CommandSendRejected i cause) s = s\<lparr>pi_desk := send_rejected i (\<lambda>m. SendFailed m cause) (pi_desk s)\<rparr>"
| "pi_step env (CommandTimer i) s = s\<lparr>pi_desk := timer_fires i (pi_desk s)\<rparr>"
| "pi_step env (PiMessage raw) s = pi_consume env raw s"
| "pi_step env (PiStreamErrors cause) s = pi_consume_errored cause s"
| "pi_step env PiStreamEnds s = s\<lparr>pi_consuming := False\<rparr>"
| "pi_step env (OnEvent h) s = onEvent h s"
| "pi_step env (OffEvent h) s = offEvent h s"
| "pi_step env (OnError h) s = pi_onProtocolError h s"
| "pi_step env (OffError h) s = pi_offProtocolError h s"
| "pi_step env (OnReady h) s = onReady h s"
| "pi_step env (OffReady h) s = offReady h s"
| "pi_step env PiClose s = pi_close s"

fun pi_answers :: "pi_op \<Rightarrow> (string \<times> js_value) set" where
  "pi_answers (PiMessage (JObj frame)) =
     {(i, field ''data'' frame) | i. field ''id'' frame = JStr i \<and> field ''success'' frame = JBool True}"
| "pi_answers _ = {}"

definition pi_ready :: "PiRpcClient \<Rightarrow> bool" where
  "pi_ready s \<longleftrightarrow> set (issued (pi_desk s)) \<subseteq> (\<lambda>n. idPrefix s @ show_int n) ` {n. n < pi_nextId s} \<and>
     (pi_closed s \<longrightarrow> pending (pi_desk s) = [])"

definition pi_same :: "PiRpcClient \<Rightarrow> PiRpcClient \<Rightarrow> bool" where
  "pi_same s s' \<longleftrightarrow> pi_desk s' = pi_desk s \<and> pi_nextId s' = pi_nextId s \<and> idPrefix s' = idPrefix s \<and> pi_closed s' = pi_closed s"

lemma pi_same_fire [simp]: "pi_same s (pi_fire err s)"
  by (simp add: pi_same_def pi_fire_def)

lemma pi_same_trans: "pi_same s s' \<Longrightarrow> pi_same s' s'' \<Longrightarrow> pi_same s s''"
  by (simp add: pi_same_def)

lemma pi_same_dispatch: "pi_same s (dispatch_to env frame hs s)"
proof (induction hs arbitrary: s)
  case (Cons h hs)
  let ?s1 = "s\<lparr>events_seen := events_seen s @ [(h, frame)]\<rparr>"
  have "pi_same s (case event_throws env h frame of None \<Rightarrow> ?s1 | Some cause \<Rightarrow> pi_fire (PiHandlerThrew cause frame) ?s1)"
    by (simp add: pi_same_def pi_fire_def split: option.splits)
  from pi_same_trans [OF this Cons.IH] show ?case by (simp add: Let_def)
qed (simp add: pi_same_def)

lemma pi_same_handshake: "pi_same s (pi_handshake env frame s)"
  by (simp add: pi_handshake_def Let_def pi_same_def pi_fire_def split: option.splits)

text \<open>A frame leaves the desk alone or settles one pending command.\<close>

definition pi_effect :: "pi_op \<Rightarrow> PiRpcClient \<Rightarrow> PiRpcClient \<Rightarrow> bool" where
  "pi_effect op s s' \<longleftrightarrow> pi_same s s' \<or> pi_nextId s' = pi_nextId s \<and> idPrefix s' = idPrefix s \<and> pi_closed s' = pi_closed s \<and>
     (\<exists>i out. i \<in> pending_ids (pi_desk s) \<and> allowed_outcome (pi_answers op) i out \<and>
        pi_desk s' = settle i out (take_pending i (pi_desk s)))"

lemma pi_response_effect: "pi_effect (PiMessage (JObj frame)) s (pi_handleResponse frame s)"
proof (cases "\<exists>i c. field ''id'' frame = JStr i \<and> i \<noteq> [] \<and> map_of (pending (pi_desk s)) i = Some c")
  case True
  then obtain i c where i: "field ''id'' frame = JStr i" "i \<noteq> []" "map_of (pending (pi_desk s)) i = Some c" by blast
  then have p: "i \<in> pending_ids (pi_desk s)" by (metis domI dom_map_of_conv_image_fst)
  define out where "out = (if field ''success'' frame = JBool True then Resolved (field ''data'' frame)
    else Rejected (CommandError c (case field ''error'' frame of JStr t \<Rightarrow> t | _ \<Rightarrow> ''Pi RPC command returned success=false'')))"
  have "pi_handleResponse frame s = s\<lparr>pi_desk := settle i out (take_pending i (pi_desk s))\<rparr>"
    using i by (simp add: pi_handleResponse_def out_def Let_def)
  moreover have "allowed_outcome (pi_answers (PiMessage (JObj frame))) i out"
    using i by (simp add: allowed_outcome_def out_def)
  ultimately show ?thesis using p by (auto simp: pi_effect_def simp del: pi_answers.simps)
next
  case False
  then have "pi_same s (pi_handleResponse frame s)"
    by (auto simp: pi_handleResponse_def split: jsval.splits option.splits)
  then show ?thesis by (simp add: pi_effect_def)
qed

lemma pi_effect_same: "pi_same s s' \<Longrightarrow> pi_effect op s s'"
  by (simp add: pi_effect_def)

lemma pi_frame_effect: "pi_effect (PiMessage raw) s (pi_handleFrame env raw s)"
  by (auto simp: pi_handleFrame_def dispatchEvent_def pi_response_effect
      intro!: pi_effect_same pi_same_handshake pi_same_dispatch split: jsval.splits)

lemma pi_effect_move:
  assumes "pi_effect op s s'"
  shows "desk_move {} (pi_answers op) (pi_desk s) (pi_desk s')"
proof (cases "pi_same s s'")
  case True
  then show ?thesis by (simp add: pi_same_def desk_move.stay)
next
  case False
  then obtain i out where "i \<in> pending_ids (pi_desk s)" "allowed_outcome (pi_answers op) i out"
    "pi_desk s' = settle i out (take_pending i (pi_desk s))" using assms by (auto simp: pi_effect_def)
  then show ?thesis using desk_move.settles [OF desk_move.stay] by metis
qed

lemma pi_effect_ready: "pi_effect op s s' \<Longrightarrow> pi_ready s \<Longrightarrow> pi_ready s'"
  by (auto simp: pi_effect_def pi_same_def pi_ready_def no_pending_take)

lemma pi_command_ready:
  assumes "pi_ready s"
  shows "desk_move L R (pi_desk s) (pi_desk (snd (sendCommand type ps tmo s))) \<and> pi_ready (snd (sendCommand type ps tmo s))"
proof -
  have "command_id s \<notin> set (issued (pi_desk s))" using assms by (auto simp: pi_ready_def command_id_def)
  moreover have "(\<lambda>n. idPrefix s @ show_int n) ` {n. n < pi_nextId s + 1} =
      insert (command_id s) ((\<lambda>n. idPrefix s @ show_int n) ` {n. n < pi_nextId s})"
    by (auto simp: command_id_def)
  ultimately show ?thesis
    using assms by (auto simp: sendCommand_def Let_def pi_ready_def intro!: desk_move.opens intro: desk_move.stay)
qed

lemma pi_step_moves:
  assumes "pi_ready s" and "desk_inv L R (pi_desk s)"
  shows "desk_move {} (pi_answers op) (pi_desk s) (pi_desk (pi_step env op s)) \<and> pi_ready (pi_step env op s)"
proof (cases op)
  case (PiMessage raw)
  have "pi_effect op s (pi_step env op s)"
    using pi_frame_effect [of raw s env] PiMessage by (auto simp: pi_consume_def pi_same_def intro!: pi_effect_same)
  then show ?thesis using pi_effect_move pi_effect_ready assms(1) by blast
next
  case (CommandTimer i)
  then show ?thesis using assms timer_fires_move [OF assms(2)] by (auto simp: pi_ready_def)
next
  case (CommandSendRejected i cause)
  then show ?thesis using assms send_rejected_move by (auto simp: pi_ready_def intro: desk_move.stay)
next
  case (PiStreamErrors cause)
  then show ?thesis using assms fail_all_move [OF assms(2)]
    by (auto simp: pi_consume_errored_def Let_def pi_ready_def pi_fire_def intro: desk_move.stay)
next
  case PiClose
  then show ?thesis using assms fail_all_move [OF assms(2)]
    by (auto simp: pi_close_def pi_ready_def intro: desk_move.stay)
qed (use assms pi_command_ready [OF assms(1)] in \<open>auto simp: onEvent_def offEvent_def pi_onProtocolError_def
    pi_offProtocolError_def onReady_def offReady_def pi_ready_def intro: desk_move.stay\<close>)

interpretation pi_client: rpc_client "pi_step env" pi_desk "\<lambda>_. {}" pi_answers pi_ready
  using pi_step_moves by unfold_locales blast+

lemma pi_create: "pi_ready (createPiRpcClient tmo seed prefix)" "pi_desk (createPiRpcClient tmo seed prefix) = empty_desk"
  by (simp_all add: createPiRpcClient_def pi_ready_def empty_desk_def)

definition successes_received :: "pi_op list \<Rightarrow> (string \<times> js_value) set" where
  "successes_received ops = \<Union> (pi_answers ` set ops)"

text \<open>Over every run of the Pi client each promise handed out is either settled exactly once or still pending with
  its timer armed, never both and never neither; it is resolved only with the data of a response that carries its
  id and reports success; and once the client is closed every promise is settled.\<close>

theorem pi_commands_settle:
  "let s = fold (pi_step env) ops (createPiRpcClient tmo seed prefix); d = pi_desk s
   in distinct (map fst (settled d)) \<and> pending_ids d \<inter> settled_ids d = {} \<and> map fst (timers d) = map fst (pending d) \<and>
      set (issued d) = pending_ids d \<union> settled_ids d \<and>
      {(i, v). (i, Resolved v) \<in> set (settled d)} \<subseteq> successes_received ops \<and>
      (if pi_closed s then set (issued d) = settled_ids d else True)"
proof -
  let ?s = "fold (pi_step env) ops (createPiRpcClient tmo seed prefix)"
  note run = pi_client.run_from_empty [OF pi_create [of tmo seed prefix], where env = env and ops = ops]
  have inv: "desk_inv {} (successes_received ops) (pi_desk ?s)" using run(1) by (simp add: successes_received_def)
  then have res: "{(i, v). (i, Resolved v) \<in> set (settled (pi_desk ?s))} \<subseteq> successes_received ops"
    by (auto simp: desk_inv_def allowed_outcome_def split: rpc_outcome.splits)
  have iss: "set (issued (pi_desk ?s)) = pending_ids (pi_desk ?s) \<union> settled_ids (pi_desk ?s)"
    using inv by (auto simp: desk_inv_def)
  show ?thesis using inv run(2) res iss by (simp add: desk_inv_def pi_ready_def Let_def)
qed

end
