(* ===== verification/Review_Prompts.thy ===== *)
theory Review_Prompts
  imports Rpc_Desk
begin

text \<open>
  What the plan-execute-review flow says to its agents and reads back
  (\<^verbatim>\<open>packages/flows/plan-execute-review/src\<close>: \<^verbatim>\<open>schemas.ts\<close>, \<^verbatim>\<open>prompts.ts\<close> and the block parser of \<^verbatim>\<open>runners.ts\<close>).
  A schema is the function that maps a JSON value to the validated data, which drops unknown properties;
  the last fenced block of a reply is found the way the regular expression finds it.
\<close>

section \<open>Schemas\<close>

record PlanStep =
  step_id :: string
  description :: string
  filesTouched :: "string list"

record PlannerOutput =
  goal :: string
  steps :: "PlanStep list"
  assumptions :: "string list"

record ExecutorOutput =
  summary :: string
  diff_added :: int
  diff_removed :: int
  diff_files :: "string list"
  exec_notes :: string

datatype verdict_kind = Approve | Revise | RequiresCiRerun

record ReviewerModelOutput =
  model_verdict :: verdict_kind
  model_feedback :: string
  model_concerns :: "string list"

definition z_string :: "js_value \<Rightarrow> string option" where
  "z_string v = (case v of JStr s \<Rightarrow> Some s | _ \<Rightarrow> None)"

definition z_min1 :: "js_value \<Rightarrow> string option" where
  "z_min1 v = (case v of JStr s \<Rightarrow> if s = [] then None else Some s | _ \<Rightarrow> None)"

definition z_nonnegative :: "js_value \<Rightarrow> int option" where
  "z_nonnegative v = (case v of JNum n \<Rightarrow> if n < 0 then None else Some n | _ \<Rightarrow> None)"

fun all_some :: "'a option list \<Rightarrow> 'a list option" where
  "all_some [] = Some []"
| "all_some (x # xs) = (case x of None \<Rightarrow> None | Some a \<Rightarrow> map_option ((#) a) (all_some xs))"

definition z_array :: "(js_value \<Rightarrow> 'a option) \<Rightarrow> js_value \<Rightarrow> 'a list option" where
  "z_array item v = (case v of JArr vs \<Rightarrow> all_some (map item vs) | _ \<Rightarrow> None)"

definition z_object :: "(js_record \<Rightarrow> 'a option) \<Rightarrow> js_value \<Rightarrow> 'a option" where
  "z_object f v = (case v of JObj kvs \<Rightarrow> f kvs | _ \<Rightarrow> None)"

definition PlanStepSchema :: "js_value \<Rightarrow> PlanStep option" where
  "PlanStepSchema = z_object (\<lambda>kvs.
     case (z_min1 (field ''id'' kvs), z_min1 (field ''description'' kvs), z_array z_string (field ''filesTouched'' kvs)) of
       (Some i, Some d, Some fs) \<Rightarrow> Some \<lparr>step_id = i, description = d, filesTouched = fs\<rparr>
     | _ \<Rightarrow> None)"

definition PlannerOutputSchema :: "js_value \<Rightarrow> PlannerOutput option" where
  "PlannerOutputSchema = z_object (\<lambda>kvs.
     case (z_min1 (field ''goal'' kvs), z_array PlanStepSchema (field ''steps'' kvs), z_array z_string (field ''assumptions'' kvs)) of
       (Some g, Some st, Some xs) \<Rightarrow> Some \<lparr>goal = g, steps = st, assumptions = xs\<rparr>
     | _ \<Rightarrow> None)"

definition DiffStatsSchema :: "js_value \<Rightarrow> (int \<times> int \<times> string list) option" where
  "DiffStatsSchema = z_object (\<lambda>kvs.
     case (z_nonnegative (field ''added'' kvs), z_nonnegative (field ''removed'' kvs), z_array z_string (field ''files'' kvs)) of
       (Some a, Some r, Some fs) \<Rightarrow> Some (a, r, fs)
     | _ \<Rightarrow> None)"

definition ExecutorOutputSchema :: "js_value \<Rightarrow> ExecutorOutput option" where
  "ExecutorOutputSchema = z_object (\<lambda>kvs.
     case (z_min1 (field ''summary'' kvs), DiffStatsSchema (field ''diffStats'' kvs), z_string (field ''notes'' kvs)) of
       (Some s, Some (a, r, fs), Some n) \<Rightarrow>
         Some \<lparr>summary = s, diff_added = a, diff_removed = r, diff_files = fs, exec_notes = n\<rparr>
     | _ \<Rightarrow> None)"

definition z_verdict :: "js_value \<Rightarrow> verdict_kind option" where
  "z_verdict v =
     (if v = JStr ''approve'' then Some Approve else if v = JStr ''revise'' then Some Revise
      else if v = JStr ''requires_ci_rerun'' then Some RequiresCiRerun else None)"

definition ReviewerModelOutputSchema :: "js_value \<Rightarrow> ReviewerModelOutput option" where
  "ReviewerModelOutputSchema = z_object (\<lambda>kvs.
     case (z_verdict (field ''verdict'' kvs), z_string (field ''feedback'' kvs), z_array z_string (field ''concerns'' kvs)) of
       (Some v, Some f, Some cs) \<Rightarrow> Some \<lparr>model_verdict = v, model_feedback = f, model_concerns = cs\<rparr>
     | _ \<Rightarrow> None)"

record CINodeOutput =
  cio_kind :: string
  cio_runId :: string
  cio_summary :: js_record
  cio_excerpt :: "string option"

definition z_nullable_string :: "js_value \<Rightarrow> string option option" where
  "z_nullable_string v = (case v of JStr s \<Rightarrow> Some (Some s) | JNull \<Rightarrow> Some None | _ \<Rightarrow> None)"

text \<open>The summary passes through, once its run id and its status are checked.\<close>

definition CISummarySchema :: "js_value \<Rightarrow> js_record option" where
  "CISummarySchema = z_object (\<lambda>kvs.
     if z_string (field ''runId'' kvs) \<noteq> None \<and> field ''status'' kvs \<in> {JStr ''green'', JStr ''red'', JStr ''unknown''}
     then Some kvs else None)"

definition CINodeOutputSchema :: "js_value \<Rightarrow> CINodeOutput option" where
  "CINodeOutputSchema = z_object (\<lambda>kvs.
     case (field ''kind'' kvs, z_string (field ''runId'' kvs), CISummarySchema (field ''summary'' kvs),
       z_nullable_string (field ''reviewerExcerpt'' kvs)) of
       (JStr k, Some r, Some s, Some x) \<Rightarrow>
         if k \<in> {''CIRed'', ''PatchReady''} then Some \<lparr>cio_kind = k, cio_runId = r, cio_summary = s, cio_excerpt = x\<rparr> else None
     | _ \<Rightarrow> None)"

definition ci_is_red :: "CINodeOutput option \<Rightarrow> bool" where
  "ci_is_red ci = (case ci of None \<Rightarrow> False | Some c \<Rightarrow> field ''status'' (cio_summary c) = JStr ''red'')"

section \<open>JSON with an indentation of two\<close>

text \<open>Only strings, numbers, arrays and objects occur in plans and reports.\<close>

function pretty :: "string \<Rightarrow> js_value \<Rightarrow> string" where
  "pretty ind (JStr s) = json_quote s"
| "pretty ind (JNum n) = show_int n"
| "pretty ind (JArr vs) =
     (if vs = [] then ''[]''
      else ''['' @ [CHR 0x0A] @ join_with ('','' @ [CHR 0x0A]) (map (\<lambda>v. ind @ ''  '' @ pretty (ind @ ''  '') v) vs) @
        [CHR 0x0A] @ ind @ '']'')"
| "pretty ind (JObj kvs) =
     (if kvs = [] then ''{}''
      else ''{'' @ [CHR 0x0A] @ join_with ('','' @ [CHR 0x0A])
          (map (\<lambda>kv. ind @ ''  '' @ json_quote (fst kv) @ '': '' @ pretty (ind @ ''  '') (snd kv)) kvs) @
        [CHR 0x0A] @ ind @ ''}'')"
| "pretty ind JNull = ''null''"
| "pretty ind (JBool b) = (if b then ''true'' else ''false'')"
| "pretty ind JUndefined = []"
| "pretty ind JFunction = []"
| "pretty ind JSymbol = []"
| "pretty ind JBigInt = []"
| "pretty ind JDate = []"
| "pretty ind JMapSet = []"
  by pat_completeness auto
termination
  by (relation "measure (\<lambda>(_, v). size v)") (auto dest: jsval_size_arr jsval_size_obj simp del: jsval.size)

definition strings_value :: "string list \<Rightarrow> js_value" where
  "strings_value xs = JArr (map JStr xs)"

definition plan_step_value :: "PlanStep \<Rightarrow> js_value" where
  "plan_step_value s = JObj [(''id'', JStr (step_id s)), (''description'', JStr (description s)),
     (''filesTouched'', strings_value (filesTouched s))]"

definition plan_value :: "PlannerOutput \<Rightarrow> js_value" where
  "plan_value p = JObj [(''goal'', JStr (goal p)), (''steps'', JArr (map plan_step_value (steps p))),
     (''assumptions'', strings_value (assumptions p))]"

definition execution_value :: "ExecutorOutput \<Rightarrow> js_value" where
  "execution_value e = JObj [(''summary'', JStr (summary e)),
     (''diffStats'', JObj [(''added'', JNum (diff_added e)), (''removed'', JNum (diff_removed e)), (''files'', strings_value (diff_files e))]),
     (''notes'', JStr (exec_notes e))]"

section \<open>Prompts\<close>

definition lines_text :: "string list \<Rightarrow> string" where
  "lines_text = join_with [CHR 0x0A]"

definition planner_system :: string where
  "planner_system = lines_text
     [''You are the PLANNER in a plan-execute-review coding flow.'',
      ''Your job is to produce a short, ordered, executable plan for an executor agent.'',
      ''Do not write code yourself; do not modify files; do not call tools.'',
      ''End your reply with a fenced ```json``` block matching exactly this shape:'',
      ''{'',
      ''  \"goal\": string,'',
      ''  \"steps\": Array<{ \"id\": string, \"description\": string, \"filesTouched\": string[] }>,'',
      ''  \"assumptions\": string[]'',
      ''}'',
      ''The `steps` array must be non-empty. Each `id` must be unique within the plan.'']"

definition buildPlannerPrompt :: "string \<Rightarrow> string \<Rightarrow> string \<times> string" where
  "buildPlannerPrompt task repoContext =
     (planner_system,
      lines_text [''Task:'', task, [], ''Repository context:'', repoContext, [],
        ''Produce the plan. Remember: fenced ```json``` block at the end.''])"

definition executor_system :: string where
  "executor_system = lines_text
     [''You are the EXECUTOR in a plan-execute-review coding flow.'',
      ''Follow the planner'' @ [CHR 0x27] @ ''s steps in order. You may edit files in your worktree.'',
      ''Stay within the `filesTouched` set where possible; if you must expand scope,'',
      ''note it explicitly in your final `notes` field.'',
      ''End your reply with a fenced ```json``` block matching exactly this shape:'',
      ''{'',
      ''  \"summary\": string,'',
      ''  \"diffStats\": { \"added\": number, \"removed\": number, \"files\": string[] },'',
      ''  \"notes\": string'',
      ''}'']"

definition section_of :: "string \<Rightarrow> string option \<Rightarrow> string list" where
  "section_of title body = (case body of None \<Rightarrow> [] | Some t \<Rightarrow> if t = [] then [] else [[], title, t])"

definition buildExecutorPrompt :: "string \<Rightarrow> PlannerOutput \<Rightarrow> string option \<Rightarrow> string option \<Rightarrow> string \<times> string" where
  "buildExecutorPrompt task plan reviewerFeedback priorNotes =
     (executor_system,
      lines_text ([''Task:'', task, [], ''Plan:'', pretty [] (plan_value plan)] @
        section_of ''Reviewer feedback from the previous iteration (address it):'' reviewerFeedback @
        section_of ''Your own notes from the previous iteration:'' priorNotes @
        [[], ''Execute the plan. Remember: fenced ```json``` block at the end.'']))"

definition reviewer_system :: string where
  "reviewer_system = lines_text
     [''You are the REVIEWER in a plan-execute-review coding flow.'',
      ''Decide whether the executor'' @ [CHR 0x27] @ ''s work fulfills the plan and the original task.'',
      ''A `revise` verdict sends the executor back for another iteration; reserve it'',
      ''for concrete, fixable issues (incorrect logic, missing step, obvious defect).'',
      ''A `requires_ci_rerun` verdict is for when the CI failure looks like an'',
      ''infrastructure flake (network hiccup, transient container boot failure) and'',
      ''a clean CI rerun is warranted -- NOT for logic fixes. If the failure points'',
      ''at the executor'' @ [CHR 0x27] @ ''s code, use `revise` instead.'',
      ''Do not invent scope beyond the plan.'',
      ''If the CI result section below reports `status: red`, you MUST NOT emit'',
      ''`approve`; valid verdicts are `revise` (fixable code) or `requires_ci_rerun`'',
      ''(suspected flake). An `approve` against red CI will be overridden.'',
      ''If the CI result reports `status: green`, proceed normally; green CI alone'',
      ''does not force approve -- still judge scope and plan adherence.'',
      ''If the CI section is absent, proceed as you would without a CI signal.'',
      ''End your reply with a fenced ```json``` block matching exactly this shape:'',
      ''{'',
      ''  \"verdict\": \"approve\" | \"revise\" | \"requires_ci_rerun\",'',
      ''  \"feedback\": string,'',
      ''  \"concerns\": string[]'',
      ''}'']"

definition status_text :: "CINodeOutput \<Rightarrow> string" where
  "status_text c = (case field ''status'' (cio_summary c) of JStr s \<Rightarrow> s | _ \<Rightarrow> ''undefined'')"

definition ci_section :: "CINodeOutput option \<Rightarrow> string list" where
  "ci_section ci =
     (case ci of
        None \<Rightarrow> []
      | Some c \<Rightarrow> [[], ''CI result:'', ''status: '' @ status_text c, ''excerpt:'',
          (case cio_excerpt c of None \<Rightarrow> ''(no excerpt available)'' | Some x \<Rightarrow> x)])"

definition buildReviewerPrompt :: "string \<Rightarrow> PlannerOutput \<Rightarrow> ExecutorOutput \<Rightarrow> CINodeOutput option \<Rightarrow> string \<times> string" where
  "buildReviewerPrompt task plan execution ci =
     (reviewer_system,
      lines_text ([''Task:'', task, [], ''Plan the executor followed:'', pretty [] (plan_value plan), [],
        ''Executor'' @ [CHR 0x27] @ ''s report:'', pretty [] (execution_value execution)] @ ci_section ci @
        [[], ''Render a verdict. Remember: fenced ```json``` block at the end.'']))"

section \<open>The last fenced block\<close>

definition fence :: string where
  "fence = [CHR 0x60, CHR 0x60, CHR 0x60]"

fun find_sub :: "string \<Rightarrow> string \<Rightarrow> nat option" where
  "find_sub p [] = (if p = [] then Some 0 else None)"
| "find_sub p (c # cs) = (if starts_with p (c # cs) then Some 0 else map_option Suc (find_sub p cs))"

text \<open>One match at the head of the text: white space is taken greedily up to its last line feed, and gives
  line feeds back as long as no closing fence follows; the body ends at the first closing fence. The result
  is the body and the text behind the match.\<close>

definition match_block :: "string \<Rightarrow> (string \<times> string) option" where
  "match_block text =
     (let opening = fence @ ''json''
      in if \<not> starts_with opening text then None
         else
           let rest = drop (length opening) text;
               white = takeWhile js_space rest
           in first_match
                (\<lambda>i. let region = drop (Suc i) rest
                     in map_option (\<lambda>q. (take q region, drop (q + 4) region)) (find_sub (CHR 0x0A # fence) region))
                (filter (\<lambda>i. white ! i = CHR 0x0A) (rev [0..<length white])))"

lemma match_block_shorter:
  assumes "match_block text = Some (body, rest)"
  shows "length rest < length text"
proof -
  have "text \<noteq> []" using assms by (auto simp: match_block_def Let_def starts_with_def fence_def split: if_splits)
  moreover from assms obtain n where "rest = drop n text" and "0 < n"
    by (auto simp: match_block_def Let_def starts_with_def split: if_splits dest!: first_match_Some)
  ultimately show ?thesis by (cases "text") auto
qed

function json_blocks :: "string \<Rightarrow> string list" where
  "json_blocks text =
     (case match_block text of
        Some (body, rest) \<Rightarrow> body # json_blocks rest
      | None \<Rightarrow> (case text of [] \<Rightarrow> [] | c # cs \<Rightarrow> json_blocks cs))"
  by pat_completeness auto
termination
  by (relation "measure length") (auto dest: match_block_shorter)

declare json_blocks.simps [simp del]

definition parseLastJsonBlock ::
  "(string \<Rightarrow> string + js_value) \<Rightarrow> string \<Rightarrow> (js_value \<Rightarrow> 'a option) \<Rightarrow> string + 'a" where
  "parseLastJsonBlock parse text schema =
     (let blocks = json_blocks text
      in if blocks = [] then Inl (''runner: no fenced `json` block found in model output'')
         else (case parse (last blocks) of
                 Inl cause \<Rightarrow> Inl (''runner: fenced `json` block is not valid JSON: '' @ cause)
               | Inr v \<Rightarrow>
                   (case schema v of
                      None \<Rightarrow> Inl ''runner: schema violation on fenced json block''
                    | Some a \<Rightarrow> Inr a)))"

section \<open>Validated data validates again\<close>

lemma all_some_Some: "all_some xs = Some ys \<longleftrightarrow> xs = map Some ys"
  by (induction xs arbitrary: ys) (auto split: option.splits)

lemma all_some_strings: "all_some (map (z_string \<circ> JStr) xs) = Some xs"
  by (simp add: all_some_Some z_string_def)

lemma z_strings [simp]: "z_array z_string (strings_value xs) = Some xs"
  by (simp add: z_array_def strings_value_def all_some_strings)

lemma z_min1_Some: "z_min1 v = Some s \<longleftrightarrow> v = JStr s \<and> s \<noteq> []"
  by (auto simp: z_min1_def split: jsval.splits)

lemma z_nonnegative_Some: "z_nonnegative v = Some n \<longleftrightarrow> v = JNum n \<and> 0 \<le> n"
  by (auto simp: z_nonnegative_def split: jsval.splits)

lemma PlanStepSchema_stable: "PlanStepSchema v = Some s \<Longrightarrow> PlanStepSchema (plan_step_value s) = Some s"
  by (auto simp: PlanStepSchema_def z_object_def plan_step_value_def field_def z_min1_Some z_min1_def
      split: jsval.splits option.splits if_splits)

lemma z_array_stable:
  assumes "z_array item v = Some xs" and "\<And>w x. item w = Some x \<Longrightarrow> item (conv x) = Some x"
  shows "z_array item (JArr (map conv xs)) = Some xs"
proof -
  from assms(1) obtain vs where "map item vs = map Some xs"
    by (auto simp: z_array_def all_some_Some split: jsval.splits)
  then have "\<forall>x \<in> set xs. item (conv x) = Some x"
    using assms(2) by (metis (no_types, lifting) image_eqI image_set list.set_map imageE)
  then show ?thesis by (simp add: z_array_def all_some_Some)
qed

lemma PlannerOutputSchema_stable:
  assumes "PlannerOutputSchema v = Some p"
  shows "PlannerOutputSchema (plan_value p) = Some p"
proof -
  from assms obtain kvs where g: "z_min1 (field ''goal'' kvs) = Some (goal p)"
    and s: "z_array PlanStepSchema (field ''steps'' kvs) = Some (steps p)"
    and a: "z_array z_string (field ''assumptions'' kvs) = Some (assumptions p)"
    by (auto simp: PlannerOutputSchema_def z_object_def split: jsval.splits option.splits)
  have "z_array PlanStepSchema (JArr (map plan_step_value (steps p))) = Some (steps p)"
    by (rule z_array_stable [OF s]) (rule PlanStepSchema_stable)
  moreover have "goal p \<noteq> []" using g by (simp add: z_min1_Some)
  ultimately show ?thesis by (simp add: PlannerOutputSchema_def z_object_def plan_value_def field_def z_min1_def)
qed

lemma ExecutorOutputSchema_stable:
  assumes "ExecutorOutputSchema v = Some e"
  shows "ExecutorOutputSchema (execution_value e) = Some e"
proof -
  from assms obtain kvs where "z_min1 (field ''summary'' kvs) = Some (summary e)"
    and d: "DiffStatsSchema (field ''diffStats'' kvs) = Some (diff_added e, diff_removed e, diff_files e)"
    by (auto simp: ExecutorOutputSchema_def z_object_def split: jsval.splits option.splits)
  then have s: "summary e \<noteq> []" by (simp add: z_min1_Some)
  from d have "0 \<le> diff_added e" "0 \<le> diff_removed e"
    by (auto simp: DiffStatsSchema_def z_object_def z_nonnegative_Some split: jsval.splits option.splits)
  with s show ?thesis
    by (simp add: ExecutorOutputSchema_def DiffStatsSchema_def z_object_def execution_value_def field_def z_min1_def
        z_nonnegative_def z_string_def)
qed

end
