(* ===== verification/Review_Flow.thy ===== *)
theory Review_Flow
  imports Review_Prompts Flow_Resume
begin

text \<open>
  The plan-execute-review flow (\<^verbatim>\<open>packages/flows/plan-execute-review/src\<close>: \<^verbatim>\<open>flow.ts\<close>, \<^verbatim>\<open>config.ts\<close>, \<^verbatim>\<open>runners.ts\<close>), the
  flow the orchestrator runs. Agents and the CI gate are services: what the \<open>n\<close>-th session of a role does
  (whether it spawns, whether it takes the turn, which events it streams and whether the abort signal is set
  when each arrives) and what the \<open>n\<close>-th run of the gate gives are functions of \<open>n\<close>. The state counts sessions,
  handles and gate runs, holds the iteration counters of the registry and logs the turns sent. Paths, models and
  environment variables of a session are left out.
\<close>

section \<open>The flow\<close>

definition DEFAULT_MAX_ITERATIONS :: nat where
  "DEFAULT_MAX_ITERATIONS = 5"

definition planNode :: FlowNode where
  "planNode = AgentStep ''plan'' ''planner'' ''planner'' [] [] (Some 1)"

definition executeNode :: FlowNode where
  "executeNode = AgentStep ''execute'' ''executor'' ''executor'' [] [''plan''] (Some 2)"

definition ciNode :: FlowNode where
  "ciNode = AgentStep ''ci'' ''ci'' ''ci'' [] [''execute''] (Some 0)"

definition reviewNode :: FlowNode where
  "reviewNode = AgentStep ''review'' ''reviewer'' ''reviewer'' [] [''ci''] (Some 1)"

definition loopNode :: FlowNode where
  "loopNode = Loop ''loop'' [''execute'', ''ci'', ''review''] ''loop-predicate'' DEFAULT_MAX_ITERATIONS [''review'']"

definition flowDefinition :: FlowDefinition where
  "flowDefinition = \<lparr>def_id = ''plan-execute-review'', def_version = 2,
     def_nodes = [planNode, executeNode, ciNode, reviewNode, loopNode], def_entry = ''plan''\<rparr>"

section \<open>Services and state\<close>

datatype agent_role = Planner | Executor | Reviewer

datatype agent_event =
    AssistantMessage string
  | CostEvent "rat option" NodeCostConfidence
  | PatchApplied
  | TurnEnd
  | SessionEnd
  | ErrorEvent bool string
  | OtherEvent

record session =
  spawn_error :: "string option"
  send_error :: "string option"
  stream :: "(bool \<times> agent_event) list"
  stream_error :: "string option"

datatype CIDomainEvent = CIRed string js_record string | PatchReady string js_record

record GateResult =
  exitCode :: int
  gate_stdout :: string
  gate_stderr :: string
  runDir :: "string option"
  gate_summary :: "js_record option"
  domainEvent :: "CIDomainEvent option"

datatype gate_outcome = GateThrows bool string | GateRan GateResult

record services =
  session_of :: "agent_role \<Rightarrow> nat \<Rightarrow> session"
  gate_of :: "nat \<Rightarrow> gate_outcome"
  json_parse :: "string \<Rightarrow> string + js_value"

record desk_state =
  sessions :: "agent_role \<Rightarrow> nat"
  handles :: nat
  shutdowns :: nat
  gate_runs :: nat
  iterationCounters :: "(string \<times> nat) list"
  turns :: "(agent_role \<times> string) list"

section \<open>One turn of an agent\<close>

record CollectedTurn =
  finalText :: string
  costEvents :: "(rat option \<times> NodeCostConfidence) list"

text \<open>Drain the events until the turn ends; a stream that fails after its events throws.\<close>

fun drain_events :: "(bool \<times> agent_event) list \<Rightarrow> string option \<Rightarrow> CollectedTurn \<Rightarrow> string + CollectedTurn" where
  "drain_events [] err c = (case err of None \<Rightarrow> Inr c | Some e \<Rightarrow> Inl e)"
| "drain_events ((aborted, ev) # evs) err c =
     (if aborted then Inr c
      else case ev of
        AssistantMessage t \<Rightarrow> drain_events evs err (c\<lparr>finalText := t\<rparr>)
      | CostEvent amount conf \<Rightarrow> drain_events evs err (c\<lparr>costEvents := costEvents c @ [(amount, conf)]\<rparr>)
      | PatchApplied \<Rightarrow> drain_events evs err c
      | TurnEnd \<Rightarrow> Inr c
      | SessionEnd \<Rightarrow> Inr c
      | ErrorEvent fatal msg \<Rightarrow> if fatal then Inl (''adapter error: '' @ msg) else drain_events evs err c
      | OtherEvent \<Rightarrow> drain_events evs err c)"

definition runSingleTurn ::
  "services \<Rightarrow> agent_role \<Rightarrow> string \<times> string \<Rightarrow> desk_state \<Rightarrow> (string + CollectedTurn) \<times> desk_state" where
  "runSingleTurn env r pr d =
     (let s = session_of env r (sessions d r);
          d1 = d\<lparr>sessions := (sessions d)(r := Suc (sessions d r))\<rparr>
      in case spawn_error s of
           Some e \<Rightarrow> (Inl e, d1)
         | None \<Rightarrow>
             let d2 = d1\<lparr>handles := Suc (handles d1), turns := turns d1 @ [(r, fst pr @ [CHR 0x0A, CHR 0x0A] @ snd pr)]\<rparr>;
                 res = (case send_error s of
                          Some e \<Rightarrow> Inl e
                        | None \<Rightarrow> drain_events (stream s) (stream_error s) \<lparr>finalText = [], costEvents = []\<rparr>);
                 d3 = d2\<lparr>shutdowns := Suc (shutdowns d2)\<rparr>
             in (bind_result res (\<lambda>c. if finalText c = [] then Inl ''adapter produced no final assistant_message'' else Inr c), d3))"

definition okOutput :: "js_value \<Rightarrow> rat option \<Rightarrow> NodeCostConfidence \<Rightarrow> string \<Rightarrow> NodeOutput" where
  "okOutput v amount conf src =
     \<lparr>ok = True, out_value = v, costUsd = amount, costConfidence = conf, costSource = src, out_error = None\<rparr>"

definition summarizeCost :: "(rat option \<times> NodeCostConfidence) list \<Rightarrow> rat option \<times> NodeCostConfidence" where
  "summarizeCost evs =
     (let known = List.map_filter fst evs;
          sawExact = list_ex (\<lambda>e. snd e = Exact) evs;
          sawEstimate = list_ex (\<lambda>e. snd e = Estimate) evs
      in (if known = [] then None else Some (sum_list known),
          if sawExact \<and> \<not> sawEstimate then Exact else if sawEstimate then Estimate else Unknown))"

section \<open>Reading the context\<close>

definition initial_string :: "RunnerContext \<Rightarrow> string \<Rightarrow> string + string" where
  "initial_string ctx key =
     (case field ''initial'' (ctx_inputs ctx) of
        JObj kvs \<Rightarrow>
          (case field key kvs of
             JStr s \<Rightarrow> if s = [] then Inl (''runner: initial input '' @ key @ '' must be a non-empty string'') else Inr s
           | _ \<Rightarrow> Inl (''runner: initial input '' @ key @ '' must be a non-empty string''))
      | JArr _ \<Rightarrow> Inl (''runner: initial input '' @ key @ '' must be a non-empty string'')
      | _ \<Rightarrow> Inl ''runner: RunnerContext.inputs.initial is missing'')"

definition prior_value :: "RunnerContext \<Rightarrow> string \<Rightarrow> js_value option" where
  "prior_value ctx node =
     (case ctx_priorOutputs ctx node of None \<Rightarrow> None | Some out \<Rightarrow> if ok out then Some (out_value out) else None)"

definition extractPriorPlannerOutput :: "RunnerContext \<Rightarrow> string + PlannerOutput" where
  "extractPriorPlannerOutput ctx =
     (case prior_value ctx ''plan'' of
        None \<Rightarrow> Inl ''runner: missing successful plan output in priorOutputs''
      | Some v \<Rightarrow> (case PlannerOutputSchema v of
                       None \<Rightarrow> Inl ''runner: prior plan output fails PlannerOutputSchema''
                     | Some p \<Rightarrow> Inr p))"

definition extractPriorExecutorOutput :: "RunnerContext \<Rightarrow> string + ExecutorOutput" where
  "extractPriorExecutorOutput ctx =
     (case prior_value ctx ''execute'' of
        None \<Rightarrow> Inl ''runner: missing successful execute output in priorOutputs''
      | Some v \<Rightarrow> (case ExecutorOutputSchema v of
                       None \<Rightarrow> Inl ''runner: prior execute output fails ExecutorOutputSchema''
                     | Some e \<Rightarrow> Inr e))"

definition extractPriorCiOutput :: "RunnerContext \<Rightarrow> CINodeOutput option" where
  "extractPriorCiOutput ctx = Option.bind (prior_value ctx ''ci'') CINodeOutputSchema"

section \<open>Planner, executor and CI\<close>

definition runPlanner :: "services \<Rightarrow> RunnerContext \<Rightarrow> desk_state \<Rightarrow> (string + NodeOutput) \<times> desk_state" where
  "runPlanner env ctx d =
     (case bind_result (initial_string ctx ''task'') (\<lambda>task. map_result (Pair task) (initial_string ctx ''repoContext'')) of
        Inl e \<Rightarrow> (Inl e, d)
      | Inr (task, repoContext) \<Rightarrow>
          (case runSingleTurn env Planner (buildPlannerPrompt task repoContext) d of
             (res, d1) \<Rightarrow>
               (bind_result res (\<lambda>c.
                  map_result (\<lambda>p. okOutput (plan_value p) None Unknown ''codex-subscription'')
                    (parseLastJsonBlock (json_parse env) (finalText c) PlannerOutputSchema)), d1)))"

definition invokeExecutor ::
  "services \<Rightarrow> string \<Rightarrow> PlannerOutput \<Rightarrow> string option \<Rightarrow> string option \<Rightarrow> desk_state \<Rightarrow>
     (string + NodeOutput \<times> ExecutorOutput) \<times> desk_state" where
  "invokeExecutor env task plan feedback priorNotes d =
     (case runSingleTurn env Executor (buildExecutorPrompt task plan feedback priorNotes) d of
        (res, d1) \<Rightarrow>
          (bind_result res (\<lambda>c.
             map_result (\<lambda>e. case summarizeCost (costEvents c) of
                 (spent, conf) \<Rightarrow> (okOutput (execution_value e) spent conf ''vendor'', e))
               (parseLastJsonBlock (json_parse env) (finalText c) ExecutorOutputSchema)), d1))"

definition runExecutor :: "services \<Rightarrow> RunnerContext \<Rightarrow> desk_state \<Rightarrow> (string + NodeOutput) \<times> desk_state" where
  "runExecutor env ctx d =
     (case bind_result (initial_string ctx ''task'') (\<lambda>task. map_result (Pair task) (extractPriorPlannerOutput ctx)) of
        Inl e \<Rightarrow> (Inl e, d)
      | Inr (task, plan) \<Rightarrow>
          (case invokeExecutor env task plan None None d of (res, d1) \<Rightarrow> (map_result fst res, d1)))"

definition ci_value :: "CINodeOutput \<Rightarrow> js_value" where
  "ci_value c = JObj [(''kind'', JStr (cio_kind c)), (''runId'', JStr (cio_runId c)), (''summary'', JObj (cio_summary c)),
     (''reviewerExcerpt'', case cio_excerpt c of None \<Rightarrow> JNull | Some x \<Rightarrow> JStr x)]"

definition ci_failed :: "string \<Rightarrow> bool \<Rightarrow> NodeOutput" where
  "ci_failed msg retry =
     \<lparr>ok = False, out_value = JNull, costUsd = None, costConfidence = Unknown, costSource = ''ci-gate'',
      out_error = Some \<lparr>err_message = msg, retriable = retry\<rparr>\<rparr>"

definition invokeCiGate :: "services \<Rightarrow> desk_state \<Rightarrow> (NodeOutput \<times> CINodeOutput option) \<times> desk_state" where
  "invokeCiGate env d =
     (let d1 = d\<lparr>gate_runs := Suc (gate_runs d)\<rparr>
      in case gate_of env (gate_runs d) of
           GateThrows boot msg \<Rightarrow> ((ci_failed (''ci gate boot failed: '' @ msg) (\<not> boot), None), d1)
         | GateRan g \<Rightarrow>
             (case (domainEvent g, gate_summary g) of
                (Some ev, Some _) \<Rightarrow>
                  let c = (case ev of
                             CIRed rid s x \<Rightarrow> \<lparr>cio_kind = ''CIRed'', cio_runId = rid, cio_summary = s, cio_excerpt = Some x\<rparr>
                           | PatchReady rid s \<Rightarrow> \<lparr>cio_kind = ''PatchReady'', cio_runId = rid, cio_summary = s, cio_excerpt = None\<rparr>)
                  in ((okOutput (ci_value c) None Unknown ''ci-gate'', Some c), d1)
              | _ \<Rightarrow>
                  ((ci_failed (''ci gate produced no summary (exitCode='' @ show_int (exitCode g) @ '', runDir='' @
                      (case runDir g of None \<Rightarrow> ''null'' | Some x \<Rightarrow> x) @ '')'') True, None), d1)))"

definition runCi :: "services \<Rightarrow> desk_state \<Rightarrow> (string + NodeOutput) \<times> desk_state" where
  "runCi env d = (case invokeCiGate env d of ((out, _), d1) \<Rightarrow> (Inr out, d1))"

section \<open>The reviewer\<close>

record ReviewerVerdict =
  verdict :: verdict_kind
  feedback :: string
  concerns :: "string list"
  iterationsUsed :: nat

fun verdict_text :: "verdict_kind \<Rightarrow> string" where
  "verdict_text Approve = ''approve''"
| "verdict_text Revise = ''revise''"
| "verdict_text RequiresCiRerun = ''requires_ci_rerun''"

definition verdict_value :: "ReviewerVerdict \<Rightarrow> js_value" where
  "verdict_value v = JObj [(''verdict'', JStr (verdict_text (verdict v))), (''feedback'', JStr (feedback v)),
     (''iterationsUsed'', JNum (int (iterationsUsed v))), (''concerns'', strings_value (concerns v))]"

text \<open>An approval against a red CI run is rewritten.\<close>

definition guard_verdict :: "CINodeOutput option \<Rightarrow> nat \<Rightarrow> ReviewerModelOutput \<Rightarrow> ReviewerVerdict" where
  "guard_verdict ci iteration m =
     (if model_verdict m = Approve \<and> ci_is_red ci then
        let excerpt = (case Option.bind ci cio_excerpt of None \<Rightarrow> [] | Some x \<Rightarrow> x);
            excerptHead = lines_text (take 3 (split_on (CHR 0x0A) excerpt))
        in \<lparr>verdict = Revise,
            feedback = ''[shamu] reviewer emitted '' @ [CHR 0x27] @ ''approve'' @ [CHR 0x27] @
              '' against red CI; forced to revise. CI summary follows: '' @ excerptHead @ [CHR 0x0A, CHR 0x0A] @ model_feedback m,
            concerns = ''[shamu] auto-rewrote verdict: approve against red CI is not permitted'' # model_concerns m,
            iterationsUsed = iteration\<rparr>
      else \<lparr>verdict = model_verdict m, feedback = model_feedback m, concerns = model_concerns m, iterationsUsed = iteration\<rparr>)"

definition renderReviewerVerdict ::
  "services \<Rightarrow> string \<Rightarrow> PlannerOutput \<Rightarrow> ExecutorOutput \<Rightarrow> nat \<Rightarrow> CINodeOutput option \<Rightarrow> desk_state \<Rightarrow>
     (string + ReviewerVerdict) \<times> desk_state" where
  "renderReviewerVerdict env task plan execution iteration ci d =
     (case runSingleTurn env Reviewer (buildReviewerPrompt task plan execution ci) d of
        (res, d1) \<Rightarrow>
          (bind_result res (\<lambda>c.
             map_result (guard_verdict ci iteration)
               (parseLastJsonBlock (json_parse env) (finalText c) ReviewerModelOutputSchema)), d1))"

text \<open>The loop returns its local variables: the last verdict, the iteration and the last CI output.\<close>

function review_loop ::
  "services \<Rightarrow> string \<Rightarrow> string \<Rightarrow> PlannerOutput \<Rightarrow> nat \<Rightarrow> nat \<Rightarrow> ReviewerVerdict option \<Rightarrow> ExecutorOutput \<Rightarrow>
     CINodeOutput option \<Rightarrow> desk_state \<Rightarrow> (string + ReviewerVerdict option \<times> nat \<times> CINodeOutput option) \<times> desk_state" where
  "review_loop env key task plan maxIt iteration last_verdict execution ci d =
     (if iteration \<le> maxIt then
        (case renderReviewerVerdict env task plan execution iteration ci
            (d\<lparr>iterationCounters := AList.update key iteration (iterationCounters d)\<rparr>) of
           (Inl e, d1) \<Rightarrow> (Inl e, d1)
         | (Inr v, d1) \<Rightarrow>
             if verdict v = Approve then (Inr (Some v, iteration, ci), d1)
             else if iteration \<ge> maxIt then (Inr (Some v, iteration, ci), d1)
             else if verdict v = Revise then
               (case invokeExecutor env task plan (Some (feedback v)) (Some (exec_notes execution)) d1 of
                  (Inl e, d2) \<Rightarrow> (Inl e, d2)
                | (Inr (out, execution'), d2) \<Rightarrow>
                    (case invokeCiGate env d2 of
                       ((out', ci'), d3) \<Rightarrow> review_loop env key task plan maxIt (Suc iteration) (Some v) execution' ci' d3))
             else
               (case invokeCiGate env d1 of
                  ((out', ci'), d2) \<Rightarrow> review_loop env key task plan maxIt (Suc iteration) (Some v) execution ci' d2))
      else (Inr (last_verdict, iteration, ci), d))"
  by pat_completeness auto
termination
  by (relation "measure (\<lambda>(_, _, _, _, maxIt, iteration, _). Suc maxIt - iteration)") auto

declare review_loop.simps [simp del]

definition runReviewer ::
  "services \<Rightarrow> nat \<Rightarrow> RunnerContext \<Rightarrow> desk_state \<Rightarrow> (string + NodeOutput) \<times> desk_state" where
  "runReviewer env maxIt ctx d =
     (let key = ctx_flowRunId ctx
      in if map_of (iterationCounters d) key \<noteq> None then
           (Inl (''reviewer runner: iteration counter already set for flowRunId='' @ key), d)
         else
           let d1 = d\<lparr>iterationCounters := AList.update key 1 (iterationCounters d)\<rparr>
           in case bind_result (initial_string ctx ''task'') (\<lambda>task.
                     bind_result (extractPriorPlannerOutput ctx) (\<lambda>plan.
                     map_result (\<lambda>execution. (task, plan, execution)) (extractPriorExecutorOutput ctx))) of
                Inl e \<Rightarrow> (Inl e, d1)
              | Inr (task, plan, execution) \<Rightarrow>
                  (case review_loop env key task plan maxIt 1 None execution (extractPriorCiOutput ctx) d1 of
                     (Inl e, d2) \<Rightarrow> (Inl e, d2)
                   | (Inr (None, _), d2) \<Rightarrow> (Inl ''reviewer runner: no verdict rendered (maxIterations misconfigured?)'', d2)
                   | (Inr (Some v, iteration, _), d2) \<Rightarrow>
                       (Inr (okOutput (verdict_value (v\<lparr>iterationsUsed := iteration\<rparr>)) None Unknown ''codex-subscription''), d2)))"

section \<open>The loop predicate and registration\<close>

definition runLoopPredicate :: "nat \<Rightarrow> RunnerContext \<Rightarrow> NodeOutput" where
  "runLoopPredicate maxIt ctx =
     (case ctx_priorOutputs ctx ''review'' of
        None \<Rightarrow> okOutput (JBool True) None Unknown ''flow-internal''
      | Some review \<Rightarrow>
          let v = prop_of ''verdict'' (out_value review);
              used = (case prop_of ''iterationsUsed'' (out_value review) of JNum n \<Rightarrow> n | _ \<Rightarrow> 0)
          in okOutput (JBool (v = JStr ''approve'' \<or> used \<ge> int maxIt \<or> v = JStr ''revise'' \<or> v = JStr ''requires_ci_rerun''))
               None Unknown ''flow-internal'')"

definition registerRunners :: "string \<Rightarrow> int option \<Rightarrow> string + nat" where
  "registerRunners workspaceCwd cap =
     bind_result (guard_result (workspaceCwd \<noteq> []) ''registerRunners: workspaceCwd must be a non-empty string'') (\<lambda>_.
     let n = (case cap of None \<Rightarrow> int DEFAULT_MAX_ITERATIONS | Some n \<Rightarrow> n)
     in bind_result (guard_result (\<not> n < 1) ''registerRunners: maxIterations must be a positive integer'') (\<lambda>_. Inr (nat n)))"

text \<open>The runners of the registry by name.\<close>

definition flow_runner ::
  "services \<Rightarrow> nat \<Rightarrow> string \<Rightarrow> (RunnerContext \<Rightarrow> desk_state \<Rightarrow> (string + NodeOutput) \<times> desk_state) option" where
  "flow_runner env maxIt name =
     (if name = ''planner'' then Some (runPlanner env)
      else if name = ''executor'' then Some (runExecutor env)
      else if name = ''ci'' then Some (\<lambda>ctx. runCi env)
      else if name = ''reviewer'' then Some (runReviewer env maxIt)
      else if name = ''loop-predicate'' then Some (\<lambda>ctx d. (Inr (runLoopPredicate maxIt ctx), d))
      else None)"

section \<open>Effects\<close>

text \<open>The CI output of the \<open>k\<close>-th run of the gate.\<close>

definition gate_output :: "services \<Rightarrow> nat \<Rightarrow> CINodeOutput option" where
  "gate_output env k = snd (fst (invokeCiGate env \<lparr>sessions = \<lambda>_. 0, handles = 0, shutdowns = 0, gate_runs = k,
     iterationCounters = [], turns = []\<rparr>))"

lemma invokeCiGate_effect:
  "\<exists>out. invokeCiGate env d = ((out, gate_output env (gate_runs d)), d\<lparr>gate_runs := Suc (gate_runs d)\<rparr>)"
  by (auto simp: gate_output_def invokeCiGate_def Let_def split: gate_outcome.splits option.splits)

text \<open>What the sessions of a call may change: every handle it opens it shuts down.\<close>

definition uses :: "nat \<Rightarrow> nat \<Rightarrow> nat \<Rightarrow> nat \<Rightarrow> desk_state \<Rightarrow> desk_state \<Rightarrow> bool" where
  "uses p e r g d d' \<longleftrightarrow> sessions d' Planner = sessions d Planner + p \<and> sessions d' Executor = sessions d Executor + e \<and>
     sessions d' Reviewer = sessions d Reviewer + r \<and> gate_runs d' = gate_runs d + g \<and>
     (\<exists>k. handles d' = handles d + k \<and> shutdowns d' = shutdowns d + k)"

lemma uses_none: "uses 0 0 0 0 d d"
  by (simp add: uses_def)

lemma uses_counters: "uses 0 0 0 0 d (d\<lparr>iterationCounters := cs\<rparr>)"
  by (simp add: uses_def)

lemma uses_trans: "uses p e r g d d' \<Longrightarrow> uses p' e' r' g' d' d'' \<Longrightarrow> uses (p + p') (e + e') (r + r') (g + g') d d''"
proof -
  assume a: "uses p e r g d d'" and b: "uses p' e' r' g' d' d''"
  obtain k l where "handles d' = handles d + k" "shutdowns d' = shutdowns d + k"
    "handles d'' = handles d' + l" "shutdowns d'' = shutdowns d' + l" using a b by (auto simp: uses_def)
  then have "\<exists>k. handles d'' = handles d + k \<and> shutdowns d'' = shutdowns d + k" by (intro exI [of _ "k + l"]) simp
  with a b show ?thesis by (simp add: uses_def)
qed

lemma turn_uses:
  assumes "runSingleTurn env r pr d = (res, d')"
  shows "uses (if r = Planner then 1 else 0) (if r = Executor then 1 else 0) (if r = Reviewer then 1 else 0) 0 d d'"
proof -
  have "\<exists>k. handles d' = handles d + k \<and> shutdowns d' = shutdowns d + k"
    using assms by (auto simp: runSingleTurn_def Let_def split: option.splits)
  then show ?thesis using assms
    by (cases r) (auto simp: uses_def runSingleTurn_def Let_def split: option.splits)
qed

lemma gate_uses: "invokeCiGate env d = ((out, ci), d') \<Longrightarrow> uses 0 0 0 1 d d' \<and> ci = gate_output env (gate_runs d)"
  using invokeCiGate_effect [of env d] by (auto simp: uses_def)

lemma executor_uses: "invokeExecutor env task plan fb pn d = (res, d') \<Longrightarrow> uses 0 1 0 0 d d'"
  using turn_uses [of env Executor] by (auto simp: invokeExecutor_def split: prod.splits)

lemma render_uses: "renderReviewerVerdict env task plan ex it ci d = (res, d') \<Longrightarrow> uses 0 0 1 0 d d'"
  using turn_uses [of env Reviewer] by (auto simp: renderReviewerVerdict_def split: prod.splits)

lemma render_guarded:
  "renderReviewerVerdict env task plan ex it ci d = (Inr v, d') \<Longrightarrow> verdict v = Approve \<Longrightarrow> \<not> ci_is_red ci"
  by (auto simp: renderReviewerVerdict_def guard_verdict_def result_simps Let_def split: prod.splits if_splits)

text \<open>A loop that starts at iteration \<open>it\<close> and ends normally at \<open>n\<close>.\<close>

definition loop_end ::
  "services \<Rightarrow> nat \<Rightarrow> nat \<Rightarrow> CINodeOutput option \<Rightarrow> desk_state \<Rightarrow> ReviewerVerdict option \<times> nat \<times> CINodeOutput option \<Rightarrow> desk_state \<Rightarrow> bool" where
  "loop_end env maxIt it ci d out d' \<longleftrightarrow>
     (\<exists>v n ci' e. out = (Some v, n, ci') \<and> it \<le> n \<and> n \<le> maxIt \<and> e \<le> n - it \<and> uses 0 e (Suc n - it) (n - it) d d' \<and>
        ci' = (if n = it then ci else gate_output env (gate_runs d' - 1)) \<and>
        (if verdict v = Approve then \<not> ci_is_red ci' else n = maxIt))"

definition loop_bounds :: "nat \<Rightarrow> nat \<Rightarrow> desk_state \<Rightarrow> desk_state \<Rightarrow> bool" where
  "loop_bounds maxIt it d d' \<longleftrightarrow> (\<exists>e r g. uses 0 e r g d d' \<and> r \<le> Suc maxIt - it \<and> e \<le> maxIt - it \<and> g \<le> maxIt - it)"

lemma loop_bounds_step:
  assumes "uses 0 e 1 g d d1" and "e \<le> 1" and "g \<le> 1" and "it < maxIt" and "loop_bounds maxIt (Suc it) d1 d'"
  shows "loop_bounds maxIt it d d'"
proof -
  obtain e' r' g' where u: "uses 0 e' r' g' d1 d'" "r' \<le> Suc maxIt - Suc it" "e' \<le> maxIt - Suc it" "g' \<le> maxIt - Suc it"
    using assms(5) by (auto simp: loop_bounds_def)
  have "1 + r' \<le> Suc maxIt - it" "e + e' \<le> maxIt - it" "g + g' \<le> maxIt - it" using u assms(2-4) by auto
  then show ?thesis using uses_trans [OF assms(1) u(1)] by (auto simp: loop_bounds_def)
qed

lemma loop_end_step:
  assumes "uses 0 e 1 1 d d1" and "e \<le> 1" and "it < maxIt" and "loop_end env maxIt (Suc it) (gate_output env (gate_runs d)) d1 out d'"
  shows "loop_end env maxIt it ci d out d'"
proof -
  obtain v n ci' e' where o: "out = (Some v, n, ci')" "Suc it \<le> n" "n \<le> maxIt" "e' \<le> n - Suc it"
    "uses 0 e' (Suc n - Suc it) (n - Suc it) d1 d'"
    "ci' = (if n = Suc it then gate_output env (gate_runs d) else gate_output env (gate_runs d' - 1))"
    "if verdict v = Approve then \<not> ci_is_red ci' else n = maxIt" using assms(4) by (auto simp: loop_end_def)
  have u: "uses 0 (e + e') (1 + (Suc n - Suc it)) (1 + (n - Suc it)) d d'" using uses_trans [OF assms(1) o(5)] by simp
  moreover have "1 + (Suc n - Suc it) = Suc n - it" "1 + (n - Suc it) = n - it" "e + e' \<le> n - it"
    using o(2,4) assms(2) by auto
  moreover have "n = Suc it \<Longrightarrow> gate_runs d' - 1 = gate_runs d" using u by (simp add: uses_def)
  ultimately show ?thesis using o(1,2,3,6,7) by (auto simp: loop_end_def)
qed

abbreviation counted :: "string \<Rightarrow> nat \<Rightarrow> desk_state \<Rightarrow> desk_state" where
  "counted key it d \<equiv> d\<lparr>iterationCounters := AList.update key it (iterationCounters d)\<rparr>"

text \<open>The branches of the loop body.\<close>

lemma loop_throws:
  "it \<le> maxIt \<Longrightarrow> renderReviewerVerdict env task plan ex it ci (counted key it d) = (Inl e, d1) \<Longrightarrow>
     review_loop env key task plan maxIt it lv ex ci d = (Inl e, d1)"
  by (subst review_loop.simps) simp

lemma loop_ends:
  "it \<le> maxIt \<Longrightarrow> renderReviewerVerdict env task plan ex it ci (counted key it d) = (Inr v, d1) \<Longrightarrow>
     verdict v = Approve \<or> it \<ge> maxIt \<Longrightarrow>
     review_loop env key task plan maxIt it lv ex ci d = (Inr (Some v, it, ci), d1)"
  by (subst review_loop.simps) auto

lemma loop_revises:
  assumes "it < maxIt" and "renderReviewerVerdict env task plan ex it ci (counted key it d) = (Inr v, d1)"
    and "verdict v = Revise"
    and "invokeExecutor env task plan (Some (feedback v)) (Some (exec_notes ex)) d1 = (re, d2)"
  shows "review_loop env key task plan maxIt it lv ex ci d =
    (case re of
       Inl e \<Rightarrow> (Inl e, d2)
     | Inr (_, ex') \<Rightarrow> review_loop env key task plan maxIt (Suc it) (Some v) ex' (gate_output env (gate_runs d2))
         (d2\<lparr>gate_runs := Suc (gate_runs d2)\<rparr>))"
  using assms invokeCiGate_effect [of env d2]
  by (subst review_loop.simps) (auto split: sum.splits prod.splits)

lemma loop_reruns:
  assumes "it < maxIt" and "renderReviewerVerdict env task plan ex it ci (counted key it d) = (Inr v, d1)"
    and "verdict v = RequiresCiRerun"
  shows "review_loop env key task plan maxIt it lv ex ci d =
    review_loop env key task plan maxIt (Suc it) (Some v) ex (gate_output env (gate_runs d1)) (d1\<lparr>gate_runs := Suc (gate_runs d1)\<rparr>)"
  using assms invokeCiGate_effect [of env d1]
  by (subst review_loop.simps) (auto split: prod.splits)

lemma gate_bump: "uses p e r g d d' \<Longrightarrow> uses p e r (Suc g) d (d'\<lparr>gate_runs := Suc (gate_runs d')\<rparr>)"
  by (simp add: uses_def)

definition loop_ok ::
  "services \<Rightarrow> nat \<Rightarrow> nat \<Rightarrow> CINodeOutput option \<Rightarrow> desk_state \<Rightarrow>
     (string + ReviewerVerdict option \<times> nat \<times> CINodeOutput option) \<times> desk_state \<Rightarrow> bool" where
  "loop_ok env maxIt it ci d out \<longleftrightarrow> loop_bounds maxIt it d (snd out) \<and>
     (case fst out of Inl _ \<Rightarrow> True | Inr x \<Rightarrow> loop_end env maxIt it ci d x (snd out))"

text \<open>The reviewer throws or its verdict is final.\<close>

lemma loop_ok_now:
  assumes "it \<le> maxIt" and rv: "renderReviewerVerdict env task plan ex it ci (counted key it d) = (rv, d1)"
    and "case rv of Inl _ \<Rightarrow> True | Inr v \<Rightarrow> verdict v = Approve \<or> it \<ge> maxIt"
  shows "loop_ok env maxIt it ci d (review_loop env key task plan maxIt it lv ex ci d)"
proof -
  have u: "uses 0 0 1 0 d d1" using uses_trans [OF uses_counters render_uses [OF rv]] by simp
  have b: "loop_bounds maxIt it d d1" using u assms(1) by (auto simp: loop_bounds_def intro!: exI)
  show ?thesis
  proof (cases rv)
    case (Inl e)
    then show ?thesis using loop_throws [OF assms(1)] rv b by (simp add: loop_ok_def)
  next
    case (Inr v)
    then have "review_loop env key task plan maxIt it lv ex ci d = (Inr (Some v, it, ci), d1)"
      using loop_ends [OF assms(1)] rv assms(3) by simp
    moreover have "verdict v = Approve \<Longrightarrow> \<not> ci_is_red ci" using rv Inr render_guarded by blast
    ultimately show ?thesis using b u assms(1,3) Inr by (auto simp: loop_ok_def loop_end_def)
  qed
qed

text \<open>Another iteration follows.\<close>

lemma loop_ok_next:
  assumes "uses 0 e 1 0 d d2" and "e \<le> 1" and "it < maxIt"
    and "loop_ok env maxIt (Suc it) (gate_output env (gate_runs d2)) (d2\<lparr>gate_runs := Suc (gate_runs d2)\<rparr>) out"
  shows "loop_ok env maxIt it ci d out"
proof -
  have g: "gate_runs d2 = gate_runs d" using assms(1) by (simp add: uses_def)
  have u: "uses 0 e 1 1 d (d2\<lparr>gate_runs := Suc (gate_runs d2)\<rparr>)" using gate_bump [OF assms(1)] by simp
  show ?thesis
    using loop_bounds_step [OF u assms(2) _ assms(3)] loop_end_step [OF u assms(2,3)] assms(4) g
    by (auto simp: loop_ok_def split: sum.splits)
qed

lemma review_loop_ok:
  "it \<le> maxIt \<Longrightarrow> loop_ok env maxIt it ci d (review_loop env key task plan maxIt it lv ex ci d)"
proof (induction "maxIt - it" arbitrary: it lv ex ci d)
  case 0
  obtain rv d1 where "renderReviewerVerdict env task plan ex it ci (counted key it d) = (rv, d1)" by (metis prod.exhaust)
  from loop_ok_now [OF 0(2) this] 0(1) show ?case by (auto split: sum.splits)
next
  case (Suc k)
  then have lt: "it < maxIt" and k: "k = maxIt - Suc it" "Suc it \<le> maxIt" by simp_all
  note ih = Suc.hyps(1) [OF k]
  obtain rv d1 where rv: "renderReviewerVerdict env task plan ex it ci (counted key it d) = (rv, d1)" by (metis prod.exhaust)
  have u: "uses 0 0 1 0 d d1" using uses_trans [OF uses_counters render_uses [OF rv]] by simp
  consider "case rv of Inl _ \<Rightarrow> True | Inr v \<Rightarrow> verdict v = Approve \<or> it \<ge> maxIt"
    | (revise) v where "rv = Inr v" "verdict v = Revise" | (rerun) v where "rv = Inr v" "verdict v = RequiresCiRerun"
    by (cases rv) (auto intro: verdict_kind.exhaust)
  then show ?case
  proof cases
    case 1
    then show ?thesis using loop_ok_now [OF Suc.prems rv] by simp
  next
    case revise
    obtain re d2 where re: "invokeExecutor env task plan (Some (feedback v)) (Some (exec_notes ex)) d1 = (re, d2)"
      by (metis prod.exhaust)
    have u2: "uses 0 1 1 0 d d2" using uses_trans [OF u executor_uses [OF re]] by simp
    note step = loop_revises [OF lt rv [unfolded revise] revise(2) re]
    show ?thesis
    proof (cases re)
      case (Inl e)
      then show ?thesis using step u2 lt by (auto simp: loop_ok_def loop_bounds_def intro!: exI)
    next
      case (Inr oe)
      then show ?thesis using step loop_ok_next [OF u2 _ lt ih] by (simp split: prod.splits)
    qed
  next
    case rerun
    show ?thesis using loop_ok_next [OF u _ lt ih] loop_reruns [OF lt rv [unfolded rerun] rerun(2)] by simp
  qed
qed

lemma loop_ok_counted: "loop_ok env maxIt it ci (d\<lparr>iterationCounters := cs\<rparr>) out \<longleftrightarrow> loop_ok env maxIt it ci d out"
proof -
  have "uses p e r g (d\<lparr>iterationCounters := cs\<rparr>) d' = uses p e r g d d'" for p e r g d' by (simp add: uses_def)
  then show ?thesis by (auto simp: loop_ok_def loop_bounds_def loop_end_def split: sum.splits)
qed

section \<open>What the flow guarantees\<close>

lemma reviewer_cases:
  assumes "runReviewer env maxIt ctx d = (res, d')" and "1 \<le> maxIt"
  shows "loop_bounds maxIt 1 d d' \<and>
    (case res of Inl _ \<Rightarrow> True
     | Inr out \<Rightarrow> \<exists>v n ci. loop_end env maxIt 1 (extractPriorCiOutput ctx) d (Some v, n, ci) d' \<and>
         out = okOutput (verdict_value (v\<lparr>iterationsUsed := n\<rparr>)) None Unknown ''codex-subscription'')"
proof -
  let ?key = "ctx_flowRunId ctx"
  let ?args = "bind_result (initial_string ctx ''task'') (\<lambda>task. bind_result (extractPriorPlannerOutput ctx) (\<lambda>plan.
     map_result (\<lambda>execution. (task, plan, execution)) (extractPriorExecutorOutput ctx)))"
  have none: "loop_bounds maxIt 1 d x" if "uses 0 0 0 0 d x" for x using that by (auto simp: loop_bounds_def intro!: exI)
  show ?thesis
  proof (cases "map_of (iterationCounters d) ?key = None \<and> (\<exists>a. ?args = Inr a)")
    case False
    then show ?thesis using assms(1) none uses_none uses_counters
      by (auto simp: runReviewer_def Let_def split: if_splits sum.splits)
  next
    case True
    then obtain task plan ex where a: "?args = Inr (task, plan, ex)" by force
    let ?loop = "review_loop env ?key task plan maxIt 1 None ex (extractPriorCiOutput ctx) (counted ?key 1 d)"
    have ok: "loop_ok env maxIt 1 (extractPriorCiOutput ctx) d ?loop"
      using review_loop_ok [OF assms(2), of env "extractPriorCiOutput ctx" "counted ?key 1 d"] by (simp only: loop_ok_counted)
    obtain lr d2 where lp: "?loop = (lr, d2)" by (metis prod.exhaust)
    show ?thesis
    proof (cases lr)
      case (Inl e)
      then show ?thesis using assms(1) True a ok lp by (auto simp: runReviewer_def Let_def loop_ok_def)
    next
      case (Inr x)
      with ok lp have le: "loop_end env maxIt 1 (extractPriorCiOutput ctx) d x d2" by (simp add: loop_ok_def)
      then obtain v n ci where x: "x = (Some v, n, ci)" by (auto simp: loop_end_def)
      have "res = Inr (okOutput (verdict_value (v\<lparr>iterationsUsed := n\<rparr>)) None Unknown ''codex-subscription'')" "d' = d2"
        using assms(1) True a lp Inr x by (auto simp: runReviewer_def Let_def)
      then show ?thesis using le x ok lp by (auto simp: loop_ok_def)
    qed
  qed
qed

text \<open>A red CI run that the model approves, then an executor pass, a green gate and an approval.\<close>

definition block_reply :: "string \<Rightarrow> string" where
  "block_reply x = fence @ ''json'' @ [CHR 0x0A] @ x @ [CHR 0x0A] @ fence"

definition demo_parse :: "string \<Rightarrow> string + js_value" where
  "demo_parse x =
     (if x = ''V'' then Inr (JObj [(''verdict'', JStr ''approve''), (''feedback'', JStr ''f''), (''concerns'', JArr [])])
      else if x = ''E'' then Inr (execution_value \<lparr>summary = ''s'', diff_added = 1, diff_removed = 0, diff_files = [], exec_notes = []\<rparr>)
      else Inl ''SyntaxError'')"

definition demo_session :: "agent_role \<Rightarrow> session" where
  "demo_session r = \<lparr>spawn_error = None, send_error = None,
     stream = [(False, AssistantMessage (block_reply (if r = Executor then ''E'' else ''V''))), (False, TurnEnd)], stream_error = None\<rparr>"

definition demo_summary :: "string \<Rightarrow> js_record" where
  "demo_summary st = [(''runId'', JStr ''r''), (''status'', JStr st)]"

definition demo_services :: services where
  "demo_services = \<lparr>session_of = (\<lambda>r n. demo_session r),
     gate_of = (\<lambda>n. GateRan \<lparr>exitCode = 0, gate_stdout = [], gate_stderr = [], runDir = None, gate_summary = Some (demo_summary ''green''),
       domainEvent = Some (PatchReady ''r'' (demo_summary ''green''))\<rparr>), json_parse = demo_parse\<rparr>"

definition demo_prior :: "string \<Rightarrow> NodeOutput option" where
  "demo_prior node =
     (if node = ''plan'' then Some (okOutput (plan_value \<lparr>goal = ''g'', steps = [], assumptions = []\<rparr>) None Unknown [])
      else if node = ''execute'' then
        Some (okOutput (execution_value \<lparr>summary = ''s'', diff_added = 0, diff_removed = 0, diff_files = [], exec_notes = []\<rparr>) None Unknown [])
      else if node = ''ci'' then
        Some (okOutput (ci_value \<lparr>cio_kind = ''CIRed'', cio_runId = ''r'', cio_summary = demo_summary ''red'', cio_excerpt = Some ''x''\<rparr>) None Unknown [])
      else None)"

definition demo_ctx :: RunnerContext where
  "demo_ctx = \<lparr>ctx_flowRunId = ''run'', ctx_node = reviewNode, ctx_inputs = [(''initial'', JObj [(''task'', JStr ''t'')])],
     ctx_priorOutputs = demo_prior\<rparr>"

definition idle_desk :: desk_state where
  "idle_desk = \<lparr>sessions = (\<lambda>_. 0), handles = 0, shutdowns = 0, gate_runs = 0, iterationCounters = [], turns = []\<rparr>"

definition verdict_after :: "(string + NodeOutput) \<times> desk_state \<Rightarrow> js_value option" where
  "verdict_after res = (case fst res of Inl _ \<Rightarrow> None | Inr out \<Rightarrow> Some (out_value out))"

abbreviation demo_sessions :: "services \<Rightarrow> bool" where
  "demo_sessions env \<equiv> session_of env = (\<lambda>r n. demo_session r) \<and> json_parse env = demo_parse"

lemma demo_turn:
  assumes "demo_sessions env"
  shows "\<exists>d'. runSingleTurn env r pr d = (Inr \<lparr>finalText = block_reply (if r = Executor then ''E'' else ''V''), costEvents = []\<rparr>, d') \<and>
    gate_runs d' = gate_runs d \<and> iterationCounters d' = iterationCounters d"
  using assms by (simp add: runSingleTurn_def Let_def demo_session_def block_reply_def fence_def)

lemma demo_replies:
  "parseLastJsonBlock demo_parse (block_reply ''V'') ReviewerModelOutputSchema =
     Inr \<lparr>model_verdict = Approve, model_feedback = ''f'', model_concerns = []\<rparr>"
  "parseLastJsonBlock demo_parse (block_reply ''E'') ExecutorOutputSchema =
     Inr \<lparr>summary = ''s'', diff_added = 1, diff_removed = 0, diff_files = [], exec_notes = []\<rparr>"
  by code_simp+

lemma demo_render:
  assumes "demo_sessions env"
  shows "\<exists>d'. renderReviewerVerdict env task plan ex it ci d =
    (Inr (guard_verdict ci it \<lparr>model_verdict = Approve, model_feedback = ''f'', model_concerns = []\<rparr>), d') \<and> gate_runs d' = gate_runs d"
  using demo_turn [OF assms, of Reviewer "buildReviewerPrompt task plan ex ci" d] assms
  by (auto simp: renderReviewerVerdict_def demo_replies map_result_def)

lemma demo_execute:
  assumes "demo_sessions env"
  shows "\<exists>out ex d'. invokeExecutor env task plan fb notes d = (Inr (out, ex), d') \<and> gate_runs d' = gate_runs d"
  using demo_turn [OF assms, of Executor "buildExecutorPrompt task plan fb notes" d] assms
  by (auto simp: invokeExecutor_def demo_replies map_result_def split_beta)

lemma demo_inputs:
  "initial_string demo_ctx ''task'' = Inr ''t''" "extractPriorPlannerOutput demo_ctx = Inr \<lparr>goal = ''g'', steps = [], assumptions = []\<rparr>"
  "extractPriorExecutorOutput demo_ctx = Inr \<lparr>summary = ''s'', diff_added = 0, diff_removed = 0, diff_files = [], exec_notes = []\<rparr>"
  "ci_is_red (extractPriorCiOutput demo_ctx)"
  by code_simp+

text \<open>The story for any gate whose first run is not red.\<close>

lemma demo_reviewed:
  assumes "demo_sessions env" and "\<not> ci_is_red (gate_output env 0)"
  shows "verdict_after (runReviewer env 3 demo_ctx idle_desk) =
     Some (verdict_value \<lparr>verdict = Approve, feedback = ''f'', concerns = [], iterationsUsed = 2\<rparr>)"
proof -
  let ?plan = "\<lparr>goal = ''g'', steps = [], assumptions = []\<rparr>" and ?key = "ctx_flowRunId demo_ctx"
  let ?ex = "\<lparr>summary = ''s'', diff_added = 0, diff_removed = 0, diff_files = [], exec_notes = []\<rparr>"
  let ?ci = "extractPriorCiOutput demo_ctx" and ?m = "\<lparr>model_verdict = Approve, model_feedback = ''f'', model_concerns = []\<rparr>"
  let ?d0 = "counted ?key 1 idle_desk"
  obtain d1 where r1: "renderReviewerVerdict env ''t'' ?plan ?ex 1 ?ci (counted ?key 1 ?d0) = (Inr (guard_verdict ?ci 1 ?m), d1)" "gate_runs d1 = 0"
    using demo_render [OF assms(1), of "''t''" ?plan ?ex 1 ?ci "counted ?key 1 ?d0"] by (auto simp: idle_desk_def)
  have v: "verdict (guard_verdict ?ci 1 ?m) = Revise" using demo_inputs(4) by (simp add: guard_verdict_def Let_def)
  obtain oe ex' d2 where ex: "invokeExecutor env ''t'' ?plan (Some (feedback (guard_verdict ?ci 1 ?m))) (Some (exec_notes ?ex)) d1 = (Inr (oe, ex'), d2)"
    "gate_runs d2 = 0" using demo_execute [OF assms(1)] r1(2) by metis
  let ?d3 = "d2\<lparr>gate_runs := Suc (gate_runs d2)\<rparr>" and ?ci2 = "gate_output env 0"
  obtain d4 where r2: "renderReviewerVerdict env ''t'' ?plan ex' (Suc 1) ?ci2 (counted ?key (Suc 1) ?d3) = (Inr (guard_verdict ?ci2 (Suc 1) ?m), d4)"
    using demo_render [OF assms(1)] by blast
  have "review_loop env ?key ''t'' ?plan 3 1 None ?ex ?ci ?d0 = (Inr (Some (guard_verdict ?ci2 (Suc 1) ?m), Suc 1, ?ci2), d4)"
    using loop_revises [OF _ r1(1) v ex(1)] loop_ends [OF _ r2] assms(2) ex(2) by (simp add: guard_verdict_def)
  then show ?thesis using assms(2)
    by (simp add: runReviewer_def Let_def demo_inputs verdict_after_def idle_desk_def guard_verdict_def okOutput_def map_result_def numeral_2_eq_2)
qed

lemma demo_review:
  "verdict_after (runReviewer demo_services 3 demo_ctx idle_desk) =
     Some (verdict_value \<lparr>verdict = Approve, feedback = ''f'', concerns = [], iterationsUsed = 2\<rparr>)"
  by (rule demo_reviewed) (simp add: demo_services_def, code_simp)

lemma demo_registered: "registerRunners ''/w'' (Some 3) = Inr 3"
  by code_simp

text \<open>C24: a reviewer node that succeeds reports a verdict reached after at most the configured number of iterations,
  one reviewer session per iteration, with one run of the CI gate between two iterations and at most one executor
  session. It approves only if the CI output of the last iteration, which is the output of the CI node in the
  first and of the last run of the gate in a later one, is not red; and it stops without approval only at the cap.\<close>

theorem review_verdict_sound:
  assumes "runReviewer env maxIt ctx d = (Inr out, d')" and "registerRunners cwd cap = Inr maxIt"
  shows "\<exists>v n. out_value out = verdict_value v \<and> iterationsUsed v = n \<and> 1 \<le> n \<and> n \<le> maxIt \<and>
    sessions d' Reviewer = sessions d Reviewer + n \<and> gate_runs d' = gate_runs d + (n - 1) \<and>
    sessions d' Executor \<le> sessions d Executor + (n - 1) \<and>
    (if verdict v = Approve
     then \<not> ci_is_red (if n = 1 then extractPriorCiOutput ctx else gate_output env (gate_runs d' - 1))
     else n = maxIt)"
proof -
  have "1 \<le> maxIt" using assms(2) by (auto simp: registerRunners_def result_simps Let_def)
  from reviewer_cases [OF assms(1) this] obtain v n ci
    where le: "loop_end env maxIt 1 (extractPriorCiOutput ctx) d (Some v, n, ci) d'"
      and out: "out = okOutput (verdict_value (v\<lparr>iterationsUsed := n\<rparr>)) None Unknown ''codex-subscription''" by auto
  show ?thesis
    by (rule exI [of _ "v\<lparr>iterationsUsed := n\<rparr>"]) (use le out in \<open>auto simp: loop_end_def uses_def okOutput_def split: if_splits\<close>)
qed

theorem review_verdict_sound_witness:
  "\<exists>out d' v. runReviewer demo_services 3 demo_ctx idle_desk = (Inr out, d') \<and>
     out_value out = verdict_value v \<and> 1 \<le> iterationsUsed v \<and> sessions d' Reviewer = iterationsUsed v"
proof -
  obtain res d' where run: "runReviewer demo_services 3 demo_ctx idle_desk = (res, d')" by (metis prod.exhaust)
  with demo_review obtain out where res: "res = Inr out" by (auto simp: verdict_after_def split: sum.splits)
  from review_verdict_sound [OF run [unfolded res] demo_registered] run res show ?thesis
    by (auto simp: idle_desk_def)
qed



text \<open>Planner, executor and reviewer report a failure by throwing, never by an output with \<open>ok\<close> false; the CI
  runner does report failures, but its node allows no retry.\<close>

lemma thrown_or_ok:
  "fst (runPlanner env ctx d) = Inr out \<Longrightarrow> ok out"
  "fst (runExecutor env ctx d) = Inr out \<Longrightarrow> ok out"
  "fst (runReviewer env maxIt ctx d) = Inr out \<Longrightarrow> ok out"
  by (auto simp: runPlanner_def runExecutor_def invokeExecutor_def runReviewer_def okOutput_def result_simps Let_def
      split_beta split: sum.splits prod.splits if_splits option.splits)

definition flow_steps :: "FlowNode list" where
  "flow_steps = [planNode, executeNode, ciNode, reviewNode]"

lemmas flow_step_defs = flow_steps_def planNode_def executeNode_def ciNode_def reviewNode_def

lemma steps_throw_or_ok:
  assumes "node \<in> set flow_steps" and "flow_runner env maxIt (node_runner node) = Some f" and "fst (f ctx d) = Inr out"
  shows "ok out \<or> retries_of node = 0"
  using assms thrown_or_ok by (auto simp: flow_step_defs flow_runner_def retries_of_def split: if_splits)

lemma attempts_once:
  assumes "\<And>k ctx out. r k ctx = Inr out \<Longrightarrow> ok out \<or> retries = 0" and "0 < attempt"
  shows "calls (snd (agent_attempts fe node r ins prior h retries left attempt u)) \<le> Suc (calls u)"
  by (cases left) (use assms in \<open>auto simp: Let_def split_beta call_runner_def split: sum.splits\<close>)

text \<open>No agent step of the flow is ever retried, although its definition allows the planner one, the executor two
  and the reviewer one retry: a failing agent makes its runner throw, and the engine retries outputs only.
  Executing a step calls its runner at most once, whatever agents and gate do.\<close>

theorem agent_steps_not_retried:
  assumes "node \<in> set flow_steps" and "flow_runner env maxIt (node_runner node) = Some f"
    and "registry fe (node_runner node) = Some r" and "\<forall>k ctx. \<exists>d. r k ctx = fst (f ctx d)"
  shows "calls (snd (fst (Flow_Engine.executeNode fe node ini skipped u))) \<le> calls u + 1"
proof -
  have ok: "ok out \<or> retries_of node = 0" if "r k ctx = Inr out" for k ctx out
    using assms(4) that steps_throw_or_ok [OF assms(1,2)] by metis
  have "calls (snd (runAgentStep fe node ini u)) \<le> calls u + 1"
    using attempts_once [of r "retries_of node" 1 fe node, OF ok] assms(3)
    by (auto simp: runAgentStep_def split_beta simp del: agent_attempts.simps split: option.splits sum.splits)
  with assms(1) show ?thesis by (auto simp: flow_step_defs Flow_Engine.executeNode_def)
qed

definition demo_env :: flow_env where
  "demo_env = \<lparr>registry = (\<lambda>name. map_option (\<lambda>f k ctx. fst (f ctx idle_desk)) (flow_runner demo_services 3 name)),
     clock_at = int, aborted_at = (\<lambda>_. False), digest = (\<lambda>x. x)\<rparr>"

theorem agent_steps_not_retried_witness:
  "retries_of executeNode = 2 \<and>
     calls (snd (fst (Flow_Engine.executeNode demo_env executeNode [] {} (initState demo_env flowDefinition ''run'' None)))) \<le>
       calls (initState demo_env flowDefinition ''run'' None) + 1"
  using agent_steps_not_retried [of executeNode demo_services 3 "runExecutor demo_services" demo_env
      "\<lambda>k ctx. fst (runExecutor demo_services ctx idle_desk)" "[]" "{}"
      "initState demo_env flowDefinition ''run'' None"]
  by (auto simp: flow_step_defs flow_runner_def demo_env_def retries_of_def)

text \<open>After a red run, a rerun of the gate that never starts leaves the reviewer without a CI signal, and its
  approval stands.\<close>

definition broken_gate :: services where
  "broken_gate = demo_services\<lparr>gate_of := (\<lambda>n. GateThrows True ''no repository'')\<rparr>"

lemma crashed_rerun_approves:
  "verdict_after (runReviewer broken_gate 3 demo_ctx idle_desk) =
     Some (verdict_value \<lparr>verdict = Approve, feedback = ''f'', concerns = [], iterationsUsed = 2\<rparr>)"
  by (rule demo_reviewed) (simp add: broken_gate_def demo_services_def, code_simp)

end
