(* ===== verification/Ci_Logs.thy ===== *)
theory Ci_Logs
  imports Shamu_Prelude
begin

text \<open>
  How the CI gate reads the log of a failed step (\<^verbatim>\<open>packages/ci/src/ansi.ts\<close>, \<^verbatim>\<open>parse-step-log.ts\<close>): escape sequences
  are removed, the step is classified by its name, the TAP and the ESLint extractors look for failures and
  the tail of the log stands in when they find none. The regular expressions are written out as the matches
  they make, with backtracking where a different split can succeed. Limits are natural numbers.
\<close>

section \<open>Escape sequences\<close>

definition code_in :: "nat \<Rightarrow> nat \<Rightarrow> char \<Rightarrow> bool" where
  "code_in lo hi c \<longleftrightarrow> lo \<le> of_char c \<and> of_char c \<le> hi"

text \<open>The length of the match at the head of a text, the alternatives in their order. The third class ends with
  a literal hyphen and an underscore.\<close>

definition match_csi :: "string \<Rightarrow> nat option" where
  "match_csi s =
     (if starts_with [CHR 0x1B, CHR 0x5B] s then
        let params = takeWhile (code_in 48 63) (drop 2 s);
            inter = takeWhile (code_in 32 47) (drop (2 + length params) s);
            n = 2 + length params + length inter
        in (case drop n s of [] \<Rightarrow> None | c # _ \<Rightarrow> if code_in 64 126 c then Some (Suc n) else None)
      else None)"

definition match_osc :: "string \<Rightarrow> nat option" where
  "match_osc s =
     (if starts_with [CHR 0x1B, CHR 0x5D] s then
        let payload = takeWhile (\<lambda>c. c \<noteq> CHR 0x07) (drop 2 s)
        in if drop (2 + length payload) s = [] then None else Some (3 + length payload)
      else None)"

definition match_ansi :: "string \<Rightarrow> nat option" where
  "match_ansi s =
     (case match_csi s of
        Some n \<Rightarrow> Some n
      | None \<Rightarrow>
          (case match_osc s of
             Some n \<Rightarrow> Some n
           | None \<Rightarrow>
               (case s of
                  [] \<Rightarrow> None
                | c # cs \<Rightarrow>
                    if c = CHR 0x1B \<and> cs \<noteq> [] \<and> (code_in 64 90 (hd cs) \<or> hd cs \<in> {CHR 0x2D, CHR 0x5F}) then Some 2
                    else if c = CHR 0x07 then Some 1 else None)))"

function stripAnsi :: "string \<Rightarrow> string" where
  "stripAnsi [] = []"
| "stripAnsi (c # cs) = (case match_ansi (c # cs) of None \<Rightarrow> c # stripAnsi cs | Some n \<Rightarrow> stripAnsi (drop n (c # cs)))"
  by pat_completeness auto

lemma match_ansi_pos: "match_ansi s = Some n \<Longrightarrow> 0 < n"
  by (auto simp: match_ansi_def match_csi_def match_osc_def Let_def split: option.splits list.splits if_splits)

termination stripAnsi
  by (relation "measure length") (auto dest: match_ansi_pos)

section \<open>Data\<close>

datatype FailureKind = TestKind | LintKind | TypecheckKind | BuildKind | InstallKind | UnknownKind

record FailingTest =
  test_name :: string
  location :: "string option"
  errorLines :: "string list"
  expected :: "string option"
  actual :: "string option"

record ParsedStepLog =
  kind :: FailureKind
  failingTests :: "FailingTest list"

definition classifyStep :: "string \<Rightarrow> FailureKind" where
  "classifyStep stepName =
     (let n = to_lower stepName; names = (\<lambda>ws. list_ex (\<lambda>w. has_substring w n) ws)
      in if starts_with ''test'' n \<or> names [''vitest'', ''jest'', ''pytest''] then TestKind
         else if names [''lint'', ''eslint'', ''biome'', ''ruff''] then LintKind
         else if names [''typecheck'', ''tsc'', ''mypy''] then TypecheckKind
         else if names [''build'', ''compile''] then BuildKind
         else if names [''install'', ''npm ci'', ''yarn''] then InstallKind
         else UnknownKind)"

section \<open>Lines and words\<close>

abbreviation skip_space :: "string \<Rightarrow> string" where
  "skip_space \<equiv> dropWhile js_space"

abbreviation blank :: "string \<Rightarrow> bool" where
  "blank \<equiv> list_all js_space"

definition lead :: "string \<Rightarrow> nat" where
  "lead s = length (takeWhile js_space s)"

definition digit :: "char \<Rightarrow> bool" where
  "digit = code_in 48 57"

definition letter :: "char \<Rightarrow> bool" where
  "letter c \<longleftrightarrow> code_in 65 90 c \<or> code_in 97 122 c"

definition word_char :: "char \<Rightarrow> bool" where
  "word_char c \<longleftrightarrow> letter c \<or> digit c \<or> c = CHR 0x5F"

text \<open>Split at line feeds, with one carriage return before each dropped.\<close>

definition drop_cr :: "string \<Rightarrow> string" where
  "drop_cr l = (if l \<noteq> [] \<and> last l = CHR 0x0D then butlast l else l)"

definition split_lines :: "string \<Rightarrow> string list" where
  "split_lines s = (let ls = split_on (CHR 0x0A) s in map drop_cr (butlast ls) @ [last ls])"

definition strip_prefix :: "string \<Rightarrow> string \<Rightarrow> string option" where
  "strip_prefix p s = (if starts_with p s then Some (drop (length p) s) else None)"

definition rtrim :: "string \<Rightarrow> string" where
  "rtrim s = rev (dropWhile js_space (rev s))"

section \<open>TAP\<close>

text \<open>A line \<open>not ok N - name\<close>, the opening and the closing line of a block, and a line that reports a test.\<close>

definition not_ok_name :: "string \<Rightarrow> string option" where
  "not_ok_name line =
     (case strip_prefix ''not ok'' (skip_space line) of
        None \<Rightarrow> None
      | Some r \<Rightarrow>
          let ds = skip_space r; after = dropWhile digit ds; r1 = skip_space after;
              r2 = skip_space (case r1 of c # cs \<Rightarrow> if c = CHR ''-'' then cs else r1 | [] \<Rightarrow> [])
          in if lead r = 0 \<or> after = ds \<or> \<not> list_all re_dot r2 then None else Some (trim r2))"

definition yaml_open :: "string \<Rightarrow> nat option" where
  "yaml_open line =
     (case strip_prefix ''---'' (skip_space line) of None \<Rightarrow> None | Some r \<Rightarrow> if blank r then Some (lead line) else None)"

definition yaml_close :: "string \<Rightarrow> bool" where
  "yaml_close line = (case strip_prefix ''...'' (skip_space line) of None \<Rightarrow> False | Some r \<Rightarrow> blank r)"

definition ok_word :: "string \<Rightarrow> bool" where
  "ok_word s = (case strip_prefix ''ok'' s of None \<Rightarrow> False | Some r \<Rightarrow> r = [] \<or> \<not> word_char (hd r))"

definition ok_line :: "string \<Rightarrow> bool" where
  "ok_line line =
     (let s = skip_space line
      in ok_word s \<or> (case strip_prefix ''not'' s of None \<Rightarrow> False | Some r \<Rightarrow> 0 < lead r \<and> ok_word (skip_space r)))"

text \<open>Look for the block in the lines behind; the result is its offset and its indent.\<close>

fun find_yaml :: "nat \<Rightarrow> string list \<Rightarrow> (nat \<times> nat) option" where
  "find_yaml 0 ls = None"
| "find_yaml (Suc n) [] = None"
| "find_yaml (Suc n) (l # ls) =
     (case yaml_open l of
        Some indent \<Rightarrow> Some (0, indent)
      | None \<Rightarrow> if ok_line l then None else map_option (\<lambda>(off, indent). (Suc off, indent)) (find_yaml n ls))"

definition dedent :: "nat \<Rightarrow> string list \<Rightarrow> string list" where
  "dedent yamlIndent block =
     (let strip = (case find (\<lambda>l. trim l \<noteq> []) block of
                     None \<Rightarrow> yamlIndent + 2
                   | Some l \<Rightarrow> if lead l < yamlIndent + 2 then lead l else yamlIndent + 2)
      in map (\<lambda>l. if strip \<le> length l then drop strip l else skip_space l) block)"

definition stripYamlQuotes :: "string \<Rightarrow> string" where
  "stripYamlQuotes s =
     (let t = trim s; q = [CHR 0x27]; qq = [CHR 0x22]
      in if (starts_with q t \<and> ends_with q t) \<or> (starts_with qq t \<and> ends_with qq t) then butlast (tl t) else t)"

text \<open>The value of a key with any text behind it.\<close>

definition yaml_value :: "string \<Rightarrow> string \<Rightarrow> string option" where
  "yaml_value key line =
     (case strip_prefix (key @ '':'') line of
        None \<Rightarrow> None
      | Some r \<Rightarrow> if list_all re_dot (skip_space r) then Some (skip_space r) else None)"

text \<open>The location: white space and an opening quote are taken if the rest still matches; the value is the shortest
  one behind which only a quote and white space follow.\<close>

definition closes :: "string \<Rightarrow> bool" where
  "closes r \<longleftrightarrow> blank r \<or> (r \<noteq> [] \<and> hd r = CHR 0x27 \<and> blank (tl r))"

definition shortest_value :: "string \<Rightarrow> string option" where
  "shortest_value r =
     first_match (\<lambda>n. if closes (drop n r) then Some (take n r) else None)
       [1..<Suc (length (takeWhile (\<lambda>c. c \<noteq> CHR 0x27) r))]"

definition yaml_location :: "string \<Rightarrow> string option" where
  "yaml_location line =
     (case strip_prefix ''location:'' line of
        None \<Rightarrow> None
      | Some r \<Rightarrow>
          first_match
            (\<lambda>i. let v = drop i r
                 in first_match shortest_value ((if v \<noteq> [] \<and> hd v = CHR 0x27 then [tl v] else []) @ [v]))
            (rev [0..<Suc (lead r)]))"

text \<open>The last line that gives a value wins.\<close>

definition last_value :: "('a \<Rightarrow> 'b option) \<Rightarrow> 'a list \<Rightarrow> 'b option" where
  "last_value f ls = first_match f (rev ls)"

definition key_line :: "string \<Rightarrow> bool" where
  "key_line line =
     (let key = takeWhile (\<lambda>c. letter c \<or> c = CHR 0x5F) line; r = drop (length key) line
      in key \<noteq> [] \<and> length r \<ge> 2 \<and> hd r = CHR '':'' \<and> js_space (r ! 1))"

fun yaml_block :: "nat \<Rightarrow> nat option \<Rightarrow> string list \<Rightarrow> string list \<Rightarrow> string list" where
  "yaml_block maxLines indent out [] = out"
| "yaml_block maxLines indent out (bl # ls) =
     (if length out < maxLines then
        if blank bl then yaml_block maxLines indent (out @ [[]]) ls
        else
          let b = (case indent of None \<Rightarrow> lead bl | Some b \<Rightarrow> b)
          in if lead bl < b then out
             else if key_line (skip_space bl) \<and> lead bl + 2 \<le> b then out
             else yaml_block maxLines (Some b) (out @ [drop b bl]) ls
      else out)"

definition drop_empty_tail :: "string list \<Rightarrow> string list" where
  "drop_empty_tail ls = rev (dropWhile (\<lambda>l. l = []) (rev ls))"

fun extractYamlField :: "string \<Rightarrow> nat \<Rightarrow> string list \<Rightarrow> string list" where
  "extractYamlField key maxLines [] = []"
| "extractYamlField key maxLines (l # ls) =
     (case yaml_value key l of
        None \<Rightarrow> extractYamlField key maxLines ls
      | Some v \<Rightarrow>
          let rest = trim v
          in if starts_with ''|'' rest \<or> starts_with ''>'' rest then take maxLines (drop_empty_tail (yaml_block maxLines None [] ls))
             else if rest \<noteq> [] then take maxLines [stripYamlQuotes rest]
             else extractYamlField key maxLines ls)"

definition error_lines :: "nat \<Rightarrow> string list \<Rightarrow> string list" where
  "error_lines maxLines dedented =
     (let ls = extractYamlField ''error'' maxLines dedented
      in if ls = [] then take maxLines (filter (\<lambda>l. trim l \<noteq> [] \<and> \<not> key_line l) dedented) else ls)"

function tap_loop :: "nat \<Rightarrow> FailingTest list \<Rightarrow> string list \<Rightarrow> FailingTest list" where
  "tap_loop maxLines failures [] = failures"
| "tap_loop maxLines failures (line # ls) =
     (case not_ok_name line of
        None \<Rightarrow> tap_loop maxLines failures ls
      | Some nm \<Rightarrow>
          let shown = (if nm = [] then ''unnamed test '' @ show_nat (length failures + 1) else nm)
          in case find_yaml 3 ls of
               None \<Rightarrow> tap_loop maxLines (failures @ [\<lparr>test_name = shown, location = None, errorLines = [], expected = None, actual = None\<rparr>]) ls
             | Some (off, indent) \<Rightarrow>
                 let block = takeWhile (\<lambda>l. \<not> yaml_close l) (drop (Suc off) ls);
                     dedented = dedent indent block
                 in tap_loop maxLines
                      (failures @ [\<lparr>test_name = shown, location = last_value yaml_location dedented, errorLines = error_lines maxLines dedented,
                         expected = map_option stripYamlQuotes (last_value (yaml_value ''expected'') dedented),
                         actual = map_option stripYamlQuotes (last_value (yaml_value ''actual'') dedented)\<rparr>])
                      (drop (Suc off + length block + 1) ls))"
  by pat_completeness auto
termination
  by (relation "measure (\<lambda>(_, _, ls). length ls)") auto

definition quote_char :: "char \<Rightarrow> bool" where
  "quote_char c \<longleftrightarrow> c = CHR 0x27 \<or> c = CHR 0x22"

definition roll_up :: "string \<Rightarrow> bool" where
  "roll_up s =
     (let r = (if s \<noteq> [] \<and> quote_char (hd s) then tl s else s); after = dropWhile digit r;
          ending = (if after \<noteq> [] \<and> quote_char (last after) then butlast after else after)
      in after \<noteq> r \<and> (ending = '' subtest failed'' \<or> ending = '' subtests failed''))"

definition parseTapFailures :: "string \<Rightarrow> nat \<Rightarrow> FailingTest list" where
  "parseTapFailures raw maxLines =
     filter (\<lambda>f. \<not> roll_up (trim (case errorLines f of [] \<Rightarrow> [] | l # _ \<Rightarrow> l)))
       (tap_loop maxLines [] (split_lines (stripAnsi raw)))"

section \<open>ESLint\<close>

text \<open>A line with a path: no white space inside, a letter-only extension.\<close>

definition file_line :: "string \<Rightarrow> string option" where
  "file_line line =
     (let word = takeWhile (\<lambda>c. \<not> js_space c) line;
          ext = rev (takeWhile letter (rev word)); stem = take (length word - length ext) word
      in if word \<noteq> [] \<and> (hd word = CHR ''/'' \<or> hd word = CHR ''.'') \<and> ext \<noteq> [] \<and> length stem \<ge> 3 \<and> last stem = CHR ''.'' \<and>
            blank (drop (length word) line)
         then Some word else None)"

definition rule_char :: "char \<Rightarrow> bool" where
  "rule_char c \<longleftrightarrow> letter c \<or> digit c \<or> c \<in> {CHR ''@'', CHR ''/'', CHR 0x5F, CHR ''-''}"

text \<open>Message and rule: the rule is the last word, the message what stands before the white space in front of it.
  With no other word the message is empty, if the separator leaves white space for both.\<close>

definition message_rule :: "string \<Rightarrow> (string \<times> string) option" where
  "message_rule r =
     (let t = rtrim (skip_space r); rule = rev (takeWhile (\<lambda>c. \<not> js_space c) (rev t));
          msg = rtrim (take (length t - length rule) t)
      in if rule = [] \<or> \<not> list_all rule_char rule \<or> \<not> list_all re_dot msg then None
         else if msg = [] \<and> lead r < 2 then None
         else if lead r = 0 then None
         else Some (msg, rule))"

definition severity_of :: "string \<Rightarrow> (bool \<times> string) option" where
  "severity_of s =
     (if to_lower (take 5 s) = ''error'' then Some (True, drop 5 s)
      else if to_lower (take 7 s) = ''warning'' then Some (False, drop 7 s) else None)"

text \<open>A diagnostic: line, column, whether it is an error, message and rule.\<close>

definition diagnostic :: "string \<Rightarrow> (string \<times> string \<times> bool \<times> string \<times> string) option" where
  "diagnostic line =
     (let s = skip_space line; row = takeWhile digit s; r = drop (length row) s
      in if row = [] \<or> r = [] \<or> hd r \<noteq> CHR '':'' then None
         else
           let col = takeWhile digit (tl r); r1 = drop (length col) (tl r)
           in if col = [] \<or> lead r1 = 0 then None
              else (case severity_of (skip_space r1) of
                      None \<Rightarrow> None
                    | Some (err, r2) \<Rightarrow> map_option (\<lambda>(msg, rule). (row, col, err, msg, rule)) (message_rule r2)))"

fun eslint_loop :: "nat \<Rightarrow> string option \<Rightarrow> string list \<Rightarrow> FailingTest list" where
  "eslint_loop maxLines currentFile [] = []"
| "eslint_loop maxLines currentFile (line # ls) =
     (case file_line line of
        Some f \<Rightarrow> eslint_loop maxLines (Some f) ls
      | None \<Rightarrow>
          (case (diagnostic line, currentFile) of
             (Some (row, col, True, msg, rule), Some f) \<Rightarrow>
               let at_pos = f @ '':'' @ row @ '':'' @ col
               in \<lparr>test_name = rule @ '' ('' @ at_pos @ '')'', location = Some at_pos, errorLines = take maxLines [msg],
                   expected = None, actual = None\<rparr> # eslint_loop maxLines currentFile ls
           | _ \<Rightarrow> eslint_loop maxLines currentFile ls))"

definition parseEslintFailures :: "string \<Rightarrow> nat \<Rightarrow> FailingTest list" where
  "parseEslintFailures raw maxLines = eslint_loop maxLines None (split_lines (stripAnsi raw))"

section \<open>The tail of a log\<close>

text \<open>The lines come in reverse order, the collected ones in the order of the log.\<close>

fun tail_loop :: "nat \<Rightarrow> string list \<Rightarrow> string list \<Rightarrow> string list" where
  "tail_loop tailLines trimmed [] = trimmed"
| "tail_loop tailLines trimmed (l # ls) =
     (if length trimmed < tailLines then
        if l = [] \<and> trimmed = [] then tail_loop tailLines trimmed ls else tail_loop tailLines (l # trimmed) ls
      else trimmed)"

definition tailFailure :: "string \<Rightarrow> nat \<Rightarrow> FailingTest list" where
  "tailFailure raw tailLines =
     (let trimmed = tail_loop tailLines [] (rev (map rtrim (split_lines (stripAnsi raw))))
      in if trimmed = [] then []
         else [\<lparr>test_name = ''(unparsed failure - tail of step log)'', location = None, errorLines = trimmed, expected = None, actual = None\<rparr>])"

record log_limits =
  maxErrorLinesPerTest :: nat
  maxFailingTests :: nat
  tailLines :: nat

definition parseStepLog :: "string \<Rightarrow> string \<Rightarrow> log_limits \<Rightarrow> ParsedStepLog" where
  "parseStepLog stepName raw limits =
     (let k = classifyStep stepName;
          found = (case k of
                     TestKind \<Rightarrow> parseTapFailures raw (maxErrorLinesPerTest limits)
                   | LintKind \<Rightarrow> parseEslintFailures raw (maxErrorLinesPerTest limits)
                   | _ \<Rightarrow> []);
          failures = (if found = [] then tailFailure raw (tailLines limits) else found)
      in \<lparr>kind = k, failingTests = take (maxFailingTests limits) failures\<rparr>)"

definition default_limits :: log_limits where
  "default_limits = \<lparr>maxErrorLinesPerTest = 6, maxFailingTests = 10, tailLines = 40\<rparr>"

section \<open>What a log yields\<close>

lemma error_lines_bound: "length (error_lines m ls) \<le> m"
proof -
  have "length (extractYamlField key m ls) \<le> m" for key ls
    by (induction key m ls rule: extractYamlField.induct) (auto simp: Let_def split: option.splits)
  then show ?thesis by (simp add: error_lines_def Let_def)
qed

abbreviation error_cap :: "nat \<Rightarrow> FailingTest list \<Rightarrow> bool" where
  "error_cap m \<equiv> list_all (\<lambda>t. length (errorLines t) \<le> m)"

lemma tap_bound: "error_cap m fs \<Longrightarrow> error_cap m (tap_loop m fs ls)"
proof (induction ls arbitrary: fs rule: length_induct)
  case (1 ls)
  have ih: "error_cap m (tap_loop m (fs @ [t]) (drop n rest))"
    if "ls = line # rest" "length (errorLines t) \<le> m" for line rest t n
    using 1(1) [rule_format, of "drop n rest" "fs @ [t]"] that 1(2) by simp
  show ?case
  proof (cases ls)
    case (Cons line rest)
    with 1 have skip: "error_cap m (tap_loop m fs rest)" by simp
    show ?thesis
      using skip ih [OF Cons, where n = 0] ih [OF Cons] error_lines_bound
      by (simp add: Cons Let_def split: option.split prod.split)
  qed (use 1(2) in simp)
qed

lemma eslint_bound: "error_cap m (eslint_loop m f ls)"
proof (induction ls arbitrary: f)
  case (Cons line ls)
  show ?case
  proof (cases "diagnostic line")
    case (Some d)
    obtain row col err msg rule where "d = (row, col, err, msg, rule)" by (metis prod.exhaust)
    with Some Cons show ?thesis by (cases err) (simp_all add: Let_def split: option.split)
  qed (simp add: Cons split: option.split)
qed simp

lemma tail_loop_bound: "length acc \<le> n \<Longrightarrow> length (tail_loop n acc ls) \<le> n"
  by (induction n acc ls rule: tail_loop.induct) auto

lemma tail_loop_keeps: "acc \<noteq> [] \<Longrightarrow> tail_loop n acc ls \<noteq> []"
  by (induction n acc ls rule: tail_loop.induct) auto

lemma tail_loop_empty: "0 < n \<Longrightarrow> tail_loop n [] ls = [] \<longleftrightarrow> list_all (\<lambda>l. l = []) ls"
  by (induction ls) (auto simp: tail_loop_keeps)

lemma rtrim_empty: "rtrim l = [] \<longleftrightarrow> blank l"
  by (simp add: rtrim_def list_all_iff)

lemma tail_empty:
  assumes "0 < n"
  shows "tailFailure raw n = [] \<longleftrightarrow> list_all blank (split_lines (stripAnsi raw))"
  using tail_loop_empty [OF assms, of "rev (map rtrim (split_lines (stripAnsi raw)))"]
  by (auto simp: tailFailure_def Let_def rtrim_empty list_all_iff)

text \<open>Neither extractor finds anything in a log of blank lines.\<close>

lemma blank_skip: "blank l \<Longrightarrow> skip_space l = []"
  by (simp add: list_all_iff)

lemma blank_not_ok: "blank l \<Longrightarrow> not_ok_name l = None"
  by (simp add: not_ok_name_def strip_prefix_def starts_with_def blank_skip)

lemma blank_no_file: "blank l \<Longrightarrow> file_line l = None"
  by (cases l) (auto simp: file_line_def Let_def)

lemma blank_no_diagnostic: "blank l \<Longrightarrow> diagnostic l = None"
  by (simp add: diagnostic_def blank_skip)

lemma blank_tap: "list_all blank ls \<Longrightarrow> tap_loop m [] ls = []"
  by (induction ls) (auto simp: blank_not_ok)

lemma blank_eslint: "list_all blank ls \<Longrightarrow> eslint_loop m f ls = []"
  by (induction ls) (auto simp: blank_no_file blank_no_diagnostic)

text \<open>The record of a failed step stays within its limits, and it is never silent. Whatever the log holds, there are at most
  \<open>maxFailingTests\<close> records with at most \<open>maxErrorLinesPerTest\<close> or \<open>tailLines\<close> lines each; and with limits above
  zero there is none only if every line of the log, without its escape sequences, is blank.\<close>

theorem step_log_reported:
  assumes "0 < maxFailingTests limits" and "0 < tailLines limits"
  shows "length (failingTests (parseStepLog name raw limits)) \<le> maxFailingTests limits \<and>
    error_cap (max (maxErrorLinesPerTest limits) (tailLines limits)) (failingTests (parseStepLog name raw limits)) \<and>
    (failingTests (parseStepLog name raw limits) = [] \<longleftrightarrow> list_all blank (split_lines (stripAnsi raw)))"
proof -
  let ?m = "maxErrorLinesPerTest limits" and ?ls = "split_lines (stripAnsi raw)"
  define found where "found = (case classifyStep name of TestKind \<Rightarrow> parseTapFailures raw ?m | LintKind \<Rightarrow> parseEslintFailures raw ?m | _ \<Rightarrow> [])"
  have p: "failingTests (parseStepLog name raw limits) = take (maxFailingTests limits) (if found = [] then tailFailure raw (tailLines limits) else found)"
    by (simp add: parseStepLog_def Let_def found_def)
  have "error_cap ?m found"
    using tap_bound [of ?m "[]" ?ls] eslint_bound [of ?m None ?ls]
    by (auto simp: found_def parseTapFailures_def parseEslintFailures_def list_all_iff split: FailureKind.splits)
  moreover have "error_cap (tailLines limits) (tailFailure raw (tailLines limits))"
    by (simp add: tailFailure_def Let_def tail_loop_bound)
  moreover have "list_all blank ?ls \<Longrightarrow> found = []"
    by (auto simp: found_def parseTapFailures_def parseEslintFailures_def blank_tap blank_eslint split: FailureKind.splits)
  ultimately show ?thesis
    using assms tail_empty [OF assms(2), of raw] by (auto simp: p list_all_iff le_max_iff_disj dest!: in_set_takeD)
qed

theorem step_log_reported_witness:
  "length (failingTests (parseStepLog ''test'' ''not ok 1 - adds'' default_limits)) \<le> 10 \<and>
     map test_name (failingTests (parseStepLog ''test'' ''not ok 1 - adds'' default_limits)) = [''adds'']"
  using step_log_reported [of default_limits "''test''" "''not ok 1 - adds''"]
  by (simp add: default_limits_def, code_simp)

text \<open>Sequences nested three deep leave an escape sequence behind after the two passes of the gate, and so does the
  string terminator.\<close>

lemma nested_escapes_survive:
  "stripAnsi (stripAnsi (CHR 0x1B # CHR 0x1B # CHR 0x1B # ''[m[m[31m'')) = CHR 0x1B # ''[31m''"
  "stripAnsi [CHR 0x1B, CHR 0x5C] = [CHR 0x1B, CHR 0x5C]"
  by code_simp+

end
