(* ===== verification/Ci_Gate.thy ===== *)
theory Ci_Gate
  imports Ci_Logs Review_Flow
begin

text \<open>
  The CI gate (\<^verbatim>\<open>packages/ci/src\<close>: \<^verbatim>\<open>types.ts\<close>, \<^verbatim>\<open>parse-run-state.ts\<close>, \<^verbatim>\<open>excerpt.ts\<close>, \<^verbatim>\<open>gate.ts\<close>): how the files that agent-ci leaves
  behind become a summary, a status and the excerpt the reviewer reads, and how the gate finds them. What
  agent-ci, git and the file system do is an argument; the state of a run is given as read and parsed.
\<close>

section \<open>The state of a run and its summary\<close>

datatype AgentCIStatus = Queued | Booting | Running | Paused | Completed | Failed | Skipped

record AgentCIStep =
  step_name :: string
  step_status :: AgentCIStatus

record AgentCIJob =
  job_id :: string
  job_runnerId :: string
  job_status :: AgentCIStatus
  job_steps :: "AgentCIStep list"
  job_logDir :: "string option"
  job_failedStep :: "string option"
  job_pausedAtStep :: "string option"
  job_lastOutputLines :: "string list option"
  job_durationMs :: "int option"

record AgentCIWorkflow =
  wf_id :: string
  wf_path :: string
  wf_status :: AgentCIStatus
  wf_jobs :: "AgentCIJob list"

record AgentCIRunState =
  state_runId :: string
  state_workflows :: "AgentCIWorkflow list"

datatype TriStatus = Green | Red | Unclear

record FailedStep =
  fs_workflowId :: string
  fs_jobId :: string
  fs_stepName :: string
  fs_failureKind :: FailureKind

record CIJobSummary =
  cj_id :: string
  cj_runnerId :: string
  cj_status :: TriStatus
  cj_failedStep :: "string option"
  cj_durationMs :: "int option"
  cj_failureKind :: "FailureKind option"
  cj_failingTests :: "FailingTest list"
  cj_failureExcerpt :: "string list"

record CIWorkflowSummary =
  cw_id :: string
  cw_path :: string
  cw_status :: TriStatus
  cw_jobs :: "CIJobSummary list"

record CIRunSummary =
  run_id :: string
  run_status :: TriStatus
  run_durationMs :: int
  run_workflows :: "CIWorkflowSummary list"
  totalSteps :: nat
  failedSteps :: "FailedStep list"

definition jobStatus :: "AgentCIJob \<Rightarrow> TriStatus" where
  "jobStatus job =
     (if job_status job = Completed then Green
      else if job_status job = Failed \<or> job_status job = Paused then Red else Unclear)"

definition mapToTriStatus :: "AgentCIStatus \<Rightarrow> AgentCIStatus list \<Rightarrow> TriStatus" where
  "mapToTriStatus reported children =
     (if reported = Completed then Green
      else if reported = Failed then Red
      else if list_ex (\<lambda>s. s = Failed \<or> s = Paused) children then Red
      else if children \<noteq> [] \<and> list_all (\<lambda>s. s = Completed) children then Green
      else Unclear)"

definition deriveRunStatus :: "CIWorkflowSummary list \<Rightarrow> TriStatus" where
  "deriveRunStatus wfs =
     (if wfs = [] then Unclear
      else if list_ex (\<lambda>w. cw_status w = Red) wfs then Red
      else if list_all (\<lambda>w. cw_status w = Green) wfs then Green
      else Unclear)"

text \<open>Runs of other characters become a dash; dashes at the ends go.\<close>

fun dashed :: "bool \<Rightarrow> string \<Rightarrow> string" where
  "dashed in_run [] = []"
| "dashed in_run (c # cs) =
     (if letter c \<or> digit c then c # dashed False cs
      else if in_run then dashed True cs else CHR ''-'' # dashed True cs)"

definition sanitizeStepFilename :: "string \<Rightarrow> string" where
  "sanitizeStepFilename stepName =
     (let dash = (\<lambda>c. c = CHR ''-'') in rev (dropWhile dash (rev (dropWhile dash (dashed False stepName)))))"

definition buildJobExcerpt :: "FailingTest list \<Rightarrow> string list" where
  "buildJobExcerpt tests = drop_empty_tail (concat (map (\<lambda>t.
     (case location t of
        None \<Rightarrow> test_name t
      | Some l \<Rightarrow> if l = [] then test_name t else test_name t @ '' @ '' @ l) #
     map (\<lambda>l. ''  '' @ l) (errorLines t) @ [[]]) tests))"

definition failed_step_of :: "AgentCIJob \<Rightarrow> string option" where
  "failed_step_of job =
     (case job_failedStep job of
        Some s \<Rightarrow> Some s
      | None \<Rightarrow>
          (case job_pausedAtStep job of
             Some s \<Rightarrow> Some s
           | None \<Rightarrow> map_option step_name (find (\<lambda>s. step_status s = Failed) (job_steps job))))"

text \<open>The log of a step: its file below the log directory of the job, else the last lines of output.\<close>

definition step_log_of :: "(string \<Rightarrow> string \<Rightarrow> string option) \<Rightarrow> AgentCIJob \<Rightarrow> string \<Rightarrow> string option" where
  "step_log_of readStepLog job failedStep =
     (let from_file = (case job_logDir job of
                         None \<Rightarrow> None
                       | Some dir \<Rightarrow> if dir = [] then None else map_option stripAnsi (readStepLog dir (sanitizeStepFilename failedStep)))
      in case from_file of
           Some l \<Rightarrow> Some l
         | None \<Rightarrow>
             (case job_lastOutputLines job of
                None \<Rightarrow> None
              | Some ls \<Rightarrow> if ls = [] then None else Some (stripAnsi (lines_text ls))))"

definition job_failure ::
  "(string \<Rightarrow> string \<Rightarrow> string option) \<Rightarrow> log_limits \<Rightarrow> AgentCIJob \<Rightarrow> string \<Rightarrow> FailureKind \<times> FailingTest list \<times> string list" where
  "job_failure readStepLog limits job failedStep =
     (case step_log_of readStepLog job failedStep of
        Some stepLog \<Rightarrow>
          let parsed = parseStepLog failedStep stepLog limits
          in (kind parsed, failingTests parsed, buildJobExcerpt (failingTests parsed))
      | None \<Rightarrow> (classifyStep failedStep, [], []))"

definition summarizeJob :: "(string \<Rightarrow> string \<Rightarrow> string option) \<Rightarrow> log_limits \<Rightarrow> AgentCIJob \<Rightarrow> CIJobSummary" where
  "summarizeJob readStepLog limits job =
     (let failedStep = failed_step_of job;
          failure = (case failedStep of
                       None \<Rightarrow> None
                     | Some s \<Rightarrow> if s = [] then None else Some (job_failure readStepLog limits job s))
      in \<lparr>cj_id = job_id job, cj_runnerId = job_runnerId job, cj_status = jobStatus job, cj_failedStep = failedStep,
          cj_durationMs = job_durationMs job, cj_failureKind = map_option fst failure,
          cj_failingTests = (case failure of None \<Rightarrow> [] | Some (_, ts, _) \<Rightarrow> ts),
          cj_failureExcerpt = (case failure of None \<Rightarrow> [] | Some (_, _, ls) \<Rightarrow> ls)\<rparr>)"

definition summarizeWorkflow :: "(string \<Rightarrow> string \<Rightarrow> string option) \<Rightarrow> log_limits \<Rightarrow> AgentCIWorkflow \<Rightarrow> CIWorkflowSummary" where
  "summarizeWorkflow readStepLog limits flow =
     \<lparr>cw_id = wf_id flow, cw_path = wf_path flow, cw_status = mapToTriStatus (wf_status flow) (map job_status (wf_jobs flow)),
      cw_jobs = map (summarizeJob readStepLog limits) (wf_jobs flow)\<rparr>"

definition failed_steps_of :: "AgentCIWorkflow \<Rightarrow> AgentCIJob \<Rightarrow> FailedStep list" where
  "failed_steps_of flow job =
     map (\<lambda>s. \<lparr>fs_workflowId = wf_id flow, fs_jobId = job_id job, fs_stepName = step_name s, fs_failureKind = classifyStep (step_name s)\<rparr>)
       (filter (\<lambda>s. step_status s = Failed) (job_steps job))"

definition parseRunState :: "(string \<Rightarrow> string \<Rightarrow> string option) \<Rightarrow> log_limits \<Rightarrow> AgentCIRunState \<Rightarrow> CIRunSummary" where
  "parseRunState readStepLog limits st =
     (let wfs = map (summarizeWorkflow readStepLog limits) (state_workflows st);
          jobs = concat (map wf_jobs (state_workflows st))
      in \<lparr>run_id = state_runId st, run_status = deriveRunStatus wfs,
          run_durationMs = sum_list (map (\<lambda>j. case job_durationMs j of None \<Rightarrow> 0 | Some n \<Rightarrow> n) jobs),
          run_workflows = wfs, totalSteps = sum_list (map (\<lambda>j. length (job_steps j)) jobs),
          failedSteps = concat (map (\<lambda>flow. concat (map (failed_steps_of flow) (wf_jobs flow))) (state_workflows st))\<rparr>)"

section \<open>The excerpt\<close>

definition estimateTokens :: "string \<Rightarrow> nat" where
  "estimateTokens text = (2 * length text + 6) div 7"

fun kind_text :: "FailureKind \<Rightarrow> string" where
  "kind_text TestKind = ''test''"
| "kind_text LintKind = ''lint''"
| "kind_text TypecheckKind = ''typecheck''"
| "kind_text BuildKind = ''build''"
| "kind_text InstallKind = ''install''"
| "kind_text UnknownKind = ''unknown''"

fun status_name :: "TriStatus \<Rightarrow> string" where
  "status_name Green = ''green''"
| "status_name Red = ''red''"
| "status_name Unclear = ''unknown''"

fun status_upper :: "TriStatus \<Rightarrow> string" where
  "status_upper Green = ''GREEN''"
| "status_upper Red = ''RED''"
| "status_upper Unclear = ''UNKNOWN''"

definition formatDuration :: "int \<Rightarrow> string" where
  "formatDuration n =
     (let s = (n + 500) div 1000
      in if s < 60 then show_int s @ ''s''
         else if s mod 60 > 0 then show_int (s div 60) @ ''m '' @ show_int (s mod 60) @ ''s'' else show_int (s div 60) @ ''m'')"

definition failingJobs :: "CIRunSummary \<Rightarrow> CIJobSummary list" where
  "failingJobs s = filter (\<lambda>j. cj_status j = Red) (concat (map cw_jobs (run_workflows s)))"

definition quoted :: "string \<Rightarrow> string" where
  "quoted s = [CHR 0x22] @ s @ [CHR 0x22]"

definition renderHeader :: "CIRunSummary \<Rightarrow> nat \<Rightarrow> string list" where
  "renderHeader s failedJobCount =
     [''agent-ci run '' @ run_id s @ '': '' @ status_upper (run_status s),
      ''  workflows: '' @ show_nat (length (run_workflows s)) @ '', steps: '' @ show_nat (totalSteps s) @
        '', failed jobs: '' @ show_nat failedJobCount @ '', duration: '' @ formatDuration (run_durationMs s)] @
     (if failedSteps s = [] then []
      else ''  failed steps:'' #
        map (\<lambda>f. ''    - '' @ fs_workflowId f @ '' > '' @ fs_jobId f @ '' > '' @ quoted (fs_stepName f) @
          '' ('' @ kind_text (fs_failureKind f) @ '')'') (failedSteps s))"

definition render_test :: "FailingTest \<Rightarrow> string list" where
  "render_test t = [''  - '' @ test_name t] @
     (case location t of None \<Rightarrow> [] | Some l \<Rightarrow> if l = [] then [] else [''    at '' @ l]) @
     map (\<lambda>e. ''      '' @ e) (errorLines t)"

definition renderJobBlock :: "nat \<Rightarrow> CIJobSummary \<Rightarrow> string list" where
  "renderJobBlock maxTests job =
     [''['' @ cj_runnerId job @ ''] failed'' @
        (case cj_failedStep job of
           None \<Rightarrow> []
         | Some s \<Rightarrow> if s = [] then []
             else '' at '' @ quoted s @ '' ('' @ (case cj_failureKind job of None \<Rightarrow> ''unknown'' | Some k \<Rightarrow> kind_text k) @ '')'')] @
     (if cj_failingTests job \<noteq> [] then
        concat (map render_test (take maxTests (cj_failingTests job))) @
        (if length (cj_failingTests job) > maxTests
         then [''  ... '' @ show_nat (length (cj_failingTests job) - maxTests) @ '' more failing test(s) omitted''] else [])
      else if cj_failureExcerpt job \<noteq> [] then ''  excerpt:'' # map (\<lambda>l. ''    '' @ l) (cj_failureExcerpt job)
      else [])"

definition job_blocks :: "nat \<Rightarrow> CIJobSummary list \<Rightarrow> string list" where
  "job_blocks maxTests jobs = concat (map (\<lambda>(i, j). (if i = 0 then [] else [[]]) @ renderJobBlock maxTests j) (enumerate (0 :: nat) jobs))"

text \<open>Jobs are dropped from the tail until the text fits or one is left.\<close>

fun drop_jobs :: "nat \<Rightarrow> string list \<Rightarrow> nat \<Rightarrow> CIJobSummary list \<Rightarrow> nat \<Rightarrow> string option" where
  "drop_jobs maxTokens header overall jobs 0 = None"
| "drop_jobs maxTokens header overall jobs (Suc kept) =
     (if kept = 0 then None
      else
        let shown = take kept jobs;
            text = lines_text (header @ [[]] @ job_blocks 1 shown @
              [[], ''(excerpt truncated - '' @ show_nat (overall - kept) @ '' more failing job(s) omitted)''])
        in if estimateTokens text \<le> maxTokens then Some text else drop_jobs maxTokens header overall shown kept)"

definition header_only :: "string list \<Rightarrow> string" where
  "header_only header =
     lines_text (header @ [[], ''(excerpt truncated - all per-job detail omitted; raise maxTokens to see more)''])"

definition shrunk_excerpt :: "string list \<Rightarrow> CIJobSummary list \<Rightarrow> nat \<Rightarrow> string" where
  "shrunk_excerpt header jobs testCap =
     lines_text (header @ [[]] @ job_blocks testCap jobs @ [[], ''(excerpt truncated to fit reviewer token budget)''])"

definition fits :: "nat \<Rightarrow> string \<Rightarrow> string option" where
  "fits maxTokens text = (if estimateTokens text \<le> maxTokens then Some text else None)"

definition buildReviewerExcerpt :: "nat \<Rightarrow> nat \<Rightarrow> CIRunSummary \<Rightarrow> string" where
  "buildReviewerExcerpt maxTokens maxTests s =
     (let jobs = failingJobs s; header = renderHeader s (length jobs)
      in if jobs = [] then lines_text (renderHeader s 0)
         else
           (case fits maxTokens (lines_text (header @ [[]] @ job_blocks maxTests jobs)) of
              Some t \<Rightarrow> t
            | None \<Rightarrow>
                (case first_match (\<lambda>cap. fits maxTokens (shrunk_excerpt header jobs cap)) [3, 1] of
                   Some t \<Rightarrow> t
                 | None \<Rightarrow>
                     (case drop_jobs maxTokens header (length jobs) jobs (length jobs) of
                        Some t \<Rightarrow> t
                      | None \<Rightarrow> header_only header))))"

section \<open>Domain events\<close>

text \<open>The summary as the value the flow passes on.\<close>

definition opt_str :: "string option \<Rightarrow> js_value" where
  "opt_str x = (case x of None \<Rightarrow> JNull | Some s \<Rightarrow> JStr s)"

definition opt_num :: "int option \<Rightarrow> js_value" where
  "opt_num x = (case x of None \<Rightarrow> JNull | Some n \<Rightarrow> JNum n)"

definition test_value :: "FailingTest \<Rightarrow> js_value" where
  "test_value t = JObj ([(''name'', JStr (test_name t)), (''location'', opt_str (location t)), (''errorLines'', strings_value (errorLines t))] @
     (case expected t of None \<Rightarrow> [] | Some x \<Rightarrow> [(''expected'', JStr x)]) @
     (case actual t of None \<Rightarrow> [] | Some x \<Rightarrow> [(''actual'', JStr x)]))"

definition job_value :: "CIJobSummary \<Rightarrow> js_value" where
  "job_value j = JObj [(''id'', JStr (cj_id j)), (''runnerId'', JStr (cj_runnerId j)), (''status'', JStr (status_name (cj_status j))),
     (''failedStep'', opt_str (cj_failedStep j)), (''durationMs'', opt_num (cj_durationMs j)),
     (''failureKind'', opt_str (map_option kind_text (cj_failureKind j))), (''failingTests'', JArr (map test_value (cj_failingTests j))),
     (''failureExcerpt'', strings_value (cj_failureExcerpt j))]"

definition workflow_value :: "CIWorkflowSummary \<Rightarrow> js_value" where
  "workflow_value w = JObj [(''id'', JStr (cw_id w)), (''path'', JStr (cw_path w)), (''status'', JStr (status_name (cw_status w))),
     (''jobs'', JArr (map job_value (cw_jobs w)))]"

definition failed_step_value :: "FailedStep \<Rightarrow> js_value" where
  "failed_step_value f = JObj [(''workflowId'', JStr (fs_workflowId f)), (''jobId'', JStr (fs_jobId f)),
     (''stepName'', JStr (fs_stepName f)), (''failureKind'', JStr (kind_text (fs_failureKind f)))]"

definition summary_record :: "CIRunSummary \<Rightarrow> js_record" where
  "summary_record s = [(''runId'', JStr (run_id s)), (''status'', JStr (status_name (run_status s))), (''durationMs'', JNum (run_durationMs s)),
     (''workflows'', JArr (map workflow_value (run_workflows s))), (''totalSteps'', JNum (int (totalSteps s))),
     (''failedSteps'', JArr (map failed_step_value (failedSteps s)))]"

definition toDomainEvent :: "nat \<Rightarrow> nat \<Rightarrow> CIRunSummary \<Rightarrow> CIDomainEvent" where
  "toDomainEvent maxTokens maxTests s =
     (if run_status s = Red then CIRed (run_id s) (summary_record s) (buildReviewerExcerpt maxTokens maxTests s)
      else PatchReady (run_id s) (summary_record s))"

section \<open>The driver\<close>

text \<open>The regular expression is not anchored at its start: the leftmost place where a host, an owner and a
  repository fit is taken.\<close>

definition repo_at :: "string \<Rightarrow> string option" where
  "repo_at s =
     (case strip_prefix ''github.com'' s of
        None \<Rightarrow> None
      | Some r \<Rightarrow>
          (case r of
             [] \<Rightarrow> None
           | sep # r1 \<Rightarrow>
               let owner = takeWhile (\<lambda>c. c \<noteq> CHR ''/'') r1; r2 = drop (length owner) r1; name = tl r2;
                   repo = (if ends_with ''.git'' name \<and> 4 < length name then take (length name - 4) name else name)
               in if (sep = CHR ''/'' \<or> sep = CHR '':'') \<and> owner \<noteq> [] \<and> r2 \<noteq> [] \<and> name \<noteq> [] \<and> CHR ''/'' \<notin> set name
                  then Some (owner @ ''/'' @ repo) else None))"

fun find_repo :: "string \<Rightarrow> string option" where
  "find_repo [] = None"
| "find_repo (c # cs) = (case repo_at (c # cs) of Some r \<Rightarrow> Some r | None \<Rightarrow> find_repo cs)"

definition parseOriginToGithubRepo :: "string \<Rightarrow> string option" where
  "parseOriginToGithubRepo url = find_repo (trim url)"

definition DEFAULT_ENV_ALLOWLIST :: "string list" where
  "DEFAULT_ENV_ALLOWLIST = [''PATH'', ''HOME'', ''LANG'', ''USER'']"

text \<open>The environment of a process as a function; the entries the caller forwards in their order, a value of
  \<open>None\<close> for \<^verbatim>\<open>undefined\<close>.\<close>

type_synonym environment = "string \<Rightarrow> string option"

definition buildAllowlistedEnv :: "environment \<Rightarrow> (string \<times> string option) list \<Rightarrow> string + environment" where
  "buildAllowlistedEnv processEnv forwarded =
     (let base = fold (\<lambda>k out. case processEnv k of None \<Rightarrow> out | Some v \<Rightarrow> out(k \<mapsto> v)) DEFAULT_ENV_ALLOWLIST Map.empty;
          merged = fold (\<lambda>(k, v) out. out(k := v)) forwarded base
      in case merged ''GITHUB_REPO'' of
           None \<Rightarrow> Inl ''GITHUB_REPO must be set in the forwarded env before calling buildAllowlistedEnv''
         | Some r \<Rightarrow>
             if r = [] then Inl ''GITHUB_REPO must be set in the forwarded env before calling buildAllowlistedEnv''
             else Inr (merged(''AI_AGENT'' \<mapsto> ''1'')))"

definition diffRunDirs :: "string set \<Rightarrow> string list \<Rightarrow> string option" where
  "diffRunDirs before after =
     (let created = sort (filter (\<lambda>n. n \<notin> before \<and> starts_with ''run-'' n) after)
      in if created = [] then None else Some (last created))"

record RunGateOptions =
  gate_cwd :: string
  githubRepo :: "string option"
  bin :: "string option"
  workflow :: "string option"
  all_flag :: "bool option"
  pauseOnFailure :: bool
  extraArgs :: "string list"
  gate_env :: "(string \<times> string option) list"
  excerpt_maxTokens :: nat
  excerpt_maxFailingTests :: nat
  workingDir :: string
  rejectOnNonZeroExit :: bool

record spawn_result =
  sp_exit :: int
  sp_stdout :: string
  sp_stderr :: string

text \<open>What surrounds one run of the gate: the runtime, the output of git (\<open>None\<close> when it fails), the environment, the
  directories below \<^verbatim>\<open>runs\<close> before and after, the process, the parsed state of a run and the step logs.\<close>

record gate_world =
  has_bun :: bool
  git_origin :: "string option"
  process_env :: environment
  dirs_before :: "string list"
  dirs_after :: "string list"
  spawn_ci :: "string list \<Rightarrow> environment \<Rightarrow> string + spawn_result"
  read_state :: "string \<Rightarrow> string + AgentCIRunState"
  read_log :: "string \<Rightarrow> string \<Rightarrow> string option"

definition readGitOriginUrl :: "gate_world \<Rightarrow> string option" where
  "readGitOriginUrl w =
     (case git_origin w of None \<Rightarrow> None | Some out \<Rightarrow> if trim out = [] then None else Some (trim out))"

definition resolveGithubRepo :: "RunGateOptions \<Rightarrow> gate_world \<Rightarrow> string option" where
  "resolveGithubRepo opts w =
     (case map_of (gate_env opts) ''GITHUB_REPO'' of
        Some (Some (c # cs)) \<Rightarrow> Some (c # cs)
      | _ \<Rightarrow>
          (case githubRepo opts of
             Some (c # cs) \<Rightarrow> Some (c # cs)
           | _ \<Rightarrow> Option.bind (readGitOriginUrl w) parseOriginToGithubRepo))"

definition listRunDirNames :: "string list \<Rightarrow> string list" where
  "listRunDirNames names = filter (starts_with ''run-'') names"

definition buildArgs :: "RunGateOptions \<Rightarrow> string list" where
  "buildArgs opts =
     (let named = (case workflow opts of None \<Rightarrow> [] | Some f \<Rightarrow> if f = [] then [] else [''--workflow'', f])
      in [''run''] @ named @
         (if (case all_flag opts of None \<Rightarrow> named = [] | Some b \<Rightarrow> b) then [''--all''] else []) @ [''--quiet''] @
         (if pauseOnFailure opts then [''--pause-on-failure''] else []) @ extraArgs opts)"

definition resolveCommand :: "string option \<Rightarrow> string list \<Rightarrow> string list" where
  "resolveCommand b args =
     (case b of None \<Rightarrow> [''npx'', ''@redwoodjs/agent-ci''] @ args
      | Some p \<Rightarrow> if p = [] then [''npx'', ''@redwoodjs/agent-ci''] @ args else p # args)"

definition parseRunDir :: "gate_world \<Rightarrow> string \<Rightarrow> string + CIRunSummary" where
  "parseRunDir w dir = map_result (parseRunState (read_log w) default_limits) (read_state w dir)"

definition runGate :: "RunGateOptions \<Rightarrow> gate_world \<Rightarrow> gate_outcome" where
  "runGate opts w =
     (if \<not> has_bun w then GateThrows True ''runGate requires Bun at runtime; tests should stub the gate or skip under Vitest''
      else (case resolveGithubRepo opts w of
              None \<Rightarrow> GateThrows True (''Could not resolve GITHUB_REPO from opts.env / opts.githubRepo / git remote (cwd='' @ gate_cwd opts @ '')'')
            | Some repo \<Rightarrow>
                (case buildAllowlistedEnv (process_env w) (AList.update ''GITHUB_REPO'' (Some repo) (gate_env opts)) of
                   Inl e \<Rightarrow> GateThrows True e
                 | Inr child_env \<Rightarrow>
                     (case spawn_ci w (resolveCommand (bin opts) (buildArgs opts)) child_env of
                        Inl e \<Rightarrow> GateThrows False e
                      | Inr sp \<Rightarrow>
                          if rejectOnNonZeroExit opts \<and> sp_exit sp \<noteq> 0 then
                            GateThrows True (''agent-ci exited '' @ show_int (sp_exit sp) @ [CHR 0x0A] @ sp_stderr sp)
                          else
                            let dir = map_option (\<lambda>n. workingDir opts @ ''/runs/'' @ n)
                                  (diffRunDirs (set (listRunDirNames (dirs_before w))) (listRunDirNames (dirs_after w)));
                                parsed = (case dir of None \<Rightarrow> None | Some p \<Rightarrow> (case parseRunDir w p of Inl _ \<Rightarrow> None | Inr s \<Rightarrow> Some s))
                            in GateRan \<lparr>exitCode = sp_exit sp, gate_stdout = sp_stdout sp, gate_stderr = sp_stderr sp, runDir = dir,
                                 gate_summary = map_option summary_record parsed,
                                 domainEvent = map_option (toDomainEvent (excerpt_maxTokens opts) (excerpt_maxFailingTests opts)) parsed\<rparr>))))"

section \<open>What the status says\<close>

definition workflow_red :: "AgentCIWorkflow \<Rightarrow> bool" where
  "workflow_red flow \<longleftrightarrow> wf_status flow = Failed \<or>
     (wf_status flow \<noteq> Completed \<and> list_ex (\<lambda>j. job_status j = Failed \<or> job_status j = Paused) (wf_jobs flow))"

lemma tri_red: "cw_status (summarizeWorkflow rd lims flow) = Red \<longleftrightarrow> workflow_red flow"
  by (auto simp: summarizeWorkflow_def mapToTriStatus_def workflow_red_def list_ex_iff)

lemma run_red: "run_status (parseRunState rd lims st) = Red \<longleftrightarrow> list_ex workflow_red (state_workflows st)"
  by (auto simp: parseRunState_def Let_def deriveRunStatus_def list_ex_iff tri_red)

lemma summary_status: "field ''status'' (summary_record s) = JStr (status_name (run_status s))"
  by (simp add: summary_record_def field_def)

lemma status_name_red: "status_name t = ''red'' \<longleftrightarrow> t = Red"
  by (cases t) simp_all

section \<open>The budget of the excerpt\<close>

lemma fits_Some: "fits m t = Some u \<longleftrightarrow> u = t \<and> estimateTokens t \<le> m"
  by (auto simp: fits_def)

lemma drop_jobs_fits: "drop_jobs m h n jobs k = Some t \<Longrightarrow> estimateTokens t \<le> m \<and> (\<exists>r. t = lines_text (h @ [[]] @ r))"
  by (induction m h n jobs k rule: drop_jobs.induct) (auto simp: Let_def split: if_splits)

text \<open>The reviewer's excerpt keeps its token budget whenever it has anything to cut. It opens with the header of the
  run; with every detail it is returned as it is if that fits; and an excerpt of a run with failing jobs that
  exceeds the budget is the header with a remark, without the detail of any job.\<close>

theorem excerpt_within_budget:
  "let text = buildReviewerExcerpt maxTokens maxTests s; jobs = failingJobs s; header = renderHeader s (length jobs);
       full = lines_text (header @ [[]] @ job_blocks maxTests jobs)
   in (if jobs = [] then text = lines_text header
       else (\<exists>r. text = lines_text (header @ [[]] @ r)) \<and>
         (if estimateTokens full \<le> maxTokens then text = full
          else estimateTokens text \<le> maxTokens \<or> text = header_only header))"
proof (cases "failingJobs s = []")
  case False
  let ?h = "renderHeader s (length (failingJobs s))"
  have sh: "\<exists>r. shrunk_excerpt ?h js c = lines_text (?h @ [[]] @ r)" for js c by (auto simp: shrunk_excerpt_def)
  have ho: "\<exists>r. header_only ?h = lines_text (?h @ [[]] @ r)" by (auto simp: header_only_def)
  show ?thesis using False sh ho
    by (auto simp: buildReviewerExcerpt_def Let_def fits_def dest!: drop_jobs_fits split: option.splits if_splits)
qed (simp add: buildReviewerExcerpt_def Let_def)

text \<open>The header is not bounded: its list of failed steps alone can exceed the budget.\<close>

definition long_summary :: CIRunSummary where
  "long_summary = \<lparr>run_id = ''r'', run_status = Red, run_durationMs = 0, run_workflows = [], totalSteps = 1,
     failedSteps = [\<lparr>fs_workflowId = ''w'', fs_jobId = ''j'', fs_stepName = ''test'', fs_failureKind = TestKind\<rparr>]\<rparr>"

lemma header_exceeds_budget: "\<not> estimateTokens (buildReviewerExcerpt 20 10 long_summary) \<le> 20"
  by code_simp

section \<open>The gate and the reviewer together\<close>

text \<open>The state of the run the gate finds, if it finds and reads one.\<close>

definition run_state_of :: "RunGateOptions \<Rightarrow> gate_world \<Rightarrow> AgentCIRunState option" where
  "run_state_of opts w =
     (case diffRunDirs (set (listRunDirNames (dirs_before w))) (listRunDirNames (dirs_after w)) of
        None \<Rightarrow> None
      | Some n \<Rightarrow> (case read_state w (workingDir opts @ ''/runs/'' @ n) of Inl _ \<Rightarrow> None | Inr st \<Rightarrow> Some st))"

lemma runGate_event:
  assumes "runGate opts w = GateRan g" and "run_state_of opts w = Some st"
  shows "domainEvent g = Some (toDomainEvent (excerpt_maxTokens opts) (excerpt_maxFailingTests opts) (parseRunState (read_log w) default_limits st)) \<and>
    gate_summary g = Some (summary_record (parseRunState (read_log w) default_limits st))"
  using assms
  by (auto simp: runGate_def run_state_of_def Let_def parseRunDir_def map_result_def split: if_splits option.splits sum.splits)

lemma gate_red:
  assumes "gate_of env k = runGate opts w" and "runGate opts w = GateRan g" and "run_state_of opts w = Some st"
  shows "ci_is_red (gate_output env k) \<longleftrightarrow> list_ex workflow_red (state_workflows st)"
proof -
  let ?s = "parseRunState (read_log w) default_limits st"
  have "\<exists>c. gate_output env k = Some c \<and> cio_summary c = summary_record ?s"
    using runGate_event [OF assms(2,3)] assms(1,2) by (auto simp: gate_output_def invokeCiGate_def Let_def toDomainEvent_def)
  then show ?thesis by (auto simp: ci_is_red_def summary_status status_name_red run_red)
qed

lemma verdict_value_inject:
  "verdict_value v = verdict_value v' \<Longrightarrow> verdict v = verdict v' \<and> iterationsUsed v = iterationsUsed v'"
  by (cases "verdict v"; cases "verdict v'") (auto simp: verdict_value_def)

text \<open>C25: no approval over a red run. When the reviewer approves after the gate ran again, and the gate could
  read the files of that run, then no workflow in them is reported as failed, and one that is not reported as
  completed has no failed or paused job.\<close>

theorem approval_needs_clean_run:
  assumes "runReviewer env maxIt ctx d = (Inr out, d')" and "registerRunners cwd cap = Inr maxIt"
    and "out_value out = verdict_value v" and "verdict v = Approve" and "1 < iterationsUsed v"
    and "\<And>n. gate_of env n = runGate opts (w n)"
    and "runGate opts (w (gate_runs d' - 1)) = GateRan g" and "run_state_of opts (w (gate_runs d' - 1)) = Some st"
  shows "\<not> list_ex workflow_red (state_workflows st)"
proof -
  have "1 \<le> maxIt" using assms(2) by (auto simp: registerRunners_def result_simps Let_def)
  from reviewer_cases [OF assms(1) this] obtain v' n ci
    where le: "loop_end env maxIt 1 (extractPriorCiOutput ctx) d (Some v', n, ci) d'"
      and out: "out = okOutput (verdict_value (v'\<lparr>iterationsUsed := n\<rparr>)) None Unknown ''codex-subscription''" by auto
  have "verdict v' = Approve \<and> n = iterationsUsed v"
    using verdict_value_inject [of v "v'\<lparr>iterationsUsed := n\<rparr>"] out assms(3,4) by (auto simp: okOutput_def)
  with le assms(5) have "\<not> ci_is_red (gate_output env (gate_runs d' - 1))" by (auto simp: loop_end_def)
  then show ?thesis using gate_red [OF assms(6-8)] by simp
qed

definition demo_options :: RunGateOptions where
  "demo_options = \<lparr>gate_cwd = ''/w'', githubRepo = Some ''o/r'', bin = None, workflow = None, all_flag = None, pauseOnFailure = False,
     extraArgs = [], gate_env = [], excerpt_maxTokens = 2000, excerpt_maxFailingTests = 10, workingDir = ''/t'', rejectOnNonZeroExit = False\<rparr>"

definition demo_job :: AgentCIJob where
  "demo_job = \<lparr>job_id = ''j'', job_runnerId = ''a'', job_status = Completed, job_steps = [], job_logDir = None, job_failedStep = None,
     job_pausedAtStep = None, job_lastOutputLines = None, job_durationMs = None\<rparr>"

definition demo_state :: AgentCIRunState where
  "demo_state = \<lparr>state_runId = ''r'', state_workflows = [\<lparr>wf_id = ''f'', wf_path = ''p'', wf_status = Running, wf_jobs = [demo_job]\<rparr>]\<rparr>"

definition demo_world :: gate_world where
  "demo_world = \<lparr>has_bun = True, git_origin = None, process_env = (\<lambda>_. None), dirs_before = [''run-1''], dirs_after = [''run-1'', ''run-2''],
     spawn_ci = (\<lambda>cmd e. Inr \<lparr>sp_exit = 0, sp_stdout = [], sp_stderr = []\<rparr>), read_state = (\<lambda>dir. Inr demo_state), read_log = (\<lambda>dir f. None)\<rparr>"

definition gated_services :: services where
  "gated_services = demo_services\<lparr>gate_of := (\<lambda>n. runGate demo_options demo_world)\<rparr>"

lemma demo_gate:
  obtains g where "runGate demo_options demo_world = GateRan g" and "run_state_of demo_options demo_world = Some demo_state"
proof -
  have "case runGate demo_options demo_world of GateThrows _ _ \<Rightarrow> False | GateRan _ \<Rightarrow> True" by code_simp
  moreover have "run_state_of demo_options demo_world = Some demo_state" by code_simp
  ultimately show ?thesis using that by (auto split: gate_outcome.splits)
qed

lemma gated_review:
  "verdict_after (runReviewer gated_services 3 demo_ctx idle_desk) =
     Some (verdict_value \<lparr>verdict = Approve, feedback = ''f'', concerns = [], iterationsUsed = 2\<rparr>)"
proof (rule demo_reviewed)
  show "demo_sessions gated_services" by (simp add: gated_services_def demo_services_def)
  have "\<not> list_ex workflow_red (state_workflows demo_state)" by code_simp
  then show "\<not> ci_is_red (gate_output gated_services 0)"
    by (rule_tac demo_gate) (simp add: gate_red [where opts = demo_options and w = demo_world] gated_services_def)
qed

theorem approval_needs_clean_run_witness: "\<not> list_ex workflow_red (state_workflows demo_state)"
proof -
  obtain res d' where run: "runReviewer gated_services 3 demo_ctx idle_desk = (res, d')" by (metis prod.exhaust)
  with gated_review obtain out where res: "res = Inr out"
    and v: "out_value out = verdict_value \<lparr>verdict = Approve, feedback = ''f'', concerns = [], iterationsUsed = 2\<rparr>"
    by (auto simp: verdict_after_def split: sum.splits)
  obtain g where g: "runGate demo_options demo_world = GateRan g" and st: "run_state_of demo_options demo_world = Some demo_state"
    by (rule demo_gate)
  show ?thesis
    by (rule approval_needs_clean_run [OF run [unfolded res] demo_registered v, where w = "\<lambda>_. demo_world" and opts = demo_options and g = g])
      (simp_all add: gated_services_def g st)
qed

section \<open>What the process of the gate sees and what the gate finds\<close>

lemma fold_forwarded: "fold (\<lambda>(k, v) out. out(k := v)) fs m k = (case map_of (rev fs) k of Some v \<Rightarrow> v | None \<Rightarrow> m k)"
  by (induction fs arbitrary: m) (auto simp: map_add_def split: option.splits)

lemma fold_allowed:
  "fold (\<lambda>k out. case penv k of None \<Rightarrow> out | Some v \<Rightarrow> out(k \<mapsto> v)) ks m k = (if k \<in> set ks \<and> penv k \<noteq> None then penv k else m k)"
  by (induction ks arbitrary: m) (auto split: option.splits)

text \<open>The environment of agent-ci holds exactly the forwarded entries, the allow-listed variables of the process
  that the caller did not override or unset, and the agent flag; the call fails exactly if no repository is set.\<close>

theorem gate_environment_exact:
  "buildAllowlistedEnv penv forwarded =
     (let merged = (\<lambda>k. case map_of (rev forwarded) k of Some v \<Rightarrow> v | None \<Rightarrow> if k \<in> set DEFAULT_ENV_ALLOWLIST then penv k else None)
      in if merged ''GITHUB_REPO'' \<in> {None, Some []}
         then Inl ''GITHUB_REPO must be set in the forwarded env before calling buildAllowlistedEnv''
         else Inr (\<lambda>k. if k = ''AI_AGENT'' then Some ''1'' else merged k))"
proof -
  define base where "base = fold (\<lambda>k out. case penv k of None \<Rightarrow> out | Some v \<Rightarrow> out(k \<mapsto> v)) DEFAULT_ENV_ALLOWLIST Map.empty"
  have "base k = (if k \<in> set DEFAULT_ENV_ALLOWLIST then penv k else None)" for k by (simp add: base_def fold_allowed)
  then have "fold (\<lambda>(k, v) out. out(k := v)) forwarded base =
      (\<lambda>k. case map_of (rev forwarded) k of Some v \<Rightarrow> v | None \<Rightarrow> if k \<in> set DEFAULT_ENV_ALLOWLIST then penv k else None)"
    by (intro ext) (simp add: fold_forwarded split: option.split)
  then show ?thesis by (auto simp: buildAllowlistedEnv_def base_def [symmetric] Let_def split: option.splits)
qed

lemma last_sorted: "sorted xs \<Longrightarrow> xs \<noteq> [] \<Longrightarrow> last xs = n \<longleftrightarrow> n \<in> set xs \<and> (\<forall>m \<in> set xs. m \<le> n)"
  for n :: "'a :: linorder"
proof -
  assume a: "sorted xs" "xs \<noteq> []"
  have "m \<le> last xs" if "m \<in> set xs" for m using a(1) that by (induction xs) auto
  then show ?thesis using last_in_set [OF a(2)] by (auto intro: antisym)
qed

lemma diffRunDirs_exact:
  "diffRunDirs before after = Some n \<longleftrightarrow> n \<in> set after \<and> n \<notin> before \<and> starts_with ''run-'' n \<and>
     list_all (\<lambda>m. m \<in> before \<or> \<not> starts_with ''run-'' m \<or> m \<le> n) after"
proof (cases "filter (\<lambda>n. n \<notin> before \<and> starts_with ''run-'' n) after = []")
  case True
  then show ?thesis by (simp add: diffRunDirs_def filter_empty_conv) blast
next
  case False
  define c where "c = sort (filter (\<lambda>n. n \<notin> before \<and> starts_with ''run-'' n) after)"
  have "length c = length (filter (\<lambda>n. n \<notin> before \<and> starts_with ''run-'' n) after)" by (simp only: c_def length_sort)
  with False have "c \<noteq> []" by (cases c) (simp_all del: filter_empty_conv)
  then have "last c = n \<longleftrightarrow> n \<in> set c \<and> (\<forall>m \<in> set c. m \<le> n)" by (intro last_sorted) (simp_all add: c_def)
  moreover have "diffRunDirs before after = Some n \<longleftrightarrow> last c = n"
    using \<open>c \<noteq> []\<close> by (simp add: diffRunDirs_def c_def [symmetric] Let_def)
  moreover have "set c = {n \<in> set after. n \<notin> before \<and> starts_with ''run-'' n}" by (simp add: c_def conj_ac)
  ultimately show ?thesis by (simp only: list_all_iff mem_Collect_eq) blast
qed

text \<open>A remote of another host is taken for a GitHub repository.\<close>

lemma foreign_remote_accepted: "parseOriginToGithubRepo ''https://example.org/github.com/o/r.git'' = Some ''o/r''"
  by code_simp

text \<open>A run without workflows, hence without any result, counts as ready.\<close>

lemma empty_run_is_ready:
  "toDomainEvent m k (parseRunState rd lims \<lparr>state_runId = r, state_workflows = []\<rparr>) =
     PatchReady r (summary_record (parseRunState rd lims \<lparr>state_runId = r, state_workflows = []\<rparr>))"
  by (simp add: toDomainEvent_def parseRunState_def deriveRunStatus_def)

end
