(* ===== verification/Agent_Events.thy ===== *)
theory Agent_Events
  imports Rpc_Desk
begin

text \<open>
  What every vendor adapter emits: the event kinds (\<^verbatim>\<open>packages/shared/src/events.ts\<close>), the envelope and its state
  (\<^verbatim>\<open>packages/adapters/base/src/correlation.ts\<close>), the stamping of costs (\<^verbatim>\<open>cost-stamping.ts\<close>) and the summary of tool
  results (\<^verbatim>\<open>tool-result.ts\<close>). Clock and id factories are functions of the number of earlier calls. Raw event
  references are left out.
\<close>

section \<open>Events\<close>

datatype session_source = Spawn | Resume | Fork

datatype decision = Pending | Allow | Deny | Ask

datatype confidence = ExactCost | EstimateCost | UnknownCost

record tokens =
  tok_input :: int
  tok_output :: int
  tok_cacheRead :: "int option"
  tok_cacheCreation :: "int option"

record cache_stats =
  hits :: int
  misses :: int

datatype Payload =
    SessionStart session_source
  | SessionEnd string
  | Reasoning string "string option"
  | AssistantDelta string
  | AssistantMessage string string
  | ToolCall string string js_value
  | ToolResult string bool string nat
  | PermissionRequest string decision
  | PatchApplied "string list" int int
  | Checkpoint string
  | Stdout string
  | Stderr string
  | Usage string tokens cache_stats
  | Cost "rat option" confidence string
  | RateLimit string string "int option"
  | Interrupt string bool
  | TurnEnd string int
  | ErrorOf bool string string bool

record EventEnvelope =
  ev_eventId :: string
  ev_runId :: string
  ev_sessionId :: "string option"
  ev_turnId :: string
  ev_parent :: "string option"
  ev_seq :: nat
  ev_monotonic :: int
  ev_wall :: int
  ev_vendor :: string

record AgentEvent = EventEnvelope +
  payload :: Payload

section \<open>Correlation\<close>

text \<open>The factories: a clock reading gives monotonic and wall time.\<close>

record factories =
  clock_of :: "nat \<Rightarrow> int \<times> int"
  eventId_of :: "nat \<Rightarrow> string"
  turnId_of :: "nat \<Rightarrow> string"
  toolId_of :: "nat \<Rightarrow> string"

text \<open>The state; \<open>None\<close> as the last monotonic time stands for minus infinity. \<open>turns_drawn\<close> and \<open>tools_drawn\<close> count
  the calls of two factories; clock and event ids are drawn once per envelope, which \<open>corr_seq\<close> counts.\<close>

record CorrelationState =
  corr_runId :: string
  corr_vendor :: string
  corr_sessionId :: "string option"
  corr_seq :: nat
  lastMonotonic :: "int option"
  lastWall :: int
  currentTurnId :: "string option"
  turnClosed :: bool
  corr_parents :: "string \<Rightarrow> string option"
  turns_drawn :: nat
  tools_drawn :: nat

definition new_CorrelationState :: "string \<Rightarrow> string option \<Rightarrow> string \<Rightarrow> CorrelationState" where
  "new_CorrelationState rid sid vendor =
     \<lparr>corr_runId = rid, corr_vendor = vendor, corr_sessionId = sid, corr_seq = 0, lastMonotonic = None, lastWall = 0,
      currentTurnId = None, turnClosed = False, corr_parents = Map.empty, turns_drawn = 0, tools_drawn = 0\<rparr>"

definition bindSession :: "string option \<Rightarrow> 'a CorrelationState_scheme \<Rightarrow> 'a CorrelationState_scheme" where
  "bindSession sid c = c\<lparr>corr_sessionId := sid\<rparr>"

definition startTurn :: "factories \<Rightarrow> string option \<Rightarrow> 'a CorrelationState_scheme \<Rightarrow> 'a CorrelationState_scheme" where
  "startTurn fs tid c =
     (case tid of
        Some t \<Rightarrow> c\<lparr>currentTurnId := Some t, turnClosed := False\<rparr>
      | None \<Rightarrow> c\<lparr>currentTurnId := Some (turnId_of fs (turns_drawn c)), turnClosed := False, turns_drawn := Suc (turns_drawn c)\<rparr>)"

definition endTurn :: "'a CorrelationState_scheme \<Rightarrow> 'a CorrelationState_scheme" where
  "endTurn c = c\<lparr>turnClosed := True\<rparr>"

definition rememberToolCall :: "string \<Rightarrow> string \<Rightarrow> 'a CorrelationState_scheme \<Rightarrow> 'a CorrelationState_scheme" where
  "rememberToolCall tool eid c = c\<lparr>corr_parents := (corr_parents c)(tool \<mapsto> eid)\<rparr>"

definition parentForToolResult :: "string \<Rightarrow> 'a CorrelationState_scheme \<Rightarrow> string option" where
  "parentForToolResult tool c = corr_parents c tool"

definition clamp_monotonic :: "int \<Rightarrow> int option \<Rightarrow> int" where
  "clamp_monotonic t prev = (case prev of None \<Rightarrow> t | Some l \<Rightarrow> if t < l then l else t)"

text \<open>\<open>explicit\<close> is the turn id of the input, \<open>parent\<close> its parent event.\<close>

definition make_envelope ::
  "factories \<Rightarrow> string option \<Rightarrow> string option \<Rightarrow> 'a CorrelationState_scheme \<Rightarrow> string + EventEnvelope \<times> 'a CorrelationState_scheme" where
  "make_envelope fs explicit parent c =
     (case (case explicit of Some t \<Rightarrow> Some t | None \<Rightarrow> currentTurnId c) of
        None \<Rightarrow> Inl ''CorrelationState.envelope() called without an active turn; call startTurn() first''
      | Some t \<Rightarrow>
          if t = [] then Inl ''CorrelationState.envelope() called without an active turn; call startTurn() first''
          else if turnClosed c \<and> explicit \<in> {None, Some []} then
            Inl ''CorrelationState.envelope() called after endTurn(); restart a turn before emitting''
          else
            let (monotonic, wall) = clock_of fs (corr_seq c);
                m = clamp_monotonic monotonic (lastMonotonic c);
                w = (if wall < lastWall c then lastWall c else wall);
                n = Suc (corr_seq c)
            in Inr (\<lparr>ev_eventId = eventId_of fs (corr_seq c), ev_runId = corr_runId c, ev_sessionId = corr_sessionId c, ev_turnId = t,
                 ev_parent = parent, ev_seq = n, ev_monotonic = m, ev_wall = w, ev_vendor = corr_vendor c\<rparr>,
                 c\<lparr>lastMonotonic := Some m, lastWall := w, corr_seq := n\<rparr>))"

definition with_payload :: "EventEnvelope \<Rightarrow> Payload \<Rightarrow> AgentEvent" where
  "with_payload e p = EventEnvelope.extend e \<lparr>payload = p\<rparr>"

lemma with_payload_fields [simp]:
  "payload (with_payload e p) = p" "ev_eventId (with_payload e p) = ev_eventId e" "ev_parent (with_payload e p) = ev_parent e"
  "ev_turnId (with_payload e p) = ev_turnId e" "ev_seq (with_payload e p) = ev_seq e"
  "ev_monotonic (with_payload e p) = ev_monotonic e" "ev_wall (with_payload e p) = ev_wall e"
  by (simp_all add: with_payload_def EventEnvelope.extend_def)

section \<open>Costs\<close>

datatype cost_reporting = NativeCosts | ComputedCosts | SubscriptionCosts | UnknownCosts

definition stampCostEventFromCapability :: "cost_reporting \<Rightarrow> AgentEvent \<Rightarrow> AgentEvent" where
  "stampCostEventFromCapability cap e =
     (case payload e of
        Cost usd conf src \<Rightarrow>
          e\<lparr>payload := (case cap of
             NativeCosts \<Rightarrow> Cost usd ExactCost ''vendor''
           | ComputedCosts \<Rightarrow> Cost usd EstimateCost ''computed''
           | SubscriptionCosts \<Rightarrow> Cost None UnknownCost ''subscription''
           | UnknownCosts \<Rightarrow> Cost None UnknownCost ''unknown'')\<rparr>
      | _ \<Rightarrow> e)"

section \<open>Summaries of tool results\<close>

text \<open>The ellipsis is the three bytes of its UTF-8 encoding.\<close>

definition ELLIPSIS :: string where
  "ELLIPSIS = [CHR 0xE2, CHR 0x80, CHR 0xA6]"

definition truncationSuffix :: "int \<Rightarrow> string" where
  "truncationSuffix totalBytes = '' '' @ ELLIPSIS @ '' (truncated, '' @ show_int totalBytes @ ''B)''"

definition ascii_space :: "char \<Rightarrow> bool" where
  "ascii_space c \<longleftrightarrow> c \<in> {CHR 0x20, CHR 0x09, CHR 0x0A, CHR 0x0D}"

definition trimRight :: "string \<Rightarrow> string" where
  "trimRight s = rev (dropWhile ascii_space (rev s))"

record cut_scan =
  objDepth :: int
  arrDepth :: int
  inString :: bool
  escaped :: bool
  lastBalanced :: "nat option"

text \<open>One character at index \<open>i\<close>.\<close>

definition scan_char :: "nat \<Rightarrow> char \<Rightarrow> cut_scan \<Rightarrow> cut_scan" where
  "scan_char i ch s =
     (if inString s then
        (if escaped s then s\<lparr>escaped := False\<rparr>
         else if ch = CHR 0x5C then s\<lparr>escaped := True\<rparr>
         else if ch = CHR 0x22 then s\<lparr>inString := False\<rparr> else s)
      else if ch = CHR 0x22 then s\<lparr>inString := True\<rparr>
      else
        let s1 = (if ch = CHR ''{'' then s\<lparr>objDepth := objDepth s + 1\<rparr>
                  else if ch = CHR ''}'' then s\<lparr>objDepth := objDepth s - 1\<rparr>
                  else if ch = CHR ''['' then s\<lparr>arrDepth := arrDepth s + 1\<rparr>
                  else if ch = CHR '']'' then s\<lparr>arrDepth := arrDepth s - 1\<rparr> else s)
        in if objDepth s1 = 0 \<and> arrDepth s1 = 0 \<and> i > 0 then s1\<lparr>lastBalanced := Some (Suc i)\<rparr> else s1)"

definition findBalancedJsonCut :: "string \<Rightarrow> nat \<Rightarrow> nat option" where
  "findBalancedJsonCut text maxChars =
     lastBalanced (fold (\<lambda>(i, ch). scan_char i ch) (enumerate 0 (take maxChars text))
       \<lparr>objDepth = 0, arrDepth = 0, inString = False, escaped = False, lastBalanced = None\<rparr>)"

definition looksLikeJson :: "string \<Rightarrow> bool" where
  "looksLikeJson text =
     (case dropWhile ascii_space text of [] \<Rightarrow> False | ch # _ \<Rightarrow> ch = CHR ''{'' \<or> ch = CHR ''['')"

definition summarizeToolResult :: "int \<Rightarrow> string \<Rightarrow> int \<Rightarrow> string" where
  "summarizeToolResult total_bytes text maxChars =
     (if maxChars \<le> 0 then []
      else if int (length text) \<le> maxChars then text
      else
        let m = nat maxChars;
            cut = (if looksLikeJson text then
                     (case findBalancedJsonCut text m of
                        Some b \<Rightarrow> if b \<ge> m div 2 then b else m
                      | None \<Rightarrow> m)
                   else m)
        in trimRight (take cut text) @ truncationSuffix total_bytes)"

lemma scan_bound:
  "(\<And>b. lastBalanced s = Some b \<Longrightarrow> b \<le> n) \<Longrightarrow> i < n \<Longrightarrow> lastBalanced (scan_char i ch s) = Some b \<Longrightarrow> b \<le> n"
  by (auto simp: scan_char_def Let_def split: if_splits)

lemma fold_scan_bound:
  "(\<And>b. lastBalanced s = Some b \<Longrightarrow> b \<le> n) \<Longrightarrow> k + length xs \<le> n \<Longrightarrow>
     lastBalanced (fold (\<lambda>(i, ch). scan_char i ch) (enumerate k xs) s) = Some b \<Longrightarrow> b \<le> n"
proof (induction xs arbitrary: k s)
  case (Cons x xs)
  show ?case
    by (rule Cons.IH [of "scan_char k x s" "Suc k"]) (use Cons.prems scan_bound [of s n k x] in auto)
qed simp

lemma cut_bound: "findBalancedJsonCut text m = Some b \<Longrightarrow> b \<le> m"
  unfolding findBalancedJsonCut_def by (erule fold_scan_bound [rotated 2]) simp_all

text \<open>A summary is the text itself or at most \<open>maxChars\<close> characters of it with the suffix.\<close>

lemma summary_bounded:
  assumes "0 < maxChars"
  shows "summarizeToolResult n text maxChars = text \<or>
    (\<exists>k \<le> nat maxChars. summarizeToolResult n text maxChars = trimRight (take k text) @ truncationSuffix n)"
  using assms cut_bound [of "text" "nat maxChars"]
  by (auto simp: summarizeToolResult_def Let_def split: option.splits if_splits)

text \<open>The balanced cut looks for an end of all brackets inside the window, so it never applies to one long array.\<close>

lemma array_not_balanced: "summarizeToolResult 12 ''[1,2,3,4,5]'' 8 = ''[1,2,3,4'' @ truncationSuffix 12"
  by code_simp

end
