(* ===== verification/Projection.thy ===== *)
theory Projection
  imports Agent_Events
begin

text \<open>
  What the projectors of the vendor adapters share (\<^verbatim>\<open>packages/adapters/*/src/projection.ts\<close>; the shared parts are
  written out in each, taken here from the one of Cursor): a state that extends the correlation state, steps
  that emit events and may throw, and the contract of a projector. A projector is good when its runs never
  throw and the log they produce is numbered without gaps, ordered in time, links every tool result to the
  call it belongs to and carries no event of a turn behind the end of that turn. A locale states what a
  projector's step has to keep for this; every vendor interprets it but Claude, whose turns are opened by its handle.
\<close>

section \<open>Steps\<close>

type_synonym 's proj = "'s \<Rightarrow> string + AgentEvent list \<times> 's"

definition skip :: "'s proj" where
  "skip s = Inr ([], s)"

definition modify :: "('s \<Rightarrow> 's) \<Rightarrow> 's proj" where
  "modify f s = Inr ([], f s)"

definition reading :: "('s \<Rightarrow> 's proj) \<Rightarrow> 's proj" where
  "reading f s = f s s"

definition andThen :: "'s proj \<Rightarrow> 's proj \<Rightarrow> 's proj" where
  "andThen f g s = bind_result (f s) (\<lambda>(out, s'). map_result (\<lambda>(out', s''). (out @ out', s'')) (g s'))"

primrec steps :: "'s proj list \<Rightarrow> 's proj" where
  "steps [] = skip"
| "steps (f # fs) = andThen f (steps fs)"

definition each :: "('e \<Rightarrow> 's proj) \<Rightarrow> 'e list \<Rightarrow> 's proj" where
  "each f xs = steps (map f xs)"

definition emit_with :: "factories \<Rightarrow> string option \<Rightarrow> Payload \<Rightarrow> 'a CorrelationState_scheme proj" where
  "emit_with fs parent p s = map_result (\<lambda>(e, s'). ([with_payload e p], s')) (make_envelope fs None parent s)"

abbreviation emit :: "factories \<Rightarrow> Payload \<Rightarrow> 'a CorrelationState_scheme proj" where
  "emit fs \<equiv> emit_with fs None"

section \<open>The state of a projector\<close>

record ProjectionState = CorrelationState +
  sessionStartEmitted :: bool
  turnOpen :: bool
  toolCallIds :: "string \<Rightarrow> string option"
  toolCallParents :: "string \<Rightarrow> string option"
  toolCallsEmitted :: "string set"
  toolResultsEmitted :: "string set"
  boundSessionId :: "string option"

text \<open>\<open>x\<close> holds the fields of a vendor.\<close>

definition createProjectionState :: "CorrelationState \<Rightarrow> 'a \<Rightarrow> 'a ProjectionState_scheme" where
  "createProjectionState c x =
     \<lparr>corr_runId = corr_runId c, corr_vendor = corr_vendor c, corr_sessionId = corr_sessionId c, corr_seq = corr_seq c,
      lastMonotonic = lastMonotonic c, lastWall = lastWall c, currentTurnId = currentTurnId c, turnClosed = turnClosed c,
      corr_parents = corr_parents c, turns_drawn = turns_drawn c, tools_drawn = tools_drawn c,
      sessionStartEmitted = False, turnOpen = False, toolCallIds = Map.empty, toolCallParents = Map.empty,
      toolCallsEmitted = {}, toolResultsEmitted = {}, boundSessionId = None, \<dots> = x\<rparr>"

definition openTurnIfNeeded :: "factories \<Rightarrow> 'a ProjectionState_scheme proj" where
  "openTurnIfNeeded fs = reading (\<lambda>s. if turnOpen s then skip else modify (\<lambda>s. (startTurn fs None s)\<lparr>turnOpen := True\<rparr>))"

text \<open>The id of a vendor's tool call, or a new one, and the state after drawing it.\<close>

definition lookup_or_mint :: "factories \<Rightarrow> string \<Rightarrow> 'a ProjectionState_scheme \<Rightarrow> string \<times> 'a ProjectionState_scheme" where
  "lookup_or_mint fs v s =
     (case toolCallIds s v of
        Some t \<Rightarrow> (t, s)
      | None \<Rightarrow> (toolId_of fs (tools_drawn s), s\<lparr>tools_drawn := Suc (tools_drawn s)\<rparr>))"

definition stored_id :: "factories \<Rightarrow> string \<Rightarrow> 'a ProjectionState_scheme \<Rightarrow> string \<times> 'a ProjectionState_scheme" where
  "stored_id fs v s = (case lookup_or_mint fs v s of (t, s1) \<Rightarrow> (t, s1\<lparr>toolCallIds := (toolCallIds s1)(v \<mapsto> t)\<rparr>))"

definition tool_call_once :: "factories \<Rightarrow> string \<Rightarrow> string \<Rightarrow> js_value \<Rightarrow> 'a ProjectionState_scheme proj" where
  "tool_call_once fs v tool args s =
     (if v \<in> toolCallsEmitted s then skip s
      else (case stored_id fs v s of
              (t, s1) \<Rightarrow>
                map_result
                  (\<lambda>(e, s2). ([with_payload e (ToolCall t tool args)],
                     (rememberToolCall t (ev_eventId e) s2)
                       \<lparr>toolCallParents := (toolCallParents s2)(v \<mapsto> ev_eventId e), toolCallsEmitted := insert v (toolCallsEmitted s2)\<rparr>))
                  (make_envelope fs None None s1)))"

text \<open>A result, with the id that \<open>draw\<close> gives; some projectors store a new id, some do not.\<close>

definition tool_result_by ::
  "(string \<Rightarrow> 'a ProjectionState_scheme \<Rightarrow> string \<times> 'a ProjectionState_scheme) \<Rightarrow> factories \<Rightarrow> string \<Rightarrow> bool \<Rightarrow> string \<Rightarrow> 'a ProjectionState_scheme proj" where
  "tool_result_by draw fs v okay summary s =
     (if v \<in> toolResultsEmitted s then skip s
      else (case draw v s of
              (t, s1) \<Rightarrow>
                map_result
                  (\<lambda>(e, s2). ([with_payload e (ToolResult t okay summary (length summary))],
                     s2\<lparr>toolResultsEmitted := insert v (toolResultsEmitted s2)\<rparr>))
                  (make_envelope fs None (toolCallParents s1 v) s1)))"

definition maybeEmitToolResult :: "factories \<Rightarrow> string \<Rightarrow> bool \<Rightarrow> string \<Rightarrow> 'a ProjectionState_scheme proj" where
  "maybeEmitToolResult fs = tool_result_by (stored_id fs) fs"

definition close_turn :: "'a ProjectionState_scheme proj" where
  "close_turn = modify (\<lambda>s. (endTurn s)\<lparr>turnOpen := False\<rparr>)"

section \<open>Well-formed logs\<close>

definition called :: "AgentEvent list \<Rightarrow> string \<Rightarrow> string \<Rightarrow> bool" where
  "called hist t p \<longleftrightarrow> (\<exists>e \<in> set hist. ev_eventId e = p \<and> (\<exists>tool args. payload e = ToolCall t tool args))"

definition event_linked :: "AgentEvent list \<Rightarrow> AgentEvent \<Rightarrow> bool" where
  "event_linked hist e \<longleftrightarrow>
     (case ev_parent e of
        None \<Rightarrow> True
      | Some p \<Rightarrow> (case payload e of
                     ToolResult t _ _ _ \<Rightarrow> called hist t p
                   | _ \<Rightarrow> (\<exists>t. called hist t p)))"

definition is_turn_end :: "AgentEvent \<Rightarrow> bool" where
  "is_turn_end e = (case payload e of TurnEnd _ _ \<Rightarrow> True | _ \<Rightarrow> False)"

definition ended_turns :: "AgentEvent list \<Rightarrow> string set" where
  "ended_turns hist = ev_turnId ` {e \<in> set hist. is_turn_end e}"

text \<open>Judged event by event, each with the events in front of it.\<close>

inductive well_formed :: "factories \<Rightarrow> AgentEvent list \<Rightarrow> bool" for fs where
  empty: "well_formed fs []"
| more: "well_formed fs hist \<Longrightarrow> ev_seq e = Suc (length hist) \<Longrightarrow> ev_eventId e = eventId_of fs (length hist) \<Longrightarrow>
    (\<forall>d \<in> set hist. ev_monotonic d \<le> ev_monotonic e \<and> ev_wall d \<le> ev_wall e) \<Longrightarrow>
    event_linked hist e \<Longrightarrow> ev_turnId e \<notin> ended_turns hist \<Longrightarrow> well_formed fs (hist @ [e])"

inductive_simps well_formed_snoc: "well_formed fs (hist @ [e])"

definition call_ids :: "AgentEvent list \<Rightarrow> string list" where
  "call_ids hist = List.map_filter (\<lambda>e. case payload e of ToolCall t _ _ \<Rightarrow> Some t | _ \<Rightarrow> None) hist"

definition result_ids :: "AgentEvent list \<Rightarrow> string list" where
  "result_ids hist = List.map_filter (\<lambda>e. case payload e of ToolResult t _ _ _ \<Rightarrow> Some t | _ \<Rightarrow> None) hist"

text \<open>The factories draw turn ids that are not empty and never repeat an id of a turn or a tool call.\<close>

definition fresh_ids :: "factories \<Rightarrow> bool" where
  "fresh_ids fs \<longleftrightarrow> (\<forall>k. turnId_of fs k \<noteq> []) \<and> inj (turnId_of fs) \<and> inj (toolId_of fs)"

section \<open>Keeping a property of state and hist\<close>

definition keeps :: "('s \<Rightarrow> AgentEvent list \<Rightarrow> bool) \<Rightarrow> 's proj \<Rightarrow> ('s \<Rightarrow> AgentEvent list \<Rightarrow> bool) \<Rightarrow> bool" where
  "keeps P f Q \<longleftrightarrow> (\<forall>s hist. P s hist \<longrightarrow> (\<exists>out s'. f s = Inr (out, s') \<and> Q s' (hist @ out)))"

named_theorems keeps_rules "rules for the steps of a projector"

lemma keepsI: "(\<And>s hist. P s hist \<Longrightarrow> \<exists>out s'. f s = Inr (out, s') \<and> Q s' (hist @ out)) \<Longrightarrow> keeps P f Q"
  by (simp add: keeps_def)

lemma keeps_skip [keeps_rules]: "keeps P skip P"
  by (simp add: keeps_def skip_def)

lemma keeps_modify: "(\<And>s hist. P s hist \<Longrightarrow> Q (f s) hist) \<Longrightarrow> keeps P (modify f) Q"
  by (simp add: keeps_def modify_def)

lemma keeps_reading: "(\<And>s0. keeps (\<lambda>s hist. P s hist \<and> s = s0) (f s0) Q) \<Longrightarrow> keeps P (reading f) Q"
  by (simp add: keeps_def reading_def)

lemma keeps_read [keeps_rules]: "(\<And>s0. keeps P (f s0) Q) \<Longrightarrow> keeps P (reading f) Q"
  by (rule keeps_reading) (simp add: keeps_def)

lemma keeps_pre: "keeps P f Q \<Longrightarrow> (\<And>s hist. P' s hist \<Longrightarrow> P s hist) \<Longrightarrow> keeps P' f Q"
  by (auto simp: keeps_def)

lemma keeps_post: "keeps P f Q \<Longrightarrow> (\<And>s hist. Q s hist \<Longrightarrow> Q' s hist) \<Longrightarrow> keeps P f Q'"
  unfolding keeps_def by meson

lemma keeps_andThen:
  assumes "keeps P f Q" and "keeps Q g R"
  shows "keeps P (andThen f g) R"
proof (rule keepsI)
  fix s hist assume "P s hist"
  with assms(1) obtain out s' where f: "f s = Inr (out, s')" "Q s' (hist @ out)" unfolding keeps_def by blast
  with assms(2) obtain out' s'' where "g s' = Inr (out', s'')" "R s'' ((hist @ out) @ out')" unfolding keeps_def by blast
  with f(1) show "\<exists>out s'. andThen f g s = Inr (out, s') \<and> R s' (hist @ out)" by (auto simp: andThen_def map_result_def)
qed

lemma keeps_seq [keeps_rules]: "keeps P f P \<Longrightarrow> keeps P g P \<Longrightarrow> keeps P (andThen f g) P"
  by (rule keeps_andThen)

lemma keeps_steps: "list_all (\<lambda>f. keeps P f P) fs \<Longrightarrow> keeps P (steps fs) P"
  by (induction fs) (auto intro: keeps_skip keeps_andThen)

lemma keeps_each: "(\<And>x. x \<in> set xs \<Longrightarrow> keeps P (f x) P) \<Longrightarrow> keeps P (each f xs) P"
  by (auto simp: each_def list_all_iff intro!: keeps_steps)

lemma keeps_if [keeps_rules]: "keeps P f Q \<Longrightarrow> keeps P g Q \<Longrightarrow> keeps P (if b then f else g) Q"
  by simp

section \<open>The correlation state keeps the log in order\<close>

text \<open>\<open>is_open\<close> says that a turn is open whose end has not been emitted.\<close>

definition stream_ok :: "factories \<Rightarrow> bool \<Rightarrow> 'a CorrelationState_scheme \<Rightarrow> AgentEvent list \<Rightarrow> bool" where
  "stream_ok fs is_open s hist \<longleftrightarrow> fresh_ids fs \<and> well_formed fs hist \<and> corr_seq s = length hist \<and>
     (\<forall>e \<in> set hist. (\<exists>l. lastMonotonic s = Some l \<and> ev_monotonic e \<le> l) \<and> ev_wall e \<le> lastWall s) \<and>
     (\<forall>t \<in> ended_turns hist. \<exists>k < turns_drawn s. t = turnId_of fs k) \<and>
     (is_open \<longrightarrow> (\<exists>k < turns_drawn s. currentTurnId s = Some (turnId_of fs k)) \<and> \<not> turnClosed s \<and>
        the (currentTurnId s) \<notin> ended_turns hist)"

lemma stream_empty: "fresh_ids fs \<Longrightarrow> corr_seq s = 0 \<Longrightarrow> stream_ok fs False s []"
  by (simp add: stream_ok_def well_formed.empty ended_turns_def)

lemma stream_start:
  assumes "stream_ok fs b s hist"
  shows "stream_ok fs True (startTurn fs None s) hist"
proof -
  have "turnId_of fs (turns_drawn s) \<notin> ended_turns hist"
    using assms by (auto simp: stream_ok_def fresh_ids_def dest: injD)
  then show ?thesis using assms by (auto simp: stream_ok_def startTurn_def less_Suc_eq)
qed

lemma stream_end: "stream_ok fs b s hist \<Longrightarrow> stream_ok fs False (endTurn s) hist"
  by (simp add: stream_ok_def endTurn_def)

lemma stream_close: "stream_ok fs b s hist \<Longrightarrow> stream_ok fs False s hist"
  by (simp add: stream_ok_def)

lemma stream_emit:
  assumes "stream_ok fs True s hist"
  shows "\<exists>e s'. make_envelope fs None parent s = Inr (e, s') \<and>
    s' = s\<lparr>lastMonotonic := Some (ev_monotonic e), lastWall := ev_wall e, corr_seq := Suc (corr_seq s)\<rparr> \<and>
    ev_parent e = parent \<and> ev_eventId e = eventId_of fs (corr_seq s) \<and>
    (event_linked hist (with_payload e p) \<longrightarrow> stream_ok fs (\<not> is_turn_end (with_payload e p)) s' (hist @ [with_payload e p]))"
proof -
  obtain k where t: "currentTurnId s = Some (turnId_of fs k)" "k < turns_drawn s" "turnId_of fs k \<noteq> []" "\<not> turnClosed s"
    "turnId_of fs k \<notin> ended_turns hist" using assms by (auto simp: stream_ok_def fresh_ids_def)
  obtain m w where cl: "clock_of fs (corr_seq s) = (m, w)" by force
  let ?m = "clamp_monotonic m (lastMonotonic s)" and ?w = "if w < lastWall s then lastWall s else w"
  let ?e = "\<lparr>ev_eventId = eventId_of fs (corr_seq s), ev_runId = corr_runId s, ev_sessionId = corr_sessionId s, ev_turnId = turnId_of fs k,
    ev_parent = parent, ev_seq = Suc (corr_seq s), ev_monotonic = ?m, ev_wall = ?w, ev_vendor = corr_vendor s\<rparr>"
  let ?s' = "s\<lparr>lastMonotonic := Some ?m, lastWall := ?w, corr_seq := Suc (corr_seq s)\<rparr>"
  have mk: "make_envelope fs None parent s = Inr (?e, ?s')" using t cl by (simp add: make_envelope_def Let_def)
  have times: "\<forall>d \<in> set hist. ev_monotonic d \<le> ?m \<and> ev_wall d \<le> ?w"
    using assms by (force simp: stream_ok_def clamp_monotonic_def)
  have ended: "ended_turns (hist @ [e]) = ended_turns hist \<union> (if is_turn_end e then {ev_turnId e} else {})" for e
    by (auto simp: ended_turns_def)
  have "stream_ok fs (\<not> is_turn_end (with_payload ?e p)) ?s' (hist @ [with_payload ?e p])" if "event_linked hist (with_payload ?e p)"
    using assms t times that
    by (auto simp: stream_ok_def well_formed_snoc ended with_payload_def EventEnvelope.extend_def)
  then show ?thesis using mk by (intro exI [of _ ?e] exI [of _ ?s']) simp
qed

section \<open>Tool calls are emitted once and linked\<close>

lemma ids_snoc:
  "call_ids (hist @ [e]) = call_ids hist @ (case payload e of ToolCall t _ _ \<Rightarrow> [t] | _ \<Rightarrow> [])"
  "result_ids (hist @ [e]) = result_ids hist @ (case payload e of ToolResult t _ _ _ \<Rightarrow> [t] | _ \<Rightarrow> [])"
  by (auto simp: call_ids_def result_ids_def map_filter_def split: Payload.splits)

lemma called_snoc: "called hist t p \<Longrightarrow> called (hist @ [e]) t p"
  by (auto simp: called_def)

definition ids_ok :: "factories \<Rightarrow> 'a ProjectionState_scheme \<Rightarrow> AgentEvent list \<Rightarrow> bool" where
  "ids_ok fs s hist \<longleftrightarrow>
     (\<forall>v v' t. toolCallIds s v = Some t \<and> toolCallIds s v' = Some t \<longrightarrow> v = v') \<and>
     (\<forall>v t. toolCallIds s v = Some t \<longrightarrow> (\<exists>k < tools_drawn s. t = toolId_of fs k)) \<and>
     (\<forall>t \<in> set (call_ids hist) \<union> set (result_ids hist). \<exists>k < tools_drawn s. t = toolId_of fs k) \<and>
     (\<forall>v t. toolCallIds s v = Some t \<and> v \<notin> toolCallsEmitted s \<longrightarrow> t \<notin> set (call_ids hist)) \<and>
     (\<forall>v t. toolCallIds s v = Some t \<and> v \<notin> toolResultsEmitted s \<longrightarrow> t \<notin> set (result_ids hist)) \<and>
     (\<forall>v p. toolCallParents s v = Some p \<longrightarrow> (\<exists>t. toolCallIds s v = Some t \<and> called hist t p)) \<and>
     distinct (call_ids hist) \<and> distinct (result_ids hist)"

definition proj_ok :: "factories \<Rightarrow> 'a ProjectionState_scheme \<Rightarrow> AgentEvent list \<Rightarrow> bool" where
  "proj_ok fs s hist \<longleftrightarrow> stream_ok fs (turnOpen s) s hist \<and> ids_ok fs s hist"

definition proj_open :: "factories \<Rightarrow> 'a ProjectionState_scheme \<Rightarrow> AgentEvent list \<Rightarrow> bool" where
  "proj_open fs s hist \<longleftrightarrow> proj_ok fs s hist \<and> turnOpen s"

definition fresh_projection :: "'a ProjectionState_scheme \<Rightarrow> bool" where
  "fresh_projection s \<longleftrightarrow> corr_seq s = 0 \<and> \<not> turnOpen s \<and> toolCallIds s = Map.empty \<and> toolCallParents s = Map.empty"

lemma proj_begins: "fresh_ids fs \<Longrightarrow> fresh_projection s \<Longrightarrow> proj_ok fs s []"
  by (simp add: proj_ok_def fresh_projection_def stream_empty ids_ok_def call_ids_def result_ids_def map_filter_def)

lemma created_fresh: "corr_seq c = 0 \<Longrightarrow> fresh_projection (createProjectionState c x)"
  by (simp add: fresh_projection_def createProjectionState_def)

lemma proj_sound: "proj_ok fs s hist \<Longrightarrow> well_formed fs hist"
  by (simp add: proj_ok_def stream_ok_def)

lemma proj_once: "proj_ok fs s hist \<Longrightarrow> distinct (call_ids hist) \<and> distinct (result_ids hist)"
  by (simp add: proj_ok_def ids_ok_def)

lemma keeps_openTurn [keeps_rules]: "keeps (proj_ok fs) (openTurnIfNeeded fs) (proj_open fs)"
proof (rule keepsI)
  fix s :: "'a ProjectionState_scheme" and hist assume p: "proj_ok fs s hist"
  show "\<exists>out s'. openTurnIfNeeded fs s = Inr (out, s') \<and> proj_open fs s' (hist @ out)"
  proof (cases "turnOpen s")
    case True
    with p show ?thesis by (simp add: openTurnIfNeeded_def reading_def skip_def proj_open_def)
  next
    case False
    have "stream_ok fs True (startTurn fs None s) hist" using p stream_start by (auto simp: proj_ok_def)
    then have "stream_ok fs True ((startTurn fs None s)\<lparr>turnOpen := True\<rparr>) hist" by (simp add: stream_ok_def)
    moreover have "ids_ok fs ((startTurn fs None s)\<lparr>turnOpen := True\<rparr>) hist" using p by (simp add: proj_ok_def ids_ok_def startTurn_def)
    ultimately show ?thesis using False by (simp add: openTurnIfNeeded_def reading_def modify_def proj_open_def proj_ok_def)
  qed
qed

lemma ids_parent: "ids_ok fs s hist \<Longrightarrow> toolCallParents s v = Some p \<Longrightarrow> \<exists>t. toolCallIds s v = Some t \<and> called hist t p"
  unfolding ids_ok_def by blast

lemma ids_mono:
  assumes "ids_ok fs s hist" and "call_ids hist' = call_ids hist" and "result_ids hist' = result_ids hist"
    and "\<And>t p. called hist t p \<Longrightarrow> called hist' t p"
  shows "ids_ok fs s hist'"
  using assms(1,4) unfolding ids_ok_def assms(2,3) by blast

lemma ids_emitted:
  "ids_ok fs (s\<lparr>lastMonotonic := m, lastWall := w, corr_seq := n\<rparr>) hist \<longleftrightarrow> ids_ok fs s hist"
  by (simp add: ids_ok_def)

definition plain :: "Payload \<Rightarrow> bool" where
  "plain p \<longleftrightarrow> (case p of ToolCall _ _ _ \<Rightarrow> False | ToolResult _ _ _ _ \<Rightarrow> False | TurnEnd _ _ \<Rightarrow> False | _ \<Rightarrow> True)"

text \<open>One emission: the state after it, and what is left to show.\<close>

lemma emit_step:
  assumes "proj_open fs s hist"
  obtains e s' where "make_envelope fs None parent s = Inr (e, s')"
    "s' = s\<lparr>lastMonotonic := Some (ev_monotonic e), lastWall := ev_wall e, corr_seq := Suc (corr_seq s)\<rparr>"
    "ev_parent e = parent" "ev_eventId e = eventId_of fs (corr_seq s)"
    "\<And>p. event_linked hist (with_payload e p) \<Longrightarrow> stream_ok fs (\<not> is_turn_end (with_payload e p)) s' (hist @ [with_payload e p])"
proof -
  have c: "stream_ok fs True s hist" using assms by (cases "turnOpen s") (simp_all add: proj_open_def proj_ok_def)
  obtain e s' where *: "make_envelope fs None parent s = Inr (e, s')" using stream_emit [OF c] by blast
  show ?thesis by (rule that [OF *]) (use stream_emit [OF c, of parent] * in auto)
qed

lemma keeps_plain:
  assumes "plain p"
  shows "keeps (\<lambda>s hist. proj_open fs s hist \<and> (\<forall>q. parent = Some q \<longrightarrow> (\<exists>t. called hist t q))) (emit_with fs parent p) (proj_open fs)"
proof (rule keepsI, elim conjE)
  fix s :: "'a ProjectionState_scheme" and hist
  assume o: "proj_open fs s hist" and l: "\<forall>q. parent = Some q \<longrightarrow> (\<exists>t. called hist t q)"
  obtain e s' where e: "make_envelope fs None parent s = Inr (e, s')"
    "s' = s\<lparr>lastMonotonic := Some (ev_monotonic e), lastWall := ev_wall e, corr_seq := Suc (corr_seq s)\<rparr>" "ev_parent e = parent"
    "event_linked hist (with_payload e p) \<Longrightarrow> stream_ok fs (\<not> is_turn_end (with_payload e p)) s' (hist @ [with_payload e p])"
    by (rule emit_step [OF o, of parent]) blast
  have "event_linked hist (with_payload e p)" "\<not> is_turn_end (with_payload e p)"
    using l assms e(3) by (auto simp: event_linked_def is_turn_end_def plain_def split: option.splits Payload.splits)
  moreover have "ids_ok fs s' (hist @ [with_payload e p])"
    unfolding e(2) ids_emitted
    by (rule ids_mono [where hist = hist])
      (use o assms in \<open>auto simp: proj_open_def proj_ok_def ids_snoc plain_def intro: called_snoc split: Payload.splits\<close>)
  ultimately show "\<exists>out s'. emit_with fs parent p s = Inr (out, s') \<and> proj_open fs s' (hist @ out)"
    using e o by (auto simp: emit_with_def map_result_def proj_open_def proj_ok_def)
qed

lemma keeps_emit [keeps_rules]: "plain p \<Longrightarrow> keeps (proj_open fs) (emit fs p) (proj_open fs)"
  by (rule keeps_pre [OF keeps_plain]) auto

lemma stored_ok:
  assumes "proj_ok fs s hist" and "stored_id fs v s = (t, s1)"
  shows "proj_ok fs s1 hist \<and> turnOpen s1 = turnOpen s \<and> toolCallIds s1 v = Some t \<and> toolCallParents s1 = toolCallParents s \<and>
    toolCallsEmitted s1 = toolCallsEmitted s \<and> toolResultsEmitted s1 = toolResultsEmitted s"
proof (cases "toolCallIds s v")
  case (Some t')
  then have "s1 = s" "t = t'" using assms(2) by (auto simp: stored_id_def lookup_or_mint_def fun_upd_idem)
  then show ?thesis using assms(1) Some by simp
next
  case None
  then have s1: "s1 = s\<lparr>tools_drawn := Suc (tools_drawn s), toolCallIds := (toolCallIds s)(v \<mapsto> t)\<rparr>" and t: "t = toolId_of fs (tools_drawn s)"
    using assms(2) by (auto simp: stored_id_def lookup_or_mint_def)
  have f: "fresh_ids fs" and i: "ids_ok fs s hist" and c: "stream_ok fs (turnOpen s) s hist"
    using assms(1) by (auto simp: proj_ok_def stream_ok_def)
  have new: "k < tools_drawn s \<Longrightarrow> toolId_of fs k \<noteq> t" for k using f t by (auto simp: fresh_ids_def dest: injD)
  have drawn: "toolCallIds s v' = Some u \<Longrightarrow> \<exists>k < tools_drawn s. u = toolId_of fs k"
    "u \<in> set (call_ids hist) \<union> set (result_ids hist) \<Longrightarrow> \<exists>k < tools_drawn s. u = toolId_of fs k" for v' u
    using i unfolding ids_ok_def by blast+
  have old: "toolCallIds s v' = Some u \<Longrightarrow> u \<noteq> t" "u \<in> set (call_ids hist) \<union> set (result_ids hist) \<Longrightarrow> u \<noteq> t" for v' u
    using drawn new by metis+
  have "ids_ok fs s1 hist"
    unfolding ids_ok_def
  proof (intro conjI)
    show "\<forall>v p. toolCallParents s1 v = Some p \<longrightarrow> (\<exists>t. toolCallIds s1 v = Some t \<and> called hist t p)"
      using ids_parent [OF i] None by (fastforce simp: s1)
    have "\<exists>k < tools_drawn s1. t' = toolId_of fs k" if "toolCallIds s1 v' = Some t'" for v' t'
      using that drawn(1) [of v' t'] by (cases "v' = v") (auto simp: s1 t less_Suc_eq)
    then show "\<forall>v' t'. toolCallIds s1 v' = Some t' \<longrightarrow> (\<exists>k < tools_drawn s1. t' = toolId_of fs k)" by blast
    show "\<forall>t' \<in> set (call_ids hist) \<union> set (result_ids hist). \<exists>k < tools_drawn s1. t' = toolId_of fs k"
      using i by (fastforce simp: ids_ok_def s1 less_Suc_eq)
  qed (use i old in \<open>auto simp: ids_ok_def s1\<close>)
  moreover have "stream_ok fs (turnOpen s) s1 hist" using c by (simp add: stream_ok_def s1)
  ultimately show ?thesis using c by (simp add: proj_ok_def s1)
qed

lemma stored_open:
  assumes "proj_open fs s hist" and "stored_id fs v s = (t, s1)"
  shows "proj_open fs s1 hist \<and> toolCallIds s1 v = Some t \<and> toolCallParents s1 = toolCallParents s \<and>
    toolCallsEmitted s1 = toolCallsEmitted s \<and> toolResultsEmitted s1 = toolResultsEmitted s"
  using assms(1) stored_ok [OF _ assms(2), of hist] by (auto simp: proj_open_def)

lemma keeps_tool_call [keeps_rules]: "keeps (proj_open fs) (tool_call_once fs v tool args) (proj_open fs)"
proof (rule keepsI)
  fix s :: "'a ProjectionState_scheme" and hist assume o: "proj_open fs s hist"
  show "\<exists>out s'. tool_call_once fs v tool args s = Inr (out, s') \<and> proj_open fs s' (hist @ out)"
  proof (cases "v \<in> toolCallsEmitted s")
    case True
    with o show ?thesis by (simp add: tool_call_once_def skip_def)
  next
    case False
    obtain t s1 where st: "stored_id fs v s = (t, s1)" by force
    from stored_open [OF o st] have o1: "proj_open fs s1 hist" and v: "toolCallIds s1 v = Some t" "v \<notin> toolCallsEmitted s1"
      using False by auto
    obtain e s2 where e: "make_envelope fs None None s1 = Inr (e, s2)"
      "s2 = s1\<lparr>lastMonotonic := Some (ev_monotonic e), lastWall := ev_wall e, corr_seq := Suc (corr_seq s1)\<rparr>" "ev_parent e = None"
      "event_linked hist (with_payload e (ToolCall t tool args)) \<Longrightarrow> stream_ok fs (\<not> is_turn_end (with_payload e (ToolCall t tool args))) s2 (hist @ [with_payload e (ToolCall t tool args)])"
      by (rule emit_step [OF o1, of None]) blast
    let ?h = "hist @ [with_payload e (ToolCall t tool args)]"
    let ?s3 = "(rememberToolCall t (ev_eventId e) s2)\<lparr>toolCallParents := (toolCallParents s2)(v \<mapsto> ev_eventId e), toolCallsEmitted := insert v (toolCallsEmitted s2)\<rparr>"
    have "stream_ok fs True ?s3 ?h" using e(3,4) by (simp add: event_linked_def is_turn_end_def stream_ok_def rememberToolCall_def)
    moreover have "ids_ok fs ?s3 ?h"
    proof -
      have i: "ids_ok fs s1 hist" using o1 by (simp add: proj_open_def proj_ok_def)
      have t: "t \<notin> set (call_ids hist)" "\<exists>k < tools_drawn s1. t = toolId_of fs k" using i v unfolding ids_ok_def by blast+
      have "called ?h t (ev_eventId e)" by (auto simp: called_def)
      then have "\<exists>t. toolCallIds ?s3 w = Some t \<and> called ?h t p" if "toolCallParents ?s3 w = Some p" for w p
        using that ids_parent [OF i, of w p] v e(2) called_snoc [of hist _ p]
        by (cases "w = v") (auto simp: rememberToolCall_def)
      moreover have "\<forall>w u. toolCallIds s1 w = Some u \<and> w \<noteq> v \<longrightarrow> u \<noteq> t" using i v unfolding ids_ok_def by blast
      ultimately show ?thesis using i t e(2) unfolding ids_ok_def ids_snoc by (auto simp: rememberToolCall_def)
    qed
    moreover have "turnOpen ?s3" using o1 e(2) by (simp add: proj_open_def rememberToolCall_def)
    ultimately show ?thesis using False st e(1) by (simp add: tool_call_once_def map_result_def proj_open_def proj_ok_def)
  qed
qed

definition draws :: "factories \<Rightarrow> (string \<Rightarrow> 'a ProjectionState_scheme \<Rightarrow> string \<times> 'a ProjectionState_scheme) \<Rightarrow> bool" where
  "draws fs draw \<longleftrightarrow> (\<forall>v s hist t s1. proj_open fs s hist \<longrightarrow> draw v s = (t, s1) \<longrightarrow>
     proj_open fs s1 hist \<and> (v \<notin> toolResultsEmitted s \<longrightarrow> t \<notin> set (result_ids hist)) \<and> (\<exists>k < tools_drawn s1. t = toolId_of fs k) \<and>
     (\<forall>w u. toolCallIds s1 w = Some u \<and> w \<noteq> v \<longrightarrow> u \<noteq> t) \<and> (\<forall>p. toolCallParents s1 v = Some p \<longrightarrow> called hist t p))"

lemma stored_draws: "draws fs (stored_id fs)"
  unfolding draws_def
proof (intro allI impI)
  fix v hist t and s s1 :: "'a ProjectionState_scheme"
  assume o: "proj_open fs s hist" and st: "stored_id fs v s = (t, s1)"
  from stored_open [OF o st] have o1: "proj_open fs s1 hist" and v: "toolCallIds s1 v = Some t" "toolResultsEmitted s1 = toolResultsEmitted s"
    by auto
  then have i: "ids_ok fs s1 hist" by (simp add: proj_open_def proj_ok_def)
  have "v \<notin> toolResultsEmitted s1 \<longrightarrow> t \<notin> set (result_ids hist)" using i v(1) unfolding ids_ok_def by blast
  moreover have "\<exists>k < tools_drawn s1. t = toolId_of fs k" using i v(1) unfolding ids_ok_def by blast
  moreover have "\<forall>w u. toolCallIds s1 w = Some u \<and> w \<noteq> v \<longrightarrow> u \<noteq> t" using i v(1) unfolding ids_ok_def by blast
  moreover have "\<forall>p. toolCallParents s1 v = Some p \<longrightarrow> called hist t p" using ids_parent [OF i, of v] v(1) by auto
  ultimately show "proj_open fs s1 hist \<and> (v \<notin> toolResultsEmitted s \<longrightarrow> t \<notin> set (result_ids hist)) \<and> (\<exists>k < tools_drawn s1. t = toolId_of fs k) \<and>
     (\<forall>w u. toolCallIds s1 w = Some u \<and> w \<noteq> v \<longrightarrow> u \<noteq> t) \<and> (\<forall>p. toolCallParents s1 v = Some p \<longrightarrow> called hist t p)"
    using o1 v(2) by simp
qed

lemma ids_fewer:
  assumes "ids_ok fs s' hist" and "\<And>w u. toolCallIds s w = Some u \<Longrightarrow> toolCallIds s' w = Some u"
    and "tools_drawn s' = tools_drawn s" "toolCallsEmitted s' = toolCallsEmitted s" "toolResultsEmitted s' = toolResultsEmitted s"
    and "\<And>w p. toolCallParents s w = Some p \<Longrightarrow> \<exists>u. toolCallIds s w = Some u \<and> called hist u p"
  shows "ids_ok fs s hist"
  unfolding ids_ok_def
proof (intro conjI)
  show "\<forall>v v' t. toolCallIds s v = Some t \<and> toolCallIds s v' = Some t \<longrightarrow> v = v'"
    using assms(1,2) unfolding ids_ok_def by metis
  show "\<forall>v t. toolCallIds s v = Some t \<longrightarrow> (\<exists>k < tools_drawn s. t = toolId_of fs k)"
    using assms(1,2) unfolding ids_ok_def assms(3) by blast
  show "\<forall>v t. toolCallIds s v = Some t \<and> v \<notin> toolCallsEmitted s \<longrightarrow> t \<notin> set (call_ids hist)"
    using assms(1,2) unfolding ids_ok_def assms(4) by blast
  show "\<forall>v t. toolCallIds s v = Some t \<and> v \<notin> toolResultsEmitted s \<longrightarrow> t \<notin> set (result_ids hist)"
    using assms(1,2) unfolding ids_ok_def assms(5) by blast
  show "\<forall>v p. toolCallParents s v = Some p \<longrightarrow> (\<exists>t. toolCallIds s v = Some t \<and> called hist t p)"
    using assms(6) by blast
qed (use assms(1,3) in \<open>auto simp: ids_ok_def\<close>)

lemma minted_draws: "draws fs (lookup_or_mint fs)"
  unfolding draws_def
proof (intro allI impI)
  fix v hist t and s s1 :: "'a ProjectionState_scheme"
  assume o: "proj_open fs s hist" and st: "lookup_or_mint fs v s = (t, s1)"
  let ?s2 = "s1\<lparr>toolCallIds := (toolCallIds s1)(v \<mapsto> t)\<rparr>"
  have st2: "stored_id fs v s = (t, ?s2)" using st by (simp add: stored_id_def)
  have d: "proj_open fs ?s2 hist \<and> (v \<notin> toolResultsEmitted s \<longrightarrow> t \<notin> set (result_ids hist)) \<and> (\<exists>k < tools_drawn ?s2. t = toolId_of fs k) \<and>
     (\<forall>w u. toolCallIds ?s2 w = Some u \<and> w \<noteq> v \<longrightarrow> u \<noteq> t) \<and> (\<forall>p. toolCallParents ?s2 v = Some p \<longrightarrow> called hist t p)"
    using stored_draws o st2 unfolding draws_def by blast
  have i: "ids_ok fs ?s2 hist" using d by (simp add: proj_open_def proj_ok_def)
  have sub: "toolCallIds s1 w = Some u \<Longrightarrow> toolCallIds ?s2 w = Some u" for w u
    using st by (auto simp: lookup_or_mint_def split: option.splits)
  have par: "toolCallParents s1 w = Some p \<Longrightarrow> \<exists>u. toolCallIds s1 w = Some u \<and> called hist u p" for w p
    using o st ids_parent [of fs s hist w p] by (auto simp: lookup_or_mint_def proj_open_def proj_ok_def split: option.splits)
  have "ids_ok fs s1 hist"
    by (rule ids_fewer [OF i sub]) (use par in simp_all)
  moreover have "stream_ok fs True s1 hist \<and> turnOpen s1" using d by (auto simp: proj_open_def proj_ok_def stream_ok_def)
  ultimately have "proj_open fs s1 hist" by (simp add: proj_open_def proj_ok_def)
  then show "proj_open fs s1 hist \<and> (v \<notin> toolResultsEmitted s \<longrightarrow> t \<notin> set (result_ids hist)) \<and> (\<exists>k < tools_drawn s1. t = toolId_of fs k) \<and>
     (\<forall>w u. toolCallIds s1 w = Some u \<and> w \<noteq> v \<longrightarrow> u \<noteq> t) \<and> (\<forall>p. toolCallParents s1 v = Some p \<longrightarrow> called hist t p)"
    using d by (auto split: if_splits)
qed

lemma keeps_result_by:
  assumes draws: "draws fs draw"
  shows "keeps (proj_open fs) (tool_result_by draw fs v okay summary) (proj_open fs)"
proof (rule keepsI)
  fix s :: "'a ProjectionState_scheme" and hist assume o: "proj_open fs s hist"
  show "\<exists>out s'. tool_result_by draw fs v okay summary s = Inr (out, s') \<and> proj_open fs s' (hist @ out)"
  proof (cases "v \<in> toolResultsEmitted s")
    case True
    with o show ?thesis by (simp add: tool_result_by_def skip_def)
  next
    case False
    obtain t s1 where st: "draw v s = (t, s1)" by force
    from draws o st have o1: "proj_open fs s1 hist" and t: "t \<notin> set (result_ids hist)" "\<exists>k < tools_drawn s1. t = toolId_of fs k"
      and own: "\<forall>w u. toolCallIds s1 w = Some u \<and> w \<noteq> v \<longrightarrow> u \<noteq> t" and par: "\<forall>p. toolCallParents s1 v = Some p \<longrightarrow> called hist t p"
      using False unfolding draws_def by blast+
    have i: "ids_ok fs s1 hist" using o1 by (simp add: proj_open_def proj_ok_def)
    let ?p = "ToolResult t okay summary (length summary)"
    obtain e s2 where e: "make_envelope fs None (toolCallParents s1 v) s1 = Inr (e, s2)"
      "s2 = s1\<lparr>lastMonotonic := Some (ev_monotonic e), lastWall := ev_wall e, corr_seq := Suc (corr_seq s1)\<rparr>"
      "ev_parent e = toolCallParents s1 v"
      "event_linked hist (with_payload e ?p) \<Longrightarrow> stream_ok fs (\<not> is_turn_end (with_payload e ?p)) s2 (hist @ [with_payload e ?p])"
      by (rule emit_step [OF o1, of "toolCallParents s1 v"]) blast
    let ?h = "hist @ [with_payload e ?p]" and ?s3 = "s2\<lparr>toolResultsEmitted := insert v (toolResultsEmitted s2)\<rparr>"
    have "event_linked hist (with_payload e ?p)"
      using par e(3) by (simp add: event_linked_def split: option.splits)
    then have "stream_ok fs True ?s3 ?h" using e(4) by (simp add: is_turn_end_def stream_ok_def)
    moreover have "ids_ok fs ?s3 ?h"
    proof -
      have "\<forall>w p. toolCallParents s1 w = Some p \<longrightarrow> (\<exists>t. toolCallIds s1 w = Some t \<and> called ?h t p)"
        using i unfolding ids_ok_def by (blast intro: called_snoc)
      then show ?thesis using i t own e(2) unfolding ids_ok_def ids_snoc by auto
    qed
    moreover have "turnOpen ?s3" using o1 e(2) by (simp add: proj_open_def)
    ultimately show ?thesis using False st e(1) by (simp add: tool_result_by_def map_result_def proj_open_def proj_ok_def)
  qed
qed

lemma keeps_tool_result [keeps_rules]: "keeps (proj_open fs) (maybeEmitToolResult fs v okay summary) (proj_open fs)"
  unfolding maybeEmitToolResult_def by (rule keeps_result_by) (rule stored_draws)

lemma keeps_turn_end [keeps_rules]: "keeps (proj_open fs) (andThen (emit fs (TurnEnd r d)) close_turn) (proj_ok fs)"
proof (rule keepsI)
  fix s :: "'a ProjectionState_scheme" and hist assume o: "proj_open fs s hist"
  obtain e s' where e: "make_envelope fs None None s = Inr (e, s')"
    "s' = s\<lparr>lastMonotonic := Some (ev_monotonic e), lastWall := ev_wall e, corr_seq := Suc (corr_seq s)\<rparr>" "ev_parent e = None"
    "event_linked hist (with_payload e (TurnEnd r d)) \<Longrightarrow> stream_ok fs (\<not> is_turn_end (with_payload e (TurnEnd r d))) s' (hist @ [with_payload e (TurnEnd r d)])"
    by (rule emit_step [OF o, of None]) blast
  have "stream_ok fs False s' (hist @ [with_payload e (TurnEnd r d)])" using e(3,4) by (simp add: event_linked_def is_turn_end_def)
  then have "stream_ok fs False ((endTurn s')\<lparr>turnOpen := False\<rparr>) (hist @ [with_payload e (TurnEnd r d)])"
    by (simp add: stream_ok_def endTurn_def)
  moreover have "ids_ok fs s' (hist @ [with_payload e (TurnEnd r d)])"
    unfolding e(2) ids_emitted
    by (rule ids_mono [where hist = hist]) (use o in \<open>auto simp: proj_open_def proj_ok_def ids_snoc intro: called_snoc\<close>)
  then have "ids_ok fs ((endTurn s')\<lparr>turnOpen := False\<rparr>) (hist @ [with_payload e (TurnEnd r d)])" by (simp add: ids_ok_def endTurn_def)
  ultimately show "\<exists>out s'. andThen (emit fs (TurnEnd r d)) close_turn s = Inr (out, s') \<and> proj_ok fs s' (hist @ out)"
    using e(1) by (simp add: andThen_def emit_with_def map_result_def close_turn_def modify_def proj_ok_def)
qed

lemma keeps_with_parent:
  assumes "\<And>s. plain (p s)"
  shows "keeps (proj_open fs) (reading (\<lambda>s. if c s then emit_with fs (toolCallParents s v) (p s) else skip)) (proj_open fs)"
proof (rule keeps_reading)
  fix s0 :: "'a ProjectionState_scheme"
  have "keeps (\<lambda>s hist. proj_open fs s hist \<and> s = s0) (emit_with fs (toolCallParents s0 v) (p s0)) (proj_open fs)"
    by (rule keeps_pre [OF keeps_plain [OF assms]]) (auto simp: proj_open_def proj_ok_def dest: ids_parent)
  then show "keeps (\<lambda>s hist. proj_open fs s hist \<and> s = s0) (if c s0 then emit_with fs (toolCallParents s0 v) (p s0) else skip) (proj_open fs)"
    by (auto simp: keeps_def skip_def)
qed

lemma keeps_close [keeps_rules]: "keeps (proj_open fs) close_turn (proj_ok fs)"
  by (auto simp: keeps_def close_turn_def modify_def proj_open_def proj_ok_def stream_ok_def ids_ok_def endTurn_def)

lemma open_ok: "proj_open fs s hist \<Longrightarrow> proj_ok fs s hist"
  by (simp add: proj_open_def)

definition in_turn :: "factories \<Rightarrow> 'a ProjectionState_scheme proj \<Rightarrow> 'a ProjectionState_scheme proj" where
  "in_turn fs f = andThen (openTurnIfNeeded fs) f"

lemma keeps_in_turn: "keeps (proj_open fs) f (proj_ok fs) \<Longrightarrow> keeps (proj_ok fs) (in_turn fs f) (proj_ok fs)"
  unfolding in_turn_def by (rule keeps_andThen [OF keeps_openTurn])

lemma keeps_closing: "keeps (proj_open fs) f (proj_open fs) \<Longrightarrow> keeps (proj_open fs) f (proj_ok fs)"
  by (erule keeps_post) (rule open_ok)

lemma keeps_emit_ok [keeps_rules]: "plain p \<Longrightarrow> keeps (proj_ok fs) (in_turn fs (emit fs p)) (proj_ok fs)"
  by (intro keeps_in_turn keeps_closing keeps_emit)

lemma keeps_when_open:
  "(\<And>s. keeps (proj_open fs) (f s) (proj_ok fs)) \<Longrightarrow> keeps (proj_ok fs) (reading (\<lambda>s. if turnOpen s then f s else skip)) (proj_ok fs)"
  by (rule keeps_reading) (auto simp: keeps_def proj_open_def skip_def)

lemma keeps_open_steps [keeps_rules]:
  "list_all (\<lambda>f. keeps (proj_open fs) f (proj_open fs)) hs \<Longrightarrow> keeps (proj_open fs) (steps hs) (proj_open fs)"
  by (rule keeps_steps)

text \<open>Updates of fields the invariant does not read.\<close>

lemma keeps_modify_ok: "(\<And>s hist. proj_ok fs (f s) hist \<longleftrightarrow> proj_ok fs s hist) \<Longrightarrow> keeps (proj_ok fs) (modify f) (proj_ok fs)"
  by (simp add: keeps_def modify_def)

lemma keeps_modify_open: "(\<And>s hist. proj_open fs (f s) hist \<longleftrightarrow> proj_open fs s hist) \<Longrightarrow> keeps (proj_open fs) (modify f) (proj_open fs)"
  by (simp add: keeps_def modify_def)

lemmas proj_defs = proj_open_def proj_ok_def stream_ok_def ids_ok_def

section \<open>The contract of a projector\<close>

locale projector =
  fixes step :: "factories \<Rightarrow> 'e \<Rightarrow> 's proj" and inv :: "factories \<Rightarrow> 's \<Rightarrow> AgentEvent list \<Rightarrow> bool" and start :: "'s \<Rightarrow> bool"
    and valid :: "'e \<Rightarrow> bool"
  assumes begins: "fresh_ids fs \<Longrightarrow> start s \<Longrightarrow> inv fs s []"
    and continues: "valid e \<Longrightarrow> keeps (inv fs) (step fs e) (inv fs)"
    and sound: "inv fs s hist \<Longrightarrow> well_formed fs hist"
begin

lemma run_inv:
  assumes "fresh_ids fs" and "start s" and "\<forall>e \<in> set es. valid e"
  shows "\<exists>hist s'. each (step fs) es s = Inr (hist, s') \<and> inv fs s' hist"
proof -
  have "keeps (inv fs) (each (step fs) es) (inv fs)" by (rule keeps_each) (use assms(3) in \<open>blast intro: continues\<close>)
  then show ?thesis using begins [OF assms(1,2)] unfolding keeps_def by fastforce
qed

lemma run_well_formed:
  assumes "fresh_ids fs" and "start s" and "\<forall>e \<in> set es. valid e"
  shows "\<exists>hist s'. each (step fs) es s = Inr (hist, s') \<and> well_formed fs hist"
  using run_inv [OF assms] sound by blast

end

text \<open>A projector over the shared state emits every call and every result of a tool once.\<close>

locale tool_projector = projector step inv start valid
  for step :: "factories \<Rightarrow> 'e \<Rightarrow> 's proj" and inv :: "factories \<Rightarrow> 's \<Rightarrow> AgentEvent list \<Rightarrow> bool" and start :: "'s \<Rightarrow> bool"
    and valid :: "'e \<Rightarrow> bool" +
  assumes once: "inv fs s hist \<Longrightarrow> distinct (call_ids hist) \<and> distinct (result_ids hist)"
begin

lemma run_once:
  assumes "fresh_ids fs" and "start s" and "\<forall>e \<in> set es. valid e"
  shows "\<exists>hist s'. each (step fs) es s = Inr (hist, s') \<and> well_formed fs hist \<and> distinct (call_ids hist) \<and> distinct (result_ids hist)"
  using run_inv [OF assms] sound once by blast

end

text \<open>Every object is an event.\<close>

abbreviation any_event :: "'e \<Rightarrow> bool" where
  "any_event \<equiv> \<lambda>_. True"

section \<open>What the adapters know of a session\<close>

record projection_ctx =
  sessionSource :: session_source
  targetSessionId :: "string option"
  modelProvider :: "string option"

definition truthy :: "string option \<Rightarrow> bool" where
  "truthy x \<longleftrightarrow> x \<noteq> None \<and> x \<noteq> Some []"

definition matchesSession :: "projection_ctx \<Rightarrow> string option \<Rightarrow> bool" where
  "matchesSession ctx v \<longleftrightarrow> \<not> truthy v \<or> \<not> truthy (targetSessionId ctx) \<or> v = targetSessionId ctx"

definition bindSessionIfNeeded :: "string option \<Rightarrow> 'a ProjectionState_scheme proj" where
  "bindSessionIfNeeded v = reading (\<lambda>s. if truthy (boundSessionId s) then skip
     else modify (\<lambda>s. (bindSession v s)\<lparr>boundSessionId := v\<rparr>))"

lemma keeps_bind [keeps_rules]: "keeps (proj_ok fs) (bindSessionIfNeeded v) (proj_ok fs)"
  unfolding bindSessionIfNeeded_def
  by (intro keeps_rules keeps_modify_ok) (simp add: proj_defs bindSession_def)

definition get_string :: "string \<Rightarrow> js_record \<Rightarrow> string option" where
  "get_string k r = (case field k r of JStr s \<Rightarrow> Some s | _ \<Rightarrow> None)"

definition or_else :: "'a option \<Rightarrow> 'a option \<Rightarrow> 'a option" where
  "or_else x y = (case x of None \<Rightarrow> y | Some _ \<Rightarrow> x)"

definition the_or :: "'a \<Rightarrow> 'a option \<Rightarrow> 'a" where
  "the_or d x = (case x of None \<Rightarrow> d | Some a \<Rightarrow> a)"

definition nullish_or :: "js_value \<Rightarrow> js_value \<Rightarrow> js_value" where
  "nullish_or v d = (if nullish v then d else v)"

definition is_true :: "js_value \<Rightarrow> bool" where
  "is_true v \<longleftrightarrow> v = JBool True"

definition js_truthy :: "js_value \<Rightarrow> bool" where
  "js_truthy v = (case v of JBool b \<Rightarrow> b | JNum n \<Rightarrow> n \<noteq> 0 | JStr s \<Rightarrow> s \<noteq> [] | _ \<Rightarrow> \<not> nullish v)"

text \<open>\<^verbatim>\<open>Buffer.byteLength\<close> of a string of code units below 256.\<close>

definition byteLength :: "string \<Rightarrow> nat" where
  "byteLength s = sum_list (map (\<lambda>c. if of_char c < (128::nat) then 1 else 2) s)"

text \<open>Three bytes of UTF-8.\<close>

definition EM_DASH :: string where
  "EM_DASH = [CHR 0xE2, CHR 0x80, CHR 0x94]"

section \<open>Sample factories\<close>

text \<open>Ids of growing length, a clock that stands still.\<close>

definition demo_factories :: factories where
  "demo_factories = \<lparr>clock_of = (\<lambda>_. (7, 7)), eventId_of = (\<lambda>k. replicate (Suc k) CHR ''e''),
     turnId_of = (\<lambda>k. replicate (Suc k) CHR ''t''), toolId_of = (\<lambda>k. replicate (Suc k) CHR ''c'')\<rparr>"

lemma replicate_inj: "inj (\<lambda>k. replicate (Suc k) c)"
  by (rule injI) (metis length_replicate nat.inject)

lemma demo_fresh: "fresh_ids demo_factories"
  by (simp add: fresh_ids_def demo_factories_def replicate_inj del: replicate_Suc)

end
