(* ===== verification/Acp_Projection.thy ===== *)
theory Acp_Projection
  imports Projection
begin

text \<open>
  The projectors of the two adapters that speak ACP (\<^verbatim>\<open>packages/adapters/cursor/src/projection.ts\<close> and
  \<^verbatim>\<open>packages/adapters/gemini/src/projection.ts\<close>). They are the same code but for the kinds they ignore and the
  name in a message. An update is the object of the notification; its kind is a string, as the type of the source has it.
\<close>

section \<open>Text in an update\<close>

definition entry_text :: "js_value \<Rightarrow> string list" where
  "entry_text v = (case prop_of ''text'' v of JStr t \<Rightarrow> [t] | _ \<Rightarrow> [])"

definition extractTextFromContent :: "js_value \<Rightarrow> string" where
  "extractTextFromContent v =
     (case v of
        JStr s \<Rightarrow> s
      | JObj r \<Rightarrow>
          (case field ''text'' r of
             JStr s \<Rightarrow> s
           | _ \<Rightarrow> (case field ''content'' r of JArr vs \<Rightarrow> concat (concat (map entry_text vs)) | _ \<Rightarrow> []))
      | _ \<Rightarrow> [])"

definition extractPlanText :: "js_record \<Rightarrow> string" where
  "extractPlanText upd =
     (case field ''entries'' upd of
        JArr es \<Rightarrow>
          join_with [CHR 0x0A] (filter (\<lambda>t. t \<noteq> []) (map (\<lambda>e. extractTextFromContent (prop_of ''content'' e)) (filter is_object es)))
      | _ \<Rightarrow> extractTextFromContent (field ''content'' upd))"

definition error_text :: "js_record \<Rightarrow> string" where
  "error_text upd =
     (case field ''error'' upd of
        JStr s \<Rightarrow> s
      | e \<Rightarrow> (case prop_of ''message'' e of JStr m \<Rightarrow> m | _ \<Rightarrow> []))"

definition extractToolSummary :: "js_record \<Rightarrow> string" where
  "extractToolSummary upd =
     (let t = extractTextFromContent (field ''content'' upd)
      in if t \<noteq> [] then t
         else (case field ''result'' upd of
                 JStr s \<Rightarrow> s
               | r \<Rightarrow> if is_object r \<and> extractTextFromContent r \<noteq> [] then extractTextFromContent r else error_text upd))"

section \<open>The projector\<close>

definition text_event :: "factories \<Rightarrow> (string \<Rightarrow> Payload) \<Rightarrow> string \<Rightarrow> 'a ProjectionState_scheme proj" where
  "text_event fs mk t = (if t = [] then skip else emit fs (mk t))"

definition finished :: "string option \<Rightarrow> bool" where
  "finished status \<longleftrightarrow> status = Some ''completed'' \<or> status = Some ''failed''"

definition result_of :: "factories \<Rightarrow> string \<Rightarrow> js_record \<Rightarrow> 'a ProjectionState_scheme proj" where
  "result_of fs callId upd =
     (if finished (get_string ''status'' upd)
      then maybeEmitToolResult fs callId (get_string ''status'' upd = Some ''completed'') (extractToolSummary upd) else skip)"

definition call_id :: "js_record \<Rightarrow> string option" where
  "call_id upd = or_else (get_string ''toolCallId'' upd) (get_string ''id'' upd)"

definition acp_tool_call :: "factories \<Rightarrow> js_record \<Rightarrow> 'a ProjectionState_scheme proj" where
  "acp_tool_call fs upd =
     (case call_id upd of
        None \<Rightarrow> skip
      | Some v \<Rightarrow>
          if v = [] then skip
          else reading (\<lambda>s.
            if v \<in> toolCallsEmitted s then skip
            else steps
              [tool_call_once fs v (the_or ''unknown_tool'' (or_else (get_string ''title'' upd) (get_string ''kind'' upd)))
                 (if nullish (field ''rawInput'' upd) then JObj [] else field ''rawInput'' upd),
               result_of fs v upd]))"

definition acp_tool_update :: "factories \<Rightarrow> js_record \<Rightarrow> 'a ProjectionState_scheme proj" where
  "acp_tool_update fs upd = (case call_id upd of None \<Rightarrow> skip | Some v \<Rightarrow> if v = [] then skip else result_of fs v upd)"

definition acp_body :: "string list \<Rightarrow> string \<Rightarrow> factories \<Rightarrow> js_record \<Rightarrow> 'a ProjectionState_scheme proj" where
  "acp_body ignored label fs upd =
     (let kind = the_or [] (get_string ''sessionUpdate'' upd)
      in if kind \<in> set ignored then skip
         else if kind = ''agent_message_chunk'' then text_event fs AssistantDelta (extractTextFromContent (field ''content'' upd))
         else if kind = ''agent_thought_chunk'' then text_event fs (\<lambda>t. Reasoning t None) (extractTextFromContent (field ''content'' upd))
         else if kind = ''plan'' then text_event fs (\<lambda>t. Reasoning t None) (extractPlanText upd)
         else if kind = ''tool_call'' then acp_tool_call fs upd
         else if kind = ''tool_call_update'' then acp_tool_update fs upd
         else emit fs (ErrorOf False ''unknown_update_kind'' (label @ '' ACP session/update kind not recognized: '' @ json_quote kind) False))"

definition projectCursorEvent :: "projection_ctx \<Rightarrow> factories \<Rightarrow> string \<times> js_record \<Rightarrow> ProjectionState proj" where
  "projectCursorEvent ctx fs ev =
     (case ev of (sid, upd) \<Rightarrow>
        if \<not> matchesSession ctx (Some sid) then skip
        else andThen (bindSessionIfNeeded (Some sid)) (in_turn fs (acp_body
          [''user_message_chunk'', ''current_mode_update'', ''available_commands_update'', ''session_info_update''] ''Cursor'' fs upd)))"

definition projectGeminiEvent :: "projection_ctx \<Rightarrow> factories \<Rightarrow> string \<times> js_record \<Rightarrow> ProjectionState proj" where
  "projectGeminiEvent ctx fs ev =
     (case ev of (sid, upd) \<Rightarrow>
        if \<not> matchesSession ctx (Some sid) then skip
        else andThen (bindSessionIfNeeded (Some sid)) (in_turn fs (acp_body
          [''user_message_chunk'', ''current_mode_update''] ''Gemini'' fs upd)))"

section \<open>The contract\<close>

lemma keeps_text_event [keeps_rules]: "(\<And>t. plain (mk t)) \<Longrightarrow> keeps (proj_open fs) (text_event fs mk t) (proj_open fs)"
  by (auto simp: text_event_def intro: keeps_rules)

lemma keeps_result_of [keeps_rules]: "keeps (proj_open fs) (result_of fs v upd) (proj_open fs)"
  by (auto simp: result_of_def intro: keeps_rules)

lemma keeps_acp_body: "keeps (proj_open fs) (acp_body ignored label fs upd) (proj_open fs)"
  by (auto simp: acp_body_def acp_tool_call_def acp_tool_update_def plain_def Let_def split: option.split intro!: keeps_rules)

lemma keeps_acp:
  "keeps (proj_ok fs) (andThen (bindSessionIfNeeded v) (in_turn fs (acp_body ignored label fs upd))) (proj_ok fs)"
  by (intro keeps_andThen [OF keeps_bind] keeps_in_turn keeps_closing keeps_acp_body)

interpretation cursor: tool_projector "projectCursorEvent ctx" proj_ok fresh_projection any_event
  by unfold_locales
    (auto simp: proj_begins proj_sound proj_once projectCursorEvent_def split: prod.split intro: keeps_acp keeps_skip)

interpretation gemini: tool_projector "projectGeminiEvent ctx" proj_ok fresh_projection any_event
  by unfold_locales
    (auto simp: proj_begins proj_sound proj_once projectGeminiEvent_def split: prod.split intro: keeps_acp keeps_skip)

end
