(* ===== verification/Amp_Projection.thy ===== *)
theory Amp_Projection
  imports Projection
begin

text \<open>
  The projector of the Amp adapter (\<^verbatim>\<open>packages/adapters/amp/src/projection.ts\<close>): one JSON message per line. Parsing JSON
  and writing it are arguments, the first with the message of its error.
\<close>

section \<open>State and helpers\<close>

record amp_state = ProjectionState +
  textCumulative :: "string \<Rightarrow> string option"
  currentModel :: "string option"

record json_lib =
  json_parse_of :: "string \<Rightarrow> string + js_value"
  json_text_of :: "js_value \<Rightarrow> string"

definition pickNum :: "js_record \<Rightarrow> string \<Rightarrow> int option" where
  "pickNum r k = (case field k r of JNum n \<Rightarrow> Some n | _ \<Rightarrow> None)"

definition asObject :: "js_value \<Rightarrow> js_record option" where
  "asObject v = (case v of JObj r \<Rightarrow> Some r | _ \<Rightarrow> None)"

definition asArray :: "js_value \<Rightarrow> js_value list option" where
  "asArray v = (case v of JArr vs \<Rightarrow> Some vs | _ \<Rightarrow> None)"

definition truncate_text :: "string \<Rightarrow> nat \<Rightarrow> string" where
  "truncate_text s n = (if length s \<le> n then s else take n s @ ELLIPSIS)"

definition result_piece :: "json_lib \<Rightarrow> js_value \<Rightarrow> string list" where
  "result_piece lib v =
     (case v of
        JStr s \<Rightarrow> [s]
      | JObj r \<Rightarrow> (case field ''text'' r of JStr s \<Rightarrow> [s] | _ \<Rightarrow> [json_text_of lib v])
      | JArr _ \<Rightarrow> [json_text_of lib v]
      | _ \<Rightarrow> [])"

definition stringifyResultContent :: "json_lib \<Rightarrow> js_value \<Rightarrow> string" where
  "stringifyResultContent lib raw =
     (case raw of
        JStr s \<Rightarrow> s
      | JArr vs \<Rightarrow> join_with [CHR 0x0A] (concat (map (result_piece lib) vs))
      | _ \<Rightarrow> if nullish raw then [] else json_text_of lib raw)"

section \<open>Messages\<close>

definition amp_system :: "session_source \<Rightarrow> factories \<Rightarrow> js_record \<Rightarrow> amp_state proj" where
  "amp_system src fs msg =
     (let sid = or_else (get_string ''session_id'' msg) (get_string ''sessionId'' msg); model = get_string ''model'' msg
      in steps
        [if truthy sid then bindSessionIfNeeded sid else skip,
         if truthy model then modify (\<lambda>s. s\<lparr>currentModel := model\<rparr>) else skip,
         reading (\<lambda>s. if sessionStartEmitted s then skip
           else andThen (modify (\<lambda>s. s\<lparr>sessionStartEmitted := True\<rparr>)) (in_turn fs (emit fs (SessionStart src))))])"

text \<open>The text of a message seen so far is remembered by the id of the message, whatever block it came from.\<close>

definition amp_text :: "factories \<Rightarrow> string \<Rightarrow> string \<Rightarrow> amp_state proj" where
  "amp_text fs messageId t = reading (\<lambda>s.
     let prev = the_or [] (textCumulative s messageId);
         chunk = (if starts_with prev t \<and> prev \<noteq> [] then drop (length prev) t else t)
     in andThen (modify (\<lambda>s. s\<lparr>textCumulative := (textCumulative s)(messageId \<mapsto> t)\<rparr>))
          (if chunk = [] then skip else emit fs (AssistantDelta chunk)))"

definition amp_block :: "factories \<Rightarrow> string \<Rightarrow> js_value \<Rightarrow> amp_state proj" where
  "amp_block fs messageId block =
     (case asObject block of
        None \<Rightarrow> skip
      | Some b \<Rightarrow>
          let btype = the_or [] (get_string ''type'' b)
          in if btype = ''text'' then
               (let t = the_or [] (get_string ''text'' b) in if t = [] then skip else amp_text fs messageId t)
             else if btype = ''thinking'' \<or> btype = ''reasoning'' then
               (let t = the_or [] (or_else (get_string ''text'' b) (or_else (get_string ''thinking'' b) (get_string ''content'' b)))
                in if t = [] then skip else emit fs (Reasoning t None))
             else if btype = ''tool_use'' then
               (let v = the_or [] (get_string ''id'' b)
                in if v = [] then skip
                   else tool_call_once fs v (the_or [] (get_string ''name'' b))
                     (nullish_or (field ''input'' b) (nullish_or (field ''args'' b) (JObj []))))
             else skip)"

definition amp_assistant :: "factories \<Rightarrow> js_record \<Rightarrow> amp_state proj" where
  "amp_assistant fs msg =
     (case asObject (field ''message'' msg) of
        None \<Rightarrow> skip
      | Some message \<Rightarrow>
          (case asArray (field ''content'' message) of
             None \<Rightarrow> skip
           | Some blocks \<Rightarrow> in_turn fs (each (amp_block fs (the_or [] (get_string ''id'' message))) blocks)))"

definition amp_tool_result :: "json_lib \<Rightarrow> factories \<Rightarrow> js_value \<Rightarrow> amp_state proj" where
  "amp_tool_result lib fs block =
     (case asObject block of
        None \<Rightarrow> skip
      | Some b \<Rightarrow>
          if get_string ''type'' b \<noteq> Some ''tool_result'' then skip
          else
            let v = the_or [] (or_else (get_string ''tool_use_id'' b) (get_string ''toolUseId'' b));
                isError = (is_true (field ''is_error'' b) \<or> is_true (field ''isError'' b))
            in if v = [] then skip
               else reading (\<lambda>s. if v \<in> toolResultsEmitted s then skip
                 else in_turn fs (tool_result_by (lookup_or_mint fs) fs v (\<not> isError) (stringifyResultContent lib (field ''content'' b)))))"

definition amp_user :: "json_lib \<Rightarrow> factories \<Rightarrow> js_record \<Rightarrow> amp_state proj" where
  "amp_user lib fs msg =
     (case asObject (field ''message'' msg) of
        None \<Rightarrow> skip
      | Some message \<Rightarrow>
          (case asArray (field ''content'' message) of None \<Rightarrow> skip | Some blocks \<Rightarrow> each (amp_tool_result lib fs) blocks))"

definition amp_result :: "string option \<Rightarrow> factories \<Rightarrow> js_record \<Rightarrow> amp_state proj" where
  "amp_result provided fs msg = reading (\<lambda>s.
     let durationMs = the_or 0 (or_else (pickNum msg ''duration_ms'') (or_else (pickNum msg ''durationMs'') (pickNum msg ''duration'')));
         usage = the_or msg (asObject (field ''usage'' msg));
         pick = (\<lambda>a b. the_or 0 (or_else (pickNum usage a) (pickNum usage b)));
         model = the_or ''amp-unknown'' (or_else provided (currentModel s));
         isError = (is_true (field ''is_error'' msg) \<or> is_true (field ''isError'' msg));
         errorMessage = or_else (get_string ''error'' msg) (get_string ''error_message'' msg);
         stopReason = (if isError then the_or ''error'' (or_else errorMessage (get_string ''stop_reason'' msg))
           else the_or ''end_turn'' (or_else (get_string ''stop_reason'' msg) (get_string ''stopReason'' msg)))
     in in_turn fs (andThen
          (steps
             [emit fs (Usage model
                \<lparr>tok_input = pick ''input_tokens'' ''inputTokens'', tok_output = pick ''output_tokens'' ''outputTokens'',
                 tok_cacheRead = None, tok_cacheCreation = None\<rparr>
                \<lparr>hits = pick ''cache_read_input_tokens'' ''cacheReadInputTokens'',
                 misses = pick ''cache_creation_input_tokens'' ''cacheCreationInputTokens''\<rparr>),
              emit fs (Cost None UnknownCost ''subscription''),
              if isError then emit fs (ErrorOf True ''amp_turn_error'' (the_or ''amp turn ended with is_error'' errorMessage) False) else skip])
          (andThen (emit fs (TurnEnd stopReason durationMs)) close_turn)))"

definition projectAmpMessage :: "projection_ctx \<Rightarrow> json_lib \<Rightarrow> factories \<Rightarrow> js_record \<Rightarrow> amp_state proj" where
  "projectAmpMessage ctx lib fs msg =
     (let t = the_or [] (get_string ''type'' msg)
      in if t = ''system'' then amp_system (sessionSource ctx) fs msg
         else if t = ''assistant'' then amp_assistant fs msg
         else if t = ''user'' then amp_user lib fs msg
         else if t = ''result'' then amp_result (modelProvider ctx) fs msg
         else skip)"

definition projectAmpLine :: "projection_ctx \<Rightarrow> json_lib \<Rightarrow> factories \<Rightarrow> string \<Rightarrow> amp_state proj" where
  "projectAmpLine ctx lib fs line =
     (let trimmed = trim line
      in if trimmed = [] then skip
         else (case json_parse_of lib trimmed of
                 Inl cause \<Rightarrow>
                   in_turn fs (emit fs (ErrorOf False ''amp_protocol_error''
                     (''Amp emitted unparseable JSONL line: '' @ truncate_text trimmed 240 @ (if cause = [] then [] else '' ('' @ cause @ '')'')) False))
               | Inr v \<Rightarrow> (case v of JObj msg \<Rightarrow> projectAmpMessage ctx lib fs msg | _ \<Rightarrow> skip)))"

section \<open>The contract\<close>

lemma keeps_amp_system: "keeps (proj_ok fs) (amp_system src fs msg) (proj_ok fs)"
  by (auto simp: amp_system_def Let_def plain_def proj_defs intro!: keeps_rules keeps_modify_ok)

lemma keeps_amp_block: "keeps (proj_open fs) (amp_block fs i block) (proj_open fs)"
  by (auto simp: amp_block_def amp_text_def Let_def plain_def proj_defs split: option.split
      intro!: keeps_rules keeps_modify_open)

lemma keeps_amp_assistant: "keeps (proj_ok fs) (amp_assistant fs msg) (proj_ok fs)"
  by (auto simp: amp_assistant_def split: option.split intro!: keeps_skip keeps_in_turn keeps_closing keeps_each keeps_amp_block)

lemma keeps_amp_tool_result: "keeps (proj_ok fs) (amp_tool_result lib fs block) (proj_ok fs)"
  by (auto simp: amp_tool_result_def Let_def split: option.split
      intro!: keeps_skip keeps_read keeps_in_turn keeps_closing keeps_result_by minted_draws)

lemma keeps_amp_result: "keeps (proj_ok fs) (amp_result m fs msg) (proj_ok fs)"
  unfolding amp_result_def Let_def
  by (rule keeps_read, rule keeps_in_turn, rule keeps_andThen [OF _ keeps_turn_end], rule keeps_steps) (auto simp: plain_def intro!: keeps_rules)

lemma keeps_amp: "keeps (proj_ok fs) (projectAmpLine ctx lib fs line) (proj_ok fs)"
  by (auto simp: projectAmpLine_def projectAmpMessage_def amp_user_def Let_def plain_def split: sum.split jsval.split option.split
      intro!: keeps_skip keeps_emit_ok keeps_amp_system keeps_amp_assistant keeps_amp_result keeps_each keeps_amp_tool_result)

interpretation amp: tool_projector "projectAmpLine ctx lib" proj_ok fresh_projection any_event
  by unfold_locales (auto simp: proj_begins proj_sound proj_once intro: keeps_amp)

end
