(* ===== verification/Pi_Projection.thy ===== *)
theory Pi_Projection
  imports Projection
begin

text \<open>
  The projector of the Pi adapter (\<^verbatim>\<open>packages/adapters/pi/src/projection.ts\<close>). An event is the object of one line.
  Tool calls come from the \<^verbatim>\<open>tool_execution\<close> events alone; what a message update says of a tool is dropped.
\<close>

section \<open>State\<close>

record pi_projection = ProjectionState +
  assistantTextBuffer :: string
  assistantStopReason :: "string option"
  toolCallNames :: "string \<Rightarrow> string option"
  toolCallArgs :: "string \<Rightarrow> js_value option"

section \<open>Files and summary of a tool\<close>

definition isWriteClassTool :: "string \<Rightarrow> bool" where
  "isWriteClassTool name \<longleftrightarrow> name \<in> set [''write'', ''edit'', ''create'', ''delete'', ''patch'', ''apply_patch'', ''rename'',
     ''write_file'', ''edit_file'']"

definition path_entry :: "js_value \<Rightarrow> string list" where
  "path_entry v =
     (case v of
        JStr s \<Rightarrow> if s = [] then [] else [s]
      | _ \<Rightarrow> (case prop_of ''path'' v of JStr p \<Rightarrow> [p] | _ \<Rightarrow> []))"

definition collectPathsFromInput :: "js_value \<Rightarrow> string list" where
  "collectPathsFromInput input =
     concat (map (\<lambda>k. case prop_of k input of JStr s \<Rightarrow> if s = [] then [] else [s] | _ \<Rightarrow> [])
       [''file_path'', ''path'', ''filename'', ''target'', ''destination'', ''abs_path'', ''absolutePath'']) @
     concat (map (\<lambda>k. case prop_of k input of JArr vs \<Rightarrow> concat (map path_entry vs) | _ \<Rightarrow> []) [''files'', ''paths'', ''patches''])"

definition text_parts :: "js_value \<Rightarrow> string list" where
  "text_parts v =
     (case v of
        JArr vs \<Rightarrow> concat (map (\<lambda>e. case prop_of ''text'' e of JStr t \<Rightarrow> [t] | _ \<Rightarrow> []) vs)
      | _ \<Rightarrow> [])"

definition pi_error_text :: "js_record \<Rightarrow> string" where
  "pi_error_text ev =
     (case field ''error'' ev of
        JStr s \<Rightarrow> s
      | e \<Rightarrow> (case prop_of ''message'' e of JStr m \<Rightarrow> m | _ \<Rightarrow> []))"

definition pi_extractToolSummary :: "js_record \<Rightarrow> string" where
  "pi_extractToolSummary ev =
     (case field ''result'' ev of
        JStr s \<Rightarrow> s
      | r \<Rightarrow>
          if text_parts (prop_of ''content'' r) \<noteq> [] then concat (text_parts (prop_of ''content'' r))
          else (case prop_of ''text'' r of JStr t \<Rightarrow> t | _ \<Rightarrow> pi_error_text ev))"

section \<open>Messages\<close>

definition str_or_empty :: "js_value \<Rightarrow> string" where
  "str_or_empty v = (case v of JStr s \<Rightarrow> s | _ \<Rightarrow> [])"

definition pi_text_delta :: "factories \<Rightarrow> string \<Rightarrow> pi_projection proj" where
  "pi_text_delta fs delta =
     (if delta = [] then skip
      else andThen (modify (\<lambda>s. s\<lparr>assistantTextBuffer := assistantTextBuffer s @ delta\<rparr>)) (emit fs (AssistantDelta delta)))"

definition pi_inner :: "factories \<Rightarrow> js_value \<Rightarrow> pi_projection proj" where
  "pi_inner fs inner =
     (let subtype = str_or_empty (prop_of ''type'' inner); delta = str_or_empty (prop_of ''delta'' inner);
          reason = str_or_empty (prop_of ''reason'' inner)
      in if subtype = ''text_delta'' then pi_text_delta fs delta
         else if subtype = ''thinking_delta'' then (if delta = [] then skip else emit fs (Reasoning delta None))
         else if subtype = ''done'' then
           (if reason = [] then skip else modify (\<lambda>s. s\<lparr>assistantStopReason := Some reason\<rparr>))
         else if subtype = ''error'' then
           emit fs (ErrorOf False ''pi_message_error'' (''Pi assistant message errored: '' @ (if reason = [] then ''unknown'' else reason))
             (reason = ''aborted''))
         else skip)"

definition projectMessageUpdate :: "factories \<Rightarrow> js_record \<Rightarrow> pi_projection proj" where
  "projectMessageUpdate fs ev =
     in_turn fs (if is_object (field ''assistantMessageEvent'' ev) then pi_inner fs (field ''assistantMessageEvent'' ev) else skip)"

definition pi_message_end :: "factories \<Rightarrow> pi_projection proj" where
  "pi_message_end fs =
     in_turn fs (andThen
       (reading (\<lambda>s. if assistantTextBuffer s = [] then skip
          else emit fs (AssistantMessage (assistantTextBuffer s) (the_or ''end_turn'' (assistantStopReason s)))))
       (modify (\<lambda>s. s\<lparr>assistantTextBuffer := []\<rparr>)))"

section \<open>Tools\<close>

definition vendor_id :: "js_record \<Rightarrow> string" where
  "vendor_id ev = the_or [] (or_else (get_string ''toolCallId'' ev) (get_string ''tool_id'' ev))"

definition live_args :: "js_record \<Rightarrow> js_value" where
  "live_args ev = nullish_or (field ''args'' ev) (field ''input'' ev)"

definition projectToolStart :: "factories \<Rightarrow> js_record \<Rightarrow> pi_projection proj" where
  "projectToolStart fs ev =
     in_turn fs
       (let v = vendor_id ev; args = live_args ev;
            tool = the_or ''unknown_tool'' (or_else (get_string ''toolName'' ev) (get_string ''name'' ev))
        in if v = [] then skip
           else reading (\<lambda>s. if v \<in> toolCallsEmitted s then skip
             else andThen
               (modify (\<lambda>s. s\<lparr>toolCallNames := (toolCallNames s)(v \<mapsto> tool),
                  toolCallArgs := (if js_truthy args then (toolCallArgs s)(v \<mapsto> args) else toolCallArgs s)\<rparr>))
               (tool_call_once fs v tool (nullish_or args (JObj [])))))"

text \<open>The parent of a patch is the one of the result before it, which does not change the map.\<close>

definition pi_patch :: "factories \<Rightarrow> string \<Rightarrow> js_record \<Rightarrow> pi_projection proj" where
  "pi_patch fs v ev = reading (\<lambda>s.
     let name = to_lower (the_or [] (or_else (get_string ''toolName'' ev) (or_else (get_string ''name'' ev) (toolCallNames s v))));
         input = nullish_or (live_args ev) (the_or JUndefined (toolCallArgs s v));
         files = (if js_truthy input then collectPathsFromInput input else [])
     in if isWriteClassTool name \<and> files \<noteq> [] then emit_with fs (toolCallParents s v) (PatchApplied files 0 0) else skip)"

definition projectToolEnd :: "factories \<Rightarrow> js_record \<Rightarrow> pi_projection proj" where
  "projectToolEnd fs ev =
     (let v = vendor_id ev; okay = (\<not> (is_true (field ''isError'' ev) \<or> is_true (field ''is_error'' ev)))
      in if v = [] then skip
         else reading (\<lambda>s. if v \<in> toolResultsEmitted s then skip
           else in_turn fs (andThen (maybeEmitToolResult fs v okay (pi_extractToolSummary ev)) (if okay then pi_patch fs v ev else skip))))"

section \<open>Events\<close>

definition pi_emitUsageAndCost :: "string option \<Rightarrow> factories \<Rightarrow> pi_projection proj" where
  "pi_emitUsageAndCost provided fs =
     steps
       [emit fs (Usage (the_or ''pi-unknown'' provided)
          \<lparr>tok_input = 0, tok_output = 0, tok_cacheRead = None, tok_cacheCreation = None\<rparr> \<lparr>hits = 0, misses = 0\<rparr>),
        emit fs (Cost None UnknownCost ''subscription'')]"

definition pi_turn_end :: "string option \<Rightarrow> factories \<Rightarrow> js_record \<Rightarrow> pi_projection proj" where
  "pi_turn_end provided fs ev =
     (let stop = the_or ''end_turn'' (or_else (get_string ''stop_reason'' ev) (get_string ''stopReason'' ev))
      in in_turn fs (andThen (pi_emitUsageAndCost provided fs)
           (andThen (andThen (emit fs (TurnEnd stop 0)) close_turn)
              (modify (\<lambda>s. s\<lparr>assistantTextBuffer := [], assistantStopReason := None\<rparr>)))))"

definition pi_error :: "factories \<Rightarrow> string \<Rightarrow> string \<Rightarrow> pi_projection proj" where
  "pi_error fs code message = in_turn fs (emit fs (ErrorOf False code message False))"

definition pi_agent_start :: "session_source \<Rightarrow> factories \<Rightarrow> pi_projection proj" where
  "pi_agent_start src fs = reading (\<lambda>s. if sessionStartEmitted s then skip
     else andThen (modify (\<lambda>s. s\<lparr>sessionStartEmitted := True\<rparr>)) (in_turn fs (emit fs (SessionStart src))))"

definition projectPiEvent :: "projection_ctx \<Rightarrow> factories \<Rightarrow> js_record \<Rightarrow> pi_projection proj" where
  "projectPiEvent ctx fs ev =
     (let t = the_or [] (get_string ''type'' ev)
      in if t \<in> set [[], ''ready'', ''response''] then skip
         else if t = ''agent_start'' then pi_agent_start (sessionSource ctx) fs
         else if t = ''agent_end'' then in_turn fs (andThen (emit fs (SessionEnd ''agent_end'')) close_turn)
         else if t = ''turn_start'' then
           in_turn fs (modify (\<lambda>s. s\<lparr>assistantTextBuffer := [], assistantStopReason := None\<rparr>))
         else if t = ''message_start'' then in_turn fs (modify (\<lambda>s. s\<lparr>assistantTextBuffer := []\<rparr>))
         else if t = ''message_update'' then projectMessageUpdate fs ev
         else if t = ''message_end'' then pi_message_end fs
         else if t = ''tool_execution_start'' then projectToolStart fs ev
         else if t = ''tool_execution_update'' then skip
         else if t = ''tool_execution_end'' then projectToolEnd fs ev
         else if t = ''turn_end'' then pi_turn_end (modelProvider ctx) fs ev
         else if t = ''extension_error'' then
           pi_error fs ''pi_extension_error''
             (''Pi extension '' @ json_quote (the_or ''<unknown>'' (get_string ''extensionPath'' ev)) @ '' failed during '' @
              the_or ''<unknown>'' (get_string ''event'' ev) @ '': '' @ the_or ''extension error'' (get_string ''error'' ev))
         else if t = ''extension_ui_request'' then
           pi_error fs ''pi_extension_ui_request''
             (''Pi extension requested user UI '' @ EM_DASH @ '' shamu'' @ [CHR 0x27] @ ''s daemon does not support interactive UI requests'')
         else if t \<in> set [''queue_update'', ''compaction_start'', ''compaction_end'', ''auto_retry_start'', ''auto_retry_end''] then skip
         else pi_error fs ''pi_unknown_event'' (''Pi async event type not recognized: '' @ json_quote t))"

section \<open>The contract\<close>

lemma keeps_pi_patch [keeps_rules]: "keeps (proj_open fs) (pi_patch fs v ev) (proj_open fs)"
  unfolding pi_patch_def Let_def by (rule keeps_with_parent) (simp add: plain_def)

lemma keeps_pi_update [keeps_rules]: "keeps (proj_ok fs) (projectMessageUpdate fs ev) (proj_ok fs)"
  unfolding projectMessageUpdate_def pi_inner_def pi_text_delta_def Let_def
  by (intro keeps_in_turn keeps_closing) (auto simp: plain_def proj_defs intro!: keeps_rules keeps_modify_open)

lemma keeps_pi_message_end [keeps_rules]: "keeps (proj_ok fs) (pi_message_end fs) (proj_ok fs)"
  unfolding pi_message_end_def
  by (intro keeps_in_turn keeps_closing) (auto simp: plain_def proj_defs intro!: keeps_rules keeps_modify_open)

lemma keeps_pi_tool_start [keeps_rules]: "keeps (proj_ok fs) (projectToolStart fs ev) (proj_ok fs)"
  unfolding projectToolStart_def Let_def
  by (intro keeps_in_turn keeps_closing) (auto simp: proj_defs intro!: keeps_rules keeps_modify_open)

lemma keeps_pi_tool_end [keeps_rules]: "keeps (proj_ok fs) (projectToolEnd fs ev) (proj_ok fs)"
  unfolding projectToolEnd_def Let_def
  by (intro keeps_rules keeps_in_turn keeps_closing)

lemma keeps_pi_turn_end [keeps_rules]: "keeps (proj_ok fs) (pi_turn_end m fs ev) (proj_ok fs)"
  unfolding pi_turn_end_def Let_def
  by (rule keeps_in_turn, rule keeps_andThen [where Q = "proj_open fs"], unfold pi_emitUsageAndCost_def, rule keeps_steps)
    (auto simp: plain_def proj_defs intro!: keeps_rules keeps_andThen [OF keeps_turn_end] keeps_modify_ok)

lemma keeps_pi_error [keeps_rules]: "keeps (proj_ok fs) (pi_error fs code message) (proj_ok fs)"
  unfolding pi_error_def by (rule keeps_emit_ok) (simp add: plain_def)

lemma keeps_pi_agent_start [keeps_rules]: "keeps (proj_ok fs) (pi_agent_start src fs) (proj_ok fs)"
  by (auto simp: pi_agent_start_def plain_def proj_defs intro!: keeps_rules keeps_modify_ok)

lemma keeps_pi: "keeps (proj_ok fs) (projectPiEvent ctx fs ev) (proj_ok fs)"
proof -
  have reset: "keeps (proj_ok fs) (in_turn fs (modify (\<lambda>s. s\<lparr>assistantTextBuffer := [], assistantStopReason := None\<rparr>))) (proj_ok fs)"
    "keeps (proj_ok fs) (in_turn fs (modify (\<lambda>s. s\<lparr>assistantTextBuffer := []\<rparr>))) (proj_ok fs)"
    by (intro keeps_in_turn keeps_closing keeps_modify_open; simp add: proj_defs)+
  have ended: "keeps (proj_ok fs) (in_turn fs (andThen (emit fs (SessionEnd r)) close_turn)) (proj_ok fs)" for r
    by (intro keeps_in_turn keeps_andThen [OF keeps_emit keeps_close]) (simp add: plain_def)
  show ?thesis unfolding projectPiEvent_def Let_def by (intro keeps_if keeps_skip reset ended keeps_rules)
qed

interpretation pi: tool_projector "projectPiEvent ctx" proj_ok fresh_projection any_event
  by unfold_locales (auto simp: proj_begins proj_sound proj_once intro: keeps_pi)

section \<open>A message is the sum of its deltas\<close>

definition message_start :: js_record where
  "message_start = [(''type'', JStr ''message_start'')]"

definition text_update :: "string \<Rightarrow> js_record" where
  "text_update t = [(''type'', JStr ''message_update''),
     (''assistantMessageEvent'', JObj [(''type'', JStr ''text_delta''), (''delta'', JStr t)])]"

definition message_end :: js_record where
  "message_end = [(''type'', JStr ''message_end'')]"

lemma pi_event_of:
  "projectPiEvent ctx fs message_start = in_turn fs (modify (\<lambda>s. s\<lparr>assistantTextBuffer := []\<rparr>))"
  "projectPiEvent ctx fs (text_update t) = in_turn fs (pi_text_delta fs t)"
  "projectPiEvent ctx fs message_end = pi_message_end fs"
  by (simp_all add: projectPiEvent_def message_start_def text_update_def message_end_def get_string_def field_def the_or_def
      projectMessageUpdate_def is_object_def pi_inner_def prop_of_def str_or_empty_def)

definition deltas :: "string list \<Rightarrow> Payload list" where
  "deltas ts = map AssistantDelta (filter (\<lambda>t. t \<noteq> []) ts)"

text \<open>A step in a good state: the payloads it emits and what it leaves in the buffer.\<close>

definition writes :: "factories \<Rightarrow> pi_projection proj \<Rightarrow> pi_projection \<Rightarrow> Payload list \<Rightarrow> string \<Rightarrow> bool" where
  "writes fs f s ps buf \<longleftrightarrow> (\<exists>out s'. f s = Inr (out, s') \<and> (\<exists>hist. proj_ok fs s' hist) \<and> map payload out = ps \<and>
     assistantTextBuffer s' = buf \<and> assistantStopReason s' = assistantStopReason s)"

lemma emits:
  assumes "proj_open fs (s :: pi_projection) hist" and "plain p"
  shows "\<exists>e s'. emit fs p s = Inr ([e], s') \<and> proj_open fs s' (hist @ [e]) \<and> payload e = p \<and>
    assistantTextBuffer s' = assistantTextBuffer s \<and> assistantStopReason s' = assistantStopReason s"
proof -
  obtain out s' where k: "emit fs p s = Inr (out, s')" "proj_open fs s' (hist @ out)"
    using keeps_emit [OF assms(2), of fs] assms(1) unfolding keeps_def by blast
  obtain e s1 where e: "make_envelope fs None None s = Inr (e, s1)"
    "s1 = s\<lparr>lastMonotonic := Some (ev_monotonic e), lastWall := ev_wall e, corr_seq := Suc (corr_seq s)\<rparr>"
    by (rule emit_step [OF assms(1), of None]) blast
  with k show ?thesis by (auto simp: emit_with_def map_result_def)
qed

lemma opened:
  assumes "proj_ok fs (s :: pi_projection) hist"
  obtains s' where "openTurnIfNeeded fs s = Inr ([], s')" "proj_open fs s' hist"
    "assistantTextBuffer s' = assistantTextBuffer s" "assistantStopReason s' = assistantStopReason s"
proof -
  obtain out s' where "openTurnIfNeeded fs s = Inr (out, s')" "proj_open fs s' (hist @ out)"
    using keeps_openTurn [of fs] assms unfolding keeps_def by blast
  then show ?thesis
    by (intro that [of s']) (auto simp: openTurnIfNeeded_def reading_def skip_def modify_def startTurn_def split: if_splits)
qed

lemma modify_writes:
  assumes "proj_open fs s hist"
  shows "proj_open fs (s\<lparr>assistantTextBuffer := t\<rparr>) hist"
  using assms by (simp add: proj_defs)

lemma start_writes:
  assumes "proj_ok fs s hist"
  shows "writes fs (projectPiEvent ctx fs message_start) s [] []"
proof -
  obtain s' where "openTurnIfNeeded fs s = Inr ([], s')" "proj_open fs s' hist"
    "assistantTextBuffer s' = assistantTextBuffer s" "assistantStopReason s' = assistantStopReason s"
    by (rule opened [OF assms])
  then show ?thesis using modify_writes [of fs s' hist "[]"]
    by (auto simp: writes_def pi_event_of in_turn_def andThen_def map_result_def modify_def intro: open_ok)
qed

lemma delta_writes:
  assumes "proj_ok fs s hist"
  shows "writes fs (projectPiEvent ctx fs (text_update t)) s (deltas [t]) (assistantTextBuffer s @ t)"
proof -
  obtain s' where s': "openTurnIfNeeded fs s = Inr ([], s')" "proj_open fs s' hist"
    "assistantTextBuffer s' = assistantTextBuffer s" "assistantStopReason s' = assistantStopReason s"
    by (rule opened [OF assms])
  let ?s = "s'\<lparr>assistantTextBuffer := assistantTextBuffer s' @ t\<rparr>"
  have "plain (AssistantDelta t)" by (simp add: plain_def)
  with modify_writes [OF s'(2)] obtain e s2 where "emit fs (AssistantDelta t) ?s = Inr ([e], s2)" "proj_open fs s2 (hist @ [e])"
    "payload e = AssistantDelta t" "assistantTextBuffer s2 = assistantTextBuffer s @ t" "assistantStopReason s2 = assistantStopReason s"
    using emits [of fs ?s hist "AssistantDelta t"] s'(3,4) by auto
  then show ?thesis using s'
    by (auto simp: writes_def pi_event_of in_turn_def pi_text_delta_def andThen_def map_result_def modify_def skip_def deltas_def
        intro: open_ok)
qed

lemma end_writes:
  assumes "proj_ok fs s hist"
  shows "writes fs (projectPiEvent ctx fs message_end) s
    (if assistantTextBuffer s = [] then []
     else [AssistantMessage (assistantTextBuffer s) (the_or ''end_turn'' (assistantStopReason s))]) []"
proof -
  obtain s' where s': "openTurnIfNeeded fs s = Inr ([], s')" "proj_open fs s' hist"
    "assistantTextBuffer s' = assistantTextBuffer s" "assistantStopReason s' = assistantStopReason s"
    by (rule opened [OF assms])
  let ?p = "AssistantMessage (assistantTextBuffer s) (the_or ''end_turn'' (assistantStopReason s))"
  have "plain ?p" by (simp add: plain_def)
  with s' obtain e s2 where e: "emit fs ?p s' = Inr ([e], s2)" "proj_open fs s2 (hist @ [e])"
    "payload e = ?p" "assistantStopReason s2 = assistantStopReason s"
    using emits [of fs s' hist ?p] by auto
  show ?thesis
    using s' e modify_writes [OF s'(2), of "[]"] modify_writes [OF e(2), of "[]"]
    by (auto simp: writes_def pi_event_of in_turn_def pi_message_end_def reading_def andThen_def map_result_def modify_def skip_def
        intro: open_ok)
qed

lemma writes_then:
  assumes "writes fs f s ps buf" and "\<And>s' hist. proj_ok fs s' hist \<Longrightarrow> assistantTextBuffer s' = buf \<Longrightarrow>
      assistantStopReason s' = assistantStopReason s \<Longrightarrow> writes fs g s' qs buf'"
  shows "writes fs (andThen f g) s (ps @ qs) buf'"
proof -
  from assms(1) obtain out s' hist where f: "f s = Inr (out, s')" "proj_ok fs s' hist" "map payload out = ps"
    "assistantTextBuffer s' = buf" "assistantStopReason s' = assistantStopReason s" by (auto simp: writes_def)
  with assms(2) [of s' hist] obtain out' s'' hist' where "g s' = Inr (out', s'')" "proj_ok fs s'' hist'" "map payload out' = qs"
    "assistantTextBuffer s'' = buf'" "assistantStopReason s'' = assistantStopReason s" by (auto simp: writes_def)
  with f show ?thesis by (auto simp: writes_def andThen_def map_result_def)
qed

lemma updates_write:
  assumes "proj_ok fs s hist"
  shows "writes fs (each (projectPiEvent ctx fs) (map text_update ts @ [message_end])) s
    (deltas ts @ (if assistantTextBuffer s @ concat ts = [] then []
       else [AssistantMessage (assistantTextBuffer s @ concat ts) (the_or ''end_turn'' (assistantStopReason s))])) []"
  using assms
proof (induction ts arbitrary: s hist)
  case Nil
  let ?ps = "if assistantTextBuffer s = [] then [] else [AssistantMessage (assistantTextBuffer s) (the_or ''end_turn'' (assistantStopReason s))]"
  have "writes fs (andThen (projectPiEvent ctx fs message_end) skip) s (?ps @ []) []"
    by (rule writes_then [OF end_writes [OF Nil]]) (auto simp: writes_def skip_def)
  then show ?case by (simp only: each_def deltas_def concat.simps append_Nil append_Nil2 list.map filter.simps steps.simps)
next
  case (Cons t ts)
  let ?rest = "\<lambda>b s. deltas ts @ (if b @ concat ts = [] then []
      else [AssistantMessage (b @ concat ts) (the_or ''end_turn'' (assistantStopReason s))])"
  have "writes fs (andThen (projectPiEvent ctx fs (text_update t)) (each (projectPiEvent ctx fs) (map text_update ts @ [message_end]))) s
    (deltas [t] @ ?rest (assistantTextBuffer s @ t) s) []"
  proof (rule writes_then [OF delta_writes [OF Cons.prems]])
    fix s' :: pi_projection and hist' assume s': "proj_ok fs s' hist'" "assistantTextBuffer s' = assistantTextBuffer s @ t"
      "assistantStopReason s' = assistantStopReason s"
    show "writes fs (each (projectPiEvent ctx fs) (map text_update ts @ [message_end])) s' (?rest (assistantTextBuffer s @ t) s) []"
      using Cons.IH [OF s'(1)] unfolding s'(2,3) .
  qed
  then show ?case by (cases "t = []") (simp_all add: each_def deltas_def cong: if_cong split del: if_split)
qed

text \<open>Streaming loses no text. In every state a run of the projector can reach, the deltas between the start and
  the end of a message are emitted one by one in order, the empty ones dropped, and the end emits the whole
  message, which is their concatenation and nothing of an earlier message; a message without text emits nothing.
\<close>

theorem pi_message_assembled:
  assumes "proj_ok fs s hist"
  shows "map_result (\<lambda>(out, _). map payload out)
      (each (projectPiEvent ctx fs) (message_start # map text_update ts @ [message_end]) s) =
    Inr (map AssistantDelta (filter (\<lambda>t. t \<noteq> []) ts) @
      (if concat ts = [] then [] else [AssistantMessage (concat ts) (the_or ''end_turn'' (assistantStopReason s))]))"
proof -
  have "writes fs (each (projectPiEvent ctx fs) (map text_update ts @ [message_end])) s'
      (deltas ts @ (if concat ts = [] then [] else [AssistantMessage (concat ts) (the_or ''end_turn'' (assistantStopReason s))])) []"
    if "proj_ok fs s' hist'" "assistantTextBuffer s' = []" "assistantStopReason s' = assistantStopReason s" for s' hist'
    using updates_write [OF that(1), of ctx ts] by (simp only: that(2,3) append_Nil)
  then have "writes fs (andThen (projectPiEvent ctx fs message_start) (each (projectPiEvent ctx fs) (map text_update ts @ [message_end]))) s
      ([] @ deltas ts @ (if concat ts = [] then [] else [AssistantMessage (concat ts) (the_or ''end_turn'' (assistantStopReason s))])) []"
    by (rule writes_then [OF start_writes [OF assms]])
  then show ?thesis by (auto simp: writes_def each_def map_result_def deltas_def)
qed

definition new_pi :: pi_projection where
  "new_pi = createProjectionState (new_CorrelationState ''run'' None ''pi'') (pi_projection.fields [] None Map.empty Map.empty)"

lemma new_pi_ok: "proj_ok demo_factories new_pi []"
  unfolding new_pi_def by (rule proj_begins [OF demo_fresh created_fresh]) (simp add: new_CorrelationState_def)

theorem pi_message_assembled_witness:
  "map_result (\<lambda>(out, _). map payload out)
      (each (projectPiEvent \<lparr>sessionSource = Spawn, targetSessionId = None, modelProvider = None\<rparr> demo_factories)
        (message_start # map text_update [''Hel'', [], ''lo''] @ [message_end]) new_pi) =
    Inr [AssistantDelta ''Hel'', AssistantDelta ''lo'', AssistantMessage ''Hello'' ''end_turn'']"
  using pi_message_assembled [OF new_pi_ok, of _ "[''Hel'', [], ''lo'']"]
  by (simp add: new_pi_def createProjectionState_def pi_projection.fields_def the_or_def)

end
