(* ===== verification/Opencode_Projection.thy ===== *)
theory Opencode_Projection
  imports Projection
begin

text \<open>
  The projector of the OpenCode adapter (\<^verbatim>\<open>packages/adapters/opencode/src/projection.ts\<close>). The event stream of the
  server echoes the prompt of the user, so a part with text is emitted only after its message was announced as
  one of the assistant; parts that come earlier wait. The token counts of a message are optional fields; the
  count of reasoning tokens, which the schema of the event drops, is left out.
\<close>

section \<open>Events of the server\<close>

record oc_tokens =
  oc_input :: "int option"
  oc_output :: "int option"
  oc_cache :: "(int option \<times> int option) option"

datatype tool_state =
    ToolActive "js_value option"
  | ToolCompleted "js_value option" "string option"
  | ToolErrored "js_value option" "string option"

datatype part_body =
    TextPart "string option" bool
  | ReasoningPart "string option"
  | ToolPart string string tool_state
  | PatchPart "string list"
  | StepFinish oc_tokens
  | OtherPart

record part =
  part_id :: string
  part_session :: "string option"
  part_message :: string
  part_body :: part_body

record oc_message =
  msg_id :: string
  msg_session :: "string option"
  msg_role :: string
  msg_finish :: "string option"
  msg_tokens :: "oc_tokens option"
  msg_model :: "string option"

record oc_error =
  err_name :: "string option"
  err_message :: "string option"
  err_retryable :: "bool option"

datatype opencode_event =
    SessionInfo string
  | SessionIdle string
  | SessionError "string option" "oc_error option"
  | MessageUpdated oc_message
  | PartUpdated part "string option"
  | PermissionUpdated string "string option" string
  | PermissionReplied string string string
  | OtherEvent

section \<open>State\<close>

record snapshot =
  snap_tokens :: "oc_tokens option"
  snap_model :: "string option"

record opencode_projection = ProjectionState +
  assistantFinish :: "string option"
  lastAssistant :: "snapshot option"
  textPartCumulative :: "string \<Rightarrow> string option"
  userMessageIds :: "string set"
  assistantMessageIds :: "string set"
  pendingParts :: "string \<Rightarrow> (part \<times> string option) list option"

definition privileged :: "part \<Rightarrow> bool" where
  "privileged p = (case part_body p of TextPart _ _ \<Rightarrow> True | ReasoningPart _ \<Rightarrow> True | _ \<Rightarrow> False)"

section \<open>Parts\<close>

definition oc_text :: "factories \<Rightarrow> part \<Rightarrow> string option \<Rightarrow> bool \<Rightarrow> string option \<Rightarrow> opencode_projection proj" where
  "oc_text fs p t ended delta = reading (\<lambda>s.
     let prev = the_or [] (textPartCumulative s (part_id p));
         nxt = the_or [] t;
         chunk = (if the_or [] delta \<noteq> [] then the delta
                  else if starts_with prev nxt then drop (length prev) nxt else nxt)
     in andThen (modify (\<lambda>s. s\<lparr>textPartCumulative := (textPartCumulative s)(part_id p \<mapsto> nxt)\<rparr>))
          (if ended then emit fs (AssistantMessage nxt (the_or ''end_turn'' (assistantFinish s)))
           else if chunk \<noteq> [] then emit fs (AssistantDelta chunk)
           else skip))"

definition input_of :: "tool_state \<Rightarrow> js_value" where
  "input_of st = the_or (JObj []) (case st of ToolActive i \<Rightarrow> i | ToolCompleted i _ \<Rightarrow> i | ToolErrored i _ \<Rightarrow> i)"

definition oc_tool :: "factories \<Rightarrow> string \<Rightarrow> string \<Rightarrow> tool_state \<Rightarrow> opencode_projection proj" where
  "oc_tool fs callID tool st =
     andThen (tool_call_once fs callID tool (input_of st))
       (case st of
          ToolActive _ \<Rightarrow> skip
        | ToolCompleted _ output \<Rightarrow> tool_result_by (lookup_or_mint fs) fs callID True (the_or [] output)
        | ToolErrored _ err \<Rightarrow> tool_result_by (lookup_or_mint fs) fs callID False (the_or ''error'' err))"

definition projectPart :: "factories \<Rightarrow> part \<times> string option \<Rightarrow> opencode_projection proj" where
  "projectPart fs pd =
     in_turn fs
       (case pd of (p, delta) \<Rightarrow>
          (case part_body p of
             TextPart t ended \<Rightarrow> oc_text fs p t ended delta
           | ReasoningPart t \<Rightarrow> if the_or [] t = [] then skip else emit fs (Reasoning (the_or [] t) None)
           | ToolPart callID tool st \<Rightarrow> oc_tool fs callID tool st
           | PatchPart files \<Rightarrow> emit fs (PatchApplied files 0 0)
           | StepFinish tk \<Rightarrow>
               modify (\<lambda>s. s\<lparr>lastAssistant :=
                 Some \<lparr>snap_tokens = Some tk, snap_model = (case lastAssistant s of None \<Rightarrow> None | Some l \<Rightarrow> snap_model l)\<rparr>\<rparr>)
           | OtherPart \<Rightarrow> skip))"

section \<open>Turn ends and errors\<close>

definition oc_emitUsageAndCost :: "string option \<Rightarrow> factories \<Rightarrow> opencode_projection proj" where
  "oc_emitUsageAndCost provided fs = reading (\<lambda>s.
     let tk = the_or \<lparr>oc_input = Some 0, oc_output = Some 0, oc_cache = Some (Some 0, Some 0)\<rparr>
                (case lastAssistant s of None \<Rightarrow> None | Some l \<Rightarrow> snap_tokens l);
         model = the_or ''opencode-unknown'' (or_else provided (case lastAssistant s of None \<Rightarrow> None | Some l \<Rightarrow> snap_model l));
         (rd, wr) = the_or (None, None) (oc_cache tk)
     in steps
          [emit fs (Usage model
             \<lparr>tok_input = the_or 0 (oc_input tk), tok_output = the_or 0 (oc_output tk), tok_cacheRead = None, tok_cacheCreation = None\<rparr>
             \<lparr>hits = the_or 0 rd, misses = the_or 0 wr\<rparr>),
           emit fs (Cost None UnknownCost ''subscription'')])"

definition oc_idle :: "string option \<Rightarrow> factories \<Rightarrow> opencode_projection proj" where
  "oc_idle provided fs = reading (\<lambda>s.
     if turnOpen s then
       andThen (oc_emitUsageAndCost provided fs)
         (andThen (andThen (emit fs (TurnEnd (the_or ''idle'' (assistantFinish s)) 0)) close_turn)
            (modify (\<lambda>s. s\<lparr>assistantFinish := None\<rparr>)))
     else skip)"

definition isRetriable :: "oc_error option \<Rightarrow> bool" where
  "isRetriable err = (case err of None \<Rightarrow> False | Some e \<Rightarrow> err_name e = Some ''APIError'' \<and> err_retryable e = Some True)"

definition oc_session_error :: "factories \<Rightarrow> oc_error option \<Rightarrow> opencode_projection proj" where
  "oc_session_error fs err =
     in_turn fs (emit fs (ErrorOf True
       (the_or ''opencode_session_error'' (case err of None \<Rightarrow> None | Some e \<Rightarrow> err_name e))
       (the_or ''session error'' (case err of None \<Rightarrow> None | Some e \<Rightarrow> err_message e))
       (isRetriable err)))"

definition normalizePermissionDecision :: "string \<Rightarrow> decision" where
  "normalizePermissionDecision raw =
     (let s = to_lower raw
      in if has_substring ''allow'' s then Allow
         else if has_substring ''deny'' s \<or> has_substring ''reject'' s then Deny
         else if s = ''ask'' then Ask
         else Pending)"

definition permission_event :: "factories \<Rightarrow> string \<Rightarrow> decision \<Rightarrow> opencode_projection proj" where
  "permission_event fs callID d s = (case stored_id fs callID s of (t, s1) \<Rightarrow> in_turn fs (emit fs (PermissionRequest t d)) s1)"

section \<open>Messages and parts\<close>

definition oc_assistant_message :: "factories \<Rightarrow> oc_message \<Rightarrow> opencode_projection proj" where
  "oc_assistant_message fs info =
     andThen
       (modify (\<lambda>s. s\<lparr>assistantMessageIds := insert (msg_id info) (assistantMessageIds s),
          lastAssistant := Some \<lparr>snap_tokens = msg_tokens info, snap_model = msg_model info\<rparr>,
          assistantFinish := (if truthy (msg_finish info) then msg_finish info else assistantFinish s)\<rparr>))
       (reading (\<lambda>s.
          case pendingParts s (msg_id info) of
            None \<Rightarrow> skip
          | Some entries \<Rightarrow>
              andThen (modify (\<lambda>s. s\<lparr>pendingParts := (pendingParts s)(msg_id info := None)\<rparr>)) (each (projectPart fs) entries)))"

definition oc_message_updated :: "factories \<Rightarrow> oc_message \<Rightarrow> opencode_projection proj" where
  "oc_message_updated fs info =
     (if msg_role info = ''user'' then
        modify (\<lambda>s. s\<lparr>userMessageIds := insert (msg_id info) (userMessageIds s), pendingParts := (pendingParts s)(msg_id info := None)\<rparr>)
      else if msg_role info \<noteq> ''assistant'' then skip
      else oc_assistant_message fs info)"

definition oc_part_updated :: "factories \<Rightarrow> part \<Rightarrow> string option \<Rightarrow> opencode_projection proj" where
  "oc_part_updated fs p delta = reading (\<lambda>s.
     if part_message p \<in> userMessageIds s then skip
     else if privileged p \<and> part_message p \<notin> assistantMessageIds s then
       modify (\<lambda>s. s\<lparr>pendingParts := (pendingParts s)(part_message p \<mapsto> the_or [] (pendingParts s (part_message p)) @ [(p, delta)])\<rparr>)
     else projectPart fs (p, delta))"

definition projectOpencodeEvent :: "projection_ctx \<Rightarrow> factories \<Rightarrow> opencode_event \<Rightarrow> opencode_projection proj" where
  "projectOpencodeEvent ctx fs ev =
     (case ev of
        SessionInfo i \<Rightarrow>
          if \<not> matchesSession ctx (Some i) then skip
          else andThen (bindSessionIfNeeded (Some i)) (reading (\<lambda>s. if sessionStartEmitted s then skip
            else andThen (modify (\<lambda>s. s\<lparr>sessionStartEmitted := True\<rparr>)) (in_turn fs (emit fs (SessionStart (sessionSource ctx))))))
      | SessionIdle i \<Rightarrow> if matchesSession ctx (Some i) then oc_idle (modelProvider ctx) fs else skip
      | SessionError i err \<Rightarrow> if truthy i \<and> \<not> matchesSession ctx i then skip else oc_session_error fs err
      | MessageUpdated info \<Rightarrow> if matchesSession ctx (msg_session info) then oc_message_updated fs info else skip
      | PartUpdated p delta \<Rightarrow> if matchesSession ctx (part_session p) then oc_part_updated fs p delta else skip
      | PermissionUpdated i callID pid \<Rightarrow>
          if matchesSession ctx (Some i) then permission_event fs (the_or pid callID) Pending else skip
      | PermissionReplied i pid response \<Rightarrow>
          if matchesSession ctx (Some i) then permission_event fs pid (normalizePermissionDecision response) else skip
      | OtherEvent \<Rightarrow> skip)"

section \<open>The contract\<close>

lemma keeps_oc_part [keeps_rules]: "keeps (proj_ok fs) (projectPart fs pd) (proj_ok fs)"
  unfolding projectPart_def oc_text_def oc_tool_def Let_def
  by (intro keeps_in_turn keeps_closing)
    (auto simp: plain_def proj_defs split: prod.split part_body.split tool_state.split
      intro!: keeps_rules keeps_modify_open keeps_result_by minted_draws)

lemma keeps_oc_idle [keeps_rules]: "keeps (proj_ok fs) (oc_idle m fs) (proj_ok fs)"
proof -
  have usage: "keeps (proj_open fs) (oc_emitUsageAndCost m fs) (proj_open fs)"
    unfolding oc_emitUsageAndCost_def Let_def split_beta
    by (intro keeps_read keeps_steps) (auto simp: plain_def intro!: keeps_rules)
  have "keeps (proj_open fs) (andThen (oc_emitUsageAndCost m fs)
         (andThen (andThen (emit fs (TurnEnd r 0)) close_turn) (modify (\<lambda>s. s\<lparr>assistantFinish := None\<rparr>)))) (proj_ok fs)" for r
    by (rule keeps_andThen [OF usage], rule keeps_andThen [OF keeps_turn_end], rule keeps_modify_ok) (simp add: proj_defs)
  then show ?thesis
    unfolding oc_idle_def by (intro keeps_when_open)
qed

lemma keeps_oc_permission [keeps_rules]: "keeps (proj_ok fs) (permission_event fs v d) (proj_ok fs)"
proof (rule keepsI)
  fix s :: opencode_projection and hist assume o: "proj_ok fs s hist"
  obtain t s1 where st: "stored_id fs v s = (t, s1)" by force
  then have "proj_ok fs s1 hist" using stored_ok [OF o] by blast
  moreover have "keeps (proj_ok fs) (in_turn fs (emit fs (PermissionRequest t d))) (proj_ok fs :: opencode_projection \<Rightarrow> _)"
    by (rule keeps_emit_ok) (simp add: plain_def)
  ultimately show "\<exists>out s'. permission_event fs v d s = Inr (out, s') \<and> proj_ok fs s' (hist @ out)"
    unfolding permission_event_def keeps_def st by simp
qed

lemma keeps_oc_message [keeps_rules]: "keeps (proj_ok fs) (oc_message_updated fs info) (proj_ok fs)"
  by (auto simp: oc_message_updated_def oc_assistant_message_def proj_defs split: option.split
      intro!: keeps_rules keeps_modify_ok keeps_each)

lemma keeps_oc_part_updated [keeps_rules]: "keeps (proj_ok fs) (oc_part_updated fs p delta) (proj_ok fs)"
  by (auto simp: oc_part_updated_def proj_defs intro!: keeps_rules keeps_modify_ok)

lemma keeps_opencode: "keeps (proj_ok fs) (projectOpencodeEvent ctx fs ev) (proj_ok fs)"
  by (cases ev)
    (auto simp: projectOpencodeEvent_def oc_session_error_def plain_def proj_defs intro!: keeps_rules keeps_modify_ok)

interpretation opencode: tool_projector "projectOpencodeEvent ctx" proj_ok fresh_projection any_event
  by unfold_locales (auto simp: proj_begins proj_sound proj_once intro: keeps_opencode)

section \<open>What waits stays unseen\<close>

text \<open>A step that neither reads nor writes the waiting parts and announces no message.\<close>

definition blind :: "opencode_projection proj \<Rightarrow> bool" where
  "blind f \<longleftrightarrow> (\<forall>s q. f (s\<lparr>pendingParts := q\<rparr>) = map_result (\<lambda>(out, s'). (out, s'\<lparr>pendingParts := q\<rparr>)) (f s)) \<and>
     (\<forall>s out s'. f s = Inr (out, s') \<longrightarrow> assistantMessageIds s' = assistantMessageIds s)"

named_theorems blind_rules "steps that do not see the waiting parts"

lemma blind_skip [blind_rules]: "blind skip"
  by (simp add: blind_def skip_def map_result_def)

lemma blind_modify [blind_rules]:
  "(\<And>s q. f (s\<lparr>pendingParts := q\<rparr>) = (f s)\<lparr>pendingParts := q\<rparr>) \<Longrightarrow> (\<And>s. assistantMessageIds (f s) = assistantMessageIds s) \<Longrightarrow>
    blind (modify f)"
  by (simp add: blind_def modify_def map_result_def)

lemma blind_reading [blind_rules]:
  "(\<And>s q. f (s\<lparr>pendingParts := q\<rparr>) = f s) \<Longrightarrow> (\<And>s. blind (f s)) \<Longrightarrow> blind (reading f)"
  by (simp add: blind_def reading_def)

lemma blind_if [blind_rules]: "blind f \<Longrightarrow> blind g \<Longrightarrow> blind (if c then f else g)"
  by simp

lemma blind_andThen [blind_rules]:
  assumes f: "blind f" and g: "blind g"
  shows "blind (andThen f g)"
  unfolding blind_def
proof (intro conjI allI impI)
  show "andThen f g (s\<lparr>pendingParts := q\<rparr>) = map_result (\<lambda>(out, s'). (out, s'\<lparr>pendingParts := q\<rparr>)) (andThen f g s)" for s q
    using f g by (cases "f s"; cases "g (snd (projr (f s)))") (auto simp: blind_def andThen_def map_result_def)
  show "andThen f g s = Inr (out, s') \<Longrightarrow> assistantMessageIds s' = assistantMessageIds s" for s out s'
    using f g by (cases "f s"; cases "g (snd (projr (f s)))") (auto simp: blind_def andThen_def map_result_def)
qed

lemma blind_steps [blind_rules]: "list_all blind hs \<Longrightarrow> blind (steps hs)"
  by (induction hs) (auto intro: blind_rules)

lemma blind_each [blind_rules]: "(\<And>x. blind (f x)) \<Longrightarrow> blind (each f xs)"
  by (auto simp: each_def list_all_iff intro!: blind_steps)

lemma blind_emit [blind_rules]: "blind (emit_with fs parent p)"
  by (auto simp: blind_def emit_with_def make_envelope_def map_result_def Let_def split: option.splits prod.splits if_splits)

lemma blind_in_turn [blind_rules]: "blind f \<Longrightarrow> blind (in_turn fs f)"
  unfolding in_turn_def openTurnIfNeeded_def by (intro blind_rules) (simp_all add: startTurn_def)

lemma blind_call [blind_rules]: "blind (tool_call_once fs v tool args)"
  by (auto simp: blind_def tool_call_once_def stored_id_def lookup_or_mint_def skip_def make_envelope_def map_result_def Let_def
      rememberToolCall_def split: option.splits prod.splits if_splits)

lemma blind_result [blind_rules]: "blind (tool_result_by (lookup_or_mint fs) fs v okay summary)"
  by (auto simp: blind_def tool_result_by_def lookup_or_mint_def skip_def make_envelope_def map_result_def Let_def
      split: option.splits prod.splits if_splits)

lemma stored_blind:
  "stored_id fs v (s\<lparr>pendingParts := q\<rparr>) = (case stored_id fs v s of (t, s1) \<Rightarrow> (t, s1\<lparr>pendingParts := q\<rparr>))"
  "stored_id fs v s = (t, s1) \<Longrightarrow> assistantMessageIds s1 = assistantMessageIds s"
  by (auto simp: stored_id_def lookup_or_mint_def split: option.splits)

lemma blind_permission [blind_rules]: "blind (permission_event fs v d)"
proof -
  have "blind (in_turn fs (emit fs (PermissionRequest t d)))" for t by (intro blind_rules)
  then show ?thesis
    unfolding blind_def permission_event_def stored_blind by (auto simp: stored_blind(2) split: prod.splits)
qed

lemma blind_part [blind_rules]: "blind (projectPart fs pd)"
  unfolding projectPart_def oc_text_def oc_tool_def Let_def
  by (auto split: prod.split part_body.split tool_state.split intro!: blind_rules)

lemma blind_idle [blind_rules]: "blind (oc_idle m fs)"
  unfolding oc_idle_def oc_emitUsageAndCost_def Let_def split_beta close_turn_def
  by (auto simp: endTurn_def intro!: blind_rules)

lemma blind_bind [blind_rules]: "blind (bindSessionIfNeeded v)"
  unfolding bindSessionIfNeeded_def by (auto simp: bindSession_def intro!: blind_rules)

text \<open>States that differ at most in what waits for the message \<open>m\<close>, which has not been announced.\<close>

definition agree :: "string \<Rightarrow> opencode_projection \<Rightarrow> opencode_projection \<Rightarrow> bool" where
  "agree m s s' \<longleftrightarrow> m \<notin> assistantMessageIds s \<and> (\<exists>q. s' = s\<lparr>pendingParts := q\<rparr> \<and> (\<forall>k. k \<noteq> m \<longrightarrow> q k = pendingParts s k))"

definition alike ::
  "string \<Rightarrow> string + AgentEvent list \<times> opencode_projection \<Rightarrow> string + AgentEvent list \<times> opencode_projection \<Rightarrow> bool" where
  "alike m r r' \<longleftrightarrow>
     (case r of
        Inl e \<Rightarrow> r' = Inl e
      | Inr (out, s) \<Rightarrow> (\<exists>s'. r' = Inr (out, s') \<and> agree m s s'))"

definition follows :: "string \<Rightarrow> opencode_projection proj \<Rightarrow> bool" where
  "follows m f \<longleftrightarrow> (\<forall>s s'. agree m s s' \<longrightarrow> alike m (f s) (f s'))"

lemma follows_blind:
  assumes "blind f"
  shows "follows m f"
  unfolding follows_def
proof (intro allI impI)
  fix s s' assume "agree m s s'"
  then obtain q where q: "s' = s\<lparr>pendingParts := q\<rparr>" "\<forall>k. k \<noteq> m \<longrightarrow> q k = pendingParts s k" "m \<notin> assistantMessageIds s"
    by (auto simp: agree_def)
  show "alike m (f s) (f s')"
  proof (cases "f s")
    case (Inl e)
    then show ?thesis using assms q(1) by (simp add: alike_def blind_def map_result_def)
  next
    case (Inr r)
    then obtain out s1 where r: "f s = Inr (out, s1)" by (cases r) simp
    have "s1 = s1\<lparr>pendingParts := pendingParts s\<rparr>"
      using assms [unfolded blind_def, THEN conjunct1, rule_format, of "pendingParts s" s] r by (simp add: map_result_def)
    then have "pendingParts s1 = pendingParts (s1\<lparr>pendingParts := pendingParts s\<rparr>)" by (rule arg_cong)
    then have "pendingParts s1 = pendingParts s" by simp
    then show ?thesis using assms q r by (auto simp: alike_def agree_def blind_def map_result_def)
  qed
qed

lemma follows_modify: "(\<And>s s'. agree m s s' \<Longrightarrow> agree m (f s) (f s')) \<Longrightarrow> follows m (modify f)"
  by (simp add: follows_def modify_def alike_def)

lemma follows_reading: "(\<And>s s'. agree m s s' \<Longrightarrow> f s' = f s) \<Longrightarrow> (\<And>s. follows m (f s)) \<Longrightarrow> follows m (reading f)"
  by (auto simp: follows_def reading_def)

lemma follows_andThen:
  assumes "follows m f" and "follows m g"
  shows "follows m (andThen f g)"
  unfolding follows_def
proof (intro allI impI)
  fix s s' assume "agree m s s'"
  with assms(1) have f: "alike m (f s) (f s')" by (simp add: follows_def)
  show "alike m (andThen f g s) (andThen f g s')"
  proof (cases "f s")
    case (Inl e)
    with f show ?thesis by (simp add: andThen_def alike_def)
  next
    case (Inr r)
    then obtain out s1 where r: "f s = Inr (out, s1)" by (cases r) simp
    with f obtain s1' where r': "f s' = Inr (out, s1')" "agree m s1 s1'" by (auto simp: alike_def)
    with assms(2) have "alike m (g s1) (g s1')" by (simp add: follows_def)
    with r r'(1) show ?thesis by (auto simp: andThen_def alike_def map_result_def split: sum.splits)
  qed
qed

definition private_part :: "string \<Rightarrow> opencode_event \<Rightarrow> bool" where
  "private_part m ev = (case ev of PartUpdated p _ \<Rightarrow> privileged p \<and> part_message p = m | _ \<Rightarrow> False)"

definition announces :: "string \<Rightarrow> opencode_event \<Rightarrow> bool" where
  "announces m ev = (case ev of MessageUpdated info \<Rightarrow> msg_role info = ''assistant'' \<and> msg_id info = m | _ \<Rightarrow> False)"

lemma agreeE:
  assumes "agree m s s'"
  obtains q where "s' = s\<lparr>pendingParts := q\<rparr>" "\<And>k. k \<noteq> m \<Longrightarrow> q k = pendingParts s k" "m \<notin> assistantMessageIds s"
  using assms by (auto simp: agree_def)

lemma agree_pending: "agree m s s' \<Longrightarrow> k \<noteq> m \<Longrightarrow> pendingParts s' k = pendingParts s k"
  by (erule agreeE) simp

lemma agree_put: "agree m s s' \<Longrightarrow> agree m (s\<lparr>pendingParts := (pendingParts s)(k := x)\<rparr>) (s'\<lparr>pendingParts := (pendingParts s')(k := x)\<rparr>)"
  by (erule agreeE) (auto simp: agree_def intro!: exI [of _ "(pendingParts s')(k := x)"])

lemma follows_message:
  assumes "\<not> (msg_role info = ''assistant'' \<and> msg_id info = m)"
  shows "follows m (oc_message_updated fs info)"
proof -
  let ?i = "msg_id info"
  have drain: "follows m (andThen (modify (\<lambda>s. s\<lparr>pendingParts := (pendingParts s)(?i := None)\<rparr>)) (each (projectPart fs) entries))" for entries
    by (intro follows_andThen follows_modify agree_put follows_blind blind_rules)
  have "follows m (oc_assistant_message fs info)" if i: "?i \<noteq> m"
    unfolding oc_assistant_message_def
  proof (intro follows_andThen follows_modify follows_reading)
    fix s s' assume "agree m s s'"
    then show "agree m
        (s\<lparr>assistantMessageIds := insert ?i (assistantMessageIds s), lastAssistant := Some \<lparr>snap_tokens = msg_tokens info, snap_model = msg_model info\<rparr>,
           assistantFinish := if truthy (msg_finish info) then msg_finish info else assistantFinish s\<rparr>)
        (s'\<lparr>assistantMessageIds := insert ?i (assistantMessageIds s'), lastAssistant := Some \<lparr>snap_tokens = msg_tokens info, snap_model = msg_model info\<rparr>,
           assistantFinish := if truthy (msg_finish info) then msg_finish info else assistantFinish s'\<rparr>)"
      using i by (elim agreeE) (auto simp: agree_def intro!: exI [of _ "pendingParts s'"])
  next
    fix s s' assume "agree m s s'"
    then show "(case pendingParts s' ?i of None \<Rightarrow> skip
        | Some entries \<Rightarrow> andThen (modify (\<lambda>s. s\<lparr>pendingParts := (pendingParts s)(?i := None)\<rparr>)) (each (projectPart fs) entries)) =
      (case pendingParts s ?i of None \<Rightarrow> skip
        | Some entries \<Rightarrow> andThen (modify (\<lambda>s. s\<lparr>pendingParts := (pendingParts s)(?i := None)\<rparr>)) (each (projectPart fs) entries))"
      using agree_pending [OF _ i] by simp
  next
    fix s
    show "follows m (case pendingParts s ?i of None \<Rightarrow> skip
        | Some entries \<Rightarrow> andThen (modify (\<lambda>s. s\<lparr>pendingParts := (pendingParts s)(?i := None)\<rparr>)) (each (projectPart fs) entries))"
      using drain by (auto split: option.split intro: follows_blind blind_skip)
  qed
  moreover have "agree m (s\<lparr>userMessageIds := insert ?i (userMessageIds s), pendingParts := (pendingParts s)(?i := None)\<rparr>)
      (s'\<lparr>userMessageIds := insert ?i (userMessageIds s'), pendingParts := (pendingParts s')(?i := None)\<rparr>)" if "agree m s s'" for s s'
    using that by (elim agreeE) (auto simp: agree_def intro!: exI [of _ "(pendingParts s')(?i := None)"])
  ultimately show ?thesis
    using assms unfolding oc_message_updated_def by (auto intro: follows_modify follows_blind blind_skip)
qed

lemma follows_part:
  assumes "\<not> (privileged p \<and> part_message p = m)"
  shows "follows m (oc_part_updated fs p delta)"
  unfolding oc_part_updated_def
proof (rule follows_reading)
  fix s s' assume "agree m s s'"
  then have "userMessageIds s' = userMessageIds s" "assistantMessageIds s' = assistantMessageIds s" by (auto elim: agreeE)
  then show "(if part_message p \<in> userMessageIds s' then skip
     else if privileged p \<and> part_message p \<notin> assistantMessageIds s' then
       modify (\<lambda>s. s\<lparr>pendingParts := (pendingParts s)(part_message p \<mapsto> the_or [] (pendingParts s (part_message p)) @ [(p, delta)])\<rparr>)
     else projectPart fs (p, delta)) =
    (if part_message p \<in> userMessageIds s then skip
     else if privileged p \<and> part_message p \<notin> assistantMessageIds s then
       modify (\<lambda>s. s\<lparr>pendingParts := (pendingParts s)(part_message p \<mapsto> the_or [] (pendingParts s (part_message p)) @ [(p, delta)])\<rparr>)
     else projectPart fs (p, delta))" by simp
next
  fix s
  have "follows m (modify (\<lambda>s. s\<lparr>pendingParts := (pendingParts s)(part_message p \<mapsto> the_or [] (pendingParts s (part_message p)) @ [(p, delta)])\<rparr>))"
    if "part_message p \<noteq> m"
    by (rule follows_modify) (use agree_pending [OF _ that] agree_put in simp)
  then show "follows m (if part_message p \<in> userMessageIds s then skip
     else if privileged p \<and> part_message p \<notin> assistantMessageIds s then
       modify (\<lambda>s. s\<lparr>pendingParts := (pendingParts s)(part_message p \<mapsto> the_or [] (pendingParts s (part_message p)) @ [(p, delta)])\<rparr>)
     else projectPart fs (p, delta))"
    using assms by (auto intro: follows_blind blind_rules)
qed

lemma follows_event:
  assumes "\<not> private_part m ev" and "\<not> announces m ev"
  shows "follows m (projectOpencodeEvent ctx fs ev)"
proof -
  have idle: "follows m skip" by (rule follows_blind [OF blind_skip])
  show ?thesis
  proof (cases ev)
    case (MessageUpdated info)
    then show ?thesis using assms(2) idle by (auto simp: projectOpencodeEvent_def announces_def intro!: follows_message)
  next
    case (PartUpdated p delta)
    then show ?thesis using assms(1) idle by (auto simp: projectOpencodeEvent_def private_part_def intro!: follows_part)
  qed (auto simp: projectOpencodeEvent_def oc_session_error_def intro!: follows_blind blind_rules)
qed

lemma private_waits:
  assumes "private_part m ev" and "agree m s s'"
  shows "\<exists>s1. projectOpencodeEvent ctx fs ev s = Inr ([], s1) \<and> agree m s1 s'"
  using assms
  by (cases ev) (auto simp: private_part_def projectOpencodeEvent_def oc_part_updated_def agree_def skip_def reading_def modify_def)

lemma alike_run:
  "agree m s s' \<Longrightarrow> \<forall>ev \<in> set evs. \<not> announces m ev \<Longrightarrow>
    alike m (each (projectOpencodeEvent ctx fs) evs s) (each (projectOpencodeEvent ctx fs) (filter (\<lambda>ev. \<not> private_part m ev) evs) s')"
proof (induction evs arbitrary: s s')
  case Nil
  then show ?case by (simp add: each_def skip_def alike_def)
next
  case (Cons ev evs)
  show ?case
  proof (cases "private_part m ev")
    case True
    from private_waits [OF this Cons.prems(1)] obtain s1 where
      "projectOpencodeEvent ctx fs ev s = Inr ([], s1)" "agree m s1 s'" by blast
    with True Cons.IH [of s1 s'] Cons.prems(2) show ?thesis
      by (auto simp: each_def andThen_def alike_def map_result_def split: sum.splits)
  next
    case False
    with Cons.prems have f: "alike m (projectOpencodeEvent ctx fs ev s) (projectOpencodeEvent ctx fs ev s')"
      using follows_event by (simp add: follows_def)
    show ?thesis
    proof (cases "projectOpencodeEvent ctx fs ev s")
      case (Inl e)
      with f False show ?thesis by (simp add: each_def andThen_def alike_def)
    next
      case (Inr r)
      then obtain out s1 where r: "projectOpencodeEvent ctx fs ev s = Inr (out, s1)" by (cases r) simp
      with f obtain s1' where r': "projectOpencodeEvent ctx fs ev s' = Inr (out, s1')" "agree m s1 s1'" by (auto simp: alike_def)
      with Cons.IH [of s1 s1'] Cons.prems(2) r False show ?thesis
        by (auto simp: each_def andThen_def alike_def map_result_def split: sum.splits)
    qed
  qed
qed

text \<open>C14: the prompt of the user does not reach the log. Whatever the server sends, and in whatever order, the text
  and reasoning parts of a message that is never announced as one of the assistant have no effect on the events
  emitted: the run emits exactly what it emits without those parts.
\<close>

theorem unannounced_text_unseen:
  assumes "m \<notin> assistantMessageIds s" and "\<forall>ev \<in> set evs. \<not> announces m ev"
  shows "map_result fst (each (projectOpencodeEvent ctx fs) evs s) =
    map_result fst (each (projectOpencodeEvent ctx fs) (filter (\<lambda>ev. \<not> private_part m ev) evs) s)"
proof -
  have "agree m s s" using assms(1) unfolding agree_def by (intro conjI exI [of _ "pendingParts s"]) simp_all
  from alike_run [OF this assms(2), of ctx fs] show ?thesis
    by (auto simp: alike_def map_result_def split: sum.splits)
qed

definition user_prompt :: part where
  "user_prompt = \<lparr>part_id = ''p1'', part_session = None, part_message = ''m1'', part_body = TextPart (Some ''my secret prompt'') False\<rparr>"

definition user_message :: oc_message where
  "user_message = \<lparr>msg_id = ''m1'', msg_session = None, msg_role = ''user'', msg_finish = None, msg_tokens = None, msg_model = None\<rparr>"

definition demo_context :: projection_ctx where
  "demo_context = \<lparr>sessionSource = Spawn, targetSessionId = None, modelProvider = None\<rparr>"

definition new_opencode :: opencode_projection where
  "new_opencode = createProjectionState (new_CorrelationState ''run'' None ''opencode'')
     (opencode_projection.fields None None Map.empty {} {} Map.empty)"

text \<open>A prompt that comes before its announcement and again after it.\<close>

theorem unannounced_text_unseen_witness:
  "map_result fst (each (projectOpencodeEvent demo_context demo_factories)
      [PartUpdated user_prompt None, MessageUpdated user_message, PartUpdated user_prompt None, SessionInfo ''s1'', SessionIdle ''s1''] new_opencode) =
   map_result fst (each (projectOpencodeEvent demo_context demo_factories)
      [MessageUpdated user_message, SessionInfo ''s1'', SessionIdle ''s1''] new_opencode)"
  using unannounced_text_unseen [of "''m1''" new_opencode
      "[PartUpdated user_prompt None, MessageUpdated user_message, PartUpdated user_prompt None, SessionInfo ''s1'', SessionIdle ''s1'']"
      demo_context demo_factories]
  by (simp add: announces_def private_part_def privileged_def user_prompt_def user_message_def new_opencode_def
      createProjectionState_def opencode_projection.fields_def new_CorrelationState_def)

text \<open>A reply to a permission request is looked up by the id of the permission, the request by the id of the
  call when it has one: the two events of one permission then carry two tool call ids.\<close>

lemma permission_reply_unlinked:
  "map_result (map payload \<circ> fst) (each (projectOpencodeEvent demo_context demo_factories)
      [PermissionUpdated ''s1'' (Some ''call1'') ''perm1'', PermissionReplied ''s1'' ''perm1'' ''allow''] new_opencode) =
   Inr [PermissionRequest ''c'' Pending, PermissionRequest ''cc'' Allow]"
  by code_simp

end
