(* ===== verification/Codex_Projection.thy ===== *)
theory Codex_Projection
  imports Projection Ulid
begin

text \<open>
  The projector of the Codex adapter (\<^verbatim>\<open>packages/adapters/codex/src/jsonl-projection.ts\<close>). It keeps its own record of
  turns and tool calls beside the correlation state. \<open>stringify\<close> stands for \<^verbatim>\<open>JSON.stringify\<close>; the logger is left out.
\<close>

section \<open>Events of the SDK\<close>

record codex_usage =
  input_tokens :: "int option"
  output_tokens :: "int option"
  cached_input_tokens :: "int option"

datatype ThreadItem =
    CommandExecution string string "string option" string
  | FileChange string "(string \<times> string) list option" string
  | McpToolCall string string string js_value js_value js_value string
  | WebSearch string "string option"
  | TodoList string "(string \<times> bool) list option"
  | AgentMessage string "string option"
  | ReasoningItem string "string option"
  | ErrorItem string "string option"
  | UnknownItem

datatype ThreadEvent =
    ThreadStarted "string option"
  | TurnStarted
  | TurnCompleted "codex_usage option"
  | TurnFailed "string option"
  | ItemStarted ThreadItem
  | ItemUpdated ThreadItem
  | ItemCompleted ThreadItem
  | ThreadError "string option"
  | UnknownThreadEvent

section \<open>State\<close>

record codex_projection = CorrelationState +
  threadId :: "string option"
  toolCallByItemId :: "string \<Rightarrow> (string \<times> string) option"
  cx_sessionStartEmitted :: bool
  cx_turnOpen :: bool
  turnStartedAtMonotonic :: "int option"

definition openTurn :: "factories \<Rightarrow> codex_projection \<Rightarrow> codex_projection" where
  "openTurn fs s = (if cx_turnOpen s then s else (startTurn fs None s)\<lparr>cx_turnOpen := True, turnStartedAtMonotonic := None\<rparr>)"

definition emitInTurn :: "factories \<Rightarrow> string option \<Rightarrow> codex_projection \<Rightarrow> string + EventEnvelope \<times> codex_projection" where
  "emitInTurn fs parent s =
     map_result
       (\<lambda>(e, s'). (e, s'\<lparr>turnStartedAtMonotonic := Some (the_or (ev_monotonic e) (turnStartedAtMonotonic s'))\<rparr>))
       (make_envelope fs None parent (openTurn fs s))"

text \<open>An event, and what follows with its envelope at hand.\<close>

definition cx_emit_then :: "factories \<Rightarrow> string option \<Rightarrow> Payload \<Rightarrow> (EventEnvelope \<Rightarrow> codex_projection proj) \<Rightarrow> codex_projection proj" where
  "cx_emit_then fs parent p k s =
     bind_result (emitInTurn fs parent s) (\<lambda>(e, s1). map_result (\<lambda>(out, s2). (with_payload e p # out, s2)) (k e s1))"

definition cx_emit :: "factories \<Rightarrow> string option \<Rightarrow> Payload \<Rightarrow> codex_projection proj" where
  "cx_emit fs parent p = cx_emit_then fs parent p (\<lambda>e. skip)"

definition cx_close :: "codex_projection proj" where
  "cx_close = modify (\<lambda>s. (endTurn s)\<lparr>cx_turnOpen := False, turnStartedAtMonotonic := None\<rparr>)"

section \<open>Threads and turns\<close>

definition handleThreadStarted :: "factories \<Rightarrow> string option \<Rightarrow> codex_projection proj" where
  "handleThreadStarted fs raw s =
     (case (case raw of None \<Rightarrow> Inr None | Some i \<Rightarrow> map_result Some (sessionId i)) of
        Inl _ \<Rightarrow> Inl ''SessionId must be a non-empty string''
      | Inr newId \<Rightarrow>
          let s1 = s\<lparr>threadId := newId\<rparr>; s2 = (if newId = None then s1 else bindSession newId s1)
          in if cx_sessionStartEmitted s2 then skip s2
             else cx_emit fs None (SessionStart Spawn) (s2\<lparr>cx_sessionStartEmitted := True\<rparr>))"

definition handleTurnCompleted :: "string option \<Rightarrow> factories \<Rightarrow> codex_usage option \<Rightarrow> codex_projection proj" where
  "handleTurnCompleted provided fs usage =
     (let get = (\<lambda>f. case usage of None \<Rightarrow> None | Some u \<Rightarrow> f u);
          input = the_or 0 (get input_tokens); cached = get cached_input_tokens
      in cx_emit_then fs None
           (Usage (the_or [] provided)
              \<lparr>tok_input = input, tok_output = the_or 0 (get output_tokens), tok_cacheRead = cached, tok_cacheCreation = None\<rparr>
              \<lparr>hits = the_or 0 cached, misses = max 0 (input - the_or 0 cached)\<rparr>)
           (\<lambda>ue. andThen (cx_emit fs None (Cost None UnknownCost ''subscription''))
              (reading (\<lambda>s. andThen
                 (cx_emit fs None (TurnEnd ''completed'' (max 0 (ev_monotonic ue - the_or (ev_monotonic ue) (turnStartedAtMonotonic s)))))
                 cx_close))))"

definition handleTurnFailed :: "factories \<Rightarrow> string option \<Rightarrow> codex_projection proj" where
  "handleTurnFailed fs message =
     andThen (cx_emit fs None (ErrorOf True ''turn_failed'' (the_or ''unknown turn failure'' message) False))
       (andThen (cx_emit fs None (TurnEnd ''failed'' 0)) cx_close)"

definition handleThreadError :: "factories \<Rightarrow> string option \<Rightarrow> codex_projection proj" where
  "handleThreadError fs message = cx_emit fs None (ErrorOf True ''stream_error'' (the_or ''unknown stream error'' message) False)"

section \<open>Items\<close>

definition parentFor :: "codex_projection \<Rightarrow> string \<Rightarrow> string option" where
  "parentFor s item = map_option snd (toolCallByItemId s item)"

text \<open>Every start draws a new id, also when the item is known.\<close>

definition cx_tool_call :: "factories \<Rightarrow> string \<Rightarrow> string \<Rightarrow> js_value \<Rightarrow> codex_projection proj" where
  "cx_tool_call fs item tool args s =
     (let t = toolId_of fs (tools_drawn s)
      in map_result
           (\<lambda>(e, s'). ([with_payload e (ToolCall t tool args)],
              (rememberToolCall t (ev_eventId e) s')\<lparr>toolCallByItemId := (toolCallByItemId s')(item \<mapsto> (t, ev_eventId e))\<rparr>))
           (emitInTurn fs None (s\<lparr>tools_drawn := Suc (tools_drawn s)\<rparr>)))"

definition toolCallIdFor :: "factories \<Rightarrow> string \<Rightarrow> codex_projection \<Rightarrow> string \<times> codex_projection" where
  "toolCallIdFor fs item s =
     (case toolCallByItemId s item of
        Some (t, _) \<Rightarrow> (t, s)
      | None \<Rightarrow> (toolId_of fs (tools_drawn s), s\<lparr>tools_drawn := Suc (tools_drawn s)\<rparr>))"

definition cx_tool_result :: "factories \<Rightarrow> string \<Rightarrow> bool \<Rightarrow> string \<Rightarrow> nat \<Rightarrow> codex_projection proj" where
  "cx_tool_result fs item okay summary bytes s =
     (case toolCallIdFor fs item s of (t, s1) \<Rightarrow> cx_emit fs (parentFor s1 item) (ToolResult t okay summary bytes) s1)"

definition changes_value :: "(string \<times> string) list option \<Rightarrow> js_value" where
  "changes_value ch =
     (case ch of
        None \<Rightarrow> JUndefined
      | Some cs \<Rightarrow> JArr (map (\<lambda>(p, k). JObj [(''path'', JStr p), (''kind'', JStr k)]) cs))"

definition str_value :: "string option \<Rightarrow> js_value" where
  "str_value x = (case x of None \<Rightarrow> JUndefined | Some s \<Rightarrow> JStr s)"

definition cx_file_result :: "factories \<Rightarrow> string \<Rightarrow> (string \<times> string) list option \<Rightarrow> string \<Rightarrow> codex_projection proj" where
  "cx_file_result fs item changes status =
     (let okay = (status = ''completed''); files = map fst (the_or [] changes); summary = join_with '', '' files
      in andThen (cx_tool_result fs item okay (take 500 summary) (byteLength summary))
           (if okay \<and> files \<noteq> [] then reading (\<lambda>s. cx_emit fs (parentFor s item) (PatchApplied files 0 0)) else skip))"

definition cx_mcp_result :: "(js_value \<Rightarrow> string) \<Rightarrow> factories \<Rightarrow> string \<Rightarrow> js_value \<Rightarrow> js_value \<Rightarrow> string \<Rightarrow> codex_projection proj" where
  "cx_mcp_result stringify fs item result err status =
     (let okay = (status = ''completed''); summary = take 500 (stringify (nullish_or (if okay then result else err) (JObj [])))
      in cx_tool_result fs item okay summary (byteLength summary))"

definition todo_line :: "string \<times> bool \<Rightarrow> string" where
  "todo_line it = ''['' @ (if snd it then ''x'' else '' '') @ ''] '' @ fst it"

definition cx_todo :: "factories \<Rightarrow> (string \<times> bool) list option \<Rightarrow> codex_projection proj" where
  "cx_todo fs items = cx_emit fs None (Checkpoint (join_with [CHR 0x0A] (map todo_line (the_or [] items))))"

definition toolNameForItem :: "ThreadItem \<Rightarrow> string" where
  "toolNameForItem item =
     (case item of
        CommandExecution _ _ _ _ \<Rightarrow> ''shell''
      | FileChange _ _ _ \<Rightarrow> ''apply_patch''
      | McpToolCall _ server tool _ _ _ _ \<Rightarrow> ''mcp:'' @ server @ ''.'' @ tool
      | WebSearch _ _ \<Rightarrow> ''web_search''
      | TodoList _ _ \<Rightarrow> ''todo_list''
      | AgentMessage _ _ \<Rightarrow> ''agent_message''
      | ReasoningItem _ _ \<Rightarrow> ''reasoning''
      | ErrorItem _ _ \<Rightarrow> ''error''
      | UnknownItem \<Rightarrow> [])"

definition handleItemStarted :: "factories \<Rightarrow> ThreadItem \<Rightarrow> codex_projection proj" where
  "handleItemStarted fs item =
     (case item of
        CommandExecution i command _ _ \<Rightarrow> cx_tool_call fs i ''shell'' (JObj [(''command'', JStr command)])
      | FileChange i changes _ \<Rightarrow> cx_tool_call fs i ''apply_patch'' (JObj [(''changes'', changes_value changes)])
      | McpToolCall i server tool args _ _ _ \<Rightarrow> cx_tool_call fs i (''mcp:'' @ server @ ''.'' @ tool) args
      | WebSearch i query \<Rightarrow> cx_tool_call fs i ''web_search'' (JObj [(''query'', str_value query)])
      | TodoList _ items \<Rightarrow> cx_todo fs items
      | ReasoningItem _ t \<Rightarrow> cx_emit fs None (Reasoning (the_or [] t) None)
      | AgentMessage _ _ \<Rightarrow> cx_emit fs None (AssistantDelta [])
      | ErrorItem _ m \<Rightarrow> cx_emit fs None (ErrorOf False ''item_error'' (the_or [] m) False)
      | UnknownItem \<Rightarrow> skip)"

definition handleItemCompleted :: "(js_value \<Rightarrow> string) \<Rightarrow> factories \<Rightarrow> ThreadItem \<Rightarrow> codex_projection proj" where
  "handleItemCompleted stringify fs item =
     (case item of
        AgentMessage _ t \<Rightarrow> cx_emit fs None (AssistantMessage (the_or [] t) ''end_turn'')
      | ReasoningItem _ t \<Rightarrow> cx_emit fs None (Reasoning (the_or [] t) None)
      | CommandExecution i _ output status \<Rightarrow>
          cx_tool_result fs i (status = ''completed'') (take 500 (the_or [] output)) (byteLength (the_or [] output))
      | FileChange i changes status \<Rightarrow> cx_file_result fs i changes status
      | McpToolCall i _ _ _ result err status \<Rightarrow> cx_mcp_result stringify fs i result err status
      | WebSearch i query \<Rightarrow>
          (let summary = ''web_search: '' @ the_or [] query in cx_tool_result fs i True (take 500 summary) (byteLength summary))
      | TodoList _ items \<Rightarrow> cx_todo fs items
      | ErrorItem _ m \<Rightarrow> cx_emit fs None (ErrorOf False ''item_error'' (the_or [] m) False)
      | UnknownItem \<Rightarrow> skip)"

definition projectCodexEvent :: "string option \<Rightarrow> (js_value \<Rightarrow> string) \<Rightarrow> factories \<Rightarrow> ThreadEvent \<Rightarrow> codex_projection proj" where
  "projectCodexEvent provided stringify fs raw =
     (case raw of
        ThreadStarted i \<Rightarrow> handleThreadStarted fs i
      | TurnStarted \<Rightarrow> modify (openTurn fs)
      | TurnCompleted usage \<Rightarrow> handleTurnCompleted provided fs usage
      | TurnFailed m \<Rightarrow> handleTurnFailed fs m
      | ItemStarted item \<Rightarrow> handleItemStarted fs item
      | ItemUpdated _ \<Rightarrow> skip
      | ItemCompleted item \<Rightarrow> handleItemCompleted stringify fs item
      | ThreadError m \<Rightarrow> handleThreadError fs m
      | UnknownThreadEvent \<Rightarrow> skip)"

section \<open>The contract\<close>

definition codex_ok :: "factories \<Rightarrow> codex_projection \<Rightarrow> AgentEvent list \<Rightarrow> bool" where
  "codex_ok fs s hist \<longleftrightarrow> stream_ok fs (cx_turnOpen s) s hist \<and>
     (\<forall>i t p. toolCallByItemId s i = Some (t, p) \<longrightarrow> called hist t p) \<and>
     (\<forall>t \<in> set (call_ids hist). \<exists>k < tools_drawn s. t = toolId_of fs k) \<and> distinct (call_ids hist)"

definition codex_open :: "factories \<Rightarrow> codex_projection \<Rightarrow> AgentEvent list \<Rightarrow> bool" where
  "codex_open fs s hist \<longleftrightarrow> codex_ok fs s hist \<and> cx_turnOpen s"

definition fresh_codex :: "codex_projection \<Rightarrow> bool" where
  "fresh_codex s \<longleftrightarrow> corr_seq s = 0 \<and> \<not> cx_turnOpen s \<and> toolCallByItemId s = Map.empty"

lemma codex_opens: "codex_ok fs s hist \<Longrightarrow> codex_open fs (openTurn fs s) hist"
  using stream_start [of fs "cx_turnOpen s" s hist]
  by (auto simp: codex_open_def codex_ok_def openTurn_def stream_ok_def startTurn_def)

text \<open>One emission: the state after it and what is left to show.\<close>

lemma cx_emit_step:
  assumes "codex_ok fs s hist"
  obtains e s' where "emitInTurn fs parent s = Inr (e, s')" "ev_parent e = parent" "cx_turnOpen s'"
    "toolCallByItemId s' = toolCallByItemId s" "tools_drawn s' = tools_drawn s"
    "\<And>p. event_linked hist (with_payload e p) \<Longrightarrow>
       stream_ok fs (\<not> is_turn_end (with_payload e p)) s' (hist @ [with_payload e p])"
proof -
  let ?s0 = "openTurn fs s"
  have c: "stream_ok fs True ?s0 hist" and o: "cx_turnOpen ?s0"
    using codex_opens [OF assms] by (auto simp: codex_open_def codex_ok_def)
  have same: "toolCallByItemId ?s0 = toolCallByItemId s" "tools_drawn ?s0 = tools_drawn s"
    by (auto simp: openTurn_def startTurn_def)
  obtain e s1 where e: "make_envelope fs None parent ?s0 = Inr (e, s1)" using stream_emit [OF c] by blast
  with stream_emit [OF c, of parent] have s1: "s1 = ?s0\<lparr>lastMonotonic := Some (ev_monotonic e), lastWall := ev_wall e, corr_seq := Suc (corr_seq ?s0)\<rparr>"
    "ev_parent e = parent"
    and ok: "\<And>p. event_linked hist (with_payload e p) \<Longrightarrow> stream_ok fs (\<not> is_turn_end (with_payload e p)) s1 (hist @ [with_payload e p])"
    by auto
  let ?s' = "s1\<lparr>turnStartedAtMonotonic := Some (the_or (ev_monotonic e) (turnStartedAtMonotonic s1))\<rparr>"
  show ?thesis
  proof (rule that [of e ?s'])
    show "emitInTurn fs parent s = Inr (e, ?s')" using e by (simp add: emitInTurn_def map_result_def)
    show "stream_ok fs (\<not> is_turn_end (with_payload e p)) ?s' (hist @ [with_payload e p])" if "event_linked hist (with_payload e p)" for p
      using ok [OF that] by (simp add: stream_ok_def)
  qed (use s1 o same in simp_all)
qed

definition quiet :: "Payload \<Rightarrow> bool" where
  "quiet p \<longleftrightarrow> (case p of ToolCall _ _ _ \<Rightarrow> False | TurnEnd _ _ \<Rightarrow> False | _ \<Rightarrow> True)"

lemma cx_quiet_step:
  assumes s: "codex_ok fs s hist" and p: "quiet p"
    and link: "\<And>q. parent = Some q \<Longrightarrow> (\<exists>t. called hist t q) \<and> (\<forall>t okay summary n. p = ToolResult t okay summary n \<longrightarrow> called hist t q)"
  obtains e s' where "emitInTurn fs parent s = Inr (e, s')" "codex_open fs s' (hist @ [with_payload e p])"
    "toolCallByItemId s' = toolCallByItemId s"
proof -
  obtain e s' where e: "emitInTurn fs parent s = Inr (e, s')" "ev_parent e = parent" "cx_turnOpen s'"
    "toolCallByItemId s' = toolCallByItemId s" "tools_drawn s' = tools_drawn s"
    "event_linked hist (with_payload e p) \<Longrightarrow> stream_ok fs (\<not> is_turn_end (with_payload e p)) s' (hist @ [with_payload e p])"
    by (rule cx_emit_step [OF s, of parent]) blast
  have "event_linked hist (with_payload e p)" "\<not> is_turn_end (with_payload e p)"
    using link p e(2) by (auto simp: event_linked_def is_turn_end_def quiet_def split: option.splits Payload.splits)
  moreover have "call_ids (hist @ [with_payload e p]) = call_ids hist" using p by (simp add: ids_snoc quiet_def split: Payload.splits)
  moreover have "\<forall>i t q. toolCallByItemId s i = Some (t, q) \<longrightarrow> called (hist @ [with_payload e p]) t q"
    using s by (auto simp: codex_ok_def intro: called_snoc)
  ultimately have "codex_open fs s' (hist @ [with_payload e p])" using s e by (simp add: codex_open_def codex_ok_def)
  with e(1,4) show ?thesis using that by blast
qed

lemma keeps_cx_then:
  assumes "quiet p" and "\<And>e. keeps (codex_open fs) (k e) Q"
  shows "keeps (codex_ok fs) (cx_emit_then fs None p k) Q"
proof (rule keepsI)
  fix s hist assume "codex_ok fs s hist"
  then obtain e s1 where e: "emitInTurn fs None s = Inr (e, s1)" "codex_open fs s1 (hist @ [with_payload e p])"
    by (rule cx_quiet_step [OF _ assms(1), of fs s hist None]) auto
  with assms(2) [of e] obtain out s2 where "k e s1 = Inr (out, s2)" "Q s2 ((hist @ [with_payload e p]) @ out)"
    unfolding keeps_def by blast
  with e(1) show "\<exists>out s'. cx_emit_then fs None p k s = Inr (out, s') \<and> Q s' (hist @ out)"
    by (simp add: cx_emit_then_def map_result_def)
qed

lemma keeps_cx_emit: "quiet p \<Longrightarrow> keeps (codex_ok fs) (cx_emit fs None p) (codex_open fs)"
  unfolding cx_emit_def by (rule keeps_cx_then) (simp_all add: keeps_skip)

lemma codex_open_ok: "keeps P f (codex_open fs) \<Longrightarrow> keeps P f (codex_ok fs)"
  by (erule keeps_post) (simp add: codex_open_def)

lemma keeps_cx_emit_ok: "quiet p \<Longrightarrow> keeps (codex_ok fs) (cx_emit fs None p) (codex_ok fs)"
  by (rule codex_open_ok) (rule keeps_cx_emit)

lemma keeps_cx_end: "keeps (codex_ok fs) (andThen (cx_emit fs None (TurnEnd r d)) cx_close) (codex_ok fs)"
proof (rule keepsI)
  fix s hist assume s: "codex_ok fs s hist"
  obtain e s' where e: "emitInTurn fs None s = Inr (e, s')" "ev_parent e = None"
    "toolCallByItemId s' = toolCallByItemId s" "tools_drawn s' = tools_drawn s"
    "event_linked hist (with_payload e (TurnEnd r d)) \<Longrightarrow>
       stream_ok fs (\<not> is_turn_end (with_payload e (TurnEnd r d))) s' (hist @ [with_payload e (TurnEnd r d)])"
    by (rule cx_emit_step [OF s, of None]) blast
  then have "stream_ok fs False s' (hist @ [with_payload e (TurnEnd r d)])" by (simp add: event_linked_def is_turn_end_def)
  then have "stream_ok fs False ((endTurn s')\<lparr>cx_turnOpen := False, turnStartedAtMonotonic := None\<rparr>) (hist @ [with_payload e (TurnEnd r d)])"
    by (simp add: stream_ok_def endTurn_def)
  moreover have "\<forall>i t q. toolCallByItemId s i = Some (t, q) \<longrightarrow> called (hist @ [with_payload e (TurnEnd r d)]) t q"
    using s by (auto simp: codex_ok_def intro: called_snoc)
  ultimately show "\<exists>out s'. andThen (cx_emit fs None (TurnEnd r d)) cx_close s = Inr (out, s') \<and> codex_ok fs s' (hist @ out)"
    using s e by (simp add: andThen_def cx_emit_def cx_emit_then_def skip_def cx_close_def modify_def map_result_def
        codex_ok_def ids_snoc endTurn_def)
qed

lemma keeps_cx_tool_call: "keeps (codex_ok fs) (cx_tool_call fs item tool args) (codex_ok fs)"
proof (rule keepsI)
  fix s hist assume s: "codex_ok fs s hist"
  let ?t = "toolId_of fs (tools_drawn s)" and ?s0 = "s\<lparr>tools_drawn := Suc (tools_drawn s)\<rparr>"
  have s0: "codex_ok fs ?s0 hist" using s by (fastforce simp: codex_ok_def stream_ok_def less_Suc_eq)
  have new: "?t \<notin> set (call_ids hist)" using s by (auto simp: codex_ok_def stream_ok_def fresh_ids_def dest: injD)
  obtain e s' where e: "emitInTurn fs None ?s0 = Inr (e, s')" "ev_parent e = None" "cx_turnOpen s'"
    "toolCallByItemId s' = toolCallByItemId s" "tools_drawn s' = Suc (tools_drawn s)"
    "event_linked hist (with_payload e (ToolCall ?t tool args)) \<Longrightarrow>
       stream_ok fs (\<not> is_turn_end (with_payload e (ToolCall ?t tool args))) s' (hist @ [with_payload e (ToolCall ?t tool args)])"
    by (rule cx_emit_step [OF s0, of None]) auto
  let ?h = "hist @ [with_payload e (ToolCall ?t tool args)]"
  let ?s1 = "(rememberToolCall ?t (ev_eventId e) s')\<lparr>toolCallByItemId := (toolCallByItemId s')(item \<mapsto> (?t, ev_eventId e))\<rparr>"
  have "stream_ok fs True s' ?h" using e(2,6) by (simp add: event_linked_def is_turn_end_def)
  then have "stream_ok fs True ?s1 ?h" by (simp add: stream_ok_def rememberToolCall_def)
  moreover have "called ?h ?t (ev_eventId e)" by (auto simp: called_def)
  then have "\<forall>i t q. toolCallByItemId ?s1 i = Some (t, q) \<longrightarrow> called ?h t q"
    using s e(4) by (auto simp: codex_ok_def intro: called_snoc)
  moreover have "\<forall>t \<in> set (call_ids ?h). \<exists>k < tools_drawn ?s1. t = toolId_of fs k"
    using s e(5) by (fastforce simp: codex_ok_def ids_snoc rememberToolCall_def less_Suc_eq)
  ultimately have "codex_ok fs ?s1 ?h" using s new e(3) by (simp add: codex_ok_def ids_snoc rememberToolCall_def)
  then show "\<exists>out s'. cx_tool_call fs item tool args s = Inr (out, s') \<and> codex_ok fs s' (hist @ out)"
    using e(1) by (simp add: cx_tool_call_def map_result_def Let_def)
qed

lemma keeps_cx_linked:
  assumes "quiet p"
  shows "keeps (\<lambda>s hist. codex_ok fs s hist \<and>
      (\<forall>q. parent = Some q \<longrightarrow> (\<exists>t. called hist t q) \<and> (\<forall>t okay summary n. p = ToolResult t okay summary n \<longrightarrow> called hist t q)))
    (cx_emit fs parent p) (codex_ok fs)"
proof (rule keepsI, elim conjE)
  fix s hist assume "codex_ok fs s hist"
    and "\<forall>q. parent = Some q \<longrightarrow> (\<exists>t. called hist t q) \<and> (\<forall>t okay summary n. p = ToolResult t okay summary n \<longrightarrow> called hist t q)"
  then obtain e s' where "emitInTurn fs parent s = Inr (e, s')" "codex_open fs s' (hist @ [with_payload e p])"
    using cx_quiet_step [OF _ assms, of fs s hist parent] by metis
  then show "\<exists>out s'. cx_emit fs parent p s = Inr (out, s') \<and> codex_ok fs s' (hist @ out)"
    by (simp add: cx_emit_def cx_emit_then_def skip_def map_result_def codex_open_def)
qed

lemma codex_draws: "codex_ok fs s hist \<Longrightarrow> codex_ok fs (s\<lparr>tools_drawn := Suc (tools_drawn s)\<rparr>) hist"
  by (fastforce simp: codex_ok_def stream_ok_def less_Suc_eq)

lemma keeps_cx_tool_result: "keeps (codex_ok fs) (cx_tool_result fs item okay summary n) (codex_ok fs)"
proof (rule keepsI)
  fix s hist assume s: "codex_ok fs s hist"
  obtain t s1 where t: "toolCallIdFor fs item s = (t, s1)" by force
  then have s1: "codex_ok fs s1 hist" "\<And>q. parentFor s1 item = Some q \<Longrightarrow> called hist t q"
    using s codex_draws [OF s] by (auto simp: toolCallIdFor_def parentFor_def codex_ok_def split: option.splits)
  have "quiet (ToolResult t okay summary n)" by (simp add: quiet_def)
  from keeps_cx_linked [OF this, of fs "parentFor s1 item"] s1 t
  show "\<exists>out s'. cx_tool_result fs item okay summary n s = Inr (out, s') \<and> codex_ok fs s' (hist @ out)"
    unfolding keeps_def cx_tool_result_def by fastforce
qed

lemma keeps_cx_file_result: "keeps (codex_ok fs) (cx_file_result fs item changes status) (codex_ok fs)"
proof -
  have "keeps (codex_ok fs) (reading (\<lambda>s. cx_emit fs (parentFor s item) (PatchApplied files 0 0))) (codex_ok fs)" for files
  proof (rule keeps_reading, rule keeps_pre [OF keeps_cx_linked])
    show "quiet (PatchApplied files 0 0)" by (simp add: quiet_def)
  qed (auto simp: parentFor_def codex_ok_def)
  then show ?thesis unfolding cx_file_result_def Let_def by (auto intro!: keeps_seq keeps_cx_tool_result keeps_skip)
qed

lemma keeps_cx_items:
  "keeps (codex_ok fs) (handleItemStarted fs item) (codex_ok fs)"
  "keeps (codex_ok fs) (handleItemCompleted stringify fs item) (codex_ok fs)"
  by (auto simp: handleItemStarted_def handleItemCompleted_def cx_todo_def cx_mcp_result_def Let_def quiet_def split: ThreadItem.split
      intro!: keeps_skip keeps_cx_tool_call keeps_cx_tool_result keeps_cx_file_result keeps_cx_emit_ok)

text \<open>A thread id must not be empty, or the factory of the session id throws.\<close>

definition codex_valid :: "ThreadEvent \<Rightarrow> bool" where
  "codex_valid raw \<longleftrightarrow> raw \<noteq> ThreadStarted (Some [])"

lemma keeps_cx_thread: "i \<noteq> Some [] \<Longrightarrow> keeps (codex_ok fs) (handleThreadStarted fs i) (codex_ok fs)"
proof (rule keepsI)
  fix s hist assume i: "i \<noteq> Some []" and s: "codex_ok fs s hist"
  define s2 where "s2 = (if i = None then s\<lparr>threadId := i\<rparr> else bindSession i (s\<lparr>threadId := i\<rparr>))"
  have ok: "codex_ok fs s2 hist" "codex_ok fs (s2\<lparr>cx_sessionStartEmitted := True\<rparr>) hist"
    using s by (auto simp: s2_def codex_ok_def stream_ok_def bindSession_def)
  have "keeps (codex_ok fs) (cx_emit fs None (SessionStart Spawn)) (codex_ok fs)" by (rule keeps_cx_emit_ok) (simp add: quiet_def)
  then obtain out s' where "cx_emit fs None (SessionStart Spawn) (s2\<lparr>cx_sessionStartEmitted := True\<rparr>) = Inr (out, s')" "codex_ok fs s' (hist @ out)"
    using ok(2) unfolding keeps_def by blast
  moreover have "handleThreadStarted fs i s =
      (if cx_sessionStartEmitted s2 then skip s2 else cx_emit fs None (SessionStart Spawn) (s2\<lparr>cx_sessionStartEmitted := True\<rparr>))"
    using i by (cases i) (auto simp: handleThreadStarted_def s2_def sessionId_def requireNonEmpty_def guard_result_def map_result_def Let_def)
  ultimately show "\<exists>out s'. handleThreadStarted fs i s = Inr (out, s') \<and> codex_ok fs s' (hist @ out)"
    using ok(1) by (auto simp: skip_def)
qed

lemma keeps_cx_turn_completed: "keeps (codex_ok fs) (handleTurnCompleted m fs u) (codex_ok fs)"
  unfolding handleTurnCompleted_def Let_def
proof (rule keeps_cx_then)
  show "keeps (codex_open fs) (andThen (cx_emit fs None (Cost None UnknownCost ''subscription''))
      (reading (\<lambda>s. andThen (cx_emit fs None (TurnEnd ''completed'' (max 0 (ev_monotonic e - the_or (ev_monotonic e) (turnStartedAtMonotonic s))))) cx_close)))
      (codex_ok fs)" for e
    by (rule keeps_andThen [OF keeps_pre [OF keeps_cx_emit_ok] keeps_read [OF keeps_cx_end]]) (simp_all add: quiet_def codex_open_def)
qed (simp add: quiet_def)

lemma keeps_codex: "codex_valid raw \<Longrightarrow> keeps (codex_ok fs) (projectCodexEvent m stringify fs raw) (codex_ok fs)"
proof (cases raw)
  case TurnStarted
  have "keeps (codex_ok fs) (modify (openTurn fs)) (codex_open fs)" by (rule keeps_modify) (rule codex_opens)
  then show ?thesis using TurnStarted by (simp add: projectCodexEvent_def codex_open_ok)
qed (auto simp: projectCodexEvent_def codex_valid_def handleTurnFailed_def handleThreadError_def quiet_def
    intro: keeps_cx_thread keeps_cx_items keeps_skip keeps_cx_turn_completed keeps_cx_end keeps_cx_emit_ok
    intro!: keeps_andThen [OF keeps_cx_emit_ok keeps_cx_end])

interpretation codex: projector "projectCodexEvent m stringify" codex_ok fresh_codex codex_valid
proof (unfold_locales, goal_cases)
  case (1 fs s)
  then show ?case by (simp add: codex_ok_def fresh_codex_def stream_empty call_ids_def map_filter_def)
next
  case (2 fs e)
  then show ?case by (rule keeps_codex)
next
  case (3 fs s hist)
  then show ?case by (simp add: codex_ok_def stream_ok_def)
qed

end
