(* ===== verification/Adapter_Streams.thy ===== *)
theory Adapter_Streams
  imports Acp_Projection Amp_Projection Pi_Projection Opencode_Projection Codex_Projection
begin

text \<open>
  What the rest of the program may rely on in every stream of events, whichever vendor it comes from: the facts of
  the contract, read off the interpretations of its locales.
\<close>



section \<open>Samples\<close>



definition new_codex :: codex_projection where
  "new_codex =
     \<lparr>corr_runId = ''run'', corr_vendor = ''codex'', corr_sessionId = None, corr_seq = 0, lastMonotonic = None, lastWall = 0,
      currentTurnId = None, turnClosed = False, corr_parents = Map.empty, turns_drawn = 0, tools_drawn = 0,
      threadId = None, toolCallByItemId = Map.empty, cx_sessionStartEmitted = False, cx_turnOpen = False,
      turnStartedAtMonotonic = None\<rparr>"


text \<open>A tool whose start and end are both sent twice.\<close>

definition demo_update :: "string \<Rightarrow> string \<Rightarrow> string \<times> js_record" where
  "demo_update kind status =
     (''s1'', [(''sessionUpdate'', JStr kind), (''toolCallId'', JStr ''v1''), (''title'', JStr ''edit''), (''status'', JStr status)])"

definition demo_tool :: "string \<Rightarrow> js_record" where
  "demo_tool kind = [(''type'', JStr kind), (''toolCallId'', JStr ''v1''), (''toolName'', JStr ''edit'')]"

definition demo_part :: "tool_state \<Rightarrow> opencode_event" where
  "demo_part st = PartUpdated \<lparr>part_id = ''p1'', part_session = None, part_message = ''m1'', part_body = ToolPart ''v1'' ''edit'' st\<rparr> None"

abbreviation "demo_updates \<equiv> [demo_update ''tool_call'' ''pending'', demo_update ''tool_call'' ''completed'',
  demo_update ''tool_call_update'' ''completed'', demo_update ''tool_call_update'' ''failed'']"

abbreviation "demo_tools \<equiv> map demo_tool
  [''tool_execution_start'', ''tool_execution_start'', ''tool_execution_end'', ''tool_execution_end'', ''turn_end'', ''agent_start'']"

abbreviation "demo_parts \<equiv> map demo_part [ToolActive None, ToolActive None, ToolCompleted None (Some ''ok''), ToolErrored None None]"

abbreviation "demo_lib \<equiv> \<lparr>json_parse_of = (\<lambda>_. Inl ''no''), json_text_of = (\<lambda>_. [])\<rparr>"

abbreviation "demo_raws \<equiv> [ThreadStarted (Some ''t1''), ItemStarted (WebSearch ''i1'' (Some ''q'')), ItemCompleted (WebSearch ''i1'' (Some ''q'')),
  TurnCompleted None, TurnStarted, TurnFailed None]"


text \<open>The logs of the samples, as the ids of calls and results.\<close>

definition log_ids :: "string + AgentEvent list \<times> 's \<Rightarrow> string + string list \<times> string list" where
  "log_ids r = map_result (\<lambda>(hist, _). (call_ids hist, result_ids hist)) r"




text \<open>Codex does not check whether it has reported a result: a repeated end of an item is reported again.\<close>

lemma codex_repeats_results:
  "log_ids (each (projectCodexEvent None (\<lambda>_. []) demo_factories)
      [ItemStarted (WebSearch ''i1'' None), ItemCompleted (WebSearch ''i1'' None), ItemCompleted (WebSearch ''i1'' None)] new_codex) =
    Inr ([''c''], [''c'', ''c''])"
  by code_simp

end
