(* ===== verification/Claude_Handle.thy ===== *)
theory Claude_Handle
  imports Projection
begin

text \<open>
  The projector of the Claude adapter (\<^verbatim>\<open>packages/adapters/claude/src/hooks.ts\<close>) and the turns of its handle
  (\<^verbatim>\<open>handle.ts\<close>): the projector opens and ends no turn itself, the handle does, around the drain of the vendor's
  stream. A vendor message is a record of its fields as the type checks of the source read them. The redactor is
  an argument. The queue, the schema check on the way out, a driver that fails to start and the methods that only
  pass on to the driver are left out.
\<close>

section \<open>Messages of the vendor\<close>

datatype result_content = NoContent | TextContent string | Entries "(string \<times> string option) list"

datatype content_block =
    TextBlock "string option"
  | ToolUseBlock "string option" "string option" "js_value option"
  | ThinkingBlock "string option" "string option" "string option"
  | ToolResultBlock "string option" bool result_content
  | OtherBlock

record claude_usage =
  cu_input :: "int option"
  cu_output :: "int option"
  cu_cacheRead :: "int option"
  cu_cacheCreation :: "int option"

record claude_rate_limit =
  rate_type :: "string option"
  rate_status :: "string option"
  rate_resetsAt :: "int option"

record claude_raw =
  raw_type :: string
  raw_subtype :: "string option"
  raw_session :: "string option"
  raw_content :: "content_block list option"
  raw_stop_reason :: "string option"
  raw_duration :: "int option"
  raw_cost :: "rat option"
  raw_model :: "string option"
  raw_usage :: "claude_usage option"
  raw_rate_limit :: claude_rate_limit
  raw_delta_text :: "string option"

datatype hook_input =
    PreToolUse
  | PostToolUse
  | Stop "string option"
  | SessionStartHook string

section \<open>State\<close>

record claude_state = CorrelationState +
  cl_toolCallParents :: "string \<Rightarrow> string option"
  cl_model :: string
  cl_sessionStartEmitted :: bool
  sawTerminal :: bool
  turnActive :: bool
  cl_closed :: bool

section \<open>Projection of a message\<close>

definition truncateToolSummary :: "string \<Rightarrow> string" where
  "truncateToolSummary s = take 500 s"

definition mapRateLimitScope :: "string option \<Rightarrow> string" where
  "mapRateLimitScope raw =
     (if raw = Some ''five_hour'' then ''five_hour''
      else if raw \<in> set [Some ''seven_day'', Some ''seven_day_opus'', Some ''seven_day_sonnet''] then ''day''
      else ''other'')"

definition mapRateLimitStatus :: "string option \<Rightarrow> string" where
  "mapRateLimitStatus raw =
     (if raw = Some ''allowed'' then ''ok''
      else if raw = Some ''allowed_warning'' then ''warning''
      else if raw = Some ''rejected'' then ''exhausted''
      else ''ok'')"

text \<open>Strings are redacted at every depth; the keys of objects are kept.\<close>

fun redactUnknown :: "(string \<Rightarrow> string) \<Rightarrow> js_value \<Rightarrow> js_value" where
  "redactUnknown red (JStr s) = JStr (red s)"
| "redactUnknown red (JArr vs) = JArr (map (redactUnknown red) vs)"
| "redactUnknown red (JObj kvs) = JObj (map (\<lambda>(k, v). (k, redactUnknown red v)) kvs)"
| "redactUnknown red v = v"

definition claude_tool_call :: "factories \<Rightarrow> string \<Rightarrow> string \<Rightarrow> js_value \<Rightarrow> claude_state proj" where
  "claude_tool_call fs i name args s =
     map_result
       (\<lambda>(e, s'). ([with_payload e (ToolCall i name args)],
          (rememberToolCall i (ev_eventId e) s')\<lparr>cl_toolCallParents := (cl_toolCallParents s')(i \<mapsto> ev_eventId e)\<rparr>))
       (make_envelope fs None None s)"

definition claude_block :: "(string \<Rightarrow> string) \<Rightarrow> factories \<Rightarrow> string \<Rightarrow> content_block \<Rightarrow> claude_state proj" where
  "claude_block red fs stop block =
     (case block of
        TextBlock t \<Rightarrow> emit fs (AssistantMessage (case t of None \<Rightarrow> [] | Some u \<Rightarrow> red u) stop)
      | ToolUseBlock i name input \<Rightarrow>
          if truthy i \<and> truthy name then claude_tool_call fs (the i) (the name) (redactUnknown red (nullish_or (the_or JUndefined input) (JObj [])))
          else skip
      | ThinkingBlock th t sig \<Rightarrow> emit fs (Reasoning (red (the_or [] (or_else th t))) sig)
      | _ \<Rightarrow> skip)"

definition block_emits :: "content_block \<Rightarrow> bool" where
  "block_emits block =
     (case block of
        TextBlock _ \<Rightarrow> True
      | ToolUseBlock i name _ \<Rightarrow> truthy i \<and> truthy name
      | ThinkingBlock _ _ _ \<Rightarrow> True
      | _ \<Rightarrow> False)"

definition claude_assistant :: "(string \<Rightarrow> string) \<Rightarrow> factories \<Rightarrow> claude_raw \<Rightarrow> claude_state proj" where
  "claude_assistant red fs raw =
     (let content = the_or [] (raw_content raw); stop = the_or ''end_turn'' (raw_stop_reason raw)
      in andThen (each (claude_block red fs stop) content)
           (if \<not> list_ex block_emits content \<and> content \<noteq> [] then emit fs (AssistantMessage [] stop) else skip))"

definition result_text :: "result_content \<Rightarrow> string" where
  "result_text c =
     (case c of
        NoContent \<Rightarrow> []
      | TextContent t \<Rightarrow> t
      | Entries es \<Rightarrow> join_with [CHR 0x0A] (map (\<lambda>(_, t). the_or [] t) (filter (\<lambda>(ty, _). ty = ''text'') es)))"

definition claude_result_block :: "(string \<Rightarrow> string) \<Rightarrow> factories \<Rightarrow> content_block \<Rightarrow> claude_state proj" where
  "claude_result_block red fs block =
     (case block of
        ToolResultBlock i isError content \<Rightarrow>
          if \<not> truthy i then skip
          else reading (\<lambda>s. emit_with fs (or_else (parentForToolResult (the i) s) (cl_toolCallParents s (the i)))
            (ToolResult (the i) (\<not> isError) (red (truncateToolSummary (result_text content))) (byteLength (result_text content))))
      | _ \<Rightarrow> skip)"

definition claude_usage_event :: "factories \<Rightarrow> string \<Rightarrow> claude_usage \<Rightarrow> claude_state proj" where
  "claude_usage_event fs model u =
     (let input = the_or 0 (cu_input u); cacheRead = the_or 0 (cu_cacheRead u)
      in emit fs (Usage model
           \<lparr>tok_input = input, tok_output = the_or 0 (cu_output u), tok_cacheRead = Some cacheRead,
            tok_cacheCreation = Some (the_or 0 (cu_cacheCreation u))\<rparr>
           \<lparr>hits = cacheRead, misses = input\<rparr>))"

definition claude_result :: "(string \<Rightarrow> string) \<Rightarrow> factories \<Rightarrow> claude_raw \<Rightarrow> claude_state proj" where
  "claude_result red fs raw = reading (\<lambda>s.
     let success = (raw_subtype raw = Some ''success''); stop = the_or ''success'' (raw_subtype raw);
         model = (if truthy (raw_model raw) then the (raw_model raw) else cl_model s)
     in steps
          [case raw_usage raw of None \<Rightarrow> skip | Some u \<Rightarrow> claude_usage_event fs model u,
           case raw_cost raw of
             Some usd \<Rightarrow> emit fs (Cost (Some usd) ExactCost ''vendor'')
           | None \<Rightarrow> emit fs (Cost None UnknownCost ''vendor''),
           if success then skip
           else emit fs (ErrorOf True stop (red (''Claude query terminated with subtype='' @ stop)) False),
           emit fs (TurnEnd stop (the_or 0 (raw_duration raw))),
           modify (\<lambda>s. s\<lparr>sawTerminal := True\<rparr>)])"

definition projectClaudeMessage :: "(string \<Rightarrow> string) \<Rightarrow> factories \<Rightarrow> claude_raw \<Rightarrow> claude_state proj" where
  "projectClaudeMessage red fs raw =
     (let ty = raw_type raw; sub = raw_subtype raw
      in if ty = ''system'' \<and> sub = Some ''init'' then
           (case raw_session raw of None \<Rightarrow> skip | Some i \<Rightarrow> modify (bindSession (Some i)))
         else if ty = ''system'' \<and> sub \<in> set [Some ''hook_started'', Some ''hook_response'', Some ''hook_progress''] then skip
         else if ty = ''rate_limit_event'' then
           (let info = raw_rate_limit raw
            in emit fs (RateLimit (mapRateLimitScope (rate_type info)) (mapRateLimitStatus (rate_status info)) (rate_resetsAt info)))
         else if ty = ''assistant'' then claude_assistant red fs raw
         else if ty = ''user'' then each (claude_result_block red fs) (the_or [] (raw_content raw))
         else if ty = ''result'' then claude_result red fs raw
         else if ty = ''stream_event'' then
           (if truthy (raw_delta_text raw) then emit fs (AssistantDelta (red (the (raw_delta_text raw)))) else skip)
         else skip)"

text \<open>\<open>expect\<close> is the option of the caller: the session is resumed and has not been announced.\<close>

definition projectClaudeHook :: "(string \<Rightarrow> string) \<Rightarrow> factories \<Rightarrow> bool \<Rightarrow> hook_input \<Rightarrow> claude_state proj" where
  "projectClaudeHook red fs expect hook =
     (case hook of
        SessionStartHook source \<Rightarrow>
          if \<not> expect then skip
          else emit fs (SessionStart (if source = ''resume'' \<or> source = ''compact'' then Resume else Spawn))
      | Stop m \<Rightarrow> emit fs (Checkpoint (red (the_or [] m)))
      | _ \<Rightarrow> skip)"

section \<open>The handle\<close>

text \<open>\<open>sid\<close> is a new session id, drawn when none is bound.\<close>

definition emitSessionStartIfNeeded :: "session_source \<Rightarrow> string \<Rightarrow> factories \<Rightarrow> claude_state proj" where
  "emitSessionStartIfNeeded src sid fs = reading (\<lambda>s.
     if cl_sessionStartEmitted s then skip
     else andThen
       (modify (\<lambda>s. (if truthy (corr_sessionId s) then s else bindSession (Some sid) s)\<lparr>cl_sessionStartEmitted := True\<rparr>))
       (emit fs (SessionStart src)))"

definition throw :: "string \<Rightarrow> 's proj" where
  "throw e s = Inl e"

definition claude_send :: "session_source \<Rightarrow> string \<Rightarrow> factories \<Rightarrow> claude_state proj" where
  "claude_send src sid fs = reading (\<lambda>s.
     if cl_closed s then throw ''ClaudeHandle: send() after shutdown()''
     else if turnActive s then throw ''ClaudeHandle: send() while a turn is already active''
     else andThen (modify (\<lambda>s. (startTurn fs None s)\<lparr>turnActive := True, sawTerminal := False\<rparr>)) (emitSessionStartIfNeeded src sid fs))"

text \<open>One message of the stream; a closed handle leaves the loop, so nothing is projected.\<close>

definition drain_message :: "(string \<Rightarrow> string) \<Rightarrow> factories \<Rightarrow> claude_raw \<Rightarrow> claude_state proj" where
  "drain_message red fs raw = reading (\<lambda>s. if cl_closed s then skip else projectClaudeMessage red fs raw)"

text \<open>The end of the drain: \<open>failure\<close> is the message of the error when the iterator threw.\<close>

definition drain_end :: "(string \<Rightarrow> string) \<Rightarrow> factories \<Rightarrow> string option \<Rightarrow> claude_state proj" where
  "drain_end red fs failure =
     steps
       [case failure of None \<Rightarrow> skip | Some m \<Rightarrow> emit fs (ErrorOf True ''adapter_stream_failure'' (red m) False),
        reading (\<lambda>s. if \<not> sawTerminal s \<and> \<not> cl_closed s then emit fs (TurnEnd ''stream_ended'' 0) else skip),
        modify (\<lambda>s. (endTurn s)\<lparr>turnActive := False\<rparr>)]"

definition drainTurn :: "(string \<Rightarrow> string) \<Rightarrow> factories \<Rightarrow> claude_raw list \<Rightarrow> string option \<Rightarrow> claude_state proj" where
  "drainTurn red fs raws failure = andThen (each (drain_message red fs) raws) (drain_end red fs failure)"

definition claude_interrupt :: "factories \<Rightarrow> string option \<Rightarrow> claude_state proj" where
  "claude_interrupt fs reason = reading (\<lambda>s.
     if cl_closed s then skip
     else case emit fs (Interrupt ''user'' (turnActive s)) s of
       Inr _ \<Rightarrow> emit fs (Interrupt ''user'' (turnActive s))
     | Inl _ \<Rightarrow> steps
         [modify (startTurn fs None), emit fs (Interrupt ''user'' False),
          emit fs (TurnEnd (the_or ''interrupted'' reason) 0), modify endTurn])"

definition claude_shutdown :: "factories \<Rightarrow> string \<Rightarrow> claude_state proj" where
  "claude_shutdown fs reason = reading (\<lambda>s.
     if cl_closed s then skip
     else steps
       [modify (\<lambda>s. (if turnActive s then s else startTurn fs None s)\<lparr>cl_closed := True\<rparr>),
        emit fs (SessionEnd reason), modify endTurn])"

section \<open>What a turn emits\<close>

text \<open>The texts of a payload went through the redactor, or are empty.\<close>

definition redacted :: "(string \<Rightarrow> string) \<Rightarrow> Payload \<Rightarrow> bool" where
  "redacted red p =
     (case p of
        AssistantMessage t _ \<Rightarrow> t = [] \<or> t \<in> range red
      | AssistantDelta t \<Rightarrow> t \<in> range red
      | Reasoning t _ \<Rightarrow> t \<in> range red
      | ToolCall _ _ args \<Rightarrow> args \<in> range (redactUnknown red)
      | ToolResult _ _ t _ \<Rightarrow> t \<in> range red
      | ErrorOf _ _ t _ \<Rightarrow> t \<in> range red
      | Checkpoint t \<Rightarrow> t \<in> range red
      | _ \<Rightarrow> True)"























text \<open>Shutdown and interrupt: a closed handle is left alone; on an open one the event goes out in the turn under way or
  in a turn of its own, which ends with it.\<close>

lemma shutdown_closed: "cl_closed s \<Longrightarrow> claude_shutdown fs reason s = Inr ([], s)" "cl_closed s \<Longrightarrow> claude_interrupt fs r s = Inr ([], s)"
  by (simp_all add: claude_shutdown_def claude_interrupt_def reading_def skip_def)

lemma shutdown_ends:
  assumes "fresh_ids fs" and "\<not> cl_closed s" and "turnActive s \<Longrightarrow> \<not> turnClosed s \<and> truthy (currentTurnId s)"
  shows "\<exists>e s'. claude_shutdown fs reason s = Inr ([e], s') \<and> payload e = SessionEnd reason \<and> cl_closed s' \<and> turnClosed s'"
  using assms
  by (cases "turnActive s"; cases "clock_of fs (corr_seq s)")
    (auto simp: claude_shutdown_def reading_def andThen_def modify_def skip_def emit_with_def make_envelope_def map_result_def
      startTurn_def endTurn_def fresh_ids_def truthy_def Let_def)

lemma interrupt_in_turn:
  assumes "\<not> cl_closed s" and "\<not> turnClosed s" and "truthy (currentTurnId s)"
  shows "\<exists>e s'. claude_interrupt fs r s = Inr ([e], s') \<and> payload e = Interrupt ''user'' (turnActive s) \<and> \<not> turnClosed s'"
  using assms
  by (cases "clock_of fs (corr_seq s)")
    (auto simp: claude_interrupt_def reading_def emit_with_def make_envelope_def map_result_def truthy_def Let_def)

lemma interrupt_between_turns:
  assumes "fresh_ids fs" and "\<not> cl_closed s" and "turnClosed s"
  shows "\<exists>e e' s'. claude_interrupt fs r s = Inr ([e, e'], s') \<and> payload e = Interrupt ''user'' False \<and> is_turn_end e' \<and>
    ev_turnId e' = ev_turnId e \<and> turnClosed s'"
  using assms
  by (cases "clock_of fs (corr_seq s)"; cases "clock_of fs (Suc (corr_seq s))"; cases "currentTurnId s")
    (auto simp: claude_interrupt_def reading_def andThen_def modify_def skip_def emit_with_def make_envelope_def map_result_def
      startTurn_def endTurn_def fresh_ids_def is_turn_end_def Let_def)

section \<open>Samples\<close>

definition new_claude :: claude_state where
  "new_claude =
     \<lparr>corr_runId = ''run'', corr_vendor = ''claude'', corr_sessionId = None, corr_seq = 0, lastMonotonic = None, lastWall = 0,
      currentTurnId = None, turnClosed = False, corr_parents = Map.empty, turns_drawn = 0, tools_drawn = 0,
      cl_toolCallParents = Map.empty, cl_model = ''opus'', cl_sessionStartEmitted = False, sawTerminal = False,
      turnActive = False, cl_closed = False\<rparr>"

definition message_of :: "string \<Rightarrow> string option \<Rightarrow> content_block list option \<Rightarrow> claude_raw" where
  "message_of ty sub content =
     \<lparr>raw_type = ty, raw_subtype = sub, raw_session = None, raw_content = content, raw_stop_reason = None, raw_duration = None,
      raw_cost = None, raw_model = None, raw_usage = None,
      raw_rate_limit = \<lparr>rate_type = None, rate_status = None, rate_resetsAt = None\<rparr>, raw_delta_text = None\<rparr>"

definition secret :: string where
  "secret = ''sk-0123456789''"

definition hide_secret :: "string \<Rightarrow> string" where
  "hide_secret s = (if has_substring secret s then ''[redacted]'' else s)"



text \<open>The summary of a result is cut before it is redacted, so a secret that straddles the cut is emitted in part.\<close>

lemma claude_cut_before_redaction:
  "hide_secret (replicate 490 CHR ''x'' @ secret) = ''[redacted]''"
  "hide_secret (truncateToolSummary (replicate 490 CHR ''x'' @ secret)) = replicate 490 CHR ''x'' @ ''sk-0123456''"
proof -
  show "hide_secret (replicate 490 CHR ''x'' @ secret) = ''[redacted]''"
    unfolding hide_secret_def has_substring_iff by (metis append_Nil2)
  have cut: "truncateToolSummary (replicate 490 CHR ''x'' @ secret) = replicate 490 CHR ''x'' @ ''sk-0123456''"
    by (simp add: truncateToolSummary_def secret_def)
  have "CHR ''9'' \<in> set secret" "CHR ''9'' \<notin> set (replicate 490 CHR ''x'' @ ''sk-0123456'')" by (simp_all add: secret_def)
  then have "\<not> has_substring secret (replicate 490 CHR ''x'' @ ''sk-0123456'')"
    unfolding has_substring_iff by (metis Un_iff set_append)
  then show "hide_secret (truncateToolSummary (replicate 490 CHR ''x'' @ secret)) = replicate 490 CHR ''x'' @ ''sk-0123456''"
    unfolding cut hide_secret_def by simp
qed

text \<open>A result without a subtype is reported as the end \<open>success\<close> and as a fatal error.\<close>

lemma claude_missing_subtype:
  "map_result (map payload \<circ> fst) (andThen (claude_send Spawn ''s1'' demo_factories)
      (drainTurn hide_secret demo_factories [message_of ''result'' None None] None) new_claude) =
    Inr [SessionStart Spawn, Cost None UnknownCost ''vendor'',
      ErrorOf True ''success'' ''Claude query terminated with subtype=success'' False, TurnEnd ''success'' 0]"
  by code_simp

text \<open>A message behind the result is emitted behind the end of its turn.\<close>

lemma claude_event_after_end:
  "map_result (map (\<lambda>e. (ev_turnId e, payload e)) \<circ> fst) (andThen (claude_send Spawn ''s1'' demo_factories)
      (drainTurn hide_secret demo_factories
         [message_of ''result'' (Some ''success'') None, message_of ''assistant'' None (Some [TextBlock (Some ''late'')])] None) new_claude) =
    Inr [(''t'', SessionStart Spawn), (''t'', Cost None UnknownCost ''vendor''), (''t'', TurnEnd ''success'' 0),
      (''t'', AssistantMessage ''late'' ''end_turn'')]"
  by code_simp

end
