(* ===== verification/Worktrees.thy ===== *)
theory Worktrees
  imports Ulid "HOL-Library.Multiset"
begin

text \<open>
  Worktrees of runs (\<^verbatim>\<open>packages/worktree/src\<close>): names, the wrapper around git with its check of quiet flags, creation
  and removal, the garbage collection, and the pre-commit hook; with the \<^verbatim>\<open>runs\<close> table
  (\<^verbatim>\<open>packages/persistence/src/queries/runs.ts\<close>) and the reader that the composition passes to the collection
  (\<^verbatim>\<open>packages/core/composition/src/persistence-read-run.ts\<close>). git is an argument: its answer to a command may
  depend on every command before it, so the state of an operation is the history of commands. Paths are POSIX
  paths.
\<close>

section \<open>Running git\<close>

datatype git_error =
    GitCommandError "string list" "int option" string string
  | GitInvariantError string "string list"
  | TypeError string
  | HookInstallError string

text \<open>The answer of the process; a killed process exits with -1.\<close>

datatype git_response = SpawnError string | Exited int string string

type_synonym command = "string \<times> string list"
type_synonym git_env = "command list \<Rightarrow> command \<Rightarrow> git_response"
type_synonym 'a git_op = "command list \<Rightarrow> (git_error + 'a) \<times> command list"

definition git_return :: "'a \<Rightarrow> 'a git_op" where
  "git_return a h = (Inr a, h)"

definition git_throw :: "git_error \<Rightarrow> 'a git_op" where
  "git_throw e h = (Inl e, h)"

definition git_bind :: "'a git_op \<Rightarrow> ('a \<Rightarrow> 'b git_op) \<Rightarrow> 'b git_op" where
  "git_bind f k h = (case f h of (Inl e, h') \<Rightarrow> (Inl e, h') | (Inr a, h') \<Rightarrow> k a h')"

definition git_catch :: "'a git_op \<Rightarrow> (git_error \<Rightarrow> 'a git_op) \<Rightarrow> 'a git_op" where
  "git_catch f k h = (case f h of (Inl e, h') \<Rightarrow> k e h' | (Inr a, h') \<Rightarrow> (Inr a, h'))"

definition QUIET_BANNED_SUBCOMMANDS :: "string list list" where
  "QUIET_BANNED_SUBCOMMANDS = [[''revert''], [''worktree'', ''prune'']]"

definition QUIET_FLAGS :: "string list" where
  "QUIET_FLAGS = [''-q'', ''--quiet'']"

definition argsStartWithSubcommand :: "string list \<Rightarrow> string list \<Rightarrow> bool" where
  "argsStartWithSubcommand args sub \<longleftrightarrow> sub \<noteq> [] \<and> starts_with sub args"

definition banned_flag :: "string list \<Rightarrow> string list \<Rightarrow> string option" where
  "banned_flag args sub =
     (if argsStartWithSubcommand args sub
      then find (\<lambda>t. t \<in> set QUIET_FLAGS) (takeWhile (\<lambda>t. t \<noteq> ''--'') (drop (length sub) args)) else None)"

fun first_banned :: "string list \<Rightarrow> string list list \<Rightarrow> (string \<times> string list) option" where
  "first_banned args [] = None"
| "first_banned args (sub # subs) = (case banned_flag args sub of Some t \<Rightarrow> Some (t, sub) | None \<Rightarrow> first_banned args subs)"

definition assertNoBannedQuietFlag :: "string list \<Rightarrow> git_error + unit" where
  "assertNoBannedQuietFlag args =
     (case first_banned args QUIET_BANNED_SUBCOMMANDS of
        None \<Rightarrow> Inr ()
      | Some (t, sub) \<Rightarrow>
          Inl (GitInvariantError
            (''runGit refuses '' @ [CHR 0x22] @ t @ [CHR 0x22] @ '' on `git '' @ join_with '' '' sub @
             ''`: git 2.50+ rejects it. Redirect stdout/stderr to silence output instead.'') args))"

definition formatGitErrorMessage :: "string list \<Rightarrow> int option \<Rightarrow> string \<Rightarrow> string" where
  "formatGitErrorMessage argv code err =
     ''git '' @ join_with '' '' argv @ '' failed (exit '' @ (case code of None \<Rightarrow> ''null'' | Some n \<Rightarrow> show_int n) @ '')'' @
     (if trim err = [] then [] else '': '' @ trim err)"

definition error_message :: "git_error \<Rightarrow> string" where
  "error_message e =
     (case e of
        GitCommandError argv code _ err \<Rightarrow> formatGitErrorMessage argv code err
      | GitInvariantError m _ \<Rightarrow> m
      | TypeError m \<Rightarrow> m
      | HookInstallError m \<Rightarrow> m)"

definition runGit :: "git_env \<Rightarrow> string list \<Rightarrow> string \<Rightarrow> string git_op" where
  "runGit env args cwd h =
     (if args = [] then (Inl (GitInvariantError ''runGit: args must be a non-empty argv'' args), h)
      else if cwd = [] then (Inl (GitInvariantError ''runGit: cwd must be an absolute path'' args), h)
      else case assertNoBannedQuietFlag args of
        Inl e \<Rightarrow> (Inl e, h)
      | Inr _ \<Rightarrow>
          (case env h (cwd, args) of
             SpawnError m \<Rightarrow> (Inl (GitCommandError args None [] m), h @ [(cwd, args)])
           | Exited code out err \<Rightarrow>
               (if code \<noteq> 0 then Inl (GitCommandError args (Some code) out err) else Inr out, h @ [(cwd, args)])))"

section \<open>Names\<close>

definition BRANCH_PREFIX :: string where "BRANCH_PREFIX = ''shamu/''"

definition WORKTREES_SUBDIR :: string where "WORKTREES_SUBDIR = ''.shamu/worktrees''"

definition branchForRun :: "string \<Rightarrow> string" where
  "branchForRun rid = BRANCH_PREFIX @ rid"

definition worktreePathForRun :: "string \<Rightarrow> string \<Rightarrow> git_error + string" where
  "worktreePathForRun repoRoot rid =
     (if repoRoot = [] then Inl (TypeError ''worktreePathForRun: repoRoot must be a non-empty string'')
      else Inr (join_with ''/'' (repoRoot # split_on CHR ''/'' WORKTREES_SUBDIR @ [rid])))"

text \<open>\<^verbatim>\<open>posix.join\<close> of two parts, the first not empty.\<close>

definition posix_join :: "string \<Rightarrow> string \<Rightarrow> string" where
  "posix_join a b =
     (let j = (if b = [] then a else a @ ''/'' @ b); p = join_with ''/'' (path_resolve False [] (split_on CHR ''/'' j))
      in if p = [] then (if ends_with ''/'' j then ''./'' else ''.'') else if ends_with ''/'' j then p @ ''/'' else p)"

definition relativeWorktreePathForRun :: "string \<Rightarrow> string" where
  "relativeWorktreePathForRun rid = posix_join WORKTREES_SUBDIR rid"

text \<open>What follows the last occurrence of \<open>m\<close>.\<close>

fun after_last :: "string \<Rightarrow> string \<Rightarrow> string option" where
  "after_last m [] = (if m = [] then Some [] else None)"
| "after_last m (c # cs) =
     (case after_last m cs of
        Some t \<Rightarrow> Some t
      | None \<Rightarrow> if starts_with m (c # cs) then Some (drop (length m) (c # cs)) else None)"

definition strip_slashes :: "string \<Rightarrow> string" where
  "strip_slashes s = rev (dropWhile (\<lambda>c. c = CHR ''/'') (rev s))"

definition runIdFromWorktreePath :: "string \<Rightarrow> string option" where
  "runIdFromWorktreePath path =
     (case after_last (''/'' @ WORKTREES_SUBDIR @ ''/'') path of
        None \<Rightarrow> None
      | Some tail \<Rightarrow>
          let t = strip_slashes tail
          in if t = [] \<or> CHR ''/'' \<in> set t then None else (case runId t of Inl _ \<Rightarrow> None | Inr i \<Rightarrow> Some i))"

definition isShamuBranch :: "string \<Rightarrow> bool" where
  "isShamuBranch branch \<longleftrightarrow> starts_with BRANCH_PREFIX branch \<and> length branch > length BRANCH_PREFIX"

section \<open>Create and destroy\<close>

record WorktreeHandle =
  wh_runId :: string
  wh_branch :: string
  wh_path :: string
  wh_baseBranch :: string
  wh_repoRoot :: string

definition createWorktree :: "git_env \<Rightarrow> string \<Rightarrow> string \<Rightarrow> string \<Rightarrow> WorktreeHandle git_op" where
  "createWorktree env repo rid base =
     (case worktreePathForRun repo rid of
        Inl e \<Rightarrow> git_throw e
      | Inr path \<Rightarrow>
          git_bind (runGit env [''worktree'', ''add'', ''-b'', branchForRun rid, relativeWorktreePathForRun rid, base] repo)
            (\<lambda>_. git_return \<lparr>wh_runId = rid, wh_branch = branchForRun rid, wh_path = path, wh_baseBranch = base, wh_repoRoot = repo\<rparr>))"

definition isWorktreePathGoneError :: "string \<Rightarrow> bool" where
  "isWorktreePathGoneError err \<longleftrightarrow>
     has_substring ''is not a working tree'' (to_lower err) \<or> has_substring ''no such file or directory'' (to_lower err) \<or>
     has_substring ''not a valid path'' (to_lower err)"

definition remove_args :: "bool \<Rightarrow> string \<Rightarrow> string list" where
  "remove_args force path = [''worktree'', ''remove''] @ (if force then [''--force''] else []) @ [path]"

definition destroyWorktree :: "git_env \<Rightarrow> bool \<Rightarrow> bool \<Rightarrow> WorktreeHandle \<Rightarrow> unit git_op" where
  "destroyWorktree env force pruneBranch w =
     git_bind
       (git_catch (runGit env (remove_args force (wh_path w)) (wh_repoRoot w))
          (\<lambda>e. case e of
             GitCommandError _ _ _ err \<Rightarrow>
               if isWorktreePathGoneError err then runGit env [''worktree'', ''prune''] (wh_repoRoot w) else git_throw e
           | _ \<Rightarrow> git_throw e))
       (\<lambda>_. if pruneBranch then git_bind (runGit env [''branch'', ''-D'', wh_branch w] (wh_repoRoot w)) (\<lambda>_. git_return ())
            else git_return ())"

section \<open>The runs table\<close>

datatype run_status = RunPending | RunRunning | RunReview | RunBlocked | RunCompleted | RunFailed

definition status_text :: "run_status \<Rightarrow> string" where
  "status_text st =
     (case st of
        RunPending \<Rightarrow> ''pending'' | RunRunning \<Rightarrow> ''running'' | RunReview \<Rightarrow> ''review''
      | RunBlocked \<Rightarrow> ''blocked'' | RunCompleted \<Rightarrow> ''completed'' | RunFailed \<Rightarrow> ''failed'')"

record run_row =
  run_id :: string
  run_swarm :: "string option"
  run_role :: "string option"
  run_vendor :: "string option"
  run_status :: run_status
  run_createdAt :: int
  run_updatedAt :: int

text \<open>The time of the insert, read from the clock when the caller gives none; a duplicate id violates the key.\<close>

definition insertRun :: "run_row \<Rightarrow> run_row list \<Rightarrow> run_row list option" where
  "insertRun row db = tbl_insert run_id (row\<lparr>run_updatedAt := run_createdAt row\<rparr>) db"

definition getRun :: "string \<Rightarrow> run_row list \<Rightarrow> run_row option" where
  "getRun i db = tbl_get run_id i db"

definition updateRunStatus :: "string \<Rightarrow> run_status \<Rightarrow> int \<Rightarrow> run_row list \<Rightarrow> run_row list" where
  "updateRunStatus i st now db = tbl_update run_id i (\<lambda>r. r\<lparr>run_status := st, run_updatedAt := now\<rparr>) db"

definition listRuns :: "run_status option \<Rightarrow> run_row list \<Rightarrow> run_row list" where
  "listRuns st db = sort_key (\<lambda>r. - run_createdAt r) (filter (\<lambda>r. case st of None \<Rightarrow> True | Some s \<Rightarrow> run_status r = s) db)"

record GCRunSnapshot =
  snap_status :: string
  snap_updatedAt :: int

definition createReadRunRow :: "run_row list \<Rightarrow> string \<Rightarrow> git_error + GCRunSnapshot option" where
  "createReadRunRow db i =
     (if i = [] then Inl (TypeError (''createReadRunRow: RunId must be a non-empty string (got '' @ [CHR 0x22, CHR 0x22] @ '')''))
      else Inr (map_option (\<lambda>r. \<lparr>snap_status = status_text (run_status r), snap_updatedAt = run_updatedAt r\<rparr>) (getRun i db)))"

section \<open>Garbage collection\<close>

record ParsedWorktree =
  pw_path :: string
  pw_branch :: "string option"
  pw_bare :: bool
  pw_detached :: bool

text \<open>The records of the listing are its runs of lines that are not empty; a line break inside a path would start
  a line of its own.\<close>

fun line_groups :: "string list \<Rightarrow> string list \<Rightarrow> string list list" where
  "line_groups acc [] = (if acc = [] then [] else [rev acc])"
| "line_groups acc (l # ls) =
     (if l = [] then (if acc = [] then [] else [rev acc]) @ line_groups [] ls else line_groups (l # acc) ls)"

definition worktree_line :: "ParsedWorktree \<Rightarrow> string \<Rightarrow> ParsedWorktree" where
  "worktree_line w l =
     (if l = ''bare'' then w\<lparr>pw_bare := True\<rparr>
      else if l = ''detached'' then w\<lparr>pw_detached := True\<rparr>
      else if starts_with ''branch '' l then w\<lparr>pw_branch := Some (drop 7 l)\<rparr> else w)"

definition parse_record :: "string list \<Rightarrow> ParsedWorktree list" where
  "parse_record ls =
     (case ls of
        [] \<Rightarrow> []
      | l # rest \<Rightarrow>
          if starts_with ''worktree '' l
          then [foldl worktree_line \<lparr>pw_path = drop 9 l, pw_branch = None, pw_bare = False, pw_detached = False\<rparr> rest] else [])"

definition parseWorktreeList :: "string \<Rightarrow> ParsedWorktree list" where
  "parseWorktreeList out = concat (map parse_record (line_groups [] (split_on (CHR 0x0A) out)))"

datatype GCSkipReason = RunRowMissing | RunNotTerminal | RunTooRecent | PathNotUnderShamuWorktrees | NotOwnedByShamu

record GCReport =
  gc_removed :: "(string \<times> string) list"
  gc_skipped :: "(string \<times> string option \<times> GCSkipReason) list"
  gc_errors :: "(string \<times> string option \<times> string) list"

record GCOptions =
  gc_repoRoot :: string
  gc_now :: int
  gc_terminalStatuses :: "string list option"
  gc_maxAgeHours :: "int option"
  gc_force :: "bool option"

definition DEFAULT_MAX_AGE_HOURS :: int where "DEFAULT_MAX_AGE_HOURS = 24"

definition DEFAULT_TERMINAL_STATUSES :: "string list" where
  "DEFAULT_TERMINAL_STATUSES = [''completed'', ''failed'']"

definition MS_PER_HOUR :: int where "MS_PER_HOUR = 60 * 60 * 1000"

definition option_or :: "'a option \<Rightarrow> 'a \<Rightarrow> 'a" where
  "option_or x d = (case x of None \<Rightarrow> d | Some a \<Rightarrow> a)"

definition gc_terminal :: "GCOptions \<Rightarrow> string list" where
  "gc_terminal opts = option_or (gc_terminalStatuses opts) DEFAULT_TERMINAL_STATUSES"

definition gc_max_age :: "GCOptions \<Rightarrow> int" where
  "gc_max_age opts = option_or (gc_maxAgeHours opts) DEFAULT_MAX_AGE_HOURS * MS_PER_HOUR"

definition skipped :: "string \<Rightarrow> string option \<Rightarrow> GCSkipReason \<Rightarrow> GCReport \<Rightarrow> GCReport" where
  "skipped path rid reason r = r\<lparr>gc_skipped := gc_skipped r @ [(path, rid, reason)]\<rparr>"

definition errored :: "string \<Rightarrow> string option \<Rightarrow> git_error \<Rightarrow> GCReport \<Rightarrow> GCReport" where
  "errored path rid e r = r\<lparr>gc_errors := gc_errors r @ [(path, rid, error_message e)]\<rparr>"

text \<open>What is decided about a worktree before git is asked to remove it.\<close>

definition gc_verdict ::
  "(string \<Rightarrow> git_error + GCRunSnapshot option) \<Rightarrow> GCOptions \<Rightarrow> ParsedWorktree \<Rightarrow> git_error + (string option \<times> GCSkipReason) + string" where
  "gc_verdict read_run opts wt =
     (case runIdFromWorktreePath (pw_path wt) of
        None \<Rightarrow> Inr (Inl (None, PathNotUnderShamuWorktrees))
      | Some rid \<Rightarrow>
          if pw_bare wt then Inr (Inl (Some rid, NotOwnedByShamu))
          else (case read_run rid of
            Inl e \<Rightarrow> Inl e
          | Inr None \<Rightarrow> Inr (Inl (Some rid, RunRowMissing))
          | Inr (Some snap) \<Rightarrow>
              if snap_status snap \<notin> set (gc_terminal opts) then Inr (Inl (Some rid, RunNotTerminal))
              else if gc_now opts - snap_updatedAt snap < gc_max_age opts then Inr (Inl (Some rid, RunTooRecent))
              else Inr (Inr rid)))"

definition gc_one ::
  "git_env \<Rightarrow> (string \<Rightarrow> git_error + GCRunSnapshot option) \<Rightarrow> GCOptions \<Rightarrow> ParsedWorktree \<Rightarrow> GCReport \<Rightarrow> GCReport git_op" where
  "gc_one env read_run opts wt report =
     (case gc_verdict read_run opts wt of
        Inl e \<Rightarrow> git_throw e
      | Inr (Inl (rid, reason)) \<Rightarrow> git_return (skipped (pw_path wt) rid reason report)
      | Inr (Inr rid) \<Rightarrow>
          git_catch
            (git_bind (runGit env (remove_args (option_or (gc_force opts) False) (pw_path wt)) (gc_repoRoot opts))
               (\<lambda>_. git_return (report\<lparr>gc_removed := gc_removed report @ [(rid, pw_path wt)]\<rparr>)))
            (\<lambda>e. git_return (errored (pw_path wt) (Some rid) e report)))"

fun gc_all ::
  "git_env \<Rightarrow> (string \<Rightarrow> git_error + GCRunSnapshot option) \<Rightarrow> GCOptions \<Rightarrow> ParsedWorktree list \<Rightarrow> GCReport \<Rightarrow> GCReport git_op" where
  "gc_all env read_run opts [] report = git_return report"
| "gc_all env read_run opts (wt # wts) report = git_bind (gc_one env read_run opts wt report) (gc_all env read_run opts wts)"

definition garbageCollect :: "git_env \<Rightarrow> (string \<Rightarrow> git_error + GCRunSnapshot option) \<Rightarrow> GCOptions \<Rightarrow> GCReport git_op" where
  "garbageCollect env read_run opts =
     git_bind (runGit env [''worktree'', ''list'', ''--porcelain''] (gc_repoRoot opts)) (\<lambda>out.
       git_bind (gc_all env read_run opts (parseWorktreeList out) \<lparr>gc_removed = [], gc_skipped = [], gc_errors = []\<rparr>) (\<lambda>report.
         git_catch (git_bind (runGit env [''worktree'', ''prune''] (gc_repoRoot opts)) (\<lambda>_. git_return report))
           (\<lambda>e. git_return (errored (gc_repoRoot opts) None e report))))"

section \<open>The pre-commit hook\<close>

definition escape_quotes :: "string \<Rightarrow> string" where
  "escape_quotes s = concat (map (\<lambda>c. if c = CHR 0x5C \<or> c = CHR 0x22 then [CHR 0x5C, c] else [c]) s)"

definition renderHookScript :: "string \<Rightarrow> string" where
  "renderHookScript script =
     join_with [CHR 0x0A]
       [''#!/usr/bin/env bash'',
        ''# Installed by @shamu/worktree.installPreCommitHook'',
        ''# Phase 3.B: execs the lease-checker supplied by Phase 3.C'' @ [CHR 0x27] @ ''s @shamu/mailbox.'',
        ''# Do not edit by hand '' @ [CHR 0xE2, CHR 0x80, CHR 0x94] @ '' reinstall via installPreCommitHook().'',
        ''set -eu'',
        ''exec '' @ [CHR 0x22] @ escape_quotes script @ [CHR 0x22] @ '' '' @ [CHR 0x22] @ ''$@'' @ [CHR 0x22],
        []]"

definition resolveGitDir :: "git_env \<Rightarrow> (string \<Rightarrow> string \<Rightarrow> string) \<Rightarrow> string \<Rightarrow> string git_op" where
  "resolveGitDir env resolve wt =
     git_bind
       (git_catch (runGit env [''rev-parse'', ''--git-dir''] wt)
          (\<lambda>e. git_throw (HookInstallError (''failed to resolve GIT_DIR via git in '' @ wt @ '': '' @ error_message e))))
       (\<lambda>out. if trim out = [] then git_throw (HookInstallError (''git rev-parse --git-dir returned empty output in '' @ wt))
         else git_return (resolve wt (trim out)))"

text \<open>The path and the content of the file it writes; writing itself is left out. \<open>resolve\<close> is \<^verbatim>\<open>path.resolve\<close>.\<close>

definition installPreCommitHook ::
  "git_env \<Rightarrow> (string \<Rightarrow> string \<Rightarrow> string) \<Rightarrow> string \<Rightarrow> string \<Rightarrow> (string \<times> string) git_op" where
  "installPreCommitHook env resolve wt script =
     (if wt = [] then git_throw (HookInstallError ''installPreCommitHook: worktreePath must be a non-empty string'')
      else if script = [] then git_throw (HookInstallError ''installPreCommitHook: leaseCheckerScript must be a non-empty path'')
      else git_bind (resolveGitDir env resolve wt) (\<lambda>gitDir.
        let hooksDir = resolve gitDir ''shamu-hooks''
        in git_bind (runGit env [''config'', ''extensions.worktreeConfig'', ''true''] wt) (\<lambda>_.
             git_bind (runGit env [''config'', ''--worktree'', ''core.hooksPath'', hooksDir] wt) (\<lambda>_.
               git_return (resolve hooksDir ''pre-commit'', renderHookScript script)))))"

section \<open>Names are read back\<close>

lemma after_last_None_iff: "m \<noteq> [] \<Longrightarrow> after_last m s = None \<longleftrightarrow> (\<forall>a b. s \<noteq> a @ m @ b)"
proof (induction s)
  case (Cons c cs)
  have "(\<exists>a b. c # cs = a @ m @ b) \<longleftrightarrow> starts_with m (c # cs) \<or> (\<exists>a b. cs = a @ m @ b)"
    using has_substring_iff [of m "c # cs"] has_substring_iff [of m cs] by auto
  with Cons show ?case by (auto split: option.splits)
qed simp

lemma after_last_app:
  assumes "m \<noteq> []" and "after_last m (drop 1 (m @ t)) = None"
  shows "after_last m (s @ m @ t) = Some t"
proof (induction s)
  case Nil
  obtain c m' where m: "m = c # m'" using assms(1) by (cases m) auto
  with assms(2) show ?case by (auto simp: starts_with_def)
qed simp

lemma no_marker:
  assumes "CHR ''/'' \<notin> set rid"
  shows "after_last (''/'' @ WORKTREES_SUBDIR @ ''/'') (drop 1 ((''/'' @ WORKTREES_SUBDIR @ ''/'') @ rid)) = None"
proof -
  have none: "after_last (''/.shamu/worktrees/'') r = None" if "CHR ''/'' \<notin> set r" for r
    unfolding after_last_None_iff [of "''/.shamu/worktrees/''" r, simplified] using that by auto
  have "\<not> starts_with ''/.shamu/worktrees/'' (''/'' @ rid)" "\<not> starts_with ''/.shamu/worktrees/'' (''/worktrees/'' @ rid)"
    using assms by (auto simp: starts_with_iff)
  then show ?thesis using none [OF assms] by (simp add: WORKTREES_SUBDIR_def starts_with_def)
qed

lemma strip_plain: "CHR ''/'' \<notin> set s \<Longrightarrow> strip_slashes s = s"
  by (cases s rule: rev_cases) (auto simp: strip_slashes_def)

text \<open>The worktree path of a run gives its id back, so two runs never share one, whatever the repository path is;
  the branch of a run is recognised as one of the program.\<close>

theorem worktree_path_roundtrip:
  assumes "rid \<noteq> []" and "CHR ''/'' \<notin> set rid" and "repo \<noteq> []"
  shows "\<exists>p. worktreePathForRun repo rid = Inr p \<and> runIdFromWorktreePath p = Some rid \<and> isShamuBranch (branchForRun rid)"
proof -
  have p: "worktreePathForRun repo rid = Inr (repo @ (''/'' @ WORKTREES_SUBDIR @ ''/'') @ rid)"
    using assms(3) by (simp add: worktreePathForRun_def WORKTREES_SUBDIR_def)
  have "after_last (''/'' @ WORKTREES_SUBDIR @ ''/'') (repo @ (''/'' @ WORKTREES_SUBDIR @ ''/'') @ rid) = Some rid"
    by (rule after_last_app) (use no_marker [OF assms(2)] in simp_all)
  with p assms show ?thesis
    by (simp add: runIdFromWorktreePath_def strip_plain runId_def requireNonEmpty_def guard_result_def isShamuBranch_def
        branchForRun_def starts_with_def)
qed

theorem worktree_path_roundtrip_witness:
  "\<exists>p. worktreePathForRun ''/repo/.shamu/worktrees/old'' ''run-1'' = Inr p \<and> runIdFromWorktreePath p = Some ''run-1'' \<and>
    isShamuBranch (branchForRun ''run-1'')"
  by (rule worktree_path_roundtrip) simp_all

text \<open>An id with a slash or dots does not come back: the first is read as a nested directory, and git is given another
  path than the handle.\<close>

lemma odd_run_ids:
  "map_option runIdFromWorktreePath (case worktreePathForRun ''/r'' ''a/b'' of Inr p \<Rightarrow> Some p | Inl _ \<Rightarrow> None) = Some None"
  "worktreePathForRun ''/r'' ''../x'' = Inr ''/r/.shamu/worktrees/../x''" "relativeWorktreePathForRun ''../x'' = ''.shamu/x''"
  by code_simp+

section \<open>What the collection asks git\<close>

definition issues :: "(command \<Rightarrow> bool) \<Rightarrow> 'a git_op \<Rightarrow> bool" where
  "issues P f \<longleftrightarrow> (\<forall>h. \<exists>cs. snd (f h) = h @ cs \<and> (\<forall>c \<in> set cs. P c))"

named_theorems issues_rules "commands of an operation"

lemma issues_return [issues_rules]: "issues P (git_return a)" "issues P (git_throw e)"
  by (simp_all add: issues_def git_return_def git_throw_def)

lemma issues_more:
  assumes "issues P f" and "\<exists>cs. h' = snd (f h) @ cs \<and> (\<forall>c \<in> set cs. P c)"
  shows "\<exists>cs. h' = h @ cs \<and> (\<forall>c \<in> set cs. P c)"
proof -
  from assms(1) obtain cs where "snd (f h) = h @ cs" "\<forall>c \<in> set cs. P c" unfolding issues_def by blast
  moreover from assms(2) obtain cs' where "h' = snd (f h) @ cs'" "\<forall>c \<in> set cs'. P c" by blast
  ultimately have "h' = h @ (cs @ cs')" "\<forall>c \<in> set (cs @ cs'). P c" by auto
  then show ?thesis by blast
qed

lemma issues_bind [issues_rules]: "issues P f \<Longrightarrow> (\<And>a. issues P (k a)) \<Longrightarrow> issues P (git_bind f k)"
  unfolding issues_def [of P "git_bind f k"]
  by (intro allI, erule issues_more) (auto simp: git_bind_def issues_def split: prod.split sum.split)

lemma issues_catch [issues_rules]: "issues P f \<Longrightarrow> (\<And>e. issues P (k e)) \<Longrightarrow> issues P (git_catch f k)"
  unfolding issues_def [of P "git_catch f k"]
  by (intro allI, erule issues_more) (auto simp: git_catch_def issues_def split: prod.split sum.split)

lemma issues_git [issues_rules]: "P (cwd, args) \<Longrightarrow> issues P (runGit env args cwd)"
  by (auto simp: issues_def runGit_def split: sum.split git_response.split)

definition listed_worktrees :: "git_env \<Rightarrow> GCOptions \<Rightarrow> command list \<Rightarrow> ParsedWorktree list" where
  "listed_worktrees env opts h =
     (case fst (runGit env [''worktree'', ''list'', ''--porcelain''] (gc_repoRoot opts) h) of Inl _ \<Rightarrow> [] | Inr out \<Rightarrow> parseWorktreeList out)"

text \<open>The row of the run is in a final status and old enough.\<close>

definition expired :: "run_row list \<Rightarrow> GCOptions \<Rightarrow> string \<Rightarrow> bool" where
  "expired db opts rid \<longleftrightarrow>
     (\<exists>row \<in> set db. run_id row = rid \<and> status_text (run_status row) \<in> set (gc_terminal opts) \<and>
        gc_now opts - run_updatedAt row \<ge> gc_max_age opts)"

definition gc_allowed :: "run_row list \<Rightarrow> GCOptions \<Rightarrow> ParsedWorktree list \<Rightarrow> command \<Rightarrow> bool" where
  "gc_allowed db opts wts c \<longleftrightarrow> fst c = gc_repoRoot opts \<and>
     (snd c \<in> {[''worktree'', ''list'', ''--porcelain''], [''worktree'', ''prune'']} \<or>
      (\<exists>wt \<in> set wts. \<exists>rid. snd c = remove_args (option_or (gc_force opts) False) (pw_path wt) \<and>
         runIdFromWorktreePath (pw_path wt) = Some rid \<and> \<not> pw_bare wt \<and> expired db opts rid))"

lemma verdict_expired:
  assumes "gc_verdict (createReadRunRow db) opts wt = Inr (Inr rid)"
  shows "runIdFromWorktreePath (pw_path wt) = Some rid \<and> \<not> pw_bare wt \<and> expired db opts rid"
  using assms
  by (auto simp: gc_verdict_def createReadRunRow_def getRun_def expired_def split: option.splits if_splits sum.splits dest: tbl_get_Some)

lemma removal_allowed:
  assumes "gc_verdict (createReadRunRow db) opts wt = Inr (Inr rid)" and "wt \<in> set wts"
  shows "gc_allowed db opts wts (gc_repoRoot opts, remove_args (option_or (gc_force opts) False) (pw_path wt))"
  using verdict_expired [OF assms(1)] assms(2) unfolding gc_allowed_def by auto

lemma gc_one_issues: "wt \<in> set wts \<Longrightarrow> issues (gc_allowed db opts wts) (gc_one env (createReadRunRow db) opts wt report)"
  unfolding gc_one_def by (auto split: sum.split prod.split intro!: issues_rules removal_allowed)

lemma gc_all_issues: "set ws \<subseteq> set wts \<Longrightarrow> issues (gc_allowed db opts wts) (gc_all env (createReadRunRow db) opts ws report)"
  by (induction ws arbitrary: report) (auto intro!: issues_rules gc_one_issues)

text \<open>C10: garbage collection removes nothing that may still be needed. With the reader of the runs table, whatever git
  answers and whether the sweep succeeds or throws, every command it issues runs in the repository and lists,
  prunes, or removes a worktree that git had listed, that is not bare and lies in the directory of the run its
  path names, and whose row says a final status, last updated at least the maximal age ago. Removal is forced
  only when the caller asks for it.\<close>

theorem gc_removes_only_expired:
  "\<exists>cs. snd (garbageCollect env (createReadRunRow db) opts h) = h @ cs \<and>
    (\<forall>c \<in> set cs. gc_allowed db opts (listed_worktrees env opts h) c)"
proof -
  let ?ls = "[''worktree'', ''list'', ''--porcelain'']" and ?P = "gc_allowed db opts (listed_worktrees env opts h)"
  obtain r h' where l: "runGit env ?ls (gc_repoRoot opts) h = (r, h')" by force
  have first: "issues ?P (runGit env ?ls (gc_repoRoot opts))" by (rule issues_git) (simp add: gc_allowed_def)
  show ?thesis
  proof (rule issues_more [OF first], cases r)
    case (Inl e)
    then show "\<exists>cs. snd (garbageCollect env (createReadRunRow db) opts h) = snd (runGit env ?ls (gc_repoRoot opts) h) @ cs \<and> (\<forall>c \<in> set cs. ?P c)"
      using l by (simp add: garbageCollect_def git_bind_def)
  next
    case (Inr out)
    then have wts: "listed_worktrees env opts h = parseWorktreeList out" using l by (simp add: listed_worktrees_def)
    have "issues ?P (git_bind (gc_all env (createReadRunRow db) opts (parseWorktreeList out) \<lparr>gc_removed = [], gc_skipped = [], gc_errors = []\<rparr>)
        (\<lambda>report. git_catch (git_bind (runGit env [''worktree'', ''prune''] (gc_repoRoot opts)) (\<lambda>_. git_return report))
           (\<lambda>e. git_return (errored (gc_repoRoot opts) None e report))))"
      by (intro issues_rules gc_all_issues) (simp_all add: wts gc_allowed_def)
    then show "\<exists>cs. snd (garbageCollect env (createReadRunRow db) opts h) = snd (runGit env ?ls (gc_repoRoot opts) h) @ cs \<and> (\<forall>c \<in> set cs. ?P c)"
      using l Inr by (simp add: garbageCollect_def git_bind_def issues_def)
  qed
qed

section \<open>The report is complete\<close>

definition gc_paths :: "GCReport \<Rightarrow> string multiset" where
  "gc_paths r = mset (map snd (gc_removed r) @ map fst (gc_skipped r) @ map fst (gc_errors r))"

lemma gc_one_counts: "gc_one env read_run opts wt r h = (Inr r', h') \<Longrightarrow> gc_paths r' = add_mset (pw_path wt) (gc_paths r)"
  by (auto simp: gc_one_def gc_paths_def git_return_def git_throw_def git_catch_def git_bind_def skipped_def errored_def
      split: sum.splits prod.splits)

lemma gc_all_counts: "gc_all env read_run opts wts r h = (Inr r', h') \<Longrightarrow> gc_paths r' = gc_paths r + mset (map pw_path wts)"
proof (induction wts arbitrary: r h)
  case Nil
  then show ?case by (simp add: git_return_def)
next
  case (Cons wt wts)
  then obtain r1 h1 where "gc_one env read_run opts wt r h = (Inr r1, h1)" "gc_all env read_run opts wts r1 h1 = (Inr r', h')"
    by (auto simp: git_bind_def split: prod.splits sum.splits)
  with Cons.IH gc_one_counts show ?case by fastforce
qed

text \<open>Every listed worktree ends up in exactly one list of the report; a failed prune adds the repository to the errors.\<close>

lemma gc_report_complete:
  assumes "garbageCollect env read_run opts h = (Inr report, h')"
  shows "gc_paths report = mset (map pw_path (listed_worktrees env opts h)) \<or>
    gc_paths report = add_mset (gc_repoRoot opts) (mset (map pw_path (listed_worktrees env opts h)))"
proof -
  let ?empty = "\<lparr>gc_removed = [], gc_skipped = [], gc_errors = []\<rparr>"
  obtain out h1 r h2 where o: "runGit env [''worktree'', ''list'', ''--porcelain''] (gc_repoRoot opts) h = (Inr out, h1)"
    and a: "gc_all env read_run opts (parseWorktreeList out) ?empty h1 = (Inr r, h2)"
    and r: "report = r \<or> (\<exists>e. report = errored (gc_repoRoot opts) None e r)"
    using assms by (auto simp: garbageCollect_def git_bind_def git_catch_def git_return_def split: prod.splits sum.splits)
  have "gc_paths r = mset (map pw_path (listed_worktrees env opts h))"
    using gc_all_counts [OF a] o by (simp add: gc_paths_def listed_worktrees_def)
  with r show ?thesis by (auto simp: errored_def gc_paths_def)
qed

section \<open>Samples\<close>

definition demo_listing :: string where
  "demo_listing = join_with [CHR 0x0A]
     [''worktree /r'', ''HEAD 1'', ''branch refs/heads/main'', [], ''worktree /r/.shamu/worktrees/old'', ''HEAD 2'', ''detached'', [],
      ''worktree /r/.shamu/worktrees/busy'', ''HEAD 3'', []]"

definition demo_git :: git_env where
  "demo_git h c = Exited 0 (if snd c = [''worktree'', ''list'', ''--porcelain''] then demo_listing else []) []"

definition demo_runs :: "run_row list" where
  "demo_runs =
     [\<lparr>run_id = ''old'', run_swarm = None, run_role = None, run_vendor = None, run_status = RunFailed, run_createdAt = 0, run_updatedAt = 0\<rparr>,
      \<lparr>run_id = ''busy'', run_swarm = None, run_role = None, run_vendor = None, run_status = RunRunning, run_createdAt = 0, run_updatedAt = 0\<rparr>]"

definition demo_gc :: GCOptions where
  "demo_gc = \<lparr>gc_repoRoot = ''/r'', gc_now = 90000000, gc_terminalStatuses = None, gc_maxAgeHours = None, gc_force = None\<rparr>"

lemma demo_sweep:
  "garbageCollect demo_git (createReadRunRow demo_runs) demo_gc [] =
    (Inr \<lparr>gc_removed = [(''old'', ''/r/.shamu/worktrees/old'')],
       gc_skipped = [(''/r'', None, PathNotUnderShamuWorktrees), (''/r/.shamu/worktrees/busy'', Some ''busy'', RunNotTerminal)], gc_errors = []\<rparr>,
     [(''/r'', [''worktree'', ''list'', ''--porcelain'']), (''/r'', [''worktree'', ''remove'', ''/r/.shamu/worktrees/old'']),
      (''/r'', [''worktree'', ''prune''])])"
  by code_simp

theorem gc_removes_only_expired_witness:
  "gc_allowed demo_runs demo_gc (listed_worktrees demo_git demo_gc []) (''/r'', [''worktree'', ''remove'', ''/r/.shamu/worktrees/old''])"
proof -
  obtain cs where "snd (garbageCollect demo_git (createReadRunRow demo_runs) demo_gc []) = [] @ cs"
    "\<forall>c \<in> set cs. gc_allowed demo_runs demo_gc (listed_worktrees demo_git demo_gc []) c"
    using gc_removes_only_expired [of demo_git demo_runs demo_gc "[]"] by blast
  then show ?thesis by (auto simp: demo_sweep)
qed

text \<open>The script quotes the path of the checker for double quotes but leaves dollar signs and backquotes, which the
  shell expands there.\<close>

lemma hook_expands_path: "escape_quotes ''/a$(b)/c'' = ''/a$(b)/c''"
  by code_simp

end
