(* ===== verification/Redactor.thy ===== *)
theory Redactor
  imports Shamu_Prelude "HOL-Library.AList"
begin

text \<open>
  The redactor of secrets (\<^verbatim>\<open>packages/shared/src/redactor.ts\<close>): registered values, of which only length and digest are
  kept, and the built-in patterns. The digest is an argument. A regular expression is the function that gives
  the length of its match at the front of a string, with the character before it.
\<close>

section \<open>Patterns\<close>

type_synonym pattern = "char option \<Rightarrow> string \<Rightarrow> nat option"

definition char_in :: "char \<Rightarrow> char \<Rightarrow> char \<Rightarrow> bool" where
  "char_in a b c \<longleftrightarrow> of_char a \<le> (of_char c :: nat) \<and> of_char c \<le> (of_char b :: nat)"

definition alnum :: "char \<Rightarrow> bool" where
  "alnum c \<longleftrightarrow> char_in CHR ''A'' CHR ''Z'' c \<or> char_in CHR ''a'' CHR ''z'' c \<or> char_in CHR ''0'' CHR ''9'' c"

definition word_char :: "char \<Rightarrow> bool" where
  "word_char c \<longleftrightarrow> alnum c \<or> c = CHR ''_''"

definition token_char :: "char \<Rightarrow> bool" where
  "token_char c \<longleftrightarrow> word_char c \<or> c = CHR ''-''"

definition upper_char :: "char \<Rightarrow> bool" where
  "upper_char c \<longleftrightarrow> char_in CHR ''A'' CHR ''Z'' c \<or> char_in CHR ''0'' CHR ''9'' c \<or> c = CHR ''_''"

definition hex_char :: "char \<Rightarrow> bool" where
  "hex_char c \<longleftrightarrow> char_in CHR ''0'' CHR ''9'' c \<or> char_in CHR ''a'' CHR ''f'' c"

definition run_of :: "(char \<Rightarrow> bool) \<Rightarrow> string \<Rightarrow> nat" where
  "run_of p s = length (takeWhile p s)"

text \<open>A fixed prefix and at least \<open>k\<close> characters of a class.\<close>

definition prefixed :: "string \<Rightarrow> (char \<Rightarrow> bool) \<Rightarrow> nat \<Rightarrow> pattern" where
  "prefixed pre p k prev s =
     (if starts_with pre s \<and> run_of p (drop (length pre) s) \<ge> k then Some (length pre + run_of p (drop (length pre) s)) else None)"

text \<open>Three runs with dots between them; a class without the dot leaves one way to match.\<close>

definition jwt :: pattern where
  "jwt prev s =
     (case prefixed ''eyJ'' token_char 1 prev s of
        None \<Rightarrow> None
      | Some a \<Rightarrow>
          (case prefixed ''.eyJ'' token_char 1 None (drop a s) of
             None \<Rightarrow> None
           | Some b \<Rightarrow> map_option (\<lambda>c. a + b + c) (prefixed ''.'' token_char 1 None (drop (a + b) s))))"

definition no_word_before :: "char option \<Rightarrow> bool" where
  "no_word_before prev \<longleftrightarrow> (case prev of None \<Rightarrow> True | Some c \<Rightarrow> \<not> word_char c)"

text \<open>Behind the name: the keyword, an equals sign and the value.\<close>

definition assignment :: "string \<Rightarrow> string \<Rightarrow> nat option" where
  "assignment kw s =
     (let a = length kw + run_of js_space (drop (length kw) s); b = a + 1 + run_of js_space (drop (a + 1) s);
          v = run_of (\<lambda>c. \<not> js_space c) (drop b s)
      in if starts_with kw s \<and> starts_with ''='' (drop a s) \<and> v \<ge> 1 then Some (b + v) else None)"

definition assignments :: "string \<Rightarrow> nat option" where
  "assignments s = (case List.map_filter (\<lambda>kw. assignment kw s) [''API_KEY'', ''SECRET'', ''TOKEN'', ''PASSWORD''] of [] \<Rightarrow> None | n # _ \<Rightarrow> Some n)"

text \<open>The name gives characters back until a keyword follows.\<close>

fun backtrack :: "string \<Rightarrow> nat \<Rightarrow> nat option" where
  "backtrack s 0 = assignments s"
| "backtrack s (Suc k) = (case assignments (drop (Suc k) s) of Some n \<Rightarrow> Some (Suc k + n) | None \<Rightarrow> backtrack s k)"

definition api_key_assign :: pattern where
  "api_key_assign prev s =
     (case s of
        [] \<Rightarrow> None
      | c # cs \<Rightarrow> if no_word_before prev \<and> char_in CHR ''A'' CHR ''Z'' c then map_option Suc (backtrack cs (run_of upper_char cs)) else None)"

definition hex40 :: pattern where
  "hex40 prev s =
     (if no_word_before prev \<and> length s \<ge> 40 \<and> list_all hex_char (take 40 s) \<and> no_word_before (case drop 40 s of [] \<Rightarrow> None | c # _ \<Rightarrow> Some c)
      then Some 40 else None)"

definition DEFAULT_PATTERNS :: "(string \<times> pattern) list" where
  "DEFAULT_PATTERNS =
     [(''anthropic_key'', prefixed ''sk-ant-'' token_char 20), (''openai_project_key'', prefixed ''sk-proj-'' token_char 20),
      (''openai_key'', prefixed ''sk-'' alnum 32), (''github_pat'', prefixed ''ghp_'' alnum 30),
      (''github_server_token'', prefixed ''ghs_'' alnum 30), (''github_oauth'', prefixed ''gho_'' alnum 30),
      (''github_user_refresh'', prefixed ''ghr_'' alnum 30), (''jwt'', jwt), (''api_key_assign'', api_key_assign), (''hex40'', hex40)]"

text \<open>\<^verbatim>\<open>replace\<close> with a global expression.\<close>

function replace_all :: "pattern \<Rightarrow> string \<Rightarrow> char option \<Rightarrow> string \<Rightarrow> string" where
  "replace_all m marker prev [] = []"
| "replace_all m marker prev (c # cs) =
     (case m prev (c # cs) of
        Some (Suc k) \<Rightarrow> marker @ replace_all m marker (Some (last (take (Suc k) (c # cs)))) (drop k cs)
      | _ \<Rightarrow> c # replace_all m marker (Some c) cs)"
  by pat_completeness auto
termination by (relation "measure (\<lambda>(m, marker, prev, s). length s)") auto

section \<open>The redactor\<close>

record Redactor =
  rd_patterns :: "(string \<times> pattern) list"
  minRegisterLength :: nat
  registered :: "(string \<times> nat) list"

definition new_Redactor :: Redactor where
  "new_Redactor = \<lparr>rd_patterns = DEFAULT_PATTERNS, minRegisterLength = 12, registered = []\<rparr>"

definition register :: "(string \<Rightarrow> string) \<Rightarrow> string \<Rightarrow> Redactor \<Rightarrow> string + Redactor" where
  "register sha256Hex secret r =
     (if length secret < minRegisterLength r then Inl ''register() secrets are too short''
      else Inr (r\<lparr>registered := AList.update (sha256Hex secret) (length secret) (registered r)\<rparr>))"

record span =
  sp_start :: nat
  sp_end :: nat
  sp_label :: string

definition marker_of :: "string \<Rightarrow> string" where
  "marker_of label = ''<'' @ (''REDACTED:'' @ label) @ ''>''"

definition value_label :: "string \<Rightarrow> string" where
  "value_label digest = ''value:'' @ take 8 digest"

definition spans_of_length :: "(string \<Rightarrow> string) \<Rightarrow> Redactor \<Rightarrow> string \<Rightarrow> nat \<Rightarrow> span list" where
  "spans_of_length sha256Hex r text len =
     (if len > length text then []
      else List.map_filter
        (\<lambda>i. let digest = sha256Hex (take len (drop i text))
             in if map_of (registered r) digest = None then None
                else Some \<lparr>sp_start = i, sp_end = i + len, sp_label = value_label digest\<rparr>)
        [0..<Suc (length text - len)])"

text \<open>Sorted by start, the longer of two with one start first.\<close>

definition sort_spans :: "span list \<Rightarrow> span list" where
  "sort_spans ss = sort_key sp_start (sort_key (\<lambda>s. - int (sp_end s)) ss)"

fun merge_spans :: "span list \<Rightarrow> span list" where
  "merge_spans [] = []"
| "merge_spans [s] = [s]"
| "merge_spans (s # t # ss) =
     (if sp_start t \<le> sp_end s then merge_spans (s\<lparr>sp_end := max (sp_end s) (sp_end t)\<rparr> # ss) else s # merge_spans (t # ss))"

fun build_masked :: "string \<Rightarrow> nat \<Rightarrow> span list \<Rightarrow> string" where
  "build_masked text cursor [] = drop cursor text"
| "build_masked text cursor (s # ss) =
     take (sp_start s - cursor) (drop cursor text) @ marker_of (sp_label s) @ build_masked text (sp_end s) ss"

definition maskRegisteredValues :: "(string \<Rightarrow> string) \<Rightarrow> Redactor \<Rightarrow> string \<Rightarrow> string" where
  "maskRegisteredValues sha256Hex r text =
     (if registered r = [] then text
      else
        let spans = concat (map (spans_of_length sha256Hex r text) (rev (remdups (rev (map snd (registered r))))))
        in if spans = [] then text else build_masked text 0 (merge_spans (sort_spans spans)))"

definition redact :: "(string \<Rightarrow> string) \<Rightarrow> Redactor \<Rightarrow> string \<Rightarrow> string" where
  "redact sha256Hex r text =
     (if text = [] then text
      else fold (\<lambda>(label, m) out. replace_all m (marker_of label) None out) (rd_patterns r) (maskRegisteredValues sha256Hex r text))"


section \<open>What the output cannot contain\<close>

lemma has_substring_part: "has_substring p s \<Longrightarrow> has_substring p (a @ s @ b)"
  unfolding has_substring_iff by (metis append.assoc)

lemma substring_avoids:
  assumes "has_substring p (xs @ c # ys)" "c \<notin> set p"
  shows "has_substring p xs \<or> has_substring p ys"
proof -
  obtain a b where e: "xs @ c # ys = a @ p @ b"
    using assms(1) unfolding has_substring_iff by blast
  have "(\<exists>us. xs @ us = a \<and> c # ys = us @ p @ b) \<or> (\<exists>us. xs = a @ us \<and> us @ c # ys = p @ b)"
    using e unfolding append_eq_append_conv2 by metis
  then consider us where "xs @ us = a" "c # ys = us @ p @ b" | us where "xs = a @ us" "us @ c # ys = p @ b"
    by blast
  then show ?thesis
  proof cases
    case 1
    show ?thesis
    proof (cases us)
      case Nil
      then show ?thesis using 1 assms(2) by (cases p) (auto simp: has_substring_iff)
    next
      case (Cons d ds)
      then show ?thesis using 1 by (auto simp: has_substring_iff)
    qed
  next
    case 2
    then have "(\<exists>vs. us @ vs = p \<and> c # ys = vs @ b) \<or> (\<exists>vs. us = p @ vs \<and> vs @ c # ys = b)"
      unfolding append_eq_append_conv2 by metis
    then show ?thesis
    proof
      assume "\<exists>vs. us @ vs = p \<and> c # ys = vs @ b"
      then obtain vs where vs: "us @ vs = p" "c # ys = vs @ b" by blast
      then have "vs = []" using assms(2) by (cases vs) auto
      then have "xs = a @ p @ []" using vs 2 by simp
      then show ?thesis unfolding has_substring_iff by blast
    next
      assume "\<exists>vs. us = p @ vs \<and> vs @ c # ys = b"
      then show ?thesis using 2 by (auto simp: has_substring_iff)
    qed
  qed
qed

text \<open>A secret that a marker cannot contain and that does not run over its ends.\<close>

definition maskable :: "string \<Rightarrow> string \<Rightarrow> bool" where
  "maskable secret label \<longleftrightarrow>
     secret \<noteq> [] \<and> CHR ''<'' \<notin> set secret \<and> CHR ''>'' \<notin> set secret \<and> \<not> has_substring secret (''REDACTED:'' @ label)"

lemma around_marker:
  assumes "maskable secret label" "\<not> has_substring secret a" "\<not> has_substring secret b"
  shows "\<not> has_substring secret (a @ marker_of label @ b)"
proof
  assume "has_substring secret (a @ marker_of label @ b)"
  then have "has_substring secret (a @ CHR ''<'' # ((''REDACTED:'' @ label) @ CHR ''>'' # b))"
    by (simp add: marker_of_def)
  from substring_avoids[OF this] have "has_substring secret ((''REDACTED:'' @ label) @ CHR ''>'' # b)"
    using assms(1,2) by (simp add: maskable_def)
  from substring_avoids[OF this] show False
    using assms(1,3) by (simp add: maskable_def)
qed

lemma replace_all_clean:
  assumes "maskable secret label" "\<not> has_substring secret (pre @ s)"
  shows "\<not> has_substring secret (pre @ replace_all m (marker_of label) prev s)"
  using assms(2)
proof (induction m "marker_of label" prev s arbitrary: pre rule: replace_all.induct)
  case (1 m prev)
  then show ?case by simp
next
  case (2 m prev c cs)
  show ?case
  proof (cases "m prev (c # cs)")
    case None
    then show ?thesis using 2(1)[of "pre @ [c]"] 2(4) by simp
  next
    case (Some n)
    show ?thesis
    proof (cases n)
      case 0
      then show ?thesis using Some 2(2)[of n "pre @ [c]"] 2(4) by simp
    next
      case (Suc k)
      have "pre @ c # cs = (pre @ c # take k cs) @ drop k cs @ []" by simp
      then have "\<not> has_substring secret (drop k cs)" "\<not> has_substring secret pre"
        using 2(4) has_substring_part[of secret "drop k cs" "pre @ c # take k cs" "[]"] has_substring_part[of secret pre "[]" "c # cs"]
        by auto
      then show ?thesis
        using Some Suc 2(3)[of n k "[]"] around_marker[OF assms(1)] by simp
    qed
  qed
qed

section \<open>Spans\<close>

definition occurs_at :: "string \<Rightarrow> string \<Rightarrow> nat \<Rightarrow> bool" where
  "occurs_at secret text i \<longleftrightarrow> i + length secret \<le> length text \<and> take (length secret) (drop i text) = secret"

definition covered :: "span list \<Rightarrow> nat \<Rightarrow> nat \<Rightarrow> bool" where
  "covered ss i j \<longleftrightarrow> (\<exists>t\<in>set ss. sp_start t \<le> i \<and> j \<le> sp_end t)"

lemma occurs_within:
  assumes "has_substring secret (take n (drop k text))" "secret \<noteq> []"
  obtains i where "k \<le> i" "i + length secret \<le> k + n" "occurs_at secret text i"
proof -
  obtain a b where e: "take n (drop k text) = a @ secret @ b"
    using assms(1) unfolding has_substring_iff by blast
  then have l: "length a + length secret \<le> n" "length a + length secret \<le> length text - k"
    by (metis length_append length_take add.assoc le_add1 min.bounded_iff length_drop)+
  have "take (length secret) (drop (length a) (take n (drop k text))) = secret"
    by (simp add: e)
  then have "take (length secret) (drop (k + length a) text) = secret"
    using l by (simp add: drop_take add.commute min_absorb1)
  then have "occurs_at secret text (k + length a)"
    using l assms(2) by (cases secret) (auto simp: occurs_at_def)
  then show ?thesis using l by (intro that[of "k + length a"]) simp_all
qed

lemma build_masked_clean:
  assumes "secret \<noteq> []"
    and "\<And>i. occurs_at secret text i \<Longrightarrow> cursor \<le> i \<Longrightarrow> covered ss i (i + length secret)"
    and "sorted_wrt (\<lambda>s t. sp_end s < sp_start t) ss"
    and "\<forall>t\<in>set ss. cursor \<le> sp_end t \<and> sp_start t \<le> sp_end t \<and> maskable secret (sp_label t)"
  shows "\<not> has_substring secret (build_masked text cursor ss)"
  using assms(2-)
proof (induction ss arbitrary: cursor)
  case Nil
  have "take (length text) (drop cursor text) = drop cursor text" by simp
  then show ?case
    using Nil.prems(1) assms(1) occurs_within[of secret "length text" cursor "text"]
    by (metis build_masked.simps(1) covered_def empty_iff list.set(1))
next
  case (Cons s ss)
  have gap: "\<not> has_substring secret (take (sp_start s - cursor) (drop cursor text))"
  proof
    assume "has_substring secret (take (sp_start s - cursor) (drop cursor text))"
    then obtain i where i: "cursor \<le> i" "i + length secret \<le> cursor + (sp_start s - cursor)" "occurs_at secret text i"
      using occurs_within assms(1) by blast
    then obtain t where "t \<in> set (s # ss)" "sp_start t \<le> i"
      using Cons.prems(1) unfolding covered_def by blast
    moreover have "sp_start s \<le> sp_start t" if "t \<in> set (s # ss)"
      using that Cons.prems(2,3) by fastforce
    ultimately have "sp_start s \<le> i" by simp
    then have "length secret = 0" using i by linarith
    then show False using assms(1) by simp
  qed
  have "\<not> has_substring secret (build_masked text (sp_end s) ss)"
  proof (rule Cons.IH)
    fix i assume i: "occurs_at secret text i" "sp_end s \<le> i"
    moreover have "cursor \<le> sp_end s" using Cons.prems(3) by simp
    ultimately have "covered (s # ss) i (i + length secret)" using Cons.prems(1) by simp
    moreover have "0 < length secret" using assms(1) by simp
    ultimately show "covered ss i (i + length secret)"
      using i by (auto simp: covered_def)
  next
    show "sorted_wrt (\<lambda>s t. sp_end s < sp_start t) ss" using Cons.prems(2) by simp
  next
    show "\<forall>t\<in>set ss. sp_end s \<le> sp_end t \<and> sp_start t \<le> sp_end t \<and> maskable secret (sp_label t)"
      using Cons.prems(2,3) by fastforce
  qed
  then show ?case
    using around_marker[OF _ gap, of "sp_label s"] Cons.prems(3) by simp
qed

lemma merge_spans_starts:
  assumes "sorted_wrt (\<lambda>s t. sp_start s \<le> sp_start t) (s # ss)" "u \<in> set (merge_spans (s # ss))"
  shows "sp_start s \<le> sp_start u"
  using assms
proof (induction "s # ss" arbitrary: s ss rule: merge_spans.induct)
  case (3 s t ss)
  then show ?case by (cases "sp_start t \<le> sp_end s") fastforce+
qed simp

lemma merge_spans_separated:
  assumes "sorted_wrt (\<lambda>s t. sp_start s \<le> sp_start t) ss"
  shows "sorted_wrt (\<lambda>s t. sp_end s < sp_start t) (merge_spans ss)"
  using assms
proof (induction ss rule: merge_spans.induct)
  case (3 s t ss)
  show ?case
  proof (cases "sp_start t \<le> sp_end s")
    case True
    then show ?thesis using 3 by simp
  next
    case False
    then show ?thesis using 3 merge_spans_starts[of t ss] by fastforce
  qed
qed simp_all

lemma merge_spans_covers:
  assumes "sorted_wrt (\<lambda>s t. sp_start s \<le> sp_start t) ss" "covered ss i j"
  shows "covered (merge_spans ss) i j"
  using assms
proof (induction ss rule: merge_spans.induct)
  case (3 s t ss)
  show ?case
  proof (cases "sp_start t \<le> sp_end s")
    case True
    have "covered (s\<lparr>sp_end := max (sp_end s) (sp_end t)\<rparr> # ss) i j"
      using 3(3,4) by (auto simp: covered_def)
    then show ?thesis using True 3 by simp
  next
    case False
    then show ?thesis using 3 by (auto simp: covered_def)
  qed
qed simp_all

lemma merge_spans_keeps:
  assumes "\<forall>t\<in>set ss. sp_start t \<le> sp_end t \<and> P (sp_label t)"
  shows "\<forall>t\<in>set (merge_spans ss). sp_start t \<le> sp_end t \<and> P (sp_label t)"
  using assms by (induction ss rule: merge_spans.induct) auto

section \<open>Registered values\<close>

lemma register_lookup: "register sha256Hex secret r = Inr r' \<Longrightarrow> map_of (registered r') (sha256Hex secret) = Some (length secret)"
  by (auto simp: register_def update_conv' split: if_splits)

lemma register_keeps:
  assumes "register sha256Hex other r = Inr r'" "sha256Hex other \<noteq> d"
  shows "map_of (registered r') d = map_of (registered r) d"
  using assms by (auto simp: register_def update_conv' split: if_splits)

lemma in_spans_of_length:
  "s \<in> set (spans_of_length sha256Hex r text len) \<longleftrightarrow>
     (\<exists>i. i + len \<le> length text \<and> map_of (registered r) (sha256Hex (take len (drop i text))) \<noteq> None
        \<and> s = \<lparr>sp_start = i, sp_end = i + len, sp_label = value_label (sha256Hex (take len (drop i text)))\<rparr>)"
proof (cases "len \<le> length text")
  case True
  then have "i < Suc (length text - len) \<longleftrightarrow> i + len \<le> length text" for i by linarith
  moreover have "s \<in> set (List.map_filter f xs) \<longleftrightarrow> (\<exists>x\<in>set xs. f x = Some s)" for f and xs :: "nat list"
    by (force simp: List.map_filter_def)
  ultimately show ?thesis
    using True by (auto simp del: upt_Suc simp add: spans_of_length_def Let_def split: if_splits)
qed (simp add: spans_of_length_def)

lemma spans_of_length_valid:
  assumes "s \<in> set (spans_of_length sha256Hex r text len)"
  shows "sp_start s \<le> sp_end s" "\<exists>d. d \<in> fst ` set (registered r) \<and> sp_label s = value_label d"
  using assms by (auto simp: in_spans_of_length map_of_eq_None_iff) force

lemma spans_of_length_covers:
  assumes "map_of (registered r) (sha256Hex secret) \<noteq> None" "occurs_at secret text i"
  shows "covered (spans_of_length sha256Hex r text (length secret)) i (i + length secret)"
  using assms unfolding covered_def occurs_at_def
  by (intro bexI[of _ "\<lparr>sp_start = i, sp_end = i + length secret, sp_label = value_label (sha256Hex secret)\<rparr>"])
    (auto simp: in_spans_of_length)

lemma sort_spans_sorted: "sorted_wrt (\<lambda>s t. sp_start s \<le> sp_start t) (sort_spans ss)"
  using sorted_sort_key[of sp_start] by (simp add: sort_spans_def sorted_map)

lemma set_sort_spans [simp]: "set (sort_spans ss) = set ss"
  by (simp add: sort_spans_def)

lemma mask_registered_clean:
  assumes "map_of (registered r) (sha256Hex secret) = Some (length secret)"
    and "\<forall>d\<in>fst ` set (registered r). maskable secret (value_label d)"
  shows "\<not> has_substring secret (maskRegisteredValues sha256Hex r text)"
proof -
  define spans where "spans = concat (map (spans_of_length sha256Hex r text) (rev (remdups (rev (map snd (registered r))))))"
  have member: "(sha256Hex secret, length secret) \<in> set (registered r)"
    using assms(1) by (rule map_of_SomeD)
  then have ne: "secret \<noteq> []" and len: "length secret \<in> snd ` set (registered r)"
    using assms(2) by (force simp: maskable_def)+
  have cover: "covered spans i (i + length secret)" if "occurs_at secret text i" for i
    using spans_of_length_covers[of r sha256Hex secret "text" i] assms(1) that len
    by (force simp: spans_def covered_def)
  have valid: "\<forall>t\<in>set spans. sp_start t \<le> sp_end t \<and> maskable secret (sp_label t)"
    using spans_of_length_valid[of _ sha256Hex r "text"] assms(2) by (force simp: spans_def)
  have "\<not> has_substring secret (build_masked text 0 (merge_spans (sort_spans spans)))"
  proof (rule build_masked_clean[OF ne])
    show "covered (merge_spans (sort_spans spans)) i (i + length secret)" if "occurs_at secret text i" "0 \<le> i" for i
      using merge_spans_covers[OF sort_spans_sorted] cover[OF that(1)] by (simp add: covered_def)
    show "sorted_wrt (\<lambda>s t. sp_end s < sp_start t) (merge_spans (sort_spans spans))"
      by (rule merge_spans_separated[OF sort_spans_sorted])
    show "\<forall>t\<in>set (merge_spans (sort_spans spans)). 0 \<le> sp_end t \<and> sp_start t \<le> sp_end t \<and> maskable secret (sp_label t)"
      using merge_spans_keeps[of "sort_spans spans" "maskable secret"] valid by simp
  qed
  moreover have "build_masked text 0 (merge_spans (sort_spans spans)) = text" if "spans = []"
    using that by (simp add: sort_spans_def)
  ultimately show ?thesis
    using member by (auto simp: maskRegisteredValues_def spans_def[symmetric] Let_def)
qed

text \<open>C11: A registered secret does not occur in redacted text, whatever the text and however often and overlapping it
  occurs there, as long as no marker can contain the secret: the windows of the registered lengths are masked, the
  merged spans cover every occurrence, and the patterns that run afterwards do not put a secret together again.\<close>

theorem registered_secret_gone:
  assumes "map_of (registered r) (sha256Hex secret) = Some (length secret)"
    and "\<forall>d\<in>fst ` set (registered r). maskable secret (value_label d)"
    and "\<forall>p\<in>set (rd_patterns r). maskable secret (fst p)"
  shows "\<not> has_substring secret (redact sha256Hex r text)"
proof -
  have step: "\<not> has_substring secret (fold (\<lambda>(label, m) out. replace_all m (marker_of label) None out) ps out)"
    if "\<not> has_substring secret out" "\<forall>p\<in>set ps. maskable secret (fst p)" for ps out
    using that
  proof (induction ps arbitrary: out)
    case (Cons p ps)
    then show ?case using replace_all_clean[of secret "fst p" "[]"] by (cases p) simp
  qed simp
  have "secret \<noteq> []"
    using map_of_SomeD[OF assms(1)] assms(2) by (force simp: maskable_def)
  then show ?thesis
    using step[OF mask_registered_clean[of r sha256Hex secret "text", OF assms(1,2)] assms(3)] by (auto simp: redact_def has_substring_iff)
qed

theorem registered_secret_gone_witness:
  "\<not> has_substring ''aba-aba-aba-a''
      (redact (\<lambda>s. s) (new_Redactor\<lparr>registered := [(''aba-aba-aba-a'', 13)]\<rparr>) ''x=aba-aba-aba-aba-aba-a!'')"
  by (rule registered_secret_gone)
    (simp_all add: new_Redactor_def DEFAULT_PATTERNS_def maskable_def value_label_def starts_with_def eval_nat_numeral)

text \<open>A placeholder is matched by a later pattern, and the text behind it as far as the next space goes with it.\<close>

lemma placeholder_swallowed:
  "redact (\<lambda>s. s) (new_Redactor\<lparr>registered := [(''0123456789ab'', 12)]\<rparr>) ''A_TOKEN=0123456789ab,x y''
     = ''<REDACTED:api_key_assign> y''"
  by code_simp

text \<open>The secret is found in the pieces of a text only when one of them holds all of it.\<close>

lemma split_secret_shown:
  "redact (\<lambda>s. s) (new_Redactor\<lparr>registered := [(''0123456789ab'', 12)]\<rparr>) ''key 012345''
     @ redact (\<lambda>s. s) (new_Redactor\<lparr>registered := [(''0123456789ab'', 12)]\<rparr>) ''6789ab.'' = ''key 0123456789ab.''"
  by code_simp

end
