(* ===== verification/Spec2Isabelle.thy ===== *)
theory Spec2Isabelle
  imports Globs Leases Mailbox Json_Text Event_Bus Restart_Policy Supervisor Supervision Swarm
    Flow_Graph Flow_Engine Flow_Run Flow_Resume Shell_Gate Path_Scope Permission Audit_Chain Egress Watchdog_Signals Watchdog
    Rate_Limiter Ulid Base58 Webhook Diff_Overlap Escalation
    Framing Acp_Client Pi_Client Review_Flow Ci_Logs Ci_Gate
    Adapter_Streams Claude_Handle Worktrees Redactor
begin

text \<open>
  A verification development for Shamu, an orchestrator of coding agents written in TypeScript. The program
  starts vendor agents in git worktrees, gates what they do, lets them claim files, exchange messages and
  run as nodes of a flow, supervises the processes that run them and watches the event log for runs that
  are stuck.

  \<^bold>\<open>How the parts interact.\<close> A flow run walks a graph of nodes; an agent node starts a worker of a role
  supervisor; the worker's tool calls pass a permission handler, and its network traffic a proxy; before
  it writes, an agent takes a lease on a glob, and a git hook checks the staged paths against the leases;
  agents talk through a mailbox; control actions are chained into an audit table; a watchdog reads the
  tables and raises alerts; a supervisor that runs out of restarts escalates to its role or to the swarm.

  \<^bold>\<open>Theories and sources\<close> (paths below \<^verbatim>\<open>src/packages\<close>). Every theory opens with what it models; definitions
  keep the names of the source.

  \<^item> \<open>Shamu_Prelude\<close>: results as sums, JavaScript strings and paths, decimal text, keyed tables (locale
    \<open>keyed_table\<close>) and runs of a transition function (locale \<open>stepping\<close>), shared by all.
  \<^item> Coordination. \<open>Globs\<close> (\<^verbatim>\<open>mailbox/src/globs.ts\<close>), \<open>Leases\<close> (\<^verbatim>\<open>auth.ts\<close>, \<^verbatim>\<open>leases.ts\<close>, \<^verbatim>\<open>pre-commit.ts\<close>,
    \<^verbatim>\<open>escalation.ts\<close> and the lease queries), \<open>Mailbox\<close> (\<^verbatim>\<open>mailbox.ts\<close>, \<^verbatim>\<open>materialize.ts\<close> and the message queries).
    State: the lease and message tables as lists of rows, the file system as a map. Shown: in every
    reachable table live leases do not overlap, hence single-writer for plain globs and an exact
    characterization of overlap there, a reachable counterexample for wildcard segments, exact conditions
    and effects of acquire, release, reclaim and the commit guard, and that reconciling makes the exported
    file equal to the table.
  \<^item> Supervision. \<open>Event_Bus\<close> (\<^verbatim>\<open>core/supervisor/src/bus.ts\<close>), \<open>Restart_Policy\<close> (\<^verbatim>\<open>policy.ts\<close>, \<^verbatim>\<open>intensity.ts\<close>),
    \<open>Supervisor\<close> and \<open>Supervision\<close> (\<^verbatim>\<open>supervisor.ts\<close>), \<open>Swarm\<close> (\<^verbatim>\<open>swarm.ts\<close>). State: the roster of child
    records, the running workers, the clock and the log of published events. Shown: over every sequence of
    operations and worker exits the restarts inside a window never exceed the budget, the running workers
    are exactly the ones the supervisor holds, an exhausted budget escalates to the target of the policy and
    stops what it must, and the two restart strategies restart exactly what they name.
  \<^item> Flows. \<open>Json_Text\<close> (\<^verbatim>\<open>core/flow/src/hash.ts\<close>), \<open>Flow_Graph\<close> (topological order of \<^verbatim>\<open>engine.ts\<close>, \<^verbatim>\<open>types.ts\<close>),
    \<open>Flow_Engine\<close>, \<open>Flow_Run\<close> and \<open>Flow_Resume\<close> (the rest of \<^verbatim>\<open>engine.ts\<close>, with \<^verbatim>\<open>state.ts\<close>, \<^verbatim>\<open>events.ts\<close>, \<^verbatim>\<open>runners.ts\<close>).
    State: the run state with node outputs, statuses and costs, and the published events. Shown: the
    canonical text determines a value, the order is sound, complete and stable, no event about a node
    occurs before all its dependencies have succeeded, the runner calls of a run are bounded by its
    definition, the cost is the sum of the samples, and a finished run is replayed without calling a runner.
  \<^item> Gates. \<open>Shell_Gate\<close> and \<open>Path_Scope\<close> (\<^verbatim>\<open>adapters/base/src\<close>), \<open>Permission\<close> (the six
    \<^verbatim>\<open>permission-handler.ts\<close>). Shown: the exact set of commands the shell gate accepts, that accepted paths
    resolve inside the worktree, that every vendor's handler enforces both gates (locale \<open>tool_gate\<close>,
    interpreted for each vendor), and three ways around them.
  \<^item> \<open>Audit_Chain\<close> (\<^verbatim>\<open>persistence/src/queries/audit.ts\<close>). Shown: appended logs verify in every range; two
    verified tables with the same last hash hold the same events; what the chain does not detect.
  \<^item> \<open>Egress\<close> (\<^verbatim>\<open>egress-broker/src\<close>). State: the policy, tracked sockets, emitted events and contacted hosts.
    Shown: over every run of the proxy only permitted hosts are reached, one decision per request.
  \<^item> \<open>Watchdog_Signals\<close> and \<open>Watchdog\<close> (\<^verbatim>\<open>watchdog/src\<close>). State: the agreement buffer, the deduplication map and
    the per-role streaks. Shown: alerts are corroborated and not repeated while their signals last, the
    tool-loop signal and the CI tripwire are exact, and the median splits its sample.

  \<^item> Adapters. \<open>Agent_Events\<close> (\<^verbatim>\<open>shared/src/events.ts\<close>; \<^verbatim>\<open>correlation.ts\<close>, \<^verbatim>\<open>cost-stamping.ts\<close> and \<^verbatim>\<open>tool-result.ts\<close>
    of \<^verbatim>\<open>adapters/base/src\<close>), \<open>Projection\<close> (what the projectors share, and their contract as the locales
    \<open>projector\<close> and \<open>tool_projector\<close>), \<open>Acp_Projection\<close> (Cursor and Gemini), \<open>Amp_Projection\<close>, \<open>Pi_Projection\<close>,
    \<open>Opencode_Projection\<close> (\<^verbatim>\<open>adapters/*/src/projection.ts\<close>), \<open>Codex_Projection\<close> (\<^verbatim>\<open>jsonl-projection.ts\<close>),
    \<open>Adapter_Streams\<close> (the contract read off for all of them) and \<open>Claude_Handle\<close> (\<^verbatim>\<open>hooks.ts\<close>, \<^verbatim>\<open>handle.ts\<close>).
    State: the correlation state with its sequence number, clocks and turn, and the bookkeeping of each
    vendor. Shown: no input makes a projector throw; the logs are numbered, ordered, linked and silent after
    the end of a turn; tools are reported once; the prompt of the user does not reach the log of OpenCode; a
    Pi message is the sum of its deltas; every turn of Claude ends, and what it emits was redacted.
  \<^item> Request clients. \<open>Framing\<close> (locale \<open>line_decoder\<close>, interpreted for both decoders), \<open>Rpc_Desk\<close> (pending
    requests, timers and settled promises; locale \<open>rpc_client\<close>), \<open>Acp_Client\<close> (\<^verbatim>\<open>protocol/acp/src/client.ts\<close>),
    \<open>Pi_Client\<close> (\<^verbatim>\<open>adapters/pi/src/rpc-client.ts\<close>). Shown: frames survive any chunking, a promise settles at
    most once and only with its own result, a closed client leaves none pending but the ones named, server
    requests are answered.
  \<^item> Plan, execute, review. \<open>Review_Prompts\<close> and \<open>Review_Flow\<close> (\<^verbatim>\<open>flows/plan-execute-review/src\<close>), \<open>Ci_Logs\<close> and
    \<open>Ci_Gate\<close> (\<^verbatim>\<open>ci/src\<close>). State: the outputs of the nodes; sessions of agents and runs of the gate are
    arguments. Shown: an approval never stands against a red CI run it was shown, the review loop ends, a
    run counts as green only when no workflow, job or step of it failed, excerpt and records keep their
    budgets.
  \<^item> Linear. \<open>Rate_Limiter\<close> (\<^verbatim>\<open>linear/integration/src/rate-limiter.ts\<close>) and \<open>Webhook\<close> (\<^verbatim>\<open>linear/webhook/src\<close>).
    State: leases out, waiting queue; the cache of nonces and the pushed events. Shown: the caps hold and
    nobody waits while there is room; a request is surfaced exactly when signed, fresh and unseen, and never
    twice.
  \<^item> Identifiers and codecs. \<open>Digits\<close>, \<open>Ulid\<close> (\<^verbatim>\<open>shared/src/ulid.ts\<close>, \<^verbatim>\<open>ids.ts\<close>), \<open>Base58\<close>
    (\<^verbatim>\<open>protocol/a2a/src/cards.ts\<close>). Shown: identifiers of a process increase and pass their own checks, the
    base 58 codec is exact.
  \<^item> Worktrees and secrets. \<open>Worktrees\<close> (\<^verbatim>\<open>worktree/src\<close>, \<^verbatim>\<open>persistence/src/queries/runs.ts\<close> and the reader of
    \<^verbatim>\<open>core/composition\<close>) and \<open>Redactor\<close> (\<^verbatim>\<open>shared/src/redactor.ts\<close>). State: the commands given to git, the runs
    table; the registered digests. Shown: the sweep removes only worktrees of finished runs of the age asked
    for, paths give their run back, and a registered secret does not survive redaction.
  \<^item> Composition. \<open>Escalation\<close> (\<^verbatim>\<open>core/composition/src/escalation-emitter.ts\<close>, \<^verbatim>\<open>ci-tripwire-observer.ts\<close>) and
    \<open>Diff_Overlap\<close> (\<^verbatim>\<open>diff-overlap.ts\<close>). Shown: a refused reclaim and a streak of red runs travel from leases,
    flow bus and tripwire to the swarm and halt it, and the check after a merge reports exactly the shared
    and the flagged files.

  \<^bold>\<open>Modelling choices.\<close> A thrown error is \<open>Inl\<close>, a returned value \<open>Inr\<close>; asynchronous operations run to their
  end one after the other, as the single event loop and the awaits of the source make them. Strings are
  lists of 8-bit characters. Times, counters and sequence numbers are integers, dollars rationals; the
  source stays far below the range where floating point numbers stop being exact integers. SQLite tables
  are lists of rows with their uniqueness constraints; JSON columns hold the parsed value. What the
  repository does not contain is a parameter: git and the worktree probe, file existence and
  \<^verbatim>\<open>realpath\<close>, the shell tokenizer, URL parsing, HMAC and SHA-256, the flow's runners, worker factories and
  clocks. Theorems that need a contract of such a parameter name it as a hypothesis.

  \<^bold>\<open>Termination and fuel.\<close> All loops are structural recursion or have a measure: the topological sort by
  the nodes left and the degrees left, the ancestor walk by the path, the index walks by the index. A loop
  node of a flow runs at most its own \<^verbatim>\<open>maxIterations\<close>, a retried node at most its \<^verbatim>\<open>maxRetries\<close> and the review
  loop at most the iterations of its configuration; the parsers of log lines consume their input. So no
  fuel is needed anywhere and every function is total. Runs of the state machines are finite lists of
  events, of any length.

  \<^bold>\<open>Not modelled.\<close> The command line and the web dashboard; the drivers, handles (but for the turns of Claude)
  and subprocesses of the adapters, the contract harness and the scripted echo adapter; the sockets and the
  container of the proxy; the reaper and the abort path of the CI gate; the Linear client, its comments and
  labels and the tunnel; signatures and transport of A2A and the transport of ACP; migrations and the
  queries of tables no modelled component uses; credentials; the schema checks of events. These are input
  and output around the logic above, or calls of third-party services. What would come next is the handles
  of the other vendors over the projectors modelled here, and the cost queries.
\<close>

end
